(* ===== verification/JsValues.thy ===== *)
theory JsValues
  imports Prelude "HOL-Library.AList"
begin

text \<open>
  The values of JavaScript and JSON the pages and the test script share.

  A JSON object is the list of its entries in order; a property set to \<open>undefined\<close> is an absent one.
  Numbers are integers, \<open>NaN\<close> is an absent value.
\<close>

section \<open>JavaScript values\<close>

datatype jsval = Undefined | Null | JBool bool | JNum int | JStr string

fun js_truthy :: "jsval \<Rightarrow> bool" where
  "js_truthy Undefined = False"
| "js_truthy Null = False"
| "js_truthy (JBool b) = b"
| "js_truthy (JNum n) = (n \<noteq> 0)"
| "js_truthy (JStr s) = (s \<noteq> [])"

text \<open>\<open>String(v)\<close>, and the coercion \<open>join\<close> applies, where the two nullish values are empty.\<close>

fun js_string :: "jsval \<Rightarrow> string" where
  "js_string Undefined = ''undefined''"
| "js_string Null = ''null''"
| "js_string (JBool b) = (if b then ''true'' else ''false'')"
| "js_string (JNum n) = show_int n"
| "js_string (JStr s) = s"

definition js_join_elem :: "jsval \<Rightarrow> string" where
  "js_join_elem v = (if v = Undefined \<or> v = Null then [] else js_string v)"

section \<open>JSON\<close>

datatype json =
    JNull | JBoolean bool | JNumber int | JString string | JArray "json list" | JObject "(string \<times> json) list"

type_synonym object = "(string \<times> json) list"

fun json_truthy :: "json option \<Rightarrow> bool" where
  "json_truthy None = False"
| "json_truthy (Some JNull) = False"
| "json_truthy (Some (JBoolean b)) = b"
| "json_truthy (Some (JNumber n)) = (n \<noteq> 0)"
| "json_truthy (Some (JString s)) = (s \<noteq> [])"
| "json_truthy (Some _) = True"

text \<open>\<open>Object.assign(target, source)\<close>, also the spread of object literals.\<close>

definition object_assign :: "object \<Rightarrow> object \<Rightarrow> object" where
  "object_assign target source = foldl (\<lambda>t (k, v). AList.update k v t) target source"

definition set_prop :: "string \<Rightarrow> json option \<Rightarrow> object \<Rightarrow> object" where
  "set_prop k v ob = (case v of None \<Rightarrow> AList.delete k ob | Some j \<Rightarrow> AList.update k j ob)"

definition utf8 :: "nat list \<Rightarrow> string" where
  "utf8 bs = map char_of bs"

fun digits_value :: "string \<Rightarrow> int \<Rightarrow> int option" where
  "digits_value [] acc = Some acc"
| "digits_value (c # cs) acc =
     (let n = (of_char c :: nat) in
      if 48 \<le> n \<and> n \<le> 57 then digits_value cs (acc * 10 + int (n - 48)) else None)"

text \<open>
  \<open>Number(s)\<close> on decimal integers with an optional sign; blank is 0; \<open>None\<close> is \<open>NaN\<close>, which also
  stands for the fractions, exponents and other radixes no client sends here.
\<close>

definition js_Number :: "string \<Rightarrow> int option" where
  "js_Number s =
     (case trim s of
        [] \<Rightarrow> Some 0
      | c # cs \<Rightarrow>
          if c = CHR ''-'' \<and> cs \<noteq> [] then map_option uminus (digits_value cs 0)
          else if c = CHR ''+'' \<and> cs \<noteq> [] then digits_value cs 0
          else digits_value (c # cs) 0)"

definition str_prop :: "string \<Rightarrow> object \<Rightarrow> json option" where
  "str_prop k ob = map_of ob k"

text \<open>A scalar property; none of those read this way ever holds an array or an object.\<close>

fun jsval_of_json :: "json option \<Rightarrow> jsval" where
  "jsval_of_json None = Undefined"
| "jsval_of_json (Some JNull) = Null"
| "jsval_of_json (Some (JBoolean b)) = JBool b"
| "jsval_of_json (Some (JNumber n)) = JNum n"
| "jsval_of_json (Some (JString s)) = JStr s"
| "jsval_of_json (Some (JArray xs)) = Undefined"
| "jsval_of_json (Some (JObject ob)) = Undefined"

text \<open>\<open>v || {}\<close> for a property that is read further.\<close>

definition object_of :: "json option \<Rightarrow> object" where
  "object_of v = (case v of Some (JObject ob) \<Rightarrow> ob | _ \<Rightarrow> [])"

text \<open>\<open>Number(v)\<close> of a property.\<close>

fun number_of :: "json option \<Rightarrow> int option" where
  "number_of (Some (JNumber n)) = Some n"
| "number_of (Some (JString s)) = js_Number s"
| "number_of (Some (JBoolean b)) = Some (if b then 1 else 0)"
| "number_of (Some JNull) = Some 0"
| "number_of _ = None"

text \<open>\<open>v ?? w\<close> and \<open>v || w\<close>.\<close>

definition nullish :: "json option \<Rightarrow> json \<Rightarrow> json" where
  "nullish v w = (case v of None \<Rightarrow> w | Some JNull \<Rightarrow> w | Some x \<Rightarrow> x)"

definition js_or :: "json option \<Rightarrow> json \<Rightarrow> json" where
  "js_or v w = (if json_truthy v then the v else w)"

text \<open>\<open>String(v)\<close> of a property, and of a property that defaults to the empty string.\<close>

definition prop_string :: "json option \<Rightarrow> string" where
  "prop_string v = js_string (jsval_of_json v)"

definition text_prop :: "string \<Rightarrow> object \<Rightarrow> string" where
  "text_prop k ob = (if json_truthy (str_prop k ob) then prop_string (str_prop k ob) else [])"

text \<open>An object literal; properties that are \<open>undefined\<close> are absent.\<close>

definition literal :: "(string \<times> json option) list \<Rightarrow> object" where
  "literal kvs = List.map_filter (\<lambda>(k, v). map_option (Pair k) v) kvs"

lemma map_of_filter_key: "P k \<Longrightarrow> map_of (filter (\<lambda>(k, v). P k) xs) k = map_of xs k"
  by (induction xs) auto

lemma literal_Cons [simp]: "literal ((k, v) # kvs) = (case v of None \<Rightarrow> [] | Some j \<Rightarrow> [(k, j)]) @ literal kvs"
  by (simp add: literal_def List.map_filter_simps split: option.split)

lemma literal_Nil [simp]: "literal [] = []"
  by (simp add: literal_def List.map_filter_simps)

lemma literal_keys: "set (map fst (literal kvs)) \<subseteq> set (map fst kvs)"
proof (induction kvs)
  case (Cons p kvs)
  obtain a v where p: "p = (a, v)" by force
  have "set (map fst (literal (p # kvs))) \<subseteq> insert a (set (map fst (literal kvs)))" by (cases v) (auto simp: p)
  then show ?case using Cons by (simp add: p) blast
qed simp

lemma str_prop_literal: "distinct (map fst kvs) \<Longrightarrow> str_prop k (literal kvs) = (case map_of kvs k of None \<Rightarrow> None | Some v \<Rightarrow> v)"
proof (induction kvs)
  case (Cons p kvs)
  obtain a v where p: "p = (a, v)" by force
  have "map_of (literal kvs) a = None" using Cons.prems literal_keys [of kvs] by (auto simp: p map_of_eq_None_iff)
  moreover have "map_of kvs a = None" using Cons.prems by (simp add: p map_of_eq_None_iff)
  ultimately show ?case using Cons by (auto simp: p str_prop_def split: option.splits)
qed (simp add: str_prop_def)

lemma distinct_literal: "distinct (map fst kvs) \<Longrightarrow> distinct (map fst (literal kvs))"
proof (induction kvs)
  case (Cons p kvs)
  obtain a v where p: "p = (a, v)" by force
  have "a \<notin> set (map fst (literal kvs))" using Cons.prems literal_keys [of kvs] by (auto simp: p)
  then show ?case using Cons by (auto simp: p split: option.splits)
qed simp

end
