(* ===== verification/AdminUi.thy ===== *)
theory AdminUi
  imports JsValues
begin

text \<open>
  The shared code of the list pages, \<open>src/admin/resource/dist/js/admin-ui.js\<close>: the row helpers
  (\<open>isRunning\<close>, \<open>countRows\<close>, \<open>stateLabel\<close>, \<open>stateClass\<close>, \<open>healthLabel\<close>, \<open>endpointProto\<close>,
  \<open>endpointAddr\<close>), the computed properties (\<open>memberOptions\<close>, \<open>filteredRows\<close>, \<open>listCounts\<close>) and
  the asynchronous methods (\<open>loadList\<close>, \<open>saveConfiguration\<close>, \<open>setDisabled\<close>).

  A page is a record. A call of \<open>axios.post\<close> puts the promise chain that waits for the reply into
  \<open>inflight\<close>; the environment answers the chains in any order. An XHR completion is one task of
  the event loop, so the handlers of one chain run without interleaving up to the next \<open>post\<close>;
  a handler that returns the promise of \<open>tableData\<close> leaves its \<open>finally\<close> attached to that load
  (the continuation of the load).

  Texts shown in Chinese are constructors of \<open>ui_text\<close>; \<open>Engine\<close> is the message of a TypeError.
\<close>

section \<open>Library functions\<close>

text \<open>\<open>Array.from(new Set(xs))\<close> keeps the first occurrence of every element.\<close>

definition js_uniq :: "'a list \<Rightarrow> 'a list" where
  "js_uniq xs = rev (remdups (rev xs))"

text \<open>\<open>encodeURIComponent\<close> on the UTF-8 bytes, and the percent decoding of a query value.\<close>

definition hex_digit :: "nat \<Rightarrow> char" where
  "hex_digit n = (if n < 10 then char_of (48 + n) else char_of (55 + n))"

definition unhex :: "char \<Rightarrow> nat option" where
  "unhex c = (let n = (of_char c :: nat) in
     if 48 \<le> n \<and> n \<le> 57 then Some (n - 48)
     else if 65 \<le> n \<and> n \<le> 70 then Some (n - 55)
     else if 97 \<le> n \<and> n \<le> 102 then Some (n - 87)
     else None)"

definition uri_unreserved :: "char \<Rightarrow> bool" where
  "uri_unreserved c \<longleftrightarrow> (let n = (of_char c :: nat) in
     (48 \<le> n \<and> n \<le> 57) \<or> (65 \<le> n \<and> n \<le> 90) \<or> (97 \<le> n \<and> n \<le> 122) \<or>
     c \<in> set ''-_.!~*()'' \<or> n = 39)"

definition encodeURIComponent :: "string \<Rightarrow> string" where
  "encodeURIComponent s = concat (map (\<lambda>c.
     if uri_unreserved c then [c]
     else [CHR ''%'', hex_digit (of_char c div 16), hex_digit (of_char c mod 16)]) s)"

fun query_unescape :: "string \<Rightarrow> string option" where
  "query_unescape [] = Some []"
| "query_unescape (c # cs) =
     (if c = CHR ''%'' then
        (case cs of
           h # l # rest \<Rightarrow>
             (case (unhex h, unhex l) of
                (Some a, Some b) \<Rightarrow> map_option (\<lambda>t. char_of (16 * a + b) # t) (query_unescape rest)
              | _ \<Rightarrow> None)
         | _ \<Rightarrow> None)
      else map_option (\<lambda>t. (if c = CHR ''+'' then CHR '' '' else c) # t) (query_unescape cs))"

text \<open>
  A property read on an object literal also finds the properties of \<open>Object.prototype\<close>, which
  are all truthy.
\<close>

definition object_prototype_keys :: "string list" where
  "object_prototype_keys =
     [''constructor'', ''hasOwnProperty'', ''isPrototypeOf'', ''propertyIsEnumerable'', ''toString'',
      ''toLocaleString'', ''valueOf'', ''__proto__'', ''__defineGetter__'', ''__defineSetter__'',
      ''__lookupGetter__'', ''__lookupSetter__'']"

section \<open>Rows and row helpers\<close>

text \<open>A row of a list: the properties the shared code reads, and the others.\<close>

record row =
  row_uuid :: jsval
  row_name :: jsval
  row_disabled :: jsval
  row_status :: jsval
  row_input :: jsval
  row_output :: jsval
  row_listen :: jsval
  row_listen_port :: jsval
  row_type :: jsval
  row_members :: "string list option"
  row_rest :: object

definition isRunning :: "row \<Rightarrow> bool" where
  "isRunning r \<longleftrightarrow> \<not> js_truthy (row_disabled r) \<and> lower (js_string (row_status r)) = ''running''"

record counts =
  c_all :: nat
  c_running :: nat
  c_off :: nat

definition countRows :: "row list \<Rightarrow> counts" where
  "countRows rows =
     \<lparr>c_all = length rows,
      c_running = length (filter isRunning rows),
      c_off = length (filter (\<lambda>r. js_truthy (row_disabled r)) rows)\<rparr>"

datatype ui_text =
    Text string | Engine
  | LoadFailed | LoadFailedRetry | NameRequired | SaveFailed | UpdateFailed | RequestFailed
  | Saved | Toggled string bool
  | StoppedLabel | RunningLabel | AbnormalLabel | PendingLabel
  | HealthyLabel | UnstableLabel | UnavailableLabel | NotProbedLabel | UnknownLabel
  | Inherited string

text \<open>The test \<open>row.status === "error" || /run:/.test(row.status || "")\<close>.\<close>

definition status_abnormal :: "row \<Rightarrow> bool" where
  "status_abnormal r \<longleftrightarrow>
     row_status r = JStr ''error'' \<or>
     contains ''run:'' (if js_truthy (row_status r) then js_string (row_status r) else [])"

definition stateLabel :: "row \<Rightarrow> ui_text" where
  "stateLabel r =
     (if js_truthy (row_disabled r) then StoppedLabel
      else if isRunning r then RunningLabel
      else if status_abnormal r then AbnormalLabel else PendingLabel)"

definition stateClass :: "row \<Rightarrow> string" where
  "stateClass r =
     (if js_truthy (row_disabled r) then ''off''
      else if isRunning r then []
      else if status_abnormal r then ''error'' else ''waiting'')"

definition healthLabel :: "jsval \<Rightarrow> ui_text" where
  "healthLabel v =
     (case map_of [(''up'', HealthyLabel), (''degraded'', UnstableLabel), (''down'', UnavailableLabel),
                   (''disabled'', NotProbedLabel)] (js_string v) of
        Some t \<Rightarrow> t
      | None \<Rightarrow> if js_string v \<in> set object_prototype_keys then Inherited (js_string v) else UnknownLabel)"

text \<open>\<open>showError\<close>: a string is shown as it is, an error by its message, an empty message by a default.\<close>

definition error_text :: "ui_text \<Rightarrow> ui_text" where
  "error_text e = (if e = Text [] then RequestFailed else e)"

section \<open>The shared components\<close>

text \<open>
  The icon paths and the data behind the templates: what each component computes from its
  properties. A lookup in the literal \<open>paths\<close> also finds inherited properties; \<open>None\<close> stands for
  such a value, which is no path.
\<close>

definition paths :: "(string \<times> string) list" where
  "paths =
     [(''tunnel'', ''M4 7h11m-3-3 3 3-3 3M20 17H9m3-3-3 3 3 3M4 5v4m16 6v4''),
      (''output'', ''M4 7h7a5 5 0 0 1 5 5v5m-3-3 3 3 3-3M4 17h4''),
      (''input'', ''M5 4v4a4 4 0 0 0 4 4h10m-3-3 3 3-3 3M5 20v-4a4 4 0 0 1 4-4''),
      (''service'', ''M5 4h14v6H5zM5 14h14v6H5zM8 7h.01M8 17h.01m4-10h4m-4 10h4''),
      (''search'', ''M16 16l4 4M17 10.5a6.5 6.5 0 1 1-13 0 6.5 6.5 0 0 1 13 0''),
      (''plus'', ''M12 5v14M5 12h14''),
      (''import'', ''M12 3v12m-4-4 4 4 4-4M4 15v5h16v-5''),
      (''refresh'', ''M20 10A8 8 0 0 0 6 6L3 9m0-6v6h6M4 14a8 8 0 0 0 14 4l3-3m0 6v-6h-6''),
      (''more'', ''M5 12h.01M12 12h.01M19 12h.01''),
      (''activity'', ''M3 12h4l3-8 4 16 3-8h4''),
      (''logout'', ''M9 4H4v16h5m6-12 4 4-4 4M8 12h11''),
      (''down'', ''m7 10 5 5 5-5''),
      (''info'', ''M12 11v6m0-10h.01M21 12a9 9 0 1 1-18 0 9 9 0 0 1 18 0'')]"

definition icon_path :: "string \<Rightarrow> string option" where
  "icon_path name =
     (case map_of paths name of
        Some d \<Rightarrow> Some d
      | None \<Rightarrow> if name \<in> set object_prototype_keys then None else map_of paths ''tunnel'')"

text \<open>\<open>g-summary\<close>: the figures shown; absent rows count as none.\<close>

definition summary_counts :: "row list option \<Rightarrow> counts" where
  "summary_counts rows = countRows (case rows of None \<Rightarrow> [] | Some rs \<Rightarrow> rs)"

text \<open>\<open>g-list-toolbar\<close>: the buttons with their counts and which one is pressed.\<close>

definition toolbar_buttons :: "string \<Rightarrow> counts \<Rightarrow> (string \<times> nat \<times> bool) list" where
  "toolbar_buttons current c =
     map (\<lambda>(i, n). (i, n, current = i)) [(''all'', c_all c), (''running'', c_running c), (''off'', c_off c)]"

text \<open>\<open>g-list-feedback\<close>: an error hides the loading sign, which hides the empty notice.\<close>

datatype feedback = NoFeedback | ErrorFeedback ui_text | LoadingFeedback | EmptyFeedback

definition list_feedback :: "bool \<Rightarrow> ui_text option \<Rightarrow> bool \<Rightarrow> feedback" where
  "list_feedback loading error noRows =
     (case error of
        Some e \<Rightarrow> ErrorFeedback e
      | None \<Rightarrow> if loading then LoadingFeedback else if noRows then EmptyFeedback else NoFeedback)"

text \<open>\<open>g-list-footer\<close>: total, page size and current page given to the pager, shown only with records.\<close>

definition list_footer :: "int \<Rightarrow> int \<Rightarrow> int option \<Rightarrow> (int \<times> int \<times> int) option" where
  "list_footer count sz pg =
     (if count > 0 then Some (count, if sz = 0 then 20 else sz, case pg of Some n \<Rightarrow> if n = 0 then 1 else n | None \<Rightarrow> 1)
      else None)"

section \<open>The endpoint helpers of the form\<close>

text \<open>\<open>TunnelFormHelper\<close> of \<open>src/admin/view/layout/default.html\<close>.\<close>

definition normalizeProto :: "string \<Rightarrow> string" where
  "normalizeProto p =
     (let p = lower p in
      if p = ''tcpmux'' then ''tcp_mux'' else if p = ''kcpmux'' then ''kcp_mux'' else p)"

definition normalizeMode :: "string \<Rightarrow> string" where
  "normalizeMode m =
     (let m = lower m in
      if m = ''frpc'' \<or> m = ''frps'' \<or> m = ''default'' then m else ''default'')"

definition normalizeCryptMode :: "string \<Rightarrow> string" where
  "normalizeCryptMode m = (let m = lower m in if m = ''gcm'' \<or> m = ''none'' then m else ''none'')"

definition splitEndpoint :: "string \<Rightarrow> string \<Rightarrow> string \<times> string" where
  "splitEndpoint value fallbackProto =
     (if CHR ''@'' \<notin> set value then (normalizeProto fallbackProto, value)
      else (normalizeProto (takeWhile (\<lambda>c. c \<noteq> CHR ''@'') value),
            tl (dropWhile (\<lambda>c. c \<noteq> CHR ''@'') value)))"

definition buildEndpoint :: "string \<Rightarrow> string \<Rightarrow> string" where
  "buildEndpoint proto addr = normalizeProto proto @ ''@'' @ trim addr"

definition getDefaultInAddr :: "string \<Rightarrow> string" where
  "getDefaultInAddr proto =
     (if normalizeProto proto = ''socks5x'' then ''0.0.0.0:1080'' else ''0.0.0.0:4000'')"

text \<open>\<open>splitEndpoint(value, "").proto || "TCP"\<close>; the absent address is shown as a dash, here \<open>None\<close>.\<close>

definition endpointProto :: "string \<Rightarrow> string" where
  "endpointProto value = (let p = fst (splitEndpoint value []) in if p = [] then ''TCP'' else p)"

definition endpointAddr :: "string \<Rightarrow> string option" where
  "endpointAddr value = (let a = snd (splitEndpoint value []) in if a = [] then None else Some a)"

section \<open>The page\<close>

text \<open>
  What a page's \<open>tableData\<close> passes to \<open>loadList\<close> as \<open>normalize\<close>: nothing, the function of the route
  and service pages, or \<open>normalizeTunnelRow\<close>. Two decimals of an integer are the integer.
\<close>

datatype row_kind = PlainRow | RouteRow | TunnelRow

definition normalizeTunnelRow :: "row \<Rightarrow> row" where
  "normalizeTunnelRow r =
     (let dis = js_truthy (row_disabled r);
          quality = object_of (str_prop ''quality_summary'' (row_rest r));
          bandwidth = object_of (str_prop ''bandwidth_summary'' (row_rest r));
          q_status = (if dis then JString ''disabled'' else js_or (str_prop ''status'' quality) (JString ''disabled''));
          rtt = (if q_status = JString ''disabled'' then JNumber (-1) else nullish (str_prop ''rtt_ms'' quality) (JNumber 0));
          loss = (if q_status = JString ''disabled'' then JNumber (-1) else nullish (str_prop ''loss_pct'' quality) (JNumber 0));
          b_status = js_or (str_prop ''status'' bandwidth) (JString ''disabled'');
          mbps = (if b_status = JString ''disabled'' then Some (-1) else number_of (Some (nullish (str_prop ''mbps'' bandwidth) (JNumber 0))));
          display = (case mbps of None \<Rightarrow> ''NaN'' | Some n \<Rightarrow> show_int n) @ ''|'' @ prop_string (Some rtt) @ ''|'' @ prop_string (Some loss);
          rest = set_prop ''bandwidth_mbps'' (map_option JNumber mbps) (row_rest r)
      in r\<lparr>row_disabled := JBool dis, row_status := (if dis then JStr ''disabled'' else row_status r),
           row_rest := object_assign rest [(''quality_status'', q_status), (''quality_rtt'', rtt), (''quality_loss'', loss),
             (''bandwidth_status'', b_status), (''stats_display'', JString display)]\<rparr>)"

fun normalize_row :: "row_kind \<Rightarrow> row \<Rightarrow> row" where
  "normalize_row PlainRow r = r\<lparr>row_disabled := JBool (js_truthy (row_disabled r))\<rparr>"
| "normalize_row RouteRow r =
     r\<lparr>row_disabled := JBool (js_truthy (row_disabled r)),
       row_rest := AList.update ''member_health'' (js_or (str_prop ''member_health'' (row_rest r)) (JObject [])) (row_rest r)\<rparr>"
| "normalize_row TunnelRow r = normalizeTunnelRow r"

text \<open>What \<open>axios.post\<close> was called with.\<close>

datatype body = InfoBody | EmptyBody | ToggleBody jsval bool | SaveBody object

record pagination =
  total_nums :: int
  page_size :: int

record payload =
  p_list :: "row list option"
  p_pagination :: "pagination option"
  p_version :: jsval

datatype reply = Rejected string | Reply (reply_code: jsval) (reply_msg: jsval) (reply_data: "payload option")

text \<open>What waits for the promise of a load, and the chains that wait for a reply.\<close>

datatype cont = KNone | KSave | KToggle string

datatype chain = Load nat cont | Save | Toggle jsval bool

record page =
  searchText :: string
  statusFilter :: string
  listLoading :: bool
  listError :: "ui_text option"
  listRequestId :: nat
  mutationPending :: "string list"
  saving :: bool
  main_data :: "row list"
  pageTotal :: int
  pageSize :: int
  editModal :: bool
  editMembers :: "string list option"
  tunnelOptions :: "string list option"
  queryPage :: string
  routePage :: string
  listEndpoint :: string
  rowKind :: row_kind
  inflight :: "chain list"
  posts :: "(string \<times> body) list"
  messages :: "(bool \<times> ui_text) list"
  versions :: "jsval list"

definition init_page :: "row_kind \<Rightarrow> string \<Rightarrow> page" where
  "init_page rk ep =
     \<lparr>searchText = [], statusFilter = ''all'', listLoading = True, listError = None,
      listRequestId = 0, mutationPending = [], saving = False, main_data = [], pageTotal = 0,
      pageSize = 0, editModal = False, editMembers = None, tunnelOptions = None, queryPage = [],
      routePage = [], listEndpoint = ep, rowKind = rk, inflight = [], posts = [], messages = [], versions = []\<rparr>"

subsection \<open>Computed properties\<close>

definition memberOptions :: "page \<Rightarrow> string list" where
  "memberOptions s =
     js_uniq ((case tunnelOptions s of None \<Rightarrow> [] | Some xs \<Rightarrow> xs) @
              (case editMembers s of None \<Rightarrow> [] | Some xs \<Rightarrow> xs))"

definition listCounts :: "page \<Rightarrow> counts" where
  "listCounts s = countRows (main_data s)"

definition row_text :: "row \<Rightarrow> string" where
  "row_text r =
     lower (join '' ''
       (map js_join_elem [row_name r, row_input r, row_output r, row_listen r, row_listen_port r, row_type r] @
        (case row_members r of None \<Rightarrow> [] | Some ms \<Rightarrow> ms)))"

definition row_visible :: "page \<Rightarrow> row \<Rightarrow> bool" where
  "row_visible s r =
     (let query = lower (trim (searchText s)) in
      if statusFilter s = ''off'' \<and> \<not> js_truthy (row_disabled r) then False
      else if statusFilter s = ''running'' \<and> \<not> isRunning r then False
      else query = [] \<or> contains query (row_text r))"

definition filteredRows :: "page \<Rightarrow> row list" where
  "filteredRows s = filter (row_visible s) (main_data s)"

subsection \<open>Loading the list\<close>

definition page_url :: "string \<Rightarrow> string \<Rightarrow> string" where
  "page_url ep pg = ep @ (if pg = [] then [] else ''?page='' @ encodeURIComponent pg)"

definition loadList :: "cont \<Rightarrow> page \<Rightarrow> page" where
  "loadList k s =
     (let requestId = Suc (listRequestId s) in
      s\<lparr>listRequestId := requestId, listLoading := True, listError := None,
        posts := posts s @ [(page_url (listEndpoint s) (queryPage s), InfoBody)],
        inflight := inflight s @ [Load requestId k]\<rparr>)"

text \<open>
  The \<open>then\<close> handler: the new page and the error it throws. \<open>main_data\<close> is assigned before the
  pagination is read, so a reply without pagination throws after the rows are stored.
\<close>

definition load_then :: "nat \<Rightarrow> reply \<Rightarrow> page \<Rightarrow> page \<times> ui_text option" where
  "load_then requestId r s =
     (case r of
        Rejected m \<Rightarrow> (s, Some (Text m))
      | Reply c m d \<Rightarrow>
          if requestId \<noteq> listRequestId s then (s, None)
          else if c \<noteq> JNum 200 then (s, Some (if js_truthy m then Text (js_string m) else LoadFailed))
          else (case d of
                  None \<Rightarrow> (s, Some Engine)
                | Some p \<Rightarrow>
                    let s1 = s\<lparr>main_data := map (normalize_row (rowKind s)) (case p_list p of None \<Rightarrow> [] | Some l \<Rightarrow> l)\<rparr>
                    in (case p_pagination p of
                          None \<Rightarrow> (s1, Some Engine)
                        | Some g \<Rightarrow>
                            (s1\<lparr>pageTotal := total_nums g, pageSize := page_size g,
                                versions := versions s @ (if js_truthy (p_version p) then [p_version p] else [])\<rparr>,
                             None))))"

definition load_catch :: "nat \<Rightarrow> ui_text option \<Rightarrow> page \<Rightarrow> page" where
  "load_catch requestId e s =
     (case e of
        None \<Rightarrow> s
      | Some t \<Rightarrow> if requestId = listRequestId s
                  then s\<lparr>listError := Some (if t = Text [] then LoadFailedRetry else t)\<rparr> else s)"

definition load_finally :: "nat \<Rightarrow> page \<Rightarrow> page" where
  "load_finally requestId s =
     (if requestId = listRequestId s then s\<lparr>listLoading := False\<rparr> else s)"

definition load_settle :: "nat \<Rightarrow> reply \<Rightarrow> page \<Rightarrow> page" where
  "load_settle requestId r s =
     (case load_then requestId r s of (s1, e) \<Rightarrow> load_finally requestId (load_catch requestId e s1))"

subsection \<open>Saving and switching\<close>

definition showError :: "ui_text \<Rightarrow> page \<Rightarrow> page" where
  "showError e s = s\<lparr>messages := messages s @ [(False, error_text e)]\<rparr>"

definition saveConfiguration :: "string \<Rightarrow> object \<Rightarrow> page \<Rightarrow> page" where
  "saveConfiguration url p s =
     (if saving s then s
      else if trim (text_prop ''name'' p) = [] then showError NameRequired s
      else s\<lparr>saving := True, posts := posts s @ [(url, SaveBody p)], inflight := inflight s @ [Save]\<rparr>)"

definition toggle_suffix :: "row \<Rightarrow> bool \<Rightarrow> string" where
  "toggle_suffix r dis =
     ''?name='' @ encodeURIComponent (js_string (row_name r)) @ ''&disabled='' @ js_string (JBool dis)"

text \<open>The guard \<open>this.mutationPending[row.name]\<close>.\<close>

definition pending_truthy :: "page \<Rightarrow> string \<Rightarrow> bool" where
  "pending_truthy s n \<longleftrightarrow> n \<in> set (mutationPending s) \<or> n \<in> set object_prototype_keys"

definition setDisabled :: "row \<Rightarrow> bool \<Rightarrow> string \<Rightarrow> bool \<Rightarrow> page \<Rightarrow> page" where
  "setDisabled r enabled ep query s =
     (if pending_truthy s (js_string (row_name r)) then s
      else
        let dis = \<not> enabled in
        s\<lparr>mutationPending := mutationPending s @ [js_string (row_name r)],
          posts := posts s @ [(ep @ (if query then toggle_suffix r dis else []),
                               if query then EmptyBody else ToggleBody (row_name r) dis)],
          inflight := inflight s @ [Toggle (row_name r) dis]\<rparr>)"

text \<open>The \<open>finally\<close> handlers, run when the load they wait for has settled.\<close>

fun run_cont :: "cont \<Rightarrow> page \<Rightarrow> page" where
  "run_cont KNone s = s"
| "run_cont KSave s = s\<lparr>saving := False\<rparr>"
| "run_cont (KToggle n) s = s\<lparr>mutationPending := filter (\<lambda>m. m \<noteq> n) (mutationPending s)\<rparr>"

text \<open>
  A reply to a mutation: an error is shown and the chain ends; a success shows its message and
  reloads the list, and the chain ends with that load.
\<close>

definition mutation_error :: "ui_text \<Rightarrow> reply \<Rightarrow> ui_text option" where
  "mutation_error dflt r =
     (case r of
        Rejected m \<Rightarrow> Some (Text m)
      | Reply c m d \<Rightarrow>
          if c \<noteq> JNum 200 then Some (if js_truthy m then Text (js_string m) else dflt) else None)"

fun settle :: "chain \<Rightarrow> reply \<Rightarrow> page \<Rightarrow> page" where
  "settle (Load i k) r s = run_cont k (load_settle i r s)"
| "settle Save r s =
     (case mutation_error SaveFailed r of
        Some e \<Rightarrow> run_cont KSave (showError e s)
      | None \<Rightarrow> loadList KSave (s\<lparr>messages := messages s @ [(True, Saved)], editModal := False\<rparr>))"
| "settle (Toggle nm dis) r s =
     (case mutation_error UpdateFailed r of
        Some e \<Rightarrow> run_cont (KToggle (js_string nm)) (showError e s)
      | None \<Rightarrow> loadList (KToggle (js_string nm))
                  (s\<lparr>messages := messages s @ [(True, Toggled (js_string nm) dis)]\<rparr>))"

subsection \<open>Events\<close>

datatype event =
    Refresh
  | PageChanged string
  | Search string
  | FilterBy string
  | OpenEdit "string list option"
  | SaveClick string object
  | ToggleClick row bool string bool
  | Answer nat reply
  | Destroy

fun ui_step :: "page \<Rightarrow> event \<Rightarrow> page" where
  "ui_step s Refresh = loadList KNone s"
| "ui_step s (PageChanged p) = loadList KNone (s\<lparr>queryPage := p, routePage := p\<rparr>)"
| "ui_step s (Search t) = s\<lparr>searchText := t\<rparr>"
| "ui_step s (FilterBy f) = s\<lparr>statusFilter := f\<rparr>"
| "ui_step s (OpenEdit ms) = s\<lparr>editModal := True, editMembers := ms\<rparr>"
| "ui_step s (SaveClick url p) = saveConfiguration url p s"
| "ui_step s (ToggleClick r en ep q) = setDisabled r en ep q s"
| "ui_step s (Answer i r) =
     (if i < length (inflight s)
      then settle (inflight s ! i) r (s\<lparr>inflight := remove_nth i (inflight s)\<rparr>) else s)"
| "ui_step s Destroy = s\<lparr>listRequestId := Suc (listRequestId s)\<rparr>"

inductive reachable_page :: "row_kind \<Rightarrow> string \<Rightarrow> page \<Rightarrow> bool" for rk ep where
  start: "reachable_page rk ep (init_page rk ep)"
| step: "reachable_page rk ep s \<Longrightarrow> reachable_page rk ep (ui_step s e)"

section \<open>Library: values, filters and labels\<close>

lemma set_js_uniq [simp]: "set (js_uniq xs) = set xs"
  by (simp add: js_uniq_def)

lemma distinct_js_uniq [simp]: "distinct (js_uniq xs)"
  by (simp add: js_uniq_def)

lemma remdups_append_filter:
  "remdups (xs @ ys) = filter (\<lambda>x. x \<notin> set ys) (remdups xs) @ remdups ys"
  by (induction xs) auto

lemma js_uniq_append: "js_uniq (xs @ ys) = js_uniq xs @ filter (\<lambda>y. y \<notin> set xs) (js_uniq ys)"
  by (simp add: js_uniq_def remdups_append_filter rev_filter)

lemma unhex_hex_digit: "n < 16 \<Longrightarrow> unhex (hex_digit n) = Some n"
  by (auto simp: unhex_def hex_digit_def Let_def)

lemma uri_unreserved_plain: "uri_unreserved c \<Longrightarrow> c \<noteq> CHR ''%'' \<and> c \<noteq> CHR ''+''"
  by (auto simp: uri_unreserved_def)

lemma query_unescape_encode: "query_unescape (encodeURIComponent s) = Some s"
proof (induction s)
  case Nil
  show ?case by (simp add: encodeURIComponent_def)
next
  case (Cons c cs)
  have lt: "(of_char c :: nat) div 16 < 16" "(of_char c :: nat) mod 16 < 16"
    using nat_of_char_less_256 [of c] by (simp_all add: less_mult_imp_div_less)
  show ?case
  proof (cases "uri_unreserved c")
    case True
    then show ?thesis
      using Cons uri_unreserved_plain [OF True] by (simp add: encodeURIComponent_def)
  next
    case False
    then show ?thesis
      using Cons lt by (simp add: encodeURIComponent_def unhex_hex_digit)
  qed
qed

lemmas row_defs = isRunning_def stateLabel_def stateClass_def status_abnormal_def

lemma filteredRows_subseq: "set (filteredRows s) \<subseteq> set (main_data s)"
  by (auto simp: filteredRows_def)

lemma row_visible_blank:
  "trim (searchText s) = [] \<Longrightarrow>
   row_visible s r \<longleftrightarrow>
     (statusFilter s = ''off'' \<longrightarrow> js_truthy (row_disabled r)) \<and>
     (statusFilter s = ''running'' \<longrightarrow> isRunning r)"
  by (auto simp: row_visible_def Let_def)

lemma count_running_off: "c_running (countRows rows) + c_off (countRows rows) \<le> c_all (countRows rows)"
proof -
  have "length (filter isRunning rows) + length (filter (\<lambda>r. js_truthy (row_disabled r)) rows)
        \<le> length rows"
    by (induction rows) (auto simp: isRunning_def)
  then show ?thesis by (simp add: countRows_def)
qed

section \<open>Library: the asynchronous methods\<close>

text \<open>What a chain holds: the identity of its load, its share of \<open>saving\<close>, the name it has marked.\<close>

fun chain_loads :: "chain \<Rightarrow> nat list" where
  "chain_loads (Load i k) = [i]"
| "chain_loads c = []"

fun cont_saves :: "cont \<Rightarrow> nat" where
  "cont_saves KSave = 1"
| "cont_saves k = 0"

fun chain_saves :: "chain \<Rightarrow> nat" where
  "chain_saves Save = 1"
| "chain_saves (Load i k) = cont_saves k"
| "chain_saves (Toggle nm d) = 0"

fun cont_names :: "cont \<Rightarrow> string list" where
  "cont_names (KToggle n) = [n]"
| "cont_names k = []"

fun chain_names :: "chain \<Rightarrow> string list" where
  "chain_names (Toggle nm d) = [js_string nm]"
| "chain_names (Load i k) = cont_names k"
| "chain_names Save = []"

definition loads_of :: "chain list \<Rightarrow> nat list" where
  "loads_of cs = concat (map chain_loads cs)"

definition saves_of :: "chain list \<Rightarrow> nat" where
  "saves_of cs = sum_list (map chain_saves cs)"

definition names_of :: "chain list \<Rightarrow> string list" where
  "names_of cs = concat (map chain_names cs)"

lemma chain_list_simps [simp]:
  "loads_of [] = []" "saves_of [] = 0" "names_of [] = []"
  "loads_of (c # cs) = chain_loads c @ loads_of cs"
  "saves_of (c # cs) = chain_saves c + saves_of cs"
  "names_of (c # cs) = chain_names c @ names_of cs"
  "loads_of (cs @ ds) = loads_of cs @ loads_of ds"
  "saves_of (cs @ ds) = saves_of cs + saves_of ds"
  "names_of (cs @ ds) = names_of cs @ names_of ds"
  by (simp_all add: loads_of_def saves_of_def names_of_def)

definition ui_inv :: "page \<Rightarrow> bool" where
  "ui_inv s \<longleftrightarrow>
     (\<forall>i\<in>set (loads_of (inflight s)). i \<le> listRequestId s) \<and>
     distinct (loads_of (inflight s)) \<and>
     saves_of (inflight s) = (if saving s then 1 else 0) \<and>
     distinct (names_of (inflight s)) \<and>
     set (names_of (inflight s)) = set (mutationPending s) \<and>
     (listRequestId s \<in> set (loads_of (inflight s)) \<longrightarrow> listLoading s)"

lemma load_then_frame [simp]:
  "inflight (fst (load_then i r s)) = inflight s"
  "listRequestId (fst (load_then i r s)) = listRequestId s"
  "saving (fst (load_then i r s)) = saving s"
  "mutationPending (fst (load_then i r s)) = mutationPending s"
  "listLoading (fst (load_then i r s)) = listLoading s"
  by (auto simp: load_then_def Let_def split: reply.splits option.splits)

lemma load_catch_frame [simp]:
  "inflight (load_catch i e s) = inflight s"
  "listRequestId (load_catch i e s) = listRequestId s"
  "saving (load_catch i e s) = saving s"
  "mutationPending (load_catch i e s) = mutationPending s"
  "listLoading (load_catch i e s) = listLoading s"
  by (auto simp: load_catch_def split: option.splits)

lemma load_settle_frame [simp]:
  "inflight (load_settle i r s) = inflight s"
  "listRequestId (load_settle i r s) = listRequestId s"
  "saving (load_settle i r s) = saving s"
  "mutationPending (load_settle i r s) = mutationPending s"
  "listLoading (load_settle i r s) \<longleftrightarrow> i \<noteq> listRequestId s \<and> listLoading s"
  by (simp_all add: load_settle_def load_finally_def split_beta)

lemma load_settle_stale: "i \<noteq> listRequestId s \<Longrightarrow> load_settle i r s = s"
  by (auto simp: load_settle_def load_then_def load_catch_def load_finally_def
      split: reply.splits option.splits)

lemma loadList_frame [simp]:
  "inflight (loadList k s) = inflight s @ [Load (Suc (listRequestId s)) k]"
  "listRequestId (loadList k s) = Suc (listRequestId s)"
  "saving (loadList k s) = saving s"
  "mutationPending (loadList k s) = mutationPending s"
  "listLoading (loadList k s)"
  by (simp_all add: loadList_def Let_def)

lemma showError_frame [simp]:
  "inflight (showError e s) = inflight s"
  "listRequestId (showError e s) = listRequestId s"
  "saving (showError e s) = saving s"
  "mutationPending (showError e s) = mutationPending s"
  "listLoading (showError e s) = listLoading s"
  by (simp_all add: showError_def)

lemma ui_inv_init: "ui_inv (init_page rk ep)"
  by (simp add: ui_inv_def init_page_def)

text \<open>A new load is well formed when the chain it continues has already left \<open>inflight\<close>.\<close>

lemma loadList_inv:
  assumes "\<forall>i\<in>set (loads_of (inflight s)). i \<le> listRequestId s" "distinct (loads_of (inflight s))"
    and "saves_of (inflight s) + cont_saves k = (if saving s then 1 else 0)"
    and "distinct (names_of (inflight s) @ cont_names k)"
    and "set (names_of (inflight s) @ cont_names k) = set (mutationPending s)"
  shows "ui_inv (loadList k s)"
  using assms by (auto simp: ui_inv_def)

lemma settle_load_inv:
  assumes "ui_inv s" "inflight s = as @ Load i k # bs"
  shows "ui_inv (run_cont k (load_settle i r (s\<lparr>inflight := as @ bs\<rparr>)))"
  using assms by (cases k) (auto simp: ui_inv_def split: if_splits)

lemma settle_save_inv:
  assumes "ui_inv s" "inflight s = as @ Save # bs"
  shows "ui_inv (settle Save r (s\<lparr>inflight := as @ bs\<rparr>))"
proof (cases "mutation_error SaveFailed r")
  case None
  have "ui_inv (loadList KSave (s\<lparr>inflight := as @ bs, messages := messages s @ [(True, Saved)], editModal := False\<rparr>))"
    by (rule loadList_inv) (use assms in \<open>auto simp: ui_inv_def split: if_splits\<close>)
  then show ?thesis using None by simp
next
  case (Some e)
  then show ?thesis using assms by (auto simp: ui_inv_def split: if_splits)
qed

lemma settle_toggle_inv:
  assumes "ui_inv s" "inflight s = as @ Toggle nm d # bs"
  shows "ui_inv (settle (Toggle nm d) r (s\<lparr>inflight := as @ bs\<rparr>))"
proof (cases "mutation_error UpdateFailed r")
  case None
  have "ui_inv (loadList (KToggle (js_string nm))
          (s\<lparr>inflight := as @ bs, messages := messages s @ [(True, Toggled (js_string nm) d)]\<rparr>))"
    by (rule loadList_inv) (use assms in \<open>auto simp: ui_inv_def\<close>)
  then show ?thesis using None by simp
next
  case (Some e)
  then show ?thesis using assms by (auto simp: ui_inv_def)
qed

lemma settle_inv:
  assumes "ui_inv s" "inflight s = as @ c # bs"
  shows "ui_inv (settle c r (s\<lparr>inflight := as @ bs\<rparr>))"
  using assms settle_load_inv settle_save_inv settle_toggle_inv by (cases c) auto

lemma loadList_none_inv: "ui_inv s \<Longrightarrow> ui_inv (loadList KNone s)"
  by (rule loadList_inv) (auto simp: ui_inv_def)

lemma destroy_inv: "ui_inv s \<Longrightarrow> ui_inv (s\<lparr>listRequestId := Suc (listRequestId s)\<rparr>)"
  unfolding ui_inv_def by (auto simp: le_SucI dest: Suc_le_lessD)

lemma answer_inv:
  assumes "ui_inv s" shows "ui_inv (ui_step s (Answer i r))"
proof (cases "i < length (inflight s)")
  case True
  show ?thesis
    using settle_inv [OF assms remove_nth_split [OF True]] True by (simp add: remove_nth_def)
qed (use assms in simp)

lemma click_inv:
  assumes "ui_inv s"
  shows "ui_inv (saveConfiguration url p s)" "ui_inv (setDisabled r en ep q s)"
  using assms by (auto simp: ui_inv_def saveConfiguration_def setDisabled_def pending_truthy_def Let_def)

lemma view_inv:
  assumes "ui_inv s"
  shows "ui_inv (s\<lparr>searchText := t\<rparr>)" "ui_inv (s\<lparr>statusFilter := f\<rparr>)"
    "ui_inv (s\<lparr>editModal := b, editMembers := ms\<rparr>)"
  using assms by (simp_all add: ui_inv_def)

lemma ui_step_inv: "ui_inv s \<Longrightarrow> ui_inv (ui_step s e)"
proof (cases e)
  case (PageChanged p)
  assume "ui_inv s"
  then have "ui_inv (s\<lparr>queryPage := p, routePage := p\<rparr>)" by (simp add: ui_inv_def)
  then show ?thesis using PageChanged loadList_none_inv by simp
qed (auto simp: loadList_none_inv destroy_inv click_inv view_inv simp flip: ui_step.simps(8) intro: answer_inv)

lemma reachable_ui_inv: "reachable_page rk ep s \<Longrightarrow> ui_inv s"
  by (induction rule: reachable_page.induct) (auto intro: ui_inv_init ui_step_inv)

lemma fold_stale:
  "\<forall>p\<in>set rs. fst p \<noteq> listRequestId s \<Longrightarrow> fold (\<lambda>p. load_settle (fst p) (snd p)) rs s = s"
  by (induction rs) (auto simp: load_settle_stale)

lemma splitEndpoint_at:
  assumes "CHR ''@'' \<notin> set a"
  shows "splitEndpoint (a @ CHR ''@'' # b) fb = (normalizeProto a, b)"
proof -
  have "takeWhile (\<lambda>c. c \<noteq> CHR ''@'') (a @ CHR ''@'' # b) = a"
    "dropWhile (\<lambda>c. c \<noteq> CHR ''@'') (a @ CHR ''@'' # b) = CHR ''@'' # b"
    using assms by (induction a) auto
  then show ?thesis by (simp add: splitEndpoint_def)
qed

lemma lower_char_at: "lower_char c = CHR ''@'' \<longleftrightarrow> c = CHR ''@''"
proof
  assume l: "lower_char c = CHR ''@''"
  show "c = CHR ''@''"
  proof (cases "65 \<le> (of_char c :: nat) \<and> of_char c \<le> (90 :: nat)")
    case True
    then have "char_of ((of_char c :: nat) + 32) = CHR ''@''" using l by (simp add: lower_char_def)
    then have "(of_char (char_of ((of_char c :: nat) + 32)) :: nat) = of_char (CHR ''@'')" by simp
    then show ?thesis using True by simp
  qed (use l in \<open>auto simp: lower_char_def Let_def\<close>)
qed (simp add: lower_char_def)

lemma normalizeProto_at: "CHR ''@'' \<notin> set p \<Longrightarrow> CHR ''@'' \<notin> set (normalizeProto p)"
  by (auto simp: normalizeProto_def Let_def lower_def) (metis lower_char_at)

lemma lower_canonical: "lower ''tcp_mux'' = ''tcp_mux''" "lower ''kcp_mux'' = ''kcp_mux''"
  by code_simp+

lemma normalizeProto_idem [simp]: "normalizeProto (normalizeProto p) = normalizeProto p"
proof -
  consider "lower p = ''tcpmux''" | "lower p = ''kcpmux''" | "lower p \<noteq> ''tcpmux''" "lower p \<noteq> ''kcpmux''"
    by auto
  then show ?thesis by cases (auto simp: normalizeProto_def Let_def lower_canonical)
qed

lemma hex_digit_not_amp: "n < 16 \<Longrightarrow> hex_digit n \<noteq> CHR ''&''"
proof
  assume "n < 16" "hex_digit n = CHR ''&''"
  then have "unhex CHR ''&'' = Some n" using unhex_hex_digit by metis
  moreover have "unhex CHR ''&'' = None" by code_simp
  ultimately show False by simp
qed

lemma encodeURIComponent_no_amp: "CHR ''&'' \<notin> set (encodeURIComponent s)"
proof -
  have lt: "(of_char c :: nat) div 16 < 16" "(of_char c :: nat) mod 16 < 16" for c
    using nat_of_char_less_256 [of c] by (simp_all add: less_mult_imp_div_less)
  have "\<not> uri_unreserved CHR ''&''" by code_simp
  then have "CHR ''&'' \<notin> set (if uri_unreserved c then [c]
     else [CHR ''%'', hex_digit (of_char c div 16), hex_digit (of_char c mod 16)])" for c
    using hex_digit_not_amp [OF lt(1) [of c]] hex_digit_not_amp [OF lt(2) [of c]] by (cases "uri_unreserved c") auto
  then show ?thesis unfolding encodeURIComponent_def by (simp only: set_concat set_map) blast
qed

section \<open>Properties of the list page\<close>

text \<open>
  C3: In every state a list page can reach, however the user clicks and in whatever order the
  server answers, at most one save is under way and \<open>saving\<close> says so, at most one switch per row
  name is under way and \<open>mutationPending\<close> lists exactly those names, and the answers still
  expected belong to distinct list requests.
\<close>

theorem ui_single_flight:
  assumes "reachable_page rk ep s"
  shows "saves_of (inflight s) = (if saving s then 1 else 0) \<and>
         distinct (names_of (inflight s)) \<and>
         set (names_of (inflight s)) = set (mutationPending s) \<and>
         distinct (loads_of (inflight s)) \<and>
         (listRequestId s \<in> set (loads_of (inflight s)) \<longrightarrow> listLoading s)"
  using reachable_ui_inv [OF assms] by (simp add: ui_inv_def)

theorem ui_single_flight_witness:
  "let s = ui_step (ui_step (init_page PlainRow ''/api/tunnel/list'') Refresh)
             (SaveClick ''/api/tunnel/edit''
               [(''uuid'', JString ''a''), (''name'', JString ''n''), (''disabled'', JBoolean False)])
   in saves_of (inflight s) = 1 \<and> saving s \<and> loads_of (inflight s) = [1] \<and> listLoading s"
proof -
  let ?r = "[(''uuid'', JString ''a''), (''name'', JString ''n''), (''disabled'', JBoolean False)]"
  let ?s = "ui_step (ui_step (init_page PlainRow ''/api/tunnel/list'') Refresh) (SaveClick ''/api/tunnel/edit'' ?r)"
  have "reachable_page PlainRow ''/api/tunnel/list'' ?s"
    by (intro reachable_page.intros)
  from ui_single_flight [OF this] show ?thesis
    by (simp add: Let_def saveConfiguration_def loadList_def init_page_def trim_def is_space_def text_prop_def prop_string_def str_prop_def split: if_splits)
qed

text \<open>
  C2: The newest request wins. After a list request is sent, the answers of the requests still
  under way may arrive in any order. Until the newest one is answered the rows, the totals, the
  (cleared) error and the loading flag stay as the newest request set them, whatever the older
  answers are; once it is answered the page is what that answer makes it, and answers of older
  requests that arrive afterwards leave no trace: a list with pagination is shown and the error
  stays cleared; a refusal or a rejected request keeps the rows and the totals and shows its message
  (or the page's own where it has none); a list without pagination is stored and reported as
  the engine's error. In every case loading ends with the newest answer and not before.
\<close>

theorem ui_newest_load_wins:
  assumes "s = loadList k s0" and "distinct (map fst (xs @ (listRequestId s, r) # ys))"
  shows "let u = fold (\<lambda>x. load_settle (fst x) (snd x)) xs s;
             t = fold (\<lambda>x. load_settle (fst x) (snd x)) (xs @ (listRequestId s, r) # ys) s
         in main_data u = main_data s0 \<and> pageTotal u = pageTotal s0 \<and> pageSize u = pageSize s0 \<and>
            listLoading u \<and> listError u = None \<and> \<not> listLoading t \<and> inflight t = inflight s \<and>
            (case r of
               Rejected m \<Rightarrow> main_data t = main_data s0 \<and> pageTotal t = pageTotal s0 \<and> pageSize t = pageSize s0 \<and>
                 listError t = Some (if m = [] then LoadFailedRetry else Text m)
             | Reply c m d \<Rightarrow>
                 if c \<noteq> JNum 200
                 then main_data t = main_data s0 \<and> pageTotal t = pageTotal s0 \<and> pageSize t = pageSize s0 \<and>
                   listError t = Some (if js_truthy m then (if js_string m = [] then LoadFailedRetry else Text (js_string m))
                                       else LoadFailed)
                 else (case d of
                    None \<Rightarrow> main_data t = main_data s0 \<and> listError t = Some Engine
                  | Some p \<Rightarrow> main_data t = map (normalize_row (rowKind s0)) (case p_list p of None \<Rightarrow> [] | Some l \<Rightarrow> l) \<and>
                      (case p_pagination p of
                         None \<Rightarrow> listError t = Some Engine \<and> pageTotal t = pageTotal s0
                       | Some g \<Rightarrow> listError t = None \<and> pageTotal t = total_nums g \<and> pageSize t = page_size g)))"
proof -
  let ?f = "fold (\<lambda>x. load_settle (fst x) (snd x))"
  have n: "\<forall>q\<in>set xs. fst q \<noteq> listRequestId s" "\<forall>q\<in>set ys. fst q \<noteq> listRequestId s"
    using assms(2) by (auto simp: image_iff)
  have u: "?f xs s = s" using n(1) by (rule fold_stale)
  have t: "?f (xs @ (listRequestId s, r) # ys) s = load_settle (listRequestId s) r s"
    using n(2) by (simp add: u fold_stale)
  have s: "main_data s = main_data s0" "pageTotal s = pageTotal s0" "pageSize s = pageSize s0" "listLoading s"
    "listError s = None" "rowKind s = rowKind s0" by (simp_all add: assms(1) loadList_def Let_def)
  show ?thesis unfolding Let_def u t using s
    by (simp add: load_settle_def load_then_def load_catch_def load_finally_def Let_def
        split: reply.split option.split)
qed

definition one_row_reply :: reply where
  "one_row_reply = Reply (JNum 200) Undefined
     (Some \<lparr>p_list = Some [\<lparr>row_uuid = JStr ''a'', row_name = JStr ''n'', row_disabled = Undefined,
              row_status = JStr ''running'', row_input = Undefined, row_output = Undefined,
              row_listen = Undefined, row_listen_port = Undefined, row_type = Undefined,
              row_members = None, row_rest = []\<rparr>],
            p_pagination = Some \<lparr>total_nums = 1, page_size = 20\<rparr>, p_version = Undefined\<rparr>)"

theorem ui_newest_load_wins_witness:
  "let s = loadList KNone (loadList KNone (init_page PlainRow ''/l''));
       f = fold (\<lambda>x. load_settle (fst x) (snd x));
       u = f [(1, one_row_reply)] s; t = f [(1, one_row_reply), (2, Rejected ''late'')] s
   in u = s \<and> main_data u = [] \<and> listLoading u \<and> main_data t = [] \<and> \<not> listLoading t \<and> listError t = Some (Text ''late'')"
proof -
  let ?s = "loadList KNone (loadList KNone (init_page PlainRow ''/l''))"
  have id: "listRequestId ?s = 2" by (simp add: init_page_def)
  have u: "load_settle 1 one_row_reply ?s = ?s" by (simp add: load_settle_stale id)
  have m: "main_data (loadList KNone (init_page PlainRow ''/l'')) = []" by (simp add: loadList_def Let_def init_page_def)
  show ?thesis
    using ui_newest_load_wins [OF refl, of "[(1, one_row_reply)]" KNone "loadList KNone (init_page PlainRow ''/l'')"
        "Rejected ''late''" "[]"] id u m
    by (simp add: Let_def numeral_2_eq_2)
qed

text \<open>
  The segmented filter shows as many rows as its counters announce: with a blank search the
  filters \<open>all\<close>, \<open>running\<close> and \<open>off\<close> keep exactly the counted rows, and no row is counted both
  as running and as stopped.
\<close>

theorem filter_matches_counts:
  assumes "trim (searchText s) = []"
  shows "length (filteredRows (s\<lparr>statusFilter := ''all''\<rparr>)) = c_all (listCounts s) \<and>
         length (filteredRows (s\<lparr>statusFilter := ''running''\<rparr>)) = c_running (listCounts s) \<and>
         length (filteredRows (s\<lparr>statusFilter := ''off''\<rparr>)) = c_off (listCounts s) \<and>
         c_running (listCounts s) + c_off (listCounts s) \<le> c_all (listCounts s)"
proof -
  have "row_visible (s\<lparr>statusFilter := f\<rparr>) =
     (\<lambda>r. (f = ''off'' \<longrightarrow> js_truthy (row_disabled r)) \<and> (f = ''running'' \<longrightarrow> isRunning r))" for f
    using row_visible_blank [of "s\<lparr>statusFilter := f\<rparr>"] assms by (intro ext) simp
  then show ?thesis
    using count_running_off [of "main_data s"]
    by (simp add: filteredRows_def listCounts_def countRows_def)
qed

theorem filter_matches_counts_witness:
  "length (filteredRows (load_settle 1 one_row_reply (loadList KNone (init_page PlainRow ''/l'')))) = 1"
proof -
  let ?s = "load_settle 1 one_row_reply (loadList KNone (init_page PlainRow ''/l''))"
  have t: "trim (searchText ?s) = []"
    by (simp add: one_row_reply_def load_settle_def load_then_def load_catch_def load_finally_def loadList_def init_page_def)
  have f: "statusFilter ?s = ''all''" and m: "length (main_data ?s) = 1"
    by (simp_all add: one_row_reply_def load_settle_def load_then_def load_catch_def load_finally_def loadList_def init_page_def)
  have "?s\<lparr>statusFilter := ''all''\<rparr> = ?s" using f by (metis page.surjective page.update_convs(2) page.select_convs(2))
  then show ?thesis using filter_matches_counts [OF t] m by (simp add: listCounts_def countRows_def)
qed

text \<open>
  The member picker of a route offers every known tunnel, in order, and after them the
  members already configured that are not among the known tunnels, each name once: opening the
  editor never drops a configured member.
\<close>

theorem memberOptions_keeps_members:
  "memberOptions (s\<lparr>tunnelOptions := Some opts, editMembers := Some sel\<rparr>) =
     js_uniq opts @ filter (\<lambda>m. m \<notin> set opts) (js_uniq sel) \<and>
   set sel \<subseteq> set (memberOptions (s\<lparr>tunnelOptions := Some opts, editMembers := Some sel\<rparr>)) \<and>
   distinct (memberOptions (s\<lparr>tunnelOptions := Some opts, editMembers := Some sel\<rparr>))"
  by (auto simp: memberOptions_def js_uniq_append)

text \<open>
  The name in the query of a switch request survives the trip: percent decoding the encoded
  component gives back the row's name, whatever bytes it holds.
\<close>

theorem toggle_query_roundtrip:
  "\<exists>enc. toggle_suffix r dis = ''?name='' @ enc @ ''&disabled='' @ (if dis then ''true'' else ''false'') \<and>
         CHR ''&'' \<notin> set enc \<and> query_unescape enc = Some (js_string (row_name r))"
  using query_unescape_encode encodeURIComponent_no_amp by (auto simp: toggle_suffix_def)

text \<open>
  Splitting the endpoint that the form builds gives the normalised protocol and the trimmed
  address back.
\<close>

theorem endpoint_roundtrip:
  assumes "CHR ''@'' \<notin> set proto"
  shows "splitEndpoint (buildEndpoint proto addr) fb = (normalizeProto proto, trim addr)"
  using splitEndpoint_at [OF normalizeProto_at [OF assms]] by (simp add: buildEndpoint_def)

theorem endpoint_roundtrip_witness:
  "splitEndpoint (buildEndpoint ''TcpMux'' '' 1.2.3.4:80 '') ''tcp'' = (''tcp_mux'', ''1.2.3.4:80'')"
proof -
  have "CHR ''@'' \<notin> set ''TcpMux''" by simp
  moreover have "normalizeProto ''TcpMux'' = ''tcp_mux''" "trim '' 1.2.3.4:80 '' = ''1.2.3.4:80''"
    by code_simp+
  ultimately show ?thesis using endpoint_roundtrip by metis
qed

text \<open>
  A row whose name is a property of \<open>Object.prototype\<close>, such as \<open>constructor\<close>, can never
  be switched: the guard reads the inherited property as a pending switch, so no request is sent.
\<close>

theorem prototype_name_never_switches:
  assumes "js_string (row_name r) \<in> set object_prototype_keys"
  shows "setDisabled r enabled ep query s = s"
  using assms by (simp add: setDisabled_def pending_truthy_def)

theorem prototype_name_never_switches_witness:
  "setDisabled ((hd (main_data (load_settle 1 one_row_reply (loadList KNone (init_page PlainRow ''/l'')))))
      \<lparr>row_name := JStr ''constructor''\<rparr>) False ''/api/service/set_disabled'' False (init_page PlainRow ''/l'')
   = init_page PlainRow ''/l''"
  by (rule prototype_name_never_switches) (simp add: object_prototype_keys_def)

lemma load_settle_rows:
  "main_data (load_settle i r s) = main_data s \<or> (\<exists>rs. main_data (load_settle i r s) = map (normalize_row (rowKind s)) rs)"
proof -
  obtain s1 e where t: "load_then i r s = (s1, e)" by force
  then have "main_data s1 = main_data s \<or> (\<exists>rs. main_data s1 = map (normalize_row (rowKind s)) rs)"
    by (auto simp: load_then_def Let_def split: reply.splits if_splits option.splits)
  then show ?thesis by (auto simp: load_settle_def t load_catch_def load_finally_def split: option.splits)
qed

lemma settle_rows: "main_data (settle c r s) = main_data s \<or> (\<exists>rs. main_data (settle c r s) = map (normalize_row (rowKind s)) rs)"
proof (cases c)
  case (Load i k)
  have "main_data (run_cont k x) = main_data x" for x by (cases k) simp_all
  then show ?thesis using Load load_settle_rows [of i r s] by simp
qed (auto simp: loadList_def Let_def showError_def split: option.splits)

lemma ui_step_rows: "main_data (ui_step s e) = main_data s \<or> (\<exists>rs. main_data (ui_step s e) = map (normalize_row (rowKind s)) rs)"
proof (cases e)
  case (Answer i r)
  then show ?thesis using settle_rows [of "inflight s ! i" r "s\<lparr>inflight := remove_nth i (inflight s)\<rparr>"] by simp
qed (simp_all add: loadList_def Let_def saveConfiguration_def showError_def setDisabled_def)

text \<open>
  C28: The rows of a list page are well typed. In every state a page can reach, whatever the server
  sent, the \<open>disabled\<close> property of every row shown is a boolean, and the row is styled as off exactly
  if it is true.
\<close>

theorem rows_normalized:
  assumes "reachable_page rk ep s"
  shows "list_all (\<lambda>r. \<exists>b. row_disabled r = JBool b \<and> (stateClass r = ''off'' \<longleftrightarrow> b)) (main_data s)"
  using assms
proof induction
  case start
  show ?case by (simp add: init_page_def)
next
  case (step s e)
  have "list_all (\<lambda>r. \<exists>b. row_disabled r = JBool b \<and> (stateClass r = ''off'' \<longleftrightarrow> b)) (map (normalize_row k) rs)" for k rs
    by (cases k) (auto simp: list_all_iff stateClass_def normalizeTunnelRow_def Let_def)
  then show ?case using ui_step_rows [of s e] step.IH by metis
qed

theorem rows_normalized_witness:
  "list_all (\<lambda>r. \<exists>b. row_disabled r = JBool b \<and> (stateClass r = ''off'' \<longleftrightarrow> b))
     (main_data (ui_step (ui_step (init_page PlainRow ''/api/tunnel/list'') Refresh) (Answer 0 one_row_reply)))"
  by (rule rows_normalized [of PlainRow "''/api/tunnel/list''"]) (intro reachable_page.intros)

end
