(* ===== verification/MockApi.thy ===== *)
theory MockApi
  imports AdminUi
begin

text \<open>
  The in-memory API of \<open>src/scripts/test-admin-ui.cjs\<close>, against which the list pages are driven:
  its fixtures, its state and the handler of \<open>http.createServer\<close> for paths under \<open>/api/\<close>.

  The request arrives parsed: path, query parameters in order, and the payload, \<open>None\<close> when
  \<open>JSON.parse\<close> throws. An exception in the handler answers with status 500 and keeps what was
  written before it. The array \<open>tunnels\<close> is shared with \<open>records.tunnel\<close> until the first
  deletion, so the replies built from its first two elements take these as arguments. \<open>Date.parse\<close>
  and the time the script started are arguments too. Strings are UTF-8 bytes.
\<close>

section \<open>Fixtures\<close>

definition name_a :: string where "name_a = ''goai_tcpmux_pw''"

definition name_b :: string where
  "name_b = utf8 [229, 164, 135, 231, 148, 168, 231, 186, 191, 232, 183, 175, 228, 184, 142, 229, 190, 136, 233, 149, 191, 231, 154, 132, 229, 144, 141, 231, 167, 176] @ ''_for_mobile_ipv6_layout''"

definition tunnels :: "object list" where
  "tunnels =
     [[(''uuid'', JString ''a''), (''name'', JString name_a), (''disabled'', JBoolean False),
      (''status'', JString ''running''), (''mode'', JString ''default''),
      (''input'', JString ''socks5x@0.0.0.0:1072''), (''output'', JString ''tcp_mux@154.36.173.131:4000''),
      (''quality_summary'', JObject [(''status'', JString ''up''), (''rtt_ms'', JNumber 159),
      (''loss_pct'', JNumber 0)]), (''bandwidth_summary'', JObject [(''status'', JString ''disabled'')]),
      (''in_proto_cfg'', JString ''{}''), (''out_proto_cfg'', JString ''{}''),
      (''in_decrypt_mode'', JString ''none''), (''out_crypt_mode'', JString ''none'')],
      [(''uuid'', JString ''b''), (''name'', JString name_b), (''disabled'', JBoolean True),
      (''status'', JString ''disabled''),
      (''input'', JString ''tcp@[2001:db8:1234:5678:abcd:1234:5678:abcd]:1080''),
      (''output'', JString ''quic@[2001:db8:1234:5678:abcd:1234:5678:abcd]:4000''),
      (''quality_summary'', JObject [(''status'', JString ''disabled'')])],
      [(''uuid'', JString ''c''), (''name'', JString ''failed_tunnel''), (''disabled'', JBoolean False),
      (''status'', JString ''input run:bind failed''), (''input'', JString ''udp@0.0.0.0:1081''),
      (''output'', JString ''udp@127.0.0.1:4000''),
      (''quality_summary'', JObject [(''status'', JString ''down''), (''rtt_ms'', JNumber (-1)),
      (''loss_pct'', JNumber 100)])]]"

definition routeFixture :: "string \<Rightarrow> object" where
  "routeFixture ident =
     [(''uuid'', JString ident), (''name'', JString (''auto_'' @ ident)), (''disabled'', JBoolean False),
      (''status'', JString ''running''), (''listen'', JString ''socks5x@[2001:db8::1]:1088''),
      (''members'', JArray [JString name_a, JString name_b]), (''preferred_member'', JString name_a),
      (''member_health'', JObject [(name_a, JString ''up''), (name_b, JString ''unknown'')])]"

definition quality_fixture :: object where
  "quality_fixture =
     [(''download_url'', JString ''https://speed.cloudflare.com/__down?bytes=16384''),
      (''connectivity_url'', JString ''https://www.gstatic.com/generate_204''),
      (''download_status'', JNumber 200), (''connectivity_status'', JNumber 204),
      (''download_bytes'', JNumber 16384), (''interval_sec'', JNumber 30), (''timeout_ms'', JNumber 5000),
      (''normal_ms'', JNumber 2000)]"

definition input_fixture :: object where
  "input_fixture = object_assign (object_assign (routeFixture ''input'')
     [(''listen'', JString ''[2001:db8::1]:1088''), (''policy'', JString ''quality''), (''quality'', JObject quality_fixture),
      (''member_quality'', JObject
      [(name_a, JObject [(''status'', JString ''normal''), (''samples'', JNumber 12),
      (''bad_samples'', JNumber 2), (''consecutive_failures'', JNumber 0),
      (''last_duration_ms'', JNumber 800)]), (name_b, JObject [(''status'', JString ''failed''),
      (''samples'', JNumber 12), (''bad_samples'', JNumber 4), (''consecutive_failures'', JNumber 2),
      (''last_duration_ms'', JNumber 5000),
      (''last_error'', JString (utf8 [229, 174, 140, 230, 149, 180, 232, 183, 175, 229, 190, 132, 230, 142, 162, 230, 181, 139, 232, 182, 133, 230, 151, 182, 239, 188, 140, 233, 156, 128, 232, 166, 129, 230, 163, 128, 230, 159, 165, 228, 187, 163, 231, 144, 134, 229, 141, 143, 229, 149, 134, 228, 187, 165, 229, 143, 138, 230, 156, 128, 231, 187, 136, 228, 184, 139, 232, 189, 189, 231, 155, 174, 230, 160, 135, 230, 152, 175, 229, 144, 166, 229, 143, 175, 232, 190, 190]))])])])
     [(''probe_mode'', JString ''full_path'')]"

definition priority_fixture :: object where
  "priority_fixture = object_assign input_fixture
     [(''uuid'', JString ''priority''), (''name'', JString ''auto_priority''), (''policy'', JString ''priority''),
      (''quality'', JObject (object_assign quality_fixture
         [(''download_url'', JString ''https://priority.example.com/probe.bin''), (''interval_sec'', JNumber 45)])),
      (''member_quality'', JObject
      [(name_a, JObject [(''status'', JString ''normal''), (''samples'', JNumber 2),
      (''bad_samples'', JNumber 0), (''consecutive_failures'', JNumber 0), (''consecutive_normal'', JNumber 2),
      (''last_duration_ms'', JNumber 800)]), (name_b, JObject [(''status'', JString ''failed''),
      (''samples'', JNumber 2), (''bad_samples'', JNumber 2), (''consecutive_failures'', JNumber 2),
      (''consecutive_normal'', JNumber 0), (''last_duration_ms'', JNumber 5000)])])]"

definition legacy_fixture :: object where
  "legacy_fixture = object_assign (routeFixture ''legacy'')
     [(''listen'', JString ''127.0.0.1:1089''), (''policy'', JString ''priority''), (''probe_mode'', JString ''legacy_frame''),
      (''probe_warnings'', JArray [JString (''legacy_tcp'' @ utf8 [239, 188, 154, 229, 174, 140, 230, 149, 180, 233, 147, 190, 232, 183, 175, 230, 142, 162, 230, 181, 139, 232, 166, 129, 230, 177, 130] @ '' member '' @ utf8 [231, 154, 132] @ '' input '' @ utf8 [228, 184, 186] @ '' socks5x'')])]"

definition service_fixture :: "nat \<times> string \<Rightarrow> object" where
  "service_fixture x = (case x of (i, ty) \<Rightarrow>
     [(''uuid'', JString (''s'' @ show_nat i)), (''name'', JString ty), (''disabled'', JBoolean False),
      (''status'', JString ''running''), (''type'', JString ty), (''listen'', JString ''127.0.0.1:4003''),
      (''listen_port'', JNumber 1085), (''tcp_timeout'', JNumber 300), (''udp_timeout'', JNumber 120)])"

definition initial_records :: "(string \<times> object list) list" where
  "initial_records =
     [(''tunnel'', tunnels), (''route_output'', [routeFixture ''output'']),
      (''route_input'', [input_fixture, priority_fixture, legacy_fixture]),
      (''service'', map service_fixture (enumerate 0 [''echo'', ''http_proxy'', ''socks5_server'', ''socks5x_server'']))]"

definition history_row :: "string \<Rightarrow> nat \<Rightarrow> object" where
  "history_row historyTime i =
     [(''id'', JNumber (int i + 1)), (''tunnel_uuid'', JString ''a''), (''time'', JString (historyTime @ ''.123+08:00'')),
      (''kind'', JString (if odd i then ''route'' else ''frame'')),
      (''route_name'', JString (if odd i then ''socks5-password'' else [])),
      (''status'', JString (if odd i then ''failed'' else ''normal'')), (''duration_ms'', JNumber (if odd i then 5000 else 159)),
      (''connectivity'', JString (if odd i then ''ok'' else [])),
      (''error'', JString (if odd i then utf8 [228, 184, 139, 232, 189, 189, 230, 142, 162, 230, 181, 139, 232, 182, 133, 230, 151, 182] else []))]"

definition historyFixture :: "string \<Rightarrow> object list" where
  "historyFixture historyTime = map (history_row historyTime) [0..<55]"

section \<open>State and requests\<close>

type_synonym params = "(string \<times> string) list"

record mock =
  mk_records :: "(string \<times> object list) list"
  mk_failSave :: bool
  mk_failList :: bool
  mk_failToggle :: bool
  mk_failHistory :: bool
  mk_probeCount :: nat
  mk_writes :: "(string \<times> string \<times> object \<times> string) list"
  mk_historyReads :: "params list"

definition initial_mock :: mock where
  "initial_mock = \<lparr>mk_records = initial_records, mk_failSave = False, mk_failList = False, mk_failToggle = False,
     mk_failHistory = False, mk_probeCount = 0, mk_writes = [], mk_historyReads = []\<rparr>"

record request =
  rq_url :: string
  rq_path :: string
  rq_params :: params
  rq_payload :: "object option"

datatype response = JsonReply object | EventStream "(string \<times> json) list" | ServerError

definition ok_reply :: "object \<Rightarrow> response" where
  "ok_reply rest = JsonReply ((''code'', JNumber 200) # rest)"

definition fail_reply :: "string \<Rightarrow> response" where
  "fail_reply msg = JsonReply [(''code'', JNumber 500), (''msg'', JString msg)]"

section \<open>The actions\<close>

text \<open>The messages of the failure switches.\<close>

abbreviation toggle_failed :: string where "toggle_failed \<equiv> utf8 [229, 144, 175, 229, 129, 156, 229, 164, 177, 232, 180, 165, 230, 181, 139, 232, 175, 149]"

abbreviation save_failed :: string where "save_failed \<equiv> utf8 [228, 191, 157, 229, 173, 152, 229, 164, 177, 232, 180, 165, 230, 181, 139, 232, 175, 149]"

abbreviation list_failed :: string where "list_failed \<equiv> utf8 [229, 136, 151, 232, 161, 168, 229, 138, 160, 232, 189, 189, 229, 164, 177, 232, 180, 165, 230, 181, 139, 232, 175, 149]"

text \<open>\<open>Number(v || 1)\<close> in a JSON reply, where \<open>NaN\<close> becomes null.\<close>

definition current_page :: "params \<Rightarrow> json" where
  "current_page ps =
     (case map_of ps ''page'' of
        Some (c # cs) \<Rightarrow> (case js_Number (c # cs) of None \<Rightarrow> JNull | Some n \<Rightarrow> JNumber n)
      | _ \<Rightarrow> JNumber 1)"

definition list_action :: "string \<Rightarrow> params \<Rightarrow> mock \<Rightarrow> response" where
  "list_action kind ps s =
     (if mk_failList s then fail_reply list_failed
      else (case map_of (mk_records s) kind of
              None \<Rightarrow> ServerError
            | Some rows \<Rightarrow>
                ok_reply [(''data'', JObject
                  [(''version'', JString ''ui-test''), (''list'', JArray (map JObject rows)),
                   (''pagination'', JObject [(''total_nums'', JNumber (int (length rows))), (''page_size'', JNumber 20),
                                             (''current_page'', current_page ps)])])]))"

text \<open>Whether a history row matches the query; a comparison with \<open>NaN\<close> is false.\<close>

definition history_match :: "(string \<Rightarrow> int option) \<Rightarrow> params \<Rightarrow> object \<Rightarrow> bool" where
  "history_match date_parse ps row =
     (let since = (case map_of ps ''since'' of None \<Rightarrow> Some 0 | Some v \<Rightarrow> js_Number v);
          til = (case map_of ps ''until'' of None \<Rightarrow> Some 0 | Some v \<Rightarrow> js_Number v);
          t = (case str_prop ''time'' row of Some (JString v) \<Rightarrow> date_parse v | _ \<Rightarrow> None);
          opt = (\<lambda>k. case map_of ps k of None \<Rightarrow> True | Some v \<Rightarrow> v = [] \<or> str_prop k row = Some (JString v))
      in (case map_of ps ''uuid'' of None \<Rightarrow> False | Some u \<Rightarrow> str_prop ''tunnel_uuid'' row = Some (JString u)) \<and>
         (case (t, since) of (Some a, Some b) \<Rightarrow> b \<le> a | _ \<Rightarrow> False) \<and>
         (case (t, til) of (Some a, Some b) \<Rightarrow> a \<le> b | _ \<Rightarrow> False) \<and> opt ''kind'' \<and> opt ''status'')"

definition row_id :: "object \<Rightarrow> int" where
  "row_id row = (case str_prop ''id'' row of Some (JNumber n) \<Rightarrow> n | _ \<Rightarrow> 0)"

text \<open>\<open>Number(before || Infinity)\<close>: no bound when absent or empty, \<open>NaN\<close> matches nothing.\<close>

definition before_match :: "params \<Rightarrow> object \<Rightarrow> bool" where
  "before_match ps row =
     (case map_of ps ''before'' of
        Some (c # cs) \<Rightarrow> (case js_Number (c # cs) of None \<Rightarrow> False | Some b \<Rightarrow> row_id row < b)
      | _ \<Rightarrow> True)"

definition history_page :: "(string \<Rightarrow> int option) \<Rightarrow> object list \<Rightarrow> params \<Rightarrow> object list \<times> int" where
  "history_page date_parse fixture ps =
     (let matches = rev (filter (\<lambda>row. history_match date_parse ps row \<and> before_match ps row) fixture);
          rows = take 50 matches
      in (rows, if length matches > 50 then row_id (last rows) else 0))"

definition history_action :: "(string \<Rightarrow> int option) \<Rightarrow> object list \<Rightarrow> params \<Rightarrow> mock \<Rightarrow> response \<times> mock" where
  "history_action date_parse fixture ps s =
     (let s1 = s\<lparr>mk_historyReads := mk_historyReads s @ [ps]\<rparr> in
      if mk_failHistory s then (fail_reply (utf8 [229, 142, 134, 229, 143, 178, 230, 159, 165, 232, 175, 162, 229, 164, 177, 232, 180, 165, 230, 181, 139, 232, 175, 149]), s1)
      else (case history_page date_parse fixture ps of
              (rows, next) \<Rightarrow>
                (ok_reply [(''data'', JObject [(''records'', JArray (map JObject rows)), (''next_before'', JNumber next)])], s1)))"

definition update_first :: "('a \<Rightarrow> bool) \<Rightarrow> ('a \<Rightarrow> 'a) \<Rightarrow> 'a list \<Rightarrow> 'a list option" where
  "update_first P f xs =
     (case dropWhile (\<lambda>x. \<not> P x) xs of [] \<Rightarrow> None | y # ys \<Rightarrow> Some (takeWhile (\<lambda>x. \<not> P x) xs @ f y # ys))"

definition put_records :: "string \<Rightarrow> object list \<Rightarrow> mock \<Rightarrow> mock" where
  "put_records kind rows s = s\<lparr>mk_records := AList.update kind rows (mk_records s)\<rparr>"

text \<open>
  \<open>set_disabled\<close>: the name from the query or the payload, the new value from the query when it has
  one. \<open>None\<close> is the exception of a missing kind or row.
\<close>

definition toggle_row :: "params \<Rightarrow> object \<Rightarrow> object \<Rightarrow> object" where
  "toggle_row ps payload row =
     (let dis = (case map_of ps ''disabled'' of
                   Some v \<Rightarrow> Some (JBoolean (v = ''true''))
                 | None \<Rightarrow> str_prop ''disabled'' payload);
          row1 = set_prop ''disabled'' dis row
      in AList.update ''status'' (JString (if json_truthy dis then ''disabled'' else ''running'')) row1)"

definition toggle_name :: "params \<Rightarrow> object \<Rightarrow> json option" where
  "toggle_name ps payload =
     (case map_of ps ''name'' of Some (c # cs) \<Rightarrow> Some (JString (c # cs)) | _ \<Rightarrow> str_prop ''name'' payload)"

definition toggle_action :: "string \<Rightarrow> params \<Rightarrow> object \<Rightarrow> mock \<Rightarrow> mock option" where
  "toggle_action kind ps payload s =
     (case map_of (mk_records s) kind of
        None \<Rightarrow> None
      | Some rows \<Rightarrow>
          map_option (\<lambda>rows'. put_records kind rows' s)
            (update_first (\<lambda>r. str_prop ''name'' r = toggle_name ps payload) (toggle_row ps payload) rows))"

definition created_row :: "object \<Rightarrow> object" where
  "created_row payload =
     object_assign (object_assign [] payload)
       [(''uuid'', if json_truthy (str_prop ''uuid'' payload) then the (str_prop ''uuid'' payload) else JString ''created''),
        (''status'', JString (if json_truthy (str_prop ''disabled'' payload) then ''disabled'' else ''running''))]"

definition save_action :: "string \<Rightarrow> string \<Rightarrow> object \<Rightarrow> mock \<Rightarrow> mock option" where
  "save_action kind action payload s =
     (case map_of (mk_records s) kind of
        None \<Rightarrow> None
      | Some rows \<Rightarrow>
          if action = ''edit'' then
            map_option (\<lambda>rows'. put_records kind rows' s)
              (update_first (\<lambda>r. str_prop ''uuid'' r = str_prop ''uuid'' payload) (\<lambda>r. object_assign r payload) rows)
          else Some (put_records kind (created_row payload # rows) s))"

definition delete_action :: "string \<Rightarrow> object \<Rightarrow> mock \<Rightarrow> mock option" where
  "delete_action kind payload s =
     (case map_of (mk_records s) kind of
        None \<Rightarrow> None
      | Some rows \<Rightarrow>
          Some (put_records kind
            (filter (\<lambda>r. if json_truthy (str_prop ''uuid'' payload) then str_prop ''uuid'' r \<noteq> str_prop ''uuid'' payload
                         else str_prop ''name'' r \<noteq> str_prop ''name'' payload) rows) s))"

text \<open>The writing part of the handler, after \<open>writes.push\<close>.\<close>

definition write_action :: "string \<Rightarrow> string \<Rightarrow> params \<Rightarrow> object \<Rightarrow> mock \<Rightarrow> response \<times> mock" where
  "write_action kind action ps payload s =
     (if action = ''set_disabled'' then
        (if mk_failToggle s then (fail_reply toggle_failed, s)
         else (case toggle_action kind ps payload s of None \<Rightarrow> (ServerError, s) | Some s' \<Rightarrow> (ok_reply [], s')))
      else if action \<in> {''create'', ''edit'', ''import''} then
        (if mk_failSave s then (fail_reply save_failed, s)
         else (case save_action kind action payload s of None \<Rightarrow> (ServerError, s) | Some s' \<Rightarrow> (ok_reply [], s')))
      else if action = ''delete'' then
        (case delete_action kind payload s of None \<Rightarrow> (ServerError, s) | Some s' \<Rightarrow> (ok_reply [], s'))
      else (ok_reply [], s))"

definition mtr_events :: "object \<Rightarrow> (string \<times> json) list" where
  "mtr_events tunnel0 =
     [(''start'', JObject ((case str_prop ''name'' tunnel0 of None \<Rightarrow> [] | Some n \<Rightarrow> [(''name'', n)]) @
                           [(''command'', JString ''mtr --tcp 127.0.0.1'')])),
      (''terminal'', JObject [(''chunk'', JString ''SG9zdCAgTG9zcyUgIExhc3QNCmxvY2FsaG9zdCAgMCUgIDFtcw0K'')])]"

definition nth_opt :: "nat \<Rightarrow> 'a list \<Rightarrow> 'a option" where
  "nth_opt i xs = (if i < length xs then Some (xs ! i) else None)"

definition api :: "(string \<Rightarrow> int option) \<Rightarrow> object list \<Rightarrow> object \<Rightarrow> object \<Rightarrow> request \<Rightarrow> mock \<Rightarrow> response \<times> mock" where
  "api date_parse fixture tunnel0 tunnel1 rq s =
     (case rq_payload rq of
        None \<Rightarrow> (ServerError, s)
      | Some payload \<Rightarrow>
          let segs = split_on CHR ''/'' (rq_path rq);
              kind = (case nth_opt 2 segs of None \<Rightarrow> ''undefined'' | Some k \<Rightarrow> k);
              action = (case nth_opt 3 segs of None \<Rightarrow> ''undefined'' | Some a \<Rightarrow> a);
              ps = rq_params rq
          in if rq_path rq = ''/api/auth/session'' then
               (ok_reply [(''data'', JObject [(''authenticated'', JBoolean True), (''username'', JString ''admin'')])], s)
             else if rq_path rq = ''/api/tunnel/probe'' then (ok_reply [], s\<lparr>mk_probeCount := mk_probeCount s + 1\<rparr>)
             else if rq_path rq = ''/api/tunnel/mtr/stream'' then (EventStream (mtr_events tunnel0), s)
             else if action = ''list'' then (list_action kind ps s, s)
             else if action = ''quality'' then
               (ok_reply [(''data'', JObject ((case str_prop ''quality_summary'' tunnel0 of None \<Rightarrow> [] | Some q \<Rightarrow> [(''summary'', q)]) @
                                              [(''details'', JObject [])]))], s)
             else if action = ''probe_history'' then history_action date_parse fixture ps s
             else if action = ''switch_log'' then
               (ok_reply [(''data'', JArray [JObject ([(''time'', JString ''2026-10-17 18:10:00'')] @
                  (case str_prop ''name'' tunnel1 of None \<Rightarrow> [] | Some n \<Rightarrow> [(''from'', n)]) @
                  (case str_prop ''name'' tunnel0 of None \<Rightarrow> [] | Some n \<Rightarrow> [(''to'', n)]))])], s)
             else if action = ''check_server'' then
               (ok_reply [(''msg'', JString (utf8 [230, 163, 128, 230, 181, 139, 229, 174, 140, 230, 136, 144, 239, 188, 136, 229, 134, 133, 229, 173, 152, 230, 142, 165, 229, 143, 163, 239, 188, 137]))], s)
             else if action = ''bandwidth'' then
               (ok_reply [(''data'', JObject [(''summary'', JObject [(''status'', JString ''ok''), (''mbps'', JNumber 50)])])], s)
             else write_action kind action ps payload (s\<lparr>mk_writes := mk_writes s @ [(kind, action, payload, rq_url rq)]\<rparr>))"

section \<open>Library: objects and rows\<close>

lemma map_of_object_assign: "map_of (object_assign t s) k = (case map_of (rev s) k of None \<Rightarrow> map_of t k | Some v \<Rightarrow> Some v)"
proof (induction s arbitrary: t rule: rev_induct)
  case Nil
  show ?case by (simp add: object_assign_def)
next
  case (snoc x s)
  obtain a b where x: "x = (a, b)" by force
  have "object_assign t (s @ [x]) = AList.update a b (object_assign t s)" by (simp add: object_assign_def x)
  then show ?case using snoc x by (simp add: update_conv')
qed

lemma str_prop_toggle:
  "str_prop k (toggle_row ps payload row) =
     (let dis = (case map_of ps ''disabled'' of Some v \<Rightarrow> Some (JBoolean (v = ''true'')) | None \<Rightarrow> str_prop ''disabled'' payload) in
      if k = ''status'' then Some (JString (if json_truthy dis then ''disabled'' else ''running''))
      else if k = ''disabled'' then dis else str_prop k row)"
  by (auto simp: str_prop_def toggle_row_def Let_def set_prop_def update_conv' delete_conv' split: option.splits)

lemma update_first_spec:
  "update_first P f xs = Some ys \<longleftrightarrow>
     (\<exists>as x bs. xs = as @ x # bs \<and> list_all (\<lambda>a. \<not> P a) as \<and> P x \<and> ys = as @ f x # bs)"
proof
  assume u: "update_first P f xs = Some ys"
  then obtain x bs where d: "dropWhile (\<lambda>x. \<not> P x) xs = x # bs" and ys: "ys = takeWhile (\<lambda>x. \<not> P x) xs @ f x # bs"
    by (auto simp: update_first_def split: list.splits)
  have "xs = takeWhile (\<lambda>x. \<not> P x) xs @ x # bs" using d by (metis takeWhile_dropWhile_id)
  moreover have "list_all (\<lambda>a. \<not> P a) (takeWhile (\<lambda>x. \<not> P x) xs)" by (auto simp: list_all_iff dest: set_takeWhileD)
  moreover have "P x" using d by (metis dropWhile_eq_Cons_conv)
  ultimately show "\<exists>as x bs. xs = as @ x # bs \<and> list_all (\<lambda>a. \<not> P a) as \<and> P x \<and> ys = as @ f x # bs" using ys by blast
next
  assume "\<exists>as x bs. xs = as @ x # bs \<and> list_all (\<lambda>a. \<not> P a) as \<and> P x \<and> ys = as @ f x # bs"
  then obtain as x bs where x: "xs = as @ x # bs" "list_all (\<lambda>a. \<not> P a) as" "P x" "ys = as @ f x # bs" by blast
  have "dropWhile (\<lambda>x. \<not> P x) xs = x # bs" "takeWhile (\<lambda>x. \<not> P x) xs = as"
    using x by (auto simp: list_all_iff dropWhile_append2 takeWhile_append2)
  then show "update_first P f xs = Some ys" using x(4) by (simp add: update_first_def)
qed

lemma update_first_total: "x \<in> set xs \<Longrightarrow> P x \<Longrightarrow> \<exists>ys. update_first P f xs = Some ys"
proof -
  assume "x \<in> set xs" "P x"
  then have "dropWhile (\<lambda>x. \<not> P x) xs \<noteq> []" by auto
  then show ?thesis by (cases "dropWhile (\<lambda>x. \<not> P x) xs") (auto simp: update_first_def)
qed

lemma records_put [simp]:
  "map_of (mk_records (put_records kind rows s)) k = (if k = kind then Some rows else map_of (mk_records s) k)"
  by (simp add: put_records_def update_conv')

lemma put_records_frame [simp]:
  "mk_failSave (put_records kind rows s) = mk_failSave s" "mk_failList (put_records kind rows s) = mk_failList s"
  "mk_failToggle (put_records kind rows s) = mk_failToggle s" "mk_writes (put_records kind rows s) = mk_writes s"
  by (simp_all add: put_records_def)

section \<open>Library: numbers in URLs\<close>

lemma digits_value_snoc:
  "digits_value s a = Some v \<Longrightarrow> d < 10 \<Longrightarrow> digits_value (s @ [char_of (48 + d)]) a = Some (v * 10 + int d)"
  by (induction s arbitrary: a) (auto simp: Let_def split: if_splits)

lemma digits_value_show_nat: "digits_value (show_nat n) 0 = Some (int n)"
proof (induction n rule: less_induct)
  case (less n)
  show ?case
  proof (cases "n < 10")
    case True
    then show ?thesis by (simp add: show_nat.simps [of n])
  next
    case False
    then have "digits_value (show_nat (n div 10)) 0 = Some (int (n div 10))" using less by simp
    then have "digits_value (show_nat (n div 10) @ [char_of (48 + n mod 10)]) 0 = Some (int (n div 10) * 10 + int (n mod 10))"
      by (rule digits_value_snoc) simp
    moreover have "int (n div 10) * 10 + int (n mod 10) = int (n div 10 * 10 + n mod 10)"
      by (simp only: of_nat_add of_nat_mult of_nat_numeral)
    moreover have "n div 10 * 10 + n mod 10 = n" by (rule div_mult_mod_eq)
    ultimately show ?thesis using False by (simp add: show_nat.simps [of n])
  qed
qed

lemma show_nat_digits: "c \<in> set (show_nat n) \<Longrightarrow> 48 \<le> (of_char c :: nat) \<and> (of_char c :: nat) \<le> 57"
proof (induction n arbitrary: c rule: less_induct)
  case (less n)
  show ?case
  proof (cases "n < 10")
    case True
    then show ?thesis using less.prems by (auto simp: show_nat.simps [of n])
  next
    case False
    then consider "c \<in> set (show_nat (n div 10))" | "c = char_of (48 + n mod 10)"
      using less.prems by (auto simp: show_nat.simps [of n])
    then show ?thesis
    proof cases
      case 1
      then show ?thesis using less.IH [of "n div 10"] False by simp
    next
      case 2
      have "n mod 10 < 10" by simp
      then show ?thesis using 2 by simp
    qed
  qed
qed

lemma show_nat_nonempty: "show_nat n \<noteq> []"
  by (simp add: show_nat.simps [of n])

lemma trim_id: "\<forall>c\<in>set s. \<not> is_space c \<Longrightarrow> trim s = s"
proof -
  assume a: "\<forall>c\<in>set s. \<not> is_space c"
  then have "dropWhile is_space s = s" "dropWhile is_space (rev s) = rev s"
    using hd_in_set [of s] hd_in_set [of "rev s"] by (auto simp: dropWhile_eq_self_iff)
  then show ?thesis by (simp add: trim_def)
qed

lemma js_Number_show_nat: "js_Number (show_nat n) = Some (int n)"
proof -
  have "trim (show_nat n) = show_nat n"
    using show_nat_digits [of _ n] by (intro trim_id) (force simp: is_space_def)
  moreover obtain c cs where c: "show_nat n = c # cs" using show_nat_nonempty by (cases "show_nat n") auto
  moreover have "c \<noteq> CHR ''-''" "c \<noteq> CHR ''+''" using show_nat_digits [of c n] c by auto
  ultimately show ?thesis using digits_value_show_nat [of n] by (simp add: js_Number_def)
qed

section \<open>Library: paging\<close>

text \<open>A client that follows \<open>next_before\<close> until it is zero, at most \<open>fuel\<close> pages.\<close>

fun collect_pages :: "nat \<Rightarrow> (string \<Rightarrow> int option) \<Rightarrow> object list \<Rightarrow> params \<Rightarrow> params \<Rightarrow> object list option" where
  "collect_pages 0 dp fixture ps bound = None"
| "collect_pages (Suc n) dp fixture ps bound =
     (case history_page dp fixture (bound @ ps) of
        (rows, next) \<Rightarrow>
          if next = 0 then Some rows
          else map_option (\<lambda>more. rows @ more) (collect_pages n dp fixture ps [(''before'', show_nat (nat next))]))"

lemma descending_tail:
  assumes "sorted_wrt (\<lambda>a b. f b < (f a :: int)) xs" "0 < k" "k \<le> length xs"
  shows "filter (\<lambda>r. f r < f (xs ! (k - 1))) xs = drop k xs"
proof -
  have "\<not> f r < f (xs ! (k - 1))" if "r \<in> set (take k xs)" for r
  proof -
    obtain i where i: "r = xs ! i" "i < k" using \<open>r \<in> set (take k xs)\<close> assms(3) by (auto simp: in_set_conv_nth)
    show ?thesis
    proof (cases "i = k - 1")
      case False
      then have "i < k - 1" "k - 1 < length xs" using i assms(2,3) by auto
      then show ?thesis using sorted_wrt_nth_less [OF assms(1), of i "k - 1"] i(1) by simp
    qed (use i in simp)
  qed
  moreover have "f r < f (xs ! (k - 1))" if "r \<in> set (drop k xs)" for r
  proof -
    obtain i where "r = xs ! (k + i)" "k + i < length xs" using \<open>r \<in> set (drop k xs)\<close> by (auto simp: in_set_conv_nth)
    moreover from this have "k - 1 < k + i" using assms(2) by simp
    ultimately show ?thesis using sorted_wrt_nth_less [OF assms(1), of "k - 1" "k + i"] by simp
  qed
  ultimately have "filter (\<lambda>r. f r < f (xs ! (k - 1))) (take k xs @ drop k xs) = drop k xs"
    unfolding filter_append by (simp add: filter_empty_conv filter_id_conv)
  then show ?thesis by simp
qed

definition ascending :: "object list \<Rightarrow> bool" where
  "ascending fixture \<longleftrightarrow> sorted_wrt (\<lambda>a b. row_id a < row_id b) fixture \<and> list_all (\<lambda>r. 0 < row_id r) fixture"

lemma history_match_before: "history_match dp ((''before'', v) # ps) = history_match dp ps"
  by (simp add: history_match_def fun_eq_iff)

text \<open>The rows a bound leaves, newest first.\<close>

definition remaining :: "(string \<Rightarrow> int option) \<Rightarrow> object list \<Rightarrow> params \<Rightarrow> params \<Rightarrow> object list" where
  "remaining dp fixture ps bound = rev (filter (\<lambda>r. history_match dp ps r \<and> before_match (bound @ ps) r) fixture)"

lemma remaining_descending:
  "ascending fixture \<Longrightarrow> sorted_wrt (\<lambda>a b. row_id b < row_id a) (remaining dp fixture ps bound)"
  by (simp add: remaining_def ascending_def sorted_wrt_rev sorted_wrt_filter)

lemma remaining_next:
  assumes "ascending fixture" "50 < length (remaining dp fixture ps bound)"
  defines "b \<equiv> row_id (remaining dp fixture ps bound ! 49)"
  shows "remaining dp fixture ps [(''before'', show_nat (nat b))] = drop 50 (remaining dp fixture ps bound) \<and> 0 < b"
proof -
  let ?m = "remaining dp fixture ps bound"
  have "?m ! 49 \<in> set ?m" using assms(2) by (intro nth_mem) simp
  then have x: "?m ! 49 \<in> set fixture" "before_match (bound @ ps) (?m ! 49)" by (auto simp: remaining_def)
  then have pos: "0 < b" using assms(1) by (auto simp: b_def ascending_def list_all_iff)
  obtain c cs where c: "show_nat (nat b) = c # cs" using show_nat_nonempty by (cases "show_nat (nat b)") auto
  have bm: "before_match ([(''before'', show_nat (nat b))] @ ps) r \<longleftrightarrow> row_id r < b" for r
    using js_Number_show_nat [of "nat b"] pos by (simp add: before_match_def c)
  have mono: "before_match (bound @ ps) r" if "row_id r < b" for r
    using x(2) that unfolding before_match_def b_def by (auto split: option.splits list.splits)
  have "remaining dp fixture ps [(''before'', show_nat (nat b))] = filter (\<lambda>r. row_id r < b) ?m"
    using mono unfolding remaining_def bm rev_filter [symmetric] filter_filter
    by (intro arg_cong [where f = rev] filter_cong) auto
  also have "\<dots> = drop 50 ?m"
    using descending_tail [OF remaining_descending [OF assms(1)], of 50 dp ps bound] assms(2) by (simp add: b_def)
  finally show ?thesis using pos by blast
qed

lemma history_page_remaining:
  assumes "history_match dp (bound @ ps) = history_match dp ps"
  shows "history_page dp fixture (bound @ ps) =
     (let m = remaining dp fixture ps bound in (take 50 m, if length m > 50 then row_id (m ! 49) else 0))"
proof -
  have "last (take 50 m) = m ! 49" if "50 < length m" for m :: "object list"
    using that by (subst last_conv_nth) auto
  then show ?thesis by (simp add: history_page_def remaining_def assms Let_def)
qed

lemma collect_pages_all:
  assumes "ascending fixture" "history_match dp (bound @ ps) = history_match dp ps"
    and "length (remaining dp fixture ps bound) < 50 * n"
  shows "collect_pages n dp fixture ps bound = Some (remaining dp fixture ps bound)"
  using assms(2,3)
proof (induction n arbitrary: bound)
  case (Suc n)
  let ?m = "remaining dp fixture ps bound"
  show ?case
  proof (cases "50 < length ?m")
    case False
    then show ?thesis using history_page_remaining [OF Suc.prems(1)] by (simp add: Let_def)
  next
    case True
    define b where "b = row_id (?m ! 49)"
    have r: "remaining dp fixture ps [(''before'', show_nat (nat b))] = drop 50 ?m" "0 < b"
      using remaining_next [OF assms(1) True] by (auto simp: b_def)
    have "collect_pages n dp fixture ps [(''before'', show_nat (nat b))] = Some (drop 50 ?m)"
      using Suc.IH [of "[(''before'', show_nat (nat b))]"] Suc.prems(2) True r(1) by (simp add: history_match_before)
    then show ?thesis using history_page_remaining [OF Suc.prems(1)] True r(2) by (simp add: Let_def b_def)
  qed
qed simp

section \<open>Library: routing of requests\<close>

definition logged :: "string \<Rightarrow> string \<Rightarrow> object \<Rightarrow> request \<Rightarrow> mock \<Rightarrow> mock" where
  "logged kind action payload rq s = s\<lparr>mk_writes := mk_writes s @ [(kind, action, payload, rq_url rq)]\<rparr>"

lemma logged_simps [simp]:
  "mk_records (logged kind action payload rq s) = mk_records s"
  "mk_failToggle (logged kind action payload rq s) = mk_failToggle s"
  "mk_failSave (logged kind action payload rq s) = mk_failSave s"
  "mk_failList (logged kind action payload rq s) = mk_failList s"
  "mk_writes (logged kind action payload rq s) = mk_writes s @ [(kind, action, payload, rq_url rq)]"
  by (simp_all add: logged_def)

lemma api_segments:
  assumes "CHR ''/'' \<notin> set kind" "CHR ''/'' \<notin> set action"
  shows "split_on CHR ''/'' (''/api/'' @ kind @ ''/'' @ action) = [[], ''api'', kind, action]"
  using assms split_on_append [of "CHR ''/''" kind action] by (simp add: split_on_absent)

lemma api_special_paths:
  assumes "CHR ''/'' \<notin> set kind" "CHR ''/'' \<notin> set action" "action \<notin> {''session'', ''probe''}"
  shows "''/api/'' @ kind @ ''/'' @ action \<notin> {''/api/auth/session'', ''/api/tunnel/probe'', ''/api/tunnel/mtr/stream''}"
proof -
  have "split_on CHR ''/'' (''/api/'' @ kind @ ''/'' @ action) \<noteq> split_on CHR ''/'' p"
    if "p \<in> {''/api/auth/session'', ''/api/tunnel/probe'', ''/api/tunnel/mtr/stream''}" for p
    using that assms(3) unfolding api_segments [OF assms(1,2)] by auto
  then show ?thesis by metis
qed

lemma api_write:
  assumes "CHR ''/'' \<notin> set kind" "action \<in> {''set_disabled'', ''create'', ''edit'', ''import'', ''delete''}"
    and "rq_path rq = ''/api/'' @ kind @ ''/'' @ action" "rq_payload rq = Some payload"
  shows "api dp fixture t0 t1 rq s = write_action kind action (rq_params rq) payload (logged kind action payload rq s)"
proof -
  have a: "CHR ''/'' \<notin> set action" "action \<notin> {''session'', ''probe'', ''list'', ''quality'', ''probe_history'',
      ''switch_log'', ''check_server'', ''bandwidth''}" using assms(2) by auto
  have n: "action \<noteq> ''list''" "action \<noteq> ''quality''" "action \<noteq> ''probe_history''" "action \<noteq> ''switch_log''"
    "action \<noteq> ''check_server''" "action \<noteq> ''bandwidth''" using a(2) by auto
  have sp: "rq_path rq \<notin> {''/api/auth/session'', ''/api/tunnel/probe'', ''/api/tunnel/mtr/stream''}"
    unfolding assms(3) by (rule api_special_paths) (use a assms(1) in auto)
  have segs: "split_on CHR ''/'' (rq_path rq) = [[], ''api'', kind, action]"
    using api_segments [OF assms(1) a(1)] by (simp add: assms(3))
  show ?thesis using sp n unfolding api_def assms(4) option.case segs
    by (simp add: nth_opt_def Let_def logged_def)
qed

lemma api_list:
  assumes "CHR ''/'' \<notin> set kind" "rq_path rq = ''/api/'' @ kind @ ''/list''" "rq_payload rq = Some payload"
  shows "api dp fixture t0 t1 rq s = (list_action kind (rq_params rq) s, s)"
proof -
  have l: "CHR ''/'' \<notin> set ''list''" "''list'' \<notin> {''session'', ''probe''}" by simp_all
  have p: "rq_path rq = ''/api/'' @ kind @ ''/'' @ ''list''" using assms(2) by simp
  have sp: "rq_path rq \<notin> {''/api/auth/session'', ''/api/tunnel/probe'', ''/api/tunnel/mtr/stream''}"
    unfolding p by (rule api_special_paths [OF assms(1) l])
  have segs: "split_on CHR ''/'' (rq_path rq) = [[], ''api'', kind, ''list'']"
    unfolding p by (rule api_segments [OF assms(1) l(1)])
  show ?thesis using sp unfolding api_def assms(3) option.case segs by (simp add: nth_opt_def Let_def)
qed

section \<open>Properties\<close>

text \<open>
  Following \<open>next_before\<close> reads the whole probe history: for any fixture with increasing
  positive ids and any filter, a client that starts without a bound and passes each reply's
  \<open>next_before\<close> back as \<open>before\<close> stops after finitely many pages having received every matching
  record exactly once, newest first.
\<close>

theorem history_paging_complete:
  assumes "ascending fixture" and "map_of ps ''before'' = None" and "length fixture < 50 * n"
  shows "collect_pages n dp fixture ps [] = Some (rev (filter (history_match dp ps) fixture))"
proof -
  have b: "before_match ([] @ ps) r" for r using assms(2) by (simp add: before_match_def)
  have r: "remaining dp fixture ps [] = rev (filter (history_match dp ps) fixture)"
    by (simp only: remaining_def b simp_thms)
  have "length (rev (filter (history_match dp ps) fixture)) \<le> length fixture" by simp
  then have "length (remaining dp fixture ps []) < 50 * n" using assms(3) unfolding r by linarith
  then show ?thesis using collect_pages_all [OF assms(1), of dp "[]" ps n] r by simp
qed

lemma historyFixture_ascending: "ascending (historyFixture t)"
proof -
  have "row_id (history_row t i) = int i + 1" for i by (simp add: row_id_def history_row_def str_prop_def)
  then show ?thesis
    by (auto simp: ascending_def historyFixture_def sorted_wrt_map list_all_iff sorted_wrt_iff_nth_less)
qed

theorem history_paging_complete_witness:
  "collect_pages 2 (\<lambda>_. Some 5) (historyFixture ''2026-10-17T18:05:00'') [(''uuid'', ''a''), (''until'', ''9'')] [] =
   Some (rev (filter (history_match (\<lambda>_. Some 5) [(''uuid'', ''a''), (''until'', ''9'')]) (historyFixture ''2026-10-17T18:05:00'')))"
  by (rule history_paging_complete [OF historyFixture_ascending]) (simp_all add: historyFixture_def)

lemma set_disabled_effect:
  assumes "CHR ''/'' \<notin> set kind" "rq_path rq = ''/api/'' @ kind @ ''/set_disabled''" "rq_payload rq = Some payload"
    and "map_of (rq_params rq) ''name'' = Some nm" "nm \<noteq> []" "map_of (rq_params rq) ''disabled'' = Some v"
    and "map_of (mk_records s) kind = Some rows" "r \<in> set rows" "str_prop ''name'' r = Some (JString nm)"
    and "\<not> mk_failToggle s"
  shows "\<exists>s' as x bs y. api dp fixture t0 t1 rq s = (ok_reply [], s') \<and>
     mk_writes s' = mk_writes s @ [(kind, ''set_disabled'', payload, rq_url rq)] \<and>
     rows = as @ x # bs \<and> list_all (\<lambda>z. str_prop ''name'' z \<noteq> Some (JString nm)) as \<and>
     str_prop ''name'' x = Some (JString nm) \<and>
     map_of (mk_records s') = (map_of (mk_records s))(kind \<mapsto> as @ y # bs) \<and>
     str_prop ''disabled'' y = Some (JBoolean (v = ''true'')) \<and>
     str_prop ''status'' y = Some (JString (if v = ''true'' then ''disabled'' else ''running'')) \<and>
     str_prop ''name'' y = Some (JString nm) \<and>
     (\<forall>k. k \<noteq> ''disabled'' \<and> k \<noteq> ''status'' \<longrightarrow> str_prop k y = str_prop k x)"
proof -
  define s1 where "s1 = logged kind ''set_disabled'' payload rq s"
  have nm: "toggle_name (rq_params rq) payload = Some (JString nm)"
    using assms(4,5) by (cases nm) (simp_all add: toggle_name_def)
  let ?t = "toggle_row (rq_params rq) payload"
  obtain rows' where u: "update_first (\<lambda>r. str_prop ''name'' r = Some (JString nm)) ?t rows = Some rows'"
    using update_first_total [of r rows "\<lambda>r. str_prop ''name'' r = Some (JString nm)"] assms(8,9) by blast
  then obtain as x bs where x: "rows = as @ x # bs" "list_all (\<lambda>z. str_prop ''name'' z \<noteq> Some (JString nm)) as"
    "str_prop ''name'' x = Some (JString nm)" "rows' = as @ ?t x # bs"
    unfolding update_first_spec by blast
  have w: "api dp fixture t0 t1 rq s = (ok_reply [], put_records kind rows' s1)"
    using api_write [OF assms(1) _ _ assms(3), of "''set_disabled''"] assms(2,7,10) u nm
    by (simp add: s1_def write_action_def toggle_action_def)
  have m: "map_of (mk_records (put_records kind rows' s1)) = (map_of (mk_records s))(kind \<mapsto> as @ ?t x # bs)"
    by (simp add: fun_eq_iff s1_def x(4))
  have y: "str_prop ''disabled'' (?t x) = Some (JBoolean (v = ''true''))"
    "str_prop ''status'' (?t x) = Some (JString (if v = ''true'' then ''disabled'' else ''running''))"
    "\<forall>k. k \<noteq> ''disabled'' \<and> k \<noteq> ''status'' \<longrightarrow> str_prop k (?t x) = str_prop k x"
    using assms(6) by (simp_all add: str_prop_toggle Let_def)
  have "mk_writes (put_records kind rows' s1) = mk_writes s @ [(kind, ''set_disabled'', payload, rq_url rq)]"
    by (simp add: s1_def)
  then show ?thesis using w x m y
    by (intro exI [of _ "put_records kind rows' s1"] exI [of _ as] exI [of _ x] exI [of _ bs] exI [of _ "?t x"] conjI) simp_all
qed

lemma api_keeps_failList: "mk_failList (snd (api dp fixture t0 t1 rq s)) = mk_failList s"
  by (simp add: api_def Let_def history_action_def write_action_def toggle_action_def save_action_def delete_action_def
      put_records_def split: option.split prod.split)

text \<open>
  Enabling and disabling touches one row. A \<open>set_disabled\<close> call for a name of the list answers
  200 and changes only the first row of that name: its \<open>disabled\<close> becomes the requested value and
  its \<open>status\<close> follows, every other property of the row, every other row and every other list stay
  as they were; the call is logged. When the failure switch is on, it answers 500 and changes
  nothing but the log.
\<close>

theorem set_disabled_exact:
  assumes "CHR ''/'' \<notin> set kind" and "rq_path rq = ''/api/'' @ kind @ ''/set_disabled''"
    and "rq_payload rq = Some payload"
    and "map_of (rq_params rq) ''name'' = Some nm" and "nm \<noteq> []" and "map_of (rq_params rq) ''disabled'' = Some v"
    and "map_of (mk_records s) kind = Some rows" and "r \<in> set rows" and "str_prop ''name'' r = Some (JString nm)"
  shows "let (resp, s') = api dp fixture t0 t1 rq s in
           mk_writes s' = mk_writes s @ [(kind, ''set_disabled'', payload, rq_url rq)] \<and>
           (if mk_failToggle s then mk_records s' = mk_records s \<and> (\<exists>m. resp = fail_reply m)
            else resp = ok_reply [] \<and>
              (\<exists>as x bs y. rows = as @ x # bs \<and> list_all (\<lambda>z. str_prop ''name'' z \<noteq> Some (JString nm)) as \<and>
                 str_prop ''name'' x = Some (JString nm) \<and>
                 map_of (mk_records s') = (map_of (mk_records s))(kind \<mapsto> as @ y # bs) \<and>
                 str_prop ''disabled'' y = Some (JBoolean (v = ''true'')) \<and>
                 str_prop ''status'' y = Some (JString (if v = ''true'' then ''disabled'' else ''running'')) \<and>
                 (\<forall>k. k \<noteq> ''disabled'' \<and> k \<noteq> ''status'' \<longrightarrow> str_prop k y = str_prop k x)))"
proof (cases "mk_failToggle s")
  case True
  then show ?thesis using api_write [OF assms(1) _ _ assms(3), of "''set_disabled''"] assms(2)
    by (auto simp: write_action_def)
next
  case False
  obtain s' as x bs y where e: "api dp fixture t0 t1 rq s = (ok_reply [], s')"
    "mk_writes s' = mk_writes s @ [(kind, ''set_disabled'', payload, rq_url rq)]"
    "rows = as @ x # bs \<and> list_all (\<lambda>z. str_prop ''name'' z \<noteq> Some (JString nm)) as \<and> str_prop ''name'' x = Some (JString nm) \<and>
     map_of (mk_records s') = (map_of (mk_records s))(kind \<mapsto> as @ y # bs) \<and>
     str_prop ''disabled'' y = Some (JBoolean (v = ''true'')) \<and>
     str_prop ''status'' y = Some (JString (if v = ''true'' then ''disabled'' else ''running'')) \<and>
     (\<forall>k. k \<noteq> ''disabled'' \<and> k \<noteq> ''status'' \<longrightarrow> str_prop k y = str_prop k x)"
    using set_disabled_effect [OF assms False, of dp fixture t0 t1] by (elim exE conjE) blast
  show ?thesis unfolding e(1) Let_def split_conv if_not_P [OF False]
    by (rule conjI [OF e(2)], rule conjI [OF refl], intro exI, rule e(3))
qed

definition toggle_request :: request where
  "toggle_request = \<lparr>rq_url = ''u'', rq_path = ''/api/tunnel/set_disabled'',
     rq_params = [(''name'', ''failed_tunnel''), (''disabled'', ''true'')], rq_payload = Some []\<rparr>"

theorem set_disabled_exact_witness:
  "fst (api (\<lambda>_. None) [] [] [] toggle_request initial_mock) = ok_reply []"
proof -
  have h: "CHR ''/'' \<notin> set ''tunnel''" "rq_path toggle_request = ''/api/'' @ ''tunnel'' @ ''/set_disabled''"
    "rq_payload toggle_request = Some []" "map_of (rq_params toggle_request) ''name'' = Some ''failed_tunnel''"
    "''failed_tunnel'' \<noteq> []" "map_of (rq_params toggle_request) ''disabled'' = Some ''true''"
    "map_of (mk_records initial_mock) ''tunnel'' = Some tunnels" "tunnels ! 2 \<in> set tunnels"
    "str_prop ''name'' (tunnels ! 2) = Some (JString ''failed_tunnel'')"
    by (simp_all add: toggle_request_def initial_mock_def initial_records_def tunnels_def str_prop_def)
  have f: "\<not> mk_failToggle initial_mock" by (simp add: initial_mock_def)
  show ?thesis using set_disabled_exact [OF h, of "\<lambda>_. None" "[]" "[]" "[]"] f by (auto simp: Let_def split: prod.splits)
qed

definition post :: "string \<Rightarrow> string \<Rightarrow> object \<Rightarrow> request" where
  "post kind action payload = \<lparr>rq_url = [], rq_path = ''/api/'' @ kind @ ''/'' @ action, rq_params = [], rq_payload = Some payload\<rparr>"

lemma str_prop_assign:
  "str_prop k (object_assign t src) = (case map_of (rev src) k of None \<Rightarrow> str_prop k t | Some v \<Rightarrow> Some v)"
  unfolding str_prop_def by (rule map_of_object_assign)

lemma map_of_rev_distinct: "distinct (map fst src) \<Longrightarrow> map_of (rev src) = map_of src"
proof (rule ext)
  fix k assume d: "distinct (map fst src)"
  then have d': "distinct (map fst (rev src))" by (simp flip: rev_map)
  show "map_of (rev src) k = map_of src k"
  proof (cases "map_of src k")
    case None
    then have "map_of (rev src) k = None" by (simp add: map_of_eq_None_iff)
    then show ?thesis using None by simp
  next
    case (Some v)
    then have "(k, v) \<in> set (rev src)" by (simp add: map_of_SomeD)
    then show ?thesis using Some d' by simp
  qed
qed

lemma created_row_props:
  assumes "distinct (map fst payload)"
  shows "str_prop k (created_row payload) =
    (if k = ''status'' then Some (JString (if json_truthy (str_prop ''disabled'' payload) then ''disabled'' else ''running''))
     else if k = ''uuid'' then Some (if json_truthy (str_prop ''uuid'' payload) then the (str_prop ''uuid'' payload) else JString ''created'')
     else str_prop k payload)"
  using map_of_rev_distinct [OF assms]
  by (simp add: created_row_def str_prop_assign) (auto simp: str_prop_def split: option.splits)

lemma api_post:
  assumes "CHR ''/'' \<notin> set kind" "action \<in> {''set_disabled'', ''create'', ''edit'', ''import'', ''delete''}"
  shows "api dp fixture t0 t1 (post kind action payload) s =
     write_action kind action [] payload (logged kind action payload (post kind action payload) s)"
  using api_write [OF assms, of "post kind action payload" payload] by (simp add: post_def)

text \<open>
  Saving and deleting are undone by each other. With the failure switch off, creating a row with
  a fresh uuid puts it in front of the list with the payload's properties and a status that follows
  its \<open>disabled\<close>; editing it by that uuid overlays the new properties on that row alone; deleting by
  that uuid gives back the list as it was before. Other lists never change.
\<close>

theorem create_edit_delete:
  assumes "CHR ''/'' \<notin> set kind" and "map_of (mk_records s) kind = Some rows" and "\<not> mk_failSave s"
    and "distinct (map fst payload)" and "str_prop ''uuid'' payload = Some (JString u)" and "u \<noteq> []"
    and "list_all (\<lambda>r. str_prop ''uuid'' r \<noteq> Some (JString u)) rows"
    and "distinct (map fst change)" and "str_prop ''uuid'' change = Some (JString u)"
  shows "let s1 = snd (api dp fixture t0 t1 (post kind ''create'' payload) s);
             s2 = snd (api dp fixture t0 t1 (post kind ''edit'' change) s1);
             s3 = snd (api dp fixture t0 t1 (post kind ''delete'' [(''uuid'', JString u)]) s2)
         in (\<exists>row row'. map_of (mk_records s1) = (map_of (mk_records s))(kind \<mapsto> row # rows) \<and>
               (\<forall>k. k \<noteq> ''status'' \<longrightarrow> str_prop k row = str_prop k payload) \<and>
               str_prop ''status'' row = Some (JString (if json_truthy (str_prop ''disabled'' payload) then ''disabled'' else ''running'')) \<and>
               map_of (mk_records s2) = (map_of (mk_records s))(kind \<mapsto> row' # rows) \<and>
               (\<forall>k. str_prop k row' = (case str_prop k change of None \<Rightarrow> str_prop k row | Some v \<Rightarrow> Some v))) \<and>
            map_of (mk_records s3) = map_of (mk_records s)"
proof -
  define s1 where "s1 = snd (api dp fixture t0 t1 (post kind ''create'' payload) s)"
  define s2 where "s2 = snd (api dp fixture t0 t1 (post kind ''edit'' change) s1)"
  define s3 where "s3 = snd (api dp fixture t0 t1 (post kind ''delete'' [(''uuid'', JString u)]) s2)"
  let ?row = "created_row payload"
  let ?row' = "object_assign ?row change"
  have u: "str_prop ''uuid'' ?row = Some (JString u)" using created_row_props [OF assms(4), of "''uuid''"] assms(5,6) by simp
  have u': "str_prop ''uuid'' ?row' = Some (JString u)"
    using assms(9) map_of_rev_distinct [OF assms(8)] by (simp add: str_prop_assign) (simp add: str_prop_def)
  have m1: "map_of (mk_records s1) = (map_of (mk_records s))(kind \<mapsto> ?row # rows)" "\<not> mk_failSave s1"
    using assms(2,3) api_post [OF assms(1), of "''create''" dp fixture t0 t1 payload s]
    by (simp_all add: s1_def write_action_def save_action_def fun_eq_iff)
  have m2: "map_of (mk_records s2) = (map_of (mk_records s))(kind \<mapsto> ?row' # rows)"
  proof -
    have "update_first (\<lambda>r. str_prop ''uuid'' r = Some (JString u)) (\<lambda>r. object_assign r change) (?row # rows) = Some (?row' # rows)"
      using u by (simp add: update_first_def)
    then show ?thesis using m1 assms(9) api_post [OF assms(1), of "''edit''" dp fixture t0 t1 change s1]
      by (simp add: s2_def write_action_def save_action_def fun_eq_iff)
  qed
  have m3: "map_of (mk_records s3) = map_of (mk_records s)"
  proof -
    have "filter (\<lambda>r. str_prop ''uuid'' r \<noteq> Some (JString u)) (?row' # rows) = rows"
      using u' assms(7) by (simp add: list_all_iff)
    then show ?thesis
      using m2 assms(2,6) api_post [OF assms(1), of "''delete''" dp fixture t0 t1 "[(''uuid'', JString u)]" s2]
      by (simp add: s3_def write_action_def delete_action_def fun_eq_iff str_prop_def)
  qed
  have p: "\<forall>k. k \<noteq> ''status'' \<longrightarrow> str_prop k ?row = str_prop k payload"
    "str_prop ''status'' ?row = Some (JString (if json_truthy (str_prop ''disabled'' payload) then ''disabled'' else ''running''))"
    using created_row_props [OF assms(4)] assms(5,6) by auto
  have e: "\<forall>k. str_prop k ?row' = (case str_prop k change of None \<Rightarrow> str_prop k ?row | Some v \<Rightarrow> Some v)"
    using map_of_rev_distinct [OF assms(8)] by (simp add: str_prop_assign) (simp add: str_prop_def)
  show ?thesis
    unfolding Let_def s1_def [symmetric] s2_def [symmetric] s3_def [symmetric]
    using m1(1) m2 m3 p e by blast
qed

theorem create_edit_delete_witness:
  "map_of (mk_records (snd (api (\<lambda>_. None) [] [] [] (post ''service'' ''delete'' [(''uuid'', JString ''z'')])
     (snd (api (\<lambda>_. None) [] [] [] (post ''service'' ''edit'' [(''uuid'', JString ''z''), (''name'', JString ''w'')])
       (snd (api (\<lambda>_. None) [] [] [] (post ''service'' ''create'' [(''uuid'', JString ''z'')]) initial_mock)))))))
   = map_of initial_records"
proof -
  let ?rows = "map service_fixture (enumerate 0 [''echo'', ''http_proxy'', ''socks5_server'', ''socks5x_server''])"
  have h: "CHR ''/'' \<notin> set ''service''" "map_of (mk_records initial_mock) ''service'' = Some ?rows" "\<not> mk_failSave initial_mock"
    "distinct (map fst [(''uuid'', JString ''z'')])" "str_prop ''uuid'' [(''uuid'', JString ''z'')] = Some (JString ''z'')"
    "''z'' \<noteq> []" "list_all (\<lambda>r. str_prop ''uuid'' r \<noteq> Some (JString ''z'')) ?rows"
    "distinct (map fst [(''uuid'', JString ''z''), (''name'', JString ''w'')])"
    "str_prop ''uuid'' [(''uuid'', JString ''z''), (''name'', JString ''w'')] = Some (JString ''z'')"
    by (simp_all add: initial_mock_def initial_records_def str_prop_def service_fixture_def)
  show ?thesis using create_edit_delete [OF h, of "\<lambda>_. None" "[]" "[]" "[]"] unfolding Let_def
    by (simp add: initial_mock_def)
qed

end
