(* ===== verification/UiSession.thy ===== *)
theory UiSession
  imports MockApi
begin

text \<open>
  A list page talking to the in-memory API: the parts of the platform between
  \<open>axios.post\<close> in \<open>src/admin/resource/dist/js/admin-ui.js\<close> and the handler in
  \<open>src/scripts/test-admin-ui.cjs\<close>. The URL is parsed into path and query parameters, the body
  serialised and parsed, and the reply turned into the response object the page reads. Paths
  contain no dot segments and no fragment.
\<close>

section \<open>Requests\<close>

definition cut :: "char \<Rightarrow> string \<Rightarrow> string \<times> string" where
  "cut c s = (takeWhile (\<lambda>x. x \<noteq> c) s, drop 1 (dropWhile (\<lambda>x. x \<noteq> c) s))"

definition unescape :: "string \<Rightarrow> string" where
  "unescape s = (case query_unescape s of None \<Rightarrow> s | Some t \<Rightarrow> t)"

definition search_params :: "string \<Rightarrow> params" where
  "search_params q =
     map (\<lambda>p. case cut CHR ''='' p of (k, v) \<Rightarrow> (unescape k, unescape v))
         (filter (\<lambda>p. p \<noteq> []) (split_on CHR ''&'' q))"

fun json_of_jsval :: "jsval \<Rightarrow> json option" where
  "json_of_jsval Undefined = None"
| "json_of_jsval Null = Some JNull"
| "json_of_jsval (JBool b) = Some (JBoolean b)"
| "json_of_jsval (JNum n) = Some (JNumber n)"
| "json_of_jsval (JStr s) = Some (JString s)"

definition entries :: "(string \<times> jsval) list \<Rightarrow> object" where
  "entries kvs = List.map_filter (\<lambda>(k, v). map_option (Pair k) (json_of_jsval v)) kvs"

definition object_of_row :: "row \<Rightarrow> object" where
  "object_of_row r =
     entries [(''uuid'', row_uuid r), (''name'', row_name r), (''disabled'', row_disabled r), (''status'', row_status r),
              (''input'', row_input r), (''output'', row_output r), (''listen'', row_listen r),
              (''listen_port'', row_listen_port r), (''type'', row_type r)] @
     (case row_members r of None \<Rightarrow> [] | Some ms \<Rightarrow> [(''members'', JArray (map JString ms))]) @ row_rest r"

fun body_object :: "body \<Rightarrow> object" where
  "body_object InfoBody = []"
| "body_object EmptyBody = []"
| "body_object (ToggleBody nm dis) = entries [(''name'', nm), (''disabled'', JBool dis)]"
| "body_object (SaveBody p) = p"

definition request_of :: "string \<times> body \<Rightarrow> request" where
  "request_of p =
     (case p of (url, bd) \<Rightarrow>
        (case cut CHR ''?'' url of (path, q) \<Rightarrow>
           \<lparr>rq_url = url, rq_path = path, rq_params = search_params q, rq_payload = Some (body_object bd)\<rparr>))"

section \<open>Replies\<close>

definition strings_of :: "json list \<Rightarrow> string list" where
  "strings_of js = List.map_filter (\<lambda>j. case j of JString s \<Rightarrow> Some s | _ \<Rightarrow> None) js"

definition row_keys :: "string list" where
  "row_keys = [''uuid'', ''name'', ''disabled'', ''status'', ''input'', ''output'', ''listen'', ''listen_port'', ''type'', ''members'']"

definition row_of_object :: "object \<Rightarrow> row" where
  "row_of_object ob =
     (let f = (\<lambda>k. jsval_of_json (str_prop k ob)) in
      \<lparr>row_uuid = f ''uuid'', row_name = f ''name'', row_disabled = f ''disabled'', row_status = f ''status'',
       row_input = f ''input'', row_output = f ''output'', row_listen = f ''listen'',
       row_listen_port = f ''listen_port'', row_type = f ''type'',
       row_members = (case str_prop ''members'' ob of Some (JArray js) \<Rightarrow> Some (strings_of js) | _ \<Rightarrow> None),
       row_rest = filter (\<lambda>(k, v). k \<notin> set row_keys) ob\<rparr>)"

definition num_prop :: "string \<Rightarrow> object \<Rightarrow> int" where
  "num_prop k ob = (case str_prop k ob of Some (JNumber n) \<Rightarrow> n | _ \<Rightarrow> 0)"

definition payload_of :: "object \<Rightarrow> payload" where
  "payload_of ob =
     \<lparr>p_list = (case str_prop ''list'' ob of
                  Some (JArray js) \<Rightarrow>
                    Some (map row_of_object (List.map_filter (\<lambda>j. case j of JObject x \<Rightarrow> Some x | _ \<Rightarrow> None) js))
                | _ \<Rightarrow> None),
      p_pagination = (case str_prop ''pagination'' ob of
                        Some (JObject g) \<Rightarrow> Some \<lparr>total_nums = num_prop ''total_nums'' g, page_size = num_prop ''page_size'' g\<rparr>
                      | _ \<Rightarrow> None),
      p_version = jsval_of_json (str_prop ''version'' ob)\<rparr>"

text \<open>A status other than 2xx rejects the promise with axios' message.\<close>

definition reply_of :: "response \<Rightarrow> reply" where
  "reply_of r =
     (case r of
        ServerError \<Rightarrow> Rejected ''Request failed with status code 500''
      | EventStream _ \<Rightarrow> Reply Undefined Undefined None
      | JsonReply ob \<Rightarrow>
          Reply (jsval_of_json (str_prop ''code'' ob)) (jsval_of_json (str_prop ''msg'' ob))
                (case str_prop ''data'' ob of Some (JObject d) \<Rightarrow> Some (payload_of d) | _ \<Rightarrow> None))"

type_synonym backend = "request \<Rightarrow> mock \<Rightarrow> response \<times> mock"

definition serve :: "backend \<Rightarrow> string \<times> body \<Rightarrow> mock \<Rightarrow> reply \<times> mock" where
  "serve be p m = (case be (request_of p) m of (resp, m') \<Rightarrow> (reply_of resp, m'))"

text \<open>
  One round trip: the page's newest request is answered and the page handles the reply. With one
  request in flight this is the only thing that can happen next.
\<close>

definition roundtrip :: "backend \<Rightarrow> page \<times> mock \<Rightarrow> page \<times> mock" where
  "roundtrip be x = (case x of (s, m) \<Rightarrow>
     (case serve be (last (posts s)) m of (r, m') \<Rightarrow> (ui_step s (Answer 0 r), m')))"

section \<open>Library\<close>

lemma cut_append: "c \<notin> set a \<Longrightarrow> cut c (a @ c # b) = (a, b)"
  by (simp add: cut_def takeWhile_append dropWhile_append)

lemma cut_absent: "c \<notin> set a \<Longrightarrow> cut c a = (a, [])"
proof -
  assume "c \<notin> set a"
  then have "dropWhile (\<lambda>x. x \<noteq> c) a = []" "takeWhile (\<lambda>x. x \<noteq> c) a = a" by (auto simp: takeWhile_eq_all_conv)
  then show ?thesis unfolding cut_def by (simp only: drop_Nil)
qed

lemma unescape_words:
  "unescape ''name'' = ''name''" "unescape ''disabled'' = ''disabled''" "unescape ''true'' = ''true''" "unescape ''false'' = ''false''"
  by (simp_all add: unescape_def)

lemma search_params_toggle:
  "search_params (drop 1 (toggle_suffix r dis)) =
     [(''name'', js_string (row_name r)), (''disabled'', if dis then ''true'' else ''false'')]"
proof -
  let ?enc = "encodeURIComponent (js_string (row_name r))"
  have "CHR ''&'' \<notin> set (''name='' @ ?enc)" using encodeURIComponent_no_amp by simp
  then have sp: "split_on CHR ''&'' ((''name='' @ ?enc) @ CHR ''&'' # (''disabled='' @ js_string (JBool dis))) =
      [''name='' @ ?enc, ''disabled='' @ js_string (JBool dis)]"
    by (subst split_on_append) (simp_all add: split_on_absent)
  have k: "cut CHR ''='' (''name='' @ ?enc) = (''name'', ?enc)"
    "cut CHR ''='' (''disabled='' @ js_string (JBool dis)) = (''disabled'', js_string (JBool dis))"
    using cut_append [of "CHR ''=''" "''name''" ?enc] cut_append [of "CHR ''=''" "''disabled''" "js_string (JBool dis)"]
    by simp_all
  have e: "unescape ?enc = js_string (row_name r)" by (simp add: unescape_def query_unescape_encode)
  have d: "drop 1 (toggle_suffix r dis) = (''name='' @ ?enc) @ CHR ''&'' # (''disabled='' @ js_string (JBool dis))"
    by (simp add: toggle_suffix_def)
  have f: "filter (\<lambda>p. p \<noteq> []) [''name='' @ ?enc, ''disabled='' @ js_string (JBool dis)] =
      [''name='' @ ?enc, ''disabled='' @ js_string (JBool dis)]" by simp
  have v: "unescape (js_string (JBool dis)) = (if dis then ''true'' else ''false'')" by (simp add: unescape_words)
  show ?thesis unfolding search_params_def d sp f list.map k prod.case e v unescape_words(1,2) ..
qed

lemma request_toggle:
  assumes "CHR ''?'' \<notin> set ep"
  shows "request_of (ep @ toggle_suffix r dis, EmptyBody) =
    \<lparr>rq_url = ep @ toggle_suffix r dis, rq_path = ep,
     rq_params = [(''name'', js_string (row_name r)), (''disabled'', if dis then ''true'' else ''false'')], rq_payload = Some []\<rparr>"
proof -
  have "toggle_suffix r dis = CHR ''?'' # drop 1 (toggle_suffix r dis)" by (simp add: toggle_suffix_def)
  then have "cut CHR ''?'' (ep @ toggle_suffix r dis) = (ep, drop 1 (toggle_suffix r dis))"
    using cut_append [OF assms] by metis
  then show ?thesis by (simp only: request_of_def prod.case search_params_toggle body_object.simps)
qed

lemma request_list:
  "CHR ''?'' \<notin> set ep \<Longrightarrow>
   request_of (ep, InfoBody) = \<lparr>rq_url = ep, rq_path = ep, rq_params = [], rq_payload = Some []\<rparr>"
  by (simp add: request_of_def cut_absent search_params_def)

lemma map_filter_objects: "List.map_filter (\<lambda>j. case j of JObject x \<Rightarrow> Some x | _ \<Rightarrow> None) (map JObject xs) = xs"
  by (induction xs) (simp_all add: List.map_filter_simps)

lemma reply_list:
  assumes "\<not> mk_failList m" "map_of (mk_records m) kind = Some rows"
  shows "reply_of (list_action kind [] m) =
    Reply (JNum 200) Undefined (Some \<lparr>p_list = Some (map row_of_object rows),
      p_pagination = Some \<lparr>total_nums = int (length rows), page_size = 20\<rparr>, p_version = JStr ''ui-test''\<rparr>)"
  using assms by (simp add: list_action_def ok_reply_def reply_of_def str_prop_def payload_of_def num_prop_def map_filter_objects)

lemma reply_ok: "reply_of (ok_reply []) = Reply (JNum 200) Undefined None"
  by (simp add: reply_of_def ok_reply_def str_prop_def)

text \<open>A successful mutation reloads the list; the reload's reply fills the page.\<close>

lemma toggle_answered:
  assumes "inflight s = [Toggle nm dis]"
  shows "ui_step s (Answer 0 (Reply (JNum 200) Undefined None)) =
    loadList (KToggle (js_string nm)) (s\<lparr>inflight := [], messages := messages s @ [(True, Toggled (js_string nm) dis)]\<rparr>)"
  using assms by (simp add: mutation_error_def remove_nth_def)

lemma load_answered:
  assumes "inflight s = [Load (listRequestId s) (KToggle n)]"
  shows "ui_step s (Answer 0 (Reply (JNum 200) Undefined (Some \<lparr>p_list = Some rs, p_pagination = Some g, p_version = JStr v\<rparr>))) =
    s\<lparr>inflight := [], main_data := map (normalize_row (rowKind s)) rs, pageTotal := total_nums g, pageSize := page_size g,
      versions := versions s @ (if v = [] then [] else [JStr v]), listLoading := False,
      mutationPending := filter (\<lambda>m. m \<noteq> n) (mutationPending s)\<rparr>"
  using assms by (simp add: load_settle_def load_then_def load_catch_def load_finally_def remove_nth_def Let_def)

lemma toggled_row_shown:
  assumes "list_all (\<lambda>z. str_prop ''name'' z \<noteq> Some (JString nm)) as"
    and "str_prop ''disabled'' y = Some (JBoolean (\<not> enabled))"
    and "str_prop ''status'' y = Some (JString (if enabled then ''running'' else ''disabled''))"
    and "str_prop ''name'' y = Some (JString nm)"
    and f_def: "f = (\<lambda>ob. normalize_row k (row_of_object ob))"
  shows "\<exists>as' y' bs'. map f (as @ y # bs) = as' @ y' # bs' \<and> list_all (\<lambda>z. row_name z \<noteq> JStr nm) as' \<and>
      row_name y' = JStr nm \<and> row_disabled y' = JBool (\<not> enabled) \<and> (isRunning y' \<longleftrightarrow> enabled)"
proof -
  have "row_name (f y) = JStr nm" "row_disabled (f y) = JBool (\<not> enabled)" "isRunning (f y) \<longleftrightarrow> enabled"
    using assms(2-4)
    by (cases k; simp add: f_def normalizeTunnelRow_def row_of_object_def Let_def isRunning_def lower_def lower_char_def)+
  moreover have "list_all (\<lambda>z. row_name z \<noteq> JStr nm) (map f as)"
    using assms(1) by (cases k) (auto simp: f_def list_all_iff normalizeTunnelRow_def row_of_object_def Let_def elim!: jsval_of_json.elims)
  ultimately show ?thesis by (intro exI [of _ "map f as"] exI [of _ "f y"] exI [of _ "map f bs"]) simp
qed

text \<open>The reload after a mutation: the list of the server replaces the rows of the page.\<close>

lemma reload_roundtrip:
  assumes "inflight s = [Load (listRequestId s) (KToggle nm)]" "last (posts s) = (''/api/'' @ kind @ ''/list'', InfoBody)"
    and "CHR ''/'' \<notin> set kind" "CHR ''?'' \<notin> set kind" "\<not> mk_failList m" "map_of (mk_records m) kind = Some rows"
  shows "roundtrip (api dp fixture t0 t1) (s, m) =
    (s\<lparr>inflight := [], main_data := map (\<lambda>ob. normalize_row (rowKind s) (row_of_object ob)) rows, pageTotal := int (length rows), pageSize := 20,
       versions := versions s @ [JStr ''ui-test''], listLoading := False,
       mutationPending := filter (\<lambda>n. n \<noteq> nm) (mutationPending s)\<rparr>, m)"
proof -
  have ep: "CHR ''?'' \<notin> set (''/api/'' @ kind @ ''/list'')" using assms(4) by auto
  have sv: "serve (api dp fixture t0 t1) (''/api/'' @ kind @ ''/list'', InfoBody) m = (reply_of (list_action kind [] m), m)"
    using api_list [OF assms(3), of "request_of (''/api/'' @ kind @ ''/list'', InfoBody)" "[]" dp fixture t0 t1 m]
    by (simp add: serve_def request_list [OF ep, simplified])
  show ?thesis unfolding roundtrip_def split_conv assms(2) sv reply_list [OF assms(5,6)] load_answered [OF assms(1)]
    by (simp add: comp_def)
qed

text \<open>The mutation itself: the server switches the first row of the name, the page reloads.\<close>

lemma toggle_roundtrip:
  assumes "inflight s = []" "queryPage s = []" "listEndpoint s = ''/api/'' @ kind @ ''/list''" "CHR ''/'' \<notin> set kind" "CHR ''?'' \<notin> set kind"
    and "row_name r = JStr nm" "nm \<noteq> []" "\<not> pending_truthy s nm" "\<not> mk_failToggle m" "\<not> mk_failList m"
    and "map_of (mk_records m) kind = Some rows" "x \<in> set rows" "str_prop ''name'' x = Some (JString nm)"
  obtains s2 m2 as z bs y where
    "roundtrip (api dp fixture t0 t1) (setDisabled r enabled (''/api/'' @ kind @ ''/set_disabled'') True s, m) = (s2, m2)"
    "rows = as @ z # bs" "list_all (\<lambda>z. str_prop ''name'' z \<noteq> Some (JString nm)) as"
    "str_prop ''disabled'' y = Some (JBoolean (\<not> enabled))" "str_prop ''status'' y = Some (JString (if enabled then ''running'' else ''disabled''))"
    "str_prop ''name'' y = Some (JString nm)" "\<not> mk_failList m2" "map_of (mk_records m2) kind = Some (as @ y # bs)"
    "inflight s2 = [Load (listRequestId s2) (KToggle nm)]" "last (posts s2) = (''/api/'' @ kind @ ''/list'', InfoBody)"
    "listError s2 = None" "mutationPending s2 = mutationPending s @ [nm]"
proof -
  let ?ep = "''/api/'' @ kind @ ''/set_disabled''"
  let ?v = "if \<not> enabled then ''true'' else ''false''"
  define rq where "rq = request_of (?ep @ toggle_suffix r (\<not> enabled), EmptyBody)"
  have ep: "CHR ''?'' \<notin> set ?ep" using assms(5) by auto
  have rq: "rq_path rq = ?ep" "rq_payload rq = Some []" "map_of (rq_params rq) ''name'' = Some nm" "map_of (rq_params rq) ''disabled'' = Some ?v"
    using request_toggle [OF ep, of r "\<not> enabled"] assms(6) by (simp_all add: rq_def)
  obtain m1 as z bs y where api1: "api dp fixture t0 t1 rq m = (ok_reply [], m1)"
    and rows: "rows = as @ z # bs" "list_all (\<lambda>z. str_prop ''name'' z \<noteq> Some (JString nm)) as"
    and m1: "map_of (mk_records m1) = (map_of (mk_records m))(kind \<mapsto> as @ y # bs)"
    and y: "str_prop ''disabled'' y = Some (JBoolean (?v = ''true''))"
      "str_prop ''status'' y = Some (JString (if ?v = ''true'' then ''disabled'' else ''running''))" "str_prop ''name'' y = Some (JString nm)"
    using set_disabled_effect [OF assms(4) rq(1,2,3) assms(7) rq(4) assms(11,12,13,9), of dp fixture t0 t1] by metis
  have fl: "\<not> mk_failList m1" using api_keeps_failList [of dp fixture t0 t1 rq m] api1 assms(10) by simp
  define s1 where "s1 = setDisabled r enabled ?ep True s"
  have s1: "s1 = s\<lparr>mutationPending := mutationPending s @ [nm],
      posts := posts s @ [(?ep @ toggle_suffix r (\<not> enabled), EmptyBody)], inflight := [Toggle (JStr nm) (\<not> enabled)]\<rparr>"
    using assms(1,6,8) by (simp add: s1_def setDisabled_def Let_def)
  define s2 where "s2 = loadList (KToggle nm) (s1\<lparr>inflight := [], messages := messages s1 @ [(True, Toggled nm (\<not> enabled))]\<rparr>)"
  have r1: "roundtrip (api dp fixture t0 t1) (s1, m) = (s2, m1)"
    using api1 toggle_answered [of s1 "JStr nm" "\<not> enabled"]
    by (simp add: roundtrip_def serve_def rq_def reply_ok s2_def s1 del: ui_step.simps)
  show thesis
    by (rule that [OF r1 [unfolded s1_def] rows]) (use y fl m1 assms(2,3) in \<open>simp_all add: s2_def s1 loadList_def Let_def page_url_def\<close>)
qed

section \<open>Properties\<close>

text \<open>
  C1: Switching a row from the page takes effect and shows. Starting from a page with nothing in
  flight whose list endpoint is that of the list and whose address has no \<open>?page=\<close>, clicking the switch of a row whose name the list
  holds and that is not pending, with the backend's failure switches off, ends after the two round
  trips the page makes by itself (the switch sent in the query, as the route pages do, not in the body as
  the service page does) with: nothing in flight, the name no longer pending, no error and
  no loading sign, every row of the list on the page, and the first row of that name shown disabled
  or running as requested.
\<close>

theorem toggle_end_to_end:
  assumes "inflight s = []" and "queryPage s = []" and "listEndpoint s = ''/api/'' @ kind @ ''/list''"
    and "CHR ''/'' \<notin> set kind" and "CHR ''?'' \<notin> set kind"
    and "row_name r = JStr nm" and "nm \<noteq> []" and "\<not> pending_truthy s nm"
    and "\<not> mk_failToggle m" and "\<not> mk_failList m" and "map_of (mk_records m) kind = Some rows"
    and "x \<in> set rows" and "str_prop ''name'' x = Some (JString nm)"
  shows "let be = api dp fixture t0 t1;
             (s', m') = roundtrip be (roundtrip be (setDisabled r enabled (''/api/'' @ kind @ ''/set_disabled'') True s, m))
         in inflight s' = [] \<and> mutationPending s' = mutationPending s \<and> listError s' = None \<and> \<not> listLoading s' \<and>
            length (main_data s') = length rows \<and>
            (\<exists>as y bs. main_data s' = as @ y # bs \<and> list_all (\<lambda>z. row_name z \<noteq> JStr nm) as \<and>
               row_name y = JStr nm \<and> row_disabled y = JBool (\<not> enabled) \<and> (isRunning y \<longleftrightarrow> enabled))"
proof -
  obtain s2 m2 as z bs y where r1: "roundtrip (api dp fixture t0 t1) (setDisabled r enabled (''/api/'' @ kind @ ''/set_disabled'') True s, m) = (s2, m2)"
    and rows: "rows = as @ z # bs" "list_all (\<lambda>z. str_prop ''name'' z \<noteq> Some (JString nm)) as"
    and y: "str_prop ''disabled'' y = Some (JBoolean (\<not> enabled))" "str_prop ''status'' y = Some (JString (if enabled then ''running'' else ''disabled''))"
      "str_prop ''name'' y = Some (JString nm)"
    and m2: "\<not> mk_failList m2" "map_of (mk_records m2) kind = Some (as @ y # bs)"
    and s2: "inflight s2 = [Load (listRequestId s2) (KToggle nm)]" "last (posts s2) = (''/api/'' @ kind @ ''/list'', InfoBody)"
      "listError s2 = None" "mutationPending s2 = mutationPending s @ [nm]"
    by (rule toggle_roundtrip [OF assms])
  note r2 = reload_roundtrip [OF s2(1,2) assms(4,5) m2, of dp fixture t0 t1]
  have np: "filter (\<lambda>n. n \<noteq> nm) (mutationPending s2) = mutationPending s"
    using assms(8) s2(4) by (auto simp: pending_truthy_def filter_id_conv)
  have "\<exists>as' y' bs'. map (\<lambda>ob. normalize_row (rowKind s2) (row_of_object ob)) (as @ y # bs) = as' @ y' # bs' \<and> list_all (\<lambda>z. row_name z \<noteq> JStr nm) as' \<and>
      row_name y' = JStr nm \<and> row_disabled y' = JBool (\<not> enabled) \<and> (isRunning y' \<longleftrightarrow> enabled)"
    by (rule toggled_row_shown [OF rows(2) y refl])
  then show ?thesis unfolding Let_def r1 r2 split_conv using rows(1) s2(3) np by simp
qed

definition failed_row :: row where
  "failed_row = row_of_object (tunnels ! 2)"

theorem toggle_end_to_end_witness:
  "inflight (fst (roundtrip (api (\<lambda>_. None) [] [] []) (roundtrip (api (\<lambda>_. None) [] [] [])
     (setDisabled failed_row False ''/api/tunnel/set_disabled'' True (init_page TunnelRow ''/api/tunnel/list''), initial_mock)))) = []"
proof -
  let ?s = "init_page TunnelRow ''/api/tunnel/list''"
  have h: "inflight ?s = []" "queryPage ?s = []" "listEndpoint ?s = ''/api/'' @ ''tunnel'' @ ''/list''"
    "CHR ''/'' \<notin> set ''tunnel''" "CHR ''?'' \<notin> set ''tunnel''" "row_name failed_row = JStr ''failed_tunnel''"
    "''failed_tunnel'' \<noteq> []" "\<not> pending_truthy ?s ''failed_tunnel''"
    "\<not> mk_failToggle initial_mock" "\<not> mk_failList initial_mock"
    "map_of (mk_records initial_mock) ''tunnel'' = Some tunnels" "tunnels ! 2 \<in> set tunnels"
    "str_prop ''name'' (tunnels ! 2) = Some (JString ''failed_tunnel'')"
    by (simp_all add: init_page_def failed_row_def row_of_object_def tunnels_def str_prop_def Let_def pending_truthy_def
        object_prototype_keys_def initial_mock_def initial_records_def)
  show ?thesis using toggle_end_to_end [OF h, of "\<lambda>_. None" "[]" "[]" "[]" False]
    by (simp add: Let_def split_def del: init_page_def)
qed

end
