(* ===== verification/Dates.thy ===== *)
theory Dates
  imports MockApi "HOL-Library.Monad_Syntax"
begin

text \<open>
  The dates of the JavaScript standard library, as far as the history panel of
  \<open>src/admin/view/tunnel/list.html\<close> and \<open>src/scripts/test-admin-ui.cjs\<close> use them: the civil calendar
  of a time value in milliseconds, \<open>toISOString\<close>, and \<open>Date.parse\<close> on the ISO format with an offset
  or \<open>Z\<close>. Years 0 to 9999 have four digits, others a sign and six. A text outside the format is \<open>NaN\<close>
  (\<open>None\<close>), as is a time beyond 100 million days from the epoch.
\<close>

section \<open>Civil calendar\<close>

definition day_from_year :: "int \<Rightarrow> int" where
  "day_from_year y = 365 * (y - 1970) + (y - 1969) div 4 - (y - 1901) div 100 + (y - 1601) div 400"

definition leap_year :: "int \<Rightarrow> bool" where
  "leap_year y \<longleftrightarrow> y mod 4 = 0 \<and> (y mod 100 \<noteq> 0 \<or> y mod 400 = 0)"

definition month_lengths :: "int \<Rightarrow> int list" where
  "month_lengths y = [31, if leap_year y then 29 else 28, 31, 30, 31, 30, 31, 31, 30, 31, 30, 31]"

text \<open>The year of a day number: the estimate from the mean year is off by at most one.\<close>

definition year_from_day :: "int \<Rightarrow> int" where
  "year_from_day n =
     (let e = 1970 + (n * 400) div 146097 in
      if day_from_year (e + 1) \<le> n then e + 1 else if day_from_year e \<le> n then e else e - 1)"

fun locate :: "int list \<Rightarrow> int \<Rightarrow> int \<times> int" where
  "locate [] d = (0, d)"
| "locate (l # ls) d = (if d < l then (0, d) else (case locate ls (d - l) of (i, r) \<Rightarrow> (i + 1, r)))"

text \<open>Year, month from 1 and day from 1 of a day number, and back.\<close>

definition civil_of_day :: "int \<Rightarrow> int \<times> int \<times> int" where
  "civil_of_day n =
     (let y = year_from_day n in
      case locate (month_lengths y) (n - day_from_year y) of (i, r) \<Rightarrow> (y, i + 1, r + 1))"

definition day_of_civil :: "int \<Rightarrow> int \<Rightarrow> int \<Rightarrow> int" where
  "day_of_civil y mo d = day_from_year y + sum_list (take (nat (mo - 1)) (month_lengths y)) + d - 1"

definition valid_civil :: "int \<Rightarrow> int \<Rightarrow> int \<Rightarrow> bool" where
  "valid_civil y mo d \<longleftrightarrow> 1 \<le> mo \<and> mo \<le> 12 \<and> 1 \<le> d \<and> d \<le> month_lengths y ! nat (mo - 1)"

section \<open>Text of a date\<close>

fun pad :: "nat \<Rightarrow> nat \<Rightarrow> string" where
  "pad 0 n = []"
| "pad (Suc w) n = pad w (n div 10) @ [char_of (48 + n mod 10)]"

definition year_text :: "int \<Rightarrow> string" where
  "year_text y =
     (if 0 \<le> y \<and> y \<le> 9999 then pad 4 (nat y) else (if y < 0 then CHR ''-'' else CHR ''+'') # pad 6 (nat \<bar>y\<bar>))"

definition toISOString :: "int \<Rightarrow> string" where
  "toISOString t =
     (let n = t div 86400000; ms = t mod 86400000 in
      case civil_of_day n of (y, mo, d) \<Rightarrow>
        year_text y @ ''-'' @ pad 2 (nat mo) @ ''-'' @ pad 2 (nat d) @ ''T'' @
        pad 2 (nat (ms div 3600000)) @ '':'' @ pad 2 (nat (ms div 60000 mod 60)) @ '':'' @
        pad 2 (nat (ms div 1000 mod 60)) @ ''.'' @ pad 3 (nat (ms mod 1000)) @ ''Z'')"

section \<open>Reading a date\<close>

definition lit :: "char \<Rightarrow> string \<Rightarrow> string option" where
  "lit c s = (case s of x # xs \<Rightarrow> if x = c then Some xs else None | [] \<Rightarrow> None)"

definition number :: "nat \<Rightarrow> string \<Rightarrow> (int \<times> string) option" where
  "number w s = (if length s < w then None else map_option (\<lambda>v. (v, drop w s)) (digits_value (take w s) 0))"

definition parse_year :: "string \<Rightarrow> (int \<times> string) option" where
  "parse_year s =
     (case s of
        [] \<Rightarrow> None
      | c # cs \<Rightarrow>
          if c = CHR ''+'' then number 6 cs
          else if c = CHR ''-'' then
            (case number 6 cs of Some (v, r) \<Rightarrow> if v = 0 then None else Some (- v, r) | None \<Rightarrow> None)
          else number 4 s)"

definition parse_seconds :: "string \<Rightarrow> (int \<times> string) option" where
  "parse_seconds s =
     (case lit CHR '':'' s of
        None \<Rightarrow> Some (0, s)
      | Some r \<Rightarrow>
          do {
            (sec, r1) \<leftarrow> number 2 r;
            (case lit CHR ''.'' r1 of
               None \<Rightarrow> Some (sec * 1000, r1)
             | Some r2 \<Rightarrow> do { (f, r3) \<leftarrow> number 3 r2; Some (sec * 1000 + f, r3) })
          })"

definition parse_offset :: "string \<Rightarrow> int option" where
  "parse_offset s =
     (if s = ''Z'' then Some 0
      else (case s of
              [] \<Rightarrow> None
            | c # cs \<Rightarrow>
                if c \<noteq> CHR ''+'' \<and> c \<noteq> CHR ''-'' then None
                else do {
                  (h, r1) \<leftarrow> number 2 cs;
                  r2 \<leftarrow> lit CHR '':'' r1;
                  (mi, r3) \<leftarrow> number 2 r2;
                  (if r3 = [] \<and> h < 24 \<and> mi < 60
                   then Some ((if c = CHR ''+'' then 1 else - 1) * (h * 3600000 + mi * 60000)) else None)
                }))"

definition date_parse :: "string \<Rightarrow> int option" where
  "date_parse s =
     do {
       (y, r1) \<leftarrow> parse_year s;
       r2 \<leftarrow> lit CHR ''-'' r1;
       (mo, r3) \<leftarrow> number 2 r2;
       r4 \<leftarrow> lit CHR ''-'' r3;
       (d, r5) \<leftarrow> number 2 r4;
       r6 \<leftarrow> lit CHR ''T'' r5;
       (h, r7) \<leftarrow> number 2 r6;
       r8 \<leftarrow> lit CHR '':'' r7;
       (mi, r9) \<leftarrow> number 2 r8;
       (sec, r10) \<leftarrow> parse_seconds r9;
       off \<leftarrow> parse_offset r10;
       (let t = day_of_civil y mo d * 86400000 + h * 3600000 + mi * 60000 + sec - off in
        if valid_civil y mo d \<and> mi < 60 \<and> sec < 60000 \<and> (h < 24 \<or> h = 24 \<and> mi = 0 \<and> sec = 0) \<and> \<bar>t\<bar> \<le> 8640000000000000
        then Some t else None)
     }"

section \<open>Library: the calendar\<close>

lemma div_step: "0 < k \<Longrightarrow> (y :: int) div k = (y - 1) div k + (if y mod k = 0 then 1 else 0)"
proof -
  assume k: "0 < k"
  define q r where "q = y div k" and "r = y mod k"
  have y: "y = k * q + r" "0 \<le> r" "r < k" using k by (simp_all add: q_def r_def)
  have "(y - 1) div k = (if r = 0 then q - 1 else q)"
  proof (cases "r = 0")
    case True
    have "y - 1 = k * (q - 1) + (k - 1)" using y True by (simp add: algebra_simps)
    then show ?thesis using k True by (simp add: int_div_pos_eq [of _ k "q - 1" "k - 1"])
  next
    case False
    have "y - 1 = k * q + (r - 1)" using y by simp
    then show ?thesis using k y False by (simp add: int_div_pos_eq [of _ k q "r - 1"])
  qed
  then show ?thesis by (simp add: q_def r_def)
qed

lemma div_shift: "0 < k \<Longrightarrow> (y - k * c) div k = (y :: int) div k - c"
  using div_mult_self2 [of k y "- c"] by (simp add: algebra_simps)

lemma leap_mods: "(y :: int) mod 400 = 0 \<Longrightarrow> y mod 100 = 0" "y mod 100 = 0 \<Longrightarrow> y mod 4 = 0"
  by presburger+

lemma day_from_year_step: "day_from_year (y + 1) = day_from_year y + sum_list (month_lengths y)"
proof -
  have a: "(y + 1 - 1969) div 4 = y div 4 - 492" "(y - 1969) div 4 = (y - 1) div 4 - 492"
    using div_shift [of 4 y 492] div_shift [of 4 "y - 1" 492] by simp_all
  have b: "(y + 1 - 1901) div 100 = y div 100 - 19" "(y - 1901) div 100 = (y - 1) div 100 - 19"
    using div_shift [of 100 y 19] div_shift [of 100 "y - 1" 19] by simp_all
  have c: "(y + 1 - 1601) div 400 = y div 400 - 4" "(y - 1601) div 400 = (y - 1) div 400 - 4"
    using div_shift [of 400 y 4] div_shift [of 400 "y - 1" 4] by simp_all
  have s: "sum_list (month_lengths y) = 365 + (if leap_year y then 1 else 0)" by (simp add: month_lengths_def)
  have l: "(if leap_year y then 1 else 0 :: int) =
      (if y mod 4 = 0 then 1 else 0) - (if y mod 100 = 0 then 1 else 0) + (if y mod 400 = 0 then 1 else 0)"
    using leap_mods [of y] unfolding leap_year_def by (cases "y mod 4 = 0"; cases "y mod 100 = 0"; cases "y mod 400 = 0") simp_all
  have alg: "365 * (y + 1 - 1970) + (p - 492) - (q - 19) + (r - 4) =
      365 * (y - 1970) + (p' - 492) - (q' - 19) + (r' - 4) + (365 + (u - v + w))"
    if "p = p' + u" "q = q' + v" "r = r' + w" for p p' q q' r r' u v w :: int
    using that by simp
  show ?thesis unfolding day_from_year_def a b c s l by (rule alg) (rule div_step, simp)+
qed

lemma month_lengths_pos: "\<forall>l\<in>set (month_lengths y). 0 < l" and length_month_lengths: "length (month_lengths y) = 12"
  by (simp_all add: month_lengths_def)

lemma day_from_year_mono: "y \<le> z \<Longrightarrow> day_from_year y \<le> day_from_year z"
proof (induction z rule: int_ge_induct)
  case base
  show ?case by simp
next
  case (step i)
  have "0 \<le> sum_list (month_lengths i)" using month_lengths_pos by (intro sum_list_nonneg) (auto simp: less_le)
  then show ?case using step day_from_year_step [of i] by linarith
qed

lemma day_from_year_mean:
  "146097 * k - 506 \<le> 400 * day_from_year (1970 + k)" "400 * day_from_year (1970 + k) \<le> 146097 * k + 589"
proof -
  have d: "4 * (x div 4) \<le> x" "x \<le> 4 * (x div 4) + 3" "100 * (x div 100) \<le> x" "x \<le> 100 * (x div 100) + 99"
    "400 * (x div 400) \<le> x" "x \<le> 400 * (x div 400) + 399" for x :: int by linarith+
  show "146097 * k - 506 \<le> 400 * day_from_year (1970 + k)"
    using d(2) [of "k + 1"] d(3) [of "k + 69"] d(6) [of "k + 369"] by (simp add: day_from_year_def)
  show "400 * day_from_year (1970 + k) \<le> 146097 * k + 589"
    using d(1) [of "k + 1"] d(4) [of "k + 69"] d(5) [of "k + 369"] by (simp add: day_from_year_def)
qed

lemma year_from_day_bounds:
  "day_from_year (year_from_day n) \<le> n" "n < day_from_year (year_from_day n + 1)"
proof -
  define q where "q = (n * 400) div 146097"
  define r where "r = (n * 400) mod 146097"
  have "146097 * q + r = n * 400" "0 \<le> r" "r < 146097" by (simp_all add: q_def r_def mult_div_mod_eq)
  then have q: "146097 * q \<le> 400 * n \<and> 400 * n < 146097 * (q + 1)" by (simp add: algebra_simps)
  have lo: "day_from_year (1970 + q - 1) \<le> n" using day_from_year_mean(2) [of "q - 1"] q by simp
  have hi: "n < day_from_year (1970 + q + 2)" using day_from_year_mean(1) [of "q + 2"] q by (simp add: algebra_simps)
  show "day_from_year (year_from_day n) \<le> n" "n < day_from_year (year_from_day n + 1)"
    using lo hi by (auto simp: year_from_day_def Let_def q_def [symmetric] add.assoc split: if_splits)
qed

lemma locate_spec:
  assumes "\<forall>l\<in>set ls. 0 < l" and "0 \<le> d" and "d < sum_list ls" and "locate ls d = (i, r)"
  shows "0 \<le> i \<and> i < int (length ls) \<and> 0 \<le> r \<and> r < ls ! nat i \<and> d = sum_list (take (nat i) ls) + r"
  using assms
proof (induction ls arbitrary: d i r)
  case Nil
  then show ?case by simp
next
  case (Cons l ls)
  show ?case
  proof (cases "d < l")
    case True
    then show ?thesis using Cons.prems by simp
  next
    case False
    obtain j q where j: "locate ls (d - l) = (j, q)" by force
    have "0 \<le> j \<and> j < int (length ls) \<and> 0 \<le> q \<and> q < ls ! nat j \<and> d - l = sum_list (take (nat j) ls) + q"
      using Cons.prems False j by (intro Cons.IH) auto
    moreover have "i = j + 1" "r = q" using Cons.prems(4) False j by simp_all
    moreover have "0 \<le> j \<Longrightarrow> nat (j + 1) = Suc (nat j)" by simp
    ultimately show ?thesis by auto
  qed
qed

lemma civil_of_day_spec:
  assumes "civil_of_day n = (y, mo, d)"
  shows "valid_civil y mo d" "day_of_civil y mo d = n" "y = year_from_day n"
proof -
  obtain i r where l: "locate (month_lengths (year_from_day n)) (n - day_from_year (year_from_day n)) = (i, r)" by force
  have e: "y = year_from_day n" "mo = i + 1" "d = r + 1" using assms l by (auto simp: civil_of_day_def Let_def)
  have "0 \<le> n - day_from_year y" "n - day_from_year y < sum_list (month_lengths y)"
    using year_from_day_bounds [of n] day_from_year_step [of y] e by simp_all
  from locate_spec [OF month_lengths_pos this, of i r] l e
  show "valid_civil y mo d" "day_of_civil y mo d = n" "y = year_from_day n"
    by (auto simp: valid_civil_def day_of_civil_def length_month_lengths)
qed

section \<open>Library: fields of a date\<close>

lemma length_pad [simp]: "length (pad w n) = w"
  by (induction w arbitrary: n) simp_all

lemma digits_value_pad: "digits_value (pad w n) 0 = Some (int (n mod 10 ^ w))"
proof (induction w arbitrary: n)
  case 0
  show ?case by simp
next
  case (Suc w)
  have "digits_value (pad (Suc w) n) 0 = Some (int (n div 10 mod 10 ^ w) * 10 + int (n mod 10))"
    using digits_value_snoc [OF Suc.IH, of "n mod 10" "n div 10"] by simp
  also have "int (n div 10 mod 10 ^ w) * 10 + int (n mod 10) = int (n mod 10 ^ Suc w)"
    using mod_mult2_eq [of n 10 "10 ^ w"] by simp
  finally show ?case .
qed

lemma number_pad: "0 \<le> v \<Longrightarrow> v < 10 ^ w \<Longrightarrow> number w (pad w (nat v) @ r) = Some (v, r)"
proof -
  assume v: "0 \<le> v" "v < 10 ^ w"
  have "nat v < 10 ^ w" using v by (simp add: nat_less_iff)
  then show ?thesis using v by (simp add: number_def digits_value_pad)
qed

lemma lit_Cons [simp]: "lit c (x # xs) = (if x = c then Some xs else None)"
  by (simp add: lit_def)

lemma pad_head: "w \<noteq> 0 \<Longrightarrow> \<exists>c cs. pad w n = c # cs \<and> c \<noteq> CHR ''+'' \<and> c \<noteq> CHR ''-''"
proof (induction w arbitrary: n)
  case 0
  then show ?case by simp
next
  case (Suc w)
  have "n mod 10 < 10" by simp
  then have "take_bit 8 (48 + n mod 10) = 48 + n mod 10" by (simp add: take_bit_nat_eq_self)
  then have "char_of (48 + n mod 10) \<noteq> CHR ''+''" "char_of (48 + n mod 10) \<noteq> CHR ''-''"
    by (auto simp: char_of_eq_iff)
  then show ?case
  proof (cases "w = 0")
    case False
    then obtain c cs where "pad w (n div 10) = c # cs" "c \<noteq> CHR ''+''" "c \<noteq> CHR ''-''" using Suc.IH by blast
    then show ?thesis by simp
  qed simp
qed

lemma parse_year_text: "0 \<le> y \<Longrightarrow> y \<le> 9999 \<Longrightarrow> parse_year (year_text y @ r) = Some (y, r)"
proof -
  assume y: "0 \<le> y" "y \<le> 9999"
  obtain c cs where c: "pad 4 (nat y) = c # cs" "c \<noteq> CHR ''+''" "c \<noteq> CHR ''-''" using pad_head [of 4 "nat y"] by auto
  have "number 4 ((c # cs) @ r) = Some (y, r)" using number_pad [of y 4 r] y c by simp
  then show ?thesis using y c by (simp add: year_text_def parse_year_def)
qed

lemma parse_offset_beijing: "parse_offset ''+08:00'' = Some 28800000"
  by (simp add: parse_offset_def number_def)

text \<open>The seconds with a fraction, and without one before an offset.\<close>

lemma parse_seconds_text:
  assumes "0 \<le> sec" and "sec < 60"
  shows "parse_seconds ('':'' @ pad 2 (nat sec) @ ''+08:00'') = Some (sec * 1000, ''+08:00'')"
    and "0 \<le> f \<Longrightarrow> f < 1000 \<Longrightarrow>
      parse_seconds ('':'' @ pad 2 (nat sec) @ ''.'' @ pad 3 (nat f) @ z) = Some (sec * 1000 + f, z)"
  using assms number_pad [of sec 2] number_pad [of f 3 z] by (simp_all add: parse_seconds_def)

definition datetime_text :: "int \<Rightarrow> string" where
  "datetime_text t = take 19 (toISOString t)"

text \<open>Reading back the first 19 characters of \<open>toISOString\<close>, followed by seconds' fraction and offset.\<close>

lemma year_range:
  assumes "-62167219200000 \<le> t" and "t < 253402300800000"
  shows "0 \<le> year_from_day (t div 86400000)" "year_from_day (t div 86400000) \<le> 9999"
proof -
  let ?n = "t div 86400000"
  have n: "-719528 \<le> ?n" "?n < 2932897" using assms by simp_all
  have d: "day_from_year 0 = -719528" "day_from_year 10000 = 2932897" by (simp_all add: day_from_year_def)
  show "0 \<le> year_from_day ?n"
  proof (rule ccontr)
    assume "\<not> 0 \<le> year_from_day ?n"
    then have "day_from_year (year_from_day ?n + 1) \<le> day_from_year 0" by (intro day_from_year_mono) simp
    then show False using year_from_day_bounds(2) [of ?n] n d by linarith
  qed
  show "year_from_day ?n \<le> 9999"
  proof (rule ccontr)
    assume "\<not> year_from_day ?n \<le> 9999"
    then have "day_from_year 10000 \<le> day_from_year (year_from_day ?n)" by (intro day_from_year_mono) simp
    then show False using year_from_day_bounds(1) [of ?n] n d by linarith
  qed
qed

lemma datetime_text_eq:
  assumes "-62167219200000 \<le> t" and "t < 253402300800000" and "civil_of_day (t div 86400000) = (y, mo, d)"
  defines "ms \<equiv> t mod 86400000"
  shows "datetime_text t = year_text y @ ''-'' @ pad 2 (nat mo) @ ''-'' @ pad 2 (nat d) @ ''T'' @
    pad 2 (nat (ms div 3600000)) @ '':'' @ pad 2 (nat (ms div 60000 mod 60)) @ '':'' @ pad 2 (nat (ms div 1000 mod 60))"
proof -
  have "length (year_text y) = 4"
    using year_range [OF assms(1,2)] civil_of_day_spec(3) [OF assms(3)] by (simp add: year_text_def)
  then show ?thesis using assms(3) by (simp add: datetime_text_def toISOString_def Let_def ms_def)
qed

lemma hms_parts:
  "(ms :: int) div 3600000 * 3600000 + ms div 60000 mod 60 * 60000 + ms div 1000 mod 60 * 1000 = ms - ms mod 1000"
proof -
  have e: "ms div 60000 = ms div 1000 div 60" "ms div 3600000 = ms div 1000 div 60 div 60"
    by (simp_all add: zdiv_zmult2_eq [symmetric])
  have alg: "h * 3600000 + b' * 60000 + a' * 1000 = ms - r" if "ms = a * 1000 + r" "a = b * 60 + a'" "b = h * 60 + b'" for a b h a' b' r
    using that by simp
  show ?thesis unfolding e by (rule alg [OF div_mult_mod_eq [symmetric] div_mult_mod_eq [symmetric] div_mult_mod_eq [symmetric]])
qed

lemma date_parse_datetime:
  assumes "-62167219200000 \<le> t" and "t < 253402300800000"
  shows "date_parse (datetime_text t @ ''+08:00'') = Some (t - t mod 1000 - 28800000)"
    and "0 \<le> f \<Longrightarrow> f < 1000 \<Longrightarrow>
      date_parse (datetime_text t @ ''.'' @ pad 3 (nat f) @ ''+08:00'') = Some (t - t mod 1000 + f - 28800000)"
proof -
  obtain y mo d where c: "civil_of_day (t div 86400000) = (y, mo, d)" by (metis prod_cases3)
  define ms where "ms = t mod 86400000"
  define h mi sec where "h = ms div 3600000" and "mi = ms div 60000 mod 60" and "sec = ms div 1000 mod 60"
  have ms: "0 \<le> ms" "ms < 86400000" by (simp_all add: ms_def)
  have r: "0 \<le> h" "h < 24" "0 \<le> mi" "mi < 60" "0 \<le> sec" "sec < 60" using ms by (simp_all add: h_def mi_def sec_def)
  have parts: "h * 3600000 + mi * 60000 + sec * 1000 = ms - ms mod 1000"
    unfolding h_def mi_def sec_def by (rule hms_parts)
  have tt: "t div 86400000 * 86400000 + ms = t" "ms mod 1000 = t mod 1000" by (simp_all add: ms_def mod_mod_cancel)
  note cv = civil_of_day_spec [OF c]
  have y: "0 \<le> y" "y \<le> 9999" using year_range [OF assms] cv(3) by simp_all
  have vd: "1 \<le> mo" "mo \<le> 12" "1 \<le> d" "d \<le> month_lengths y ! nat (mo - 1)" using cv(1) by (simp_all add: valid_civil_def)
  have "nat (mo - 1) < length (month_lengths y)" using vd by (simp add: length_month_lengths)
  then have "month_lengths y ! nat (mo - 1) \<in> set (month_lengths y)" by (rule nth_mem)
  then have d: "d \<le> 31" using vd by (auto simp: month_lengths_def split: if_splits)
  have sp: "date_parse (datetime_text t @ z) =
      (do { (s, z') \<leftarrow> parse_seconds ('':'' @ pad 2 (nat sec) @ z); off \<leftarrow> parse_offset z';
         (let u = t div 86400000 * 86400000 + h * 3600000 + mi * 60000 + s - off in
          if s < 60000 \<and> \<bar>u\<bar> \<le> 8640000000000000 then Some u else None) })" for z
    using y vd d r cv(1,2) unfolding datetime_text_eq [OF assms c] ms_def [symmetric] h_def [symmetric] mi_def [symmetric] sec_def [symmetric]
    by (simp add: date_parse_def parse_year_text number_pad)
  have b: "\<bar>t - t mod 1000 + f - 28800000\<bar> \<le> 8640000000000000" if "0 \<le> f" "f < 1000" for f using assms that by simp
  have u: "t div 86400000 * 86400000 + h * 3600000 + mi * 60000 + (sec * 1000 + f) - 28800000 = t - t mod 1000 + f - 28800000" for f
  proof -
    have alg: "D + hh + mm + (ss + f) - 28800000 = t - m + f - 28800000" if "hh + mm + ss = ms - m" "D + ms = t" for D hh mm ss m
      using that by simp
    show ?thesis using parts tt by (intro alg) simp_all
  qed
  have fin: "date_parse (datetime_text t @ z) = Some (t - t mod 1000 + f - 28800000)"
    if "parse_seconds ('':'' @ pad 2 (nat sec) @ z) = Some (sec * 1000 + f, ''+08:00'')" "0 \<le> f" "f < 1000" for z f
    unfolding sp that(1) bind.bind_lunit prod.case parse_offset_beijing Let_def u using b [OF that(2,3)] r that by simp
  show "date_parse (datetime_text t @ ''+08:00'') = Some (t - t mod 1000 - 28800000)"
    using fin [of "''+08:00''" 0] parse_seconds_text(1) [OF r(5,6)] by simp
  show "date_parse (datetime_text t @ ''.'' @ pad 3 (nat f) @ ''+08:00'') = Some (t - t mod 1000 + f - 28800000)" if "0 \<le> f" "f < 1000"
    by (rule fin [OF parse_seconds_text(2) [OF r(5,6) that, of "''+08:00''"] that])
qed

end
