(* ===== verification/HistoryPanel.thy ===== *)
theory HistoryPanel
  imports UiSession Dates
begin

text \<open>
  The probe history panel of the tunnel page, the script and the modal of
  \<open>src/admin/view/tunnel/list.html\<close>: the filters, the custom interval in Beijing time, paging with
  a stack of cursors and the replies of queries that may arrive in any order; and the panel against
  the in-memory API of \<open>src/scripts/test-admin-ui.cjs\<close>.

  The panel's error is \<open>None\<close> where the code holds the empty string. Numbers are integers or \<open>NaN\<close>
  (\<open>None\<close>). The clock reading \<open>Date.now()\<close> is an argument of the events that read it. A control of
  the modal acts only while the component exists and the modal is shown, a button only while it is
  enabled.
\<close>

section \<open>Query strings\<close>

text \<open>\<open>URLSearchParams.toString\<close>.\<close>

definition form_unreserved :: "char \<Rightarrow> bool" where
  "form_unreserved c \<longleftrightarrow> (let n = (of_char c :: nat) in
     (48 \<le> n \<and> n \<le> 57) \<or> (65 \<le> n \<and> n \<le> 90) \<or> (97 \<le> n \<and> n \<le> 122) \<or> c \<in> set ''*-._'')"

definition form_encode :: "string \<Rightarrow> string" where
  "form_encode s = concat (map (\<lambda>c.
     if form_unreserved c then [c] else if c = CHR '' '' then ''+''
     else [CHR ''%'', hex_digit (of_char c div 16), hex_digit (of_char c mod 16)]) s)"

definition params_text :: "params \<Rightarrow> string" where
  "params_text ps = join ''&'' (map (\<lambda>(k, v). form_encode k @ ''='' @ form_encode v) ps)"

section \<open>State\<close>

datatype panel_text = PText ui_text | QueryFailed | HistoryFailed | IncompleteInterval | StartAfterEnd

record panel =
  hp_alive :: bool
  hp_modal :: bool
  hp_name :: jsval
  hp_uuid :: jsval
  hp_range :: string
  hp_start :: string
  hp_end :: string
  hp_kind :: string
  hp_status :: string
  hp_records :: json
  hp_previous :: "jsval list"
  hp_before :: jsval
  hp_next :: jsval
  hp_since :: "int option"
  hp_until :: "int option"
  hp_loading :: bool
  hp_error :: "panel_text option"
  hp_requestId :: nat
  hp_inflight :: "(nat \<times> string) list"

definition init_panel :: panel where
  "init_panel =
     \<lparr>hp_alive = True, hp_modal = False, hp_name = JStr [], hp_uuid = JStr [], hp_range = ''24'', hp_start = [],
      hp_end = [], hp_kind = [], hp_status = [], hp_records = JArray [], hp_previous = [], hp_before = JNum 0,
      hp_next = JNum 0, hp_since = Some 0, hp_until = Some 0, hp_loading = False, hp_error = None,
      hp_requestId = 0, hp_inflight = []\<rparr>"

section \<open>Methods\<close>

definition num_text :: "int option \<Rightarrow> string" where
  "num_text n = (case n of None \<Rightarrow> ''NaN'' | Some i \<Rightarrow> show_int i)"

definition history_params :: "panel \<Rightarrow> params" where
  "history_params p =
     [(''uuid'', js_string (hp_uuid p)), (''since'', num_text (hp_since p)), (''until'', num_text (hp_until p)),
      (''kind'', hp_kind p), (''status'', hp_status p)] @
     (if js_truthy (hp_before p) then [(''before'', js_string (hp_before p))] else [])"

definition history_url :: "panel \<Rightarrow> string" where
  "history_url p = ''/api/tunnel/probe_history?'' @ params_text (history_params p)"

text \<open>The check of a custom interval at the start of \<open>loadProbeHistory\<close>.\<close>

definition custom_interval :: "panel \<Rightarrow> panel_text + (int \<times> int)" where
  "custom_interval p =
     (case (date_parse (hp_start p @ ''+08:00''), date_parse (hp_end p @ ''+08:00'')) of
        (Some since, Some til) \<Rightarrow> if til < since then Inl StartAfterEnd else Inr (since, til)
      | _ \<Rightarrow> Inl IncompleteInterval)"

definition send_query :: "panel \<Rightarrow> panel" where
  "send_query p = p\<lparr>hp_inflight := hp_inflight p @ [(hp_requestId p, history_url p)]\<rparr>"

definition loadProbeHistory :: "panel \<Rightarrow> panel" where
  "loadProbeHistory p =
     (let p1 = p\<lparr>hp_requestId := Suc (hp_requestId p), hp_loading := True, hp_error := None, hp_records := JArray []\<rparr> in
      if hp_range p = ''custom'' then
        (case custom_interval p of
           Inl e \<Rightarrow> p1\<lparr>hp_error := Some e, hp_loading := False, hp_next := JNum 0\<rparr>
         | Inr (since, til) \<Rightarrow> send_query (p1\<lparr>hp_since := Some since, hp_until := Some (til + 999)\<rparr>))
      else send_query p1)"

definition resetProbeHistory :: "int \<Rightarrow> panel \<Rightarrow> panel" where
  "resetProbeHistory now p =
     (let p1 = p\<lparr>hp_previous := [], hp_before := JNum 0, hp_next := JNum 0\<rparr> in
      loadProbeHistory
        (if hp_range p \<noteq> ''custom''
         then p1\<lparr>hp_until := Some now, hp_since := map_option (\<lambda>h. now - h * 3600000) (js_Number (hp_range p))\<rparr>
         else p1))"

definition invokeProbeHistory :: "row \<Rightarrow> int \<Rightarrow> panel \<Rightarrow> panel" where
  "invokeProbeHistory r now p =
     resetProbeHistory now
       (p\<lparr>hp_name := row_name r, hp_uuid := row_uuid r, hp_range := ''24'', hp_start := [], hp_end := [],
          hp_kind := [], hp_status := [], hp_modal := True\<rparr>)"

definition historyVisibilityChanged :: "bool \<Rightarrow> panel \<Rightarrow> panel" where
  "historyVisibilityChanged visible p =
     (if visible then p else p\<lparr>hp_requestId := Suc (hp_requestId p), hp_loading := False\<rparr>)"

text \<open>\<open>None\<close> is the RangeError of \<open>toISOString\<close> on an invalid date.\<close>

definition probeHistoryTimeInput :: "int option \<Rightarrow> string option" where
  "probeHistoryTimeInput v =
     (case v of
        None \<Rightarrow> None
      | Some t \<Rightarrow> if \<bar>t + 28800000\<bar> \<le> 8640000000000000 then Some (datetime_text (t + 28800000)) else None)"

definition changeProbeHistoryRange :: "int \<Rightarrow> panel \<Rightarrow> panel" where
  "changeProbeHistoryRange now p =
     (if hp_range p = ''custom'' \<and> hp_start p = [] \<and> hp_end p = [] then
        (case probeHistoryTimeInput (hp_since p) of
           None \<Rightarrow> p
         | Some a \<Rightarrow>
             (case probeHistoryTimeInput (hp_until p) of
                None \<Rightarrow> p\<lparr>hp_start := a\<rparr>
              | Some b \<Rightarrow> resetProbeHistory now (p\<lparr>hp_start := a, hp_end := b\<rparr>)))
      else resetProbeHistory now p)"

definition nextProbeHistory :: "panel \<Rightarrow> panel" where
  "nextProbeHistory p = loadProbeHistory (p\<lparr>hp_previous := hp_previous p @ [hp_before p], hp_before := hp_next p\<rparr>)"

definition previousProbeHistory :: "panel \<Rightarrow> panel" where
  "previousProbeHistory p =
     loadProbeHistory
       (if hp_previous p = [] then p\<lparr>hp_before := JNum 0\<rparr>
        else p\<lparr>hp_before := (if js_truthy (last (hp_previous p)) then last (hp_previous p) else JNum 0),
               hp_previous := butlast (hp_previous p)\<rparr>)"

section \<open>Replies\<close>

definition or_else :: "json option \<Rightarrow> json \<Rightarrow> json" where
  "or_else v d = (case v of Some j \<Rightarrow> if json_truthy v then j else d | None \<Rightarrow> d)"

text \<open>Reading a property of \<open>response.data.data\<close>; \<open>None\<close> is the TypeError of a nullish value.\<close>

definition data_prop :: "string \<Rightarrow> object \<Rightarrow> json option option" where
  "data_prop k ob =
     (case str_prop ''data'' ob of
        None \<Rightarrow> None
      | Some JNull \<Rightarrow> None
      | Some (JObject d) \<Rightarrow> Some (str_prop k d)
      | Some _ \<Rightarrow> Some None)"

definition history_then :: "nat \<Rightarrow> response \<Rightarrow> panel \<Rightarrow> panel \<times> panel_text option" where
  "history_then requestId r p =
     (case r of
        ServerError \<Rightarrow> (p, Some (PText (Text ''Request failed with status code 500'')))
      | EventStream _ \<Rightarrow> (p, if requestId \<noteq> hp_requestId p then None else Some QueryFailed)
      | JsonReply ob \<Rightarrow>
          if requestId \<noteq> hp_requestId p then (p, None)
          else if str_prop ''code'' ob \<noteq> Some (JNumber 200) then
            (p, Some (if json_truthy (str_prop ''msg'' ob) then PText (Text (js_string (jsval_of_json (str_prop ''msg'' ob))))
                      else QueryFailed))
          else (case (data_prop ''records'' ob, data_prop ''next_before'' ob) of
                  (Some rs, Some nx) \<Rightarrow>
                    (p\<lparr>hp_records := or_else rs (JArray []), hp_next := jsval_of_json (Some (or_else nx (JNumber 0)))\<rparr>, None)
                | _ \<Rightarrow> (p, Some (PText Engine))))"

definition history_catch :: "nat \<Rightarrow> panel_text option \<Rightarrow> panel \<Rightarrow> panel" where
  "history_catch requestId e p =
     (case e of
        None \<Rightarrow> p
      | Some t \<Rightarrow>
          if requestId = hp_requestId p
          then p\<lparr>hp_error := Some (if t = PText (Text []) then HistoryFailed else t), hp_next := JNum 0\<rparr> else p)"

definition history_finally :: "nat \<Rightarrow> panel \<Rightarrow> panel" where
  "history_finally requestId p = (if requestId = hp_requestId p then p\<lparr>hp_loading := False\<rparr> else p)"

definition history_settle :: "nat \<Rightarrow> response \<Rightarrow> panel \<Rightarrow> panel" where
  "history_settle requestId r p =
     (case history_then requestId r p of (p1, e) \<Rightarrow> history_finally requestId (history_catch requestId e p1))"

section \<open>Events\<close>

text \<open>\<open>TypeStart\<close> and \<open>TypeEnd\<close> carry the value the time control holds after the browser has sanitised what was
  entered (empty when it is not a time); the change event follows as \<open>TimeChanged\<close>.\<close>

datatype panel_event =
    OpenHistory row int
  | CloseHistory
  | SelectRange string int
  | SelectKind string int
  | SelectStatus string int
  | TypeStart string
  | TypeEnd string
  | TimeChanged int
  | RefreshHistory int
  | RetryHistory
  | NextPage
  | PreviousPage
  | LeavePage

definition panel_live :: "panel \<Rightarrow> bool" where
  "panel_live p \<longleftrightarrow> hp_alive p \<and> hp_modal p"

fun panel_step :: "panel \<Rightarrow> panel_event \<Rightarrow> panel" where
  "panel_step p (OpenHistory r now) = (if hp_alive p then invokeProbeHistory r now p else p)"
| "panel_step p CloseHistory = (if panel_live p then historyVisibilityChanged False (p\<lparr>hp_modal := False\<rparr>) else p)"
| "panel_step p (SelectRange v now) = (if panel_live p then changeProbeHistoryRange now (p\<lparr>hp_range := v\<rparr>) else p)"
| "panel_step p (SelectKind v now) = (if panel_live p then resetProbeHistory now (p\<lparr>hp_kind := v\<rparr>) else p)"
| "panel_step p (SelectStatus v now) = (if panel_live p then resetProbeHistory now (p\<lparr>hp_status := v\<rparr>) else p)"
| "panel_step p (TypeStart v) = (if panel_live p \<and> hp_range p = ''custom'' then p\<lparr>hp_start := v\<rparr> else p)"
| "panel_step p (TypeEnd v) = (if panel_live p \<and> hp_range p = ''custom'' then p\<lparr>hp_end := v\<rparr> else p)"
| "panel_step p (TimeChanged now) = (if panel_live p \<and> hp_range p = ''custom'' then resetProbeHistory now p else p)"
| "panel_step p (RefreshHistory now) = (if panel_live p \<and> \<not> hp_loading p then resetProbeHistory now p else p)"
| "panel_step p RetryHistory = (if panel_live p \<and> hp_error p \<noteq> None then loadProbeHistory p else p)"
| "panel_step p NextPage = (if panel_live p \<and> \<not> hp_loading p \<and> js_truthy (hp_next p) then nextProbeHistory p else p)"
| "panel_step p PreviousPage =
     (if panel_live p \<and> \<not> hp_loading p \<and> hp_previous p \<noteq> [] then previousProbeHistory p else p)"
| "panel_step p LeavePage = p\<lparr>hp_alive := False, hp_requestId := Suc (hp_requestId p)\<rparr>"

section \<open>The panel and the API\<close>

text \<open>
  A query is handled by the server and its reply by the panel, for the queries in flight in any
  order; \<open>FailHistory\<close> is the script setting \<open>failHistory\<close>.
\<close>

datatype world_event = User panel_event | Deliver nat | FailHistory bool

definition deliver :: "backend \<Rightarrow> nat \<Rightarrow> panel \<times> mock \<Rightarrow> panel \<times> mock" where
  "deliver be i w = (case w of (p, m) \<Rightarrow>
     if i < length (hp_inflight p) then
       (case hp_inflight p ! i of (ident, url) \<Rightarrow>
          case be (request_of (url, EmptyBody)) m of (r, m') \<Rightarrow>
            (history_settle ident r (p\<lparr>hp_inflight := remove_nth i (hp_inflight p)\<rparr>), m'))
     else (p, m))"

fun world_step :: "backend \<Rightarrow> panel \<times> mock \<Rightarrow> world_event \<Rightarrow> panel \<times> mock" where
  "world_step be w (User e) = (case w of (p, m) \<Rightarrow> (panel_step p e, m))"
| "world_step be w (Deliver i) = deliver be i w"
| "world_step be w (FailHistory b) = (case w of (p, m) \<Rightarrow> (p, m\<lparr>mk_failHistory := b\<rparr>))"

definition run_world :: "backend \<Rightarrow> panel \<times> mock \<Rightarrow> world_event list \<Rightarrow> panel \<times> mock" where
  "run_world be w es = foldl (world_step be) w es"

section \<open>Library: query strings\<close>

lemma hex_digit_plain: "n < 16 \<Longrightarrow> hex_digit n \<notin> set ''&=?''"
proof -
  assume "n < 16"
  then have "n \<in> set [0..<16]" by simp
  moreover have "\<forall>n\<in>set [0..<16]. hex_digit n \<notin> set ''&=?''" by code_simp
  ultimately show ?thesis by blast
qed

lemma form_unreserved_plain: "form_unreserved c \<Longrightarrow> c \<notin> set ''&=?%+''"
  by (auto simp: form_unreserved_def Let_def)

lemma form_encode_Cons:
  "form_encode (c # s) =
     (if form_unreserved c then [c] else if c = CHR '' '' then ''+''
      else [CHR ''%'', hex_digit (of_char c div 16), hex_digit (of_char c mod 16)]) @ form_encode s"
  by (simp add: form_encode_def)

lemma char_hex_bounds: "of_char c div 16 < (16 :: nat)" "of_char c mod 16 < (16 :: nat)"
  using nat_of_char_less_256 [of c] by (simp_all add: less_mult_imp_div_less)

lemma form_encode_plain: "x \<in> set ''&=?'' \<Longrightarrow> x \<notin> set (form_encode s)"
proof (induction s)
  case Nil
  then show ?case by (simp add: form_encode_def)
next
  case (Cons c s)
  have "x \<noteq> hex_digit (of_char c div 16)" "x \<noteq> hex_digit (of_char c mod 16)"
    using hex_digit_plain [OF char_hex_bounds(1)] hex_digit_plain [OF char_hex_bounds(2)] Cons.prems by metis+
  moreover have "form_unreserved c \<Longrightarrow> x \<noteq> c" using form_unreserved_plain [of c] Cons.prems by auto
  ultimately show ?case using Cons by (auto simp: form_encode_Cons split: if_splits)
qed

lemma query_unescape_form: "query_unescape (form_encode s) = Some s"
proof (induction s)
  case Nil
  show ?case by (simp add: form_encode_def)
next
  case (Cons c s)
  have e: "16 * (of_char c div 16) + of_char c mod 16 = (of_char c :: nat)" by (rule mult_div_mod_eq)
  show ?case
  proof (cases "form_unreserved c")
    case True
    then show ?thesis using form_unreserved_plain [OF True] Cons.IH by (auto simp: form_encode_Cons)
  next
    case False
    then show ?thesis
      using Cons.IH unhex_hex_digit [OF char_hex_bounds(1), of c] unhex_hex_digit [OF char_hex_bounds(2), of c] e
      by (auto simp: form_encode_Cons)
  qed
qed

lemma unescape_form [simp]: "unescape (form_encode s) = s"
  by (simp add: unescape_def query_unescape_form)

lemma split_on_join:
  "xs \<noteq> [] \<Longrightarrow> list_all (\<lambda>x. c \<notin> set x) xs \<Longrightarrow> split_on c (join [c] xs) = xs"
proof (induction xs)
  case (Cons x xs)
  then show ?case
  proof (cases xs)
    case (Cons y ys)
    then show ?thesis using Cons.IH Cons.prems split_on_append [of c x "join [c] (y # ys)"] by simp
  qed (simp add: split_on_absent)
qed simp

lemma search_params_text: "search_params (params_text ps) = ps"
proof (cases "ps = []")
  case True
  then show ?thesis by (simp add: params_text_def search_params_def)
next
  case False
  let ?f = "\<lambda>(k, v). form_encode k @ ''='' @ form_encode v"
  have amp: "CHR ''&'' \<notin> set (form_encode s)" "CHR ''='' \<notin> set (form_encode s)" for s by (simp_all add: form_encode_plain)
  have "list_all (\<lambda>x. CHR ''&'' \<notin> set x) (map ?f ps)" using amp(1) by (auto simp: list_all_iff)
  then have sp: "split_on CHR ''&'' (params_text ps) = map ?f ps"
    unfolding params_text_def using False by (intro split_on_join) auto
  have ct: "cut CHR ''='' (form_encode k @ ''='' @ form_encode v) = (form_encode k, form_encode v)" for k v
    using cut_append [OF amp(2), of k "form_encode v"] by simp
  have "filter (\<lambda>p. p \<noteq> []) (map ?f ps) = map ?f ps" by (auto simp: filter_id_conv)
  then show ?thesis unfolding search_params_def sp by (simp add: ct [simplified] split_def comp_def)
qed

lemma request_history:
  "request_of (history_url p, EmptyBody) =
   \<lparr>rq_url = history_url p, rq_path = ''/api/tunnel/probe_history'', rq_params = history_params p, rq_payload = Some []\<rparr>"
proof -
  have "cut CHR ''?'' (''/api/tunnel/probe_history'' @ CHR ''?'' # params_text (history_params p)) =
      (''/api/tunnel/probe_history'', params_text (history_params p))" by (rule cut_append) simp
  then show ?thesis by (simp add: request_of_def history_url_def search_params_text)
qed

lemma api_history:
  assumes "rq_path rq = ''/api/tunnel/probe_history''" "rq_payload rq = Some payload"
  shows "api dp fixture t0 t1 rq s = history_action dp fixture (rq_params rq) s"
proof -
  have "split_on CHR ''/'' (rq_path rq) = [[], ''api'', ''tunnel'', ''probe_history'']" unfolding assms(1) by simp
  then show ?thesis using assms by (simp add: api_def nth_opt_def Let_def)
qed

section \<open>Library: what the panel shows\<close>

definition answer :: "(string \<Rightarrow> int option) \<Rightarrow> object list \<Rightarrow> panel \<Rightarrow> object list \<times> int" where
  "answer dp fixture p = history_page dp fixture (history_params p)"

definition shows_answer :: "(string \<Rightarrow> int option) \<Rightarrow> object list \<Rightarrow> panel \<Rightarrow> bool" where
  "shows_answer dp fixture p \<longleftrightarrow>
     hp_records p = JArray (map JObject (fst (answer dp fixture p))) \<and> hp_next p = JNum (snd (answer dp fixture p))"

definition ids_bounded :: "panel \<Rightarrow> bool" where
  "ids_bounded p \<longleftrightarrow> list_all (\<lambda>(i, u). i \<le> hp_requestId p) (hp_inflight p)"

definition panel_inv :: "(string \<Rightarrow> int option) \<Rightarrow> object list \<Rightarrow> panel \<Rightarrow> bool" where
  "panel_inv dp fixture p \<longleftrightarrow>
     ids_bounded p \<and>
     (panel_live p \<longrightarrow>
        list_all (\<lambda>(i, u). i = hp_requestId p \<longrightarrow> u = history_url p) (hp_inflight p) \<and>
        (hp_loading p \<longrightarrow> (hp_requestId p, history_url p) \<in> set (hp_inflight p)) \<and>
        (\<not> hp_loading p \<longrightarrow> hp_error p = None \<longrightarrow> shows_answer dp fixture p))"

lemma history_url_frame [simp]:
  "history_url (p\<lparr>hp_start := a\<rparr>) = history_url p" "history_url (p\<lparr>hp_end := a\<rparr>) = history_url p"
  "history_url (p\<lparr>hp_range := a\<rparr>) = history_url p" "history_url (p\<lparr>hp_inflight := fl\<rparr>) = history_url p"
  "history_url (p\<lparr>hp_loading := b\<rparr>) = history_url p" "history_url (p\<lparr>hp_records := rs\<rparr>) = history_url p"
  "history_url (p\<lparr>hp_next := n\<rparr>) = history_url p" "history_url (p\<lparr>hp_error := e\<rparr>) = history_url p"
  "history_url (p\<lparr>hp_requestId := i\<rparr>) = history_url p"
  by (simp_all add: history_url_def history_params_def)

lemma history_params_frame [simp]:
  "history_params (p\<lparr>hp_start := a\<rparr>) = history_params p" "history_params (p\<lparr>hp_end := a\<rparr>) = history_params p"
  "history_params (p\<lparr>hp_range := a\<rparr>) = history_params p" "history_params (p\<lparr>hp_inflight := fl\<rparr>) = history_params p"
  "history_params (p\<lparr>hp_loading := b\<rparr>) = history_params p" "history_params (p\<lparr>hp_records := rs\<rparr>) = history_params p"
  "history_params (p\<lparr>hp_next := n\<rparr>) = history_params p" "history_params (p\<lparr>hp_error := e\<rparr>) = history_params p"
  "history_params (p\<lparr>hp_requestId := i\<rparr>) = history_params p"
  by (simp_all add: history_params_def)

lemma history_settle_stale: "i \<noteq> hp_requestId p \<Longrightarrow> history_settle i r p = p"
  by (cases r) (simp_all add: history_settle_def history_then_def history_catch_def history_finally_def)

lemma history_settle_frame [simp]:
  "hp_alive (history_settle i r p) = hp_alive p" "hp_modal (history_settle i r p) = hp_modal p"
  "hp_inflight (history_settle i r p) = hp_inflight p" "hp_requestId (history_settle i r p) = hp_requestId p"
proof -
  obtain p1 e where t: "history_then i r p = (p1, e)" by force
  have "hp_alive p1 = hp_alive p" "hp_modal p1 = hp_modal p" "hp_inflight p1 = hp_inflight p" "hp_requestId p1 = hp_requestId p"
    using t by (auto simp: history_then_def split: response.splits option.splits if_splits)
  then show "hp_alive (history_settle i r p) = hp_alive p" "hp_modal (history_settle i r p) = hp_modal p"
    "hp_inflight (history_settle i r p) = hp_inflight p" "hp_requestId (history_settle i r p) = hp_requestId p"
    by (auto simp: history_settle_def t history_catch_def history_finally_def split: option.splits)
qed

lemma history_settle_ok:
  "history_settle (hp_requestId p) (ok_reply [(''data'', JObject [(''records'', JArray rs), (''next_before'', JNumber n)])]) p =
   p\<lparr>hp_records := JArray rs, hp_next := JNum n, hp_loading := False\<rparr>"
  by (simp add: history_settle_def history_then_def ok_reply_def str_prop_def data_prop_def or_else_def history_catch_def
      history_finally_def)

lemma history_settle_fail:
  "m \<noteq> [] \<Longrightarrow> history_settle (hp_requestId p) (fail_reply m) p =
   p\<lparr>hp_error := Some (PText (Text m)), hp_next := JNum 0, hp_loading := False\<rparr>"
  by (simp add: history_settle_def history_then_def fail_reply_def str_prop_def history_catch_def history_finally_def)

text \<open>The reply of the API to the panel's own query.\<close>

definition history_failure :: string where
  "history_failure = utf8 [229, 142, 134, 229, 143, 178, 230, 159, 165, 232, 175, 162, 229, 164, 177, 232, 180, 165, 230, 181, 139, 232, 175, 149]"

lemma served_query:
  "api dp fixture t0 t1 (request_of (history_url p, EmptyBody)) m =
     (if mk_failHistory m then fail_reply history_failure
      else ok_reply [(''data'', JObject [(''records'', JArray (map JObject (fst (answer dp fixture p)))),
                                         (''next_before'', JNumber (snd (answer dp fixture p)))])],
      m\<lparr>mk_historyReads := mk_historyReads m @ [history_params p]\<rparr>)"
  by (simp add: request_history api_history history_action_def Let_def answer_def history_failure_def split: prod.splits)

lemma settled_query:
  assumes "hp_requestId q = i" "history_params q = history_params p"
  shows "history_settle i (fst (api dp fixture t0 t1 (request_of (history_url p, EmptyBody)) m)) q =
    (if mk_failHistory m then q\<lparr>hp_error := Some (PText (Text history_failure)), hp_next := JNum 0, hp_loading := False\<rparr>
     else q\<lparr>hp_records := JArray (map JObject (fst (answer dp fixture q))), hp_next := JNum (snd (answer dp fixture q)), hp_loading := False\<rparr>)"
proof -
  have f: "history_failure \<noteq> []" by (simp add: history_failure_def utf8_def)
  have a: "answer dp fixture q = answer dp fixture p" using assms(2) by (simp add: answer_def)
  show ?thesis using history_settle_fail [OF f, of q] history_settle_ok [of q] by (simp add: served_query a assms(1))
qed

lemma loadProbeHistory_inv: "ids_bounded p \<Longrightarrow> panel_inv dp fixture (loadProbeHistory p)"
  by (auto simp: loadProbeHistory_def Let_def send_query_def panel_inv_def ids_bounded_def list_all_iff
      split: sum.splits)

lemma panel_inv_bounded: "panel_inv dp fixture p \<Longrightarrow> ids_bounded p"
  by (simp add: panel_inv_def)

lemma resetProbeHistory_inv: "ids_bounded p \<Longrightarrow> panel_inv dp fixture (resetProbeHistory now p)"
  unfolding resetProbeHistory_def Let_def by (rule loadProbeHistory_inv) (simp add: ids_bounded_def)

lemma ids_bounded_frame [simp]:
  "ids_bounded (p\<lparr>hp_start := a\<rparr>) = ids_bounded p" "ids_bounded (p\<lparr>hp_end := a\<rparr>) = ids_bounded p"
  "ids_bounded (p\<lparr>hp_range := a\<rparr>) = ids_bounded p" "ids_bounded (p\<lparr>hp_kind := a\<rparr>) = ids_bounded p"
  "ids_bounded (p\<lparr>hp_status := a\<rparr>) = ids_bounded p" "ids_bounded (p\<lparr>hp_previous := l, hp_before := n\<rparr>) = ids_bounded p"
  "ids_bounded (p\<lparr>hp_before := n\<rparr>) = ids_bounded p"
  by (simp_all add: ids_bounded_def)

lemma panel_inv_frame [simp]:
  "panel_inv dp fixture (p\<lparr>hp_start := a\<rparr>) = panel_inv dp fixture p"
  "panel_inv dp fixture (p\<lparr>hp_end := a\<rparr>) = panel_inv dp fixture p"
  "panel_inv dp fixture (p\<lparr>hp_range := a\<rparr>) = panel_inv dp fixture p"
  by (simp_all add: panel_inv_def panel_live_def shows_answer_def answer_def)

lemma panel_step_inv:
  assumes "panel_inv dp fixture p"
  shows "panel_inv dp fixture (panel_step p e)"
proof -
  note b = panel_inv_bounded [OF assms]
  have up: "ids_bounded p \<Longrightarrow> list_all (\<lambda>(i, u). i \<le> Suc (hp_requestId p)) (hp_inflight p)"
    by (auto simp: ids_bounded_def list_all_iff)
  show ?thesis
  proof (cases e)
    case (OpenHistory r now)
    have "ids_bounded (p\<lparr>hp_name := row_name r, hp_uuid := row_uuid r, hp_range := ''24'', hp_start := [], hp_end := [],
          hp_kind := [], hp_status := [], hp_modal := True\<rparr>)" using b by (simp add: ids_bounded_def)
    then show ?thesis using assms OpenHistory by (simp add: invokeProbeHistory_def resetProbeHistory_inv)
  next
    case CloseHistory
    then show ?thesis using assms b up by (simp add: historyVisibilityChanged_def panel_inv_def panel_live_def ids_bounded_def)
  next
    case (SelectRange v now)
    have "panel_inv dp fixture (changeProbeHistoryRange now (p\<lparr>hp_range := v\<rparr>))"
      using assms b by (auto simp: changeProbeHistoryRange_def resetProbeHistory_inv split: option.splits)
    then show ?thesis using assms SelectRange by simp
  next
    case NextPage
    have "ids_bounded (p\<lparr>hp_previous := l, hp_before := n\<rparr>)" for n l using b by (simp add: ids_bounded_def)
    then show ?thesis using assms NextPage by (simp add: nextProbeHistory_def loadProbeHistory_inv)
  next
    case PreviousPage
    have "ids_bounded (p\<lparr>hp_before := n, hp_previous := l\<rparr>)" for n l using b by (simp add: ids_bounded_def)
    then show ?thesis using assms b PreviousPage by (simp add: previousProbeHistory_def loadProbeHistory_inv)
  next
    case LeavePage
    then show ?thesis using assms b up by (simp add: panel_inv_def panel_live_def ids_bounded_def)
  qed (use assms b in \<open>simp_all add: resetProbeHistory_inv loadProbeHistory_inv\<close>)
qed

lemma in_remove_nth: "x \<in> set xs \<Longrightarrow> x \<noteq> xs ! i \<Longrightarrow> i < length xs \<Longrightarrow> x \<in> set (remove_nth i xs)"
proof -
  assume "x \<in> set xs" "x \<noteq> xs ! i" "i < length xs"
  then have "x \<in> set (take i xs @ xs ! i # drop (Suc i) xs)" using remove_nth_split [of i xs] by metis
  then show ?thesis using \<open>x \<noteq> xs ! i\<close> by (auto simp: remove_nth_def)
qed

lemma deliver_inv:
  assumes "panel_inv dp fixture p"
  shows "panel_inv dp fixture (fst (deliver (api dp fixture t0 t1) k (p, m)))"
proof (cases "k < length (hp_inflight p)")
  case False
  then show ?thesis using assms by (simp add: deliver_def)
next
  case True
  obtain i u where iu: "hp_inflight p ! k = (i, u)" by force
  define q where "q = p\<lparr>hp_inflight := remove_nth k (hp_inflight p)\<rparr>"
  have mem: "(i, u) \<in> set (hp_inflight p)" using nth_mem [OF True] iu by simp
  have sub: "set (hp_inflight q) \<subseteq> set (hp_inflight p)" by (simp add: q_def set_remove_nth_subset)
  have bq: "ids_bounded q" using panel_inv_bounded [OF assms] sub by (auto simp: ids_bounded_def list_all_iff q_def)
  have d: "fst (deliver (api dp fixture t0 t1) k (p, m)) = history_settle i (fst (api dp fixture t0 t1 (request_of (u, EmptyBody)) m)) q"
    using True iu by (simp add: deliver_def q_def split: prod.splits)
  have qf: "hp_requestId q = hp_requestId p" "panel_live q = panel_live p" "history_url q = history_url p"
    "hp_loading q = hp_loading p" "hp_error q = hp_error p" "shows_answer dp fixture q = shows_answer dp fixture p"
    "history_params q = history_params p"
    by (simp_all add: q_def panel_live_def shows_answer_def answer_def)
  show ?thesis
  proof (cases "i = hp_requestId p")
    case False
    have "(j, w) \<in> set (hp_inflight q)" if "(j, w) \<in> set (hp_inflight p)" "j \<noteq> i" for j w
      using that iu in_remove_nth [OF _ _ True] by (auto simp: q_def)
    then show ?thesis
      using assms bq sub qf False by (simp add: d history_settle_stale) (auto simp: panel_inv_def list_all_iff)
  next
    case True
    show ?thesis
    proof (cases "panel_live p")
      case live: True
      have u: "u = history_url p" using assms live mem True by (auto simp: panel_inv_def list_all_iff)
      show ?thesis using settled_query [of q i p dp fixture t0 t1 m] qf True bq assms sub live
        unfolding d u by (auto simp: panel_inv_def list_all_iff shows_answer_def answer_def ids_bounded_def panel_live_def)
    next
      case False
      have "panel_live (history_settle i r q) \<longleftrightarrow> panel_live q" "ids_bounded (history_settle i r q) \<longleftrightarrow> ids_bounded q" for r
        by (simp_all add: panel_live_def ids_bounded_def)
      then show ?thesis using bq qf False by (simp add: d panel_inv_def)
    qed
  qed
qed

lemma world_inv:
  "panel_inv dp fixture (fst w) \<Longrightarrow> panel_inv dp fixture (fst (run_world (api dp fixture t0 t1) w es))"
proof (induction es arbitrary: w)
  case (Cons e es)
  obtain p m where w: "w = (p, m)" by force
  have "panel_inv dp fixture (fst (world_step (api dp fixture t0 t1) w e))"
    using Cons.prems w panel_step_inv deliver_inv by (cases e) simp_all
  then show ?case using Cons.IH by (simp add: run_world_def)
qed (simp add: run_world_def)

lemma init_panel_inv: "panel_inv dp fixture init_panel"
  by (simp add: panel_inv_def init_panel_def ids_bounded_def panel_live_def)

section \<open>Library: a query and its reply\<close>

text \<open>The stored interval is the one the inputs of a custom range denote.\<close>

definition interval_current :: "panel \<Rightarrow> bool" where
  "interval_current p \<longleftrightarrow>
     hp_range p \<noteq> ''custom'' \<or>
     (\<exists>a b. custom_interval p = Inr (a, b) \<and> hp_since p = Some a \<and> hp_until p = Some (b + 999))"

definition answered :: "(string \<Rightarrow> int option) \<Rightarrow> object list \<Rightarrow> panel \<Rightarrow> panel" where
  "answered dp fixture p =
     p\<lparr>hp_records := JArray (map JObject (fst (answer dp fixture p))), hp_next := JNum (snd (answer dp fixture p)),
       hp_loading := False, hp_error := None, hp_requestId := Suc (hp_requestId p)\<rparr>"

definition noted :: "params \<Rightarrow> mock \<Rightarrow> mock" where
  "noted ps m = m\<lparr>mk_historyReads := mk_historyReads m @ [ps]\<rparr>"

lemma noted_simps [simp]:
  "mk_failHistory (noted ps m) = mk_failHistory m" "mk_historyReads (noted ps m) = mk_historyReads m @ [ps]"
  by (simp_all add: noted_def)

lemma loadProbeHistory_current:
  assumes "interval_current p"
  shows "loadProbeHistory p =
    p\<lparr>hp_requestId := Suc (hp_requestId p), hp_loading := True, hp_error := None, hp_records := JArray [],
      hp_inflight := hp_inflight p @ [(Suc (hp_requestId p), history_url p)]\<rparr>"
proof (cases "hp_range p = ''custom''")
  case False
  then show ?thesis by (simp add: loadProbeHistory_def Let_def send_query_def)
next
  case True
  then obtain a b where c: "custom_interval p = Inr (a, b)" "hp_since p = Some a" "hp_until p = Some (b + 999)"
    using assms by (auto simp: interval_current_def)
  have "history_url (p\<lparr>hp_requestId := i, hp_loading := l, hp_error := e, hp_records := r, hp_since := Some a, hp_until := Some (b + 999)\<rparr>) = history_url p"
    for i l e r using c(2,3) by (simp add: history_url_def history_params_def)
  then show ?thesis using True c by (intro panel.equality) (simp_all add: loadProbeHistory_def Let_def send_query_def)
qed

lemma reload:
  assumes "interval_current p" "hp_inflight p = []" "\<not> mk_failHistory m"
  shows "deliver (api dp fixture t0 t1) 0 (loadProbeHistory p, m) = (answered dp fixture p, noted (history_params p) m)"
proof -
  define q where "q = p\<lparr>hp_requestId := Suc (hp_requestId p), hp_loading := True, hp_error := None, hp_records := JArray [],
      hp_inflight := []\<rparr>"
  have q: "hp_requestId q = Suc (hp_requestId p)" "history_params q = history_params p"
    by (simp_all add: q_def history_params_def)
  then have a: "answer dp fixture q = answer dp fixture p" by (simp add: answer_def)
  have l: "hp_inflight (loadProbeHistory p) = [(Suc (hp_requestId p), history_url p)]"
    "(loadProbeHistory p)\<lparr>hp_inflight := []\<rparr> = q"
    unfolding loadProbeHistory_current [OF assms(1)] using assms(2) by (simp_all add: q_def)
  have "deliver (api dp fixture t0 t1) 0 (loadProbeHistory p, m) =
      (history_settle (Suc (hp_requestId p)) (fst (api dp fixture t0 t1 (request_of (history_url p, EmptyBody)) m)) q, noted (history_params p) m)"
    by (simp add: deliver_def l remove_nth_def served_query noted_def)
  also have "\<dots> = (answered dp fixture p, noted (history_params p) m)"
    using settled_query [OF q, of dp fixture t0 t1 m] assms(2,3) a
    by (auto simp: answered_def q_def intro: panel.equality)
  finally show ?thesis .
qed

lemma answered_simps [simp]:
  "hp_alive (answered dp fixture p) = hp_alive p" "hp_modal (answered dp fixture p) = hp_modal p"
  "panel_live (answered dp fixture p) = panel_live p" "hp_inflight (answered dp fixture p) = hp_inflight p"
  "hp_uuid (answered dp fixture p) = hp_uuid p" "hp_range (answered dp fixture p) = hp_range p"
  "hp_start (answered dp fixture p) = hp_start p" "hp_end (answered dp fixture p) = hp_end p"
  "hp_kind (answered dp fixture p) = hp_kind p" "hp_status (answered dp fixture p) = hp_status p"
  "hp_previous (answered dp fixture p) = hp_previous p" "hp_before (answered dp fixture p) = hp_before p"
  "hp_since (answered dp fixture p) = hp_since p" "hp_until (answered dp fixture p) = hp_until p"
  "\<not> hp_loading (answered dp fixture p)" "hp_error (answered dp fixture p) = None"
  "history_params (answered dp fixture p) = history_params p" "answer dp fixture (answered dp fixture p) = answer dp fixture p"
  "hp_next (answered dp fixture p) = JNum (snd (answer dp fixture p))"
  "hp_records (answered dp fixture p) = JArray (map JObject (fst (answer dp fixture p)))"
  "interval_current (answered dp fixture p) = interval_current p"
  by (simp_all add: answered_def panel_live_def history_params_def answer_def interval_current_def custom_interval_def)

section \<open>Library: what a query selects\<close>

lemma show_nat_no_space: "\<forall>c\<in>set (show_nat n). \<not> is_space c"
  using show_nat_digits [of _ n] by (fastforce simp: is_space_def)

lemma js_Number_show_int: "js_Number (show_int i) = Some i"
proof (cases "i < 0")
  case False
  then show ?thesis by (simp add: show_int_def js_Number_show_nat)
next
  case True
  have "trim (CHR ''-'' # show_nat (nat (- i))) = CHR ''-'' # show_nat (nat (- i))"
    using show_nat_no_space by (intro trim_id) (auto simp: is_space_def)
  then show ?thesis using True show_nat_nonempty [of "nat (- i)"]
    by (simp add: show_int_def js_Number_def digits_value_show_nat)
qed

definition row_time :: "(string \<Rightarrow> int option) \<Rightarrow> object \<Rightarrow> int option" where
  "row_time dp row = (case str_prop ''time'' row of Some (JString v) \<Rightarrow> dp v | _ \<Rightarrow> None)"

lemma history_page_cong: "map_of ps = map_of qs \<Longrightarrow> history_page dp fixture ps = history_page dp fixture qs"
  by (simp add: history_page_def history_match_def before_match_def)

lemma history_match_params:
  assumes "hp_since p = Some a" "hp_until p = Some b"
  shows "history_match dp (history_params p) row \<longleftrightarrow>
    str_prop ''tunnel_uuid'' row = Some (JString (js_string (hp_uuid p))) \<and>
    (\<exists>t. row_time dp row = Some t \<and> a \<le> t \<and> t \<le> b) \<and>
    (hp_kind p = [] \<or> str_prop ''kind'' row = Some (JString (hp_kind p))) \<and>
    (hp_status p = [] \<or> str_prop ''status'' row = Some (JString (hp_status p)))"
proof -
  have t: "(case str_prop ''time'' row of Some (JString v) \<Rightarrow> dp v | _ \<Rightarrow> None) = row_time dp row"
    by (simp add: row_time_def)
  have mp: "map_of (history_params p) ''uuid'' = Some (js_string (hp_uuid p))" "map_of (history_params p) ''since'' = Some (show_int a)"
    "map_of (history_params p) ''until'' = Some (show_int b)" "map_of (history_params p) ''kind'' = Some (hp_kind p)"
    "map_of (history_params p) ''status'' = Some (hp_status p)"
    using assms by (simp_all add: history_params_def num_text_def)
  show ?thesis unfolding history_match_def Let_def t mp option.case js_Number_show_int
    by (cases "row_time dp row") auto
qed

text \<open>The query without its cursor, and the cursor.\<close>

definition base_params :: "panel \<Rightarrow> params" where
  "base_params p = history_params (p\<lparr>hp_before := JNum 0\<rparr>)"

definition cursor :: "panel \<Rightarrow> params" where
  "cursor p = (if js_truthy (hp_before p) then [(''before'', js_string (hp_before p))] else [])"

lemma params_cursor: "history_params p = base_params p @ cursor p"
  by (simp add: history_params_def base_params_def cursor_def)

lemma base_params_no_before: "map_of (base_params p) ''before'' = None"
  by (simp add: base_params_def history_params_def)

lemma answer_remaining:
  "answer dp fixture p =
     (let m = remaining dp fixture (base_params p) (cursor p) in (take 50 m, if length m > 50 then row_id (m ! 49) else 0))"
proof -
  have "map_of (history_params p) = map_of (cursor p @ base_params p)"
    using base_params_no_before [of p] by (auto simp: params_cursor cursor_def fun_eq_iff map_add_def split: option.splits)
  then have "answer dp fixture p = history_page dp fixture (cursor p @ base_params p)"
    unfolding answer_def by (rule history_page_cong)
  moreover have "history_match dp (cursor p @ base_params p) = history_match dp (base_params p)"
    by (simp add: cursor_def history_match_before)
  ultimately show ?thesis using history_page_remaining by simp
qed

section \<open>Library: turning pages\<close>

definition shown_rows :: "panel \<Rightarrow> object list" where
  "shown_rows p =
     (case hp_records p of
        JArray js \<Rightarrow> List.map_filter (\<lambda>j. case j of JObject x \<Rightarrow> Some x | _ \<Rightarrow> None) js
      | _ \<Rightarrow> [])"

text \<open>A user who reads the page shown and turns to the next one while there is one.\<close>

fun browse :: "nat \<Rightarrow> backend \<Rightarrow> panel \<times> mock \<Rightarrow> object list option" where
  "browse 0 be w = None"
| "browse (Suc n) be w =
     (if js_truthy (hp_next (fst w))
      then map_option (\<lambda>more. shown_rows (fst w) @ more) (browse n be (run_world be w [User NextPage, Deliver 0]))
      else Some (shown_rows (fst w)))"

lemma shown_answered [simp]: "shown_rows (answered dp fixture p) = fst (answer dp fixture p)"
  by (simp add: shown_rows_def map_filter_objects)

lemma turn_page:
  assumes "panel_live p" "interval_current p" "hp_inflight p = []" "\<not> mk_failHistory m" "\<not> hp_loading p" "js_truthy (hp_next p)"
  shows "run_world (api dp fixture t0 t1) (p, m) [User NextPage, Deliver 0] =
    (answered dp fixture (p\<lparr>hp_previous := hp_previous p @ [hp_before p], hp_before := hp_next p\<rparr>),
     noted (history_params (p\<lparr>hp_previous := hp_previous p @ [hp_before p], hp_before := hp_next p\<rparr>)) m)"
proof -
  have "interval_current (p\<lparr>hp_previous := l, hp_before := b\<rparr>)" for l b
    using assms(2) by (simp add: interval_current_def custom_interval_def)
  then show ?thesis using assms by (simp add: run_world_def nextProbeHistory_def reload)
qed

lemma cursor_turned:
  fixes l :: "jsval list"
  assumes "ascending fixture" "50 < length (remaining dp fixture (base_params p) (cursor p))"
    and "hp_next p = JNum (snd (answer dp fixture p))"
  defines "q \<equiv> p\<lparr>hp_previous := l, hp_before := hp_next p\<rparr>"
  shows "js_truthy (hp_next p)" "base_params q = base_params p"
    "remaining dp fixture (base_params q) (cursor q) = drop 50 (remaining dp fixture (base_params p) (cursor p))"
proof -
  let ?m = "remaining dp fixture (base_params p) (cursor p)"
  have r: "remaining dp fixture (base_params p) [(''before'', show_nat (nat (row_id (?m ! 49))))] = drop 50 ?m" "0 < row_id (?m ! 49)"
    using remaining_next [OF assms(1,2)] by auto
  have n: "hp_next p = JNum (row_id (?m ! 49))" using assms(2,3) by (simp add: answer_remaining Let_def)
  show t: "js_truthy (hp_next p)" and b: "base_params q = base_params p"
    using r(2) n by (simp_all add: base_params_def history_params_def q_def)
  have "cursor q = [(''before'', show_nat (nat (row_id (?m ! 49))))]"
    using r(2) n t by (simp add: cursor_def q_def show_int_def)
  then show "remaining dp fixture (base_params q) (cursor q) = drop 50 ?m" using r(1) b by simp
qed

lemma browse_remaining:
  assumes "ascending fixture" "length (remaining dp fixture (base_params p) (cursor p)) < 50 * n"
    and "panel_live p" "interval_current p" "hp_inflight p = []" "\<not> mk_failHistory m"
  shows "browse n (api dp fixture t0 t1) (answered dp fixture p, m) = Some (remaining dp fixture (base_params p) (cursor p))"
  using assms(2-6)
proof (induction n arbitrary: p m)
  case (Suc n)
  let ?m = "remaining dp fixture (base_params p) (cursor p)"
  let ?a = "answered dp fixture p"
  have an: "remaining dp fixture (base_params ?a) (cursor ?a) = ?m"
    by (simp add: base_params_def cursor_def history_params_def)
  show ?case
  proof (cases "50 < length ?m")
    case False
    then show ?thesis by (simp add: answer_remaining Let_def)
  next
    case True
    define q where "q = ?a\<lparr>hp_previous := hp_previous ?a @ [hp_before ?a], hp_before := hp_next ?a\<rparr>"
    have t: "js_truthy (hp_next ?a)" "remaining dp fixture (base_params q) (cursor q) = drop 50 ?m"
      using cursor_turned(1) [OF assms(1), of dp ?a] cursor_turned(3) [OF assms(1), of dp ?a "hp_previous ?a @ [hp_before ?a]"] True an
      by (simp_all add: q_def)
    have st: "run_world (api dp fixture t0 t1) (?a, m) [User NextPage, Deliver 0] = (answered dp fixture q, noted (history_params q) m)"
      unfolding q_def by (rule turn_page) (use Suc.prems t in simp_all)
    have lq: "panel_live q" "interval_current q" "hp_inflight q = []"
      using Suc.prems(2-4) by (simp_all add: q_def panel_live_def interval_current_def custom_interval_def answered_def)
    have "browse n (api dp fixture t0 t1) (answered dp fixture q, noted (history_params q) m) = Some (drop 50 ?m)"
      using Suc.IH [of q "noted (history_params q) m"] Suc.prems(1,5) t(2) lq True by simp
    then show ?thesis using t(1) st True by (simp add: answer_remaining Let_def)
  qed
qed simp

definition row_a :: row where
  "row_a = row_of_object (tunnels ! 0)"

lemma row_a_uuid [simp]: "row_uuid row_a = JStr ''a''"
  by (simp add: row_a_def row_of_object_def tunnels_def str_prop_def Let_def)

lemma open_history:
  fixes r :: row and now :: int
  assumes "hp_alive p" "hp_inflight p = []" "\<not> mk_failHistory m"
  defines "q \<equiv> p\<lparr>hp_name := row_name r, hp_uuid := row_uuid r, hp_range := ''24'', hp_start := [], hp_end := [],
      hp_kind := [], hp_status := [], hp_modal := True, hp_previous := [], hp_before := JNum 0, hp_next := JNum 0,
      hp_until := Some now, hp_since := Some (now - 86400000)\<rparr>"
  shows "run_world (api dp fixture t0 t1) (p, m) [User (OpenHistory r now), Deliver 0] =
    (answered dp fixture q, noted (history_params q) m)" "panel_live q" "interval_current q" "hp_inflight q = []"
proof -
  have n: "js_Number ''24'' = Some 24" by code_simp
  show l: "panel_live q" and c: "interval_current q" and f: "hp_inflight q = []"
    using assms(1,2) by (simp_all add: q_def panel_live_def interval_current_def)
  show "run_world (api dp fixture t0 t1) (p, m) [User (OpenHistory r now), Deliver 0] = (answered dp fixture q, noted (history_params q) m)"
    using reload [OF c f assms(3), of dp fixture t0 t1] assms(1) n
    by (simp add: run_world_def invokeProbeHistory_def resetProbeHistory_def Let_def q_def)
qed

section \<open>Library: the interval and its controls\<close>

text \<open>The moment of an action at which the page may read the clock, and the readings of a run.\<close>

fun clock_reading :: "world_event \<Rightarrow> int list" where
  "clock_reading (User (OpenHistory r now)) = [now]"
| "clock_reading (User (SelectRange v now)) = [now]"
| "clock_reading (User (SelectKind v now)) = [now]"
| "clock_reading (User (SelectStatus v now)) = [now]"
| "clock_reading (User (TimeChanged now)) = [now]"
| "clock_reading (User (RefreshHistory now)) = [now]"
| "clock_reading _ = []"

definition readings :: "world_event list \<Rightarrow> int list" where
  "readings es = concat (map clock_reading es)"

definition preset_ranges :: "string list" where
  "preset_ranges = [''1'', ''24'', ''168'']"

text \<open>The range list has these options, and the clock shows a time a date can hold.\<close>

fun offered :: "world_event \<Rightarrow> bool" where
  "offered (User (SelectRange v now)) \<longleftrightarrow> v \<in> set (''custom'' # preset_ranges) \<and> 0 \<le> now \<and> now \<le> 8600000000000000"
| "offered e \<longleftrightarrow> list_all (\<lambda>now. 0 \<le> now \<and> now \<le> 8600000000000000) (clock_reading e)"

text \<open>A time was typed whose change event is still to come.\<close>

fun typing :: "world_event \<Rightarrow> bool \<Rightarrow> bool" where
  "typing (User (TypeStart v)) d = True"
| "typing (User (TypeEnd v)) d = True"
| "typing (User (TimeChanged now)) d = False"
| "typing _ d = d"

definition uncommitted :: "world_event list \<Rightarrow> bool" where
  "uncommitted es = fold typing es False"

definition preset_interval :: "int list \<Rightarrow> panel \<Rightarrow> bool" where
  "preset_interval ts p \<longleftrightarrow> (\<exists>h t. js_Number (hp_range p) = Some h \<and> t \<in> set ts \<and>
     hp_until p = Some t \<and> hp_since p = Some (t - h * 3600000))"

definition range_good :: "int list \<Rightarrow> bool \<Rightarrow> panel \<Rightarrow> bool" where
  "range_good ts d p \<longleftrightarrow>
     (if hp_range p = ''custom'' then interval_current p \<or> hp_error p \<noteq> None \<or> d
      else hp_range p \<in> set preset_ranges \<and> preset_interval ts p)"

definition range_inv :: "int list \<Rightarrow> bool \<Rightarrow> panel \<Rightarrow> bool" where
  "range_inv ts d p \<longleftrightarrow> (panel_live p \<longrightarrow> range_good ts d p) \<and> list_all (\<lambda>t. 0 \<le> t \<and> t \<le> 8600000000000000) ts"

lemma preset_number: "v \<in> set preset_ranges \<Longrightarrow> \<exists>h. js_Number v = Some h \<and> 0 \<le> h \<and> h \<le> 168"
proof -
  have "js_Number ''1'' = Some 1" "js_Number ''24'' = Some 24" "js_Number ''168'' = Some 168" by code_simp+
  then show "v \<in> set preset_ranges \<Longrightarrow> ?thesis" by (auto simp: preset_ranges_def)
qed

lemma preset_not_custom: "v \<in> set preset_ranges \<Longrightarrow> v \<noteq> ''custom''"
  by (auto simp: preset_ranges_def)

lemma preset_interval_frame:
  "hp_range q = hp_range p \<Longrightarrow> hp_until q = hp_until p \<Longrightarrow> hp_since q = hp_since p \<Longrightarrow> preset_interval ts q = preset_interval ts p"
  by (simp add: preset_interval_def)

lemma range_good_mono: "range_good ts d p \<Longrightarrow> range_good (ts @ us) d p"
  by (auto simp: range_good_def preset_interval_def)

text \<open>Loading sends the query of the controls or shows an error.\<close>

lemma load_range:
  assumes "hp_range q = ''custom'' \<or> hp_range q \<in> set preset_ranges \<and> preset_interval ts q"
  shows "range_good ts d (loadProbeHistory q)"
proof (cases "hp_range q = ''custom''")
  case False
  then show ?thesis using assms
    by (simp add: range_good_def loadProbeHistory_def send_query_def Let_def preset_interval_def)
next
  case True
  show ?thesis
  proof (cases "custom_interval q")
    case (Inl e)
    then show ?thesis using True by (simp add: range_good_def loadProbeHistory_def Let_def)
  next
    case (Inr ab)
    then obtain a b where "custom_interval q = Inr (a, b)" by (cases ab) auto
    then show ?thesis using True
      by (simp add: range_good_def loadProbeHistory_def Let_def send_query_def interval_current_def custom_interval_def)
  qed
qed

lemma reset_range:
  assumes "hp_range q \<in> set (''custom'' # preset_ranges)" and "now \<in> set ts"
  shows "range_good ts d (resetProbeHistory now q)"
proof -
  have "\<exists>h. js_Number (hp_range q) = Some h" if "hp_range q \<noteq> ''custom''" using preset_number assms(1) that by fastforce
  then show ?thesis unfolding resetProbeHistory_def Let_def
    using assms by (intro load_range) (auto simp: preset_interval_def preset_not_custom)
qed

lemma range_good_range: "range_good ts d p \<Longrightarrow> hp_range p \<in> set (''custom'' # preset_ranges)"
  by (auto simp: range_good_def split: if_splits)

lemma range_good_reload:
  assumes "range_good ts d p" and "hp_range q = hp_range p" "hp_until q = hp_until p" "hp_since q = hp_since p"
  shows "range_good ts d' (loadProbeHistory q)"
  using assms by (intro load_range) (auto simp: range_good_def preset_interval_def split: if_splits)

lemma no_time: "date_parse ''+08:00'' = None"
  by code_simp

text \<open>Switching to the custom range fills the inputs, or an error was shown, or there were times already.\<close>

lemma change_range:
  assumes "range_good ts d p" and "list_all (\<lambda>t. 0 \<le> t \<and> t \<le> 8600000000000000) ts" and "now \<in> set ts"
    and "v \<in> set (''custom'' # preset_ranges)"
  shows "range_good ts d (changeProbeHistoryRange now (p\<lparr>hp_range := v\<rparr>))"
proof (cases "v = ''custom'' \<and> hp_start p = [] \<and> hp_end p = []")
  case False
  then show ?thesis using reset_range [of "p\<lparr>hp_range := v\<rparr>" now ts d] assms(3,4) by (auto simp: changeProbeHistoryRange_def)
next
  case True
  show ?thesis
  proof (cases "hp_range p = ''custom''")
    case cu: True
    have "\<not> interval_current p" using cu True by (simp add: interval_current_def custom_interval_def no_time)
    then have e: "hp_error p \<noteq> None \<or> d" using assms(1) cu by (simp add: range_good_def)
    have r: "range_good ts d (resetProbeHistory now (p\<lparr>hp_range := ''custom'', hp_start := a, hp_end := b\<rparr>))" for a b
      using reset_range [OF _ assms(3)] by simp
    have k: "range_good ts d (p\<lparr>hp_range := ''custom''\<rparr>)" "range_good ts d (p\<lparr>hp_range := ''custom'', hp_start := a\<rparr>)" for a
      using e by (auto simp: range_good_def)
    show ?thesis using True r k
      by (cases "probeHistoryTimeInput (hp_since p)"; cases "probeHistoryTimeInput (hp_until p)") (simp_all add: changeProbeHistoryRange_def)
  next
    case False
    then have "hp_range p \<in> set preset_ranges" "preset_interval ts p" using assms(1) by (simp_all add: range_good_def)
    then obtain h t where t: "t \<in> set ts" "hp_until p = Some t" "hp_since p = Some (t - h * 3600000)" "0 \<le> h" "h \<le> 168"
      using preset_number [of "hp_range p"] by (auto simp: preset_interval_def)
    then have "0 \<le> t" "t \<le> 8600000000000000" using assms(2) by (auto simp: list_all_iff)
    then have bounds: "\<bar>t - h * 3600000 + 28800000\<bar> \<le> 8640000000000000" "\<bar>t + 28800000\<bar> \<le> 8640000000000000"
      using t(4,5) by linarith+
    obtain a b where "probeHistoryTimeInput (hp_since p) = Some a" "probeHistoryTimeInput (hp_until p) = Some b"
      using t bounds by (simp add: probeHistoryTimeInput_def)
    then show ?thesis using True reset_range [OF _ assms(3), of "p\<lparr>hp_range := ''custom'', hp_start := a, hp_end := b\<rparr>" d]
      by (simp add: changeProbeHistoryRange_def)
  qed
qed

lemma step_range:
  assumes "range_inv ts d p" and "offered (User e)"
  shows "range_inv (ts @ clock_reading (User e)) (typing (User e) d) (panel_step p e)"
proof -
  let ?ts = "ts @ clock_reading (User e)"
  have b: "list_all (\<lambda>t. 0 \<le> t \<and> t \<le> 8600000000000000) ?ts" using assms by (cases e) (auto simp: range_inv_def)
  have g: "panel_live p \<Longrightarrow> range_good ?ts d p" using assms(1) range_good_mono by (auto simp: range_inv_def)
  note r = reset_range [where ts = ?ts and d = d] range_good_range [OF g]
  have l: "range_good ?ts x (loadProbeHistory q)" if "panel_live p" "hp_range q = hp_range p" "hp_until q = hp_until p" "hp_since q = hp_since p" for q x
    using range_good_reload [OF g [OF that(1)]] that by blast
  have "range_good ?ts (typing (User e) d) (panel_step p e)" if live: "panel_live (panel_step p e)"
  proof (cases e)
    case (OpenHistory rw now)
    then show ?thesis using live by (cases "hp_alive p") (auto simp: invokeProbeHistory_def panel_live_def preset_ranges_def intro!: reset_range)
  next
    case CloseHistory
    then show ?thesis using live g by (auto simp: panel_live_def historyVisibilityChanged_def split: if_splits)
  next
    case (SelectRange v now)
    then show ?thesis using live g change_range [OF g b, of now v] assms(2) by (auto split: if_splits)
  next
    case (SelectKind v now)
    then show ?thesis using live r by (auto split: if_splits intro!: reset_range)
  next
    case (SelectStatus v now)
    then show ?thesis using live r by (auto split: if_splits intro!: reset_range)
  next
    case (TypeStart v)
    then show ?thesis using live g by (auto simp: range_good_def preset_interval_def split: if_splits)
  next
    case (TypeEnd v)
    then show ?thesis using live g by (auto simp: range_good_def preset_interval_def split: if_splits)
  next
    case (TimeChanged now)
    then show ?thesis using live g reset_range [of p now ?ts False] by (auto simp: range_good_def split: if_splits)
  next
    case (RefreshHistory now)
    then show ?thesis using live g r by (auto split: if_splits intro!: reset_range)
  next
    case LeavePage
    then show ?thesis using live by (simp add: panel_live_def)
  qed (use live g l in \<open>auto simp: nextProbeHistory_def previousProbeHistory_def split: if_splits\<close>)
  then show ?thesis using b by (simp add: range_inv_def)
qed

lemma settle_range: "range_good ts d p \<Longrightarrow> range_good ts d (history_settle i r p)"
proof -
  obtain p1 e where t: "history_then i r p = (p1, e)" by force
  have f: "hp_range p1 = hp_range p" "hp_start p1 = hp_start p" "hp_end p1 = hp_end p" "hp_since p1 = hp_since p" "hp_until p1 = hp_until p"
    "hp_error p1 = hp_error p"
    using t by (auto simp: history_then_def split: response.splits option.splits if_splits)
  assume "range_good ts d p"
  then show ?thesis using f
    by (auto simp: history_settle_def t history_catch_def history_finally_def range_good_def preset_interval_def interval_current_def
        custom_interval_def split: option.splits)
qed

lemma deliver_range: "range_inv ts d p \<Longrightarrow> range_inv ts d (fst (deliver be k (p, m)))"
proof -
  assume r: "range_inv ts d p"
  have "range_inv ts d (history_settle i x (p\<lparr>hp_inflight := fl\<rparr>))" for i x fl
  proof -
    have "range_good ts d (p\<lparr>hp_inflight := fl\<rparr>) = range_good ts d p"
      by (simp add: range_good_def preset_interval_def interval_current_def custom_interval_def)
    then show ?thesis using r settle_range [of ts d "p\<lparr>hp_inflight := fl\<rparr>"] by (auto simp: range_inv_def panel_live_def)
  qed
  then show ?thesis using r by (auto simp: deliver_def split: prod.splits)
qed

lemma world_range:
  assumes "list_all offered es"
  shows "range_inv (readings es) (uncommitted es) (fst (run_world be (init_panel, m0) es))"
  using assms
proof (induction es rule: rev_induct)
  case Nil
  show ?case by (simp add: range_inv_def readings_def run_world_def init_panel_def panel_live_def)
next
  case (snoc e es)
  obtain p m where w: "run_world be (init_panel, m0) es = (p, m)" by force
  have "range_inv (readings es) (uncommitted es) p" using snoc w by simp
  moreover have "run_world be (init_panel, m0) (es @ [e]) = world_step be (p, m) e" using w by (simp add: run_world_def)
  moreover have "offered e" using snoc.prems by simp
  ultimately show ?case using step_range [of "readings es" "uncommitted es" p] deliver_range [of "readings es" "uncommitted es" p be _ m]
    by (cases e) (simp_all add: readings_def uncommitted_def del: panel_step.simps)
qed

section \<open>Properties\<close>

text \<open>
  C24: What the panel shows is what its controls say. However the user works with the panel, in
  whatever order the replies of overlapping queries arrive, and whether or not queries fail in
  between: whenever the panel is shown, not loading and without an error, its rows and its next
  cursor are those the server holds for the tunnel, interval, type, result and cursor of the query
  parameters now; and while it is loading, the query for exactly these is still in flight. When the
  range list is used with its options and every time typed is followed by its change event, the
  interval of the parameters is the one the controls name: with a preset range the last so many hours
  before a moment at which the user acted, with the custom range the times in the two inputs, read
  as Beijing time and up to the end of the last second; or an error is shown.
\<close>

theorem history_panel_consistent:
  assumes "run_world (api dp fixture t0 t1) (init_panel, m0) es = (p, m)" and "hp_alive p" and "hp_modal p"
  shows "(if hp_loading p then (hp_requestId p, history_url p) \<in> set (hp_inflight p)
     else hp_error p \<noteq> None \<or>
       shown_rows p = fst (history_page dp fixture (history_params p)) \<and>
       hp_next p = JNum (snd (history_page dp fixture (history_params p)))) \<and>
    (list_all offered es \<and> \<not> uncommitted es \<longrightarrow>
       hp_error p \<noteq> None \<or>
       (if hp_range p = ''custom''
        then \<exists>a b. date_parse (hp_start p @ ''+08:00'') = Some a \<and> date_parse (hp_end p @ ''+08:00'') = Some b \<and> a \<le> b \<and>
               hp_since p = Some a \<and> hp_until p = Some (b + 999)
        else \<exists>h t. js_Number (hp_range p) = Some h \<and> t \<in> set (readings es) \<and>
               hp_until p = Some t \<and> hp_since p = Some (t - h * 3600000)))"
proof -
  have "panel_inv dp fixture (fst (run_world (api dp fixture t0 t1) (init_panel, m0) es))"
    by (rule world_inv) (simp add: init_panel_inv)
  then have i: "panel_inv dp fixture p" "panel_live p" using assms by (simp_all add: panel_live_def)
  have r: "range_inv (readings es) (uncommitted es) p" if "list_all offered es"
    using world_range [OF that, of "api dp fixture t0 t1" m0] assms(1) by simp
  have c: "\<exists>a b. date_parse (hp_start p @ ''+08:00'') = Some a \<and> date_parse (hp_end p @ ''+08:00'') = Some b \<and> a \<le> b \<and>
      hp_since p = Some a \<and> hp_until p = Some (b + 999)" if "interval_current p" "hp_range p = ''custom''"
    using that by (auto simp: interval_current_def custom_interval_def split: option.splits if_splits)
  show ?thesis using i r c
    by (auto simp: panel_inv_def shows_answer_def answer_def shown_rows_def map_filter_objects range_inv_def range_good_def
        preset_interval_def)
qed

theorem history_panel_consistent_witness:
  "let p = fst (run_world (api date_parse (historyFixture ''2026-10-17T18:05:00'') [] []) (init_panel, initial_mock)
             [User (OpenHistory row_a 0), User (SelectKind ''route'' 5), Deliver 1])
   in \<not> hp_loading p \<and> shown_rows p = fst (history_page date_parse (historyFixture ''2026-10-17T18:05:00'') (history_params p)) \<and>
      (\<exists>t\<in>{0, 5}. hp_until p = Some t \<and> hp_since p = Some (t - 24 * 3600000))"
proof -
  define fx where "fx = historyFixture ''2026-10-17T18:05:00''"
  define es where "es = [User (OpenHistory row_a 0), User (SelectKind ''route'' 5), Deliver 1]"
  obtain p m where w: "run_world (api date_parse fx [] []) (init_panel, initial_mock) es = (p, m)" by force
  have n: "js_Number ''24'' = Some 24" by code_simp
  define p1 where "p1 = panel_step (panel_step init_panel (OpenHistory row_a 0)) (SelectKind ''route'' 5)"
  have p1: "hp_inflight p1 ! 1 = (2, history_url p1)" "length (hp_inflight p1) = 2" "hp_requestId p1 = 2" "hp_alive p1" "hp_modal p1"
      "hp_error p1 = None" "hp_range p1 = ''24''"
    by (simp_all add: p1_def init_panel_def invokeProbeHistory_def resetProbeHistory_def loadProbeHistory_def send_query_def
        Let_def panel_live_def n history_url_def history_params_def)
  have "p = history_settle 2 (fst (api date_parse fx [] [] (request_of (history_url p1, EmptyBody)) initial_mock))
      (p1\<lparr>hp_inflight := remove_nth 1 (hp_inflight p1)\<rparr>)"
    using w p1 by (auto simp: es_def run_world_def p1_def [symmetric] deliver_def simp del: panel_step.simps split: prod.splits)
  moreover have "\<not> mk_failHistory initial_mock" by (simp add: initial_mock_def)
  ultimately have "hp_alive p" "hp_modal p" "\<not> hp_loading p" "hp_error p = None" "hp_range p = ''24''"
    using settled_query [of "p1\<lparr>hp_inflight := remove_nth 1 (hp_inflight p1)\<rparr>" 2 p1 date_parse fx "[]" "[]" initial_mock] p1
    by simp_all
  moreover have "list_all offered es \<and> \<not> uncommitted es \<and> set (readings es) = {0, 5}"
    by (simp add: es_def uncommitted_def readings_def)
  ultimately show ?thesis using history_panel_consistent [OF w] w n by (auto simp: fx_def es_def)
qed

text \<open>
  C25: The history of a tunnel can be read completely. With queries succeeding, opening the panel on
  a row and turning pages while the next button is enabled ends after finitely many pages, having
  shown every record of this tunnel of the last 24 hours exactly once, newest first.
\<close>

theorem history_browse_complete:
  assumes "ascending fixture" and "length fixture < 50 * n"
    and "hp_alive p" and "hp_inflight p = []" and "\<not> mk_failHistory m"
  shows "browse n (api dp fixture t0 t1) (run_world (api dp fixture t0 t1) (p, m) [User (OpenHistory r now), Deliver 0]) =
    Some (rev (filter (\<lambda>row. str_prop ''tunnel_uuid'' row = Some (JString (js_string (row_uuid r))) \<and>
                             (\<exists>t. row_time dp row = Some t \<and> now - 24 * 3600000 \<le> t \<and> t \<le> now)) fixture))"
proof -
  define q where "q = p\<lparr>hp_name := row_name r, hp_uuid := row_uuid r, hp_range := ''24'', hp_start := [], hp_end := [],
      hp_kind := [], hp_status := [], hp_modal := True, hp_previous := [], hp_before := JNum 0, hp_next := JNum 0,
      hp_until := Some now, hp_since := Some (now - 86400000)\<rparr>"
  note o = open_history [OF assms(3,4,5), where r = r and now = now, folded q_def]
  have c: "cursor q = []" "base_params q = history_params q" by (simp_all add: cursor_def q_def base_params_def history_params_def)
  have "before_match (history_params q) row" for row
    using base_params_no_before [of q] c(2) by (simp add: before_match_def)
  then have rem: "remaining dp fixture (base_params q) (cursor q) = rev (filter (history_match dp (history_params q)) fixture)"
    unfolding c remaining_def by (simp del: cursor_def)
  have "length (rev (filter (history_match dp (history_params q)) fixture)) \<le> length fixture" by simp
  then have "length (remaining dp fixture (base_params q) (cursor q)) < 50 * n" using assms(2) rem by (metis le_less_trans)
  then have "browse n (api dp fixture t0 t1) (answered dp fixture q, noted (history_params q) m) =
      Some (rev (filter (history_match dp (history_params q)) fixture))"
    using browse_remaining [OF assms(1) _ o(2,3,4), of dp n "noted (history_params q) m" t0 t1] assms(5) rem by simp
  moreover have "history_match dp (history_params q) = (\<lambda>row. str_prop ''tunnel_uuid'' row = Some (JString (js_string (row_uuid r))) \<and>
      (\<exists>t. row_time dp row = Some t \<and> now - 24 * 3600000 \<le> t \<and> t \<le> now))"
    by (rule ext) (subst history_match_params [of q "now - 86400000" now], simp_all add: q_def)
  ultimately show ?thesis using o(1) by simp
qed

theorem history_browse_complete_witness:
  "browse 2 (api date_parse (historyFixture ''2026-10-17T18:05:00'') [] [])
     (run_world (api date_parse (historyFixture ''2026-10-17T18:05:00'') [] []) (init_panel, initial_mock)
        [User (OpenHistory row_a 1792231800000), Deliver 0]) =
   Some (rev (filter (\<lambda>row. str_prop ''tunnel_uuid'' row = Some (JString ''a'') \<and>
                            (\<exists>t. row_time date_parse row = Some t \<and> 1792145400000 \<le> t \<and> t \<le> 1792231800000))
                     (historyFixture ''2026-10-17T18:05:00'')))"
  using history_browse_complete [OF historyFixture_ascending [of "''2026-10-17T18:05:00''"], of 2 init_panel initial_mock date_parse "[]" "[]" row_a 1792231800000]
  by (simp add: historyFixture_def init_panel_def initial_mock_def)




text \<open>
  Turning to the next page and back shows the page left, with the same cursors.
\<close>

lemma next_then_previous:
  assumes "panel_live p" "interval_current p" "hp_inflight p = []" "\<not> mk_failHistory m" "js_truthy (hp_before p) \<or> hp_before p = JNum 0"
    and "js_truthy (JNum (snd (answer dp fixture p)))"
  shows "let p' = fst (run_world (api dp fixture t0 t1) (answered dp fixture p, m) [User NextPage, Deliver 0, User PreviousPage, Deliver 0])
    in shown_rows p' = shown_rows (answered dp fixture p) \<and> hp_next p' = hp_next (answered dp fixture p) \<and>
       hp_before p' = hp_before p \<and> hp_previous p' = hp_previous p \<and> \<not> hp_loading p' \<and> hp_error p' = None"
proof -
  let ?be = "api dp fixture t0 t1" and ?a = "answered dp fixture p"
  define q where "q = ?a\<lparr>hp_previous := hp_previous ?a @ [hp_before ?a], hp_before := hp_next ?a\<rparr>"
  have t: "run_world ?be (?a, m) [User NextPage, Deliver 0] = (answered dp fixture q, noted (history_params q) m)"
    unfolding q_def by (rule turn_page) (use assms in simp_all)
  define r where "r = (answered dp fixture q)\<lparr>hp_before := hp_before p, hp_previous := hp_previous p\<rparr>"
  have q: "panel_live q" "hp_inflight q = []" "hp_previous q = hp_previous p @ [hp_before p]"
    using assms(1,3) by (simp_all add: q_def panel_live_def)
  have r: "interval_current r" "hp_inflight r = []" "history_params r = history_params p"
    using assms(2) q by (simp_all add: r_def q_def interval_current_def custom_interval_def history_params_def)
  have pv: "panel_step (answered dp fixture q) PreviousPage = loadProbeHistory r"
    using q assms(5) by (auto simp: previousProbeHistory_def r_def)
  have "run_world ?be (?a, m) [User NextPage, Deliver 0, User PreviousPage, Deliver 0] =
      run_world ?be (run_world ?be (?a, m) [User NextPage, Deliver 0]) [User PreviousPage, Deliver 0]"
    by (simp only: run_world_def foldl.simps)
  also have "\<dots> = (answered dp fixture r, noted (history_params r) (noted (history_params q) m))"
    unfolding t using reload [OF r(1,2), of "noted (history_params q) m" dp fixture t0 t1] assms(4) pv
    by (simp add: run_world_def del: panel_step.simps)
  finally show ?thesis using r(3) by (simp add: Let_def answer_def r_def del: run_world_def)
qed

end
