(* ===== verification/UiServer.thy ===== *)
theory UiServer
  imports HistoryPanel
begin

text \<open>
  The HTTP server of \<open>src/scripts/test-admin-ui.cjs\<close> as a whole: the request target is parsed as the
  URL standard says, relative to the base \<open>http://localhost\<close> and for targets that name a scheme of their
  own; paths under \<open>/api/\<close> go to the handler of \<open>MockApi\<close>, everything else to the files of the
  repository. \<open>path.join\<close> and \<open>path.extname\<close> are those of POSIX. The repository root is an absolute
  normalised path, given by its segments; the disk is an argument, as is the URL parser's check of an
  authority.
\<close>

section \<open>Request targets\<close>

text \<open>A dot may be written \<open>%2e\<close> in any case.\<close>

definition single_dot :: "string \<Rightarrow> bool" where
  "single_dot s \<longleftrightarrow> lower s \<in> {''.'', ''%2e''}"

definition double_dot :: "string \<Rightarrow> bool" where
  "double_dot s \<longleftrightarrow> lower s \<in> {''..'', ''.%2e'', ''%2e.'', ''%2e%2e''}"

definition path_encoded :: "char \<Rightarrow> bool" where
  "path_encoded c \<longleftrightarrow> (let n = (of_char c :: nat) in n \<le> 32 \<or> 126 < n \<or> n = 34 \<or> c \<in> set ''#<>?^`{}'')"

definition path_encode :: "string \<Rightarrow> string" where
  "path_encode s = concat (map (\<lambda>c.
     if path_encoded c then [CHR ''%'', hex_digit (of_char c div 16), hex_digit (of_char c mod 16)] else [c]) s)"

text \<open>The path state of the parser; the flag is the scheme \<open>file\<close>, whose drive letters stay.\<close>

definition letter :: "char \<Rightarrow> bool" where
  "letter c \<longleftrightarrow> (let n = (of_char (lower_char c) :: nat) in 97 \<le> n \<and> n \<le> 122)"

definition drive_letter :: "string \<Rightarrow> bool" where
  "drive_letter s \<longleftrightarrow> length s = 2 \<and> letter (hd s) \<and> last s \<in> {CHR '':'', CHR ''|''}"

definition url_shorten :: "bool \<Rightarrow> string list \<Rightarrow> string list" where
  "url_shorten file stk = (if file \<and> length stk = 1 \<and> drive_letter (hd stk) then stk else butlast stk)"

definition url_push :: "bool \<Rightarrow> string list \<Rightarrow> string \<Rightarrow> string list" where
  "url_push file stk s = stk @ [if file \<and> stk = [] \<and> drive_letter s then [hd s, CHR '':''] else path_encode s]"

fun url_segments :: "bool \<Rightarrow> string list \<Rightarrow> string list \<Rightarrow> string list" where
  "url_segments file stk [] = stk"
| "url_segments file stk [s] =
     (if double_dot s then url_shorten file stk @ [[]] else if single_dot s then stk @ [[]] else url_push file stk s)"
| "url_segments file stk (s # t # r) =
     (if double_dot s then url_segments file (url_shorten file stk) (t # r)
      else if single_dot s then url_segments file stk (t # r)
      else url_segments file (url_push file stk s) (t # r))"

definition segments_path :: "string list \<Rightarrow> string" where
  "segments_path segs = concat (map (\<lambda>s. CHR ''/'' # s) segs)"

definition url_pathname :: "bool \<Rightarrow> string \<Rightarrow> string" where
  "url_pathname file p = segments_path (url_segments file [] (split_on CHR ''/'' (if take 1 p = ''/'' then drop 1 p else p)))"

text \<open>Tabs and line ends are dropped, and the control characters and spaces at both ends.\<close>

definition control_or_space :: "char \<Rightarrow> bool" where
  "control_or_space c \<longleftrightarrow> (of_char c :: nat) \<le> 32"

definition url_clean :: "string \<Rightarrow> string" where
  "url_clean s = filter (\<lambda>c. (of_char c :: nat) \<notin> {9, 10, 13})
     (rev (dropWhile control_or_space (rev (dropWhile control_or_space s))))"

definition backslashes :: "string \<Rightarrow> string" where
  "backslashes p = map (\<lambda>c. if c = char_of (92 :: nat) then CHR ''/'' else c) p"

text \<open>The scheme, in lower case, and the rest.\<close>

definition scheme_char :: "char \<Rightarrow> bool" where
  "scheme_char c \<longleftrightarrow> letter c \<or> c \<in> set ''0123456789+-.''"

definition url_scheme :: "string \<Rightarrow> (string \<times> string) option" where
  "url_scheme t =
     (let s = takeWhile (\<lambda>c. c \<noteq> CHR '':'') t
      in if s \<noteq> [] \<and> length s < length t \<and> letter (hd s) \<and> list_all scheme_char s
         then Some (lower s, drop (Suc (length s)) t) else None)"

text \<open>
  The path of a target, \<open>None\<close> for an invalid authority. The first argument is the check of the
  authority for a scheme. A special scheme skips every slash before its authority; a target without a
  scheme, or with that of the base, is relative to the base \<open>http://localhost/\<close>.
\<close>

definition authority_path :: "(string \<Rightarrow> bool) \<Rightarrow> string \<Rightarrow> string option" where
  "authority_path valid r =
     (let a = takeWhile (\<lambda>c. c \<noteq> CHR ''/'') r
      in if valid a then Some (url_pathname False (drop (length a) r)) else None)"

definition special_path :: "(string \<Rightarrow> bool) \<Rightarrow> string \<Rightarrow> string option" where
  "special_path valid p = authority_path valid (dropWhile (\<lambda>c. c = CHR ''/'') p)"

definition relative_path :: "(string \<Rightarrow> bool) \<Rightarrow> string \<Rightarrow> string option" where
  "relative_path valid p = (if take 2 p = ''//'' then special_path valid p else Some (url_pathname False p))"

definition file_path :: "(string \<Rightarrow> bool) \<Rightarrow> string \<Rightarrow> string option" where
  "file_path valid p =
     (if take 2 p = ''//'' then
        (let r = drop 2 p; a = takeWhile (\<lambda>c. c \<noteq> CHR ''/'') r
         in if drive_letter a then Some (url_pathname True r)
            else if a = [] \<or> valid a then Some (url_pathname True (drop (length a) r)) else None)
      else Some (url_pathname True p))"

text \<open>The path of another scheme is normalised only after a slash; otherwise it is opaque.\<close>

definition opaque_encode :: "string \<Rightarrow> string" where
  "opaque_encode s = concat (map (\<lambda>c.
     let n = (of_char c :: nat) in if n < 32 \<or> 126 < n then [CHR ''%'', hex_digit (n div 16), hex_digit (n mod 16)] else [c]) s)"

definition other_path :: "(string \<Rightarrow> bool) \<Rightarrow> string \<Rightarrow> string option" where
  "other_path valid p =
     (if take 2 p = ''//'' then
        (let r = drop 2 p in if CHR ''/'' \<notin> set r then (if valid r then Some [] else None) else authority_path valid r)
      else if take 1 p = ''/'' then Some (url_pathname False p)
      else Some (opaque_encode p))"

definition url_path :: "(string \<Rightarrow> string \<Rightarrow> bool) \<Rightarrow> string \<Rightarrow> string option" where
  "url_path valid u =
     (case url_scheme u of
        None \<Rightarrow> relative_path (valid ''http'') (backslashes u)
      | Some (s, r) \<Rightarrow>
          if s = ''http'' then relative_path (valid s) (backslashes r)
          else if s \<in> {''https'', ''ws'', ''wss'', ''ftp''} then special_path (valid s) (backslashes r)
          else if s = ''file'' then file_path (valid s) (backslashes r)
          else other_path (valid s) r)"

text \<open>Path and query of a target; \<open>None\<close> is the exception of an invalid authority.\<close>

definition url_parse :: "(string \<Rightarrow> string \<Rightarrow> bool) \<Rightarrow> string \<Rightarrow> (string \<times> string) option" where
  "url_parse valid target =
     (let t = fst (cut CHR ''#'' (url_clean target))
      in map_option (\<lambda>p. (p, snd (cut CHR ''?'' t))) (url_path valid (fst (cut CHR ''?'' t))))"

section \<open>Paths\<close>

definition join_step :: "string list \<Rightarrow> string \<Rightarrow> string list" where
  "join_step stk s = (if s = [] \<or> s = ''.'' then stk else if s = ''..'' then butlast stk else stk @ [s])"

text \<open>\<open>path.join\<close> with an absolute first part; a trailing slash is kept.\<close>

definition path_join :: "string list \<Rightarrow> string" where
  "path_join parts =
     (let s = join ''/'' (filter (\<lambda>p. p \<noteq> []) parts);
          segs = foldl join_step [] (split_on CHR ''/'' s)
      in if segs = [] then ''/'' else segments_path segs @ (if last s = CHR ''/'' then ''/'' else []))"

definition extname :: "string \<Rightarrow> string" where
  "extname file =
     (let b = last ([] # filter (\<lambda>s. s \<noteq> []) (split_on CHR ''/'' file));
          ext = rev (takeWhile (\<lambda>c. c \<noteq> CHR ''.'') (rev b));
          pre = take (length b - Suc (length ext)) b
      in if CHR ''.'' \<notin> set b \<or> pre = [] \<or> b = ''..'' then [] else CHR ''.'' # ext)"

section \<open>The static files\<close>

text \<open>The pattern \<open>assert.match\<close> requires of the component.\<close>

definition component_paths :: "string list" where
  "component_paths =
     [''/layout/default'', ''/tunnel/list'', ''/tunnel/create'', ''/tunnel/edit'', ''/route_input/list'',
      ''/route_output/list'', ''/service/list'']"

text \<open>The file of a request; \<open>None\<close> is the failed assertion.\<close>

definition static_file :: "string list \<Rightarrow> string \<Rightarrow> params \<Rightarrow> string option" where
  "static_file rs pathname ps =
     (let root = (if rs = [] then ''/'' else segments_path rs) in
      if pathname = ''/render'' then
        (case map_of ps ''path'' of
           None \<Rightarrow> None
         | Some component \<Rightarrow>
             if component \<in> set component_paths then Some (path_join [root, ''admin/view'', component @ ''.html'']) else None)
      else if pathname = ''/login'' then Some (path_join [root, ''admin/view/login.html''])
      else if take 17 pathname = ''/go_sword_public/'' then Some (path_join [root, drop 17 pathname])
      else Some (path_join [root, ''admin/resource/dist'', if pathname = ''/'' then ''index.html'' else pathname]))"

definition mime_table :: "(string \<times> string) list" where
  "mime_table =
     [(''.js'', ''text/javascript''), (''.css'', ''text/css''), (''.html'', ''text/html''), (''.woff2'', ''font/woff2''),
      (''.woff'', ''font/woff'')]"

definition mime_of :: "string \<Rightarrow> string" where
  "mime_of file = (case map_of mime_table (extname file) of Some t \<Rightarrow> t | None \<Rightarrow> ''application/octet-stream'')"

text \<open>
  The replies of the server. The header of a file is written before the file is read, so a file that
  cannot be read makes the error handler write a second header, which throws outside every handler and
  ends the process: \<open>Crashed\<close>.
\<close>

datatype http_reply = ApiReply response | FileReply string string | Status500 | Crashed

definition serve_file :: "(string \<Rightarrow> string option) \<Rightarrow> string \<Rightarrow> http_reply" where
  "serve_file disk file = (case disk file of None \<Rightarrow> Crashed | Some content \<Rightarrow> FileReply (mime_of file) content)"

record site =
  st_root :: "string list"
  st_disk :: "string \<Rightarrow> string option"
  st_authority :: "string \<Rightarrow> string \<Rightarrow> bool"
  st_date_parse :: "string \<Rightarrow> int option"
  st_fixture :: "object list"

definition api_call :: "site \<Rightarrow> object \<Rightarrow> object \<Rightarrow> string \<Rightarrow> string \<Rightarrow> string \<Rightarrow> object option \<Rightarrow> mock \<Rightarrow> response \<times> mock" where
  "api_call st tunnel0 tunnel1 target pathname q body =
     api (st_date_parse st) (st_fixture st) tunnel0 tunnel1
       \<lparr>rq_url = target, rq_path = pathname, rq_params = search_params q, rq_payload = body\<rparr>"

definition handle :: "site \<Rightarrow> object \<Rightarrow> object \<Rightarrow> string \<Rightarrow> object option \<Rightarrow> mock \<Rightarrow> http_reply \<times> mock" where
  "handle st tunnel0 tunnel1 target body m =
     (case url_parse (st_authority st) target of
        None \<Rightarrow> (Status500, m)
      | Some (pathname, q) \<Rightarrow>
          if take 5 pathname = ''/api/'' then
            (case api_call st tunnel0 tunnel1 target pathname q body m of
               (ServerError, m') \<Rightarrow> (Status500, m')
             | (r, m') \<Rightarrow> (ApiReply r, m'))
          else (case static_file (st_root st) pathname (search_params q) of
                  None \<Rightarrow> (Status500, m)
                | Some file \<Rightarrow> (serve_file (st_disk st) file, m)))"

section \<open>Library: segments\<close>

definition clean_segment :: "string \<Rightarrow> bool" where
  "clean_segment s \<longleftrightarrow> s \<noteq> [] \<and> CHR ''/'' \<notin> set s \<and> s \<noteq> ''.'' \<and> s \<noteq> ''..''"

lemma split_on_app: "split_on d (a @ d # b) = split_on d a @ split_on d b"
proof (induction a)
  case (Cons c a)
  then show ?case by (cases "split_on d a") auto
qed simp

lemma split_join: "parts \<noteq> [] \<Longrightarrow> split_on d (join [d] parts) = concat (map (split_on d) parts)"
proof (induction parts)
  case (Cons p ps)
  then show ?case by (cases ps) (simp_all add: split_on_app)
qed simp

lemma split_segments_path:
  "list_all (\<lambda>s. CHR ''/'' \<notin> set s) segs \<Longrightarrow> split_on CHR ''/'' (segments_path segs) = [] # segs"
proof (induction segs)
  case (Cons s segs)
  then have "split_on CHR ''/'' (s @ segments_path segs) = s # segs"
  proof (cases segs)
    case Nil
    then show ?thesis using Cons.prems by (simp add: segments_path_def split_on_absent)
  next
    case (Cons t r)
    have "split_on CHR ''/'' (segments_path segs) = [] # segs" using Cons.IH Cons.prems by simp
    moreover have "segments_path segs = CHR ''/'' # t @ segments_path r" by (simp add: segments_path_def Cons)
    ultimately have "split_on CHR ''/'' (t @ segments_path r) = segs" by simp
    then show ?thesis using Cons.prems by (simp add: split_on_append segments_path_def Cons)
  qed
  then show ?case by (simp add: segments_path_def)
qed (simp add: segments_path_def)

lemma join_step_clean:
  "list_all (\<lambda>s. s \<noteq> ''..'' \<and> CHR ''/'' \<notin> set s) segs \<Longrightarrow> foldl join_step stk segs = stk @ filter clean_segment segs"
  by (induction segs arbitrary: stk) (auto simp: join_step_def clean_segment_def)

lemma path_encode_plain: "CHR ''%'' \<notin> set (path_encode s) \<Longrightarrow> path_encode s = s"
  by (induction s) (auto simp: path_encode_def split: if_splits)

lemma path_encode_dots: "path_encode s = ''.'' \<Longrightarrow> s = ''.''" "path_encode s = ''..'' \<Longrightarrow> s = ''..''"
  using path_encode_plain [of s] by (auto simp: in_set_conv_nth)

lemma hex_digit_no_slash: "n < 16 \<Longrightarrow> hex_digit n \<noteq> CHR ''/''"
proof
  assume "n < 16" "hex_digit n = CHR ''/''"
  then have "unhex CHR ''/'' = Some n" using unhex_hex_digit by metis
  moreover have "unhex CHR ''/'' = None" by code_simp
  ultimately show False by simp
qed

lemma path_encode_no_slash: "CHR ''/'' \<notin> set s \<Longrightarrow> CHR ''/'' \<notin> set (path_encode s)"
  using hex_digit_no_slash [OF char_hex_bounds(1)] hex_digit_no_slash [OF char_hex_bounds(2)]
  by (auto simp: path_encode_def split: if_splits) metis+

lemma encoded_segment:
  assumes "\<not> double_dot s" "CHR ''/'' \<notin> set s"
  shows "path_encode s \<noteq> ''..'' \<and> CHR ''/'' \<notin> set (path_encode s)"
proof -
  have "double_dot ''..''" by code_simp
  then show ?thesis using assms path_encode_dots(2) [of s] path_encode_no_slash by auto
qed

abbreviation dotless :: "string list \<Rightarrow> bool" where
  "dotless segs \<equiv> list_all (\<lambda>s. s \<noteq> ''..'' \<and> CHR ''/'' \<notin> set s) segs"

lemma dotless_shorten: "dotless stk \<Longrightarrow> dotless (url_shorten file stk)"
  by (auto simp: list_all_iff url_shorten_def dest: in_set_butlastD)

lemma dotless_push: "dotless stk \<Longrightarrow> \<not> double_dot s \<Longrightarrow> CHR ''/'' \<notin> set s \<Longrightarrow> dotless (url_push file stk s)"
  using encoded_segment [of s] by (cases s) (auto simp: url_push_def drive_letter_def)

lemma url_segments_dotless:
  "dotless stk \<Longrightarrow> list_all (\<lambda>s. CHR ''/'' \<notin> set s) segs \<Longrightarrow> dotless (url_segments file stk segs)"
  by (induction "file" stk segs rule: url_segments.induct) (simp_all add: dotless_shorten dotless_push)

lemma url_pathname_dotless: "dotless (split_on CHR ''/'' (url_pathname file p))"
proof -
  define segs where "segs = url_segments file [] (split_on CHR ''/'' (if take 1 p = ''/'' then drop 1 p else p))"
  have "list_all (\<lambda>s. CHR ''/'' \<notin> set s) (split_on CHR ''/'' (if take 1 p = ''/'' then drop 1 p else p))"
    using split_on_parts by (auto simp: list_all_iff simp del: split_on.simps)
  then have d: "dotless segs" unfolding segs_def by (intro url_segments_dotless) simp_all
  then have "list_all (\<lambda>s. CHR ''/'' \<notin> set s) segs" by (simp add: list_all_iff)
  then show ?thesis using d split_segments_path [of segs] by (simp only: url_pathname_def segs_def [symmetric] list.pred_inject) simp
qed

text \<open>An opaque path: a scheme of no special kind that no slash follows.\<close>

definition opaque_target :: "string \<Rightarrow> bool" where
  "opaque_target target \<longleftrightarrow>
     (case url_scheme (fst (cut CHR ''?'' (fst (cut CHR ''#'' (url_clean target))))) of
        None \<Rightarrow> False
      | Some (s, r) \<Rightarrow> s \<notin> {''http'', ''https'', ''ws'', ''wss'', ''ftp'', ''file''} \<and> take 1 r \<noteq> ''/'')"

lemma take_2_1: "take 2 p = ''//'' \<Longrightarrow> take 1 p = ''/''"
  by (cases p) auto

lemma paths_dotless:
  "authority_path valid p = Some pathname \<Longrightarrow> dotless (split_on CHR ''/'' pathname)"
  "special_path valid p = Some pathname \<Longrightarrow> dotless (split_on CHR ''/'' pathname)"
  "relative_path valid p = Some pathname \<Longrightarrow> dotless (split_on CHR ''/'' pathname)"
  "file_path valid p = Some pathname \<Longrightarrow> dotless (split_on CHR ''/'' pathname)"
  "other_path valid p = Some pathname \<Longrightarrow> take 1 p = ''/'' \<Longrightarrow> dotless (split_on CHR ''/'' pathname)"
proof -
  have e: "dotless (split_on CHR ''/'' [])" by simp
  have a: "authority_path valid q = Some pathname \<Longrightarrow> dotless (split_on CHR ''/'' pathname)" for q
    using url_pathname_dotless by (auto simp: authority_path_def Let_def simp del: split_on.simps split: if_splits)
  then show "authority_path valid p = Some pathname \<Longrightarrow> dotless (split_on CHR ''/'' pathname)"
    "special_path valid p = Some pathname \<Longrightarrow> dotless (split_on CHR ''/'' pathname)" by (simp_all only: special_path_def)
  show "relative_path valid p = Some pathname \<Longrightarrow> dotless (split_on CHR ''/'' pathname)"
    using a url_pathname_dotless by (auto simp: relative_path_def special_path_def simp del: split_on.simps split: if_splits)
  show "file_path valid p = Some pathname \<Longrightarrow> dotless (split_on CHR ''/'' pathname)"
    using url_pathname_dotless by (auto simp: file_path_def Let_def simp del: split_on.simps split: if_splits)
  show "other_path valid p = Some pathname \<Longrightarrow> take 1 p = ''/'' \<Longrightarrow> dotless (split_on CHR ''/'' pathname)"
    using a e url_pathname_dotless by (auto simp: other_path_def Let_def simp del: split_on.simps split: if_splits)
qed

lemma url_parse_dotless:
  "url_parse valid target = Some (pathname, q) \<Longrightarrow> \<not> opaque_target target \<Longrightarrow> dotless (split_on CHR ''/'' pathname)"
  using paths_dotless unfolding url_parse_def url_path_def opaque_target_def Let_def
  by (auto simp del: split_on.simps split: option.splits if_splits) 

lemma path_join_below:
  assumes "list_all clean_segment rs" "list_all (\<lambda>p. dotless (split_on CHR ''/'' p)) parts"
  shows "\<exists>more. list_all clean_segment more \<and>
    path_join ((if rs = [] then ''/'' else segments_path rs) # parts) \<in> {segments_path (rs @ more), segments_path (rs @ more) @ ''/''}"
proof -
  let ?root = "if rs = [] then ''/'' else segments_path rs"
  define ps where "ps = filter (\<lambda>p. p \<noteq> []) parts"
  define more where "more = filter clean_segment (concat (map (split_on CHR ''/'') ps))"
  have root: "?root \<noteq> []" "dotless (split_on CHR ''/'' ?root)" "filter clean_segment (split_on CHR ''/'' ?root) = rs"
  proof -
    have "list_all (\<lambda>s. CHR ''/'' \<notin> set s) rs" "dotless rs" "filter clean_segment rs = rs"
      using assms(1) by (auto simp: list_all_iff clean_segment_def filter_id_conv)
    then show "?root \<noteq> []" "dotless (split_on CHR ''/'' ?root)" "filter clean_segment (split_on CHR ''/'' ?root) = rs"
      using split_segments_path [of rs] by (cases rs, simp_all add: segments_path_def clean_segment_def)
  qed
  let ?segs = "concat (map (split_on CHR ''/'') (?root # ps))"
  have s: "split_on CHR ''/'' (join ''/'' (filter (\<lambda>p. p \<noteq> []) (?root # parts))) = ?segs"
    using root(1) by (simp only: filter.simps if_True ps_def [symmetric] split_join list.simps not_False_eq_True)
  have "list_all (\<lambda>p. dotless (split_on CHR ''/'' p)) ps" using assms(2) by (auto simp: ps_def list_all_iff)
  then have "dotless ?segs" using root(2) by (induction ps) (simp_all)
  then have f: "foldl join_step [] ?segs = rs @ more" using root(3) by (simp add: join_step_clean more_def)
  have e: "path_join (?root # parts) \<in> {segments_path (rs @ more), segments_path (rs @ more) @ ''/''}"
    unfolding path_join_def Let_def s f by (simp add: segments_path_def)
  have "list_all clean_segment more" by (auto simp: more_def list_all_iff)
  then show ?thesis using e by blast
qed

lemma render_parts: "component \<in> set component_paths \<Longrightarrow> dotless (split_on CHR ''/'' (component @ ''.html''))"
proof -
  have "list_all (\<lambda>component. dotless (split_on CHR ''/'' (component @ ''.html''))) component_paths" by code_simp
  then show "component \<in> set component_paths \<Longrightarrow> dotless (split_on CHR ''/'' (component @ ''.html''))"
    by (simp add: list_all_iff)
qed

lemma dotless_drop_prefix:
  "dotless (split_on CHR ''/'' s) \<Longrightarrow> take 17 s = ''/go_sword_public/'' \<Longrightarrow> dotless (split_on CHR ''/'' (drop 17 s))"
proof -
  assume d: "dotless (split_on CHR ''/'' s)" and t: "take 17 s = ''/go_sword_public/''"
  have "s = ''/go_sword_public'' @ CHR ''/'' # drop 17 s" using append_take_drop_id [of 17 s] t by simp
  then have "split_on CHR ''/'' s = split_on CHR ''/'' ''/go_sword_public'' @ split_on CHR ''/'' (drop 17 s)"
    using split_on_app by metis
  then show ?thesis using d by simp
qed

section \<open>Properties\<close>

text \<open>
  C27: The server hands out files of the repository only. Whatever target a client sends, dot segments
  in any spelling, backslashes and a foreign scheme or authority included, except one with an opaque
  path (a scheme that is not special and that no slash follows, as in \<open>a:../x\<close>), the file looked up lies below the
  repository root: its path is the root followed by segments none of which is empty, a dot or a double
  dot. An opaque path is not normalised and leaves the root (\<open>opaque_target_escapes\<close>).
\<close>

theorem static_files_contained:
  assumes "list_all clean_segment rs" and "url_parse valid target = Some (pathname, q)" and "\<not> opaque_target target"
    and "static_file rs pathname (search_params q) = Some f"
  shows "\<exists>more. list_all clean_segment more \<and> f \<in> {segments_path (rs @ more), segments_path (rs @ more) @ ''/''}"
proof -
  note d = url_parse_dotless [OF assms(2,3)]
  have c: "dotless (split_on CHR ''/'' ''admin/view'')" "dotless (split_on CHR ''/'' ''admin/view/login.html'')"
    "dotless (split_on CHR ''/'' ''admin/resource/dist'')" "dotless (split_on CHR ''/'' ''index.html'')" by code_simp+
  let ?root = "if rs = [] then ''/'' else segments_path rs"
  consider (render) component where "component \<in> set component_paths" "f = path_join [?root, ''admin/view'', component @ ''.html'']"
    | (login) "f = path_join [?root, ''admin/view/login.html'']"
    | (public) "take 17 pathname = ''/go_sword_public/''" "f = path_join [?root, drop 17 pathname]"
    | (dist) "f = path_join [?root, ''admin/resource/dist'', if pathname = ''/'' then ''index.html'' else pathname]"
    using assms(4) unfolding static_file_def Let_def by (auto simp del: split_on.simps split: if_splits option.splits)
  then obtain parts where "f = path_join (?root # parts)" "list_all (\<lambda>p. dotless (split_on CHR ''/'' p)) parts"
  proof cases
    case render
    then show thesis using that [of "[''admin/view'', component @ ''.html'']"] c(1) render_parts by (simp del: split_on.simps)
  next
    case login
    then show thesis using that [of "[''admin/view/login.html'']"] c(2) by (simp del: split_on.simps)
  next
    case public
    show thesis by (rule that [OF public(2)]) (simp only: list.pred_inject dotless_drop_prefix [OF d public(1)] simp_thms)
  next
    case dist
    then show thesis using that [of "[''admin/resource/dist'', if pathname = ''/'' then ''index.html'' else pathname]"] c(3,4) d
      by (simp del: split_on.simps)
  qed
  then show ?thesis using path_join_below [OF assms(1), of parts] by (simp only:)
qed

theorem static_files_contained_witness:
  "\<exists>more. list_all clean_segment more \<and>
     ''/srv/gotun/etc/passwd'' \<in> {segments_path ([''srv'', ''gotun''] @ more), segments_path ([''srv'', ''gotun''] @ more) @ ''/''}"
proof (rule static_files_contained)
  show "list_all clean_segment [''srv'', ''gotun'']" by code_simp
  show "url_parse (\<lambda>_ _. True) ''//h/go_sword_public/%2e%2e/../go_sword_public//etc/passwd?x=1'' = Some (''/go_sword_public//etc/passwd'', ''x=1'')"
    by code_simp
  show "\<not> opaque_target ''//h/go_sword_public/%2e%2e/../go_sword_public//etc/passwd?x=1''" by code_simp
  show "static_file [''srv'', ''gotun''] ''/go_sword_public//etc/passwd'' (search_params ''x=1'') = Some ''/srv/gotun/etc/passwd''"
    by code_simp
qed

text \<open>
  An opaque path keeps its dot segments, and \<open>path.join\<close> follows them out of the root: only an HTTP
  parser that refuses such targets keeps the handler inside.
\<close>

lemma opaque_target_escapes:
  "url_parse valid ''a:../../../../../etc/passwd'' = Some (''../../../../../etc/passwd'', [])"
  "static_file [''srv'', ''gotun''] ''../../../../../etc/passwd'' [] = Some ''/etc/passwd''"
proof -
  have "url_scheme ''a:../../../../../etc/passwd'' = Some (''a'', ''../../../../../etc/passwd'')"
    "opaque_encode ''../../../../../etc/passwd'' = ''../../../../../etc/passwd''" 
    "fst (cut CHR ''#'' (url_clean ''a:../../../../../etc/passwd'')) = ''a:../../../../../etc/passwd''"
    "cut CHR ''?'' ''a:../../../../../etc/passwd'' = (''a:../../../../../etc/passwd'', [])" by code_simp+
  then show "url_parse valid ''a:../../../../../etc/passwd'' = Some (''../../../../../etc/passwd'', [])"
    by (simp add: url_parse_def url_path_def other_path_def)
  show "static_file [''srv'', ''gotun''] ''../../../../../etc/passwd'' [] = Some ''/etc/passwd''" by code_simp
qed

text \<open>A request for a file that is not there ends the process: the header has been written by then.\<close>

lemma missing_file_crashes:
  assumes "st_disk st (segments_path (st_root st) @ ''/admin/resource/dist/favicon.ico'') = None" "st_root st = [''srv'', ''gotun'']"
  shows "handle st t0 t1 ''/favicon.ico'' body m = (Crashed, m)"
proof -
  have "url_parse v ''/favicon.ico'' = Some (''/favicon.ico'', [])" for v
  proof -
    have "fst (cut CHR ''#'' (url_clean ''/favicon.ico'')) = ''/favicon.ico''" "cut CHR ''?'' ''/favicon.ico'' = (''/favicon.ico'', [])"
      "url_scheme ''/favicon.ico'' = None" "backslashes ''/favicon.ico'' = ''/favicon.ico''" "url_pathname False ''/favicon.ico'' = ''/favicon.ico''"
      by code_simp+
    then show ?thesis by (simp add: url_parse_def url_path_def relative_path_def)
  qed
  moreover have "static_file [''srv'', ''gotun''] ''/favicon.ico'' (search_params []) = Some ''/srv/gotun/admin/resource/dist/favicon.ico''"
    "segments_path [''srv'', ''gotun''] = ''/srv/gotun''" by code_simp+
  ultimately show ?thesis using assms by (simp add: handle_def serve_file_def)
qed

end
