(* ===== verification/TunnelPage.thy ===== *)
theory TunnelPage
  imports UiSession
begin

text \<open>
  Two parts of the tunnel page, the script of \<open>src/admin/view/tunnel/list.html\<close>: the probe loop with
  its timers, and the name of a clone.

  Timers and promises are state: an interval is the session number its callback captured, a pending
  timeout a flag, a request in flight the value its handlers captured. The requests sent and the
  messages shown are kept in order.
\<close>

section \<open>The probe loop\<close>

datatype probe_message = ProbeStarted | ProbeStopped | ProbeError jsval

record probe_loop =
  probeEnabled :: bool
  probeTimer :: "nat option"
  probeRefreshTimer :: bool
  probePending :: bool
  probeSessionId :: nat
  probe_inflight :: "nat list"
  probes_sent :: nat
  list_refreshes :: nat
  probe_messages :: "probe_message list"

definition init_probe :: probe_loop where
  "init_probe =
     \<lparr>probeEnabled = False, probeTimer = None, probeRefreshTimer = False, probePending = False, probeSessionId = 0,
      probe_inflight = [], probes_sent = 0, list_refreshes = 0, probe_messages = []\<rparr>"

definition stopProbeLoop :: "probe_loop \<Rightarrow> probe_loop" where
  "stopProbeLoop s =
     s\<lparr>probeSessionId := Suc (probeSessionId s), probeEnabled := False, probeTimer := None, probeRefreshTimer := False,
       probePending := False\<rparr>"

definition fireProbe :: "nat \<Rightarrow> probe_loop \<Rightarrow> probe_loop" where
  "fireProbe sessionId s =
     (if sessionId \<noteq> probeSessionId s \<or> \<not> probeEnabled s \<or> probePending s then s
      else s\<lparr>probePending := True, probe_inflight := probe_inflight s @ [sessionId], probes_sent := Suc (probes_sent s)\<rparr>)"

definition invokeProbeToggle :: "probe_loop \<Rightarrow> probe_loop" where
  "invokeProbeToggle s =
     (if probeEnabled s then
        (let s1 = stopProbeLoop s in s1\<lparr>probe_messages := probe_messages s1 @ [ProbeStopped]\<rparr>)
      else
        (let sessionId = Suc (probeSessionId s);
             s1 = fireProbe sessionId (s\<lparr>probeSessionId := sessionId, probeEnabled := True\<rparr>)
         in s1\<lparr>probeTimer := Some sessionId, probe_messages := probe_messages s1 @ [ProbeStarted]\<rparr>))"

definition scheduleProbeListRefresh :: "probe_loop \<Rightarrow> probe_loop" where
  "scheduleProbeListRefresh s = s\<lparr>probeRefreshTimer := True\<rparr>"

text \<open>The reply of a probe: the handlers of \<open>fireProbe\<close> with the session they captured.\<close>

datatype probe_reply = ProbeRejected string | ProbeReply jsval jsval

definition probe_then :: "nat \<Rightarrow> probe_reply \<Rightarrow> probe_loop \<Rightarrow> probe_loop" where
  "probe_then sessionId r s =
     (if sessionId \<noteq> probeSessionId s \<or> \<not> probeEnabled s then s
      else (case r of
              ProbeRejected m \<Rightarrow>
                let s1 = s\<lparr>probe_messages := probe_messages s @ [ProbeError (JStr (if m = [] then ''probe request failed'' else m))]\<rparr>
                in stopProbeLoop s1
            | ProbeReply code msg \<Rightarrow>
                if code \<noteq> JNum 200 then stopProbeLoop (s\<lparr>probe_messages := probe_messages s @ [ProbeError msg]\<rparr>)
                else scheduleProbeListRefresh s))"

definition probe_finally :: "nat \<Rightarrow> probe_loop \<Rightarrow> probe_loop" where
  "probe_finally sessionId s = (if sessionId = probeSessionId s then s\<lparr>probePending := False\<rparr> else s)"

datatype probe_event = ToggleProbe | IntervalFires | RefreshFires | ProbeAnswer nat probe_reply | LeaveTunnelPage

fun probe_step :: "probe_loop \<Rightarrow> probe_event \<Rightarrow> probe_loop" where
  "probe_step s ToggleProbe = invokeProbeToggle s"
| "probe_step s IntervalFires = (case probeTimer s of None \<Rightarrow> s | Some sessionId \<Rightarrow> fireProbe sessionId s)"
| "probe_step s RefreshFires =
     (if probeRefreshTimer s then s\<lparr>probeRefreshTimer := False, list_refreshes := Suc (list_refreshes s)\<rparr> else s)"
| "probe_step s (ProbeAnswer i r) =
     (if i < length (probe_inflight s)
      then let sessionId = probe_inflight s ! i
           in probe_finally sessionId (probe_then sessionId r (s\<lparr>probe_inflight := remove_nth i (probe_inflight s)\<rparr>))
      else s)"
| "probe_step s LeaveTunnelPage = stopProbeLoop s"

section \<open>The name of a clone\<close>

text \<open>
  The loop of \<open>uniqueCloneName\<close>; \<open>names\<close> is an object literal, so inherited properties count as
  taken. \<open>None\<close>: no free name among the first \<open>fuel\<close> candidates.
\<close>

definition clone_name :: "string \<Rightarrow> nat \<Rightarrow> string" where
  "clone_name base i = base @ ''-copy'' @ (if i < 2 then [] else show_nat i)"

definition name_taken :: "string list \<Rightarrow> string \<Rightarrow> bool" where
  "name_taken names n \<longleftrightarrow> n \<in> set names \<or> n \<in> set object_prototype_keys"

fun clone_loop :: "nat \<Rightarrow> string list \<Rightarrow> string \<Rightarrow> nat \<Rightarrow> string option" where
  "clone_loop 0 names base i = None"
| "clone_loop (Suc fuel) names base i =
     (if name_taken names (clone_name base i) then clone_loop fuel names base (Suc i) else Some (clone_name base i))"

definition uniqueCloneName :: "nat \<Rightarrow> row list \<Rightarrow> string \<Rightarrow> string option" where
  "uniqueCloneName fuel rows base = clone_loop fuel (map (\<lambda>r. js_string (row_name r)) rows) base 1"

section \<open>Library: the probe loop\<close>

definition probe_inv :: "probe_loop \<Rightarrow> bool" where
  "probe_inv s \<longleftrightarrow>
     list_all (\<lambda>i. i \<le> probeSessionId s) (probe_inflight s) \<and>
     length (filter (\<lambda>i. i = probeSessionId s) (probe_inflight s)) = (if probePending s then 1 else 0) \<and>
     (probeEnabled s \<longrightarrow> probeTimer s = Some (probeSessionId s)) \<and>
     (\<not> probeEnabled s \<longrightarrow> probeTimer s = None \<and> \<not> probeRefreshTimer s \<and> \<not> probePending s)"

lemma filter_above: "list_all (\<lambda>i. i \<le> n) xs \<Longrightarrow> filter (\<lambda>i. i = Suc n) xs = []"
  by (auto simp: filter_empty_conv list_all_iff)

lemma stop_inv: "list_all (\<lambda>i. i \<le> probeSessionId s) (probe_inflight s) \<Longrightarrow> probe_inv (stopProbeLoop s)"
  by (auto simp: probe_inv_def stopProbeLoop_def filter_above list_all_iff)

lemma fire_inv: "probe_inv s \<Longrightarrow> probe_inv (fireProbe i s)"
  by (auto simp: probe_inv_def fireProbe_def)

lemma toggle_inv:
  assumes "probe_inv s"
  shows "probe_inv (invokeProbeToggle s)"
proof (cases "probeEnabled s")
  case True
  have "list_all (\<lambda>i. i \<le> probeSessionId s) (probe_inflight s)" using assms by (simp add: probe_inv_def)
  from stop_inv [OF this] show ?thesis using True by (simp add: invokeProbeToggle_def Let_def probe_inv_def)
next
  case False
  then show ?thesis using assms
    by (auto simp: invokeProbeToggle_def Let_def fireProbe_def probe_inv_def filter_above list_all_iff)
qed

lemma answer_probe_inv:
  assumes "probe_inv s" "i < length (probe_inflight s)"
  shows "probe_inv (probe_step s (ProbeAnswer i r))"
proof -
  define k where "k = probe_inflight s ! i"
  define q where "q = s\<lparr>probe_inflight := remove_nth i (probe_inflight s)\<rparr>"
  have q: "list_all (\<lambda>i. i \<le> probeSessionId q) (probe_inflight q)"
    using assms(1) set_remove_nth_subset [of i "probe_inflight s"] by (auto simp: probe_inv_def q_def list_all_iff)
  have c: "length (filter (\<lambda>j. j = probeSessionId q) (probe_inflight q)) + (if k = probeSessionId q then 1 else 0) = (if probePending q then 1 else 0)"
    using assms filter_remove_nth_length [OF assms(2), of "\<lambda>j. j = probeSessionId s"] by (simp add: probe_inv_def q_def k_def)
  have step: "probe_step s (ProbeAnswer i r) = probe_finally k (probe_then k r q)" using assms(2) by (simp add: k_def q_def Let_def)
  show ?thesis
  proof (cases "k = probeSessionId q \<and> probeEnabled q")
    case False
    then have "probe_then k r q = q" by (auto simp: probe_then_def)
    then show ?thesis using assms(1) q c False unfolding step
      by (auto simp: probe_finally_def probe_inv_def q_def split: if_splits)
  next
    case True
    have st: "probe_inv (probe_finally k (stopProbeLoop (q\<lparr>probe_messages := ms\<rparr>)))" for ms
      using stop_inv [of "q\<lparr>probe_messages := ms\<rparr>"] q True by (simp add: probe_finally_def stopProbeLoop_def)
    have "probe_inv (probe_finally k (scheduleProbeListRefresh q))"
      using assms(1) q c True by (auto simp: probe_finally_def scheduleProbeListRefresh_def probe_inv_def q_def split: if_splits)
    then show ?thesis using True st unfolding step probe_then_def by (auto simp: Let_def split: probe_reply.splits)
  qed
qed

lemma probe_step_inv:
  assumes "probe_inv s"
  shows "probe_inv (probe_step s e)"
proof (cases e)
  case ToggleProbe
  then show ?thesis using toggle_inv [OF assms] by simp
next
  case IntervalFires
  then show ?thesis using assms fire_inv by (auto split: option.splits)
next
  case RefreshFires
  then show ?thesis using assms by (auto simp: probe_inv_def split: if_splits)
next
  case (ProbeAnswer i r)
  then show ?thesis using assms answer_probe_inv [of s i r] by (cases "i < length (probe_inflight s)") simp_all
next
  case LeaveTunnelPage
  then show ?thesis using assms stop_inv by (simp add: probe_inv_def)
qed

lemma probe_run_inv: "probe_inv s \<Longrightarrow> probe_inv (foldl probe_step s es)"
  by (induction es arbitrary: s) (simp_all add: probe_step_inv del: probe_step.simps)

lemma init_probe_inv: "probe_inv init_probe"
  by (simp add: probe_inv_def init_probe_def)

lemma off_step:
  assumes "probe_inv s" "\<not> probeEnabled s" "e \<noteq> ToggleProbe"
  shows "\<not> probeEnabled (probe_step s e) \<and> probes_sent (probe_step s e) = probes_sent s \<and> list_refreshes (probe_step s e) = list_refreshes s"
  using assms
  by (cases e) (auto simp: probe_inv_def probe_then_def probe_finally_def stopProbeLoop_def Let_def)

lemma off_run:
  "probe_inv s \<Longrightarrow> \<not> probeEnabled s \<Longrightarrow> ToggleProbe \<notin> set es \<Longrightarrow>
   \<not> probeEnabled (foldl probe_step s es) \<and> probes_sent (foldl probe_step s es) = probes_sent s \<and>
   list_refreshes (foldl probe_step s es) = list_refreshes s"
proof (induction es arbitrary: s)
  case (Cons e es)
  then have "e \<noteq> ToggleProbe" by auto
  with Cons show ?case using off_step [of s e] probe_step_inv [of s e] by (simp del: probe_step.simps)
qed simp

section \<open>Library: clone names\<close>

lemma show_nat_inject: "show_nat a = show_nat b \<longleftrightarrow> a = b"
proof
  assume "show_nat a = show_nat b"
  then have "digits_value (show_nat a) 0 = digits_value (show_nat b) 0" by (simp only:)
  then have "Some (int a) = Some (int b)" unfolding digits_value_show_nat .
  then show "a = b" by simp
qed simp

lemma clone_name_inject:
  assumes "0 < i" "0 < j" "clone_name base i = clone_name base j"
  shows "i = j"
proof -
  have e: "(if i < 2 then [] else show_nat i) = (if j < 2 then [] else show_nat j)" using assms(3) by (simp add: clone_name_def)
  show ?thesis
  proof (cases "i < 2 \<or> j < 2")
    case True
    then have "i < 2 \<and> j < 2" using e show_nat_nonempty [of i] show_nat_nonempty [of j] by (auto split: if_splits)
    then show ?thesis using assms(1,2) by simp
  next
    case False
    then show ?thesis using e by (simp add: show_nat_inject)
  qed
qed

lemma clone_name_not_inherited: "clone_name base i \<notin> set object_prototype_keys"
proof
  assume "clone_name base i \<in> set object_prototype_keys"
  moreover have "list_all (\<lambda>k. CHR ''-'' \<notin> set k) object_prototype_keys" by code_simp
  ultimately have "CHR ''-'' \<notin> set (clone_name base i)" by (simp add: list_all_iff)
  then show False by (simp add: clone_name_def)
qed

lemma clone_loop_None: "clone_loop fuel names base i = None \<Longrightarrow> j < fuel \<Longrightarrow> clone_name base (i + j) \<in> set names"
proof (induction fuel arbitrary: i j)
  case (Suc fuel)
  then have t: "clone_name base i \<in> set names" "clone_loop fuel names base (Suc i) = None"
    using clone_name_not_inherited [of base i] by (auto simp: name_taken_def split: if_splits)
  then show ?case using Suc.IH [OF t(2), of "j - 1"] Suc.prems(2) by (cases j) auto
qed simp

lemma clone_loop_Some: "clone_loop fuel names base i = Some n \<Longrightarrow> \<exists>j<fuel. n = clone_name base (i + j) \<and> n \<notin> set names"
proof (induction fuel arbitrary: i)
  case (Suc fuel)
  show ?case
  proof (cases "name_taken names (clone_name base i)")
    case True
    then have "clone_loop fuel names base (Suc i) = Some n" using Suc.prems by simp
    then obtain j where "j < fuel" "n = clone_name base (Suc i + j)" "n \<notin> set names" using Suc.IH by blast
    then show ?thesis by (intro exI [of _ "Suc j"]) simp
  next
    case False
    then show ?thesis using Suc.prems by (intro exI [of _ 0]) (simp add: name_taken_def)
  qed
qed simp

lemma unique_name_found: "\<exists>n. uniqueCloneName (Suc (length rows)) rows base = Some n"
proof (rule ccontr)
  assume "\<nexists>n. uniqueCloneName (Suc (length rows)) rows base = Some n"
  then have None: "uniqueCloneName (Suc (length rows)) rows base = None" by simp
  let ?names = "map (\<lambda>r. js_string (row_name r)) rows"
  have "(\<lambda>j. clone_name base (1 + j)) ` {..<Suc (length rows)} \<subseteq> set ?names"
    using clone_loop_None [of "Suc (length rows)" ?names base 1] None unfolding uniqueCloneName_def by blast
  then have "card ((\<lambda>j. clone_name base (1 + j)) ` {..<Suc (length rows)}) \<le> card (set ?names)" by (intro card_mono) simp_all
  moreover have "inj_on (\<lambda>j. clone_name base (1 + j)) {..<Suc (length rows)}"
  proof (rule inj_onI)
    fix x y assume "clone_name base (1 + x) = clone_name base (1 + y)"
    then show "x = y" using clone_name_inject [of "1 + x" "1 + y" base] by simp
  qed
  then have "card ((\<lambda>j. clone_name base (1 + j)) ` {..<Suc (length rows)}) = Suc (length rows)" by (simp add: card_image)
  ultimately show False using card_length [of ?names] by simp
qed

lemma unique_name_fresh:
  "uniqueCloneName fuel rows base = Some n \<Longrightarrow> (\<exists>i. n = clone_name base i) \<and> list_all (\<lambda>r. js_string (row_name r) \<noteq> n) rows"
proof -
  assume "uniqueCloneName fuel rows base = Some n"
  then obtain j where j: "n = clone_name base (1 + j)" "n \<notin> set (map (\<lambda>r. js_string (row_name r)) rows)"
    using clone_loop_Some unfolding uniqueCloneName_def by blast
  then have "list_all (\<lambda>r. js_string (row_name r) \<noteq> n) rows" using j(2) unfolding list_all_iff set_map by (metis imageI)
  then show ?thesis using j(1) by blast
qed

section \<open>Properties of the probe loop and of cloning\<close>

text \<open>
  C30: Probing stops. Once the probe loop is off - switched off, ended by an error, or left with the
  page - nothing but switching it on again sends another probe or reloads the list on its account:
  not the interval, not a pending refresh, not the reply of a probe still under way. While it is on,
  at most one probe of the session is in flight, and none exactly if the next tick may send one.
\<close>

theorem probe_loop_stops:
  assumes "s = foldl probe_step init_probe before" and "ToggleProbe \<notin> set after"
  shows "length (filter (\<lambda>i. i = probeSessionId s) (probe_inflight s)) = (if probePending s then 1 else 0) \<and>
    (probeEnabled s \<or> probes_sent (foldl probe_step s after) = probes_sent s \<and> list_refreshes (foldl probe_step s after) = list_refreshes s)"
  using off_run [of s after] probe_run_inv [OF init_probe_inv, of before] assms by (auto simp: probe_inv_def)

theorem probe_loop_stops_witness:
  "let s = foldl probe_step init_probe [ToggleProbe, IntervalFires, LeaveTunnelPage]
   in probes_sent (foldl probe_step s [IntervalFires, ProbeAnswer 0 (ProbeReply (JNum 200) Undefined), RefreshFires, IntervalFires]) = 1"
proof -
  let ?s = "foldl probe_step init_probe [ToggleProbe, IntervalFires, LeaveTunnelPage]"
  have "\<not> probeEnabled ?s" "probes_sent ?s = 1"
    by (simp_all add: init_probe_def invokeProbeToggle_def fireProbe_def stopProbeLoop_def)
  then show ?thesis
    using probe_loop_stops [of ?s "[ToggleProbe, IntervalFires, LeaveTunnelPage]"
        "[IntervalFires, ProbeAnswer 0 (ProbeReply (JNum 200) Undefined), RefreshFires, IntervalFires]"]
    by (simp add: Let_def del: probe_step.simps)
qed

text \<open>
  Cloning finds a free name. The loop ends within one more round than there are rows; the name is
  the row's with \<open>-copy\<close> and possibly a number behind it, and no row of the list has it.
\<close>

theorem clone_name_free:
  "\<exists>n i. uniqueCloneName (Suc (length rows)) rows base = Some n \<and> n = clone_name base i \<and>
     list_all (\<lambda>r. js_string (row_name r) \<noteq> n) rows"
  using unique_name_found [of rows base] unique_name_fresh [of "Suc (length rows)" rows base] by blast

end
