(* ===== verification/TunnelForm.thy ===== *)
theory TunnelForm
  imports UiSession
begin

text \<open>
  The tunnel form: the defaults of \<open>TunnelFormHelper\<close> in \<open>src/admin/view/layout/default.html\<close>, the edit
  page \<open>src/admin/view/tunnel/edit.html\<close> and the create page \<open>src/admin/view/tunnel/create.html\<close>.

  The two pages share the form (the create page has no \<open>uuid\<close>) and its methods; a page is the record
  \<open>form_page\<close> and its requests are answered as those of the list pages. The fields of the form are
  strings, as the inputs of the page keep them. Chinese messages are constructors of \<open>form_text\<close>.
\<close>

section \<open>Defaults of a side\<close>

record side_defaults =
  protoCfg :: string
  sideExtend :: string

definition buildMuxFrameExtend :: string where
  "buildMuxFrameExtend = ''{\"mux_conn\":10,\"frame_header_enable\":true}''"

definition buildFrameOnlyExtend :: string where
  "buildFrameOnlyExtend = ''{\"frame_header_enable\":true}''"

definition kcp_in_cfg :: string where
  "kcp_in_cfg =
     ''{\"write_delay\":true,\"mtu\":990,\"sndwnd\":1024,\"rcvwnd\":1024,\"datashard\":0,\"parityshard\":0,\"dscp\":46,\"acknodelay\"'' @
     '':false,\"nodelay\":1,\"interval\":30,\"resend\":2,\"nc\":0,\"sockbuf\":16777217,\"streambuf\":4194304}''"

definition kcp_out_cfg :: string where
  "kcp_out_cfg =
     ''{\"write_delay\":true,\"mtu\":990,\"sndwnd\":2048,\"rcvwnd\":1024,\"datashard\":0,\"parityshard\":0,\"dscp\":46,\"acknodelay\"'' @
     '':false,\"nodelay\":1,\"interval\":30,\"resend\":2,\"nc\":0,\"sockbuf\":16777217,\"streambuf\":4194304}''"

definition kcpxProtoCfg :: string where
  "kcpxProtoCfg =
     ''{\"write_delay\":true,\"mtu\":990,\"sndwnd\":1024,\"rcvwnd\":1024,\"datashard\":0,\"parityshard\":0,\"dscp\":46,\"acknodelay\"'' @
     '':false,\"nodelay\":1,\"interval\":30,\"resend\":2,\"nc\":0,\"sockbuf\":16777217,\"streambuf\":4194304,\"handshake_timeout_m'' @
     ''s\":10000,\"handshake_retry_interval_ms\":500,\"handshake_max_retries\":20,\"heartbeat_interval_ms\":10000,\"heartbeat'' @
     ''_timeout_ms\":30000,\"reconnect_retry_interval_ms\":500,\"reconnect_max_retries\":20,\"enable_auto_reconnect\":true}''"

definition socks5x_cfg :: string where
  "socks5x_cfg = ''{\"username\":\"\",\"password\":\"\",\"tcp_timeout\":500,\"udp_advertised_ip\":\"\",\"udp_advertised_port\":0}''"

definition getInputDefaults :: "string \<Rightarrow> string \<Rightarrow> string \<Rightarrow> side_defaults" where
  "getInputDefaults proto kcpx frameExtend =
     (let p = normalizeProto proto in
      if p = ''tcp'' then \<lparr>protoCfg = ''{\"head\":\"\"}'', sideExtend = []\<rparr>
      else if p = ''tcp_mux'' then \<lparr>protoCfg = ''{\"head\":\"\"}'', sideExtend = frameExtend\<rparr>
      else if p = ''udp'' then \<lparr>protoCfg = ''{\"timeout\":90}'', sideExtend = []\<rparr>
      else if p = ''quic'' then \<lparr>protoCfg = [], sideExtend = frameExtend\<rparr>
      else if p = ''kcp'' then \<lparr>protoCfg = kcp_in_cfg, sideExtend = []\<rparr>
      else if p = ''kcp_mux'' then \<lparr>protoCfg = kcp_in_cfg, sideExtend = frameExtend\<rparr>
      else if p = ''kcpx'' then \<lparr>protoCfg = kcpx, sideExtend = []\<rparr>
      else if p = ''kcpx_mux'' then \<lparr>protoCfg = kcpx, sideExtend = frameExtend\<rparr>
      else if p = ''socks5x'' then \<lparr>protoCfg = socks5x_cfg, sideExtend = []\<rparr>
      else \<lparr>protoCfg = [], sideExtend = []\<rparr>)"

definition getOutputDefaults :: "string \<Rightarrow> string \<Rightarrow> string \<Rightarrow> side_defaults" where
  "getOutputDefaults proto kcpx muxFrameExtend =
     (let p = normalizeProto proto in
      if p = ''tcp'' then \<lparr>protoCfg = ''{\"head\":\"\"}'', sideExtend = []\<rparr>
      else if p = ''tcp_mux'' then \<lparr>protoCfg = ''{\"head\":\"\"}'', sideExtend = muxFrameExtend\<rparr>
      else if p = ''udp'' then \<lparr>protoCfg = ''{\"timeout\":90}'', sideExtend = []\<rparr>
      else if p = ''quic'' then \<lparr>protoCfg = [], sideExtend = muxFrameExtend\<rparr>
      else if p = ''kcp'' then \<lparr>protoCfg = kcp_out_cfg, sideExtend = []\<rparr>
      else if p = ''kcp_mux'' then \<lparr>protoCfg = kcp_out_cfg, sideExtend = muxFrameExtend\<rparr>
      else if p = ''kcpx'' then \<lparr>protoCfg = kcpx, sideExtend = []\<rparr>
      else if p = ''kcpx_mux'' then \<lparr>protoCfg = kcpx, sideExtend = muxFrameExtend\<rparr>
      else \<lparr>protoCfg = [], sideExtend = []\<rparr>)"

definition getSideDefaults :: "string \<Rightarrow> string \<Rightarrow> string \<Rightarrow> string \<Rightarrow> string \<Rightarrow> side_defaults" where
  "getSideDefaults side proto mode kcpx muxFrameExtend =
     (let s = (if side = ''out'' then ''out'' else ''in''); m = normalizeMode mode in
      if s = ''in'' \<and> m = ''frpc'' then getOutputDefaults proto kcpx muxFrameExtend
      else if s = ''out'' \<and> m = ''frps'' then getInputDefaults proto kcpx buildFrameOnlyExtend
      else if s = ''in'' then getInputDefaults proto kcpx buildFrameOnlyExtend
      else getOutputDefaults proto kcpx muxFrameExtend)"

section \<open>The form\<close>

record tunnel_form =
  f_uuid :: string
  f_name :: string
  f_disabled :: bool
  f_mode :: string
  f_in_proto :: string
  f_in_addr :: string
  f_in_proto_cfg :: string
  f_in_decrypt_mode :: string
  f_in_decrypt_key :: string
  f_in_extend :: string
  f_out_proto :: string
  f_out_addr :: string
  f_out_proto_cfg :: string
  f_out_crypt_mode :: string
  f_out_crypt_key :: string
  f_out_extend :: string

definition edit_blank :: tunnel_form where
  "edit_blank =
     \<lparr>f_uuid = [], f_name = [], f_disabled = False, f_mode = ''default'', f_in_proto = ''tcp'', f_in_addr = [], f_in_proto_cfg = [],
      f_in_decrypt_mode = ''none'', f_in_decrypt_key = [], f_in_extend = [], f_out_proto = ''tcp'', f_out_addr = [],
      f_out_proto_cfg = [], f_out_crypt_mode = ''none'', f_out_crypt_key = [], f_out_extend = []\<rparr>"

definition create_blank :: tunnel_form where
  "create_blank =
     \<lparr>f_uuid = [], f_name = ''tcp'' @ utf8 [229, 174, 162, 230, 136, 183, 231, 171, 175], f_disabled = False, f_mode = ''default'', f_in_proto = ''tcp'',
      f_in_addr = ''0.0.0.0:4000'', f_in_proto_cfg = [], f_in_decrypt_mode = ''none'', f_in_decrypt_key = [], f_in_extend = [],
      f_out_proto = ''tcp_mux'', f_out_addr = ''127.0.0.1:9999'', f_out_proto_cfg = [], f_out_crypt_mode = ''none'',
      f_out_crypt_key = ''goodweather'', f_out_extend = []\<rparr>"

definition syncInputDefaults :: "tunnel_form \<Rightarrow> tunnel_form" where
  "syncInputDefaults f =
     (let d = getSideDefaults ''in'' (f_in_proto f) (f_mode f) kcpxProtoCfg buildMuxFrameExtend
      in f\<lparr>f_in_proto_cfg := protoCfg d, f_in_extend := sideExtend d\<rparr>)"

definition syncOutputDefaults :: "tunnel_form \<Rightarrow> tunnel_form" where
  "syncOutputDefaults f =
     (let d = getSideDefaults ''out'' (f_out_proto f) (f_mode f) kcpxProtoCfg buildMuxFrameExtend
      in f\<lparr>f_out_proto_cfg := protoCfg d, f_out_extend := sideExtend d\<rparr>)"

definition handleModeChange :: "tunnel_form \<Rightarrow> tunnel_form" where
  "handleModeChange f = syncOutputDefaults (syncInputDefaults f)"

definition handleInputProtoChange :: "tunnel_form \<Rightarrow> tunnel_form" where
  "handleInputProtoChange f = syncInputDefaults (f\<lparr>f_in_addr := getDefaultInAddr (f_in_proto f)\<rparr>)"

definition handleOutputProtoChange :: "tunnel_form \<Rightarrow> tunnel_form" where
  "handleOutputProtoChange f = syncOutputDefaults f"

definition initForm :: "object \<Rightarrow> tunnel_form" where
  "initForm source =
     (case (splitEndpoint (text_prop ''input'' source) ''tcp'', splitEndpoint (text_prop ''output'' source) ''tcp'') of
        ((in_proto, in_addr), (out_proto, out_addr)) \<Rightarrow>
          \<lparr>f_uuid = text_prop ''uuid'' source, f_name = text_prop ''name'' source,
           f_disabled = json_truthy (str_prop ''disabled'' source), f_mode = normalizeMode (text_prop ''mode'' source),
           f_in_proto = (if in_proto = [] then ''tcp'' else in_proto), f_in_addr = in_addr,
           f_in_proto_cfg = text_prop ''in_proto_cfg'' source,
           f_in_decrypt_mode = normalizeCryptMode (text_prop ''in_decrypt_mode'' source),
           f_in_decrypt_key = text_prop ''in_decrypt_key'' source, f_in_extend = text_prop ''in_extend'' source,
           f_out_proto = (if out_proto = [] then ''tcp'' else out_proto), f_out_addr = out_addr,
           f_out_proto_cfg = text_prop ''out_proto_cfg'' source,
           f_out_crypt_mode = normalizeCryptMode (text_prop ''out_crypt_mode'' source),
           f_out_crypt_key = text_prop ''out_crypt_key'' source, f_out_extend = text_prop ''out_extend'' source\<rparr>)"

text \<open>The payload of the create page; the edit page sends the \<open>uuid\<close> before it.\<close>

definition create_payload :: "tunnel_form \<Rightarrow> object" where
  "create_payload f =
     [(''name'', JString (f_name f)), (''disabled'', JBoolean (f_disabled f)), (''mode'', JString (f_mode f)),
      (''input'', JString (buildEndpoint (f_in_proto f) (f_in_addr f))), (''in_proto_cfg'', JString (f_in_proto_cfg f)),
      (''in_decrypt_mode'', JString (f_in_decrypt_mode f)), (''in_decrypt_key'', JString (f_in_decrypt_key f)),
      (''in_extend'', JString (f_in_extend f)),
      (''output'', JString (buildEndpoint (f_out_proto f) (f_out_addr f))), (''out_proto_cfg'', JString (f_out_proto_cfg f)),
      (''out_crypt_mode'', JString (f_out_crypt_mode f)), (''out_crypt_key'', JString (f_out_crypt_key f)),
      (''out_extend'', JString (f_out_extend f))]"

definition buildPayload :: "tunnel_form \<Rightarrow> object" where
  "buildPayload f = (''uuid'', JString (f_uuid f)) # create_payload f"

text \<open>
  The framing the defaults choose depends on the protocol alone, not on side or mode, so that two ends
  set up for the same protocol both use the frame header or both do without.
\<close>

lemma defaults_framing:
  "sideExtend (getSideDefaults side p m k buildMuxFrameExtend) = [] \<longleftrightarrow> normalizeProto p \<notin> {''tcp_mux'', ''quic'', ''kcp_mux'', ''kcpx_mux''}"
  "sideExtend (getSideDefaults side p m k buildMuxFrameExtend) \<in> {[], buildMuxFrameExtend, buildFrameOnlyExtend}"
proof -
  have ne: "buildMuxFrameExtend \<noteq> []" "buildFrameOnlyExtend \<noteq> []" by (simp_all add: buildMuxFrameExtend_def buildFrameOnlyExtend_def)
  have "sideExtend (getInputDefaults p k buildFrameOnlyExtend) = [] \<longleftrightarrow> normalizeProto p \<notin> {''tcp_mux'', ''quic'', ''kcp_mux'', ''kcpx_mux''}"
    "sideExtend (getOutputDefaults p k buildMuxFrameExtend) = [] \<longleftrightarrow> normalizeProto p \<notin> {''tcp_mux'', ''quic'', ''kcp_mux'', ''kcpx_mux''}"
    by (auto simp: getInputDefaults_def getOutputDefaults_def Let_def ne)
  then show "sideExtend (getSideDefaults side p m k buildMuxFrameExtend) = [] \<longleftrightarrow> normalizeProto p \<notin> {''tcp_mux'', ''quic'', ''kcp_mux'', ''kcpx_mux''}"
    by (simp add: getSideDefaults_def Let_def)
  show "sideExtend (getSideDefaults side p m k buildMuxFrameExtend) \<in> {[], buildMuxFrameExtend, buildFrameOnlyExtend}"
    by (simp add: getSideDefaults_def getInputDefaults_def getOutputDefaults_def Let_def)
qed

section \<open>The pages\<close>

datatype form_text =
    FormText string | RequiredFields | LoadingConfig | MissingTunnelName | NoSuchTunnel | ConfigLoadFailed
  | ConfigFailed | FormSaveFailed | FormRequestFailed | FormSaved

datatype form_wait = ConfigWait string | SaveWait

text \<open>\<open>fp_location\<close> is the route the page pushed, \<open>fp_posts\<close> the requests it made.\<close>

record form_page =
  fp_form :: tunnel_form
  fp_saving :: bool
  fp_error :: "form_text option"
  fp_location :: "string option"
  fp_waiting :: "form_wait list"
  fp_posts :: "(string \<times> object) list"
  fp_messages :: "(bool \<times> form_text) list"

definition blank_page :: "tunnel_form \<Rightarrow> form_page" where
  "blank_page f =
     \<lparr>fp_form = f, fp_saving = False, fp_error = None, fp_location = None, fp_waiting = [], fp_posts = [], fp_messages = []\<rparr>"

definition create_created :: form_page where
  "create_created = blank_page (syncOutputDefaults (syncInputDefaults create_blank))"

text \<open>The \<open>created\<close> hook of the edit page: the configuration passed by the router, or the name in the URL.\<close>

definition edit_created :: "object option \<Rightarrow> string \<Rightarrow> form_page" where
  "edit_created data name =
     (let s = blank_page edit_blank in
      case data of
        Some source \<Rightarrow> s\<lparr>fp_form := initForm source\<rparr>
      | None \<Rightarrow>
          if name = [] then s\<lparr>fp_error := Some MissingTunnelName\<rparr>
          else s\<lparr>fp_error := Some LoadingConfig, fp_posts := [(''/api/tunnel/list'', [])], fp_waiting := [ConfigWait name]\<rparr>)"

text \<open>A reply the page reads: rejected with a message, or code, message and rows.\<close>

datatype form_reply = FormRejected string | FormReply jsval jsval "object list option"

definition error_of_reply :: "form_text \<Rightarrow> jsval \<Rightarrow> jsval \<Rightarrow> form_text option" where
  "error_of_reply dflt code msg =
     (if code \<noteq> JNum 200 then Some (if js_truthy msg then FormText (js_string msg) else dflt) else None)"

definition config_answer :: "string \<Rightarrow> form_reply \<Rightarrow> form_page \<Rightarrow> form_page" where
  "config_answer name r s =
     (case r of
        FormRejected m \<Rightarrow> s\<lparr>fp_error := Some (if m = [] then ConfigLoadFailed else FormText m)\<rparr>
      | FormReply code msg rows \<Rightarrow>
          (case error_of_reply ConfigFailed code msg of
             Some e \<Rightarrow> s\<lparr>fp_error := Some e\<rparr>
           | None \<Rightarrow>
               (case find (\<lambda>row. str_prop ''name'' row = Some (JString name)) (case rows of None \<Rightarrow> [] | Some xs \<Rightarrow> xs) of
                  None \<Rightarrow> s\<lparr>fp_error := Some NoSuchTunnel\<rparr>
                | Some row \<Rightarrow> s\<lparr>fp_form := initForm row, fp_error := None\<rparr>)))"

definition form_showError :: "form_text \<Rightarrow> form_page \<Rightarrow> form_page" where
  "form_showError e s = s\<lparr>fp_messages := fp_messages s @ [(False, if e = FormText [] then FormRequestFailed else e)]\<rparr>"

definition goSave :: "bool \<Rightarrow> form_page \<Rightarrow> form_page" where
  "goSave editing s =
     (if fp_saving s then s
      else if trim (f_name (fp_form s)) = [] \<or> trim (f_in_addr (fp_form s)) = [] \<or> trim (f_out_addr (fp_form s)) = []
      then form_showError RequiredFields s
      else s\<lparr>fp_saving := True,
             fp_posts := fp_posts s @ [if editing then (''/api/tunnel/edit'', buildPayload (fp_form s))
                                       else (''/api/tunnel/create'', create_payload (fp_form s))],
             fp_waiting := fp_waiting s @ [SaveWait]\<rparr>)"

definition save_answer :: "form_reply \<Rightarrow> form_page \<Rightarrow> form_page" where
  "save_answer r s =
     (let s1 = (case r of
                  FormRejected m \<Rightarrow> form_showError (FormText m) s
                | FormReply code msg rows \<Rightarrow>
                    (case error_of_reply FormSaveFailed code msg of
                       Some e \<Rightarrow> form_showError e s
                     | None \<Rightarrow> s\<lparr>fp_messages := fp_messages s @ [(True, FormSaved)], fp_location := Some ''/tunnel/list''\<rparr>))
      in s1\<lparr>fp_saving := False\<rparr>)"

definition goBack :: "form_page \<Rightarrow> form_page" where
  "goBack s = s\<lparr>fp_location := Some ''/tunnel/list''\<rparr>"

datatype form_event =
    FillForm "tunnel_form \<Rightarrow> tunnel_form" | ModeChosen string | InputProtoChosen string | OutputProtoChosen string
  | SaveForm | GoBack | FormAnswer nat form_reply

text \<open>\<open>FillForm\<close> is typing into the fields; \<open>editing\<close> tells the two pages apart.\<close>

fun form_step :: "bool \<Rightarrow> form_page \<Rightarrow> form_event \<Rightarrow> form_page" where
  "form_step editing s (FillForm g) = s\<lparr>fp_form := g (fp_form s)\<rparr>"
| "form_step editing s (ModeChosen m) = s\<lparr>fp_form := handleModeChange ((fp_form s)\<lparr>f_mode := m\<rparr>)\<rparr>"
| "form_step editing s (InputProtoChosen p) = s\<lparr>fp_form := handleInputProtoChange ((fp_form s)\<lparr>f_in_proto := p\<rparr>)\<rparr>"
| "form_step editing s (OutputProtoChosen p) = s\<lparr>fp_form := handleOutputProtoChange ((fp_form s)\<lparr>f_out_proto := p\<rparr>)\<rparr>"
| "form_step editing s SaveForm = goSave editing s"
| "form_step editing s GoBack = goBack s"
| "form_step editing s (FormAnswer i r) =
     (if i < length (fp_waiting s) then
        (let s1 = s\<lparr>fp_waiting := remove_nth i (fp_waiting s)\<rparr> in
         case fp_waiting s ! i of ConfigWait name \<Rightarrow> config_answer name r s1 | SaveWait \<Rightarrow> save_answer r s1)
      else s)"

section \<open>Library: the form keeps a configuration\<close>

text \<open>A configuration as the form writes it.\<close>

definition canonical_endpoint :: "json option \<Rightarrow> bool" where
  "canonical_endpoint v \<longleftrightarrow>
     (\<exists>p a. v = Some (JString (p @ ''@'' @ a)) \<and> CHR ''@'' \<notin> set p \<and> p \<noteq> [] \<and> normalizeProto p = p \<and> trim a = a)"

definition canonical_config :: "object \<Rightarrow> bool" where
  "canonical_config ob \<longleftrightarrow>
     canonical_endpoint (str_prop ''input'' ob) \<and> canonical_endpoint (str_prop ''output'' ob) \<and>
     list_all (\<lambda>k. \<exists>s. str_prop k ob = Some (JString s))
       [''uuid'', ''name'', ''in_proto_cfg'', ''in_decrypt_key'', ''in_extend'', ''out_proto_cfg'', ''out_crypt_key'', ''out_extend''] \<and>
     (\<exists>b. str_prop ''disabled'' ob = Some (JBoolean b)) \<and>
     str_prop ''mode'' ob \<in> (Some \<circ> JString) ` {''default'', ''frpc'', ''frps''} \<and>
     str_prop ''in_decrypt_mode'' ob \<in> (Some \<circ> JString) ` {''none'', ''gcm''} \<and>
     str_prop ''out_crypt_mode'' ob \<in> (Some \<circ> JString) ` {''none'', ''gcm''}"

definition form_keys :: "string list" where
  "form_keys =
     [''uuid'', ''name'', ''disabled'', ''mode'', ''input'', ''in_proto_cfg'', ''in_decrypt_mode'', ''in_decrypt_key'', ''in_extend'',
      ''output'', ''out_proto_cfg'', ''out_crypt_mode'', ''out_crypt_key'', ''out_extend'']"

lemma text_prop_string [simp]: "str_prop k ob = Some (JString s) \<Longrightarrow> text_prop k ob = s"
  by (simp add: text_prop_def prop_string_def)

lemma modes_fixed:
  "m \<in> {''default'', ''frpc'', ''frps''} \<Longrightarrow> normalizeMode m = m" "c \<in> {''none'', ''gcm''} \<Longrightarrow> normalizeCryptMode c = c"
  by (auto simp: normalizeMode_def normalizeCryptMode_def lower_def lower_char_def)

lemma endpoint_form:
  assumes "CHR ''@'' \<notin> set p" "normalizeProto p = p" "trim a = a"
  shows "splitEndpoint (p @ ''@'' @ a) fb = (p, a)" "buildEndpoint p a = p @ ''@'' @ a"
  using splitEndpoint_at [OF assms(1), of a fb] assms(2,3) by (simp_all add: buildEndpoint_def)

lemma split_normal:
  assumes "splitEndpoint v ''tcp'' = (p, a)"
  shows "CHR ''@'' \<notin> set p" "normalizeProto p = p"
proof -
  have t: "normalizeProto ''tcp'' = ''tcp''" by code_simp
  have "CHR ''@'' \<notin> set (takeWhile (\<lambda>c. c \<noteq> CHR ''@'') v)" by (auto dest: set_takeWhileD)
  from normalizeProto_at [OF this] show "CHR ''@'' \<notin> set p"
    using assms t by (auto simp: splitEndpoint_def Let_def split: if_splits)
  show "normalizeProto p = p" using assms t by (auto simp: splitEndpoint_def Let_def split: if_splits)
qed

lemma normalize_known: "normalizeMode m \<in> {''default'', ''frpc'', ''frps''}" "normalizeCryptMode m \<in> {''none'', ''gcm''}"
  by (auto simp: normalizeMode_def normalizeCryptMode_def Let_def)

lemma canonical_built:
  assumes "splitEndpoint v ''tcp'' = (p, a)"
  shows "canonical_endpoint (Some (JString (buildEndpoint (if p = [] then ''tcp'' else p) a)))"
proof -
  have t: "normalizeProto ''tcp'' = ''tcp''" by code_simp
  have "buildEndpoint (if p = [] then ''tcp'' else p) a = (if p = [] then ''tcp'' else p) @ ''@'' @ trim a"
    using t split_normal(2) [OF assms] by (simp add: buildEndpoint_def)
  note eq = this
  show ?thesis unfolding canonical_endpoint_def eq
    by (rule exI [where x = "if p = [] then ''tcp'' else p"], rule exI [where x = "trim a"])
      (simp add: trim_idem t split_normal [OF assms])
qed

lemma str_prop_payload [simp]:
  "str_prop ''uuid'' (buildPayload f) = Some (JString (f_uuid f))"
  "str_prop ''name'' (buildPayload f) = Some (JString (f_name f))"
  "str_prop ''disabled'' (buildPayload f) = Some (JBoolean (f_disabled f))"
  "str_prop ''mode'' (buildPayload f) = Some (JString (f_mode f))"
  "str_prop ''input'' (buildPayload f) = Some (JString (buildEndpoint (f_in_proto f) (f_in_addr f)))"
  "str_prop ''in_proto_cfg'' (buildPayload f) = Some (JString (f_in_proto_cfg f))"
  "str_prop ''in_decrypt_mode'' (buildPayload f) = Some (JString (f_in_decrypt_mode f))"
  "str_prop ''in_decrypt_key'' (buildPayload f) = Some (JString (f_in_decrypt_key f))"
  "str_prop ''in_extend'' (buildPayload f) = Some (JString (f_in_extend f))"
  "str_prop ''output'' (buildPayload f) = Some (JString (buildEndpoint (f_out_proto f) (f_out_addr f)))"
  "str_prop ''out_proto_cfg'' (buildPayload f) = Some (JString (f_out_proto_cfg f))"
  "str_prop ''out_crypt_mode'' (buildPayload f) = Some (JString (f_out_crypt_mode f))"
  "str_prop ''out_crypt_key'' (buildPayload f) = Some (JString (f_out_crypt_key f))"
  "str_prop ''out_extend'' (buildPayload f) = Some (JString (f_out_extend f))"
  by (simp_all add: buildPayload_def create_payload_def str_prop_def)

lemma payload_canonical: "canonical_config (buildPayload (initForm ob))"
proof -
  obtain p a where i: "splitEndpoint (text_prop ''input'' ob) ''tcp'' = (p, a)" by force
  obtain p' a' where o: "splitEndpoint (text_prop ''output'' ob) ''tcp'' = (p', a')" by force
  show ?thesis using canonical_built [OF i] canonical_built [OF o] normalize_known
    by (auto simp: canonical_config_def initForm_def i o)
qed

lemma canonical_form:
  assumes "canonical_config ob"
  obtains p a p' a' u n c dk e c' dk' e' b m dm cm where
    "str_prop ''input'' ob = Some (JString (p @ ''@'' @ a))" "str_prop ''output'' ob = Some (JString (p' @ ''@'' @ a'))"
    "buildEndpoint p a = p @ ''@'' @ a" "buildEndpoint p' a' = p' @ ''@'' @ a'"
    "str_prop ''uuid'' ob = Some (JString u)" "str_prop ''name'' ob = Some (JString n)" "str_prop ''in_proto_cfg'' ob = Some (JString c)"
    "str_prop ''in_decrypt_key'' ob = Some (JString dk)" "str_prop ''in_extend'' ob = Some (JString e)"
    "str_prop ''out_proto_cfg'' ob = Some (JString c')" "str_prop ''out_crypt_key'' ob = Some (JString dk')"
    "str_prop ''out_extend'' ob = Some (JString e')" "str_prop ''disabled'' ob = Some (JBoolean b)" "str_prop ''mode'' ob = Some (JString m)"
    "str_prop ''in_decrypt_mode'' ob = Some (JString dm)" "str_prop ''out_crypt_mode'' ob = Some (JString cm)"
    "initForm ob = \<lparr>f_uuid = u, f_name = n, f_disabled = b, f_mode = m, f_in_proto = p, f_in_addr = a, f_in_proto_cfg = c,
       f_in_decrypt_mode = dm, f_in_decrypt_key = dk, f_in_extend = e, f_out_proto = p', f_out_addr = a', f_out_proto_cfg = c',
       f_out_crypt_mode = cm, f_out_crypt_key = dk', f_out_extend = e'\<rparr>"
proof -
  obtain p a p' a' where e: "str_prop ''input'' ob = Some (JString (p @ ''@'' @ a))" "CHR ''@'' \<notin> set p" "p \<noteq> []" "normalizeProto p = p" "trim a = a"
      "str_prop ''output'' ob = Some (JString (p' @ ''@'' @ a'))" "CHR ''@'' \<notin> set p'" "p' \<noteq> []" "normalizeProto p' = p'" "trim a' = a'"
    using assms unfolding canonical_config_def canonical_endpoint_def by blast
  obtain m dm cm b where m: "str_prop ''mode'' ob = Some (JString m)" "m \<in> {''default'', ''frpc'', ''frps''}"
      "str_prop ''in_decrypt_mode'' ob = Some (JString dm)" "dm \<in> {''none'', ''gcm''}"
      "str_prop ''out_crypt_mode'' ob = Some (JString cm)" "cm \<in> {''none'', ''gcm''}" "str_prop ''disabled'' ob = Some (JBoolean b)"
    using assms unfolding canonical_config_def comp_def image_iff by blast
  obtain u n c dk x c' dk' x' where t: "str_prop ''uuid'' ob = Some (JString u)" "str_prop ''name'' ob = Some (JString n)"
      "str_prop ''in_proto_cfg'' ob = Some (JString c)" "str_prop ''in_decrypt_key'' ob = Some (JString dk)" "str_prop ''in_extend'' ob = Some (JString x)"
      "str_prop ''out_proto_cfg'' ob = Some (JString c')" "str_prop ''out_crypt_key'' ob = Some (JString dk')" "str_prop ''out_extend'' ob = Some (JString x')"
    using assms unfolding canonical_config_def list.pred_inject by blast
  note f = endpoint_form [OF e(2,4,5)] endpoint_form [OF e(7,9,10)]
  note n = modes_fixed(1) [OF m(2)] modes_fixed(2) [OF m(4)] modes_fixed(2) [OF m(6)]
  show ?thesis
    by (rule that [OF e(1,6) f(2,4) t m(7,1,3,5)]) (simp only: initForm_def text_prop_string [OF e(1)] text_prop_string [OF e(6)] f prod.case
      e(3,8) t [THEN text_prop_string] m(1,3,5) [THEN text_prop_string] n m(7) json_truthy.simps if_False)
qed

lemma canonical_kept:
  assumes "canonical_config ob" "k \<in> set form_keys"
  shows "str_prop k (buildPayload (initForm ob)) = str_prop k ob"
  using assms(1)
proof (rule canonical_form)
  fix p a p' a' u n c dk e c' dk' e' b m dm cm
  assume h: "str_prop ''input'' ob = Some (JString (p @ ''@'' @ a))" "str_prop ''output'' ob = Some (JString (p' @ ''@'' @ a'))"
    "buildEndpoint p a = p @ ''@'' @ a" "buildEndpoint p' a' = p' @ ''@'' @ a'"
    "str_prop ''uuid'' ob = Some (JString u)" "str_prop ''name'' ob = Some (JString n)" "str_prop ''in_proto_cfg'' ob = Some (JString c)"
    "str_prop ''in_decrypt_key'' ob = Some (JString dk)" "str_prop ''in_extend'' ob = Some (JString e)"
    "str_prop ''out_proto_cfg'' ob = Some (JString c')" "str_prop ''out_crypt_key'' ob = Some (JString dk')"
    "str_prop ''out_extend'' ob = Some (JString e')" "str_prop ''disabled'' ob = Some (JBoolean b)" "str_prop ''mode'' ob = Some (JString m)"
    "str_prop ''in_decrypt_mode'' ob = Some (JString dm)" "str_prop ''out_crypt_mode'' ob = Some (JString cm)"
    "initForm ob = \<lparr>f_uuid = u, f_name = n, f_disabled = b, f_mode = m, f_in_proto = p, f_in_addr = a, f_in_proto_cfg = c,
       f_in_decrypt_mode = dm, f_in_decrypt_key = dk, f_in_extend = e, f_out_proto = p', f_out_addr = a', f_out_proto_cfg = c',
       f_out_crypt_mode = cm, f_out_crypt_key = dk', f_out_extend = e'\<rparr>"
  show ?thesis using assms(2) unfolding form_keys_def list.set insert_iff empty_iff
    by (elim disjE; simp add: h)
qed

lemma payload_keys: "map fst (buildPayload f) = form_keys"
  by (simp add: buildPayload_def create_payload_def form_keys_def)

lemma objects_equal:
  assumes "map fst xs = map fst ys" "distinct (map fst ys)" "\<And>k. k \<in> set (map fst ys) \<Longrightarrow> str_prop k xs = str_prop k ys"
  shows "xs = ys"
proof (rule nth_equalityI)
  show l: "length xs = length ys" using assms(1) by (metis length_map)
  fix i assume i: "i < length xs"
  have k: "fst (xs ! i) = fst (ys ! i)" using assms(1) i l by (metis nth_map)
  have d: "distinct (map fst xs)" using assms(1,2) by simp
  have "map_of xs (fst (xs ! i)) = Some (snd (xs ! i))" "map_of ys (fst (ys ! i)) = Some (snd (ys ! i))"
    using i l d assms(2) by (simp_all add: map_of_eq_Some_iff)
  moreover have "fst (ys ! i) \<in> set (map fst ys)" using i l by simp
  ultimately have "snd (xs ! i) = snd (ys ! i)" using assms(3) k by (metis option.inject str_prop_def)
  then show "xs ! i = ys ! i" using k by (simp add: prod_eq_iff)
qed

section \<open>The edit page and the API\<close>

definition form_request :: "string \<times> object \<Rightarrow> request" where
  "form_request p = \<lparr>rq_url = fst p, rq_path = fst p, rq_params = [], rq_payload = Some (snd p)\<rparr>"

definition objects_of :: "json option \<Rightarrow> object list option" where
  "objects_of v =
     (case v of Some (JArray js) \<Rightarrow> Some (List.map_filter (\<lambda>j. case j of JObject x \<Rightarrow> Some x | _ \<Rightarrow> None) js) | _ \<Rightarrow> None)"

definition form_reply_of :: "response \<Rightarrow> form_reply" where
  "form_reply_of r =
     (case r of
        ServerError \<Rightarrow> FormRejected ''Request failed with status code 500''
      | EventStream _ \<Rightarrow> FormReply Undefined Undefined None
      | JsonReply ob \<Rightarrow> FormReply (jsval_of_json (str_prop ''code'' ob)) (jsval_of_json (str_prop ''msg'' ob))
                          (objects_of (str_prop ''list'' (object_of (str_prop ''data'' ob)))))"

text \<open>The newest request is answered and the page handles the reply.\<close>

definition form_roundtrip :: "backend \<Rightarrow> bool \<Rightarrow> form_page \<times> mock \<Rightarrow> form_page \<times> mock" where
  "form_roundtrip be editing x =
     (case x of (s, m) \<Rightarrow>
        (case be (form_request (last (fp_posts s))) m of
           (resp, m') \<Rightarrow> (form_step editing s (FormAnswer (length (fp_waiting s) - 1) (form_reply_of resp)), m')))"

lemma find_first: "list_all (\<lambda>z. \<not> P z) as \<Longrightarrow> P x \<Longrightarrow> find P (as @ x # bs) = Some x"
  by (induction as) auto

lemma edit_loads:
  assumes "nm \<noteq> []" "\<not> mk_failList m" "map_of (mk_records m) ''tunnel'' = Some (as @ x # bs)"
    and "list_all (\<lambda>z. str_prop ''name'' z \<noteq> Some (JString nm)) as" "str_prop ''name'' x = Some (JString nm)"
  shows "form_roundtrip (api dp fixture t0 t1) True (edit_created None nm, m) =
    ((edit_created None nm)\<lparr>fp_form := initForm x, fp_error := None, fp_waiting := []\<rparr>, m)"
proof -
  have a: "api dp fixture t0 t1 (form_request (''/api/tunnel/list'', [])) m = (list_action ''tunnel'' [] m, m)"
    using api_list [of "''tunnel''" "form_request (''/api/tunnel/list'', [])" "[]"] by (simp add: form_request_def)
  have r: "form_reply_of (list_action ''tunnel'' [] m) = FormReply (JNum 200) Undefined (Some (as @ x # bs))"
    using assms(2,3) map_filter_objects [of "as @ x # bs"]
    by (simp add: list_action_def ok_reply_def form_reply_of_def str_prop_def objects_of_def object_of_def)
  have f: "find (\<lambda>row. str_prop ''name'' row = Some (JString nm)) (as @ x # bs) = Some x"
    using find_first [OF assms(4,5)] .
  have p: "fp_posts (edit_created None nm) = [(''/api/tunnel/list'', [])]" "fp_waiting (edit_created None nm) = [ConfigWait nm]"
    using assms(1) by (simp_all add: edit_created_def)
  show ?thesis
    by (simp add: form_roundtrip_def p a r config_answer_def error_of_reply_def f remove_nth_def)
qed

text \<open>One click on save with nothing else in flight: the request the page makes and the reply it gets.\<close>

definition saved_form :: "tunnel_form \<Rightarrow> bool" where
  "saved_form f \<longleftrightarrow> trim (f_name f) \<noteq> [] \<and> trim (f_in_addr f) \<noteq> [] \<and> trim (f_out_addr f) \<noteq> []"

definition edit_click :: "backend \<Rightarrow> form_page \<times> mock \<Rightarrow> form_page \<times> mock" where
  "edit_click be x = (case x of (s, m) \<Rightarrow> form_roundtrip be True (form_step True s SaveForm, m))"

lemma click_sends:
  assumes "\<not> fp_saving s" "fp_waiting s = []" "saved_form (fp_form s)"
  shows "edit_click (api dp fixture t0 t1) (s, m) =
    (case write_action ''tunnel'' ''edit'' [] (buildPayload (fp_form s))
            (logged ''tunnel'' ''edit'' (buildPayload (fp_form s)) (form_request (''/api/tunnel/edit'', buildPayload (fp_form s))) m) of
       (resp, m') \<Rightarrow> (save_answer (form_reply_of resp)
         (s\<lparr>fp_saving := True, fp_posts := fp_posts s @ [(''/api/tunnel/edit'', buildPayload (fp_form s))], fp_waiting := []\<rparr>), m'))"
proof -
  define g where "g = form_request (''/api/tunnel/edit'', buildPayload (fp_form s))"
  have "api dp fixture t0 t1 g m = write_action ''tunnel'' ''edit'' (rq_params g) (buildPayload (fp_form s)) (logged ''tunnel'' ''edit'' (buildPayload (fp_form s)) g m)"
    using api_write [of "''tunnel''" "''edit''" g "buildPayload (fp_form s)"] by (simp add: g_def form_request_def)
  moreover have "rq_params g = []" by (simp add: g_def form_request_def)
  moreover have "form_step True s SaveForm = s\<lparr>fp_saving := True, fp_posts := fp_posts s @ [(''/api/tunnel/edit'', buildPayload (fp_form s))], fp_waiting := [SaveWait]\<rparr>"
    using assms by (simp add: goSave_def saved_form_def)
  ultimately show ?thesis
    by (simp add: edit_click_def form_roundtrip_def g_def [symmetric] remove_nth_def split: prod.split)
qed

text \<open>What a refused and an accepted save do.\<close>

lemma click_refused:
  assumes "\<not> fp_saving s" "fp_waiting s = []" "saved_form (fp_form s)" "mk_failSave m"
  obtains s' m' where "edit_click (api dp fixture t0 t1) (s, m) = (s', m')" "fp_form s' = fp_form s" "\<not> fp_saving s'" "fp_waiting s' = []"
    "fp_location s' = fp_location s" "fp_messages s' = fp_messages s @ [(False, FormText save_failed)]" "mk_records m' = mk_records m" "mk_failList m' = mk_failList m"
    "mk_failToggle m' = mk_failToggle m" "mk_writes m' = mk_writes m @ [(''tunnel'', ''edit'', buildPayload (fp_form s), ''/api/tunnel/edit'')]"
proof -
  have w: "write_action ''tunnel'' ''edit'' [] p (m\<lparr>mk_writes := w\<rparr>) = (fail_reply save_failed, m\<lparr>mk_writes := w\<rparr>)" for p w
    using assms(4) by (simp add: write_action_def)
  have r: "form_reply_of (fail_reply save_failed) = FormReply (JNum 500) (JStr save_failed) None"
    by (simp add: fail_reply_def form_reply_of_def str_prop_def objects_of_def object_of_def)
  note e = click_sends [OF assms(1-3), of dp fixture t0 t1 m, unfolded logged_def w prod.case r]
  show ?thesis
    by (rule that [OF e]) (simp_all add: save_answer_def error_of_reply_def form_showError_def Let_def utf8_def form_request_def)
qed

lemma click_accepted:
  assumes "\<not> fp_saving s" "fp_waiting s = []" "saved_form (fp_form s)" "\<not> mk_failSave m"
    and "map_of (mk_records m) ''tunnel'' = Some (as @ x # bs)" "str_prop ''uuid'' x = Some (JString (f_uuid (fp_form s)))"
    and "list_all (\<lambda>z. str_prop ''uuid'' z \<noteq> Some (JString (f_uuid (fp_form s)))) as"
  obtains s' m' where "edit_click (api dp fixture t0 t1) (s, m) = (s', m')" "fp_form s' = fp_form s" "\<not> fp_saving s'" "fp_waiting s' = []"
    "fp_location s' = Some ''/tunnel/list''"
    "map_of (mk_records m') = (map_of (mk_records m))(''tunnel'' \<mapsto> as @ object_assign x (buildPayload (fp_form s)) # bs)"
    "mk_failSave m' = mk_failSave m" "mk_failList m' = mk_failList m" "mk_failToggle m' = mk_failToggle m"
    "mk_writes m' = mk_writes m @ [(''tunnel'', ''edit'', buildPayload (fp_form s), ''/api/tunnel/edit'')]"
proof -
  let ?p = "buildPayload (fp_form s)"
  let ?rows = "as @ object_assign x ?p # bs"
  have u: "update_first (\<lambda>r. str_prop ''uuid'' r = str_prop ''uuid'' ?p) (\<lambda>r. object_assign r ?p) (as @ x # bs) = Some ?rows"
    unfolding update_first_spec by (rule exI [of _ as], rule exI [of _ x], rule exI [of _ bs]) (use assms(6,7) in simp)
  have "save_action ''tunnel'' ''edit'' ?p (m\<lparr>mk_writes := w\<rparr>) = Some (put_records ''tunnel'' ?rows (m\<lparr>mk_writes := w\<rparr>))" for w
    using assms(5) u by (simp add: save_action_def)
  then have w: "write_action ''tunnel'' ''edit'' [] ?p (m\<lparr>mk_writes := w\<rparr>) = (ok_reply [], put_records ''tunnel'' ?rows (m\<lparr>mk_writes := w\<rparr>))" for w
    using assms(4) by (simp add: write_action_def)
  have r: "form_reply_of (ok_reply []) = FormReply (JNum 200) Undefined None"
    by (simp add: form_reply_of_def ok_reply_def str_prop_def objects_of_def object_of_def)
  note e = click_sends [OF assms(1-3), of dp fixture t0 t1 m, unfolded logged_def w prod.case r]
  show ?thesis by (rule that [OF e]) (simp_all add: save_answer_def error_of_reply_def Let_def fun_eq_iff form_request_def)
qed

section \<open>Properties\<close>

text \<open>
  C32: The edit page does not change what it is not asked to change. Whatever row it opens, the
  configuration it would save is one that opening and saving again leaves exactly as it is; and a row
  already in that form is written back field by field, every field the form knows.
\<close>

theorem edit_form_roundtrip:
  "buildPayload (initForm (buildPayload (initForm ob))) = buildPayload (initForm ob) \<and>
   (canonical_config ob \<longrightarrow> list_all (\<lambda>k. str_prop k (buildPayload (initForm ob)) = str_prop k ob) form_keys)"
proof (intro conjI impI)
  show "buildPayload (initForm (buildPayload (initForm ob))) = buildPayload (initForm ob)"
  proof (rule objects_equal)
    show "distinct (map fst (buildPayload (initForm ob)))" by (simp add: payload_keys form_keys_def)
  qed (auto simp: payload_keys canonical_kept [OF payload_canonical])
  show "list_all (\<lambda>k. str_prop k (buildPayload (initForm ob)) = str_prop k ob) form_keys" if "canonical_config ob"
    using canonical_kept [OF that] by (simp add: list_all_iff)
qed

definition sample_config :: object where
  "sample_config = buildPayload (initForm (tunnels ! 0))"

theorem edit_form_roundtrip_witness:
  "str_prop ''input'' (buildPayload (initForm sample_config)) = Some (JString ''socks5x@0.0.0.0:1072'')"
proof -
  have c: "canonical_config sample_config" unfolding sample_config_def by (rule payload_canonical)
  have "str_prop ''input'' sample_config = Some (JString ''socks5x@0.0.0.0:1072'')" by code_simp
  then show ?thesis using edit_form_roundtrip [of sample_config] c by (simp add: form_keys_def)
qed

text \<open>
  C33: Editing a tunnel survives a failed save. Opened by its name, the edit page shows the
  configuration of the first tunnel of that name, no earlier tunnel having its identifier; whatever the user changes (the required fields not
  blank), a save the server refuses leaves the page open with the change, ready to save again, and
  the server untouched; the next save leaves for the list, and the server has the payload's fields in
  that tunnel and every other tunnel and field as before.
\<close>

theorem edit_save_end_to_end:
  assumes "nm \<noteq> []" and "\<not> mk_failList m" and "map_of (mk_records m) ''tunnel'' = Some (as @ x # bs)"
    and "list_all (\<lambda>z. str_prop ''name'' z \<noteq> Some (JString nm)) as" and "str_prop ''name'' x = Some (JString nm)"
    and "list_all (\<lambda>z. str_prop ''uuid'' z \<noteq> Some (JString u)) as" and "str_prop ''uuid'' x = Some (JString u)"
    and "saved_form (g (initForm x))" and "f_uuid (g (initForm x)) = u"
  shows "let be = api dp fixture t0 t1;
             (s1, m1) = form_roundtrip be True (edit_created None nm, m);
             (s2, m2) = edit_click be (form_step True s1 (FillForm g), m1\<lparr>mk_failSave := True\<rparr>);
             (s3, m3) = edit_click be (s2, m2\<lparr>mk_failSave := False\<rparr>);
             p = buildPayload (g (initForm x))
         in fp_form s1 = initForm x \<and> fp_error s1 = None \<and>
            fp_form s2 = g (initForm x) \<and> \<not> fp_saving s2 \<and> fp_location s2 = None \<and> mk_records m2 = mk_records m \<and>
            fp_location s3 = Some ''/tunnel/list'' \<and>
            (\<exists>y. map_of (mk_records m3) = (map_of (mk_records m))(''tunnel'' \<mapsto> as @ y # bs) \<and>
                 (\<forall>k. str_prop k y = (case str_prop k p of None \<Rightarrow> str_prop k x | Some v \<Rightarrow> Some v)))"
proof -
  let ?be = "api dp fixture t0 t1"
  define s1 where "s1 = (edit_created None nm)\<lparr>fp_form := initForm x, fp_error := None, fp_waiting := []\<rparr>"
  define f where "f = form_step True s1 (FillForm g)"
  have l: "form_roundtrip ?be True (edit_created None nm, m) = (s1, m)"
    unfolding s1_def by (rule edit_loads [OF assms(1-5)])
  have f: "\<not> fp_saving f" "fp_waiting f = []" "saved_form (fp_form f)" "fp_form f = g (initForm x)" "fp_location f = None"
    using assms(1,8) by (simp_all add: f_def s1_def edit_created_def blank_page_def)
  obtain s2 m2 where c2: "edit_click ?be (f, m\<lparr>mk_failSave := True\<rparr>) = (s2, m2)" "fp_form s2 = fp_form f" "\<not> fp_saving s2" "fp_waiting s2 = []"
    "fp_location s2 = fp_location f" "mk_records m2 = mk_records (m\<lparr>mk_failSave := True\<rparr>)"
    by (rule click_refused [OF f(1-3), of "m\<lparr>mk_failSave := True\<rparr>" dp fixture t0 t1]) simp_all
  have h: "saved_form (fp_form s2)" "\<not> mk_failSave (m2\<lparr>mk_failSave := False\<rparr>)" "map_of (mk_records (m2\<lparr>mk_failSave := False\<rparr>)) ''tunnel'' = Some (as @ x # bs)"
    "str_prop ''uuid'' x = Some (JString (f_uuid (fp_form s2)))" "list_all (\<lambda>z. str_prop ''uuid'' z \<noteq> Some (JString (f_uuid (fp_form s2)))) as"
    using c2 f assms(3,6-9) by simp_all
  obtain s3 m3 where c3: "edit_click ?be (s2, m2\<lparr>mk_failSave := False\<rparr>) = (s3, m3)" "fp_location s3 = Some ''/tunnel/list''"
    "map_of (mk_records m3) = (map_of (mk_records m))(''tunnel'' \<mapsto> as @ object_assign x (buildPayload (g (initForm x))) # bs)"
    by (rule click_accepted [OF c2(3,4) h, of dp fixture t0 t1]) (use c2 f in simp)
  have d: "distinct (map fst (buildPayload (g (initForm x))))" by (simp add: payload_keys form_keys_def)
  have y: "\<forall>k. str_prop k (object_assign x (buildPayload (g (initForm x)))) =
      (case str_prop k (buildPayload (g (initForm x))) of None \<Rightarrow> str_prop k x | Some v \<Rightarrow> Some v)"
    using map_of_rev_distinct [OF d] by (simp only: str_prop_assign) (simp add: str_prop_def)
  have s: "fp_form s1 = initForm x" "fp_error s1 = None" by (simp_all add: s1_def)
  show ?thesis unfolding Let_def l split_conv f_def [symmetric] c2(1) c3(1) using s c2 c3(2,3) f y by auto
qed

definition renamed :: "tunnel_form \<Rightarrow> tunnel_form" where
  "renamed f = f\<lparr>f_name := ''edited_tunnel''\<rparr>"

theorem edit_save_end_to_end_witness:
  "let be = api (\<lambda>_. None) [] [] [];
       (s1, m1) = form_roundtrip be True (edit_created None name_a, initial_mock);
       (s2, m2) = edit_click be (form_step True s1 (FillForm renamed), m1\<lparr>mk_failSave := True\<rparr>);
       (s3, m3) = edit_click be (s2, m2\<lparr>mk_failSave := False\<rparr>)
   in fp_location s3 = Some ''/tunnel/list''"
proof -
  have h: "name_a \<noteq> []" "\<not> mk_failList initial_mock" "map_of (mk_records initial_mock) ''tunnel'' = Some ([] @ tunnels ! 0 # drop 1 tunnels)"
    "list_all (\<lambda>z. str_prop ''name'' z \<noteq> Some (JString name_a)) []" "str_prop ''name'' (tunnels ! 0) = Some (JString name_a)"
    "list_all (\<lambda>z. str_prop ''uuid'' z \<noteq> Some (JString ''a'')) []" "str_prop ''uuid'' (tunnels ! 0) = Some (JString ''a'')"
    by (simp_all add: name_a_def initial_mock_def initial_records_def tunnels_def str_prop_def)
  have "f_in_addr (initForm (tunnels ! 0)) = ''0.0.0.0:1072''" "f_out_addr (initForm (tunnels ! 0)) = ''154.36.173.131:4000''"
    "f_uuid (initForm (tunnels ! 0)) = ''a''" by code_simp+
  then have g: "saved_form (renamed (initForm (tunnels ! 0)))" "f_uuid (renamed (initForm (tunnels ! 0))) = ''a''"
    by (simp_all add: renamed_def saved_form_def trim_id is_space_def)
  show ?thesis using edit_save_end_to_end [where as = "[]" and x = "tunnels ! 0" and bs = "drop 1 tunnels" and nm = name_a
      and u = "''a''" and g = renamed and m = initial_mock and dp = "\<lambda>_. None" and fixture = "[]" and ?t0.0 = "[]" and ?t1.0 = "[]", OF h g] unfolding Let_def split_def by blast
qed

end
