(* ===== verification/TunnelList.thy ===== *)
theory TunnelList
  imports TunnelPage TunnelForm
begin

text \<open>
  The list of the tunnel page, the methods of \<open>src/admin/view/tunnel/list.html\<close> that change tunnels:
  switching, cloning, importing, deleting, the bandwidth test, with the delayed refresh they share.
  The page keeps the state of the list mixin (\<open>page\<close>) and its own.

  \<open>invokeSetDisabled\<close> and \<open>invokeBandwidthTest\<close> change the row object they were called with when the
  reply arrives. A load replaces all row objects, so a chain remembers the row by the number of
  replacements before it and its position; a change of a replaced row is not seen on the page.
\<close>

section \<open>State\<close>

datatype t_text =
    TText jsval | TSwitched string bool | TSwitchFailed | TCloned string | TCloneFailed | TChooseFile | TImported
  | TFileError string | TNotJson string | TImportFailed string jsval | TImportRejected string | TBandwidth string jsval | TBandwidthFailed
  | TRequestFailed | TAddressMissing | TNotice string jsval | TCheckFailed string

text \<open>
  The messages name where they come from: \<open>TImportRejected\<close> is the text of a rejected import request (a
  default one when it is empty), \<open>TText\<close> a text of the other operations.

  A file chosen for import is its name and what reading it gives: \<open>None\<close>, the read fails; \<open>Some None\<close>,
  not JSON; otherwise any JSON value, which the page sends as it is.
\<close>

type_synonym import_file = "string \<times> json option option"

datatype t_chain =
    SwitchChain nat nat row bool bool
  | CloneChain string
  | DeleteChain
  | BandwidthChain nat nat row
  | ReadChain nat import_file
  | ImportChain nat string
  | CheckChain string

record tunnel_list =
  t_page :: page
  t_gen :: nat
  currentRow :: "row option"
  targetAddr :: string
  clonePending :: bool
  bandwidthPendingName :: jsval
  listRefreshTimer :: bool
  t_deleteModal :: bool
  t_deleteData :: jsval
  t_batches :: "(nat \<times> bool) list"
  t_chains :: "t_chain list"
  t_posts :: "(string \<times> json) list"
  t_messages :: "(bool \<times> t_text) list"

definition init_tunnel_list :: tunnel_list where
  "init_tunnel_list =
     \<lparr>t_page = (init_page TunnelRow ''/api/tunnel/list'')\<lparr>statusFilter := ''running''\<rparr>, t_gen = 0, currentRow = None,
      targetAddr = ''127.0.0.1:1080'', clonePending = False, bandwidthPendingName = JStr [], listRefreshTimer = False,
      t_deleteModal = False, t_deleteData = Undefined, t_batches = [], t_chains = [], t_posts = [], t_messages = []\<rparr>"

definition refreshListDelayed :: "tunnel_list \<Rightarrow> tunnel_list" where
  "refreshListDelayed s = s\<lparr>listRefreshTimer := True\<rparr>"

definition tableData :: "tunnel_list \<Rightarrow> tunnel_list" where
  "tableData s = s\<lparr>t_page := loadList KNone (t_page s)\<rparr>"

definition say :: "bool \<Rightarrow> t_text \<Rightarrow> tunnel_list \<Rightarrow> tunnel_list" where
  "say ok t s = s\<lparr>t_messages := t_messages s @ [(ok, t)]\<rparr>"

definition send :: "string \<Rightarrow> json \<Rightarrow> t_chain \<Rightarrow> tunnel_list \<Rightarrow> tunnel_list" where
  "send url body c s = s\<lparr>t_posts := t_posts s @ [(url, body)], t_chains := t_chains s @ [c]\<rparr>"

definition change_row :: "nat \<Rightarrow> nat \<Rightarrow> (row \<Rightarrow> row) \<Rightarrow> tunnel_list \<Rightarrow> tunnel_list" where
  "change_row gen i f s =
     (if gen = t_gen s \<and> i < length (main_data (t_page s))
      then s\<lparr>t_page := (t_page s)\<lparr>main_data := (main_data (t_page s))[i := f (main_data (t_page s) ! i)]\<rparr>\<rparr> else s)"

section \<open>Switching a tunnel\<close>

definition invokeSetDisabled :: "nat \<Rightarrow> bool \<Rightarrow> tunnel_list \<Rightarrow> tunnel_list" where
  "invokeSetDisabled i enabled s =
     (let r = main_data (t_page s) ! i; n = js_string (row_name r) in
      if pending_truthy (t_page s) n then s
      else send ''/api/tunnel/set_disabled'' (JObject (entries [(''name'', row_name r), (''disabled'', JBool (\<not> enabled))]))
             (SwitchChain (t_gen s) i r (js_truthy (row_disabled r)) (\<not> enabled))
             (s\<lparr>t_page := (t_page s)\<lparr>mutationPending := mutationPending (t_page s) @ [n]\<rparr>\<rparr>))"

definition switched_row :: "bool \<Rightarrow> row \<Rightarrow> row" where
  "switched_row dis r = normalizeTunnelRow (r\<lparr>row_disabled := JBool dis, row_status := JStr (if dis then ''disabled'' else ''init'')\<rparr>)"

definition restored_row :: "bool \<Rightarrow> row \<Rightarrow> row" where
  "restored_row dis r = normalizeTunnelRow (r\<lparr>row_disabled := JBool dis\<rparr>)"

text \<open>The replies: rejected with a message, or the code, the message and the data of the body.\<close>

datatype t_reply = TRejected string | TReply jsval jsval object

definition switch_answer :: "nat \<Rightarrow> nat \<Rightarrow> row \<Rightarrow> bool \<Rightarrow> bool \<Rightarrow> t_reply \<Rightarrow> tunnel_list \<Rightarrow> tunnel_list" where
  "switch_answer gen i r previous next reply s =
     (let s1 = (case reply of
                  TRejected m \<Rightarrow>
                    say False (if m = [] then TSwitchFailed else TText (JStr m)) (change_row gen i (restored_row previous) s)
                | TReply code msg d \<Rightarrow>
                    if code \<noteq> JNum 200 then say False (TText msg) s
                    else refreshListDelayed
                           (say True (TSwitched (js_string (row_name r)) next) (change_row gen i (switched_row next) s)))
      in s1\<lparr>t_page := (t_page s1)\<lparr>mutationPending := filter (\<lambda>n. n \<noteq> js_string (row_name r)) (mutationPending (t_page s1))\<rparr>\<rparr>)"

section \<open>Cloning\<close>

text \<open>The payload copies properties of the row; an absent one is left out of the JSON text.\<close>

definition clone_payload :: "string \<Rightarrow> string \<Rightarrow> row \<Rightarrow> object" where
  "clone_payload uuid nm r =
     (let copy = (\<lambda>k. (k, str_prop k (row_rest r))) in
      literal [(''uuid'', Some (JString uuid)), (''name'', Some (JString nm)), (''disabled'', Some (JBoolean True)), copy ''mode'',
        (''input'', json_of_jsval (row_input r)), copy ''in_proto_cfg'', copy ''in_decrypt_mode'', copy ''in_decrypt_key'', copy ''in_extend'',
        (''output'', json_of_jsval (row_output r)), copy ''out_proto_cfg'', copy ''out_crypt_mode'', copy ''out_crypt_key'', copy ''out_extend''])"

text \<open>\<open>uuid\<close> is what \<open>newUUID\<close> returned; the fuel is enough for every list.\<close>

definition invokeClone :: "string \<Rightarrow> row option \<Rightarrow> tunnel_list \<Rightarrow> tunnel_list" where
  "invokeClone uuid row s =
     (case row of
        None \<Rightarrow> s
      | Some r \<Rightarrow>
          if clonePending s then s
          else (case uniqueCloneName (Suc (length (main_data (t_page s)))) (main_data (t_page s)) (js_string (row_name r)) of
                  None \<Rightarrow> s
                | Some nm \<Rightarrow> send ''/api/tunnel/import'' (JObject (clone_payload uuid nm r)) (CloneChain nm) (s\<lparr>clonePending := True\<rparr>)))"

definition clone_answer :: "string \<Rightarrow> t_reply \<Rightarrow> tunnel_list \<Rightarrow> tunnel_list" where
  "clone_answer nm reply s =
     (let s1 = (case reply of
                  TRejected m \<Rightarrow> say False (if m = [] then TCloneFailed else TText (JStr m)) s
                | TReply code msg d \<Rightarrow>
                    if code \<noteq> JNum 200 then say False (TText msg) s
                    else refreshListDelayed (say True (TCloned nm) s))
      in s1\<lparr>clonePending := False\<rparr>)"

section \<open>Importing\<close>

text \<open>
  \<open>Promise.all\<close> over the files: batch \<open>b\<close> counts the tasks that have not fulfilled and whether it has
  settled. It settles when all have fulfilled or one is rejected; the others go on.
\<close>

definition invokeImport :: "import_file list \<Rightarrow> tunnel_list \<Rightarrow> tunnel_list" where
  "invokeImport files s =
     (if files = [] then say False TChooseFile s
      else s\<lparr>t_batches := t_batches s @ [(length files, False)],
             t_chains := t_chains s @ map (ReadChain (length (t_batches s))) files\<rparr>)"

definition batch_reject :: "nat \<Rightarrow> t_text \<Rightarrow> tunnel_list \<Rightarrow> tunnel_list" where
  "batch_reject b e s =
     (if snd (t_batches s ! b) then s
      else refreshListDelayed (say False e (s\<lparr>t_batches := (t_batches s)[b := (fst (t_batches s ! b), True)]\<rparr>)))"

definition batch_fulfil :: "nat \<Rightarrow> tunnel_list \<Rightarrow> tunnel_list" where
  "batch_fulfil b s =
     (let left = fst (t_batches s ! b) - 1; settled = snd (t_batches s ! b) in
      if left = 0 \<and> \<not> settled
      then refreshListDelayed (say True TImported (s\<lparr>t_batches := (t_batches s)[b := (0, True)]\<rparr>))
      else s\<lparr>t_batches := (t_batches s)[b := (left, settled)]\<rparr>)"

definition read_done :: "nat \<Rightarrow> import_file \<Rightarrow> tunnel_list \<Rightarrow> tunnel_list" where
  "read_done b f s =
     (case snd f of
        None \<Rightarrow> batch_reject b (TFileError (fst f)) s
      | Some None \<Rightarrow> batch_reject b (TNotJson (fst f)) s
      | Some (Some v) \<Rightarrow> send ''/api/tunnel/import'' v (ImportChain b (fst f)) s)"

definition import_answer :: "nat \<Rightarrow> string \<Rightarrow> t_reply \<Rightarrow> tunnel_list \<Rightarrow> tunnel_list" where
  "import_answer b fname reply s =
     (case reply of
        TRejected m \<Rightarrow> batch_reject b (TImportRejected m) s
      | TReply code msg d \<Rightarrow>
          if code \<noteq> JNum 200 then batch_reject b (TImportFailed fname msg) s else batch_fulfil b s)"

section \<open>Deleting, bandwidth and checks\<close>

definition invokeDelete :: "row \<Rightarrow> tunnel_list \<Rightarrow> tunnel_list" where
  "invokeDelete r s = s\<lparr>t_deleteModal := True, t_deleteData := row_name r\<rparr>"

definition invokeConfirmDelete :: "tunnel_list \<Rightarrow> tunnel_list" where
  "invokeConfirmDelete s = send ''/api/tunnel/delete'' (JObject (entries [(''name'', t_deleteData s)])) DeleteChain s"

definition delete_answer :: "t_reply \<Rightarrow> tunnel_list \<Rightarrow> tunnel_list" where
  "delete_answer reply s =
     (case reply of
        TRejected m \<Rightarrow> say False (if m = [] then TRequestFailed else TText (JStr m)) s
      | TReply code msg d \<Rightarrow>
          if code \<noteq> JNum 200 then say False (if js_truthy msg then TText msg else TRequestFailed) s
          else refreshListDelayed (s\<lparr>t_deleteModal := False, t_deleteData := Undefined\<rparr>))"

definition invokeBandwidthTest :: "nat \<Rightarrow> tunnel_list \<Rightarrow> tunnel_list" where
  "invokeBandwidthTest i s =
     (let r = main_data (t_page s) ! i in
      if js_truthy (bandwidthPendingName s) then s
      else send (''/api/tunnel/bandwidth?name='' @ encodeURIComponent (js_string (row_name r))) (JObject [])
             (BandwidthChain (t_gen s) i r) (s\<lparr>bandwidthPendingName := row_name r\<rparr>))"

definition measured_row :: "object \<Rightarrow> row \<Rightarrow> row" where
  "measured_row summary r =
     normalizeTunnelRow (r\<lparr>row_rest := AList.update ''bandwidth_summary'' (JObject summary) (row_rest r)\<rparr>)"

definition bandwidth_answer :: "nat \<Rightarrow> nat \<Rightarrow> row \<Rightarrow> t_reply \<Rightarrow> tunnel_list \<Rightarrow> tunnel_list" where
  "bandwidth_answer gen i r reply s =
     (let s1 = (case reply of
                  TRejected m \<Rightarrow> say False (if m = [] then TBandwidthFailed else TText (JStr m)) s
                | TReply code msg d \<Rightarrow>
                    if code \<noteq> JNum 200 then say False (TText msg) s
                    else
                      let summary = object_of (str_prop ''summary'' d);
                          r1 = measured_row summary r;
                          s2 = change_row gen i (measured_row summary) s;
                          status = str_prop ''bandwidth_status'' (row_rest r1)
                      in if status = Some (JString ''ok'')
                         then say True (TBandwidth (js_string (row_name r)) (jsval_of_json (str_prop ''bandwidth_mbps'' (row_rest r1)))) s2
                         else say False (if js_truthy msg then TText msg else TText (jsval_of_json status)) s2)
      in s1\<lparr>bandwidthPendingName := JStr []\<rparr>)"

definition check_url :: "string \<Rightarrow> string \<Rightarrow> string \<Rightarrow> string" where
  "check_url serverType addr phase =
     ''/api/tunnel/check_server?serverType='' @ serverType @ ''&targetAddr='' @ encodeURIComponent addr @
     (if phase = [] then [] else ''&phase='' @ phase)"

definition check_title :: "string \<Rightarrow> string \<Rightarrow> string" where
  "check_title serverType phase = serverType @ (if phase = [] then [] else '' '' @ phase)"

definition invokeCheckServerPhase :: "string \<Rightarrow> string \<Rightarrow> string \<Rightarrow> tunnel_list \<Rightarrow> tunnel_list" where
  "invokeCheckServerPhase serverType addr phase s =
     send (check_url serverType addr phase) (JObject []) (CheckChain (check_title serverType phase)) s"

definition invokeCheckServer :: "string \<Rightarrow> tunnel_list \<Rightarrow> tunnel_list" where
  "invokeCheckServer serverType s =
     (let addr = trim (targetAddr s) in
      if addr = [] then say False TAddressMissing s
      else if serverType = ''socks5''
      then invokeCheckServerPhase serverType addr ''udp'' (invokeCheckServerPhase serverType addr ''tcp'' s)
      else invokeCheckServerPhase serverType addr [] s)"

definition check_answer :: "string \<Rightarrow> t_reply \<Rightarrow> tunnel_list \<Rightarrow> tunnel_list" where
  "check_answer title reply s =
     (case reply of
        TRejected m \<Rightarrow> say False (if m = [] then TCheckFailed title else TNotice title (JStr m)) s
      | TReply code msg d \<Rightarrow>
          let m = (if js_truthy msg then js_string msg else [])
          in say (code = JNum 200 \<and> \<not> contains ''failed'' m) (TNotice title (JStr m)) s)"

definition syncTargetAddr :: "row \<Rightarrow> tunnel_list \<Rightarrow> tunnel_list" where
  "syncTargetAddr r s =
     (if js_truthy (row_input r) then
        (let port = trim (rev (takeWhile (\<lambda>c. c \<noteq> CHR '':'') (rev (js_string (row_input r)))))
         in if port = [] then s else s\<lparr>targetAddr := ''127.0.0.1:'' @ port\<rparr>)
      else s)"

definition onCurrentChange :: "row \<Rightarrow> tunnel_list \<Rightarrow> tunnel_list" where
  "onCurrentChange r s = syncTargetAddr r (s\<lparr>currentRow := Some r\<rparr>)"

section \<open>Events\<close>

datatype t_event =
    Mixin event
  | SelectRow nat
  | SwitchTunnel nat bool
  | CloneTunnel nat string
  | ImportFiles "import_file list"
  | DeleteTunnel nat
  | ConfirmDelete
  | TestBandwidth nat
  | CheckServer string
  | RefreshTimer
  | Reply_to nat t_reply

text \<open>The page has no edit window and its own switch: of the mixin it uses loading, search and filters.\<close>

fun mixin_used :: "event \<Rightarrow> bool" where
  "mixin_used (OpenEdit _) = False"
| "mixin_used (SaveClick _ _) = False"
| "mixin_used (ToggleClick _ _ _ _) = False"
| "mixin_used _ = True"

text \<open>A load that replaces the row objects.\<close>

definition replaces :: "page \<Rightarrow> event \<Rightarrow> bool" where
  "replaces s e =
     (case e of
        Answer i (Reply code m (Some p)) \<Rightarrow>
          i < length (inflight s) \<and> code = JNum 200 \<and>
          (case inflight s ! i of Load k _ \<Rightarrow> k = listRequestId s | _ \<Rightarrow> False)
      | _ \<Rightarrow> False)"

fun chain_answer :: "t_chain \<Rightarrow> t_reply \<Rightarrow> tunnel_list \<Rightarrow> tunnel_list" where
  "chain_answer (SwitchChain gen i r p n) reply s = switch_answer gen i r p n reply s"
| "chain_answer (CloneChain nm) reply s = clone_answer nm reply s"
| "chain_answer DeleteChain reply s = delete_answer reply s"
| "chain_answer (BandwidthChain gen i r) reply s = bandwidth_answer gen i r reply s"
| "chain_answer (ReadChain b f) reply s = read_done b f s"
| "chain_answer (ImportChain b f) reply s = import_answer b f reply s"
| "chain_answer (CheckChain t) reply s = check_answer t reply s"

definition with_row :: "nat \<Rightarrow> (row \<Rightarrow> tunnel_list \<Rightarrow> tunnel_list) \<Rightarrow> tunnel_list \<Rightarrow> tunnel_list" where
  "with_row i f s =
     (if i < length (main_data (t_page s))
      then let r = main_data (t_page s) ! i in f r (onCurrentChange r s) else s)"

fun t_step :: "tunnel_list \<Rightarrow> t_event \<Rightarrow> tunnel_list" where
  "t_step s (Mixin e) =
     (if mixin_used e
      then s\<lparr>t_page := ui_step (t_page s) e, t_gen := (if replaces (t_page s) e then Suc (t_gen s) else t_gen s)\<rparr> else s)"
| "t_step s (SelectRow i) = with_row i (\<lambda>r s. s) s"
| "t_step s (SwitchTunnel i en) = (if i < length (main_data (t_page s)) then invokeSetDisabled i en s else s)"
| "t_step s (CloneTunnel i uuid) = with_row i (\<lambda>r. invokeClone uuid (Some r)) s"
| "t_step s (ImportFiles fs) = invokeImport fs s"
| "t_step s (DeleteTunnel i) = with_row i invokeDelete s"
| "t_step s ConfirmDelete = (if t_deleteModal s then invokeConfirmDelete s else s)"
| "t_step s (TestBandwidth i) = with_row i (\<lambda>r. invokeBandwidthTest i) s"
| "t_step s (CheckServer ty) = invokeCheckServer ty s"
| "t_step s RefreshTimer = (if listRefreshTimer s then tableData (s\<lparr>listRefreshTimer := False\<rparr>) else s)"
| "t_step s (Reply_to k reply) =
     (if k < length (t_chains s)
      then chain_answer (t_chains s ! k) reply (s\<lparr>t_chains := remove_nth k (t_chains s)\<rparr>) else s)"

inductive t_reachable :: "tunnel_list \<Rightarrow> bool" where
  t_start: "t_reachable (refreshListDelayed init_tunnel_list)"
| t_next: "t_reachable s \<Longrightarrow> t_reachable (t_step s e)"

section \<open>Library: what is in flight\<close>

fun switch_names :: "t_chain list \<Rightarrow> string list" where
  "switch_names [] = []"
| "switch_names (SwitchChain gen i r p n # cs) = js_string (row_name r) # switch_names cs"
| "switch_names (c # cs) = switch_names cs"

fun is_clone :: "t_chain \<Rightarrow> bool" where
  "is_clone (CloneChain nm) = True"
| "is_clone c = False"

fun of_batch :: "nat \<Rightarrow> t_chain \<Rightarrow> bool" where
  "of_batch b (ReadChain b' f) = (b' = b)"
| "of_batch b (ImportChain b' f) = (b' = b)"
| "of_batch b c = False"

fun batch_bounded :: "nat \<Rightarrow> t_chain \<Rightarrow> bool" where
  "batch_bounded n (ReadChain b f) = (b < n)"
| "batch_bounded n (ImportChain b f) = (b < n)"
| "batch_bounded n c = True"

definition tasks :: "nat \<Rightarrow> t_chain list \<Rightarrow> nat" where
  "tasks b cs = length (filter (of_batch b) cs)"

definition t_inv :: "tunnel_list \<Rightarrow> bool" where
  "t_inv s \<longleftrightarrow>
     switch_names (t_chains s) = mutationPending (t_page s) \<and> distinct (mutationPending (t_page s)) \<and>
     length (filter is_clone (t_chains s)) = (if clonePending s then 1 else 0) \<and>
     list_all (batch_bounded (length (t_batches s))) (t_chains s) \<and>
     (\<forall>b < length (t_batches s). \<not> snd (t_batches s ! b) \<longrightarrow> fst (t_batches s ! b) = tasks b (t_chains s) \<and> 0 < tasks b (t_chains s)) \<and>
     list_all (\<lambda>c. \<exists>i. c = Load i KNone) (inflight (t_page s))"

lemma switch_names_append [simp]: "switch_names (xs @ ys) = switch_names xs @ switch_names ys"
  by (induction xs rule: switch_names.induct) simp_all

lemma tasks_append [simp]: "tasks b (xs @ ys) = tasks b xs + tasks b ys"
  by (simp add: tasks_def)

lemma chain_split: "k < length cs \<Longrightarrow> \<exists>xs c ys. cs = xs @ c # ys \<and> length xs = k \<and> cs ! k = c \<and> remove_nth k cs = xs @ ys"
  by (intro exI [of _ "take k cs"] exI [of _ "cs ! k"] exI [of _ "drop (Suc k) cs"]) (simp add: id_take_nth_drop [symmetric] remove_nth_def min_def)

lemma read_tasks [simp]: "tasks b (map (ReadChain b') fs) = (if b = b' then length fs else 0)" "switch_names (map (ReadChain b') fs) = []"
  "filter is_clone (map (ReadChain b') fs) = []" "list_all (batch_bounded n) (map (ReadChain b') fs) = (fs = [] \<or> b' < n)"
  by (induction fs) (auto simp: tasks_def)

text \<open>Operations that leave alone what the invariant speaks of.\<close>

lemma t_inv_frame [simp]:
  "t_inv (say ok t s) = t_inv s" "t_inv (refreshListDelayed s) = t_inv s" "t_inv (change_row gen i f s) = t_inv s"
  "t_inv (s\<lparr>t_deleteModal := b, t_deleteData := d\<rparr>) = t_inv s" "t_inv (s\<lparr>bandwidthPendingName := v\<rparr>) = t_inv s"
  "t_inv (s\<lparr>listRefreshTimer := b\<rparr>) = t_inv s" "t_inv (onCurrentChange r s) = t_inv s"
  by (simp_all add: t_inv_def say_def refreshListDelayed_def change_row_def onCurrentChange_def syncTargetAddr_def Let_def)

text \<open>The state in which one task of batch \<open>b\<close> has left the chains and not yet been counted.\<close>

definition t_inv_owing :: "nat \<Rightarrow> tunnel_list \<Rightarrow> bool" where
  "t_inv_owing b s \<longleftrightarrow>
     switch_names (t_chains s) = mutationPending (t_page s) \<and> distinct (mutationPending (t_page s)) \<and>
     length (filter is_clone (t_chains s)) = (if clonePending s then 1 else 0) \<and>
     list_all (batch_bounded (length (t_batches s))) (t_chains s) \<and> b < length (t_batches s) \<and>
     (\<not> snd (t_batches s ! b) \<longrightarrow> fst (t_batches s ! b) = Suc (tasks b (t_chains s))) \<and>
     (\<forall>b' < length (t_batches s). b' \<noteq> b \<longrightarrow> \<not> snd (t_batches s ! b') \<longrightarrow>
        fst (t_batches s ! b') = tasks b' (t_chains s) \<and> 0 < tasks b' (t_chains s)) \<and>
     list_all (\<lambda>c. \<exists>i. c = Load i KNone) (inflight (t_page s))"

lemma batch_reject_inv: "t_inv_owing b s \<Longrightarrow> t_inv (batch_reject b e s)"
  by (auto simp: t_inv_owing_def t_inv_def batch_reject_def say_def refreshListDelayed_def nth_list_update)

lemma batch_fulfil_inv: "t_inv_owing b s \<Longrightarrow> t_inv (batch_fulfil b s)"
  by (auto simp: t_inv_owing_def t_inv_def batch_fulfil_def say_def refreshListDelayed_def nth_list_update Let_def)

lemma send_import_inv: "t_inv_owing b s \<Longrightarrow> t_inv (send url body (ImportChain b f) s)"
  by (auto simp: t_inv_owing_def t_inv_def send_def tasks_def)

lemma send_inv: "t_inv s \<Longrightarrow> switch_names [c] = [] \<Longrightarrow> \<not> is_clone c \<Longrightarrow> (\<And>b. \<not> of_batch b c) \<Longrightarrow> batch_bounded (length (t_batches s)) c \<Longrightarrow>
    t_inv (send url body c s)"
  by (auto simp: t_inv_def send_def tasks_def)

lemma take_batch_chain:
  assumes "t_inv s" "t_chains s = xs @ c # ys" "of_batch b c"
  shows "t_inv_owing b (s\<lparr>t_chains := xs @ ys\<rparr>)"
  using assms by (cases c) (auto simp: t_inv_def t_inv_owing_def tasks_def)

lemma take_other_chain:
  assumes "t_inv s" "t_chains s = xs @ c # ys" "switch_names [c] = []" "\<not> is_clone c" "\<And>b. \<not> of_batch b c"
  shows "t_inv (s\<lparr>t_chains := xs @ ys\<rparr>)"
proof -
  have "switch_names (c # ys) = switch_names ys" using assms(3) by (cases c) simp_all
  then show ?thesis using assms(1,2,4,5) by (auto simp: t_inv_def tasks_def)
qed

lemma chain_answer_inv:
  assumes "t_inv s" "t_chains s = xs @ c # ys"
  shows "t_inv (chain_answer c reply (s\<lparr>t_chains := xs @ ys\<rparr>))"
proof (cases c)
  case (SwitchChain gen i r p n)
  let ?n = "js_string (row_name r)"
  have p: "mutationPending (t_page s) = switch_names xs @ ?n # switch_names ys" "distinct (mutationPending (t_page s))"
    using assms SwitchChain by (simp_all add: t_inv_def)
  then have d: "?n \<notin> set (switch_names xs)" "?n \<notin> set (switch_names ys)" "distinct (switch_names xs @ switch_names ys)" by simp_all
  have f: "filter (\<lambda>m. m \<noteq> ?n) (switch_names xs @ ?n # switch_names ys) = switch_names xs @ switch_names ys"
  proof -
    have "filter (\<lambda>m. m \<noteq> ?n) zs = zs" if "?n \<notin> set zs" for zs using that by (induction zs) auto
    then show ?thesis using d(1,2) by simp
  qed
  have "t_inv (s1\<lparr>t_page := (t_page s1)\<lparr>mutationPending := filter (\<lambda>m. m \<noteq> ?n) (mutationPending (t_page s1))\<rparr>\<rparr>)"
    if "t_chains s1 = xs @ ys" "mutationPending (t_page s1) = mutationPending (t_page s)" "t_batches s1 = t_batches s" "clonePending s1 = clonePending s"
      "inflight (t_page s1) = inflight (t_page s)" for s1
    using assms that SwitchChain d p f by (auto simp: t_inv_def tasks_def)
  note settled = this
  show ?thesis unfolding SwitchChain chain_answer.simps switch_answer_def Let_def
    by (rule settled) (auto simp: say_def change_row_def refreshListDelayed_def split: t_reply.splits)
next
  case (CloneChain nm)
  then have "t_inv (s\<lparr>t_chains := xs @ ys, clonePending := False\<rparr>)" using assms by (auto simp: t_inv_def tasks_def split: if_splits)
  then show ?thesis using CloneChain
    by (auto simp: clone_answer_def Let_def t_inv_def say_def refreshListDelayed_def split: t_reply.splits)
next
  case (ReadChain b f)
  then show ?thesis using take_batch_chain [OF assms, of b] batch_reject_inv send_import_inv
    by (auto simp: read_done_def split: option.splits)
next
  case (ImportChain b f)
  then show ?thesis using take_batch_chain [OF assms, of b] batch_reject_inv batch_fulfil_inv
    by (auto simp: import_answer_def split: t_reply.splits)
qed (use take_other_chain [OF assms] in \<open>auto simp: delete_answer_def bandwidth_answer_def check_answer_def Let_def split: t_reply.splits\<close>)

lemma mixin_inv:
  assumes "list_all (\<lambda>c. \<exists>i. c = Load i KNone) (inflight p)" "mixin_used e"
  shows "mutationPending (ui_step p e) = mutationPending p" "list_all (\<lambda>c. \<exists>i. c = Load i KNone) (inflight (ui_step p e))"
proof -
  have "mutationPending (ui_step p (Answer k r)) = mutationPending p \<and> list_all (\<lambda>c. \<exists>i. c = Load i KNone) (inflight (ui_step p (Answer k r)))" for k r
  proof (cases "k < length (inflight p)")
    case True
    then obtain i where "inflight p ! k = Load i KNone" using assms(1) by (auto simp: list_all_length)
    then show ?thesis using True assms(1) by (auto simp: list_all_iff remove_nth_def dest: in_set_takeD in_set_dropD)
  qed (use assms in simp)
  then show "mutationPending (ui_step p e) = mutationPending p" "list_all (\<lambda>c. \<exists>i. c = Load i KNone) (inflight (ui_step p e))"
    using assms by (cases e; simp add: loadList_def Let_def)+
qed

lemma invokeSetDisabled_inv: "t_inv s \<Longrightarrow> t_inv (invokeSetDisabled i en s)"
  by (auto simp: t_inv_def invokeSetDisabled_def Let_def send_def pending_truthy_def tasks_def)

lemma invokeClone_inv: "t_inv s \<Longrightarrow> t_inv (invokeClone uuid row s)"
  by (auto simp: t_inv_def invokeClone_def send_def tasks_def split: option.splits)

lemma no_tasks_yet: "t_inv s \<Longrightarrow> tasks (length (t_batches s)) (t_chains s) = 0"
proof -
  assume s: "t_inv s"
  have "\<not> of_batch (length (t_batches s)) c" if "batch_bounded (length (t_batches s)) c" for c using that by (cases c) auto
  then show ?thesis using s by (auto simp: t_inv_def tasks_def list_all_iff filter_empty_conv)
qed

lemma invokeImport_inv: "t_inv s \<Longrightarrow> t_inv (invokeImport fs s)"
proof -
  assume s: "t_inv s"
  have "tasks (length (t_batches s)) (t_chains s) = 0" by (rule no_tasks_yet [OF s])
  moreover have "batch_bounded n c \<Longrightarrow> batch_bounded (Suc n) c" for n c by (cases c) auto
  ultimately show ?thesis using s
    by (auto simp: t_inv_def invokeImport_def say_def nth_append less_Suc_eq list_all_iff)
qed

lemma other_sends_inv:
  assumes "t_inv s"
  shows "t_inv (invokeConfirmDelete s)" "t_inv (invokeBandwidthTest i s)" "t_inv (invokeCheckServer ty s)" "t_inv (invokeDelete r s)"
proof -
  have c: "t_inv (invokeCheckServerPhase ty a ph s)" if "t_inv s" for ty a ph s
    unfolding invokeCheckServerPhase_def by (rule send_inv [OF that]) simp_all
  show "t_inv (invokeCheckServer ty s)" using assms by (simp add: invokeCheckServer_def Let_def c)
  show "t_inv (invokeConfirmDelete s)" unfolding invokeConfirmDelete_def by (rule send_inv [OF assms]) simp_all
  have b: "t_inv (s\<lparr>bandwidthPendingName := v\<rparr>)" for v using assms by simp
  show "t_inv (invokeBandwidthTest i s)" unfolding invokeBandwidthTest_def Let_def using assms send_inv [OF b] by simp
  show "t_inv (invokeDelete r s)" using assms by (simp add: invokeDelete_def)
qed

lemma t_step_inv:
  assumes "t_inv s"
  shows "t_inv (t_step s e)"
proof (cases e)
  case (Mixin v)
  then show ?thesis using assms mixin_inv [of "t_page s" v] by (auto simp: t_inv_def)
next
  case (Reply_to k reply)
  then show ?thesis using assms chain_split [of k "t_chains s"] chain_answer_inv [OF assms] by auto
next
  case RefreshTimer
  then show ?thesis using assms by (auto simp: tableData_def t_inv_def loadList_def Let_def)
qed (use assms in \<open>auto simp: with_row_def Let_def invokeSetDisabled_inv invokeClone_inv invokeImport_inv other_sends_inv\<close>)

lemma reachable_t_inv: "t_reachable s \<Longrightarrow> t_inv s"
proof (induction rule: t_reachable.induct)
  case t_start
  show ?case by (simp add: t_inv_def init_tunnel_list_def init_page_def refreshListDelayed_def)
qed (rule t_step_inv)

section \<open>Library: every import is reported\<close>

text \<open>
  The messages of imports, successes or failures. A batch in which every file was imported has no task
  left and has reported success; one in which a file failed keeps that task, has reported the
  failure once, and its other tasks report nothing more.
\<close>

fun import_text :: "t_text \<Rightarrow> bool" where
  "import_text TImported = True"
| "import_text (TFileError f) = True"
| "import_text (TNotJson f) = True"
| "import_text (TImportFailed f m) = True"
| "import_text (TImportRejected m) = True"
| "import_text t = False"

definition import_reports :: "bool \<Rightarrow> tunnel_list \<Rightarrow> nat" where
  "import_reports ok s = length (filter (\<lambda>(o1, t). o1 = ok \<and> import_text t) (t_messages s))"

definition imported :: "nat \<times> bool \<Rightarrow> bool" where
  "imported x \<longleftrightarrow> snd x \<and> fst x = 0"

definition import_failed :: "nat \<times> bool \<Rightarrow> bool" where
  "import_failed x \<longleftrightarrow> snd x \<and> 0 < fst x"

definition told :: "nat \<times> bool \<Rightarrow> nat \<Rightarrow> bool" where
  "told x n \<longleftrightarrow> (snd x \<longrightarrow> imported x \<and> n = 0 \<or> n < fst x)"

definition reports_inv :: "tunnel_list \<Rightarrow> bool" where
  "reports_inv s \<longleftrightarrow>
     import_reports True s = length (filter imported (t_batches s)) \<and> import_reports False s = length (filter import_failed (t_batches s)) \<and>
     (\<forall>b < length (t_batches s). told (t_batches s ! b) (tasks b (t_chains s)))"

lemma filter_update:
  "b < length xs \<Longrightarrow> length (filter P (xs[b := y])) + (if P (xs ! b) then 1 else 0) = length (filter P xs) + (if P y then 1 else 0)"
proof (induction xs arbitrary: b)
  case (Cons x xs)
  then show ?case by (cases b) force+
qed simp

lemma reports_frame:
  assumes "reports_inv s" "t_batches s' = t_batches s" "\<And>b. tasks b (t_chains s') = tasks b (t_chains s)"
    "\<And>ok. import_reports ok s' = import_reports ok s"
  shows "reports_inv s'"
  using assms unfolding reports_inv_def by simp

lemma import_reports_say [simp]:
  "import_reports ok (say o1 t s) = import_reports ok s + (if o1 = ok \<and> import_text t then 1 else 0)"
  "import_reports ok (refreshListDelayed s) = import_reports ok s" "import_reports ok (change_row gen i f s) = import_reports ok s"
  by (simp_all add: import_reports_def say_def refreshListDelayed_def change_row_def)

lemma batches_frame [simp]:
  "t_batches (say o1 t s) = t_batches s" "t_batches (refreshListDelayed s) = t_batches s" "t_batches (change_row gen i f s) = t_batches s"
  "t_chains (say o1 t s) = t_chains s" "t_chains (refreshListDelayed s) = t_chains s" "t_chains (change_row gen i f s) = t_chains s"
  by (simp_all add: say_def refreshListDelayed_def change_row_def)

lemma import_reports_field:
  "import_reports ok (s\<lparr>t_page := p\<rparr>) = import_reports ok s" "import_reports ok (s\<lparr>clonePending := b\<rparr>) = import_reports ok s"
  "import_reports ok (s\<lparr>bandwidthPendingName := v\<rparr>) = import_reports ok s"
  "import_reports ok (s\<lparr>t_deleteModal := b, t_deleteData := d\<rparr>) = import_reports ok s"
  by (simp_all add: import_reports_def)

text \<open>The state in which one task of batch \<open>b\<close> has left the chains and not yet been counted.\<close>

definition reports_owing :: "nat \<Rightarrow> tunnel_list \<Rightarrow> bool" where
  "reports_owing b s \<longleftrightarrow>
     import_reports True s = length (filter imported (t_batches s)) \<and> import_reports False s = length (filter import_failed (t_batches s)) \<and>
     b < length (t_batches s) \<and> Suc (tasks b (t_chains s)) \<le> fst (t_batches s ! b) \<and>
     (snd (t_batches s ! b) \<longrightarrow> Suc (tasks b (t_chains s)) < fst (t_batches s ! b)) \<and>
     (\<forall>b' < length (t_batches s). b' \<noteq> b \<longrightarrow> told (t_batches s ! b') (tasks b' (t_chains s)))"

lemma batch_reject_reports: "reports_owing b s \<Longrightarrow> import_text t \<Longrightarrow> t \<noteq> TImported \<Longrightarrow> reports_inv (batch_reject b t s)"
  using filter_update [of b "t_batches s" imported "(fst (t_batches s ! b), True)"]
    filter_update [of b "t_batches s" import_failed "(fst (t_batches s ! b), True)"]
  by (auto simp: reports_owing_def reports_inv_def batch_reject_def nth_list_update imported_def import_failed_def import_reports_def told_def
      say_def refreshListDelayed_def)

lemma batch_fulfil_reports:
  assumes "reports_owing b s"
  shows "reports_inv (batch_fulfil b s)"
proof (cases "fst (t_batches s ! b) - 1 = 0 \<and> \<not> snd (t_batches s ! b)")
  case True
  then show ?thesis using assms filter_update [of b "t_batches s" imported "(0, True)"] filter_update [of b "t_batches s" import_failed "(0, True)"]
    by (auto simp: reports_owing_def reports_inv_def batch_fulfil_def nth_list_update imported_def import_failed_def import_reports_def told_def
        say_def refreshListDelayed_def)
next
  case False
  let ?y = "(fst (t_batches s ! b) - 1, snd (t_batches s ! b))"
  have "batch_fulfil b s = s\<lparr>t_batches := (t_batches s)[b := ?y]\<rparr>" using False by (auto simp: batch_fulfil_def Let_def)
  moreover have "imported ?y = imported (t_batches s ! b)" "import_failed ?y = import_failed (t_batches s ! b)"
    using assms False by (auto simp: reports_owing_def imported_def import_failed_def)
  ultimately show ?thesis using assms filter_update [of b "t_batches s" imported ?y] filter_update [of b "t_batches s" import_failed ?y]
    by (auto simp: reports_owing_def reports_inv_def nth_list_update import_reports_def told_def imported_def)
qed

lemma take_batch_reports:
  assumes "reports_inv s" "t_inv s" "t_chains s = xs @ c # ys" "of_batch b c"
  shows "reports_owing b (s\<lparr>t_chains := xs @ ys\<rparr>)"
proof -
  have t: "tasks b (t_chains s) = Suc (tasks b (xs @ ys))" "\<And>b'. b' \<noteq> b \<Longrightarrow> tasks b' (t_chains s) = tasks b' (xs @ ys)"
    using assms(3,4) by (cases c; simp add: tasks_def)+
  have b: "b < length (t_batches s)" using assms(2-4) by (cases c) (auto simp: t_inv_def)
  have n: "0 < tasks b (t_chains s)" using t by simp
  have "Suc (tasks b (xs @ ys)) \<le> fst (t_batches s ! b) \<and> (snd (t_batches s ! b) \<longrightarrow> Suc (tasks b (xs @ ys)) < fst (t_batches s ! b))"
    using assms(1,2) b n t(1) by (cases "snd (t_batches s ! b)") (auto simp: t_inv_def reports_inv_def told_def)
  then show ?thesis using assms(1) b t(2) [symmetric] by (simp add: reports_owing_def reports_inv_def import_reports_def del: tasks_append)
qed

lemma send_import_reports: "reports_owing b s \<Longrightarrow> reports_inv (send url body (ImportChain b f) s)"
  by (auto simp: reports_owing_def reports_inv_def send_def import_reports_def tasks_def told_def)

lemma chain_answer_reports:
  assumes "reports_inv s" "t_inv s" "t_chains s = xs @ c # ys"
  shows "reports_inv (chain_answer c reply (s\<lparr>t_chains := xs @ ys\<rparr>))"
proof -
  let ?s = "s\<lparr>t_chains := xs @ ys\<rparr>"
  have other: "reports_inv s'" if "\<And>b. \<not> of_batch b c" "t_batches s' = t_batches ?s" "t_chains s' = t_chains ?s"
    "\<And>ok. import_reports ok s' = import_reports ok ?s" for s'
    by (rule reports_frame [OF assms(1)]) (use that assms(3) in \<open>simp_all add: tasks_def import_reports_def\<close>)
  note batch = take_batch_reports [OF assms]
  show ?thesis
  proof (cases c)
    case (ReadChain b f)
    then show ?thesis using batch [of b] batch_reject_reports send_import_reports by (auto simp: read_done_def split: option.splits)
  next
    case (ImportChain b f)
    then show ?thesis using batch [of b] batch_reject_reports batch_fulfil_reports
      by (auto simp: import_answer_def split: t_reply.splits)
  qed (rule other; simp add: switch_answer_def clone_answer_def delete_answer_def bandwidth_answer_def check_answer_def Let_def
      import_reports_field split: t_reply.split)+
qed

lemma t_step_reports:
  assumes "reports_inv s" "t_inv s"
  shows "reports_inv (t_step s e)"
proof (cases e)
  case (Reply_to k reply)
  then show ?thesis using assms(1) chain_split [of k "t_chains s"] chain_answer_reports [OF assms] by auto
next
  case (ImportFiles fs)
  have "tasks (length (t_batches s)) (t_chains s) = 0" by (rule no_tasks_yet [OF assms(2)])
  then show ?thesis using ImportFiles assms(1)
    by (auto simp: invokeImport_def reports_inv_def import_reports_def say_def nth_append less_Suc_eq imported_def import_failed_def told_def)
qed (rule reports_frame [OF assms(1)]; simp add: with_row_def Let_def invokeSetDisabled_def invokeClone_def invokeConfirmDelete_def
    invokeBandwidthTest_def invokeDelete_def invokeCheckServer_def invokeCheckServerPhase_def send_def tableData_def onCurrentChange_def
    syncTargetAddr_def import_reports_def say_def tasks_def split: option.split)+

lemma reachable_reports: "t_reachable s \<Longrightarrow> reports_inv s"
proof (induction rule: t_reachable.induct)
  case t_start
  show ?case by (simp add: reports_inv_def init_tunnel_list_def refreshListDelayed_def import_reports_def)
qed (use t_step_reports reachable_t_inv in blast)

text \<open>Only a report of an import changes their number, and it asks for the list.\<close>

lemma chain_report_refreshes: "import_reports ok (chain_answer c reply s) \<noteq> import_reports ok s \<Longrightarrow> listRefreshTimer (chain_answer c reply s)"
proof (cases c)
  case (ReadChain b f)
  moreover have "import_reports ok (send url body c1 s) = import_reports ok s" for url body c1 by (simp add: send_def import_reports_def)
  ultimately show "import_reports ok (chain_answer c reply s) \<noteq> import_reports ok s \<Longrightarrow> listRefreshTimer (chain_answer c reply s)"
    by (auto simp: read_done_def batch_reject_def refreshListDelayed_def split: option.splits if_splits)
next
  case (ImportChain b f)
  moreover have "import_reports ok (s\<lparr>t_batches := bs\<rparr>) = import_reports ok s" for bs by (simp add: import_reports_def)
  ultimately show "import_reports ok (chain_answer c reply s) \<noteq> import_reports ok s \<Longrightarrow> listRefreshTimer (chain_answer c reply s)"
    by (auto simp: import_answer_def batch_reject_def batch_fulfil_def Let_def refreshListDelayed_def split: t_reply.splits if_splits)
qed (simp_all add: switch_answer_def clone_answer_def delete_answer_def bandwidth_answer_def check_answer_def Let_def
      import_reports_field split: t_reply.split_asm if_splits)

lemma quiet_steps: "(\<And>k reply. e \<noteq> Reply_to k reply) \<Longrightarrow> import_reports ok (t_step s e) = import_reports ok s"
proof (cases e)
  case (Reply_to k reply)
  then show "(\<And>k reply. e \<noteq> Reply_to k reply) \<Longrightarrow> ?thesis" by blast
qed (simp_all add: with_row_def Let_def invokeSetDisabled_def invokeClone_def invokeConfirmDelete_def
    invokeBandwidthTest_def invokeDelete_def invokeCheckServer_def invokeCheckServerPhase_def send_def tableData_def onCurrentChange_def
    syncTargetAddr_def import_reports_def say_def invokeImport_def split: option.split)

lemma report_refreshes: "import_reports ok (t_step s e) \<noteq> import_reports ok s \<Longrightarrow> listRefreshTimer (t_step s e)"
proof (cases e)
  case (Reply_to k reply)
  moreover have "import_reports ok (s\<lparr>t_chains := cs\<rparr>) = import_reports ok s" for cs by (simp add: import_reports_def)
  ultimately show "import_reports ok (t_step s e) \<noteq> import_reports ok s \<Longrightarrow> listRefreshTimer (t_step s e)"
    using chain_report_refreshes [of ok "t_chains s ! k" reply "s\<lparr>t_chains := remove_nth k (t_chains s)\<rparr>"] by (auto split: if_splits)
qed (use quiet_steps [of e ok s] in simp_all)

section \<open>The page and the API\<close>

text \<open>The server of the script is modelled for bodies that are objects; another text counts as one it cannot read.\<close>

definition t_request :: "string \<times> json \<Rightarrow> request" where
  "t_request p =
     (case cut CHR ''?'' (fst p) of (path, q) \<Rightarrow>
        \<lparr>rq_url = fst p, rq_path = path, rq_params = search_params q, rq_payload = (case snd p of JObject ob \<Rightarrow> Some ob | _ \<Rightarrow> None)\<rparr>)"

definition t_reply_of :: "response \<Rightarrow> t_reply" where
  "t_reply_of r =
     (case r of
        ServerError \<Rightarrow> TRejected ''Request failed with status code 500''
      | EventStream _ \<Rightarrow> TReply Undefined Undefined []
      | JsonReply ob \<Rightarrow> TReply (jsval_of_json (str_prop ''code'' ob)) (jsval_of_json (str_prop ''msg'' ob)) (object_of (str_prop ''data'' ob)))"

text \<open>The newest request is answered; the refresh timer fires and the list it asks for arrives.\<close>

definition t_roundtrip :: "backend \<Rightarrow> tunnel_list \<times> mock \<Rightarrow> tunnel_list \<times> mock" where
  "t_roundtrip be x =
     (case x of (s, m) \<Rightarrow>
        (case be (t_request (last (t_posts s))) m of (resp, m') \<Rightarrow> (t_step s (Reply_to (length (t_chains s) - 1) (t_reply_of resp)), m')))"

definition t_refresh :: "backend \<Rightarrow> tunnel_list \<times> mock \<Rightarrow> tunnel_list \<times> mock" where
  "t_refresh be x =
     (case x of (s, m) \<Rightarrow>
        let s1 = t_step s RefreshTimer in
        (case serve be (last (posts (t_page s1))) m of (r, m') \<Rightarrow> (t_step s1 (Mixin (Answer 0 r)), m')))"

definition idle :: "tunnel_list \<Rightarrow> bool" where
  "idle s \<longleftrightarrow> t_chains s = [] \<and> inflight (t_page s) = [] \<and> queryPage (t_page s) = [] \<and> listEndpoint (t_page s) = ''/api/tunnel/list'' \<and>
     rowKind (t_page s) = TunnelRow"

definition shown :: "object list \<Rightarrow> row list" where
  "shown rows = map (\<lambda>ob. normalizeTunnelRow (row_of_object ob)) rows"

lemma refresh_shows:
  assumes "idle s" "listRefreshTimer s" "\<not> mk_failList m" "map_of (mk_records m) ''tunnel'' = Some rows"
  obtains s' where "t_refresh (api dp fixture t0 t1) (s, m) = (s', m)" "idle s'" "\<not> listRefreshTimer s'" "main_data (t_page s') = shown rows"
    "listError (t_page s') = None" "\<not> listLoading (t_page s')" "mutationPending (t_page s') = mutationPending (t_page s)"
    "clonePending s' = clonePending s" "statusFilter (t_page s') = statusFilter (t_page s)" "searchText (t_page s') = searchText (t_page s)"
    "t_deleteModal s' = t_deleteModal s" "t_deleteData s' = t_deleteData s" "currentRow s' = currentRow s" "targetAddr s' = targetAddr s"
proof -
  define p where "p = loadList KNone (t_page s)"
  have p: "inflight p = [Load (listRequestId p) KNone]" "last (posts p) = (''/api/tunnel/list'', InfoBody)" "rowKind p = TunnelRow"
    using assms(1) by (simp_all add: p_def idle_def loadList_def Let_def page_url_def)
  have sv: "serve (api dp fixture t0 t1) (''/api/tunnel/list'', InfoBody) m =
      (Reply (JNum 200) Undefined (Some \<lparr>p_list = Some (map row_of_object rows),
         p_pagination = Some \<lparr>total_nums = int (length rows), page_size = 20\<rparr>, p_version = JStr ''ui-test''\<rparr>), m)"
    using api_list [of "''tunnel''" "request_of (''/api/tunnel/list'', InfoBody)" "[]" dp fixture t0 t1 m] reply_list [OF assms(3,4)]
    by (simp add: serve_def request_list)
  have st: "t_step s RefreshTimer = s\<lparr>listRefreshTimer := False, t_page := p\<rparr>"
    using assms(2) by (simp add: tableData_def p_def)
  show ?thesis
    by (rule that, unfold t_refresh_def split_conv Let_def st, simp add: p(2) sv)
      (use assms(1) p(1,3) in \<open>simp_all add: idle_def load_settle_def load_then_def load_catch_def load_finally_def remove_nth_def
        shown_def comp_def p_def loadList_def Let_def\<close>)
qed

lemma last_chain:
  assumes "t_chains s = []"
  shows "t_roundtrip be (send url body c s, m) =
    (case be (t_request (url, body)) m of (resp, m') \<Rightarrow> (chain_answer c (t_reply_of resp) (s\<lparr>t_posts := t_posts s @ [(url, body)]\<rparr>), m'))"
proof -
  have e: "s\<lparr>t_posts := ps, t_chains := []\<rparr> = s\<lparr>t_posts := ps\<rparr>" for ps
    by (rule tunnel_list.equality) (use assms in simp_all)
  show ?thesis using assms by (simp add: t_roundtrip_def send_def remove_nth_def e split: prod.split)
qed

lemma t_write:
  assumes "action \<in> {''set_disabled'', ''create'', ''edit'', ''import'', ''delete''}"
  shows "api dp fixture t0 t1 (t_request (''/api/tunnel/'' @ action, JObject body)) m =
    write_action ''tunnel'' action [] body (logged ''tunnel'' action body (t_request (''/api/tunnel/'' @ action, JObject body)) m)"
proof -
  let ?rq = "t_request (''/api/tunnel/'' @ action, JObject body)"
  have a: "CHR ''?'' \<notin> set (''/api/tunnel/'' @ action)" using assms by auto
  have "?rq = \<lparr>rq_url = ''/api/tunnel/'' @ action, rq_path = ''/api/'' @ ''tunnel'' @ ''/'' @ action, rq_params = [], rq_payload = Some body\<rparr>"
    using cut_absent [OF a] by (simp add: t_request_def search_params_def)
  then show ?thesis using api_write [OF _ assms, of "''tunnel''" ?rq body dp fixture t0 t1 m] by simp
qed

lemma t_fail_reply: "msg \<noteq> [] \<Longrightarrow> t_reply_of (fail_reply msg) = TReply (JNum 500) (JStr msg) []"
  and t_ok_reply: "t_reply_of (ok_reply []) = TReply (JNum 200) Undefined []"
  by (simp_all add: t_reply_of_def fail_reply_def ok_reply_def str_prop_def object_of_def)

text \<open>The request of a switch and its effect on the server.\<close>

lemma switch_sent:
  assumes "idle s" "i < length (main_data (t_page s))" "row_name (main_data (t_page s) ! i) = JStr nm" "\<not> pending_truthy (t_page s) nm"
  shows "t_roundtrip be (t_step s (SwitchTunnel i en), m) =
    (case be (t_request (''/api/tunnel/set_disabled'', JObject [(''name'', JString nm), (''disabled'', JBoolean (\<not> en))])) m of (resp, m') \<Rightarrow>
       (switch_answer (t_gen s) i (main_data (t_page s) ! i) (js_truthy (row_disabled (main_data (t_page s) ! i))) (\<not> en) (t_reply_of resp)
          (s\<lparr>t_page := (t_page s)\<lparr>mutationPending := mutationPending (t_page s) @ [nm]\<rparr>,
             t_posts := t_posts s @ [(''/api/tunnel/set_disabled'', JObject [(''name'', JString nm), (''disabled'', JBoolean (\<not> en))])]\<rparr>), m'))"
  using assms by (simp add: invokeSetDisabled_def Let_def last_chain idle_def entries_def List.map_filter_simps)

lemma pending_restored: "\<not> pending_truthy p nm \<Longrightarrow> filter (\<lambda>n. n \<noteq> nm) (mutationPending p @ [nm]) = mutationPending p"
  by (auto simp: pending_truthy_def filter_id_conv)

lemma switch_refused:
  assumes "idle s" "i < length (main_data (t_page s))" "row_name (main_data (t_page s) ! i) = JStr nm" "\<not> pending_truthy (t_page s) nm" "mk_failToggle m"
  obtains s' m' where "t_roundtrip (api dp fixture t0 t1) (t_step s (SwitchTunnel i en), m) = (s', m')" "t_page s' = t_page s" "idle s'"
    "mk_records m' = mk_records m" "listRefreshTimer s' = listRefreshTimer s" "t_messages s' = t_messages s @ [(False, TText (JStr toggle_failed))]"
    "mk_failList m' = mk_failList m" "mk_failSave m' = mk_failSave m" "t_gen s' = t_gen s" "mk_failToggle m'" "clonePending s' = clonePending s"
    "\<exists>u. mk_writes m' = mk_writes m @ [(''tunnel'', ''set_disabled'', u)]"
proof -
  let ?b = "[(''name'', JString nm), (''disabled'', JBoolean (\<not> en))]"
  have a: "api dp fixture t0 t1 (t_request (''/api/tunnel/'' @ ''set_disabled'', JObject ?b)) m =
      (fail_reply toggle_failed, logged ''tunnel'' ''set_disabled'' ?b (t_request (''/api/tunnel/'' @ ''set_disabled'', JObject ?b)) m)"
    using t_write [of "''set_disabled''" dp fixture t0 t1 ?b m] assms(5) by (simp add: write_action_def)
  have r: "t_reply_of (fail_reply toggle_failed) = TReply (JNum 500) (JStr toggle_failed) []" by (rule t_fail_reply) (simp add: utf8_def)
  note e = switch_sent [OF assms(1-4), of "api dp fixture t0 t1" en m, unfolded a [simplified] prod.case r]
  show ?thesis
    by (rule that [OF e]) (use assms pending_restored [OF assms(4)] in \<open>simp_all add: switch_answer_def say_def Let_def idle_def\<close>)
qed

lemma toggle_served:
  assumes "\<not> mk_failToggle m" "map_of (mk_records m) ''tunnel'' = Some rows" "x \<in> set rows" "str_prop ''name'' x = Some (JString nm)" "nm \<noteq> []"
    and b_def: "b = [(''name'', JString nm), (''disabled'', JBoolean (\<not> en))]"
  obtains as z bs y m' where "rows = as @ z # bs" "list_all (\<lambda>w. str_prop ''name'' w \<noteq> Some (JString nm)) as"
    "api dp fixture t0 t1 (t_request (''/api/tunnel/set_disabled'', JObject b)) m = (ok_reply [], m')"
    "map_of (mk_records m') = (map_of (mk_records m))(''tunnel'' \<mapsto> as @ y # bs)" "mk_failList m' = mk_failList m"
    "mk_failToggle m' = mk_failToggle m" "mk_failSave m' = mk_failSave m" "\<exists>u. mk_writes m' = mk_writes m @ [(''tunnel'', ''set_disabled'', u)]"
    "str_prop ''disabled'' y = Some (JBoolean (\<not> en))" "str_prop ''status'' y = Some (JString (if en then ''running'' else ''disabled''))"
    "str_prop ''name'' y = Some (JString nm)" "\<forall>k. k \<notin> {''disabled'', ''status''} \<longrightarrow> str_prop k y = str_prop k z"
proof -
  have n: "toggle_name [] b = Some (JString nm)" by (simp add: toggle_name_def b_def str_prop_def)
  obtain rows' where u: "update_first (\<lambda>r. str_prop ''name'' r = Some (JString nm)) (toggle_row [] b) rows = Some rows'"
    using update_first_total [of x rows "\<lambda>r. str_prop ''name'' r = Some (JString nm)"] assms(3,4) by auto
  then obtain as z bs where z: "rows = as @ z # bs" "list_all (\<lambda>a. str_prop ''name'' a \<noteq> Some (JString nm)) as" "str_prop ''name'' z = Some (JString nm)"
      "rows' = as @ toggle_row [] b z # bs" unfolding update_first_spec by blast
  let ?l = "logged ''tunnel'' ''set_disabled'' b (t_request (''/api/tunnel/set_disabled'', JObject b)) m"
  have "toggle_action ''tunnel'' [] b ?l = Some (put_records ''tunnel'' rows' ?l)"
    using assms(2) u by (simp add: toggle_action_def n)
  then have a: "api dp fixture t0 t1 (t_request (''/api/tunnel/set_disabled'', JObject b)) m = (ok_reply [], put_records ''tunnel'' rows' ?l)"
    using t_write [of "''set_disabled''" dp fixture t0 t1 b m] assms(1) by (simp add: write_action_def)
  have r: "map_of (mk_records (put_records ''tunnel'' rows' ?l)) = (map_of (mk_records m))(''tunnel'' \<mapsto> as @ toggle_row [] b z # bs)"
    by (simp add: z(4) fun_eq_iff logged_def)
  have d: "str_prop ''disabled'' b = Some (JBoolean (\<not> en))" by (simp add: b_def str_prop_def)
  show ?thesis
    by (rule that [OF z(1,2) a r]) (simp_all add: str_prop_toggle Let_def d z(3) logged_def)
qed

lemma switch_accepted:
  assumes "idle s" "i < length (main_data (t_page s))" "row_name (main_data (t_page s) ! i) = JStr nm" "\<not> pending_truthy (t_page s) nm"
    and "\<not> mk_failToggle m" "map_of (mk_records m) ''tunnel'' = Some rows" "x \<in> set rows" "str_prop ''name'' x = Some (JString nm)" "nm \<noteq> []"
  obtains s' m' as z bs y where "t_roundtrip (api dp fixture t0 t1) (t_step s (SwitchTunnel i en), m) = (s', m')" "idle s'" "listRefreshTimer s'"
    "t_page s' = (t_page s)\<lparr>main_data := (main_data (t_page s))[i := switched_row (\<not> en) (main_data (t_page s) ! i)]\<rparr>"
    "clonePending s' = clonePending s" "rows = as @ z # bs" "list_all (\<lambda>w. str_prop ''name'' w \<noteq> Some (JString nm)) as"
    "map_of (mk_records m') = (map_of (mk_records m))(''tunnel'' \<mapsto> as @ y # bs)" "mk_failList m' = mk_failList m"
    "mk_failToggle m' = mk_failToggle m" "mk_failSave m' = mk_failSave m" "\<exists>u. mk_writes m' = mk_writes m @ [(''tunnel'', ''set_disabled'', u)]"
    "str_prop ''disabled'' y = Some (JBoolean (\<not> en))" "str_prop ''status'' y = Some (JString (if en then ''running'' else ''disabled''))"
    "str_prop ''name'' y = Some (JString nm)" "\<forall>k. k \<notin> {''disabled'', ''status''} \<longrightarrow> str_prop k y = str_prop k z"
proof -
  define b where "b = [(''name'', JString nm), (''disabled'', JBoolean (\<not> en))]"
  obtain as z bs y m' where srv: "rows = as @ z # bs" "list_all (\<lambda>w. str_prop ''name'' w \<noteq> Some (JString nm)) as"
    and a: "api dp fixture t0 t1 (t_request (''/api/tunnel/set_disabled'', JObject b)) m = (ok_reply [], m')"
    and m': "map_of (mk_records m') = (map_of (mk_records m))(''tunnel'' \<mapsto> as @ y # bs)" "mk_failList m' = mk_failList m"
      "mk_failToggle m' = mk_failToggle m" "mk_failSave m' = mk_failSave m" "\<exists>u. mk_writes m' = mk_writes m @ [(''tunnel'', ''set_disabled'', u)]"
    and y: "str_prop ''disabled'' y = Some (JBoolean (\<not> en))" "str_prop ''status'' y = Some (JString (if en then ''running'' else ''disabled''))"
      "str_prop ''name'' y = Some (JString nm)" "\<forall>k. k \<notin> {''disabled'', ''status''} \<longrightarrow> str_prop k y = str_prop k z"
    by (rule toggle_served [OF assms(5-9) b_def, of dp fixture t0 t1])
  let ?s0 = "s\<lparr>t_page := (t_page s)\<lparr>mutationPending := mutationPending (t_page s) @ [nm]\<rparr>, t_posts := t_posts s @ [(''/api/tunnel/set_disabled'', JObject b)]\<rparr>"
  define s' where "s' = switch_answer (t_gen s) i (main_data (t_page s) ! i) (js_truthy (row_disabled (main_data (t_page s) ! i))) (\<not> en)
      (TReply (JNum 200) Undefined []) ?s0"
  have e: "t_roundtrip (api dp fixture t0 t1) (t_step s (SwitchTunnel i en), m) = (s', m')"
    using switch_sent [OF assms(1-4), of "api dp fixture t0 t1" en m, folded b_def] a by (simp add: t_ok_reply s'_def)
  have pg: "t_page s' = (t_page s)\<lparr>main_data := (main_data (t_page s))[i := switched_row (\<not> en) (main_data (t_page s) ! i)]\<rparr>"
    unfolding s'_def using assms(2,3) pending_restored [OF assms(4)]
    by (simp add: switch_answer_def Let_def change_row_def say_def refreshListDelayed_def)
  have f: "t_chains s' = t_chains s" "listRefreshTimer s'" "clonePending s' = clonePending s"
    unfolding s'_def by (simp_all add: switch_answer_def Let_def change_row_def say_def refreshListDelayed_def)
  then have "idle s'" using assms(1) pg by (simp add: idle_def)
  then show ?thesis using that [OF e _ f(2) pg f(3) srv m' y] by blast
qed

section \<open>Library: cloning\<close>

definition config_keys :: "string list" where
  "config_keys =
     [''mode'', ''input'', ''in_proto_cfg'', ''in_decrypt_mode'', ''in_decrypt_key'', ''in_extend'', ''output'', ''out_proto_cfg'',
      ''out_crypt_mode'', ''out_crypt_key'', ''out_extend'']"

lemma shown_prop:
  assumes "k \<notin> set row_keys" "k \<notin> {''bandwidth_mbps'', ''quality_status'', ''quality_rtt'', ''quality_loss'', ''bandwidth_status'', ''stats_display''}"
  shows "str_prop k (row_rest (normalizeTunnelRow (row_of_object ob))) = str_prop k ob"
proof -
  have "str_prop k (row_rest (row_of_object ob)) = str_prop k ob"
    using assms(1) by (simp add: row_of_object_def Let_def str_prop_def map_of_filter_key)
  moreover have "str_prop k (row_rest (normalizeTunnelRow r)) = str_prop k (row_rest r)" for r
    using assms(2) by (simp add: normalizeTunnelRow_def Let_def str_prop_assign)
      (auto simp: str_prop_def set_prop_def update_conv' delete_conv' split: option.splits)
  ultimately show ?thesis by simp
qed

lemma clone_payload_props:
  assumes "r = normalizeTunnelRow (row_of_object ob)" "str_prop ''input'' ob = Some (JString a)" "str_prop ''output'' ob = Some (JString b)"
  shows "k \<in> set config_keys \<Longrightarrow> str_prop k (clone_payload uuid nm r) = str_prop k ob"
    and "str_prop ''uuid'' (clone_payload uuid nm r) = Some (JString uuid)" "str_prop ''name'' (clone_payload uuid nm r) = Some (JString nm)"
    and "str_prop ''disabled'' (clone_payload uuid nm r) = Some (JBoolean True)" "distinct (map fst (clone_payload uuid nm r))"
proof -
  have c: "str_prop k (row_rest r) = str_prop k ob" if "k \<in> set config_keys" "k \<noteq> ''input''" "k \<noteq> ''output''" for k
    unfolding assms(1) by (rule shown_prop) (use that in \<open>auto simp: config_keys_def row_keys_def\<close>)
  have io: "row_input r = JStr a" "row_output r = JStr b"
    using assms by (simp_all add: normalizeTunnelRow_def row_of_object_def Let_def)
  have d: "distinct (map fst (clone_payload uuid nm r))" unfolding clone_payload_def Let_def by (rule distinct_literal) simp
  have p: "str_prop k (clone_payload uuid nm r) =
      (if k = ''uuid'' then Some (JString uuid) else if k = ''name'' then Some (JString nm) else if k = ''disabled'' then Some (JBoolean True)
       else if k = ''input'' then Some (JString a) else if k = ''output'' then Some (JString b)
       else if k \<in> set config_keys then str_prop k (row_rest r) else None)" for k
    unfolding clone_payload_def Let_def by (subst str_prop_literal) (simp_all add: io config_keys_def)
  show "str_prop ''uuid'' (clone_payload uuid nm r) = Some (JString uuid)" "str_prop ''name'' (clone_payload uuid nm r) = Some (JString nm)"
    "str_prop ''disabled'' (clone_payload uuid nm r) = Some (JBoolean True)" "distinct (map fst (clone_payload uuid nm r))"
    using d by (simp_all add: p)
  show "str_prop k (clone_payload uuid nm r) = str_prop k ob" if "k \<in> set config_keys"
  proof -
    have "k \<notin> {''uuid'', ''name'', ''disabled''}" using that by (auto simp: config_keys_def)
    then show ?thesis using that c assms(2,3) by (auto simp: p)
  qed
qed

lemma clone_steps:
  assumes "idle s" "\<not> clonePending s" "main_data (t_page s) = shown rows" "i < length rows"
    and "str_prop ''input'' (rows ! i) = Some (JString a)" "str_prop ''output'' (rows ! i) = Some (JString b)"
    and "\<not> mk_failSave m" "\<not> mk_failList m" "map_of (mk_records m) ''tunnel'' = Some rows"
    and "uniqueCloneName (Suc (length rows)) (shown rows) (js_string (row_name (shown rows ! i))) = Some nm"
    and p_def: "p = clone_payload uuid nm (shown rows ! i)"
  obtains s1 s2 m' where "t_roundtrip (api dp fixture t0 t1) (t_step s (CloneTunnel i uuid), m) = (s1, m')"
    "t_refresh (api dp fixture t0 t1) (s1, m') = (s2, m')" "idle s2" "\<not> clonePending s2" "\<not> listRefreshTimer s2"
    "main_data (t_page s2) = shown (created_row p # rows)" "mutationPending (t_page s2) = mutationPending (t_page s)"
    "statusFilter (t_page s2) = statusFilter (t_page s)" "searchText (t_page s2) = searchText (t_page s)"
    "map_of (mk_records m') = (map_of (mk_records m))(''tunnel'' \<mapsto> created_row p # rows)" "mk_failList m' = mk_failList m"
    "mk_failSave m' = mk_failSave m" "mk_failToggle m' = mk_failToggle m" "\<exists>u. mk_writes m' = mk_writes m @ [(''tunnel'', ''import'', p, u)]"
proof -
  let ?be = "api dp fixture t0 t1" and ?r = "shown rows ! i"
  define s0 where "s0 = onCurrentChange ?r s"
  have s0: "t_page s0 = t_page s" "t_chains s0 = t_chains s" "clonePending s0 = clonePending s" "idle s0"
    using assms(1) by (simp_all add: s0_def onCurrentChange_def syncTargetAddr_def Let_def idle_def)
  have c: "t_step s (CloneTunnel i uuid) = send ''/api/tunnel/import'' (JObject p) (CloneChain nm) (s0\<lparr>clonePending := True\<rparr>)"
  proof -
    have l: "length (shown rows) = length rows" by (simp add: shown_def)
    then have "t_step s (CloneTunnel i uuid) = invokeClone uuid (Some ?r) s0" using assms(3,4) by (simp add: with_row_def Let_def s0_def)
    then show ?thesis using assms(2,3,10) s0(1,3) l by (simp add: invokeClone_def p_def)
  qed
  obtain m1 where a: "?be (t_request (''/api/tunnel/import'', JObject p)) m = (ok_reply [], m1)"
    and m1: "map_of (mk_records m1) = (map_of (mk_records m))(''tunnel'' \<mapsto> created_row p # rows)" "mk_failList m1 = mk_failList m"
      "mk_failSave m1 = mk_failSave m" "mk_failToggle m1 = mk_failToggle m" "\<exists>u. mk_writes m1 = mk_writes m @ [(''tunnel'', ''import'', p, u)]"
    using t_write [of "''import''" dp fixture t0 t1 p m] assms(7,9) by (auto simp: write_action_def save_action_def fun_eq_iff)
  define s1 where "s1 = clone_answer nm (TReply (JNum 200) Undefined []) (s0\<lparr>clonePending := True, t_posts := t_posts s0 @ [(''/api/tunnel/import'', JObject p)]\<rparr>)"
  have r1: "t_roundtrip ?be (t_step s (CloneTunnel i uuid), m) = (s1, m1)"
    unfolding c using last_chain [of "s0\<lparr>clonePending := True\<rparr>"] s0 assms(1) a by (simp add: idle_def t_ok_reply s1_def)
  have s1: "idle s1" "listRefreshTimer s1" "\<not> clonePending s1" "t_page s1 = t_page s"
    using s0(1,4) by (simp_all add: s1_def clone_answer_def Let_def refreshListDelayed_def say_def idle_def)
  have h: "\<not> mk_failList m1" "map_of (mk_records m1) ''tunnel'' = Some (created_row p # rows)" using m1 assms(8) by simp_all
  obtain s2 where r2: "t_refresh ?be (s1, m1) = (s2, m1)" "idle s2" "\<not> listRefreshTimer s2" "main_data (t_page s2) = shown (created_row p # rows)"
    "mutationPending (t_page s2) = mutationPending (t_page s1)" "clonePending s2 = clonePending s1"
    "statusFilter (t_page s2) = statusFilter (t_page s1)" "searchText (t_page s2) = searchText (t_page s1)"
    by (rule refresh_shows [OF s1(1,2) h, of dp fixture t0 t1])
  show ?thesis by (rule that [OF r1 r2(1,2) _ r2(3,4)]) (use r2(5-8) s1(3,4) m1 in simp_all)
qed

section \<open>Properties\<close>

text \<open>
  C34: The tunnel page settles. In every state it can reach, at most one switch per tunnel name and one
  clone are waiting for the server, and the marks that block a second one belong to exactly those.
  The page has shown exactly one message of success for every import whose files were all imported and
  exactly one message of failure for every import one of whose files failed, and the step that shows it
  asks for the list. When nothing is waiting no mark is left and there are as many such messages
  as imports the user started.
\<close>

theorem tunnel_page_settles:
  assumes "t_reachable s"
  shows "distinct (switch_names (t_chains s)) \<and> mutationPending (t_page s) = switch_names (t_chains s) \<and>
    length (filter is_clone (t_chains s)) = (if clonePending s then 1 else 0) \<and>
    import_reports True s = length (filter imported (t_batches s)) \<and> import_reports False s = length (filter import_failed (t_batches s)) \<and>
    (import_reports ok (t_step s e) \<noteq> import_reports ok s \<longrightarrow> listRefreshTimer (t_step s e)) \<and>
    (t_chains s = [] \<longrightarrow> mutationPending (t_page s) = [] \<and> \<not> clonePending s \<and>
       import_reports True s + import_reports False s = length (t_batches s))"
proof -
  have inv: "t_inv s" and r: "reports_inv s" by (rule reachable_t_inv [OF assms], rule reachable_reports [OF assms])
  have "import_reports True s + import_reports False s = length (t_batches s)" if "t_chains s = []"
  proof -
    have "list_all snd (t_batches s)" using inv that by (auto simp: t_inv_def tasks_def list_all_length)
    then have "filter (\<lambda>x. \<not> imported x) (t_batches s) = filter import_failed (t_batches s)"
      by (intro filter_cong) (auto simp: list_all_iff imported_def import_failed_def)
    then show ?thesis using r sum_length_filter_compl [of imported "t_batches s"] by (simp add: reports_inv_def)
  qed
  then show ?thesis using inv r report_refreshes [of ok s e] by (auto simp: t_inv_def reports_inv_def split: if_splits)
qed

theorem tunnel_page_settles_witness:
  "let s = t_step (t_step (t_step (refreshListDelayed init_tunnel_list) (ImportFiles [(''a.tun'', Some None), (''b.tun'', Some (Some JNull))]))
             (Reply_to 0 (TRejected []))) (Reply_to 0 (TRejected []));
       s1 = t_step s (Reply_to 0 (TReply (JNum 200) Undefined []))
   in t_chains s1 = [] \<and> import_reports False s1 = 1 \<and> import_reports True s1 = 0"
proof -
  let ?s = "t_step (t_step (t_step (refreshListDelayed init_tunnel_list) (ImportFiles [(''a.tun'', Some None), (''b.tun'', Some (Some JNull))]))
             (Reply_to 0 (TRejected []))) (Reply_to 0 (TRejected []))"
  let ?s1 = "t_step ?s (Reply_to 0 (TReply (JNum 200) Undefined []))"
  have r: "t_reachable ?s1" by (intro t_reachable.intros)
  have "t_chains ?s1 = []" "t_batches ?s1 = [(1, True)]"
    by (simp_all add: refreshListDelayed_def init_tunnel_list_def invokeImport_def read_done_def batch_reject_def say_def remove_nth_def send_def
        import_answer_def batch_fulfil_def Let_def)
  then show ?thesis using tunnel_page_settles [OF r, of True RefreshTimer] unfolding Let_def by (simp add: imported_def import_failed_def)
qed

text \<open>
  C35: Switching a tunnel. A switch the server refuses leaves page and server exactly as they were and
  the tunnel free to be switched again; one it accepts shows on the row at once, and after the delayed
  refresh the page shows the list of the server, in which the first tunnel of that name is disabled or
  running as asked and every other tunnel as before.
\<close>

theorem tunnel_switch_end_to_end:
  assumes "idle s" and "i < length (main_data (t_page s))" and "row_name (main_data (t_page s) ! i) = JStr nm"
    and "\<not> pending_truthy (t_page s) nm" and "nm \<noteq> []" and "\<not> mk_failList m"
    and "map_of (mk_records m) ''tunnel'' = Some rows" and "x \<in> set rows" and "str_prop ''name'' x = Some (JString nm)"
  shows "let be = api dp fixture t0 t1;
             (s1, m1) = t_roundtrip be (t_step s (SwitchTunnel i en), m\<lparr>mk_failToggle := True\<rparr>);
             (s2, m2) = t_roundtrip be (t_step s1 (SwitchTunnel i en), m1\<lparr>mk_failToggle := False\<rparr>);
             (s3, m3) = t_refresh be (s2, m2)
         in t_page s1 = t_page s \<and> mk_records m1 = mk_records m \<and>
            row_disabled (main_data (t_page s2) ! i) = JBool (\<not> en) \<and> mutationPending (t_page s2) = mutationPending (t_page s) \<and>
            idle s3 \<and> listError (t_page s3) = None \<and>
            (\<exists>as z bs y. rows = as @ z # bs \<and> list_all (\<lambda>w. str_prop ''name'' w \<noteq> Some (JString nm)) as \<and>
               main_data (t_page s3) = shown (as @ y # bs) \<and> (\<forall>k. k \<notin> {''disabled'', ''status''} \<longrightarrow> str_prop k y = str_prop k z) \<and>
               str_prop ''disabled'' y = Some (JBoolean (\<not> en)) \<and> (isRunning (normalizeTunnelRow (row_of_object y)) \<longleftrightarrow> en))"
proof -
  let ?be = "api dp fixture t0 t1"
  obtain s1 m1 where r1: "t_roundtrip ?be (t_step s (SwitchTunnel i en), m\<lparr>mk_failToggle := True\<rparr>) = (s1, m1)" "t_page s1 = t_page s" "idle s1"
    "mk_records m1 = mk_records (m\<lparr>mk_failToggle := True\<rparr>)" "mk_failList m1 = mk_failList (m\<lparr>mk_failToggle := True\<rparr>)"
    by (rule switch_refused [OF assms(1-4), of "m\<lparr>mk_failToggle := True\<rparr>" dp fixture t0 t1 en]) simp_all
  have h: "i < length (main_data (t_page s1))" "row_name (main_data (t_page s1) ! i) = JStr nm" "\<not> pending_truthy (t_page s1) nm"
    "\<not> mk_failToggle (m1\<lparr>mk_failToggle := False\<rparr>)" "map_of (mk_records (m1\<lparr>mk_failToggle := False\<rparr>)) ''tunnel'' = Some rows"
    using assms r1 by simp_all
  obtain s2 m2 as z bs y where r2: "t_roundtrip ?be (t_step s1 (SwitchTunnel i en), m1\<lparr>mk_failToggle := False\<rparr>) = (s2, m2)" "idle s2" "listRefreshTimer s2"
    "t_page s2 = (t_page s1)\<lparr>main_data := (main_data (t_page s1))[i := switched_row (\<not> en) (main_data (t_page s1) ! i)]\<rparr>"
    and rows: "rows = as @ z # bs" "list_all (\<lambda>w. str_prop ''name'' w \<noteq> Some (JString nm)) as"
    and m2: "map_of (mk_records m2) = (map_of (mk_records (m1\<lparr>mk_failToggle := False\<rparr>)))(''tunnel'' \<mapsto> as @ y # bs)"
      "mk_failList m2 = mk_failList (m1\<lparr>mk_failToggle := False\<rparr>)"
    and y: "str_prop ''disabled'' y = Some (JBoolean (\<not> en))" "str_prop ''status'' y = Some (JString (if en then ''running'' else ''disabled''))"
      "\<forall>k. k \<notin> {''disabled'', ''status''} \<longrightarrow> str_prop k y = str_prop k z"
    by (rule switch_accepted [OF r1(3) h assms(8,9,5), of dp fixture t0 t1 en])
  have "\<not> mk_failList m2" "map_of (mk_records m2) ''tunnel'' = Some (as @ y # bs)" using m2 r1(5) assms(6) by simp_all
  then obtain s3 where r3: "t_refresh ?be (s2, m2) = (s3, m2)" "idle s3" "main_data (t_page s3) = shown (as @ y # bs)" "listError (t_page s3) = None"
    by (rule refresh_shows [OF r2(2,3), of m2 "as @ y # bs" dp fixture t0 t1])
  have d: "row_disabled (main_data (t_page s2) ! i) = JBool (\<not> en)" "mutationPending (t_page s2) = mutationPending (t_page s)"
    using r2(4) r1(2) h(1) by (simp_all add: switched_row_def normalizeTunnelRow_def Let_def)
  have run: "isRunning (normalizeTunnelRow (row_of_object y)) \<longleftrightarrow> en"
    using y by (simp add: isRunning_def normalizeTunnelRow_def row_of_object_def Let_def lower_def lower_char_def)
  show ?thesis unfolding Let_def r1(1) r2(1) r3(1) split_conv using r1(2,4) d r3(2-4) rows y(1,3) run by auto
qed

text \<open>The page as the script first sees it.\<close>

definition opened_list :: "backend \<Rightarrow> tunnel_list" where
  "opened_list be = fst (t_refresh be (refreshListDelayed init_tunnel_list, initial_mock))"

lemma opened_list_facts:
  assumes be_def: "be = api dp fixture t0 t1"
  shows "idle (opened_list be)" "main_data (t_page (opened_list be)) = shown tunnels" "mutationPending (t_page (opened_list be)) = []"
    "statusFilter (t_page (opened_list be)) = ''running''" "searchText (t_page (opened_list be)) = []" "\<not> clonePending (opened_list be)"
    "t_refresh be (refreshListDelayed init_tunnel_list, initial_mock) = (opened_list be, initial_mock)"
proof -
  let ?s = "refreshListDelayed init_tunnel_list"
  have h: "idle ?s" "listRefreshTimer ?s" "\<not> mk_failList initial_mock" "map_of (mk_records initial_mock) ''tunnel'' = Some tunnels"
    by (simp_all add: idle_def refreshListDelayed_def init_tunnel_list_def init_page_def initial_mock_def initial_records_def)
  show "idle (opened_list be)" "main_data (t_page (opened_list be)) = shown tunnels" "mutationPending (t_page (opened_list be)) = []"
    "statusFilter (t_page (opened_list be)) = ''running''" "searchText (t_page (opened_list be)) = []" "\<not> clonePending (opened_list be)"
    "t_refresh be (refreshListDelayed init_tunnel_list, initial_mock) = (opened_list be, initial_mock)"
    unfolding be_def opened_list_def
    by (rule refresh_shows [OF h, of dp fixture t0 t1]; simp add: refreshListDelayed_def init_tunnel_list_def init_page_def)+
qed

lemma shown_name: "i < length rows \<Longrightarrow> row_name (shown rows ! i) = jsval_of_json (str_prop ''name'' (rows ! i))"
  by (simp add: shown_def normalizeTunnelRow_def row_of_object_def Let_def)

theorem tunnel_switch_end_to_end_witness:
  "let be = api (\<lambda>_. None) [] [] []; s = opened_list be;
       (s1, m1) = t_roundtrip be (t_step s (SwitchTunnel 0 False), initial_mock\<lparr>mk_failToggle := True\<rparr>);
       (s2, m2) = t_roundtrip be (t_step s1 (SwitchTunnel 0 False), m1\<lparr>mk_failToggle := False\<rparr>)
   in row_disabled (main_data (t_page s2) ! 0) = JBool True"
proof -
  let ?be = "api (\<lambda>_. None) [] [] []"
  note o = opened_list_facts [of ?be "\<lambda>_. None" "[]" "[]" "[]", OF refl]
  have t: "length tunnels = 3" "str_prop ''name'' (tunnels ! 0) = Some (JString name_a)" "tunnels ! 0 \<in> set tunnels"
    by (simp_all add: tunnels_def str_prop_def)
  have h: "0 < length (main_data (t_page (opened_list ?be)))" "row_name (main_data (t_page (opened_list ?be)) ! 0) = JStr name_a"
    "\<not> pending_truthy (t_page (opened_list ?be)) name_a" "name_a \<noteq> []" "\<not> mk_failList initial_mock"
    "map_of (mk_records initial_mock) ''tunnel'' = Some tunnels"
    using t shown_name [of 0 tunnels] o
    by (simp_all add: shown_def pending_truthy_def object_prototype_keys_def name_a_def initial_mock_def initial_records_def)
  show ?thesis using tunnel_switch_end_to_end [OF o(1) h t(3,2), of "\<lambda>_. None" "[]" "[]" "[]" False]
    unfolding Let_def split_def not_False_eq_True by blast
qed

text \<open>
  C36: Cloning a tunnel. On a page that shows the server's list, cloning puts one more tunnel in front of
  it: under a name no tunnel has, disabled, under the new identifier, and with the protocol parameters
  of the original; the other tunnels stay as they are, and after the delayed refresh the page shows
  the result.
\<close>

theorem clone_end_to_end:
  assumes "idle s" and "\<not> clonePending s" and "main_data (t_page s) = shown rows" and "i < length rows"
    and "str_prop ''input'' (rows ! i) = Some (JString a)" and "str_prop ''output'' (rows ! i) = Some (JString b)"
    and "uuid \<noteq> []" and "\<not> mk_failSave m" and "\<not> mk_failList m" and "map_of (mk_records m) ''tunnel'' = Some rows"
  shows "let be = api dp fixture t0 t1;
             (s1, m1) = t_roundtrip be (t_step s (CloneTunnel i uuid), m);
             (s2, m2) = t_refresh be (s1, m1)
         in \<exists>y nm j. nm = clone_name (js_string (row_name (main_data (t_page s) ! i))) j \<and>
              map_of (mk_records m2) = (map_of (mk_records m))(''tunnel'' \<mapsto> y # rows) \<and> main_data (t_page s2) = shown (y # rows) \<and>
              list_all (\<lambda>z. prop_string (str_prop ''name'' z) \<noteq> nm) rows \<and> str_prop ''name'' y = Some (JString nm) \<and>
              str_prop ''uuid'' y = Some (JString uuid) \<and> str_prop ''disabled'' y = Some (JBoolean True) \<and>
              list_all (\<lambda>k. str_prop k y = str_prop k (rows ! i)) config_keys \<and> idle s2 \<and> \<not> clonePending s2"
proof -
  let ?be = "api dp fixture t0 t1" and ?r = "shown rows ! i" and ?rs = "shown rows"
  have r: "?r = normalizeTunnelRow (row_of_object (rows ! i))" using assms(4) by (simp add: shown_def)
  obtain nm where nm: "uniqueCloneName (Suc (length rows)) ?rs (js_string (row_name ?r)) = Some nm"
    using unique_name_found [of ?rs] by (auto simp: shown_def)
  obtain j where j: "nm = clone_name (js_string (row_name ?r)) j" "list_all (\<lambda>r. js_string (row_name r) \<noteq> nm) ?rs"
    using unique_name_fresh [OF nm] by blast
  define p where "p = clone_payload uuid nm ?r"
  note p = clone_payload_props [where uuid = uuid and nm = nm, OF r assms(5,6), folded p_def]
  obtain s1 s2 m' where c: "t_roundtrip ?be (t_step s (CloneTunnel i uuid), m) = (s1, m')" "t_refresh ?be (s1, m') = (s2, m')" "idle s2" "\<not> clonePending s2"
    "main_data (t_page s2) = shown (created_row p # rows)" "map_of (mk_records m') = (map_of (mk_records m))(''tunnel'' \<mapsto> created_row p # rows)"
    by (rule clone_steps [OF assms(1-6,8-10) nm p_def, of dp fixture t0 t1])
  have y: "str_prop k (created_row p) = str_prop k p" if "k \<noteq> ''status''" for k
    using created_row_props [OF p(5), of k] p(2) assms(7) that by simp
  have "''status'' \<notin> set config_keys" by (simp add: config_keys_def)
  then have y': "list_all (\<lambda>k. str_prop k (created_row p) = str_prop k (rows ! i)) config_keys"
    using y p(1) unfolding list_all_iff by metis
  have n: "list_all (\<lambda>z. prop_string (str_prop ''name'' z) \<noteq> nm) rows"
    using j(2) by (simp add: list_all_iff shown_def prop_string_def normalizeTunnelRow_def row_of_object_def Let_def)
  show ?thesis unfolding Let_def c(1,2) split_conv assms(3)
    by (intro exI [of _ "created_row p"] exI [of _ nm] exI [of _ j] conjI) (use j(1) c n y y' p(2-4) in simp_all)
qed

theorem clone_end_to_end_witness:
  "let be = api (\<lambda>_. None) [] [] []; s = opened_list be;
       (s1, m1) = t_roundtrip be (t_step s (CloneTunnel 0 ''u''), initial_mock);
       (s2, m2) = t_refresh be (s1, m1)
   in \<exists>y. main_data (t_page s2) = shown (y # tunnels) \<and> str_prop ''disabled'' y = Some (JBoolean True)"
proof -
  let ?be = "api (\<lambda>_. None) [] [] []"
  note o = opened_list_facts [of ?be "\<lambda>_. None" "[]" "[]" "[]", OF refl]
  have h: "0 < length tunnels" "str_prop ''input'' (tunnels ! 0) = Some (JString ''socks5x@0.0.0.0:1072'')"
    "str_prop ''output'' (tunnels ! 0) = Some (JString ''tcp_mux@154.36.173.131:4000'')" "''u'' \<noteq> []"
    "\<not> mk_failSave initial_mock" "\<not> mk_failList initial_mock" "map_of (mk_records initial_mock) ''tunnel'' = Some tunnels"
    by (simp_all add: tunnels_def str_prop_def initial_mock_def initial_records_def)
  show ?thesis using clone_end_to_end [OF o(1,6,2) h, of "\<lambda>_. None" "[]" "[]" "[]"]
    unfolding Let_def split_def by blast
qed

end
