(* ===== verification/RouteForms.thy ===== *)
theory RouteForms
  imports TunnelForm Complex_Main "HOL-Library.Multiset"
begin

text \<open>
  The edit windows of the route and service pages: the scripts of
  \<open>src/admin/view/route_input/list.html\<close>, \<open>route_output/list.html\<close> and \<open>service/list.html\<close>. Each page
  is the list mixin with a form (\<open>editModalData\<close>), a switch for \<open>enabled\<close> and its own requests.

  The form is a JavaScript object and modelled as one. The texts of the quality display are built as the
  page builds them; rounding to two decimals is exact, where the page rounds the nearest double.
\<close>

section \<open>Forms\<close>

definition array_of :: "json option \<Rightarrow> json list" where
  "array_of v = (case v of Some (JArray xs) \<Rightarrow> xs | _ \<Rightarrow> [])"

definition default_quality :: object where
  "default_quality =
     [(''download_url'', JString ''https://speed.cloudflare.com/__down?bytes=16384''),
      (''connectivity_url'', JString ''https://www.gstatic.com/generate_204''), (''download_status'', JNumber 200),
      (''connectivity_status'', JNumber 204), (''download_bytes'', JNumber 16384), (''interval_sec'', JNumber 30),
      (''timeout_ms'', JNumber 5000), (''normal_ms'', JNumber 2000)]"

definition defaultQuality :: "json option \<Rightarrow> object" where
  "defaultQuality v = object_assign default_quality (object_of v)"

definition route_input_blank :: object where
  "route_input_blank =
     [(''uuid'', JString []), (''name'', JString []), (''listen'', JString []), (''members'', JArray []), (''disabled'', JBoolean False),
      (''policy'', JString ''quality''), (''quality'', JObject (defaultQuality None))]"

definition route_input_form :: "object \<Rightarrow> object" where
  "route_input_form row =
     literal [(''uuid'', str_prop ''uuid'' row), (''name'', str_prop ''name'' row), (''listen'', str_prop ''listen'' row),
       (''members'', Some (JArray (array_of (str_prop ''members'' row)))), (''disabled'', str_prop ''disabled'' row),
       (''policy'', Some (js_or (str_prop ''policy'' row) (JString ''priority''))),
       (''quality'', Some (JObject (defaultQuality (str_prop ''quality'' row)))),
       (''probe_warnings'', Some (js_or (str_prop ''probe_warnings'' row) (JArray [])))]"

definition route_input_payload :: "object \<Rightarrow> bool \<Rightarrow> object" where
  "route_input_payload f enabled =
     literal [(''uuid'', str_prop ''uuid'' f), (''name'', str_prop ''name'' f), (''listen'', str_prop ''listen'' f),
       (''members'', str_prop ''members'' f), (''disabled'', Some (JBoolean (\<not> enabled))), (''policy'', str_prop ''policy'' f),
       (''quality'', str_prop ''quality'' f)]"

definition route_output_blank :: object where
  "route_output_blank =
     [(''uuid'', JString []), (''name'', JString []), (''in_proto'', JString ''socks5x''), (''in_addr'', JString ''0.0.0.0:1080''),
      (''in_proto_cfg'', JString []), (''members'', JArray []), (''disabled'', JBoolean False)]"

definition route_output_defaults :: "object \<Rightarrow> object" where
  "route_output_defaults f =
     AList.update ''in_proto_cfg'' (JString (protoCfg (getSideDefaults ''in'' (text_prop ''in_proto'' f) ''default'' [] []))) f"

definition route_output_proto_change :: "object \<Rightarrow> object" where
  "route_output_proto_change f =
     route_output_defaults (AList.update ''in_addr'' (JString (getDefaultInAddr (text_prop ''in_proto'' f))) f)"

definition route_output_form :: "object \<Rightarrow> object" where
  "route_output_form row =
     (case splitEndpoint (text_prop ''listen'' row) ''socks5x'' of (proto, addr) \<Rightarrow>
        literal [(''uuid'', str_prop ''uuid'' row), (''name'', str_prop ''name'' row), (''in_proto'', Some (JString proto)),
          (''in_addr'', Some (JString addr)), (''in_proto_cfg'', Some (js_or (str_prop ''in_proto_cfg'' row) (JString []))),
          (''members'', Some (JArray (array_of (str_prop ''members'' row)))), (''disabled'', str_prop ''disabled'' row)])"

definition route_output_payload :: "object \<Rightarrow> bool \<Rightarrow> object" where
  "route_output_payload f enabled =
     literal [(''uuid'', str_prop ''uuid'' f), (''name'', str_prop ''name'' f),
       (''listen'', Some (JString (buildEndpoint (text_prop ''in_proto'' f) (text_prop ''in_addr'' f)))),
       (''in_proto_cfg'', Some (js_or (str_prop ''in_proto_cfg'' f) (JString []))), (''members'', str_prop ''members'' f),
       (''disabled'', Some (JBoolean (\<not> enabled)))]"

definition service_blank :: object where
  "service_blank =
     [(''uuid'', JString []), (''name'', JString []), (''type'', JString ''echo''), (''disabled'', JBoolean False),
      (''listen'', JString ''0.0.0.0:8081''), (''listen_port'', JNumber 1080), (''tcp_timeout'', JNumber 300),
      (''udp_timeout'', JNumber 120), (''username'', JString []), (''password'', JString [])]"

definition service_form :: "object \<Rightarrow> object" where
  "service_form row =
     literal [(''uuid'', str_prop ''uuid'' row), (''name'', str_prop ''name'' row), (''type'', str_prop ''type'' row),
       (''disabled'', str_prop ''disabled'' row), (''listen'', Some (js_or (str_prop ''listen'' row) (JString []))),
       (''listen_port'', Some (js_or (str_prop ''listen_port'' row) (JNumber 1080))),
       (''tcp_timeout'', Some (js_or (str_prop ''tcp_timeout'' row) (JNumber 300))),
       (''udp_timeout'', Some (js_or (str_prop ''udp_timeout'' row) (JNumber 120))),
       (''username'', Some (js_or (str_prop ''username'' row) (JString []))),
       (''password'', Some (js_or (str_prop ''password'' row) (JString [])))]"

definition service_payload :: "object \<Rightarrow> bool \<Rightarrow> object" where
  "service_payload f enabled =
     literal [(''uuid'', str_prop ''uuid'' f), (''name'', str_prop ''name'' f), (''type'', str_prop ''type'' f),
       (''disabled'', Some (JBoolean (\<not> enabled))), (''listen'', str_prop ''listen'' f), (''listen_port'', str_prop ''listen_port'' f),
       (''tcp_timeout'', str_prop ''tcp_timeout'' f), (''udp_timeout'', str_prop ''udp_timeout'' f),
       (''username'', str_prop ''username'' f), (''password'', str_prop ''password'' f)]"

definition handleTypeChange :: "object \<Rightarrow> object" where
  "handleTypeChange f =
     (let ty = str_prop ''type'' f; default = (\<lambda>k v f. if json_truthy (str_prop k f) then f else AList.update k v f) in
      if ty = Some (JString ''echo'') then AList.update ''listen'' (JString ''0.0.0.0:8081'') f
      else if ty = Some (JString ''http_proxy'') then AList.update ''listen'' (JString ''0.0.0.0:3128'') f
      else default ''udp_timeout'' (JNumber 120) (default ''tcp_timeout'' (JNumber 300) (AList.update ''listen_port'' (JNumber 1080) f)))"

definition isAddrType :: "object \<Rightarrow> bool" where
  "isAddrType f \<longleftrightarrow> str_prop ''type'' f \<in> {Some (JString ''echo''), Some (JString ''http_proxy'')}"

definition isSocksType :: "object \<Rightarrow> bool" where
  "isSocksType f \<longleftrightarrow> str_prop ''type'' f \<in> {Some (JString ''socks5_server''), Some (JString ''socks5x_server'')}"

section \<open>The order of the members\<close>

text \<open>\<open>splice(index, 1)\<close> and \<open>splice(target, 0, name)\<close>; \<open>index\<close> is a position of the list shown.\<close>

definition move_item :: "nat \<Rightarrow> int \<Rightarrow> 'a list \<Rightarrow> 'a list" where
  "move_item index delta ms =
     (let target = int index + delta in
      if target < 0 \<or> target \<ge> int (length ms) then ms
      else let rest = remove_nth index ms in take (nat target) rest @ ms ! index # drop (nat target) rest)"

definition moveMember :: "nat \<Rightarrow> int \<Rightarrow> object \<Rightarrow> object" where
  "moveMember index delta f =
     AList.update ''members'' (JArray (move_item index delta (array_of (str_prop ''members'' f)))) f"

section \<open>Labels\<close>

text \<open>\<open>toFixed(2)\<close> of a non-negative number.\<close>

definition fixed2 :: "rat \<Rightarrow> string" where
  "fixed2 x =
     (let n = nat \<lfloor>x * 100 + 1 / 2\<rfloor>; d = n mod 100
      in show_nat (n div 100) @ ''.'' @ (if d < 10 then ''0'' else []) @ show_nat d)"

definition month_gigabytes :: "int \<Rightarrow> int \<Rightarrow> rat" where
  "month_gigabytes bytes interval = of_int bytes * (of_int (30 * 86400) / of_int interval) / 1000000000"

definition qualityTraffic :: "object \<Rightarrow> string" where
  "qualityTraffic f =
     (let q = object_of (str_prop ''quality'' f); count = length (array_of (str_prop ''members'' f)) in
      case (number_of (str_prop ''download_bytes'' q), number_of (str_prop ''interval_sec'' q)) of
        (Some bytes, Some interval) \<Rightarrow>
          if bytes > 0 \<and> interval > 0 then
            let per = month_gigabytes bytes interval in
            utf8 [233, 162, 132, 232, 174, 161, 230, 175, 143, 230, 156, 136, 230, 173, 163, 230, 150, 135, 230, 181, 129, 233, 135, 143, 239, 188, 154, 230, 175, 143, 230, 157, 161] @ '' '' @ fixed2 per @ '' GB'' @ utf8 [239, 188, 140] @ show_nat count @ '' '' @ utf8 [230, 157, 161, 229, 133, 177] @ '' '' @ fixed2 (per * of_nat count) @
            '' GB'' @ utf8 [239, 188, 136] @ ''30 '' @ utf8 [229, 164, 169, 239, 188, 155, 228, 184, 141, 229, 144, 171] @ '' TLS'' @ utf8 [227, 128, 129, 229, 141, 143, 232, 174, 174, 229, 143, 138, 233, 135, 141, 228, 188, 160, 229, 188, 128, 233, 148, 128, 239, 188, 137, 227, 128, 130]
          else utf8 [232, 175, 183, 229, 161, 171, 229, 134, 153, 230, 156, 137, 230, 149, 136, 231, 154, 132, 228, 184, 139, 232, 189, 189, 229, 173, 151, 232, 138, 130, 230, 149, 176, 229, 146, 140, 230, 142, 162, 230, 181, 139, 233, 151, 180, 233, 154, 148, 227, 128, 130]
      | _ \<Rightarrow> utf8 [232, 175, 183, 229, 161, 171, 229, 134, 153, 230, 156, 137, 230, 149, 136, 231, 154, 132, 228, 184, 139, 232, 189, 189, 229, 173, 151, 232, 138, 130, 230, 149, 176, 229, 146, 140, 230, 142, 162, 230, 181, 139, 233, 151, 180, 233, 154, 148, 227, 128, 130])"

definition policyLabel :: "object \<Rightarrow> string" where
  "policyLabel row =
     (if str_prop ''probe_mode'' row = Some (JString ''legacy_frame'') then utf8 [228, 188, 152, 229, 133, 136, 231, 186, 167, 230, 149, 133, 233, 154, 156, 232, 189, 172, 231, 167, 187, 239, 188, 136, 230, 151, 167, 231, 137, 136, 229, 141, 149, 232, 183, 179, 230, 142, 162, 230, 181, 139, 239, 188, 137]
      else if str_prop ''policy'' row = Some (JString ''quality'') then utf8 [229, 174, 140, 230, 149, 180, 233, 147, 190, 232, 183, 175, 232, 180, 168, 233, 135, 143, 233, 128, 137, 232, 183, 175]
      else utf8 [228, 188, 152, 229, 133, 136, 231, 186, 167, 230, 149, 133, 233, 154, 156, 232, 189, 172, 231, 167, 187, 239, 188, 136, 229, 174, 140, 230, 149, 180, 233, 147, 190, 232, 183, 175, 239, 188, 137])"

text \<open>\<open>status\<close> is one of the words the server sends.\<close>

definition quality_label :: "json option \<Rightarrow> string" where
  "quality_label status =
     (if status = Some (JString ''normal'') then utf8 [230, 173, 163, 229, 184, 184]
      else if status = Some (JString ''slow'') then utf8 [230, 133, 162]
      else if status = Some (JString ''failed'') then utf8 [229, 164, 177, 232, 180, 165]
      else if status = Some (JString ''common_failure'') then utf8 [229, 133, 177, 229, 144, 140, 229, 164, 177, 232, 180, 165]
      else utf8 [232, 175, 132, 228, 188, 176, 228, 184, 173])"

definition memberStatus :: "object \<Rightarrow> string \<Rightarrow> ui_text + string" where
  "memberStatus row name =
     (case str_prop name (object_of (str_prop ''member_quality'' row)) of
        Some (JObject q) \<Rightarrow> Inr (quality_label (str_prop ''status'' q))
      | _ \<Rightarrow> Inl (healthLabel (jsval_of_json (str_prop name (object_of (str_prop ''member_health'' row))))))"

definition qualityText :: "object \<Rightarrow> string \<Rightarrow> string" where
  "qualityText row name =
     (case str_prop name (object_of (str_prop ''member_quality'' row)) of
        Some (JObject q) \<Rightarrow>
          let show = (\<lambda>k. prop_string (str_prop k q)); n = (\<lambda>k. number_of (str_prop k q)) in
          quality_label (str_prop ''status'' q) @
          (if str_prop ''policy'' row = Some (JString ''quality'')
           then '' '' @ utf8 [194, 183] @ '' '' @ utf8 [228, 184, 141, 232, 137, 175] @ '' '' @ show ''bad_samples'' @ ''/'' @ show ''samples'' @ utf8 [239, 188, 136, 231, 170, 151, 229, 143, 163] @ '' 20 '' @ utf8 [230, 172, 161, 239, 188, 137] @
                (case n ''samples'' of Some k \<Rightarrow> if k < 20 then '' '' @ utf8 [194, 183] @ '' '' @ utf8 [232, 175, 132, 228, 188, 176, 228, 184, 173] else [] | None \<Rightarrow> [])
           else []) @
          '' '' @ utf8 [194, 183] @ '' '' @ utf8 [232, 191, 158, 231, 187, 173, 229, 164, 177, 232, 180, 165] @ '' '' @ show ''consecutive_failures'' @ '' '' @ utf8 [194, 183] @ '' '' @ utf8 [232, 191, 158, 231, 187, 173, 230, 173, 163, 229, 184, 184] @ '' '' @
          prop_string (Some (js_or (str_prop ''consecutive_normal'' q) (JNumber 0))) @
          (case n ''last_duration_ms'' of Some k \<Rightarrow> if k > 0 then '' '' @ utf8 [194, 183] @ '' '' @ show ''last_duration_ms'' @ '' ms'' else [] | None \<Rightarrow> []) @
          (if json_truthy (str_prop ''connectivity'' q)
           then (if str_prop ''connectivity'' q = Some (JString ''ok'') then '' '' @ utf8 [194, 183] @ '' '' @ utf8 [232, 191, 158, 233, 128, 154, 231, 161, 174, 232, 174, 164, 230, 136, 144, 229, 138, 159] else '' '' @ utf8 [194, 183] @ '' '' @ utf8 [232, 191, 158, 233, 128, 154, 231, 161, 174, 232, 174, 164, 229, 164, 177, 232, 180, 165]) else []) @
          (if json_truthy (str_prop ''last_error'' q) then '' '' @ utf8 [194, 183] @ '' '' @ show ''last_error'' else [])
      | _ \<Rightarrow> utf8 [232, 175, 132, 228, 188, 176, 228, 184, 173])"

section \<open>The pages\<close>

datatype config_kind = RouteInput | RouteOutput | BuiltinService

fun kind_name :: "config_kind \<Rightarrow> string" where
  "kind_name RouteInput = ''route_input''"
| "kind_name RouteOutput = ''route_output''"
| "kind_name BuiltinService = ''service''"

fun edit_form :: "config_kind \<Rightarrow> object \<Rightarrow> object" where
  "edit_form RouteInput row = route_input_form row"
| "edit_form RouteOutput row = route_output_form row"
| "edit_form BuiltinService row = service_form row"

fun create_form :: "config_kind \<Rightarrow> object" where
  "create_form RouteInput = route_input_blank"
| "create_form RouteOutput = route_output_defaults route_output_blank"
| "create_form BuiltinService = service_blank"

fun save_payload :: "config_kind \<Rightarrow> object \<Rightarrow> bool \<Rightarrow> object" where
  "save_payload RouteInput f en = route_input_payload f en"
| "save_payload RouteOutput f en = route_output_payload f en"
| "save_payload BuiltinService f en = service_payload f en"

text \<open>
  \<open>editModal\<close> and the list are in the mixin's state; \<open>cp_wait\<close> holds the requests the page makes by
  itself: the tunnel names offered as members, a deletion, a switch log.
\<close>

datatype config_text = CError ui_text | CDeleted

datatype config_wait = TunnelsWait | DeleteWait | LogWait

record config_page =
  cp :: page
  cp_data :: object
  cp_enabled :: bool
  cp_deleteModal :: bool
  cp_deleteData :: object
  cp_logModal :: bool
  cp_logName :: jsval
  cp_logData :: "json list"
  cp_wait :: "config_wait list"
  cp_posts :: "(string \<times> object) list"
  cp_messages :: "config_text list"

definition list_url :: "config_kind \<Rightarrow> string" where
  "list_url k = ''/api/'' @ kind_name k @ ''/list''"

definition save_url :: "config_kind \<Rightarrow> object \<Rightarrow> string" where
  "save_url k f = ''/api/'' @ kind_name k @ (if json_truthy (str_prop ''uuid'' f) then ''/edit'' else ''/create'')"

definition loadTunnels :: "config_page \<Rightarrow> config_page" where
  "loadTunnels s = s\<lparr>cp_posts := cp_posts s @ [(''/api/tunnel/list'', [])], cp_wait := cp_wait s @ [TunnelsWait]\<rparr>"

text \<open>The hooks \<open>created\<close> and \<open>mounted\<close>: the service page has no members.\<close>

definition config_created :: "config_kind \<Rightarrow> config_page" where
  "config_created k =
     (let s = \<lparr>cp = loadList KNone (init_page RouteRow (list_url k)),
               cp_data = (if k = BuiltinService then service_blank else if k = RouteOutput then route_output_blank
                          else AList.update ''quality'' (JObject []) route_input_blank),
               cp_enabled = True, cp_deleteModal = False, cp_deleteData = [], cp_logModal = False, cp_logName = JStr [], cp_logData = [],
               cp_wait = [], cp_posts = [], cp_messages = []\<rparr>
      in if k = BuiltinService then s else loadTunnels s)"

definition form_members :: "object \<Rightarrow> string list" where
  "form_members f = strings_of (array_of (str_prop ''members'' f))"

definition open_window :: "object \<Rightarrow> bool \<Rightarrow> config_page \<Rightarrow> config_page" where
  "open_window f en s =
     s\<lparr>cp_data := f, cp_enabled := en, cp := ui_step (cp s) (OpenEdit (Some (form_members f)))\<rparr>"

definition config_create :: "config_kind \<Rightarrow> config_page \<Rightarrow> config_page" where
  "config_create k s = open_window (create_form k) True s"

definition config_edit :: "config_kind \<Rightarrow> row \<Rightarrow> config_page \<Rightarrow> config_page" where
  "config_edit k r s = open_window (edit_form k (object_of_row r)) (\<not> js_truthy (row_disabled r)) s"

definition config_save :: "config_kind \<Rightarrow> config_page \<Rightarrow> config_page" where
  "config_save k s =
     s\<lparr>cp := saveConfiguration (save_url k (cp_data s)) (save_payload k (cp_data s) (cp_enabled s)) (cp s)\<rparr>"

definition config_change :: "(object \<Rightarrow> object) \<Rightarrow> config_page \<Rightarrow> config_page" where
  "config_change g s = s\<lparr>cp_data := g (cp_data s), cp := (cp s)\<lparr>editMembers := Some (form_members (g (cp_data s)))\<rparr>\<rparr>"

definition config_toggle :: "config_kind \<Rightarrow> row \<Rightarrow> bool \<Rightarrow> config_page \<Rightarrow> config_page" where
  "config_toggle k r en s =
     s\<lparr>cp := setDisabled r en (''/api/'' @ kind_name k @ ''/set_disabled'') (k \<noteq> BuiltinService) (cp s)\<rparr>"

definition config_delete :: "row \<Rightarrow> config_page \<Rightarrow> config_page" where
  "config_delete r s = s\<lparr>cp_deleteData := object_of_row r, cp_deleteModal := True\<rparr>"

definition config_confirm_delete :: "config_kind \<Rightarrow> config_page \<Rightarrow> config_page" where
  "config_confirm_delete k s =
     (let key = (if k = BuiltinService then ''name'' else ''uuid'') in
      s\<lparr>cp_posts := cp_posts s @ [(''/api/'' @ kind_name k @ ''/delete'', literal [(key, str_prop key (cp_deleteData s))])],
        cp_wait := cp_wait s @ [DeleteWait]\<rparr>)"

definition config_switch_log :: "config_kind \<Rightarrow> row \<Rightarrow> config_page \<Rightarrow> config_page" where
  "config_switch_log k r s =
     s\<lparr>cp_logName := row_name r, cp_logData := [], cp_logModal := True,
       cp_posts := cp_posts s @ [(''/api/'' @ kind_name k @ ''/switch_log?name='' @ encodeURIComponent (js_string (row_name r)), [])],
       cp_wait := cp_wait s @ [LogWait]\<rparr>"

text \<open>The replies; \<open>d\<close> is the data of the body.\<close>

datatype config_reply = CRejected string | CReply jsval jsval "json option"

definition config_error :: "jsval \<Rightarrow> config_page \<Rightarrow> config_page" where
  "config_error v s = s\<lparr>cp_messages := cp_messages s @ [CError (if js_truthy v then Text (js_string v) else RequestFailed)]\<rparr>"

definition cp_answer :: "config_wait \<Rightarrow> config_reply \<Rightarrow> config_page \<Rightarrow> config_page" where
  "cp_answer w reply s =
     (case reply of
        CRejected m \<Rightarrow> config_error (JStr m) s
      | CReply code msg d \<Rightarrow>
          (case w of
             TunnelsWait \<Rightarrow>
               if code \<noteq> JNum 200 then s
               else s\<lparr>cp := (cp s)\<lparr>tunnelOptions := Some (List.map_filter (\<lambda>j. case j of JObject t \<Rightarrow> Some (prop_string (str_prop ''name'' t)) | _ \<Rightarrow> None)
                                        (array_of (str_prop ''list'' (object_of d))))\<rparr>\<rparr>
           | DeleteWait \<Rightarrow>
               if code \<noteq> JNum 200 then config_error msg s
               else s\<lparr>cp := loadList KNone (cp s), cp_deleteModal := False, cp_messages := cp_messages s @ [CDeleted]\<rparr>
           | LogWait \<Rightarrow>
               if code \<noteq> JNum 200 then config_error msg s else s\<lparr>cp_logData := array_of d\<rparr>))"

section \<open>Library: the order of the members\<close>

lemma move_item_split:
  assumes "i < length ms" "0 \<le> int i + d" "int i + d < int (length ms)"
  obtains t rest where "t = nat (int i + d)" "rest = remove_nth i ms" "length rest = length ms - 1" "t \<le> length rest"
    "move_item i d ms = take t rest @ ms ! i # drop t rest"
proof -
  have "length (remove_nth i ms) = length ms - 1" using assms(1) by (simp add: remove_nth_def)
  then show ?thesis using that [of "nat (int i + d)" "remove_nth i ms"] assms by (simp add: move_item_def Let_def)
qed

lemma mset_take_one: "i < length ms \<Longrightarrow> add_mset (ms ! i) (mset (remove_nth i ms)) = mset ms"
  by (metis id_take_nth_drop mset.simps(2) mset_append remove_nth_def union_mset_add_mset_right)

lemma move_item_mset: "i < length ms \<Longrightarrow> mset (move_item i d ms) = mset ms"
proof (cases "0 \<le> int i + d \<and> int i + d < int (length ms)")
  case True
  assume i: "i < length ms"
  then obtain t rest where m: "rest = remove_nth i ms" "move_item i d ms = take t rest @ ms ! i # drop t rest"
    using move_item_split [of i ms d] True by metis
  have "mset (take t rest) + mset (drop t rest) = mset rest" by (metis append_take_drop_id mset_append)
  then show ?thesis using mset_take_one [OF i] m by simp
qed (auto simp: move_item_def)

lemma remove_inserted: "t \<le> length rest \<Longrightarrow> remove_nth t (take t rest @ x # drop t rest) = rest"
  by (simp add: remove_nth_def)

lemma move_item_place:
  assumes "i < length ms" "0 \<le> int i + d" "int i + d < int (length ms)"
  shows "move_item i d ms ! nat (int i + d) = ms ! i" "remove_nth (nat (int i + d)) (move_item i d ms) = remove_nth i ms"
    "length (move_item i d ms) = length ms"
proof -
  obtain t rest where m: "t = nat (int i + d)" "rest = remove_nth i ms" "length rest = length ms - 1" "t \<le> length rest"
      "move_item i d ms = take t rest @ ms ! i # drop t rest" using move_item_split [OF assms] .
  show "move_item i d ms ! nat (int i + d) = ms ! i" using m by (simp add: nth_append)
  show "remove_nth (nat (int i + d)) (move_item i d ms) = remove_nth i ms"
    unfolding m(5) m(1) [symmetric] remove_inserted [OF m(4)] by (rule m(2))
  show "length (move_item i d ms) = length ms" using m assms(1) by simp
qed

lemma insert_removed: "i < length ms \<Longrightarrow> take i (remove_nth i ms) @ ms ! i # drop i (remove_nth i ms) = ms"
  by (simp add: remove_nth_def min_def id_take_nth_drop [symmetric])

lemma move_item_back:
  assumes "i < length ms" "0 \<le> int i + d" "int i + d < int (length ms)"
  shows "move_item (nat (int i + d)) (- d) (move_item i d ms) = ms"
proof -
  let ?t = "nat (int i + d)"
  note p = move_item_place [OF assms]
  have "move_item ?t (- d) (move_item i d ms) = take i (remove_nth i ms) @ ms ! i # drop i (remove_nth i ms)"
    unfolding move_item_def [of ?t "- d"] Let_def p using assms by simp
  then show ?thesis using insert_removed [OF assms(1)] by simp
qed

section \<open>Library: rows as the page passes them on\<close>

definition scalar :: "json option \<Rightarrow> bool" where
  "scalar v \<longleftrightarrow> (case v of Some (JArray _) \<Rightarrow> False | Some (JObject _) \<Rightarrow> False | _ \<Rightarrow> True)"

lemma json_of_scalar [simp]: "scalar v \<Longrightarrow> json_of_jsval (jsval_of_json v) = v"
  by (auto simp: scalar_def split: option.splits json.splits)

definition config_row :: "object \<Rightarrow> bool" where
  "config_row ob \<longleftrightarrow>
     list_all (\<lambda>k. scalar (str_prop k ob)) [''uuid'', ''name'', ''status'', ''input'', ''output'', ''listen'', ''listen_port'', ''type''] \<and>
     (\<exists>b. str_prop ''disabled'' ob = Some (JBoolean b)) \<and>
     (str_prop ''members'' ob = None \<or> (\<exists>ms. str_prop ''members'' ob = Some (JArray (map JString ms))))"

lemma entries_literal: "entries kvs = literal (map (\<lambda>(k, v). (k, json_of_jsval v)) kvs)"
  by (induction kvs) (auto simp: entries_def List.map_filter_simps split: option.splits)

lemma object_row_rest: "k \<notin> set row_keys \<Longrightarrow> str_prop k (object_of_row r) = str_prop k (row_rest r)"
proof -
  assume k: "k \<notin> set row_keys"
  have e: "map_of (entries kvs) k = None" if "set (map fst kvs) \<subseteq> set row_keys" for kvs
    using that k literal_keys [of "map (\<lambda>(k, v). (k, json_of_jsval v)) kvs"] unfolding entries_literal map_of_eq_None_iff
    by (force simp: image_iff)
  have m: "map_of (case row_members r of None \<Rightarrow> [] | Some ms \<Rightarrow> [(''members'', JArray (map JString ms))]) k = None"
    using k by (auto simp: row_keys_def split: option.split)
  show ?thesis unfolding object_of_row_def str_prop_def by (simp add: map_add_def m e row_keys_def split: option.split)
qed

lemma map_of_optional: "map_of (case v of None \<Rightarrow> [] | Some j \<Rightarrow> [(k, j)]) k' = (if k' = k then v else None)"
  by (cases v) auto

lemma object_row_fields:
  assumes "\<forall>k \<in> set row_keys. map_of (row_rest r) k = None"
  shows "str_prop ''uuid'' (object_of_row r) = json_of_jsval (row_uuid r)" "str_prop ''name'' (object_of_row r) = json_of_jsval (row_name r)"
    "str_prop ''disabled'' (object_of_row r) = json_of_jsval (row_disabled r)" "str_prop ''status'' (object_of_row r) = json_of_jsval (row_status r)"
    "str_prop ''input'' (object_of_row r) = json_of_jsval (row_input r)" "str_prop ''output'' (object_of_row r) = json_of_jsval (row_output r)"
    "str_prop ''listen'' (object_of_row r) = json_of_jsval (row_listen r)" "str_prop ''listen_port'' (object_of_row r) = json_of_jsval (row_listen_port r)"
    "str_prop ''type'' (object_of_row r) = json_of_jsval (row_type r)"
    "str_prop ''members'' (object_of_row r) = map_option (\<lambda>ms. JArray (map JString ms)) (row_members r)"
proof -
  have m: "map_of (case row_members r of None \<Rightarrow> [] | Some ms \<Rightarrow> [(''members'', JArray (map JString ms))]) k =
      (if k = ''members'' then map_option (\<lambda>ms. JArray (map JString ms)) (row_members r) else None)" for k by (cases "row_members r") auto
  note f = object_of_row_def str_prop_def entries_literal map_of_optional map_add_def m
  have r: "map_of (row_rest r) k = None" if "k \<in> set row_keys" for k using assms that by blast
  show "str_prop ''uuid'' (object_of_row r) = json_of_jsval (row_uuid r)" "str_prop ''name'' (object_of_row r) = json_of_jsval (row_name r)"
    "str_prop ''disabled'' (object_of_row r) = json_of_jsval (row_disabled r)" "str_prop ''status'' (object_of_row r) = json_of_jsval (row_status r)"
    "str_prop ''input'' (object_of_row r) = json_of_jsval (row_input r)" "str_prop ''output'' (object_of_row r) = json_of_jsval (row_output r)"
    "str_prop ''listen'' (object_of_row r) = json_of_jsval (row_listen r)" "str_prop ''listen_port'' (object_of_row r) = json_of_jsval (row_listen_port r)"
    "str_prop ''type'' (object_of_row r) = json_of_jsval (row_type r)"
    "str_prop ''members'' (object_of_row r) = map_option (\<lambda>ms. JArray (map JString ms)) (row_members r)"
    by (simp_all add: f r row_keys_def split: option.split)
qed

lemma strings_of_map [simp]: "strings_of (map JString ms) = ms"
  by (induction ms) (simp_all add: strings_of_def List.map_filter_simps)

text \<open>A row read from the server, shown on a route page and handed to its form is the server's object.\<close>

lemma row_handed_on:
  assumes "config_row ob" "k \<noteq> ''member_health''"
  shows "str_prop k (object_of_row (normalize_row RouteRow (row_of_object ob))) = str_prop k ob"
proof -
  let ?r = "normalize_row RouteRow (row_of_object ob)"
  have rest: "map_of (row_rest ?r) k' = (if k' = ''member_health'' then Some (js_or (str_prop ''member_health'' (row_rest (row_of_object ob))) (JObject []))
      else if k' \<in> set row_keys then None else map_of ob k')" for k'
    using map_of_filter_key [of "\<lambda>k. k \<notin> set row_keys" k' ob]
    by (auto simp: row_of_object_def Let_def update_conv' map_of_eq_None_iff)
  show ?thesis
  proof (cases "k \<in> set row_keys")
    case False
    then show ?thesis using object_row_rest [of k ?r] rest [of k] assms(2) by (simp add: str_prop_def)
  next
    case True
    have "\<forall>k \<in> set row_keys. map_of (row_rest ?r) k = None" using rest by (auto simp: row_keys_def)
    note f = object_row_fields [OF this]
    have "list_all (\<lambda>k. str_prop k (object_of_row ?r) = str_prop k ob) row_keys"
      unfolding row_keys_def list.pred_inject f using assms(1)
      by (auto simp: config_row_def row_of_object_def Let_def)
    then show ?thesis using True by (simp add: list_all_iff)
  qed
qed

section \<open>Library: forms and payloads\<close>

text \<open>What the page would save for a row of the server opened and left as it is.\<close>

definition saved_unchanged :: "config_kind \<Rightarrow> object \<Rightarrow> object" where
  "saved_unchanged k ob =
     (let r = normalize_row RouteRow (row_of_object ob) in save_payload k (edit_form k (object_of_row r)) (\<not> js_truthy (row_disabled r)))"

lemma shown_disabled: "config_row ob \<Longrightarrow> Some (JBoolean (js_truthy (row_disabled (normalize_row RouteRow (row_of_object ob))))) = str_prop ''disabled'' ob"
  by (auto simp: config_row_def row_of_object_def Let_def)

lemma members_array: "config_row ob \<Longrightarrow> str_prop ''members'' ob \<noteq> None \<Longrightarrow> Some (JArray (array_of (str_prop ''members'' ob))) = str_prop ''members'' ob"
  by (auto simp: config_row_def array_of_def)

lemma handed_form:
  assumes "config_row ob"
  obtains row dis where "\<forall>k. k \<noteq> ''member_health'' \<longrightarrow> str_prop k row = str_prop k ob" "str_prop ''disabled'' ob = Some (JBoolean dis)"
    "\<forall>K. saved_unchanged K ob = save_payload K (edit_form K row) (\<not> dis)"
proof (rule that)
  show "\<forall>k. k \<noteq> ''member_health'' \<longrightarrow> str_prop k (object_of_row (normalize_row RouteRow (row_of_object ob))) = str_prop k ob"
    using row_handed_on [OF assms] by blast
  show "str_prop ''disabled'' ob = Some (JBoolean (js_truthy (row_disabled (normalize_row RouteRow (row_of_object ob)))))"
    by (rule shown_disabled [OF assms, symmetric])
  show "\<forall>K. saved_unchanged K ob = save_payload K (edit_form K (object_of_row (normalize_row RouteRow (row_of_object ob))))
      (\<not> js_truthy (row_disabled (normalize_row RouteRow (row_of_object ob))))"
    unfolding saved_unchanged_def Let_def by blast
qed

lemma js_or_js_or [simp]: "js_or (Some (js_or v w)) w = js_or v w"
  by (cases v) (auto simp: js_or_def)

lemma input_saved:
  assumes "config_row ob"
  shows "str_prop k (saved_unchanged RouteInput ob) =
      (case map_of [(''uuid'', str_prop ''uuid'' ob), (''name'', str_prop ''name'' ob), (''listen'', str_prop ''listen'' ob),
        (''members'', Some (JArray (array_of (str_prop ''members'' ob)))), (''disabled'', str_prop ''disabled'' ob),
        (''policy'', Some (js_or (str_prop ''policy'' ob) (JString ''priority''))),
        (''quality'', Some (JObject (defaultQuality (str_prop ''quality'' ob))))] k of None \<Rightarrow> None | Some v \<Rightarrow> v)"
proof -
  obtain row dis where h: "\<forall>k. k \<noteq> ''member_health'' \<longrightarrow> str_prop k row = str_prop k ob" "str_prop ''disabled'' ob = Some (JBoolean dis)"
      "\<forall>K. saved_unchanged K ob = save_payload K (edit_form K row) (\<not> dis)" by (rule handed_form [OF assms])
  have f: "str_prop k (route_input_form row) =
      (case map_of [(''uuid'', str_prop ''uuid'' ob), (''name'', str_prop ''name'' ob), (''listen'', str_prop ''listen'' ob),
        (''members'', Some (JArray (array_of (str_prop ''members'' ob)))), (''disabled'', str_prop ''disabled'' ob),
        (''policy'', Some (js_or (str_prop ''policy'' ob) (JString ''priority''))),
        (''quality'', Some (JObject (defaultQuality (str_prop ''quality'' ob)))),
        (''probe_warnings'', Some (js_or (str_prop ''probe_warnings'' ob) (JArray [])))] k of None \<Rightarrow> None | Some v \<Rightarrow> v)" for k
    unfolding route_input_form_def by (subst str_prop_literal) (simp_all add: h(1))
  show ?thesis unfolding h(3) [rule_format] save_payload.simps edit_form.simps route_input_payload_def
    by (subst str_prop_literal) (simp_all add: f h(2))
qed

definition split_listen :: "object \<Rightarrow> string \<times> string" where
  "split_listen ob = splitEndpoint (text_prop ''listen'' ob) ''socks5x''"

lemma output_saved:
  assumes "config_row ob"
  shows "str_prop k (saved_unchanged RouteOutput ob) =
      (case map_of [(''uuid'', str_prop ''uuid'' ob), (''name'', str_prop ''name'' ob),
        (''listen'', Some (JString (buildEndpoint (fst (split_listen ob)) (snd (split_listen ob))))),
        (''in_proto_cfg'', Some (js_or (str_prop ''in_proto_cfg'' ob) (JString []))), (''members'', Some (JArray (array_of (str_prop ''members'' ob)))),
        (''disabled'', str_prop ''disabled'' ob)] k of None \<Rightarrow> None | Some v \<Rightarrow> v)"
proof -
  obtain row dis where h: "\<forall>k. k \<noteq> ''member_health'' \<longrightarrow> str_prop k row = str_prop k ob" "str_prop ''disabled'' ob = Some (JBoolean dis)"
      "\<forall>K. saved_unchanged K ob = save_payload K (edit_form K row) (\<not> dis)" by (rule handed_form [OF assms])
  obtain q a where ep: "split_listen ob = (q, a)" by force
  have "text_prop ''listen'' row = text_prop ''listen'' ob" using h(1) by (simp add: text_prop_def)
  then have l: "splitEndpoint (text_prop ''listen'' row) ''socks5x'' = (q, a)" using ep by (simp add: split_listen_def)
  have f: "str_prop k (route_output_form row) =
      (case map_of [(''uuid'', str_prop ''uuid'' ob), (''name'', str_prop ''name'' ob), (''in_proto'', Some (JString q)), (''in_addr'', Some (JString a)),
        (''in_proto_cfg'', Some (js_or (str_prop ''in_proto_cfg'' ob) (JString []))), (''members'', Some (JArray (array_of (str_prop ''members'' ob)))),
        (''disabled'', str_prop ''disabled'' ob)] k of None \<Rightarrow> None | Some v \<Rightarrow> v)" for k
    unfolding route_output_form_def l prod.case by (subst str_prop_literal) (simp_all add: h(1))
  show ?thesis unfolding h(3) [rule_format] save_payload.simps edit_form.simps route_output_payload_def
    by (subst str_prop_literal) (simp_all add: f h(2) ep)
qed

lemma canonical_split:
  assumes "canonical_endpoint (str_prop ''listen'' ob)"
  shows "Some (JString (buildEndpoint (fst (split_listen ob)) (snd (split_listen ob)))) = str_prop ''listen'' ob"
proof -
  obtain q a where e: "str_prop ''listen'' ob = Some (JString (q @ ''@'' @ a))" "CHR ''@'' \<notin> set q" "normalizeProto q = q" "trim a = a"
    using assms unfolding canonical_endpoint_def by blast
  show ?thesis using e(1) endpoint_form [OF e(2-4)] by (simp add: split_listen_def)
qed

lemma service_saved:
  assumes "config_row ob"
  shows "str_prop k (saved_unchanged BuiltinService ob) =
      (if k \<in> {''uuid'', ''name'', ''type'', ''disabled''} then str_prop k ob
       else map_option (js_or (str_prop k ob)) (map_of [(''listen'', JString []), (''listen_port'', JNumber 1080), (''tcp_timeout'', JNumber 300),
         (''udp_timeout'', JNumber 120), (''username'', JString []), (''password'', JString [])] k))"
proof -
  obtain row dis where h: "\<forall>k. k \<noteq> ''member_health'' \<longrightarrow> str_prop k row = str_prop k ob" "str_prop ''disabled'' ob = Some (JBoolean dis)"
      "\<forall>K. saved_unchanged K ob = save_payload K (edit_form K row) (\<not> dis)" by (rule handed_form [OF assms])
  have f: "str_prop k (service_form row) =
      (if k \<in> {''uuid'', ''name'', ''type'', ''disabled''} then str_prop k ob
       else map_option (js_or (str_prop k ob)) (map_of [(''listen'', JString []), (''listen_port'', JNumber 1080), (''tcp_timeout'', JNumber 300),
         (''udp_timeout'', JNumber 120), (''username'', JString []), (''password'', JString [])] k))" for k
    unfolding service_form_def by (subst str_prop_literal) (simp_all add: h(1))
  show ?thesis unfolding h(3) [rule_format] save_payload.simps edit_form.simps service_payload_def
    by (subst str_prop_literal) (simp_all add: f h(2))
qed

section \<open>Library: saving against the API\<close>

text \<open>A click on save: the reply, and the list the page then asks for.\<close>

definition config_click :: "backend \<Rightarrow> config_kind \<Rightarrow> config_page \<times> mock \<Rightarrow> config_page \<times> mock" where
  "config_click be k x =
     (case x of (s, m) \<Rightarrow>
        let s0 = config_save k s in
        (case roundtrip be (cp s0, m) of (p1, m1) \<Rightarrow>
           if inflight p1 = [] then (s0\<lparr>cp := p1\<rparr>, m1)
           else (case roundtrip be (p1, m1) of (p2, m2) \<Rightarrow> (s0\<lparr>cp := p2\<rparr>, m2))))"

definition config_idle :: "config_kind \<Rightarrow> config_page \<Rightarrow> bool" where
  "config_idle k s \<longleftrightarrow>
     inflight (cp s) = [] \<and> \<not> saving (cp s) \<and> queryPage (cp s) = [] \<and> listEndpoint (cp s) = list_url k \<and> rowKind (cp s) = RouteRow"

lemma kind_chars: "CHR ''/'' \<notin> set (kind_name k)" "CHR ''?'' \<notin> set (kind_name k)"
  by (cases k; simp)+

lemma request_save:
  assumes "action \<in> {''create'', ''edit''}"
  shows "request_of (''/api/'' @ kind_name k @ ''/'' @ action, SaveBody p) =
    \<lparr>rq_url = ''/api/'' @ kind_name k @ ''/'' @ action, rq_path = ''/api/'' @ kind_name k @ ''/'' @ action, rq_params = [], rq_payload = Some p\<rparr>"
proof -
  have "CHR ''?'' \<notin> set (''/api/'' @ kind_name k @ ''/'' @ action)" using kind_chars(2) assms by auto
  then show ?thesis by (simp add: request_of_def cut_absent search_params_def)
qed

lemma save_sent:
  assumes "config_idle k s" "trim (text_prop ''name'' p) \<noteq> []" "action \<in> {''create'', ''edit''}"
    and u_def: "u = ''/api/'' @ kind_name k @ ''/'' @ action"
  shows "roundtrip (api dp fixture t0 t1) (saveConfiguration u p (cp s), m) =
    (case write_action (kind_name k) action [] p (logged (kind_name k) action p (request_of (u, SaveBody p)) m) of (resp, m') \<Rightarrow>
       (settle Save (reply_of resp) ((cp s)\<lparr>saving := True, posts := posts (cp s) @ [(u, SaveBody p)]\<rparr>), m'))"
proof -
  have s: "saveConfiguration u p (cp s) = (cp s)\<lparr>saving := True, posts := posts (cp s) @ [(u, SaveBody p)], inflight := [Save]\<rparr>"
    using assms(1,2) by (simp add: saveConfiguration_def config_idle_def)
  have e: "(cp s)\<lparr>saving := True, posts := ps, inflight := []\<rparr> = (cp s)\<lparr>saving := True, posts := ps\<rparr>" for ps
    by (rule page.equality) (use assms(1) in \<open>simp_all add: config_idle_def\<close>)
  have a: "api dp fixture t0 t1 (request_of (u, SaveBody p)) m = write_action (kind_name k) action [] p (logged (kind_name k) action p (request_of (u, SaveBody p)) m)"
    using api_write [OF kind_chars(1), of action "request_of (u, SaveBody p)" k p] assms(3) request_save [OF assms(3), of k p] by (auto simp: u_def)
  show ?thesis unfolding s by (simp add: roundtrip_def serve_def a remove_nth_def e split: prod.split)
qed

lemma save_refused:
  assumes "config_idle k s" "trim (text_prop ''name'' (save_payload k (cp_data s) (cp_enabled s))) \<noteq> []" "mk_failSave m"
  obtains s' m' where "config_click (api dp fixture t0 t1) k (s, m) = (s', m')" "config_idle k s'" "cp_data s' = cp_data s" "cp_enabled s' = cp_enabled s"
    "editModal (cp s') = editModal (cp s)" "main_data (cp s') = main_data (cp s)" "mk_records m' = mk_records m" "mk_failList m' = mk_failList m"
    "messages (cp s') = messages (cp s) @ [(False, Text save_failed)]"
    "mk_writes m' = mk_writes m @ [(kind_name k, drop 1 (if json_truthy (str_prop ''uuid'' (cp_data s)) then ''/edit'' else ''/create''), save_payload k (cp_data s) (cp_enabled s), save_url k (cp_data s))]"
proof -
  define p where "p = save_payload k (cp_data s) (cp_enabled s)"
  define action where "action = (if json_truthy (str_prop ''uuid'' (cp_data s)) then ''edit'' else ''create'')"
  have act: "action \<in> {''create'', ''edit''}" by (simp add: action_def)
  have u: "save_url k (cp_data s) = ''/api/'' @ kind_name k @ ''/'' @ action" by (simp add: save_url_def action_def)
  let ?l = "logged (kind_name k) action p (request_of (save_url k (cp_data s), SaveBody p)) m"
  have e: "write_action (kind_name k) action [] p ?l = (fail_reply save_failed, ?l)"
    using assms(3) act by (auto simp: write_action_def logged_def)
  have r: "reply_of (fail_reply save_failed) = Reply (JNum 500) (JStr save_failed) None" by (simp add: reply_of_def fail_reply_def str_prop_def)
  let ?p1 = "settle Save (Reply (JNum 500) (JStr save_failed) None) ((cp s)\<lparr>saving := True, posts := posts (cp s) @ [(save_url k (cp_data s), SaveBody p)]\<rparr>)"
  have rt: "roundtrip (api dp fixture t0 t1) (cp (config_save k s), m) = (?p1, ?l)"
    using save_sent [OF assms(1,2) act u, folded p_def, of dp fixture t0 t1 m] by (simp add: config_save_def p_def [symmetric] e r)
  have p1: "inflight ?p1 = []" "\<not> saving ?p1" "queryPage ?p1 = queryPage (cp s)" "listEndpoint ?p1 = listEndpoint (cp s)" "rowKind ?p1 = rowKind (cp s)"
    "editModal ?p1 = editModal (cp s)" "main_data ?p1 = main_data (cp s)" "messages ?p1 = messages (cp s) @ [(False, Text save_failed)]"
    using assms(1) by (simp_all add: mutation_error_def showError_def error_text_def config_idle_def utf8_def)
  have c: "config_click (api dp fixture t0 t1) k (s, m) = ((config_save k s)\<lparr>cp := ?p1\<rparr>, ?l)"
    by (simp add: config_click_def rt p1(1) Let_def del: settle.simps)
  show ?thesis
    by (rule that [OF c]) (use assms(1) p1 act in \<open>auto simp: config_idle_def config_save_def logged_def p_def u action_def request_of_def split: prod.split simp del: settle.simps\<close>)
qed

lemma payload_ids:
  "str_prop ''uuid'' (save_payload k f en) = str_prop ''uuid'' f" "str_prop ''name'' (save_payload k f en) = str_prop ''name'' f"
  "distinct (map fst (save_payload k f en))"
proof -
  show "str_prop ''uuid'' (save_payload k f en) = str_prop ''uuid'' f" "str_prop ''name'' (save_payload k f en) = str_prop ''name'' f"
    by (cases k; simp add: route_input_payload_def route_output_payload_def service_payload_def str_prop_literal del: literal_Cons)+
  show "distinct (map fst (save_payload k f en))"
  proof (cases k)
    case RouteInput
    show ?thesis unfolding RouteInput save_payload.simps route_input_payload_def by (rule distinct_literal) simp
  next
    case RouteOutput
    show ?thesis unfolding RouteOutput save_payload.simps route_output_payload_def by (rule distinct_literal) simp
  next
    case BuiltinService
    show ?thesis unfolding BuiltinService save_payload.simps service_payload_def by (rule distinct_literal) simp
  qed
qed

lemma form_ids:
  "str_prop ''uuid'' (edit_form k row) = str_prop ''uuid'' row" "str_prop ''name'' (edit_form k row) = str_prop ''name'' row"
  by (cases k; simp add: route_input_form_def route_output_form_def service_form_def str_prop_literal split_def del: literal_Cons)+

lemma opened_ids:
  assumes "config_row x"
  shows "str_prop ''uuid'' (edit_form k (object_of_row (normalize_row RouteRow (row_of_object x)))) = str_prop ''uuid'' x"
    "str_prop ''name'' (edit_form k (object_of_row (normalize_row RouteRow (row_of_object x)))) = str_prop ''name'' x"
  unfolding form_ids by (rule row_handed_on [OF assms], simp)+

lemma moved_ids:
  "str_prop ''uuid'' (moveMember i d f) = str_prop ''uuid'' f" "str_prop ''name'' (moveMember i d f) = str_prop ''name'' f"
  by (simp_all add: moveMember_def str_prop_def update_conv')

lemma routeFixture_row: "config_row (routeFixture ident)"
proof -
  have "str_prop ''members'' (routeFixture ident) = Some (JArray (map JString [name_a, name_b]))" by (simp add: routeFixture_def str_prop_def)
  moreover have "str_prop ''disabled'' (routeFixture ident) = Some (JBoolean False)" by (simp add: routeFixture_def str_prop_def)
  ultimately show ?thesis unfolding config_row_def by (auto simp: routeFixture_def str_prop_def scalar_def simp del: list.map)
qed

lemma list_served: "serve (api dp fixture t0 t1) (list_url k, InfoBody) m = (reply_of (list_action (kind_name k) [] m), m)"
proof -
  have ep: "CHR ''?'' \<notin> set (list_url k)" using kind_chars(2) by (simp add: list_url_def)
  define g where "g = request_of (list_url k, InfoBody)"
  have "g = \<lparr>rq_url = list_url k, rq_path = ''/api/'' @ kind_name k @ ''/list'', rq_params = [], rq_payload = Some []\<rparr>"
    unfolding g_def request_list [OF ep] by (simp add: list_url_def)
  then have "api dp fixture t0 t1 g m = (list_action (kind_name k) [] m, m)"
    using api_list [OF kind_chars(1), of g k "[]" dp fixture t0 t1 m] by simp
  then show ?thesis by (simp add: serve_def g_def [symmetric])
qed

lemma reload_saved:
  assumes "inflight p = [Load (listRequestId p) KSave]" "last (posts p) = (list_url k, InfoBody)" "\<not> mk_failList m"
    and "map_of (mk_records m) (kind_name k) = Some rows"
  shows "roundtrip (api dp fixture t0 t1) (p, m) =
    (p\<lparr>inflight := [], main_data := map (\<lambda>ob. normalize_row (rowKind p) (row_of_object ob)) rows, pageTotal := int (length rows), pageSize := 20,
       versions := versions p @ [JStr ''ui-test''], listLoading := False, saving := False\<rparr>, m)"
  by (simp add: roundtrip_def assms(1,2) list_served reply_list [OF assms(3,4)] load_settle_def load_then_def load_catch_def load_finally_def
      remove_nth_def Let_def comp_def)

lemma save_accepted:
  assumes "config_idle k s" "trim (text_prop ''name'' (cp_data s)) \<noteq> []" "\<not> mk_failSave m" "\<not> mk_failList m"
    and "map_of (mk_records m) (kind_name k) = Some (as @ x # bs)" "str_prop ''uuid'' (cp_data s) = Some (JString u)" "u \<noteq> []"
    and "str_prop ''uuid'' x = Some (JString u)" "list_all (\<lambda>z. str_prop ''uuid'' z \<noteq> Some (JString u)) as"
    and p_def: "p = save_payload k (cp_data s) (cp_enabled s)"
  obtains s' m' where "config_click (api dp fixture t0 t1) k (s, m) = (s', m')" "config_idle k s'" "\<not> editModal (cp s')" "listError (cp s') = None"
    "main_data (cp s') = map (\<lambda>ob. normalize_row RouteRow (row_of_object ob)) (as @ object_assign x p # bs)"
    "map_of (mk_records m') = (map_of (mk_records m))(kind_name k \<mapsto> as @ object_assign x p # bs)"
    "mk_writes m' = mk_writes m @ [(kind_name k, ''edit'', p, ''/api/'' @ kind_name k @ ''/edit'')]"
    "mk_failList m' = mk_failList m" "mk_failSave m' = mk_failSave m"
proof -
  have act: "''edit'' \<in> {''create'', ''edit''}" by simp
  have u: "save_url k (cp_data s) = ''/api/'' @ kind_name k @ ''/'' @ ''edit''" using assms(6,7) by (simp add: save_url_def)
  have n: "trim (text_prop ''name'' p) \<noteq> []" using assms(2) unfolding p_def text_prop_def payload_ids(2) .
  let ?rows = "as @ object_assign x p # bs"
  define l where "l = logged (kind_name k) ''edit'' p (request_of (save_url k (cp_data s), SaveBody p)) m"
  have uf: "update_first (\<lambda>r. str_prop ''uuid'' r = str_prop ''uuid'' p) (\<lambda>r. object_assign r p) (as @ x # bs) = Some ?rows"
    unfolding update_first_spec by (rule exI [of _ as], rule exI [of _ x], rule exI [of _ bs]) (use assms(6,8,9) payload_ids(1) in \<open>simp add: p_def\<close>)
  have l: "map_of (mk_records l) (kind_name k) = Some (as @ x # bs)" "\<not> mk_failSave l" "\<not> mk_failList l" using assms(3-5) by (simp_all add: l_def logged_def)
  define m1 where "m1 = put_records (kind_name k) ?rows l"
  have w: "write_action (kind_name k) ''edit'' [] p l = (ok_reply [], m1)"
    using l uf by (simp add: write_action_def save_action_def m1_def)
  define p1 where "p1 = settle Save (Reply (JNum 200) Undefined None) ((cp s)\<lparr>saving := True, posts := posts (cp s) @ [(save_url k (cp_data s), SaveBody p)]\<rparr>)"
  have rt: "roundtrip (api dp fixture t0 t1) (cp (config_save k s), m) = (p1, m1)"
    using save_sent [OF assms(1) n act u, of dp fixture t0 t1 m] by (simp add: config_save_def p_def [symmetric] l_def [symmetric] w reply_ok p1_def)
  have p1: "inflight p1 = [Load (listRequestId p1) KSave]" "last (posts p1) = (list_url k, InfoBody)" "rowKind p1 = RouteRow" "queryPage p1 = []"
      "listEndpoint p1 = list_url k" "\<not> editModal p1" "listError p1 = None"
    using assms(1) by (simp_all add: p1_def mutation_error_def config_idle_def loadList_def Let_def page_url_def)
  have m1: "\<not> mk_failList m1" "map_of (mk_records m1) (kind_name k) = Some ?rows" using l by (simp_all add: m1_def)
  note rt2 = reload_saved [OF p1(1,2) m1, of dp fixture t0 t1]
  have c: "config_click (api dp fixture t0 t1) k (s, m) = ((config_save k s)\<lparr>cp := fst (roundtrip (api dp fixture t0 t1) (p1, m1))\<rparr>, m1)"
    by (simp add: config_click_def rt p1(1) Let_def rt2)
  show ?thesis
    by (rule that [OF c], unfold rt2 fst_conv) (use p1 u in \<open>simp_all add: config_idle_def m1_def l_def logged_def request_of_def put_records_def fun_eq_iff update_conv' split: prod.split\<close>)
qed

text \<open>A page just opened, its list loaded.\<close>

definition config_opened :: "backend \<Rightarrow> config_kind \<Rightarrow> mock \<Rightarrow> config_page" where
  "config_opened be k m = (config_created k)\<lparr>cp := fst (roundtrip be (cp (config_created k), m))\<rparr>"

lemma config_opened_facts:
  assumes be_def: "be = api dp fixture t0 t1" and "\<not> mk_failList m" "map_of (mk_records m) (kind_name k) = Some rows"
  shows "config_idle k (config_opened be k m)" "main_data (cp (config_opened be k m)) = map (\<lambda>ob. normalize_row RouteRow (row_of_object ob)) rows"
    "listError (cp (config_opened be k m)) = None" "snd (roundtrip be (cp (config_created k), m)) = m"
proof -
  define p where "p = cp (config_created k)"
  have p: "p = loadList KNone (init_page RouteRow (list_url k))" by (simp add: p_def config_created_def loadTunnels_def Let_def)
  have i: "inflight p = [Load (listRequestId p) KNone]" "last (posts p) = (list_url k, InfoBody)" "rowKind p = RouteRow" "queryPage p = []"
      "listEndpoint p = list_url k" "\<not> saving p" "listError p = None"
    by (simp_all add: p init_page_def loadList_def page_url_def)
  have sv: "serve be (list_url k, InfoBody) m =
      (Reply (JNum 200) Undefined (Some \<lparr>p_list = Some (map row_of_object rows),
         p_pagination = Some \<lparr>total_nums = int (length rows), page_size = 20\<rparr>, p_version = JStr ''ui-test''\<rparr>), m)"
    unfolding be_def list_served reply_list [OF assms(2,3)] ..
  have r: "roundtrip be (p, m) = (p\<lparr>inflight := [], main_data := map (\<lambda>ob. normalize_row RouteRow (row_of_object ob)) rows,
      pageTotal := int (length rows), pageSize := 20, versions := versions p @ [JStr ''ui-test''], listLoading := False\<rparr>, m)"
    by (simp add: roundtrip_def i sv load_settle_def load_then_def load_catch_def load_finally_def remove_nth_def Let_def comp_def)
  show "config_idle k (config_opened be k m)" "main_data (cp (config_opened be k m)) = map (\<lambda>ob. normalize_row RouteRow (row_of_object ob)) rows"
    "listError (cp (config_opened be k m)) = None" "snd (roundtrip be (cp (config_created k), m)) = m"
    unfolding config_opened_def p_def [symmetric] r using i by (simp_all add: config_idle_def)
qed

section \<open>Properties\<close>

text \<open>
  C39: Opening a route or a service in its window and saving it unchanged changes nothing that was set.
  A route input keeps identity, listener, members, state and policy, and of its probe settings those that are set, the
  others becoming the defaults. A route output keeps identity, members, state and protocol settings,
  and its listener too when that is in normal form. A service keeps its identity and state and every setting
  that is not empty or zero, the others becoming the defaults of the window. Absent members become
  the empty list, an absent or empty policy \<open>priority\<close>, absent protocol settings the empty text.
\<close>

theorem config_form_keeps:
  assumes "config_row ob"
  shows "(let kept = (\<lambda>K k. str_prop k (saved_unchanged K ob) = str_prop k ob);
             kept_or = (\<lambda>K (k, d). str_prop k (saved_unchanged K ob) = (if json_truthy (str_prop k ob) then str_prop k ob else Some d));
             members = (\<lambda>K. str_prop ''members'' (saved_unchanged K ob) =
               (if str_prop ''members'' ob = None then Some (JArray []) else str_prop ''members'' ob))
         in list_all (kept RouteInput) [''uuid'', ''name'', ''listen'', ''disabled''] \<and> members RouteInput \<and>
            kept_or RouteInput (''policy'', JString ''priority'') \<and>
            (distinct (map fst (object_of (str_prop ''quality'' ob))) \<longrightarrow>
              (\<forall>k. str_prop k (object_of (str_prop ''quality'' (saved_unchanged RouteInput ob))) =
                 (case str_prop k (object_of (str_prop ''quality'' ob)) of None \<Rightarrow> str_prop k default_quality | Some v \<Rightarrow> Some v))) \<and>
            list_all (kept RouteOutput) [''uuid'', ''name'', ''disabled''] \<and> members RouteOutput \<and>
            kept_or RouteOutput (''in_proto_cfg'', JString []) \<and>
            (canonical_endpoint (str_prop ''listen'' ob) \<longrightarrow> kept RouteOutput ''listen'') \<and>
            list_all (kept BuiltinService) [''uuid'', ''name'', ''type'', ''disabled''] \<and>
            list_all (kept_or BuiltinService)
              [(''listen'', JString []), (''listen_port'', JNumber 1080), (''tcp_timeout'', JNumber 300), (''udp_timeout'', JNumber 120),
               (''username'', JString []), (''password'', JString [])])"
proof -
  have m: "Some (JArray (array_of (str_prop ''members'' ob))) = (if str_prop ''members'' ob = None then Some (JArray []) else str_prop ''members'' ob)"
    using members_array [OF assms] by (auto simp: array_of_def)
  have t: "Some (js_or v d) = (if json_truthy v then v else Some d)" for v d by (cases v) (simp_all add: js_or_def)
  have q: "str_prop ''quality'' (saved_unchanged RouteInput ob) = Some (JObject (defaultQuality (str_prop ''quality'' ob)))"
    by (simp add: input_saved [OF assms])
  have quality: "str_prop k (object_of (str_prop ''quality'' (saved_unchanged RouteInput ob))) =
      (case str_prop k (object_of (str_prop ''quality'' ob)) of None \<Rightarrow> str_prop k default_quality | Some v \<Rightarrow> Some v)"
    if "distinct (map fst (object_of (str_prop ''quality'' ob)))" for k
    using map_of_rev_distinct [OF that]
    unfolding q defaultQuality_def object_of_def [of "Some (JObject _)"] option.case json.case str_prop_assign by (simp add: str_prop_def)
  show ?thesis unfolding Let_def
    by (intro conjI impI allI quality)
      (simp_all add: input_saved [OF assms] output_saved [OF assms] service_saved [OF assms] m t canonical_split del: if_split_asm)
qed

theorem config_form_keeps_witness:
  "str_prop ''listen'' (saved_unchanged RouteOutput (routeFixture ''output'')) = Some (JString ''socks5x@[2001:db8::1]:1088'')"
proof -
  let ?ob = "routeFixture ''output''"
  have f: "str_prop ''listen'' ?ob = Some (JString (''socks5x'' @ ''@'' @ ''[2001:db8::1]:1088''))" "str_prop ''members'' ?ob = Some (JArray (map JString [name_a, name_b]))"
    by (simp_all add: routeFixture_def str_prop_def)
  note r = routeFixture_row [of "''output''"]
  have n: "normalizeProto ''socks5x'' = ''socks5x''" "trim ''[2001:db8::1]:1088'' = ''[2001:db8::1]:1088''" by code_simp+
  have "canonical_endpoint (str_prop ''listen'' ?ob)" unfolding canonical_endpoint_def f(1)
    by (rule exI [of _ "''socks5x''"], rule exI [of _ "''[2001:db8::1]:1088''"]) (simp add: n)
  then show ?thesis using config_form_keeps [OF r] f by simp
qed

text \<open>
  C40: Editing survives a failed save, on every list page with a window. Opened for a row of the list and
  changed in any way that leaves the identifier and a name (the enable switch left alone), the window stays open with the change when
  the server refuses to save, and the server is untouched; when it accepts, the window closes, the
  row has the fields sent and its other fields as before, the other rows are as before, and the page
  shows the server's list.
\<close>

theorem config_save_end_to_end:
  assumes "config_idle k s" and "main_data (cp s) ! i = normalize_row RouteRow (row_of_object x)"
    and "map_of (mk_records m) (kind_name k) = Some (as @ x # bs)" and "\<not> mk_failList m"
    and "str_prop ''uuid'' x = Some (JString u)" and "u \<noteq> []" and "list_all (\<lambda>z. str_prop ''uuid'' z \<noteq> Some (JString u)) as"
    and "f = edit_form k (object_of_row (main_data (cp s) ! i))"
    and "str_prop ''uuid'' (g f) = Some (JString u)" and "trim (text_prop ''name'' (g f)) \<noteq> []"
  shows "let be = api dp fixture t0 t1;
             s0 = config_change g (config_edit k (main_data (cp s) ! i) s);
             (s1, m1) = config_click be k (s0, m\<lparr>mk_failSave := True\<rparr>);
             (s2, m2) = config_click be k (s1, m1\<lparr>mk_failSave := False\<rparr>);
             p = save_payload k (g f) (\<not> js_truthy (row_disabled (main_data (cp s) ! i)))
         in editModal (cp s1) \<and> cp_data s1 = g f \<and> mk_records m1 = mk_records m \<and>
            \<not> editModal (cp s2) \<and> config_idle k s2 \<and> listError (cp s2) = None \<and>
            (\<exists>y. map_of (mk_records m2) = (map_of (mk_records m))(kind_name k \<mapsto> as @ y # bs) \<and>
                 main_data (cp s2) = map (\<lambda>ob. normalize_row RouteRow (row_of_object ob)) (as @ y # bs) \<and>
                 (\<forall>q. str_prop q y = (case str_prop q p of None \<Rightarrow> str_prop q x | Some v \<Rightarrow> Some v)))"
proof -
  let ?be = "api dp fixture t0 t1"
  define en where "en = (\<not> js_truthy (row_disabled (main_data (cp s) ! i)))"
  define s0 where "s0 = config_change g (config_edit k (main_data (cp s) ! i) s)"
  have s0: "config_idle k s0" "cp_data s0 = g f" "cp_enabled s0 = en" "editModal (cp s0)"
    using assms(1,8) by (simp_all add: s0_def config_change_def config_edit_def open_window_def config_idle_def en_def)
  have n0: "trim (text_prop ''name'' (save_payload k (cp_data s0) (cp_enabled s0))) \<noteq> []"
    using assms(10) unfolding s0 text_prop_def payload_ids(2) .
  obtain s1 m1 where c1: "config_click ?be k (s0, m\<lparr>mk_failSave := True\<rparr>) = (s1, m1)" "config_idle k s1" "cp_data s1 = cp_data s0" "cp_enabled s1 = cp_enabled s0"
    "editModal (cp s1) = editModal (cp s0)" "mk_records m1 = mk_records (m\<lparr>mk_failSave := True\<rparr>)" "mk_failList m1 = mk_failList (m\<lparr>mk_failSave := True\<rparr>)"
    by (rule save_refused [OF s0(1) n0, of "m\<lparr>mk_failSave := True\<rparr>" dp fixture t0 t1]) simp_all
  have h: "trim (text_prop ''name'' (cp_data s1)) \<noteq> []" "\<not> mk_failSave (m1\<lparr>mk_failSave := False\<rparr>)" "\<not> mk_failList (m1\<lparr>mk_failSave := False\<rparr>)"
    "map_of (mk_records (m1\<lparr>mk_failSave := False\<rparr>)) (kind_name k) = Some (as @ x # bs)" "str_prop ''uuid'' (cp_data s1) = Some (JString u)"
    using assms(3,4,9,10) c1 s0 by simp_all
  define p where "p = save_payload k (g f) en"
  have p: "p = save_payload k (cp_data s1) (cp_enabled s1)" by (simp add: p_def c1 s0)
  obtain s2 m2 where c2: "config_click ?be k (s1, m1\<lparr>mk_failSave := False\<rparr>) = (s2, m2)" "config_idle k s2" "\<not> editModal (cp s2)" "listError (cp s2) = None"
    "main_data (cp s2) = map (\<lambda>ob. normalize_row RouteRow (row_of_object ob)) (as @ object_assign x p # bs)"
    "map_of (mk_records m2) = (map_of (mk_records (m1\<lparr>mk_failSave := False\<rparr>)))(kind_name k \<mapsto> as @ object_assign x p # bs)"
    by (rule save_accepted [OF c1(2) h assms(6,5,7) p, of dp fixture t0 t1])
  have y: "\<forall>q. str_prop q (object_assign x p) = (case str_prop q p of None \<Rightarrow> str_prop q x | Some v \<Rightarrow> Some v)"
    using map_of_rev_distinct [OF payload_ids(3), of k "g f" en] by (simp only: str_prop_assign p_def) (simp add: str_prop_def)
  have r: "map_of (mk_records m2) = (map_of (mk_records m))(kind_name k \<mapsto> as @ object_assign x p # bs)" using c2(6) c1(6) by simp
  show ?thesis unfolding Let_def s0_def [symmetric] c1(1) c2(1) split_conv en_def [symmetric] p_def [symmetric]
    using c1(3,5,6) s0(2,4) c2(2-5) r y by auto
qed

theorem config_save_end_to_end_witness:
  "let be = api (\<lambda>_. None) [] [] []; s = config_opened be RouteOutput initial_mock;
       s0 = config_change (moveMember 0 1) (config_edit RouteOutput (main_data (cp s) ! 0) s);
       (s1, m1) = config_click be RouteOutput (s0, initial_mock\<lparr>mk_failSave := True\<rparr>);
       (s2, m2) = config_click be RouteOutput (s1, m1\<lparr>mk_failSave := False\<rparr>)
   in editModal (cp s1) \<and> \<not> editModal (cp s2)"
proof -
  let ?be = "api (\<lambda>_. None) [] [] []" and ?x = "routeFixture ''output''"
  have m: "\<not> mk_failList initial_mock" "map_of (mk_records initial_mock) (kind_name RouteOutput) = Some ([] @ ?x # [])"
    by (simp_all add: initial_mock_def initial_records_def)
  note o = config_opened_facts [of ?be "\<lambda>_. None" "[]" "[]" "[]", OF refl m, simplified append_Nil]
  have r: "main_data (cp (config_opened ?be RouteOutput initial_mock)) ! 0 = normalize_row RouteRow (row_of_object ?x)"
    unfolding o(2) by simp
  define f where "f = edit_form RouteOutput (object_of_row (main_data (cp (config_opened ?be RouteOutput initial_mock)) ! 0))"
  have "str_prop ''uuid'' (moveMember 0 1 f) = str_prop ''uuid'' ?x" "str_prop ''name'' (moveMember 0 1 f) = str_prop ''name'' ?x"
    unfolding f_def r moved_ids opened_ids [OF routeFixture_row] by (rule refl)+
  then have p: "str_prop ''uuid'' (moveMember 0 1 f) = Some (JString ''output'')" "str_prop ''name'' (moveMember 0 1 f) = Some (JString ''auto_output'')"
    by (simp_all add: routeFixture_def str_prop_def)
  have t: "trim (text_prop ''name'' (moveMember 0 1 f)) \<noteq> []" using p(2) by (simp add: trim_empty_iff is_space_def)
  have u: "str_prop ''uuid'' ?x = Some (JString ''output'')" "''output'' \<noteq> []" "list_all (\<lambda>z. str_prop ''uuid'' z \<noteq> Some (JString ''output'')) []"
    by (simp_all add: routeFixture_def str_prop_def)
  show ?thesis
    using config_save_end_to_end [where as = "[]" and bs = "[]" and x = ?x and u = "''output''" and g = "moveMember 0 1"
        and dp = "\<lambda>_. None" and fixture = "[]" and ?t0.0 = "[]" and ?t1.0 = "[]", OF o(1) r m(2,1) u f_def p(1) t]
    unfolding Let_def split_def by blast
qed

text \<open>
  Moving a member of a route by one of the arrows, or by any distance that stays in the list, moves
  that member and no other: the list has the same members, the others in their order, and moving it
  back gives the old list; a move out of the list does nothing.
\<close>

theorem member_moved:
  assumes "index < length ms"
  shows "mset (move_item index delta ms) = mset ms \<and>
    (let target = int index + delta in
     if 0 \<le> target \<and> target < int (length ms)
     then move_item index delta ms ! nat target = ms ! index \<and> remove_nth (nat target) (move_item index delta ms) = remove_nth index ms \<and>
          move_item (nat target) (- delta) (move_item index delta ms) = ms
     else move_item index delta ms = ms)"
  using move_item_mset [OF assms] move_item_place [OF assms] move_item_back [OF assms] by (auto simp: Let_def move_item_def)

theorem member_moved_witness: "move_item 1 (- 1) (move_item 0 1 [''a'', ''b'']) = [''a'', ''b'']"
  using member_moved [of 0 "[''a'', ''b'']" 1] by simp

end
