(* ===== verification/MtrPanel.thy ===== *)
theory MtrPanel
  imports UiSession
begin

text \<open>
  The MTR diagnosis of the tunnel page, the methods of \<open>src/admin/view/tunnel/list.html\<close> around
  \<open>invokeMTR\<close>: the session check, the terminal, the event stream with its handlers, and closing.

  An event stream is a number; \<open>mtr_open\<close> lists the streams the browser holds open, with the row each was
  opened for, \<open>mtrSource\<close> is the
  one the page knows. The promises of \<open>invokeMTR\<close> are \<open>mtr_waiting\<close>: the session check, then the
  terminal's assets. The layout of the terminal is not modelled.
\<close>

section \<open>State and handlers\<close>

datatype mtr_wait = SessionCheck row | TerminalWait row

datatype mtr_data = NoData | BadJson | Payload object

record mtr_meta =
  meta_name :: jsval
  meta_target :: jsval
  meta_mode :: jsval
  meta_command :: jsval

record mtr =
  mtrModal :: bool
  mtrStatus :: string
  mtrErrors :: string
  mtrMeta :: mtr_meta
  mtrPendingName :: jsval
  mtrSource :: "nat option"
  mtrTerminal :: bool
  mtr_written :: "json list"
  mtr_open :: "(nat \<times> row) list"
  mtr_count :: nat
  mtr_waiting :: "mtr_wait list"
  mtr_redirected :: bool

definition init_mtr :: mtr where
  "init_mtr =
     \<lparr>mtrModal = False, mtrStatus = ''idle'', mtrErrors = [],
      mtrMeta = \<lparr>meta_name = JStr [], meta_target = JStr [], meta_mode = JStr [], meta_command = JStr []\<rparr>, mtrPendingName = JStr [], mtrSource = None, mtrTerminal = False,
      mtr_written = [], mtr_open = [], mtr_count = 0, mtr_waiting = [], mtr_redirected = False\<rparr>"

definition appendMTRError :: "string \<Rightarrow> mtr \<Rightarrow> mtr" where
  "appendMTRError line s = s\<lparr>mtrErrors := (if mtrErrors s = [] then line else mtrErrors s @ [CHR 0x0A] @ line)\<rparr>"

definition closeMTRSource :: "mtr \<Rightarrow> mtr" where
  "closeMTRSource s =
     (case mtrSource s of
        None \<Rightarrow> s\<lparr>mtrPendingName := JStr []\<rparr>
      | Some i \<Rightarrow> s\<lparr>mtr_open := filter (\<lambda>(j, r). j \<noteq> i) (mtr_open s), mtrSource := None, mtrPendingName := JStr []\<rparr>)"

definition resetMTRView :: "mtr \<Rightarrow> mtr" where
  "resetMTRView s = s\<lparr>mtrErrors := [], mtr_written := (if mtrTerminal s then [] else mtr_written s)\<rparr>"

definition invokeMTR :: "row \<Rightarrow> mtr \<Rightarrow> mtr" where
  "invokeMTR r s = s\<lparr>mtr_waiting := mtr_waiting s @ [SessionCheck r]\<rparr>"

text \<open>The session is alive: the modal opens and the terminal's assets are requested.\<close>

definition session_alive :: "row \<Rightarrow> mtr \<Rightarrow> mtr" where
  "session_alive r s =
     (let s1 = resetMTRView ((if mtrSource s \<noteq> None then closeMTRSource s else s)\<lparr>mtrModal := True\<rparr>)
      in s1\<lparr>mtrStatus := ''connecting'',
            mtrMeta := \<lparr>meta_name = row_name r, meta_target = row_output r, meta_mode = JStr [], meta_command = JStr []\<rparr>,
            mtrPendingName := row_name r, mtr_waiting := mtr_waiting s1 @ [TerminalWait r]\<rparr>)"

definition startMTRStream :: "row \<Rightarrow> mtr \<Rightarrow> mtr" where
  "startMTRStream r s =
     s\<lparr>mtr_written := [], mtrSource := Some (mtr_count s), mtr_open := mtr_open s @ [(mtr_count s, r)], mtr_count := Suc (mtr_count s)\<rparr>"

definition terminal_failed :: "string \<Rightarrow> mtr \<Rightarrow> mtr" where
  "terminal_failed msg s = closeMTRSource ((appendMTRError (''[error] '' @ msg) s)\<lparr>mtrStatus := ''error''\<rparr>)"

definition parseMTRPayload :: "mtr_data \<Rightarrow> mtr \<Rightarrow> object option \<times> mtr" where
  "parseMTRPayload d s =
     (case d of
        NoData \<Rightarrow> (None, s)
      | BadJson \<Rightarrow> (None, appendMTRError ''[error] invalid stream payload'' s)
      | Payload ob \<Rightarrow> (Some ob, s))"

definition or_value :: "json option \<Rightarrow> jsval \<Rightarrow> jsval" where
  "or_value v w = (if json_truthy v then jsval_of_json v else w)"

definition on_start :: "row \<Rightarrow> mtr_data \<Rightarrow> mtr \<Rightarrow> mtr" where
  "on_start r d s =
     (case parseMTRPayload d s of
        (None, s1) \<Rightarrow> s1
      | (Some ob, s1) \<Rightarrow>
          s1\<lparr>mtrStatus := ''running'',
             mtrMeta := \<lparr>meta_name = or_value (str_prop ''name'' ob) (row_name r), meta_target = or_value (str_prop ''target'' ob) (row_output r),
                         meta_mode = or_value (str_prop ''mode'' ob) (JStr []), meta_command = or_value (str_prop ''command'' ob) (JStr [])\<rparr>\<rparr>)"

definition on_terminal :: "mtr_data \<Rightarrow> mtr \<Rightarrow> mtr" where
  "on_terminal d s =
     (case parseMTRPayload d s of
        (Some ob, s1) \<Rightarrow>
          if json_truthy (str_prop ''chunk'' ob) \<and> mtrTerminal s1
          then s1\<lparr>mtr_written := mtr_written s1 @ [the (str_prop ''chunk'' ob)]\<rparr> else s1
      | (None, s1) \<Rightarrow> s1)"

text \<open>An error event reaches the listener and then \<open>onerror\<close>.\<close>

definition on_error :: "mtr_data \<Rightarrow> mtr \<Rightarrow> mtr" where
  "on_error d s =
     (let s2 = (case parseMTRPayload d s of
                  (Some ob, s1) \<Rightarrow>
                    if json_truthy (str_prop ''message'' ob)
                    then closeMTRSource ((appendMTRError (''[error] '' @ js_string (jsval_of_json (str_prop ''message'' ob))) s1)\<lparr>mtrStatus := ''error''\<rparr>)
                    else s1
                | (None, s1) \<Rightarrow> s1)
      in if mtrStatus s2 \<in> {''done'', ''error'', ''timeout'', ''stopped''} then s2
         else closeMTRSource ((appendMTRError ''[error] mtr stream disconnected'' s2)\<lparr>mtrStatus := ''error''\<rparr>))"

definition on_done :: "mtr_data \<Rightarrow> mtr \<Rightarrow> mtr" where
  "on_done d s =
     closeMTRSource (case parseMTRPayload d s of
        (Some ob, s1) \<Rightarrow>
          appendMTRError (''[done] exit='' @ js_string (jsval_of_json (str_prop ''exit_code'' ob)) @ '', duration_ms='' @
                          js_string (jsval_of_json (str_prop ''duration_ms'' ob)))
            (s1\<lparr>mtrStatus := (if json_truthy (str_prop ''timed_out'' ob) then ''timeout'' else ''done'')\<rparr>)
      | (None, s1) \<Rightarrow> s1\<lparr>mtrStatus := ''done''\<rparr>)"

definition invokeStopMTR :: "mtr \<Rightarrow> mtr" where
  "invokeStopMTR s =
     (if mtrSource s = None then s
      else closeMTRSource ((appendMTRError ''[stop] stream closed by user'' s)\<lparr>mtrStatus := ''stopped''\<rparr>))"

definition handleMTRModalVisibleChange :: "bool \<Rightarrow> mtr \<Rightarrow> mtr" where
  "handleMTRModalVisibleChange visible s =
     (if visible then s
      else (if mtrSource s \<noteq> None then invokeStopMTR s else s)\<lparr>mtrTerminal := False\<rparr>)"

datatype mtr_event =
    StartMTR row | SessionAnswer nat "bool option" | TerminalReady nat | TerminalFails nat string
  | StreamStart nat mtr_data | StreamTerminal nat mtr_data | StreamError nat mtr_data | StreamDone nat mtr_data
  | StopMTR | ClearMTR | CloseMTR | LeaveMTR

text \<open>\<open>SessionAnswer\<close> carries the \<open>authenticated\<close> flag, \<open>None\<close> for a rejected request.\<close>

fun mtr_step :: "mtr \<Rightarrow> mtr_event \<Rightarrow> mtr" where
  "mtr_step s (StartMTR r) = invokeMTR r s"
| "mtr_step s (SessionAnswer k auth) =
     (if k < length (mtr_waiting s) then
        (case mtr_waiting s ! k of
           TerminalWait _ \<Rightarrow> s
         | SessionCheck r \<Rightarrow>
             let s1 = s\<lparr>mtr_waiting := remove_nth k (mtr_waiting s)\<rparr>
             in (case auth of
                   None \<Rightarrow> s1
                 | Some False \<Rightarrow> s1\<lparr>mtr_redirected := True\<rparr>
                 | Some True \<Rightarrow> session_alive r s1))
      else s)"
| "mtr_step s (TerminalReady k) =
     (if k < length (mtr_waiting s) then
        (case mtr_waiting s ! k of
           SessionCheck _ \<Rightarrow> s
         | TerminalWait r \<Rightarrow> startMTRStream r (s\<lparr>mtr_waiting := remove_nth k (mtr_waiting s), mtrTerminal := True\<rparr>))
      else s)"
| "mtr_step s (TerminalFails k msg) =
     (if k < length (mtr_waiting s) then
        (case mtr_waiting s ! k of
           SessionCheck _ \<Rightarrow> s
         | TerminalWait r \<Rightarrow> terminal_failed msg (s\<lparr>mtr_waiting := remove_nth k (mtr_waiting s)\<rparr>))
      else s)"
| "mtr_step s (StreamStart i d) = (case map_of (mtr_open s) i of None \<Rightarrow> s | Some r \<Rightarrow> on_start r d s)"
| "mtr_step s (StreamTerminal i d) = (if map_of (mtr_open s) i = None then s else on_terminal d s)"
| "mtr_step s (StreamError i d) = (if map_of (mtr_open s) i = None then s else on_error d s)"
| "mtr_step s (StreamDone i d) = (if map_of (mtr_open s) i = None then s else on_done d s)"
| "mtr_step s StopMTR = invokeStopMTR s"
| "mtr_step s ClearMTR = resetMTRView s"
| "mtr_step s CloseMTR = (if mtrModal s then handleMTRModalVisibleChange False (s\<lparr>mtrModal := False\<rparr>) else s)"
| "mtr_step s LeaveMTR = closeMTRSource s"

section \<open>Library: one stream at a time\<close>

text \<open>The open streams are the one the page knows; while a terminal is loading there is none and the window
  is open; at most one diagnosis is under way.\<close>

definition mtr_steady :: "mtr \<Rightarrow> bool" where
  "mtr_steady s \<longleftrightarrow>
     length (mtr_waiting s) \<le> 1 \<and> map fst (mtr_open s) = (case mtrSource s of None \<Rightarrow> [] | Some i \<Rightarrow> [i]) \<and>
     (mtrModal s \<or> mtrSource s = None) \<and>
     (\<forall>r. TerminalWait r \<in> set (mtr_waiting s) \<longrightarrow> mtrSource s = None \<and> mtrModal s)"

text \<open>Histories in which a diagnosis is started, the window closed and the page left only while no diagnosis
  is loading, that is waiting for its session check or its terminal.\<close>

fun careful :: "mtr_event list \<Rightarrow> mtr \<Rightarrow> bool" where
  "careful [] s \<longleftrightarrow> True"
| "careful (e # es) s \<longleftrightarrow>
     (case e of StartMTR r \<Rightarrow> mtr_waiting s = [] | CloseMTR \<Rightarrow> mtr_waiting s = [] | LeaveMTR \<Rightarrow> mtr_waiting s = [] | _ \<Rightarrow> True) \<and>
     careful es (mtr_step s e)"

lemma filter_fst_singleton: "map fst xs = [i] \<Longrightarrow> filter (\<lambda>(j, r). j \<noteq> i) xs = []"
  by (auto simp: filter_empty_conv)

lemma close_steady: "mtr_steady s \<Longrightarrow> mtr_steady (closeMTRSource s) \<and> mtr_open (closeMTRSource s) = [] \<and> mtrSource (closeMTRSource s) = None"
  by (auto simp: mtr_steady_def closeMTRSource_def filter_fst_singleton split: option.splits)

lemma steady_frame [simp]:
  "mtr_steady (s\<lparr>mtrStatus := st, mtrMeta := m\<rparr>) = mtr_steady s"
  "mtr_steady (s\<lparr>mtrStatus := st\<rparr>) = mtr_steady s" "mtr_steady (appendMTRError l s) = mtr_steady s"
  "mtr_steady (resetMTRView s) = mtr_steady s" "mtr_steady (s\<lparr>mtr_written := ws\<rparr>) = mtr_steady s" "mtr_steady (s\<lparr>mtrTerminal := b\<rparr>) = mtr_steady s"
  "mtr_steady (s\<lparr>mtr_redirected := b\<rparr>) = mtr_steady s" "mtr_steady (s\<lparr>mtr_waiting := [], mtr_redirected := b\<rparr>) = mtr_steady (s\<lparr>mtr_waiting := []\<rparr>)"
  by (simp_all add: mtr_steady_def appendMTRError_def resetMTRView_def)

lemma waiting_frame [simp]:
  "mtr_waiting (appendMTRError l s) = mtr_waiting s" "mtr_waiting (resetMTRView s) = mtr_waiting s"
  "mtr_waiting (closeMTRSource s) = mtr_waiting s"
  by (simp_all add: appendMTRError_def resetMTRView_def closeMTRSource_def split: option.split)

lemma parse_steady: "parseMTRPayload d s = (p, s1) \<Longrightarrow> mtr_steady s \<Longrightarrow> mtr_steady s1 \<and> mtr_waiting s1 = mtr_waiting s"
  by (auto simp: parseMTRPayload_def split: mtr_data.splits)

lemma handlers_steady:
  assumes "mtr_steady s"
  shows "mtr_steady (on_start r d s)" "mtr_steady (on_terminal d s)" "mtr_steady (on_error d s)" "mtr_steady (on_done d s)" "mtr_steady (invokeStopMTR s)"
    "mtr_waiting (invokeStopMTR s) = mtr_waiting s"
proof -
  obtain p s1 where p: "parseMTRPayload d s = (p, s1)" by force
  note q = parse_steady [OF p assms]
  show "mtr_steady (on_start r d s)" "mtr_steady (on_terminal d s)" using q by (auto simp: on_start_def on_terminal_def p split: option.splits)
  show "mtr_steady (on_error d s)" "mtr_steady (on_done d s)"
    using q close_steady by (auto simp: on_error_def on_done_def p Let_def split: option.splits)
  show "mtr_steady (invokeStopMTR s)" "mtr_waiting (invokeStopMTR s) = mtr_waiting s"
    using assms close_steady by (simp_all add: invokeStopMTR_def)
qed

lemma close_modal_steady:
  "mtr_steady s \<Longrightarrow> mtr_waiting s = [] \<Longrightarrow>
   mtr_steady (mtr_step s CloseMTR) \<and> mtr_open (mtr_step s CloseMTR) = [] \<and> mtr_waiting (mtr_step s CloseMTR) = []"
  by (auto simp: mtr_steady_def handleMTRModalVisibleChange_def invokeStopMTR_def closeMTRSource_def appendMTRError_def filter_fst_singleton
      split: option.splits)

lemma waiting_single: "mtr_steady s \<Longrightarrow> k < length (mtr_waiting s) \<Longrightarrow> k = 0 \<and> mtr_waiting s = [mtr_waiting s ! 0]"
  by (cases "mtr_waiting s") (auto simp: mtr_steady_def)

lemma session_steady: "mtr_steady s \<Longrightarrow> mtr_waiting s = [] \<Longrightarrow> mtr_steady (session_alive r s)"
  by (auto simp: session_alive_def Let_def resetMTRView_def closeMTRSource_def mtr_steady_def filter_fst_singleton split: option.splits)

lemma waiting_done_steady: "mtr_steady s \<Longrightarrow> mtr_steady (s\<lparr>mtr_waiting := []\<rparr>)"
  by (simp add: mtr_steady_def)

lemma careful_step: "mtr_steady s \<Longrightarrow> careful [e] s \<Longrightarrow> mtr_steady (mtr_step s e)"
proof -
  assume s: "mtr_steady s" and c: "careful [e] s"
  note w = waiting_done_steady [OF s]
  show ?thesis
  proof (cases e)
    case (StartMTR r)
    then show ?thesis using s c by (simp add: invokeMTR_def mtr_steady_def)
  next
    case (SessionAnswer k auth)
    show ?thesis
    proof (cases "k < length (mtr_waiting s) \<and> (\<exists>r. mtr_waiting s ! k = SessionCheck r)")
      case True
      then obtain r where "k = 0" "mtr_waiting s = [SessionCheck r]" using waiting_single [OF s, of k] by auto
      then have "mtr_step s e = (case auth of None \<Rightarrow> s\<lparr>mtr_waiting := []\<rparr> | Some False \<Rightarrow> s\<lparr>mtr_waiting := [], mtr_redirected := True\<rparr>
          | Some True \<Rightarrow> session_alive r (s\<lparr>mtr_waiting := []\<rparr>))"
        by (simp add: SessionAnswer remove_nth_def Let_def)
      then show ?thesis using w session_steady [OF w] by (simp split: option.split bool.split)
    next
      case False
      then show ?thesis using SessionAnswer s by (auto split: mtr_wait.splits)
    qed
  next
    case (TerminalReady k)
    show ?thesis
    proof (cases "k < length (mtr_waiting s) \<and> (\<exists>r. mtr_waiting s ! k = TerminalWait r)")
      case True
      then obtain r where k: "k = 0" "mtr_waiting s = [TerminalWait r]" using waiting_single [OF s, of k] by auto
      then have "mtrSource s = None" "mtrModal s" "mtr_open s = []" using s by (auto simp: mtr_steady_def)
      then show ?thesis using TerminalReady k by (simp add: remove_nth_def startMTRStream_def mtr_steady_def)
    next
      case False
      then show ?thesis using TerminalReady s by (auto split: mtr_wait.splits)
    qed
  next
    case (TerminalFails k msg)
    show ?thesis
    proof (cases "k < length (mtr_waiting s) \<and> (\<exists>r. mtr_waiting s ! k = TerminalWait r)")
      case True
      then obtain r where "k = 0" "mtr_waiting s = [TerminalWait r]" using waiting_single [OF s, of k] by auto
      then have "mtr_step s e = terminal_failed msg (s\<lparr>mtr_waiting := []\<rparr>)" by (simp add: TerminalFails remove_nth_def)
      then show ?thesis using w close_steady by (simp add: terminal_failed_def)
    next
      case False
      then show ?thesis using TerminalFails s by (auto split: mtr_wait.splits)
    qed
  next
    case CloseMTR
    then show ?thesis using close_modal_steady [OF s] c by simp
  qed (use s in \<open>auto simp: handlers_steady close_steady split: option.splits\<close>)
qed

lemma careful_steady: "careful es s \<Longrightarrow> mtr_steady s \<Longrightarrow> mtr_steady (foldl mtr_step s es)"
proof (induction es arbitrary: s)
  case (Cons e es)
  then have "careful [e] s" "careful es (mtr_step s e)" by simp_all
  then show ?case using Cons.IH careful_step [OF Cons.prems(2)] by simp
qed simp

text \<open>With no stream and no diagnosis under way, only a new diagnosis opens one.\<close>

lemma idle_step:
  "mtr_open s = [] \<Longrightarrow> mtr_waiting s = [] \<Longrightarrow> (\<And>r. e \<noteq> StartMTR r) \<Longrightarrow>
   mtr_open (mtr_step s e) = [] \<and> mtr_waiting (mtr_step s e) = []"
  by (cases e) (auto simp: invokeStopMTR_def closeMTRSource_def appendMTRError_def resetMTRView_def handleMTRModalVisibleChange_def
      split: option.splits)

lemma idle_run:
  "mtr_open s = [] \<Longrightarrow> mtr_waiting s = [] \<Longrightarrow> list_all (\<lambda>e. \<forall>r. e \<noteq> StartMTR r) fs \<Longrightarrow> mtr_open (foldl mtr_step s fs) = []"
proof (induction fs arbitrary: s)
  case (Cons e fs)
  then show ?case using idle_step [of s e] by simp
qed simp

section \<open>Properties\<close>

text \<open>
  C31: Closing the MTR window releases its connection. In every history in which a diagnosis is started,
  the window closed and the page left only while no diagnosis is loading (waiting for its session
  check or its terminal), with all other events in any order, at most one event stream is open at
  any time, the one the page knows; and once the window is closed or the page left, with no diagnosis
  loading, none is open, and none opens until another diagnosis is started. (Closing the window or
  leaving the page while the diagnosis loads is excluded: its stream is then opened all the same,
  \<open>mtr_early_close_leaks\<close>.)
\<close>

theorem mtr_close_releases:
  assumes "careful es init_mtr" and "list_all (\<lambda>e. \<forall>r. e \<noteq> StartMTR r) later"
  shows "let s = foldl mtr_step init_mtr es
    in map fst (mtr_open s) = (case mtrSource s of None \<Rightarrow> [] | Some i \<Rightarrow> [i]) \<and>
       (mtr_waiting s = [] \<longrightarrow>
          mtr_open (foldl mtr_step s (CloseMTR # later)) = [] \<and> mtr_open (foldl mtr_step s (LeaveMTR # later)) = [])"
proof -
  let ?s = "foldl mtr_step init_mtr es"
  have "mtr_steady init_mtr" by (simp add: mtr_steady_def init_mtr_def)
  then have q: "mtr_steady ?s" by (rule careful_steady [OF assms(1)])
  then have "map fst (mtr_open ?s) = (case mtrSource ?s of None \<Rightarrow> [] | Some i \<Rightarrow> [i])" by (simp add: mtr_steady_def)
  moreover have "mtr_open (foldl mtr_step ?s (CloseMTR # later)) = []" "mtr_open (foldl mtr_step ?s (LeaveMTR # later)) = []"
    if "mtr_waiting ?s = []"
    using idle_run [OF _ _ assms(2)] close_modal_steady [OF q that] close_steady [OF q] that by simp_all
  ultimately show ?thesis by (simp add: Let_def)
qed

theorem mtr_close_releases_witness:
  "let s = foldl mtr_step init_mtr [StartMTR failed_row, StreamDone 0 NoData, SessionAnswer 0 (Some True), StopMTR, TerminalReady 0, StreamTerminal 0 NoData]
   in map fst (mtr_open s) = [0] \<and> mtr_open (foldl mtr_step s [CloseMTR, TerminalReady 0]) = []"
proof -
  let ?es = "[StartMTR failed_row, StreamDone 0 NoData, SessionAnswer 0 (Some True), StopMTR, TerminalReady 0, StreamTerminal 0 NoData]"
  note d = init_mtr_def invokeMTR_def remove_nth_def session_alive_def resetMTRView_def invokeStopMTR_def closeMTRSource_def
    startMTRStream_def on_terminal_def parseMTRPayload_def Let_def
  have c: "careful ?es init_mtr" and l: "list_all (\<lambda>e. \<forall>r. e \<noteq> StartMTR r) [TerminalReady 0]" by (simp_all add: d)
  have "mtr_waiting (foldl mtr_step init_mtr ?es) = []" "mtrSource (foldl mtr_step init_mtr ?es) = Some 0" by (simp_all add: d)
  then show ?thesis using mtr_close_releases [OF c l] unfolding Let_def by simp
qed

text \<open>
  Closing the window while the terminal is still loading, or leaving the page, does not cancel the
  diagnosis: its stream is opened afterwards and nothing closes it. Two diagnoses started in a row
  leave the first stream open.
\<close>

lemma mtr_early_close_leaks:
  "let s = foldl mtr_step init_mtr [StartMTR r, SessionAnswer 0 (Some True), CloseMTR, TerminalReady 0] in \<not> mtrModal s \<and> map fst (mtr_open s) = [0]"
  "map fst (mtr_open (foldl mtr_step init_mtr [StartMTR r, SessionAnswer 0 (Some True), LeaveMTR, TerminalReady 0])) = [0]"
  "map fst (mtr_open (foldl mtr_step init_mtr [StartMTR r, StartMTR r, SessionAnswer 0 (Some True), SessionAnswer 0 (Some True),
     TerminalReady 0, TerminalReady 0, CloseMTR])) = [0]"
  by (simp_all add: init_mtr_def invokeMTR_def remove_nth_def session_alive_def resetMTRView_def handleMTRModalVisibleChange_def
      closeMTRSource_def startMTRStream_def invokeStopMTR_def appendMTRError_def Let_def)

end
