(* ===== verification/UiScript.thy ===== *)
theory UiScript
  imports TunnelList RouteForms MtrPanel
begin

text \<open>
  The sections of \<open>src/scripts/test-admin-ui.cjs\<close> on the tunnel page and on the route and service pages:
  what the script does, and what it asserts. A section maps the state of page and server to the state
  after it, \<open>None\<close> when an assertion fails or an element the script waits for never appears.

  The script acts on what it sees: \<open>first_card\<close> is the first row the filters let through. It waits for the
  effect of every action, so the replies to an action arrive before the next one. Screenshots,
  viewport sizes, overflow and the state of menus are the browser's.
\<close>

type_synonym world = "tunnel_list \<times> mock"

definition check :: "bool \<Rightarrow> 'a \<Rightarrow> 'a option" where
  "check b w = (if b then Some w else None)"

lemma check_Some [simp]: "check b w = Some v \<longleftrightarrow> b \<and> v = w"
  by (auto simp: check_def)

definition first_card :: "tunnel_list \<Rightarrow> nat" where
  "first_card s = length (takeWhile (\<lambda>r. \<not> row_visible (t_page s) r) (main_data (t_page s)))"

definition cards :: "tunnel_list \<Rightarrow> nat" where
  "cards s = length (filteredRows (t_page s))"

definition card_named :: "string \<Rightarrow> tunnel_list \<Rightarrow> bool" where
  "card_named nm s \<longleftrightarrow> list_ex (\<lambda>r. row_name r = JStr nm) (filteredRows (t_page s))"

definition card_checked :: "tunnel_list \<Rightarrow> bool" where
  "card_checked s \<longleftrightarrow> \<not> js_truthy (row_disabled (main_data (t_page s) ! first_card s))"

definition card_row :: "tunnel_list \<Rightarrow> row" where
  "card_row s = main_data (t_page s) ! first_card s"

section \<open>The list: default filter, search, filters, switches\<close>

definition start_section :: "backend \<Rightarrow> mock \<Rightarrow> world option" where
  "start_section be m =
     (case t_refresh be (refreshListDelayed init_tunnel_list, m) of (s, m1) \<Rightarrow>
        check (c_running (listCounts (t_page s)) = 1 \<and> cards s = 1) (s, m1))"

definition choose_filter :: "string \<Rightarrow> tunnel_list \<Rightarrow> tunnel_list" where
  "choose_filter f s = t_step s (Mixin (FilterBy f))"

definition search_for :: "string \<Rightarrow> tunnel_list \<Rightarrow> tunnel_list" where
  "search_for q s = t_step s (Mixin (Search q))"

definition filter_section :: "world \<Rightarrow> world option" where
  "filter_section w =
     (case w of (s, m) \<Rightarrow>
        let s1 = choose_filter ''all'' s; s2 = search_for ''quic'' s1; s3 = search_for [] s2; s4 = choose_filter ''off'' s3 in
        check (c_all (listCounts (t_page s)) = 3 \<and> cards s2 = 1 \<and> c_off (listCounts (t_page s3)) = 1 \<and> cards s4 = 1)
          (choose_filter ''all'' s4, m))"

text \<open>A click on the switch of the first card, the reply, and after a success the refresh.\<close>

definition click_switch :: "backend \<Rightarrow> world \<Rightarrow> world" where
  "click_switch be w =
     (case w of (s, m) \<Rightarrow>
        (case t_roundtrip be (t_step s (SwitchTunnel (first_card s) (\<not> card_checked s)), m) of (s1, m1) \<Rightarrow>
           if listRefreshTimer s1 then t_refresh be (s1, m1) else (s1, m1)))"

definition switch_section :: "backend \<Rightarrow> world \<Rightarrow> world option" where
  "switch_section be w =
     (case w of (s, m) \<Rightarrow>
        (case click_switch be (s, m\<lparr>mk_failToggle := True\<rparr>) of (s1, m1) \<Rightarrow>
        (case click_switch be (s1, m1\<lparr>mk_failToggle := False\<rparr>) of (s2, m2) \<Rightarrow>
        (case click_switch be (s2, m2) of (s3, m3) \<Rightarrow>
           check (last (t_messages s1) = (False, TText (JStr toggle_failed)) \<and> card_checked s1 \<and> \<not> card_checked s2 \<and> card_checked s3) (s3, m3)))))"

section \<open>Editing a tunnel\<close>

definition edit_keys :: "string list" where
  "edit_keys =
     [''input'', ''output'', ''mode'', ''in_proto_cfg'', ''out_proto_cfg'', ''in_decrypt_mode'', ''in_decrypt_key'', ''out_crypt_mode'',
      ''out_crypt_key'', ''in_extend'', ''out_extend'']"

definition writes_of :: "string \<Rightarrow> string \<Rightarrow> mock \<Rightarrow> object list" where
  "writes_of kind action m = List.map_filter (\<lambda>(k, a, p, u). if k = kind \<and> a = action then Some p else None) (mk_writes m)"

text \<open>The edit page is opened from the card and once more by the reload.\<close>

definition edit_section :: "backend \<Rightarrow> world \<Rightarrow> world option" where
  "edit_section be w =
     (case w of (s, m) \<Rightarrow>
        let nm = js_string (row_name (card_row s)) in
        (case form_roundtrip be True (edit_created None nm, m) of (f0, m0) \<Rightarrow>
        (case form_roundtrip be True (edit_created None nm, m0) of (f1, m1) \<Rightarrow>
        (case edit_click be (form_step True f1 (FillForm renamed), m1\<lparr>mk_failSave := True\<rparr>) of (f2, m2) \<Rightarrow>
        (case edit_click be (f2, m2\<lparr>mk_failSave := False\<rparr>) of (f3, m3) \<Rightarrow>
        (case t_refresh be (refreshListDelayed init_tunnel_list, m3) of (s4, m4) \<Rightarrow>
           check (fp_error f0 = None \<and> fp_error f1 = None \<and>
                  last (fp_messages f2) = (False, FormText save_failed) \<and> fp_location f2 = None \<and>
                  fp_location f3 = Some ''/tunnel/list'' \<and> cards s4 > 0 \<and> row_name (card_row s4) = JStr ''edited_tunnel'' \<and>
                  list_all (\<lambda>k. str_prop k (hd (writes_of ''tunnel'' ''edit'' m4)) \<noteq> None) edit_keys)
             (s4, m4)))))))"

section \<open>Diagnosis\<close>

definition auth_flag :: "response \<Rightarrow> bool option" where
  "auth_flag r =
     (case r of
        JsonReply ob \<Rightarrow> Some (str_prop ''authenticated'' (object_of (str_prop ''data'' ob)) \<noteq> Some (JBoolean False))
      | _ \<Rightarrow> None)"

definition stream_event :: "string \<times> json \<Rightarrow> mtr_event" where
  "stream_event e =
     (let d = Payload (object_of (Some (snd e)))
      in if fst e = ''start'' then StreamStart 0 d else if fst e = ''terminal'' then StreamTerminal 0 d else StreamError 0 d)"

definition mtr_url :: "row \<Rightarrow> string \<Rightarrow> string" where
  "mtr_url r ts = ''/api/tunnel/mtr/stream?name='' @ encodeURIComponent (js_string (row_name r)) @ ''&_ts='' @ ts"

text \<open>\<open>ts\<close> is the time the page puts into the URL. The server holds the stream until the page closes it.\<close>

definition mtr_section :: "backend \<Rightarrow> string \<Rightarrow> world \<Rightarrow> world option" where
  "mtr_section be ts w =
     (case w of (s, m) \<Rightarrow>
        (case be (t_request (''/api/auth/session'', JObject [])) m of (r1, m1) \<Rightarrow>
        (case be (t_request (mtr_url (card_row s) ts, JObject [])) m1 of
           (EventStream evs, m2) \<Rightarrow>
             (let shown = foldl mtr_step init_mtr ([StartMTR (card_row s), SessionAnswer 0 (auth_flag r1), TerminalReady 0] @ map stream_event evs);
                  closed = mtr_step shown CloseMTR
              in check (mtrTerminal shown \<and> mtrModal shown \<and> \<not> mtrModal closed \<and> mtr_open closed = []) (s, m2))
         | _ \<Rightarrow> None)))"

section \<open>Clone, import, export, delete\<close>

definition clone_section :: "backend \<Rightarrow> string \<Rightarrow> world \<Rightarrow> world option" where
  "clone_section be uuid w =
     (case w of (s, m) \<Rightarrow>
        (case t_refresh be (t_roundtrip be (t_step s (CloneTunnel (first_card s) uuid), m)) of (s1, m1) \<Rightarrow>
           let s2 = choose_filter ''all'' s1;
               clone = last (writes_of ''tunnel'' ''import'' m1);
               orig = find (\<lambda>t. str_prop ''name'' t = Some (JString ''edited_tunnel'')) (the (map_of (mk_records m1) ''tunnel''))
           in check (card_named ''edited_tunnel-copy'' s2 \<and> str_prop ''disabled'' clone = Some (JBoolean True) \<and> orig \<noteq> None \<and>
                     str_prop ''input'' clone = str_prop ''input'' (the orig) \<and> str_prop ''uuid'' clone \<noteq> str_prop ''uuid'' (the orig))
                (s2, m1)))"

definition import_section :: "backend \<Rightarrow> world \<Rightarrow> world option" where
  "import_section be w =
     (case w of (s, m) \<Rightarrow>
        let clone = last (writes_of ''tunnel'' ''import'' m);
            ob = object_assign clone [(''uuid'', JString ''browser-import''), (''name'', JString ''browser-import'')];
            s1 = t_step (t_step s (ImportFiles [(''browser-import.tun'', Some (Some (JObject ob)))])) (Reply_to 0 (TReply Undefined Undefined []))
        in (case t_refresh be (t_roundtrip be (s1, m)) of (s2, m2) \<Rightarrow> check (card_named ''browser-import'' s2) (s2, m2)))"

definition export_url :: "row \<Rightarrow> string" where
  "export_url r = ''/api/tunnel/export?name='' @ encodeURIComponent (js_string (row_name r))"

definition export_section :: "backend \<Rightarrow> world \<Rightarrow> world option" where
  "export_section be w =
     (case w of (s, m) \<Rightarrow>
        (case be (t_request (''/api/auth/session'', JObject [])) m of (r1, m1) \<Rightarrow>
           check (auth_flag r1 = Some True \<and> contains ''/api/tunnel/export?name=browser-import'' (export_url (card_row s))) (s, m1)))"

definition delete_section :: "backend \<Rightarrow> world \<Rightarrow> world option" where
  "delete_section be w =
     (case w of (s, m) \<Rightarrow>
        let s1 = t_step (t_step s (DeleteTunnel (first_card s))) ConfirmDelete in
        (case t_refresh be (t_roundtrip be (s1, m)) of (s2, m2) \<Rightarrow> check (\<not> card_named ''browser-import'' s2) (s2, m2)))"

section \<open>Checks and probing\<close>

definition answer_first :: "backend \<Rightarrow> nat \<Rightarrow> world \<Rightarrow> world" where
  "answer_first be j w =
     (case w of (s, m) \<Rightarrow> (case be (t_request (t_posts s ! j)) m of (r, m1) \<Rightarrow> (t_step s (Reply_to 0 (t_reply_of r)), m1)))"

definition notice_shown :: "string \<Rightarrow> tunnel_list \<Rightarrow> bool" where
  "notice_shown title s \<longleftrightarrow> list_ex (\<lambda>(ok, t). case t of TNotice ti d \<Rightarrow> ti = title | _ \<Rightarrow> False) (t_messages s)"

definition tools_section :: "backend \<Rightarrow> world \<Rightarrow> world option" where
  "tools_section be w =
     (case w of (s, m) \<Rightarrow>
        let n = length (t_posts s); s1 = t_step s (CheckServer ''socks5'') in
        (case answer_first be (Suc n) (answer_first be n (s1, m)) of (s2, m2) \<Rightarrow>
           check (notice_shown ''socks5 tcp'' s2 \<and> notice_shown ''socks5 udp'' s2) (s2, m2)))"

text \<open>
  Probing is switched on, goes on for a while (\<open>during\<close>: ticks and replies), and the page is left; the
  script then counts the probes twice, with \<open>afterwards\<close> in between.
\<close>

definition probe_section :: "probe_event list \<Rightarrow> probe_event list \<Rightarrow> bool" where
  "probe_section during afterwards \<longleftrightarrow>
     (let on = probe_step init_probe ToggleProbe; left = probe_step (foldl probe_step on during) LeaveTunnelPage
      in probeEnabled on \<and> probes_sent (foldl probe_step left afterwards) = probes_sent left)"

section \<open>Library: what the script sees\<close>

definition world_ok :: "object list \<Rightarrow> world \<Rightarrow> bool" where
  "world_ok rows w \<longleftrightarrow>
     (case w of (s, m) \<Rightarrow>
        idle s \<and> main_data (t_page s) = shown rows \<and> map_of (mk_records m) ''tunnel'' = Some rows \<and> mutationPending (t_page s) = [] \<and>
        \<not> clonePending s \<and> \<not> mk_failList m \<and> \<not> mk_failSave m \<and> \<not> mk_failToggle m \<and> searchText (t_page s) = [] \<and> \<not> listRefreshTimer s)"

text \<open>What the filters look at.\<close>

definition visible :: "string \<Rightarrow> string \<Rightarrow> row \<Rightarrow> bool" where
  "visible f q r \<longleftrightarrow>
     \<not> (f = ''off'' \<and> \<not> js_truthy (row_disabled r)) \<and> \<not> (f = ''running'' \<and> \<not> isRunning r) \<and>
     (lower (trim q) = [] \<or> contains (lower (trim q)) (row_text r))"

lemma row_visible_iff: "row_visible p r \<longleftrightarrow> visible (statusFilter p) (searchText p) r"
  by (simp add: row_visible_def visible_def Let_def)

lemma visible_all [simp]: "visible ''all'' [] r"
  by (simp add: visible_def lower_def)

lemma visible_running [simp]: "visible ''running'' [] r = isRunning r"
  by (simp add: visible_def lower_def)

lemma cards_iff: "cards s = length (filter (visible (statusFilter (t_page s)) (searchText (t_page s))) (main_data (t_page s)))"
  by (simp add: cards_def filteredRows_def row_visible_iff [abs_def])

lemma first_card_0: "main_data (t_page s) = r # rs \<Longrightarrow> visible (statusFilter (t_page s)) (searchText (t_page s)) r \<Longrightarrow> first_card s = 0 \<and> card_row s = r \<and> cards s > 0"
  by (simp add: first_card_def card_row_def row_visible_iff cards_iff)

lemma card_named_iff:
  "card_named nm s \<longleftrightarrow> list_ex (\<lambda>r. visible (statusFilter (t_page s)) (searchText (t_page s)) r \<and> row_name r = JStr nm) (main_data (t_page s))"
  by (auto simp: card_named_def filteredRows_def list_ex_iff row_visible_iff)

lemma filter_step [simp]:
  "main_data (t_page (choose_filter f s)) = main_data (t_page s)" "statusFilter (t_page (choose_filter f s)) = f"
  "searchText (t_page (choose_filter f s)) = searchText (t_page s)" "main_data (t_page (search_for q s)) = main_data (t_page s)"
  "statusFilter (t_page (search_for q s)) = statusFilter (t_page s)" "searchText (t_page (search_for q s)) = q"
  by (simp_all add: choose_filter_def search_for_def)

lemma world_filter: "world_ok rows (s, m) \<Longrightarrow> world_ok rows (choose_filter f s, m)"
  by (simp add: world_ok_def idle_def choose_filter_def)

lemma normal_row [simp]:
  "row_disabled (normalizeTunnelRow r) = JBool (js_truthy (row_disabled r))" "row_name (normalizeTunnelRow r) = row_name r"
  "isRunning (normalizeTunnelRow r) = isRunning r"
  by (auto simp: normalizeTunnelRow_def Let_def isRunning_def lower_def lower_char_def)

lemma object_row [simp]:
  "row_disabled (row_of_object ob) = jsval_of_json (str_prop ''disabled'' ob)" "row_status (row_of_object ob) = jsval_of_json (str_prop ''status'' ob)"
  "row_name (row_of_object ob) = jsval_of_json (str_prop ''name'' ob)"
  by (simp_all add: row_of_object_def Let_def)

lemma shown_Cons [simp]: "shown (ob # rows) = normalizeTunnelRow (row_of_object ob) # shown rows" "shown [] = []"
  by (simp_all add: shown_def)

lemma tunnels_counts:
  "length (filter isRunning (shown tunnels)) = 1" "length (shown tunnels) = 3"
  "length (filter (\<lambda>r. js_truthy (row_disabled r)) (shown tunnels)) = 1"
proof -
  obtain a b c where t: "tunnels = [a, b, c]" by (simp add: tunnels_def)
  then have ab: "str_prop ''disabled'' a = Some (JBoolean False)" "str_prop ''status'' a = Some (JString ''running'')"
    "str_prop ''disabled'' b = Some (JBoolean True)" "str_prop ''disabled'' c = Some (JBoolean False)"
    "str_prop ''status'' c = Some (JString ''input run:bind failed'')"
    by (auto simp: tunnels_def str_prop_def)
  then have "isRunning (row_of_object a)" "\<not> isRunning (row_of_object b)" "\<not> isRunning (row_of_object c)"
    by (simp_all add: isRunning_def lower_def lower_char_def)
  then show "length (filter isRunning (shown tunnels)) = 1" "length (shown tunnels) = 3"
    "length (filter (\<lambda>r. js_truthy (row_disabled r)) (shown tunnels)) = 1"
    using ab by (simp_all add: t)
qed

lemma shown_text:
  assumes "str_prop ''name'' ob = Some (JString n)" "str_prop ''input'' ob = Some (JString i)" "str_prop ''output'' ob = Some (JString out)"
    "str_prop ''listen'' ob = None" "str_prop ''listen_port'' ob = None" "str_prop ''type'' ob = None" "str_prop ''members'' ob = None"
  shows "row_text (normalizeTunnelRow (row_of_object ob)) = lower (n @ '' '' @ i @ '' '' @ out @ ''   '')"
  using assms by (simp add: row_text_def normalizeTunnelRow_def row_of_object_def Let_def js_join_elem_def)

lemma contains_elem: "contains q t \<Longrightarrow> c \<in> set q \<Longrightarrow> c \<in> set t"
  by (auto simp: contains_iff)

lemma tunnels_quic: "length (filter (visible ''all'' ''quic'') (shown tunnels)) = 1"
proof -
  obtain a b c where t: "tunnels = [a, b, c]" by (simp add: tunnels_def)
  have a: "row_text (normalizeTunnelRow (row_of_object a)) = lower (name_a @ '' '' @ ''socks5x@0.0.0.0:1072'' @ '' '' @ ''tcp_mux@154.36.173.131:4000'' @ ''   '')"
    and c: "row_text (normalizeTunnelRow (row_of_object c)) = lower (''failed_tunnel'' @ '' '' @ ''udp@0.0.0.0:1081'' @ '' '' @ ''udp@127.0.0.1:4000'' @ ''   '')"
    and b: "row_text (normalizeTunnelRow (row_of_object b)) = lower (name_b @ '' '' @ ''tcp@[2001:db8:1234:5678:abcd:1234:5678:abcd]:1080'' @ '' '' @
        (''quic@[2001:db8:1234:5678:abcd:1234:5678:abcd]:4000'') @ ''   '')"
    by (rule shown_text; use t in \<open>simp add: tunnels_def str_prop_def; elim conjE; hypsubst; simp\<close>)+
  have q: "lower (trim ''quic'') = ''quic''" by code_simp
  have "contains ''quic'' (row_text (normalizeTunnelRow (row_of_object b)))"
    unfolding contains_iff b
    by (rule exI [of _ "lower (name_b @ '' '' @ ''tcp@[2001:db8:1234:5678:abcd:1234:5678:abcd]:1080'' @ '' '')"],
        rule exI [of _ "lower (''@[2001:db8:1234:5678:abcd:1234:5678:abcd]:4000'' @ ''   '')"]) (simp add: lower_def lower_char_def)
  moreover have "\<not> contains ''quic'' (row_text (normalizeTunnelRow (row_of_object a)))" "\<not> contains ''quic'' (row_text (normalizeTunnelRow (row_of_object c)))"
    unfolding a c using contains_elem [of "''quic''" _ "CHR ''q''"] by (auto simp: lower_def lower_char_def name_a_def)
  ultimately show ?thesis by (simp add: t shown_def visible_def q)
qed

section \<open>Library: the sections on the list pass\<close>

text \<open>The address the tools check is never blank.\<close>

definition addr_ok :: "tunnel_list \<Rightarrow> bool" where
  "addr_ok s \<longleftrightarrow> (\<exists>t. targetAddr s = CHR ''1'' # t)"

lemma opened_world:
  assumes "be = api dp fixture t0 t1" "\<not> mk_failList m" "\<not> mk_failSave m" "\<not> mk_failToggle m" "map_of (mk_records m) ''tunnel'' = Some rows"
  obtains s where "t_refresh be (refreshListDelayed init_tunnel_list, m) = (s, m)" "world_ok rows (s, m)" "statusFilter (t_page s) = ''running''" "addr_ok s"
proof -
  let ?s = "refreshListDelayed init_tunnel_list"
  have h: "idle ?s" "listRefreshTimer ?s"
    by (simp_all add: idle_def refreshListDelayed_def init_tunnel_list_def init_page_def)
  obtain s where s: "t_refresh be (?s, m) = (s, m)" "idle s" "\<not> listRefreshTimer s" "main_data (t_page s) = shown rows"
    "mutationPending (t_page s) = mutationPending (t_page ?s)" "clonePending s = clonePending ?s"
    "statusFilter (t_page s) = statusFilter (t_page ?s)" "searchText (t_page s) = searchText (t_page ?s)" "targetAddr s = targetAddr ?s"
    unfolding assms(1) by (rule refresh_shows [OF h assms(2,5), of dp fixture t0 t1])
  then have "addr_ok s" by (simp add: addr_ok_def refreshListDelayed_def init_tunnel_list_def)
  moreover from s have "statusFilter (t_page s) = ''running''" "searchText (t_page s) = []" "mutationPending (t_page s) = []" "\<not> clonePending s"
    by (simp_all add: refreshListDelayed_def init_tunnel_list_def init_page_def)
  ultimately show ?thesis using that s assms(2-5) by (simp add: world_ok_def)
qed

lemma start_passes:
  assumes "be = api dp fixture t0 t1"
  obtains s where "start_section be initial_mock = Some (s, initial_mock)" "world_ok tunnels (s, initial_mock)" "statusFilter (t_page s) = ''running''"
proof -
  have h: "\<not> mk_failList initial_mock" "\<not> mk_failSave initial_mock" "\<not> mk_failToggle initial_mock" "map_of (mk_records initial_mock) ''tunnel'' = Some tunnels"
    by (simp_all add: initial_mock_def initial_records_def)
  obtain s where s: "t_refresh be (refreshListDelayed init_tunnel_list, initial_mock) = (s, initial_mock)" "world_ok tunnels (s, initial_mock)"
    "statusFilter (t_page s) = ''running''"
    by (rule opened_world [OF assms h])
  have v: "visible ''running'' [] = isRunning" by (simp add: fun_eq_iff)
  have "start_section be initial_mock = Some (s, initial_mock)"
    using s(2,3) tunnels_counts(1) by (simp add: start_section_def s(1) cards_iff v listCounts_def countRows_def world_ok_def)
  then show ?thesis using that s by blast
qed

lemma filter_passes:
  assumes "world_ok tunnels (s, m)"
  obtains s' where "filter_section (s, m) = Some (s', m)" "world_ok tunnels (s', m)" "statusFilter (t_page s') = ''all''"
proof -
  let ?s = "choose_filter ''all'' (choose_filter ''off'' (search_for [] (search_for ''quic'' (choose_filter ''all'' s))))"
  have d: "main_data (t_page s) = shown tunnels" using assms by (simp add: world_ok_def)
  have v: "visible ''off'' [] = (\<lambda>r. js_truthy (row_disabled r))" by (simp add: fun_eq_iff visible_def lower_def)
  have "filter_section (s, m) = Some (?s, m)"
    using tunnels_counts tunnels_quic by (simp add: filter_section_def Let_def cards_iff d v listCounts_def countRows_def)
  moreover have "world_ok tunnels (?s, m)"
    using assms by (simp add: world_ok_def idle_def choose_filter_def search_for_def)
  ultimately show ?thesis using that by simp
qed

lemma no_edit: "mk_writes m' = mk_writes m @ [(''tunnel'', ''set_disabled'', u)] \<Longrightarrow> writes_of ''tunnel'' ''edit'' m' = writes_of ''tunnel'' ''edit'' m"
  by (cases u) (simp add: writes_of_def List.map_filter_def)

lemma writes_frame [simp]:
  "writes_of kind action (m\<lparr>mk_failToggle := b\<rparr>) = writes_of kind action m" "writes_of kind action (m\<lparr>mk_failSave := b\<rparr>) = writes_of kind action m"
  by (simp_all add: writes_of_def)

text \<open>A card whose tunnel can be switched.\<close>

definition switchable :: "object \<Rightarrow> bool \<Rightarrow> bool" where
  "switchable x en \<longleftrightarrow>
     (\<exists>nm. str_prop ''name'' x = Some (JString nm) \<and> nm \<noteq> [] \<and> nm \<notin> set object_prototype_keys) \<and> str_prop ''disabled'' x = Some (JBoolean (\<not> en))"

lemma first_shown:
  assumes "world_ok (x # rows) (s, m)" "statusFilter (t_page s) = ''all''"
  shows "first_card s = 0" "card_row s = normalizeTunnelRow (row_of_object x)" "cards s > 0"
    "card_checked s \<longleftrightarrow> \<not> js_truthy (jsval_of_json (str_prop ''disabled'' x))"
  using first_card_0 [of s "normalizeTunnelRow (row_of_object x)" "shown rows"] assms by (auto simp: world_ok_def card_checked_def)

lemma switch_hyps:
  assumes "world_ok (x # rows) (s, m)" "str_prop ''name'' x = Some (JString nm)" "nm \<notin> set object_prototype_keys"
  shows "idle s" "0 < length (main_data (t_page s))" "row_name (main_data (t_page s) ! 0) = JStr nm" "\<not> pending_truthy (t_page s) nm"
  using assms by (simp_all add: world_ok_def pending_truthy_def)

lemma switch_click_refused:
  assumes "world_ok (x # rows) (s, m)" "switchable x en" "statusFilter (t_page s) = ''all''" "be = api dp fixture t0 t1"
  obtains s' m' where "click_switch be (s, m\<lparr>mk_failToggle := True\<rparr>) = (s', m')" "world_ok (x # rows) (s', m'\<lparr>mk_failToggle := False\<rparr>)"
    "statusFilter (t_page s') = ''all''" "last (t_messages s') = (False, TText (JStr toggle_failed))"
    "writes_of ''tunnel'' ''edit'' m' = writes_of ''tunnel'' ''edit'' m"
proof -
  obtain nm where nm: "str_prop ''name'' x = Some (JString nm)" "nm \<notin> set object_prototype_keys" using assms(2) by (auto simp: switchable_def)
  note f = first_shown [OF assms(1,3)]
  have t: "mk_failToggle (m\<lparr>mk_failToggle := True\<rparr>)" by simp
  obtain s' m' where r: "t_roundtrip be (t_step s (SwitchTunnel 0 (\<not> card_checked s)), m\<lparr>mk_failToggle := True\<rparr>) = (s', m')" "t_page s' = t_page s" "idle s'"
    "mk_records m' = mk_records (m\<lparr>mk_failToggle := True\<rparr>)" "listRefreshTimer s' = listRefreshTimer s"
    "t_messages s' = t_messages s @ [(False, TText (JStr toggle_failed))]" "mk_failList m' = mk_failList (m\<lparr>mk_failToggle := True\<rparr>)"
    "mk_failSave m' = mk_failSave (m\<lparr>mk_failToggle := True\<rparr>)" "clonePending s' = clonePending s"
    "\<exists>u. mk_writes m' = mk_writes (m\<lparr>mk_failToggle := True\<rparr>) @ [(''tunnel'', ''set_disabled'', u)]"
    unfolding assms(4) by (rule switch_refused [OF switch_hyps [OF assms(1) nm] t, of dp fixture t0 t1 "\<not> card_checked s"])
  have "click_switch be (s, m\<lparr>mk_failToggle := True\<rparr>) = (s', m')"
    using r(1,5) assms(1) by (simp add: click_switch_def f(1) world_ok_def)
  then show ?thesis by (rule that) (use r assms(1,3) in \<open>auto simp: world_ok_def no_edit\<close>)
qed

lemma switch_click_accepted:
  assumes "world_ok (x # rows) (s, m)" "switchable x en" "statusFilter (t_page s) = ''all''" "be = api dp fixture t0 t1"
  obtains s' m' y where "click_switch be (s, m) = (s', m')" "world_ok (y # rows) (s', m')" "statusFilter (t_page s') = ''all''"
    "switchable y (\<not> en)" "str_prop ''status'' y = Some (JString (if en then ''disabled'' else ''running''))"
    "\<forall>k. k \<notin> {''disabled'', ''status''} \<longrightarrow> str_prop k y = str_prop k x" "writes_of ''tunnel'' ''edit'' m' = writes_of ''tunnel'' ''edit'' m"
proof -
  obtain nm where nm: "str_prop ''name'' x = Some (JString nm)" "nm \<notin> set object_prototype_keys" "nm \<noteq> []" and d: "str_prop ''disabled'' x = Some (JBoolean (\<not> en))"
    using assms(2) by (auto simp: switchable_def)
  note f = first_shown [OF assms(1,3)]
  have h: "\<not> mk_failToggle m" "map_of (mk_records m) ''tunnel'' = Some (x # rows)" "x \<in> set (x # rows)" using assms(1) by (simp_all add: world_ok_def)
  obtain s1 m1 as z bs y where r: "t_roundtrip be (t_step s (SwitchTunnel 0 (\<not> en)), m) = (s1, m1)" "idle s1" "listRefreshTimer s1"
    "t_page s1 = (t_page s)\<lparr>main_data := (main_data (t_page s))[0 := switched_row (\<not> \<not> en) (main_data (t_page s) ! 0)]\<rparr>"
    "clonePending s1 = clonePending s" "x # rows = as @ z # bs" "list_all (\<lambda>w. str_prop ''name'' w \<noteq> Some (JString nm)) as"
    and m1: "map_of (mk_records m1) = (map_of (mk_records m))(''tunnel'' \<mapsto> as @ y # bs)" "mk_failList m1 = mk_failList m"
      "mk_failToggle m1 = mk_failToggle m" "mk_failSave m1 = mk_failSave m" "\<exists>u. mk_writes m1 = mk_writes m @ [(''tunnel'', ''set_disabled'', u)]"
    and y: "str_prop ''disabled'' y = Some (JBoolean (\<not> \<not> en))" "str_prop ''status'' y = Some (JString (if \<not> en then ''running'' else ''disabled''))"
      "str_prop ''name'' y = Some (JString nm)" "\<forall>k. k \<notin> {''disabled'', ''status''} \<longrightarrow> str_prop k y = str_prop k z"
    unfolding assms(4) by (rule switch_accepted [OF switch_hyps [OF assms(1) nm(1,2)] h nm(1,3), of dp fixture t0 t1 "\<not> en"])
  have "as = [] \<and> z = x \<and> bs = rows" using r(6,7) nm(1) by (cases as) auto
  then have e: "as = []" "z = x" "bs = rows" by simp_all
  have h2: "\<not> mk_failList m1" "map_of (mk_records m1) ''tunnel'' = Some (y # rows)" using m1 e assms(1) by (simp_all add: world_ok_def)
  obtain s' where r2: "t_refresh be (s1, m1) = (s', m1)" "idle s'" "\<not> listRefreshTimer s'" "main_data (t_page s') = shown (y # rows)"
    "mutationPending (t_page s') = mutationPending (t_page s1)" "clonePending s' = clonePending s1"
    "statusFilter (t_page s') = statusFilter (t_page s1)" "searchText (t_page s') = searchText (t_page s1)"
    unfolding assms(4) by (rule refresh_shows [OF r(2,3) h2, of dp fixture t0 t1])
  have c: "card_checked s = en" using f(4) d by simp
  have k: "click_switch be (s, m) = (s', m1)"
    by (simp only: click_switch_def prod.case f(1) c r(1) if_P [OF r(3)] r2(1))
  have w: "world_ok (y # rows) (s', m1)" using assms(1) r(4,5) r2 m1 h2(2) by (simp add: world_ok_def)
  have "writes_of ''tunnel'' ''edit'' m1 = writes_of ''tunnel'' ''edit'' m" using m1(5) no_edit by blast
  then show ?thesis by (intro that [OF k w]) (use r2(7) r(4) assms(3) y nm e in \<open>simp_all add: switchable_def\<close>)
qed

lemma switch_passes:
  assumes "world_ok (x # rows) (s, m)" "switchable x True" "statusFilter (t_page s) = ''all''" "be = api dp fixture t0 t1"
  obtains s' m' y where "switch_section be (s, m) = Some (s', m')" "world_ok (y # rows) (s', m')" "switchable y True"
    "str_prop ''status'' y = Some (JString ''running'')" "\<forall>k. k \<notin> {''disabled'', ''status''} \<longrightarrow> str_prop k y = str_prop k x"
    "statusFilter (t_page s') = ''all''" "writes_of ''tunnel'' ''edit'' m' = writes_of ''tunnel'' ''edit'' m"
proof -
  obtain s1 m1 where r1: "click_switch be (s, m\<lparr>mk_failToggle := True\<rparr>) = (s1, m1)" "world_ok (x # rows) (s1, m1\<lparr>mk_failToggle := False\<rparr>)"
    "statusFilter (t_page s1) = ''all''" "last (t_messages s1) = (False, TText (JStr toggle_failed))"
    "writes_of ''tunnel'' ''edit'' m1 = writes_of ''tunnel'' ''edit'' m"
    by (rule switch_click_refused [OF assms])
  obtain s2 m2 y where r2: "click_switch be (s1, m1\<lparr>mk_failToggle := False\<rparr>) = (s2, m2)" "world_ok (y # rows) (s2, m2)"
    "statusFilter (t_page s2) = ''all''" "switchable y (\<not> True)" "\<forall>k. k \<notin> {''disabled'', ''status''} \<longrightarrow> str_prop k y = str_prop k x"
    "writes_of ''tunnel'' ''edit'' m2 = writes_of ''tunnel'' ''edit'' (m1\<lparr>mk_failToggle := False\<rparr>)"
    by (rule switch_click_accepted [OF r1(2) assms(2) r1(3) assms(4)])
  obtain s3 m3 z where r3: "click_switch be (s2, m2) = (s3, m3)" "world_ok (z # rows) (s3, m3)" "statusFilter (t_page s3) = ''all''"
    "switchable z (\<not> \<not> True)" "str_prop ''status'' z = Some (JString (if \<not> True then ''disabled'' else ''running''))"
    "\<forall>k. k \<notin> {''disabled'', ''status''} \<longrightarrow> str_prop k z = str_prop k y" "writes_of ''tunnel'' ''edit'' m3 = writes_of ''tunnel'' ''edit'' m2"
    by (rule switch_click_accepted [OF r2(2,4,3) assms(4)])
  have "card_checked s1" "\<not> card_checked s2" "card_checked s3"
    using first_shown(4) [OF r1(2,3)] first_shown(4) [OF r2(2,3)] first_shown(4) [OF r3(2,3)] assms(2) r2(4) r3(4)
    by (simp_all add: switchable_def)
  then have "switch_section be (s, m) = Some (s3, m3)" using r1 r2(1) r3(1) by (simp add: switch_section_def)
  then show ?thesis by (rule that [OF _ r3(2)]) (use r1(5) r2(5,6) r3 in simp_all)
qed

section \<open>Library: editing passes\<close>

text \<open>The refused and the accepted click on the opened form.\<close>

lemma edit_clicks:
  assumes "world_ok (x # rows) (s, m)" and be: "be = api dp fixture t0 t1" and "str_prop ''uuid'' x = Some (JString u)"
    and "saved_form (renamed (initForm x))" and p_def: "p = buildPayload (renamed (initForm x))"
    and f: "\<not> fp_saving f" "fp_waiting f = []" "fp_form f = renamed (initForm x)" "fp_location f = None"
  obtains f2 m2 f3 m3 where "edit_click be (f, m\<lparr>mk_failSave := True\<rparr>) = (f2, m2)" "last (fp_messages f2) = (False, FormText save_failed)"
    "fp_location f2 = None" "edit_click be (f2, m2\<lparr>mk_failSave := False\<rparr>) = (f3, m3)" "fp_location f3 = Some ''/tunnel/list''"
    "map_of (mk_records m3) ''tunnel'' = Some (object_assign x p # rows)" "\<not> mk_failSave m3" "\<not> mk_failList m3" "\<not> mk_failToggle m3"
    "writes_of ''tunnel'' ''edit'' m3 = writes_of ''tunnel'' ''edit'' m @ [p, p]"
proof -
  have w: "\<not> mk_failList m" "\<not> mk_failToggle m" "map_of (mk_records m) ''tunnel'' = Some ([] @ x # rows)" using assms(1) by (simp_all add: world_ok_def)
  have h: "saved_form (fp_form f)" "mk_failSave (m\<lparr>mk_failSave := True\<rparr>)" using f(3) assms(4) by simp_all
  obtain f2 m2 where c2: "edit_click be (f, m\<lparr>mk_failSave := True\<rparr>) = (f2, m2)" "fp_form f2 = fp_form f" "\<not> fp_saving f2" "fp_waiting f2 = []"
    "fp_location f2 = fp_location f" "fp_messages f2 = fp_messages f @ [(False, FormText save_failed)]"
    "mk_records m2 = mk_records (m\<lparr>mk_failSave := True\<rparr>)" "mk_failList m2 = mk_failList (m\<lparr>mk_failSave := True\<rparr>)"
    "mk_failToggle m2 = mk_failToggle (m\<lparr>mk_failSave := True\<rparr>)"
    "mk_writes m2 = mk_writes (m\<lparr>mk_failSave := True\<rparr>) @ [(''tunnel'', ''edit'', buildPayload (fp_form f), ''/api/tunnel/edit'')]"
    unfolding be by (rule click_refused [OF f(1,2) h, of dp fixture t0 t1])
  let ?m2 = "m2\<lparr>mk_failSave := False\<rparr>"
  have u: "f_uuid (renamed (initForm x)) = u" using assms(3) by (simp add: renamed_def initForm_def split: prod.split)
  have h2: "saved_form (fp_form f2)" "\<not> mk_failSave ?m2" "map_of (mk_records ?m2) ''tunnel'' = Some ([] @ x # rows)"
    "str_prop ''uuid'' x = Some (JString (f_uuid (fp_form f2)))" "list_all (\<lambda>z. str_prop ''uuid'' z \<noteq> Some (JString (f_uuid (fp_form f2)))) []"
    using c2 f(3) w assms(3) h(1) u by simp_all
  obtain f3 m3 where c3: "edit_click be (f2, ?m2) = (f3, m3)" "fp_location f3 = Some ''/tunnel/list''"
    "map_of (mk_records m3) = (map_of (mk_records ?m2))(''tunnel'' \<mapsto> [] @ object_assign x (buildPayload (fp_form f2)) # rows)"
    "mk_failSave m3 = mk_failSave ?m2" "mk_failList m3 = mk_failList ?m2" "mk_failToggle m3 = mk_failToggle ?m2"
    "mk_writes m3 = mk_writes ?m2 @ [(''tunnel'', ''edit'', buildPayload (fp_form f2), ''/api/tunnel/edit'')]"
    unfolding be by (rule click_accepted [OF c2(3,4) h2, of dp fixture t0 t1])
  have e: "buildPayload (fp_form f2) = p" "buildPayload (fp_form f) = p" using c2(2) f(3) p_def by simp_all
  have "writes_of ''tunnel'' ''edit'' m3 = writes_of ''tunnel'' ''edit'' m @ [p, p]"
    using c2(10) c3(7) e by (simp add: writes_of_def List.map_filter_def)
  then show ?thesis by (intro that [OF c2(1) _ _ c3(1,2)]) (use c2 c3 w e f(4) in simp_all)
qed

lemma edited_row:
  assumes p: "p = buildPayload (renamed (initForm x))"
  shows "str_prop k (object_assign x p) = (case str_prop k p of None \<Rightarrow> str_prop k x | Some v \<Rightarrow> Some v)"
proof -
  have "distinct (map fst p)" by (simp add: p payload_keys form_keys_def)
  from map_of_rev_distinct [OF this] show ?thesis by (simp only: str_prop_assign) (simp add: str_prop_def)
qed

lemma edit_passes:
  assumes "world_ok (x # rows) (s, m)" "switchable x True" "statusFilter (t_page s) = ''all''" and be: "be = api dp fixture t0 t1"
    and "str_prop ''status'' x = Some (JString ''running'')" "str_prop ''uuid'' x = Some (JString u)" "saved_form (renamed (initForm x))"
    and "writes_of ''tunnel'' ''edit'' m = []" and p_def: "p = buildPayload (renamed (initForm x))"
  obtains s' m' where "edit_section be (s, m) = Some (s', m')" "world_ok (object_assign x p # rows) (s', m')" "statusFilter (t_page s') = ''running''"
    "isRunning (row_of_object (object_assign x p))" "str_prop ''name'' (object_assign x p) = Some (JString ''edited_tunnel'')" "addr_ok s'"
proof -
  let ?y = "object_assign x p"
  define nm where "nm = js_string (row_name (card_row s))"
  have nm: "str_prop ''name'' x = Some (JString nm)" "nm \<noteq> []" using assms(2) first_shown(2) [OF assms(1,3)] by (auto simp: switchable_def nm_def)
  have w: "\<not> mk_failList m" "map_of (mk_records m) ''tunnel'' = Some ([] @ x # rows)" using assms(1) by (simp_all add: world_ok_def)
  define f1 where "f1 = (edit_created None nm)\<lparr>fp_form := initForm x, fp_error := None, fp_waiting := []\<rparr>"
  have l: "form_roundtrip be True (edit_created None nm, m) = (f1, m)"
    unfolding be f1_def by (rule edit_loads [where as = "[]" and x = x and bs = rows]) (use nm w in simp_all)
  define f where "f = form_step True f1 (FillForm renamed)"
  have f: "\<not> fp_saving f" "fp_waiting f = []" "fp_form f = renamed (initForm x)" "fp_location f = None" and e: "fp_error f1 = None"
    using nm(2) by (simp_all add: f_def f1_def edit_created_def blank_page_def)
  obtain f2 m2 f3 m3 where c: "edit_click be (f, m\<lparr>mk_failSave := True\<rparr>) = (f2, m2)" "last (fp_messages f2) = (False, FormText save_failed)"
    "fp_location f2 = None" "edit_click be (f2, m2\<lparr>mk_failSave := False\<rparr>) = (f3, m3)" "fp_location f3 = Some ''/tunnel/list''"
    and m3: "map_of (mk_records m3) ''tunnel'' = Some (?y # rows)" "\<not> mk_failSave m3" "\<not> mk_failList m3" "\<not> mk_failToggle m3"
    and wr: "writes_of ''tunnel'' ''edit'' m3 = writes_of ''tunnel'' ''edit'' m @ [p, p]"
    by (rule edit_clicks [OF assms(1) be assms(6,7) p_def f])
  obtain s4 where r: "t_refresh be (refreshListDelayed init_tunnel_list, m3) = (s4, m3)" "world_ok (?y # rows) (s4, m3)" "statusFilter (t_page s4) = ''running''" "addr_ok s4"
    by (rule opened_world [OF be m3(3,2,4,1)])
  have n: "str_prop ''name'' ?y = Some (JString ''edited_tunnel'')" by (simp add: edited_row [OF p_def]) (simp add: p_def renamed_def)
  have "str_prop ''disabled'' ?y = Some (JBoolean False)" using assms(2)
    by (simp add: edited_row [OF p_def]) (simp add: p_def renamed_def initForm_def switchable_def split: prod.split)
  moreover have "str_prop ''status'' p = None" by (simp add: p_def buildPayload_def create_payload_def str_prop_def)
  then have "str_prop ''status'' ?y = Some (JString ''running'')" using assms(5) by (simp add: edited_row [OF p_def])
  ultimately have run: "isRunning (row_of_object ?y)" by (simp add: isRunning_def lower_def lower_char_def)
  have k: "list_all (\<lambda>k. str_prop k p \<noteq> None) edit_keys" by (simp add: edit_keys_def p_def)
  have v: "card_row s4 = normalizeTunnelRow (row_of_object ?y)" "cards s4 > 0"
    using first_card_0 [of s4 "normalizeTunnelRow (row_of_object ?y)" "shown rows"] r(2,3) run by (simp_all add: world_ok_def)
  have "edit_section be (s, m) = Some (s4, m3)"
    unfolding edit_section_def prod.case Let_def nm_def [symmetric] l f_def [symmetric] c(1,4) r(1)
    using e c(2,3,5) v n k wr assms(8) by simp
  then show ?thesis by (rule that [OF _ r(2,3) run n r(4)])
qed

section \<open>Library: diagnosis, clone, import, export, delete and checks pass\<close>

lemma addr_step: "addr_ok s \<Longrightarrow> addr_ok (t_step s e)"
proof -
  assume s: "addr_ok s"
  have r: "addr_ok s \<Longrightarrow> addr_ok (onCurrentChange r s)" for r s
    by (auto simp: addr_ok_def onCurrentChange_def syncTargetAddr_def Let_def)
  have c: "addr_ok s \<Longrightarrow> addr_ok (chain_answer c reply s)" for c reply s
    by (cases c) (auto simp: addr_ok_def switch_answer_def clone_answer_def delete_answer_def bandwidth_answer_def read_done_def
      import_answer_def check_answer_def batch_reject_def batch_fulfil_def send_def say_def refreshListDelayed_def change_row_def Let_def
      split: t_reply.splits option.splits)
  have i: "addr_ok s \<Longrightarrow> addr_ok (invokeClone u row s)" "addr_ok s \<Longrightarrow> addr_ok (invokeDelete w s)" "addr_ok s \<Longrightarrow> addr_ok (invokeBandwidthTest k s)"
    "addr_ok s \<Longrightarrow> addr_ok (invokeSetDisabled k en s)" "addr_ok s \<Longrightarrow> addr_ok (invokeImport fs s)" "addr_ok s \<Longrightarrow> addr_ok (invokeConfirmDelete s)"
    "addr_ok s \<Longrightarrow> addr_ok (invokeCheckServer ty s)" for u row w k en fs ty s
    by (auto simp: addr_ok_def invokeClone_def invokeDelete_def invokeBandwidthTest_def invokeSetDisabled_def invokeImport_def
      invokeConfirmDelete_def invokeCheckServer_def invokeCheckServerPhase_def send_def say_def Let_def split: option.splits)
  have u: "addr_ok (s\<lparr>t_chains := cs\<rparr>)" "addr_ok (s\<lparr>t_page := p, t_gen := g\<rparr>)" "addr_ok (tableData (s\<lparr>listRefreshTimer := b\<rparr>))" for cs p g b
    using s by (simp_all add: addr_ok_def tableData_def)
  show ?thesis using s r i c u by (cases e) (simp_all add: with_row_def Let_def)
qed

lemma addr_kept:
  "t_roundtrip be (s, m) = (s', m') \<Longrightarrow> addr_ok s \<Longrightarrow> addr_ok s'" "t_refresh be (s, m) = (s', m') \<Longrightarrow> addr_ok s \<Longrightarrow> addr_ok s'"
  by (auto simp: t_roundtrip_def t_refresh_def Let_def addr_step simp del: t_step.simps split: prod.splits)

lemma first_visible:
  assumes "world_ok (x # rows) (s, m)" "statusFilter (t_page s) = ''running''" "isRunning (row_of_object x)"
  shows "first_card s = 0" "card_row s = normalizeTunnelRow (row_of_object x)"
  using first_card_0 [of s "normalizeTunnelRow (row_of_object x)" "shown rows"] assms by (auto simp: world_ok_def)

lemma session_served:
  assumes "be = api dp fixture t0 t1"
  obtains r where "be (t_request (''/api/auth/session'', JObject [])) m = (r, m)" "auth_flag r = Some True"
proof -
  have "rq_path (t_request (''/api/auth/session'', JObject [])) = ''/api/auth/session''" "rq_payload (t_request (''/api/auth/session'', JObject [])) = Some []"
    using cut_absent [of "CHR ''?''" "''/api/auth/session''"] by (simp_all add: t_request_def)
  then have "be (t_request (''/api/auth/session'', JObject [])) m =
      (ok_reply [(''data'', JObject [(''authenticated'', JBoolean True), (''username'', JString ''admin'')])], m)"
    unfolding assms api_def by (simp only: option.case Let_def if_True refl)
  then show ?thesis by (rule that) (simp add: auth_flag_def ok_reply_def str_prop_def object_of_def)
qed

lemma mtr_passes:
  assumes be: "be = api dp fixture t0 t1"
  shows "mtr_section be ts (s, m) = Some (s, m)"
proof -
  obtain r where r: "be (t_request (''/api/auth/session'', JObject [])) m = (r, m)" "auth_flag r = Some True" by (rule session_served [OF be])
  have "rq_path (t_request (mtr_url (card_row s) ts, JObject [])) = ''/api/tunnel/mtr/stream''" "rq_payload (t_request (mtr_url (card_row s) ts, JObject [])) = Some []"
    using cut_append [of "CHR ''?''" "''/api/tunnel/mtr/stream''"] by (simp_all add: t_request_def mtr_url_def)
  then have st: "be (t_request (mtr_url (card_row s) ts, JObject [])) m = (EventStream (mtr_events t0), m)"
    unfolding be api_def by simp
  show ?thesis
    by (simp add: mtr_section_def r st mtr_events_def stream_event_def object_of_def invokeMTR_def session_alive_def resetMTRView_def init_mtr_def
      startMTRStream_def on_start_def on_terminal_def parseMTRPayload_def handleMTRModalVisibleChange_def invokeStopMTR_def closeMTRSource_def
      appendMTRError_def remove_nth_def str_prop_def Let_def)
qed

text \<open>Tunnels the later sections work on: named, with both endpoints.\<close>

definition named :: "string \<Rightarrow> string \<Rightarrow> object \<Rightarrow> bool" where
  "named nm u x \<longleftrightarrow> str_prop ''name'' x = Some (JString nm) \<and> str_prop ''uuid'' x = Some (JString u) \<and>
     (\<exists>a. str_prop ''input'' x = Some (JString a)) \<and> (\<exists>b. str_prop ''output'' x = Some (JString b))"

lemma first_copy:
  assumes "list_all (\<lambda>z. str_prop ''name'' z \<noteq> Some (JString (nm @ ''-copy'')) \<and> (\<exists>n. str_prop ''name'' z = Some (JString n))) rows"
  shows "uniqueCloneName (Suc k) (shown rows) nm = Some (nm @ ''-copy'')"
proof -
  have c: "clone_name nm 1 = nm @ ''-copy''" by (simp add: clone_name_def)
  have "nm @ ''-copy'' \<notin> set (map (\<lambda>r. js_string (row_name r)) (shown rows))" using assms by (auto simp: list_all_iff shown_def)
  then have "\<not> name_taken (map (\<lambda>r. js_string (row_name r)) (shown rows)) (clone_name nm 1)"
    using clone_name_not_inherited [of nm 1] unfolding name_taken_def c by blast
  then have "clone_loop (Suc k) (map (\<lambda>r. js_string (row_name r)) (shown rows)) nm 1 = Some (clone_name nm 1)" by simp
  then show ?thesis unfolding uniqueCloneName_def c .
qed

lemma clone_passes:
  assumes "world_ok (x # rows) (s, m)" "statusFilter (t_page s) = ''running''" "isRunning (row_of_object x)" "addr_ok s" and be: "be = api dp fixture t0 t1"
    and x: "named ''edited_tunnel'' u x" and "uuid \<noteq> []" "uuid \<noteq> u"
    and other: "list_all (\<lambda>z. str_prop ''name'' z \<noteq> Some (JString ''edited_tunnel-copy'') \<and> (\<exists>n. str_prop ''name'' z = Some (JString n))) rows"
  obtains s' m' y p where "clone_section be uuid (s, m) = Some (s', m')" "world_ok (y # x # rows) (s', m')" "statusFilter (t_page s') = ''all''" "addr_ok s'"
    "last (writes_of ''tunnel'' ''import'' m') = p" "distinct (map fst p)" "str_prop ''name'' y = Some (JString ''edited_tunnel-copy'')"
    "\<exists>a b. str_prop ''input'' p = Some (JString a) \<and> str_prop ''output'' p = Some (JString b)" "str_prop ''disabled'' p = Some (JBoolean True)"
proof -
  obtain a b where io: "str_prop ''input'' x = Some (JString a)" "str_prop ''output'' x = Some (JString b)" and n: "str_prop ''name'' x = Some (JString ''edited_tunnel'')"
    using x by (auto simp: named_def)
  define r where "r = normalizeTunnelRow (row_of_object x)"
  define p where "p = clone_payload uuid ''edited_tunnel-copy'' r"
  note p = clone_payload_props [where uuid = uuid and nm = "''edited_tunnel-copy''", OF r_def io, folded p_def]
  note f = first_visible [OF assms(1-3)]
  have w: "idle s" "\<not> clonePending s" "main_data (t_page s) = shown (x # rows)" "\<not> mk_failSave m" "\<not> mk_failList m" "map_of (mk_records m) ''tunnel'' = Some (x # rows)"
    using assms(1) by (simp_all add: world_ok_def)
  have h: "0 < length (x # rows)" "str_prop ''input'' ((x # rows) ! 0) = Some (JString a)" "str_prop ''output'' ((x # rows) ! 0) = Some (JString b)"
    "uniqueCloneName (Suc (length (x # rows))) (shown (x # rows)) (js_string (row_name (shown (x # rows) ! 0))) = Some ''edited_tunnel-copy''"
    "p = clone_payload uuid ''edited_tunnel-copy'' (shown (x # rows) ! 0)"
    using io n first_copy [of "''edited_tunnel''" "x # rows"] other by (simp_all add: p_def r_def del: shown_Cons) (simp_all add: n)
  obtain s1 s2 m' where c: "t_roundtrip be (t_step s (CloneTunnel 0 uuid), m) = (s1, m')" "t_refresh be (s1, m') = (s2, m')"
    and s2: "idle s2" "\<not> clonePending s2" "\<not> listRefreshTimer s2"
    "main_data (t_page s2) = shown (created_row p # x # rows)" "mutationPending (t_page s2) = mutationPending (t_page s)"
    "searchText (t_page s2) = searchText (t_page s)"
    and m': "map_of (mk_records m') = (map_of (mk_records m))(''tunnel'' \<mapsto> created_row p # x # rows)" "mk_failList m' = mk_failList m"
    "mk_failSave m' = mk_failSave m" "mk_failToggle m' = mk_failToggle m" "\<exists>u. mk_writes m' = mk_writes m @ [(''tunnel'', ''import'', p, u)]"
    unfolding be by (rule clone_steps [OF w(1-3) h(1-3) w(4-6) h(4,5), of dp fixture t0 t1])
  have y: "str_prop k (created_row p) = str_prop k p" if "k \<noteq> ''status''" for k
    using created_row_props [OF p(5), of k] p(2) assms(7) that by simp
  have l: "last (writes_of ''tunnel'' ''import'' m') = p" using m'(5) by (auto simp: writes_of_def List.map_filter_def)
  have ok: "world_ok (created_row p # x # rows) (choose_filter ''all'' s2, m')"
    by (rule world_filter) (use assms(1) s2 m' in \<open>simp add: world_ok_def\<close>)
  have cn: "card_named ''edited_tunnel-copy'' (choose_filter ''all'' s2)"
    using ok y [of "''name''"] p(3) by (simp add: card_named_iff world_ok_def)
  have i: "str_prop ''input'' p = Some (JString a)" "str_prop ''output'' p = Some (JString b)"
    using p(1) [of "''input''"] p(1) [of "''output''"] io by (simp_all add: config_keys_def)
  have "clone_section be uuid (s, m) = Some (choose_filter ''all'' s2, m')"
    unfolding clone_section_def prod.case f(1) c Let_def l
    using cn m'(1) p(2,4) i io n y [of "''name''"] p(3) x assms(8) by (simp add: named_def)
  moreover have "addr_ok (choose_filter ''all'' s2)"
    using addr_kept(2) [OF c(2)] addr_kept(1) [OF c(1)] addr_step [OF assms(4), of "CloneTunnel 0 uuid"] unfolding choose_filter_def by (intro addr_step) blast
  ultimately show ?thesis by (intro that [OF _ ok _ _ l p(5)]) (use y [of "''name''"] p(3,4) i in simp_all)
qed

lemma refreshed_world:
  assumes "be = api dp fixture t0 t1" "idle s" "listRefreshTimer s" "mutationPending (t_page s) = []" "\<not> clonePending s" "searchText (t_page s) = []"
    and "\<not> mk_failList m" "\<not> mk_failSave m" "\<not> mk_failToggle m" "map_of (mk_records m) ''tunnel'' = Some rows"
  obtains s' where "t_refresh be (s, m) = (s', m)" "world_ok rows (s', m)" "statusFilter (t_page s') = statusFilter (t_page s)"
proof -
  obtain s' where r: "t_refresh be (s, m) = (s', m)" "idle s'" "\<not> listRefreshTimer s'" "main_data (t_page s') = shown rows"
    "mutationPending (t_page s') = mutationPending (t_page s)" "clonePending s' = clonePending s"
    "statusFilter (t_page s') = statusFilter (t_page s)" "searchText (t_page s') = searchText (t_page s)"
    unfolding assms(1) by (rule refresh_shows [OF assms(2,3,7,10), of dp fixture t0 t1])
  show ?thesis by (rule that [OF r(1) _ r(7)]) (use r assms(4-10) in \<open>simp add: world_ok_def\<close>)
qed

lemma import_passes:
  assumes "world_ok rows (s, m)" "statusFilter (t_page s) = ''all''" "addr_ok s" and be: "be = api dp fixture t0 t1"
    and p: "last (writes_of ''tunnel'' ''import'' m) = p" "distinct (map fst p)" "\<exists>a b. str_prop ''input'' p = Some (JString a) \<and> str_prop ''output'' p = Some (JString b)"
  obtains s' m' y where "import_section be (s, m) = Some (s', m')" "world_ok (y # rows) (s', m')" "statusFilter (t_page s') = ''all''" "addr_ok s'"
    "named ''browser-import'' ''browser-import'' y"
proof -
  define ob where "ob = object_assign p [(''uuid'', JString ''browser-import''), (''name'', JString ''browser-import'')]"
  have d: "distinct (map fst ob)" using p(2) by (simp add: ob_def object_assign_def distinct_update)
  have o: "str_prop k ob = (if k = ''uuid'' \<or> k = ''name'' then Some (JString ''browser-import'') else str_prop k p)" for k
    by (simp add: ob_def str_prop_assign)
  have w: "idle s" "\<not> clonePending s" "mutationPending (t_page s) = []" "searchText (t_page s) = []" "\<not> mk_failSave m" "\<not> mk_failList m" "\<not> mk_failToggle m"
    "map_of (mk_records m) ''tunnel'' = Some rows" using assms(1) by (simp_all add: world_ok_def)
  define s0 where "s0 = s\<lparr>t_batches := t_batches s @ [(1, False)]\<rparr>"
  let ?read = "t_step (t_step s (ImportFiles [(''browser-import.tun'', Some (Some (JObject ob)))])) (Reply_to 0 (TReply Undefined Undefined []))"
  have s0: "t_chains s0 = []" "idle s0" using w(1) by (simp_all add: s0_def idle_def)
  have rd: "?read = send ''/api/tunnel/import'' (JObject ob) (ImportChain (length (t_batches s)) ''browser-import.tun'') s0"
  proof -
    have e: "s\<lparr>t_batches := bs, t_chains := []\<rparr> = s\<lparr>t_batches := bs\<rparr>" for bs by (rule tunnel_list.equality) (use w(1) in \<open>simp_all add: idle_def\<close>)
    show ?thesis using w(1) by (simp add: invokeImport_def read_done_def remove_nth_def s0_def idle_def e)
  qed
  obtain m1 where a: "be (t_request (''/api/tunnel/import'', JObject ob)) m = (ok_reply [], m1)"
    and m1: "map_of (mk_records m1) ''tunnel'' = Some (created_row ob # rows)" "\<not> mk_failList m1" "\<not> mk_failSave m1" "\<not> mk_failToggle m1"
    using t_write [of "''import''" dp fixture t0 t1 ob m] w unfolding be by (auto simp: write_action_def save_action_def)
  define s1 where "s1 = import_answer (length (t_batches s)) ''browser-import.tun'' (TReply (JNum 200) Undefined []) (s0\<lparr>t_posts := t_posts s0 @ [(''/api/tunnel/import'', JObject ob)]\<rparr>)"
  have r1: "t_roundtrip be (?read, m) = (s1, m1)" unfolding rd last_chain [OF s0(1)] a by (simp add: t_ok_reply s1_def)
  have s1: "idle s1" "listRefreshTimer s1" "mutationPending (t_page s1) = []" "\<not> clonePending s1" "searchText (t_page s1) = []" "statusFilter (t_page s1) = ''all''"
    using s0(2) w assms(2)
    by (simp_all add: s1_def import_answer_def batch_fulfil_def s0_def refreshListDelayed_def say_def idle_def nth_append)
  obtain s2 where r2: "t_refresh be (s1, m1) = (s2, m1)" "world_ok (created_row ob # rows) (s2, m1)" "statusFilter (t_page s2) = statusFilter (t_page s1)"
    by (rule refreshed_world [OF be s1(1-5) m1(2-4,1)])
  have y: "named ''browser-import'' ''browser-import'' (created_row ob)" using p(3) by (simp add: named_def created_row_props [OF d] o)
  have "card_named ''browser-import'' s2" using r2 s1(6) y by (simp add: card_named_iff world_ok_def named_def)
  then have i: "import_section be (s, m) = Some (s2, m1)"
    unfolding import_section_def prod.case p(1) ob_def [symmetric] Let_def r1 r2(1) by simp
  have "addr_ok s1" using addr_kept(1) [OF r1] addr_step assms(3) by blast
  then have "addr_ok s2" by (rule addr_kept(2) [OF r2(1)])
  then show ?thesis by (intro that [OF i r2(2) _ _ y]) (use r2(3) s1(6) in simp_all)
qed

lemma export_passes:
  assumes "world_ok (y # rows) (s, m)" "statusFilter (t_page s) = ''all''" and be: "be = api dp fixture t0 t1" and "named ''browser-import'' u y"
  shows "export_section be (s, m) = Some (s, m)"
proof -
  obtain r where r: "be (t_request (''/api/auth/session'', JObject [])) m = (r, m)" "auth_flag r = Some True" by (rule session_served [OF be])
  have "row_name (card_row s) = JStr ''browser-import''" using first_shown(2) [OF assms(1,2)] assms(4) by (simp add: named_def)
  moreover have "encodeURIComponent ''browser-import'' = ''browser-import''" by code_simp
  ultimately have "export_url (card_row s) = [] @ ''/api/tunnel/export?name=browser-import'' @ []" by (simp add: export_url_def)
  then have "contains ''/api/tunnel/export?name=browser-import'' (export_url (card_row s))" unfolding contains_iff by blast
  then show ?thesis using r by (simp add: export_section_def)
qed

lemma delete_passes:
  assumes "world_ok (y # rows) (s, m)" "statusFilter (t_page s) = ''all''" "addr_ok s" and be: "be = api dp fixture t0 t1" and y: "named ''browser-import'' u y"
    and other: "list_all (\<lambda>z. str_prop ''name'' z \<noteq> Some (JString ''browser-import'') \<and> (\<exists>n. str_prop ''name'' z = Some (JString n))) rows"
  obtains s' m' where "delete_section be (s, m) = Some (s', m')" "world_ok rows (s', m')" "addr_ok s'"
proof -
  note f = first_shown [OF assms(1,2)]
  have w: "idle s" "\<not> clonePending s" "mutationPending (t_page s) = []" "searchText (t_page s) = []" "\<not> mk_failSave m" "\<not> mk_failList m" "\<not> mk_failToggle m"
    "map_of (mk_records m) ''tunnel'' = Some (y # rows)" "main_data (t_page s) = shown (y # rows)" using assms(1) by (simp_all add: world_ok_def)
  define r where "r = shown (y # rows) ! 0"
  define s0 where "s0 = (onCurrentChange r s)\<lparr>t_deleteModal := True, t_deleteData := JStr ''browser-import''\<rparr>"
  have s0: "t_chains s0 = []" "t_page s0 = t_page s" "clonePending s0 = clonePending s" "idle s0"
    using w(1) by (simp_all add: s0_def idle_def onCurrentChange_def syncTargetAddr_def Let_def)
  let ?b = "[(''name'', JString ''browser-import'')]"
  have sd: "t_step (t_step s (DeleteTunnel 0)) ConfirmDelete = send ''/api/tunnel/delete'' (JObject ?b) DeleteChain s0"
    using w(9) y by (simp add: with_row_def Let_def r_def invokeDelete_def invokeConfirmDelete_def entries_def List.map_filter_simps s0_def named_def)
  have fl: "filter (\<lambda>z. str_prop ''name'' z \<noteq> Some (JString ''browser-import'')) (y # rows) = rows"
    using y other by (auto simp: named_def list_all_iff filter_id_conv)
  obtain m1 where a: "be (t_request (''/api/tunnel/delete'', JObject ?b)) m = (ok_reply [], m1)"
    and m1: "map_of (mk_records m1) ''tunnel'' = Some rows" "\<not> mk_failList m1" "\<not> mk_failSave m1" "\<not> mk_failToggle m1"
    using t_write [of "''delete''" dp fixture t0 t1 ?b m] w fl unfolding be by (auto simp: write_action_def delete_action_def str_prop_def)
  define s1 where "s1 = delete_answer (TReply (JNum 200) Undefined []) (s0\<lparr>t_posts := t_posts s0 @ [(''/api/tunnel/delete'', JObject ?b)]\<rparr>)"
  have r1: "t_roundtrip be (t_step (t_step s (DeleteTunnel 0)) ConfirmDelete, m) = (s1, m1)" unfolding sd last_chain [OF s0(1)] a by (simp add: t_ok_reply s1_def)
  have s1: "idle s1" "listRefreshTimer s1" "mutationPending (t_page s1) = []" "\<not> clonePending s1" "searchText (t_page s1) = []" "statusFilter (t_page s1) = ''all''"
    using s0 w assms(2) by (simp_all add: s1_def delete_answer_def refreshListDelayed_def idle_def)
  obtain s2 where r2: "t_refresh be (s1, m1) = (s2, m1)" "world_ok rows (s2, m1)" "statusFilter (t_page s2) = statusFilter (t_page s1)"
    by (rule refreshed_world [OF be s1(1-5) m1(2-4,1)])
  have "\<not> card_named ''browser-import'' s2" using r2 other by (auto simp: card_named_iff world_ok_def shown_def list_ex_iff list_all_iff)
  then have i: "delete_section be (s, m) = Some (s2, m1)" unfolding delete_section_def prod.case f(1) Let_def r1 r2(1) by simp
  have "addr_ok s1" using addr_kept(1) [OF r1] addr_step assms(3) by blast
  then show ?thesis by (intro that [OF i r2(2)]) (rule addr_kept(2) [OF r2(1)])
qed

lemma check_served:
  assumes "be = api dp fixture t0 t1"
  obtains msg where "be (t_request (check_url ty a ph, JObject body)) m = (ok_reply [(''msg'', JString msg)], m)" "msg \<noteq> []"
proof -
  have p: "rq_path (t_request (check_url ty a ph, JObject body)) = ''/api/'' @ ''tunnel'' @ ''/'' @ ''check_server''" "rq_payload (t_request (check_url ty a ph, JObject body)) = Some body"
    using cut_append [of "CHR ''?''" "''/api/tunnel/check_server''"] by (simp_all add: t_request_def check_url_def)
  have g: "split_on CHR ''/'' (''/api/'' @ ''tunnel'' @ ''/'' @ ''check_server'') = [[], ''api'', ''tunnel'', ''check_server'']" by (rule api_segments) simp_all
  show ?thesis by (rule that) (simp_all only: assms api_def p g option.case Let_def, simp_all add: nth_opt_def utf8_def, simp)
qed

lemma tools_passes:
  assumes "world_ok rows (s, m)" "addr_ok s" and be: "be = api dp fixture t0 t1"
  obtains s' where "tools_section be (s, m) = Some (s', m)"
proof -
  let ?a = "trim (targetAddr s)"
  have a: "?a \<noteq> []" using assms(2) by (auto simp: addr_ok_def trim_def is_space_def)
  have c: "t_chains s = []" using assms(1) by (simp add: world_ok_def idle_def)
  obtain x where x: "be (t_request (check_url ''socks5'' ?a ''tcp'', JObject [])) m = (ok_reply [(''msg'', JString x)], m)" "x \<noteq> []" by (rule check_served [OF be])
  obtain z where z: "be (t_request (check_url ''socks5'' ?a ''udp'', JObject [])) m = (ok_reply [(''msg'', JString z)], m)" "z \<noteq> []" by (rule check_served [OF be])
  show ?thesis
    by (rule that) (use a c x z in \<open>simp add: tools_section_def invokeCheckServer_def invokeCheckServerPhase_def send_def answer_first_def nth_append
      t_reply_of_def ok_reply_def str_prop_def check_answer_def say_def notice_shown_def check_title_def remove_nth_def Let_def\<close>)
qed

lemma probe_passes: "ToggleProbe \<notin> set afterwards \<Longrightarrow> probe_section during afterwards"
proof -
  assume a: "ToggleProbe \<notin> set afterwards"
  let ?on = "probe_step init_probe ToggleProbe"
  let ?left = "probe_step (foldl probe_step ?on during) LeaveTunnelPage"
  have "probe_inv ?left" by (intro probe_step_inv probe_run_inv init_probe_inv)
  moreover have "\<not> probeEnabled ?left" by (simp add: stopProbeLoop_def)
  moreover have "probeEnabled ?on" by (simp add: invokeProbeToggle_def init_probe_def fireProbe_def)
  ultimately show ?thesis using off_run [OF _ _ a] unfolding probe_section_def Let_def by blast
qed

section \<open>Properties\<close>

text \<open>The tunnels the script starts with.\<close>

lemma first_tunnel:
  obtains a b c where "tunnels = [a, b, c]" "str_prop ''name'' a = Some (JString name_a)" "str_prop ''disabled'' a = Some (JBoolean False)" "str_prop ''uuid'' a = Some (JString ''a'')"
    "str_prop ''input'' a = Some (JString ''socks5x@0.0.0.0:1072'')" "str_prop ''output'' a = Some (JString ''tcp_mux@154.36.173.131:4000'')"
    "str_prop ''name'' b = Some (JString name_b)" "str_prop ''name'' c = Some (JString ''failed_tunnel'')"
  by (rule that [of "tunnels ! 0" "tunnels ! 1" "tunnels ! 2"]) (simp_all add: tunnels_def str_prop_def)

lemma renamed_saves:
  assumes "str_prop ''input'' x = Some (JString ''socks5x@0.0.0.0:1072'')" "str_prop ''output'' x = Some (JString ''tcp_mux@154.36.173.131:4000'')"
  shows "saved_form (renamed (initForm x))"
proof -
  have "splitEndpoint ''socks5x@0.0.0.0:1072'' ''tcp'' = (''socks5x'', ''0.0.0.0:1072'')"
    "splitEndpoint ''tcp_mux@154.36.173.131:4000'' ''tcp'' = (''tcp_mux'', ''154.36.173.131:4000'')"
    by code_simp+
  then have "f_in_addr (initForm x) = ''0.0.0.0:1072''" "f_out_addr (initForm x) = ''154.36.173.131:4000''"
    using assms by (simp_all add: initForm_def)
  then show ?thesis by (simp add: renamed_def saved_form_def trim_id is_space_def)
qed

text \<open>
  C37: The script's run over the tunnel page passes. From the initial records it opens the list with the
  one running tunnel, searches and filters, switches the first tunnel with one refusal, renames it in
  the edit form with one refusal, opens and closes a diagnosis, clones it, imports the clone under
  another name, exports and deletes the import and checks the SOCKS5 server: no assertion fails and
  every element waited for appears, whatever fresh identifier the clone is given.
\<close>

theorem tunnel_sections_pass:
  assumes "be = api dp fixture t0 t1" and "uuid \<noteq> []" and "uuid \<noteq> ''a''"
  shows "\<exists>w4 w. Option.bind (Option.bind (Option.bind (start_section be initial_mock) filter_section) (switch_section be)) (edit_section be) = Some w4 \<and>
    Option.bind (Option.bind (Option.bind (Option.bind (Option.bind (mtr_section be ts w4) (clone_section be uuid)) (import_section be)) (export_section be))
      (delete_section be)) (tools_section be) = Some w"
proof -
  obtain a b c where t: "tunnels = [a, b, c]" "str_prop ''name'' a = Some (JString name_a)" "str_prop ''disabled'' a = Some (JBoolean False)" "str_prop ''uuid'' a = Some (JString ''a'')"
    "str_prop ''input'' a = Some (JString ''socks5x@0.0.0.0:1072'')" "str_prop ''output'' a = Some (JString ''tcp_mux@154.36.173.131:4000'')"
    "str_prop ''name'' b = Some (JString name_b)" "str_prop ''name'' c = Some (JString ''failed_tunnel'')"
    by (rule first_tunnel)
  obtain s1 where r1: "start_section be initial_mock = Some (s1, initial_mock)" "world_ok tunnels (s1, initial_mock)"
    by (rule start_passes [OF assms(1)])
  obtain s2 where r2: "filter_section (s1, initial_mock) = Some (s2, initial_mock)" "world_ok [a, b, c] (s2, initial_mock)" "statusFilter (t_page s2) = ''all''"
    by (rule filter_passes [OF r1(2), unfolded t(1)])
  have sw: "switchable a True" using t by (simp add: switchable_def object_prototype_keys_def name_a_def)
  obtain s3 m3 x where r3: "switch_section be (s2, initial_mock) = Some (s3, m3)" "world_ok [x, b, c] (s3, m3)" "switchable x True"
    "str_prop ''status'' x = Some (JString ''running'')" "\<forall>k. k \<notin> {''disabled'', ''status''} \<longrightarrow> str_prop k x = str_prop k a"
    "statusFilter (t_page s3) = ''all''" "writes_of ''tunnel'' ''edit'' m3 = writes_of ''tunnel'' ''edit'' initial_mock"
    by (rule switch_passes [OF r2(2) sw r2(3) assms(1)])
  have x: "str_prop ''uuid'' x = Some (JString ''a'')" "saved_form (renamed (initForm x))" and w0: "writes_of ''tunnel'' ''edit'' m3 = []"
    using r3(5,7) t renamed_saves [of x] by (simp_all add: writes_of_def initial_mock_def List.map_filter_simps)
  define y where "y = object_assign x (buildPayload (renamed (initForm x)))"
  obtain s4 m4 where r4: "edit_section be (s3, m3) = Some (s4, m4)" "world_ok [y, b, c] (s4, m4)" "statusFilter (t_page s4) = ''running''"
    "isRunning (row_of_object y)" "str_prop ''name'' y = Some (JString ''edited_tunnel'')" "addr_ok s4"
    unfolding y_def by (rule edit_passes [OF r3(2,3,6) assms(1) r3(4) x w0 refl])
  have y: "named ''edited_tunnel'' ''a'' y" using r4(5) x(1) by (simp add: named_def y_def edited_row [OF refl]) (simp add: renamed_def initForm_def split: prod.split)
  have bc: "list_all (\<lambda>z. str_prop ''name'' z \<noteq> Some (JString ''edited_tunnel-copy'') \<and> (\<exists>n. str_prop ''name'' z = Some (JString n))) [b, c]"
    using t(7,8) by (simp add: name_b_def)
  obtain s5 m5 z p where r5: "clone_section be uuid (s4, m4) = Some (s5, m5)" "world_ok [z, y, b, c] (s5, m5)" "statusFilter (t_page s5) = ''all''" "addr_ok s5"
    "last (writes_of ''tunnel'' ''import'' m5) = p" "distinct (map fst p)" "str_prop ''name'' z = Some (JString ''edited_tunnel-copy'')"
    "\<exists>a b. str_prop ''input'' p = Some (JString a) \<and> str_prop ''output'' p = Some (JString b)"
    by (rule clone_passes [OF r4(2-4,6) assms(1) y assms(2,3) bc])
  obtain s6 m6 v where r6: "import_section be (s5, m5) = Some (s6, m6)" "world_ok [v, z, y, b, c] (s6, m6)" "statusFilter (t_page s6) = ''all''" "addr_ok s6"
    "named ''browser-import'' ''browser-import'' v"
    by (rule import_passes [OF r5(2-4) assms(1) r5(5,6,8)])
  have n: "list_all (\<lambda>z. str_prop ''name'' z \<noteq> Some (JString ''browser-import'') \<and> (\<exists>n. str_prop ''name'' z = Some (JString n))) [z, y, b, c]"
    using t(7,8) r4(5) r5(7) by (simp add: name_b_def)
  obtain s7 m7 where r7: "delete_section be (s6, m6) = Some (s7, m7)" "world_ok [z, y, b, c] (s7, m7)" "addr_ok s7"
    by (rule delete_passes [OF r6(2-4) assms(1) r6(5) n])
  obtain s8 where r8: "tools_section be (s7, m7) = Some (s8, m7)" by (rule tools_passes [OF r7(2,3) assms(1)])
  show ?thesis using r1(1) r2(1) r3(1) r4(1) r5(1) r6(1) r7(1) r8 mtr_passes [OF assms(1)] export_passes [OF r6(2,3) assms(1) r6(5)] by simp
qed

theorem tunnel_sections_pass_witness:
  "Option.bind (Option.bind (Option.bind (start_section (api (\<lambda>_. None) [] [] []) initial_mock) filter_section)
     (switch_section (api (\<lambda>_. None) [] [] []))) (edit_section (api (\<lambda>_. None) [] [] [])) \<noteq> None"
  using tunnel_sections_pass [OF refl, of "''u''" "\<lambda>_. None" "[]" "[]" "[]" "[]"] by auto

text \<open>
  The script's check of the probe loop. Probing is on after one click; whatever ticks and replies come
  while the page is open and after it is left, no probe is sent once it is left.
\<close>

theorem probe_section_passes:
  assumes "ToggleProbe \<notin> set afterwards"
  shows "probe_section during afterwards"
  by (rule probe_passes [OF assms])

theorem probe_section_passes_witness:
  "probe_section [IntervalFires, ProbeAnswer 0 (ProbeReply (JNum 200) Undefined)] [IntervalFires, RefreshFires]"
  by (rule probe_section_passes) simp

end
