(* ===== verification/RouteScript.thy ===== *)
theory RouteScript
  imports RouteForms UiScript
begin

text \<open>
  The sections of \<open>src/scripts/test-admin-ui.cjs\<close> on the route and service pages: for each kind the first
  row is opened in its window, changed, refused and saved; on the route inputs the probe settings, both
  policies and the old probe mode are checked; on the services a failing list and the four types.

  On these pages the filter stays on all rows, so the cards are the rows of the list. The script waits for
  the effect of every action. The reply to the page's request for the names of the tunnels fills the menu
  of members and is left out.
\<close>

type_synonym route_world = "config_page \<times> mock"

section \<open>What the script reads\<close>

definition first_member :: "object \<Rightarrow> json option" where
  "first_member f = (case array_of (str_prop ''members'' f) of [] \<Rightarrow> None | j # js \<Rightarrow> Some j)"

definition quality_of :: "string \<Rightarrow> object \<Rightarrow> json option" where
  "quality_of k f = str_prop k (object_of (str_prop ''quality'' f))"

definition last_edit :: "config_kind \<Rightarrow> mock \<Rightarrow> object" where
  "last_edit k m = last (writes_of (kind_name k) ''edit'' m)"

text \<open>The card whose name has the text; the script stops when there is none or more than one.\<close>

definition card_with :: "string \<Rightarrow> config_page \<Rightarrow> row option" where
  "card_with t s = (case filter (\<lambda>r. contains t (js_string (row_name r))) (main_data (cp s)) of [r] \<Rightarrow> Some r | _ \<Rightarrow> None)"

text \<open>The parts of a card that the probes decide.\<close>

definition probe_text :: "object \<Rightarrow> string" where
  "probe_text row =
     (let names = strings_of (array_of (str_prop ''members'' row)) in
      concat (map (\<lambda>n. case memberStatus row n of Inr t \<Rightarrow> t | Inl h \<Rightarrow> []) names) @
      concat (strings_of (array_of (str_prop ''probe_warnings'' row))) @ concat (map (qualityText row) names) @ policyLabel row)"

definition cancel_window :: "config_page \<Rightarrow> config_page" where
  "cancel_window s = s\<lparr>cp := (cp s)\<lparr>editModal := False\<rparr>\<rparr>"

section \<open>The windows\<close>

text \<open>A refused save and one that is accepted.\<close>

definition save_section :: "backend \<Rightarrow> config_kind \<Rightarrow> route_world \<Rightarrow> route_world option" where
  "save_section be k w =
     (case w of (s, m) \<Rightarrow>
        let m0 = m\<lparr>mk_failSave := True\<rparr>; refused = fst (serve be (last (posts (cp (config_save k s)))) m0) in
        (case config_click be k (s, m0) of (s1, m1) \<Rightarrow>
        (case config_click be k (s1, m1\<lparr>mk_failSave := False\<rparr>) of (s2, m2) \<Rightarrow>
           check ((case refused of Reply code msg d \<Rightarrow> code = JNum 500 | _ \<Rightarrow> False) \<and>
                  last (messages (cp s1)) = (False, Text save_failed) \<and> editModal (cp s1) \<and> \<not> editModal (cp s2)) (s2, m2))))"

definition type_quality :: "object \<Rightarrow> object \<Rightarrow> object" where
  "type_quality kvs f = AList.update ''quality'' (JObject (object_assign (object_of (str_prop ''quality'' f)) kvs)) f"

definition typed_quality :: object where
  "typed_quality =
     [(''download_url'', JString ''https://download.example.com/probe.bin''), (''connectivity_url'', JString ''https://check.example.com/ok''),
      (''interval_sec'', JNumber 60)]"

definition typing_section :: "route_world \<Rightarrow> route_world option" where
  "typing_section w =
     (case w of (s, m) \<Rightarrow>
        let s1 = config_change (type_quality typed_quality) s in
        check (contains (''2 '' @ utf8 [230, 157, 161, 229, 133, 177] @ '' 2.83 GB'') (qualityTraffic (cp_data s)) \<and>
               contains (''2 '' @ utf8 [230, 157, 161, 229, 133, 177] @ '' 1.42 GB'') (qualityTraffic (cp_data s1))) (s1, m))"

definition window_section :: "backend \<Rightarrow> config_kind \<Rightarrow> mock \<Rightarrow> route_world option" where
  "window_section be k m =
     (let s = config_opened be k m in
      case main_data (cp s) of
        [] \<Rightarrow> None
      | r # rs \<Rightarrow>
          let s0 = config_edit k r s; s1 = (if k = BuiltinService then s0 else config_change (moveMember 0 1) s0) in
          Option.bind (check (editModal (cp s0) \<and> (k = BuiltinService \<or> first_member (cp_data s1) = Some (JString name_b))) (s1, m)) (\<lambda>w1.
          Option.bind (if k = RouteInput then typing_section w1 else Some w1) (\<lambda>w2.
          Option.bind (save_section be k w2) (\<lambda>w3.
            check (k = BuiltinService \<or> first_member (last_edit k (snd w3)) = Some (JString name_b)) w3))))"

section \<open>Route inputs\<close>

text \<open>What was typed has been sent and is shown again.\<close>

definition saved_section :: "route_world \<Rightarrow> route_world option" where
  "saved_section w =
     (case w of (s, m) \<Rightarrow>
        let p = last_edit RouteInput m; s1 = config_edit RouteInput (main_data (cp s) ! 0) s in
        check (str_prop ''policy'' p = Some (JString ''quality'') \<and>
               quality_of ''download_url'' p = Some (JString ''https://download.example.com/probe.bin'') \<and>
               quality_of ''connectivity_url'' p = Some (JString ''https://check.example.com/ok'') \<and>
               quality_of ''interval_sec'' p = Some (JNumber 60) \<and>
               quality_of ''download_url'' (cp_data s1) = quality_of ''download_url'' p)
          (cancel_window s1, m))"

definition choose_policy :: "string \<Rightarrow> object \<Rightarrow> object" where
  "choose_policy v f = AList.update ''policy'' (JString v) f"

definition priority_url :: string where
  "priority_url = ''https://priority.example.com/probe.bin''"

text \<open>Trying the other policy and going back keeps the settings; \<open>seen\<close> is the note of the policy.\<close>

definition priority_section :: "backend \<Rightarrow> route_world \<Rightarrow> route_world option" where
  "priority_section be w =
     (case w of (s, m) \<Rightarrow>
        (case card_with ''auto_priority'' s of
           None \<Rightarrow> None
         | Some r \<Rightarrow>
             let row = object_of_row r; s1 = config_edit RouteInput r s;
                 s2 = config_change (choose_policy ''priority'') (config_change (choose_policy ''quality'') s1);
                 seen = (str_prop ''policy'' (cp_data s1) \<noteq> Some (JString ''quality''))
             in (case config_click be RouteInput (s2, m) of (s3, m3) \<Rightarrow>
                   let p = last_edit RouteInput m3 in
                   check (policyLabel row = utf8 [228, 188, 152, 229, 133, 136, 231, 186, 167, 230, 149, 133, 233, 154, 156, 232, 189, 172, 231, 167, 187, 239, 188, 136, 229, 174, 140, 230, 149, 180, 233, 147, 190, 232, 183, 175, 239, 188, 137] \<and> contains (utf8 [232, 191, 158, 231, 187, 173, 230, 173, 163, 229, 184, 184] @ '' 2'') (probe_text row) \<and>
                          \<not> contains (utf8 [232, 175, 132, 228, 188, 176, 228, 184, 173]) (probe_text row) \<and>
                          quality_of ''download_url'' (cp_data s1) = Some (JString priority_url) \<and> seen \<and>
                          quality_of ''download_url'' (cp_data s2) = Some (JString priority_url) \<and> \<not> editModal (cp s3) \<and>
                          str_prop ''policy'' p = Some (JString ''priority'') \<and> quality_of ''interval_sec'' p = Some (JNumber 45) \<and>
                          quality_of ''download_url'' p = Some (JString priority_url)) (s3, m3))))"

definition legacy_warning :: string where
  "legacy_warning = ''legacy_tcp'' @ utf8 [239, 188, 154, 229, 174, 140, 230, 149, 180, 233, 147, 190, 232, 183, 175, 230, 142, 162, 230, 181, 139, 232, 166, 129, 230, 177, 130] @ '' member '' @ utf8 [231, 154, 132] @ '' input '' @ utf8 [228, 184, 186] @ '' socks5x''"

text \<open>The window warns when the row has warnings.\<close>

definition legacy_section :: "route_world \<Rightarrow> route_world option" where
  "legacy_section w =
     (case w of (s, m) \<Rightarrow>
        (case card_with ''auto_legacy'' s of
           None \<Rightarrow> None
         | Some r \<Rightarrow>
             let row = object_of_row r; s1 = config_edit RouteInput r s in
             check (policyLabel row = utf8 [228, 188, 152, 229, 133, 136, 231, 186, 167, 230, 149, 133, 233, 154, 156, 232, 189, 172, 231, 167, 187, 239, 188, 136, 230, 151, 167, 231, 137, 136, 229, 141, 149, 232, 183, 179, 230, 142, 162, 230, 181, 139, 239, 188, 137] \<and>
                    JString legacy_warning \<in> set (array_of (str_prop ''probe_warnings'' row)) \<and>
                    array_of (str_prop ''probe_warnings'' (cp_data s1)) \<noteq> [])
               (cancel_window s1, m)))"

section \<open>Services\<close>

definition refresh_page :: "backend \<Rightarrow> route_world \<Rightarrow> route_world" where
  "refresh_page be w = (case w of (s, m) \<Rightarrow> (case roundtrip be (loadList KNone (cp s), m) of (p, m1) \<Rightarrow> (s\<lparr>cp := p\<rparr>, m1)))"

definition failing_list_section :: "backend \<Rightarrow> route_world \<Rightarrow> route_world option" where
  "failing_list_section be w =
     (case w of (s, m) \<Rightarrow>
        (case refresh_page be (s, m\<lparr>mk_failList := True\<rparr>) of (s1, m1) \<Rightarrow>
        (case refresh_page be (s1, m1\<lparr>mk_failList := False\<rparr>) of (s2, m2) \<Rightarrow>
           check (listError (cp s1) = Some (Text list_failed) \<and> listError (cp s2) = None \<and> main_data (cp s2) \<noteq> []) (s2, m2))))"

text \<open>The timeouts show for both kinds of SOCKS server, the login for one.\<close>

definition type_section :: "string \<Rightarrow> route_world \<Rightarrow> route_world option" where
  "type_section ty w =
     (case w of (s, m) \<Rightarrow>
        (case card_with ty s of
           None \<Rightarrow> None
         | Some r \<Rightarrow>
             let s1 = config_edit BuiltinService r s; f = cp_data s1 in
             check ((contains ''socks'' ty \<longrightarrow> isSocksType f) \<and> (ty = ''socks5_server'' \<longrightarrow> str_prop ''type'' f = Some (JString ''socks5_server'')))
               (cancel_window s1, m)))"

definition types_section :: "route_world \<Rightarrow> route_world option" where
  "types_section w =
     Option.bind (Option.bind (type_section ''http_proxy'' w) (type_section ''socks5_server'')) (type_section ''socks5x_server'')"

section \<open>Library: windows and forms\<close>

abbreviation shown_row :: "object \<Rightarrow> row" where
  "shown_row ob \<equiv> normalize_row RouteRow (row_of_object ob)"

lemma members_form: "k \<noteq> BuiltinService \<Longrightarrow> str_prop ''members'' (edit_form k row) = Some (JArray (array_of (str_prop ''members'' row)))"
  by (cases k) (simp_all add: route_input_form_def route_output_form_def str_prop_literal split_def del: literal_Cons)

lemma members_payload: "k \<noteq> BuiltinService \<Longrightarrow> str_prop ''members'' (save_payload k f en) = str_prop ''members'' f"
  by (cases k) (simp_all add: route_input_payload_def route_output_payload_def str_prop_literal del: literal_Cons)

lemma moved_first:
  assumes "str_prop ''members'' f = Some (JArray [a, b])"
  shows "first_member (moveMember 0 1 f) = Some b" "array_of (str_prop ''members'' (moveMember 0 1 f)) = [b, a]"
  using assms by (simp_all add: first_member_def moveMember_def array_of_def str_prop_def update_conv' move_item_def remove_nth_def)

lemma moved_other: "k \<noteq> ''members'' \<Longrightarrow> str_prop k (moveMember i d f) = str_prop k f"
  by (simp add: moveMember_def str_prop_def update_conv')

lemma typed_other: "k \<noteq> ''quality'' \<Longrightarrow> str_prop k (type_quality kvs f) = str_prop k f"
  by (simp add: type_quality_def str_prop_def update_conv')

lemma typed_first: "first_member (type_quality kvs f) = first_member f"
  by (simp add: first_member_def typed_other)

lemma typed_quality_of: "quality_of k (type_quality kvs f) = (case map_of (rev kvs) k of None \<Rightarrow> quality_of k f | Some v \<Rightarrow> Some v)"
  by (simp add: quality_of_def type_quality_def str_prop_def update_conv' object_of_def map_of_object_assign split: option.split)

lemma input_form_fields:
  "str_prop ''quality'' (edit_form RouteInput row) = Some (JObject (defaultQuality (str_prop ''quality'' row)))"
  "str_prop ''policy'' (edit_form RouteInput row) = Some (js_or (str_prop ''policy'' row) (JString ''priority''))"
  "str_prop ''probe_warnings'' (edit_form RouteInput row) = Some (js_or (str_prop ''probe_warnings'' row) (JArray []))"
  "str_prop ''quality'' (save_payload RouteInput f en) = str_prop ''quality'' f" "str_prop ''policy'' (save_payload RouteInput f en) = str_prop ''policy'' f"
  by (simp_all add: route_input_form_def route_input_payload_def str_prop_literal del: literal_Cons)

text \<open>The reply to a refused save, and the two clicks.\<close>

lemma refused_reply:
  assumes "config_idle k s" "trim (text_prop ''name'' (cp_data s)) \<noteq> []" "mk_failSave m"
  shows "fst (serve (api dp fixture t0 t1) (last (posts (cp (config_save k s)))) m) = Reply (JNum 500) (JStr save_failed) None"
proof -
  define p where "p = save_payload k (cp_data s) (cp_enabled s)"
  define action where "action = (if json_truthy (str_prop ''uuid'' (cp_data s)) then ''edit'' else ''create'')"
  have act: "action \<in> {''create'', ''edit''}" by (simp add: action_def)
  let ?u = "''/api/'' @ kind_name k @ ''/'' @ action"
  have n: "trim (text_prop ''name'' p) \<noteq> []" using assms(2) unfolding p_def text_prop_def payload_ids(2) .
  have "save_url k (cp_data s) = ?u" by (simp add: save_url_def action_def)
  then have l: "last (posts (cp (config_save k s))) = (?u, SaveBody p)"
    using assms(1) n by (simp add: config_save_def saveConfiguration_def config_idle_def p_def [symmetric])
  have "api dp fixture t0 t1 (request_of (?u, SaveBody p)) m = write_action (kind_name k) action [] p (logged (kind_name k) action p (request_of (?u, SaveBody p)) m)"
    using api_write [OF kind_chars(1), of action "request_of (?u, SaveBody p)" k p] act request_save [OF act, of k p] by auto
  then show ?thesis unfolding l serve_def using assms(3) act by (auto simp: write_action_def reply_of_def fail_reply_def str_prop_def)
qed

lemma save_passes:
  assumes "config_idle k s" "editModal (cp s)" "trim (text_prop ''name'' (cp_data s)) \<noteq> []" "\<not> mk_failList m"
    and "map_of (mk_records m) (kind_name k) = Some (x # bs)" "str_prop ''uuid'' (cp_data s) = Some (JString u)" "u \<noteq> []" "str_prop ''uuid'' x = Some (JString u)"
    and be: "be = api dp fixture t0 t1" and p_def: "p = save_payload k (cp_data s) (cp_enabled s)"
  obtains s' m' where "save_section be k (s, m) = Some (s', m')" "config_idle k s'" "main_data (cp s') = map shown_row (object_assign x p # bs)"
    "map_of (mk_records m') = (map_of (mk_records m))(kind_name k \<mapsto> object_assign x p # bs)" "last_edit k m' = p" "\<not> mk_failList m'" "\<not> mk_failSave m'"
proof -
  have n: "trim (text_prop ''name'' (save_payload k (cp_data s) (cp_enabled s))) \<noteq> []" using assms(3) unfolding text_prop_def payload_ids(2) .
  let ?m = "m\<lparr>mk_failSave := True\<rparr>"
  have fs: "mk_failSave ?m" by simp
  obtain s1 m1 where c1: "config_click be k (s, ?m) = (s1, m1)" "config_idle k s1" "cp_data s1 = cp_data s" "cp_enabled s1 = cp_enabled s"
    "editModal (cp s1) = editModal (cp s)" "mk_records m1 = mk_records ?m" "mk_failList m1 = mk_failList ?m" "messages (cp s1) = messages (cp s) @ [(False, Text save_failed)]"
    unfolding be by (rule save_refused [OF assms(1) n fs, of dp fixture t0 t1])
  let ?m1 = "m1\<lparr>mk_failSave := False\<rparr>"
  have h: "trim (text_prop ''name'' (cp_data s1)) \<noteq> []" "\<not> mk_failSave ?m1" "\<not> mk_failList ?m1" "map_of (mk_records ?m1) (kind_name k) = Some ([] @ x # bs)"
    "str_prop ''uuid'' (cp_data s1) = Some (JString u)" "list_all (\<lambda>z. str_prop ''uuid'' z \<noteq> Some (JString u)) []" "p = save_payload k (cp_data s1) (cp_enabled s1)"
    using assms c1 by simp_all
  obtain s2 m2 where c2: "config_click be k (s1, ?m1) = (s2, m2)" "config_idle k s2" "\<not> editModal (cp s2)"
    "main_data (cp s2) = map shown_row ([] @ object_assign x p # bs)" "map_of (mk_records m2) = (map_of (mk_records ?m1))(kind_name k \<mapsto> [] @ object_assign x p # bs)"
    "mk_writes m2 = mk_writes ?m1 @ [(kind_name k, ''edit'', p, ''/api/'' @ kind_name k @ ''/edit'')]" "mk_failList m2 = mk_failList ?m1" "mk_failSave m2 = mk_failSave ?m1"
    unfolding be by (rule save_accepted [OF c1(2) h(1-5) assms(7,8) h(6,7), of dp fixture t0 t1])
  note rf = refused_reply [OF assms(1,3) fs, of dp fixture t0 t1, folded be]
  have sv: "save_section be k (s, m) = Some (s2, m2)"
    unfolding save_section_def prod.case Let_def c1(1) c2(1) rf using c1(5,8) c2(3) assms(2) by simp
  have l: "last_edit k m2 = p" using c2(6) by (simp add: last_edit_def writes_of_def List.map_filter_def)
  show ?thesis by (rule that [OF sv c2(2) _ _ l]) (use c2 h c1(6) in simp_all)
qed

section \<open>Library: the sections on the windows pass\<close>

text \<open>A list with a first row that can be edited; routes have two members.\<close>

definition editable :: "config_kind \<Rightarrow> object \<Rightarrow> bool" where
  "editable k x \<longleftrightarrow>
     config_row x \<and> (\<exists>u. u \<noteq> [] \<and> str_prop ''uuid'' x = Some (JString u)) \<and> (\<exists>n. trim n \<noteq> [] \<and> str_prop ''name'' x = Some (JString n)) \<and>
     (k \<noteq> BuiltinService \<longrightarrow> str_prop ''members'' x = Some (JArray (map JString [name_a, name_b])))"

definition no_failure :: "mock \<Rightarrow> bool" where
  "no_failure m \<longleftrightarrow> \<not> mk_failList m \<and> \<not> mk_failSave m"

definition window_form :: "config_kind \<Rightarrow> object \<Rightarrow> object" where
  "window_form k x =
     (let f = edit_form k (object_of_row (shown_row x)) in if k = BuiltinService then f else moveMember 0 1 f)"

lemma window_form_facts:
  assumes "editable k x"
  shows "str_prop ''uuid'' (window_form k x) = str_prop ''uuid'' x" "str_prop ''name'' (window_form k x) = str_prop ''name'' x"
    and "k \<noteq> BuiltinService \<Longrightarrow> first_member (window_form k x) = Some (JString name_b)"
    and "k \<noteq> BuiltinService \<Longrightarrow> array_of (str_prop ''members'' (window_form k x)) = [JString name_b, JString name_a]"
proof -
  have x: "config_row x" using assms by (simp add: editable_def)
  show "str_prop ''uuid'' (window_form k x) = str_prop ''uuid'' x" "str_prop ''name'' (window_form k x) = str_prop ''name'' x"
    using opened_ids [OF x, of k] by (simp_all only: window_form_def Let_def moved_ids split: if_splits) simp_all
  assume k: "k \<noteq> BuiltinService"
  have "str_prop ''members'' (object_of_row (shown_row x)) = str_prop ''members'' x" by (rule row_handed_on [OF x]) simp
  then have m: "str_prop ''members'' (edit_form k (object_of_row (shown_row x))) = Some (JArray [JString name_a, JString name_b])"
    unfolding members_form [OF k] using assms k by (simp add: editable_def array_of_def)
  show "first_member (window_form k x) = Some (JString name_b)" "array_of (str_prop ''members'' (window_form k x)) = [JString name_b, JString name_a]"
    using moved_first [OF m] k by (simp_all only: window_form_def Let_def if_False)
qed

lemma window_passes:
  assumes "no_failure m" "map_of (mk_records m) (kind_name k) = Some (x # bs)" "editable k x" and be: "be = api dp fixture t0 t1"
    and f_def: "f = (if k = RouteInput then type_quality typed_quality (window_form k x) else window_form k x)"
    and t: "k = RouteInput \<Longrightarrow> (\<And>s. cp_data s = window_form k x \<Longrightarrow> typing_section (s, m) = Some (config_change (type_quality typed_quality) s, m))"
    and p_def: "p = save_payload k f (\<not> js_truthy (row_disabled (shown_row x)))"
  obtains s' m' where "window_section be k m = Some (s', m')" "config_idle k s'" "main_data (cp s') = map shown_row (object_assign x p # bs)"
    "map_of (mk_records m') = (map_of (mk_records m))(kind_name k \<mapsto> object_assign x p # bs)" "last_edit k m' = p" "no_failure m'"
proof -
  have nf: "\<not> mk_failList m" using assms(1) by (simp add: no_failure_def)
  define s where "s = config_opened be k m"
  note o = config_opened_facts [OF be nf assms(2), folded s_def]
  note w = window_form_facts [OF assms(3)]
  define s1 where "s1 = (let s0 = config_edit k (shown_row x) s in if k = BuiltinService then s0 else config_change (moveMember 0 1) s0)"
  define s2 where "s2 = (if k = RouteInput then config_change (type_quality typed_quality) s1 else s1)"
  have s1: "config_idle k s1" "cp_data s1 = window_form k x" "cp_enabled s1 = (\<not> js_truthy (row_disabled (shown_row x)))" "editModal (cp s1)"
    using o(1) by (simp_all only: s1_def Let_def) (simp_all add: config_change_def config_edit_def open_window_def config_idle_def window_form_def Let_def)
  have s2: "config_idle k s2" "cp_data s2 = f" "cp_enabled s2 = (\<not> js_truthy (row_disabled (shown_row x)))" "editModal (cp s2)"
    using s1 by (simp_all add: s2_def f_def config_change_def config_idle_def)
  obtain u n where u: "u \<noteq> []" "str_prop ''uuid'' x = Some (JString u)" and n: "trim n \<noteq> []" "str_prop ''name'' x = Some (JString n)"
    using assms(3) by (auto simp: editable_def)
  have ids: "str_prop ''uuid'' (cp_data s2) = Some (JString u)" "trim (text_prop ''name'' (cp_data s2)) \<noteq> []"
    unfolding s2(2) f_def using w(1,2) u(2) n by (auto simp: typed_other text_prop_def prop_string_def)
  have p2: "p = save_payload k (cp_data s2) (cp_enabled s2)" by (simp only: p_def s2)
  obtain s' m' where v: "save_section be k (s2, m) = Some (s', m')" "config_idle k s'" "main_data (cp s') = map shown_row (object_assign x p # bs)"
    "map_of (mk_records m') = (map_of (mk_records m))(kind_name k \<mapsto> object_assign x p # bs)" "last_edit k m' = p" "\<not> mk_failList m'" "\<not> mk_failSave m'"
    by (rule save_passes [OF s2(1,4) ids(2) nf assms(2) ids(1) u be p2])
  have fm: "first_member p = Some (JString name_b)" "first_member (window_form k x) = Some (JString name_b)" if "k \<noteq> BuiltinService"
    using w(3) [OF that] members_payload [OF that, of f] typed_first [of typed_quality] by (auto simp: p_def f_def first_member_def)
  have "window_section be k m = Some (s', m')"
  proof -
    have m0: "main_data (cp s) = shown_row x # map shown_row bs" using o(2) by simp
    have ty: "(if k = RouteInput then typing_section (s1, m) else Some (s1, m)) = Some (s2, m)" using t s1(2) by (simp add: s2_def)
    have e0: "editModal (cp (config_edit k (shown_row x) s))" by (simp add: config_edit_def open_window_def)
    have c: "check (editModal (cp (config_edit k (shown_row x) s)) \<and> (k = BuiltinService \<or> first_member (cp_data s1) = Some (JString name_b))) (s1, m) = Some (s1, m)"
      using e0 s1(2) fm(2) by auto
    show ?thesis unfolding window_section_def s_def [symmetric] Let_def m0 list.case s1_def [unfolded Let_def, symmetric] c ty v(1) bind.bind_lunit
      using v(5) fm(1) by auto
  qed
  then show ?thesis by (rule that [OF _ v(2-5)]) (use v(6,7) in \<open>simp add: no_failure_def\<close>)
qed

section \<open>Library: the fixtures\<close>

lemma route_fixture_facts:
  "str_prop ''uuid'' (routeFixture i) = Some (JString i)" "str_prop ''name'' (routeFixture i) = Some (JString (''auto_'' @ i))"
  "str_prop ''members'' (routeFixture i) = Some (JArray (map JString [name_a, name_b]))" "str_prop ''disabled'' (routeFixture i) = Some (JBoolean False)"
  "str_prop ''status'' (routeFixture i) = Some (JString ''running'')" "str_prop ''input'' (routeFixture i) = None" "str_prop ''output'' (routeFixture i) = None"
  "str_prop ''listen_port'' (routeFixture i) = None" "str_prop ''probe_warnings'' (routeFixture i) = None" "str_prop ''type'' (routeFixture i) = None" "str_prop ''listen'' (routeFixture i) = Some (JString ''socks5x@[2001:db8::1]:1088'')"
  by (simp_all add: routeFixture_def str_prop_def)

lemma input_keys:
  "str_prop k input_fixture = (if k = ''probe_mode'' then Some (JString ''full_path'')
     else if k = ''listen'' then Some (JString ''[2001:db8::1]:1088'') else if k = ''policy'' then Some (JString ''quality'')
     else if k = ''quality'' then Some (JObject quality_fixture)
     else if k = ''member_quality'' then str_prop k input_fixture else str_prop k (routeFixture ''input''))"
  by (simp add: input_fixture_def str_prop_assign del: utf8_def)

lemma priority_keys:
  "str_prop k priority_fixture = (if k \<in> {''uuid''} then Some (JString ''priority'') else if k = ''name'' then Some (JString ''auto_priority'')
     else if k = ''policy'' then Some (JString ''priority'')
     else if k = ''quality'' then Some (JObject (object_assign quality_fixture [(''download_url'', JString ''https://priority.example.com/probe.bin''), (''interval_sec'', JNumber 45)]))
     else if k = ''member_quality'' then str_prop k priority_fixture else str_prop k input_fixture)"
  by (simp add: priority_fixture_def str_prop_assign)

lemma legacy_keys:
  "str_prop k legacy_fixture = (if k = ''listen'' then Some (JString ''127.0.0.1:1089'') else if k = ''policy'' then Some (JString ''priority'')
     else if k = ''probe_mode'' then Some (JString ''legacy_frame'') else if k = ''probe_warnings'' then Some (JArray [JString legacy_warning])
     else str_prop k (routeFixture ''legacy''))"
  by (simp add: legacy_fixture_def str_prop_assign legacy_warning_def)

lemma fixture_rows:
  "config_row input_fixture" "config_row priority_fixture" "config_row legacy_fixture" "config_row (service_fixture (i, ty))"
proof -
  have m [simp]: "\<exists>ms. [JString a, JString b] = map JString ms" for a b by (rule exI [of _ "[a, b]"]) simp
  have e [simp]: "Ex Not" by (rule exI [of _ False]) simp
  show a: "config_row input_fixture"
    unfolding config_row_def list.pred_inject by (simp add: input_keys [of "''uuid''"] input_keys [of "''name''"] input_keys [of "''status''"] input_keys [of "''input''"]
      input_keys [of "''output''"] input_keys [of "''listen''"] input_keys [of "''listen_port''"] input_keys [of "''type''"] input_keys [of "''disabled''"]
      input_keys [of "''members''"] route_fixture_facts scalar_def)
  have "str_prop k priority_fixture = str_prop k input_fixture" if "k \<notin> {''uuid'', ''name'', ''policy'', ''quality'', ''member_quality''}" for k
    using that by (subst priority_keys) simp
  note p = this
  show "config_row priority_fixture" using a unfolding config_row_def list.pred_inject
    by (simp add: p) (simp add: priority_keys [of "''uuid''"] priority_keys [of "''name''"] scalar_def)
  show "config_row legacy_fixture" unfolding config_row_def list.pred_inject
    by (simp add: legacy_keys [of "''uuid''"] legacy_keys [of "''name''"] legacy_keys [of "''status''"] legacy_keys [of "''input''"]
      legacy_keys [of "''output''"] legacy_keys [of "''listen''"] legacy_keys [of "''listen_port''"] legacy_keys [of "''type''"] legacy_keys [of "''disabled''"]
      legacy_keys [of "''members''"] route_fixture_facts scalar_def)
  show "config_row (service_fixture (i, ty))" by (simp add: config_row_def service_fixture_def str_prop_def scalar_def)
qed

section \<open>Library: the texts of the priority card\<close>

lemma digit_chars: "char_of (48 :: nat) = CHR ''0''" "char_of (50 :: nat) = CHR ''2''" "char_of (53 :: nat) = CHR ''5''" "char_of (56 :: nat) = CHR ''8''"
  by (simp_all add: char_of_def bit_0)

lemma show_small: "show_int 0 = ''0''" "show_int 2 = ''2''" "show_int 800 = ''800''" "show_int 5000 = ''5000''"
  by (simp_all add: show_int_def show_nat.simps digit_chars)

lemma priority_texts:
  assumes "str_prop ''member_quality'' row = str_prop ''member_quality'' priority_fixture" "str_prop ''policy'' row = Some (JString ''priority'')"
  shows "qualityText row name_a = utf8 [230, 173, 163, 229, 184, 184] @ '' '' @ utf8 [194, 183] @ '' '' @ utf8 [232, 191, 158, 231, 187, 173, 229, 164, 177, 232, 180, 165] @ '' 0 '' @
      utf8 [194, 183] @ '' '' @ utf8 [232, 191, 158, 231, 187, 173, 230, 173, 163, 229, 184, 184] @ '' 2 '' @ utf8 [194, 183] @ '' 800 ms''"
    and "qualityText row name_b = utf8 [229, 164, 177, 232, 180, 165] @ '' '' @ utf8 [194, 183] @ '' '' @ utf8 [232, 191, 158, 231, 187, 173, 229, 164, 177, 232, 180, 165] @ '' 2 '' @
      utf8 [194, 183] @ '' '' @ utf8 [232, 191, 158, 231, 187, 173, 230, 173, 163, 229, 184, 184] @ '' 0 '' @ utf8 [194, 183] @ '' 5000 ms''"
    and "memberStatus row name_a = Inr (utf8 [230, 173, 163, 229, 184, 184])" "memberStatus row name_b = Inr (utf8 [229, 164, 177, 232, 180, 165])"
proof -
  define q where "q = (\<lambda>st n bad cf cn ms. [(''status'', JString st), (''samples'', JNumber n), (''bad_samples'', JNumber bad), (''consecutive_failures'', JNumber cf),
      (''consecutive_normal'', JNumber cn), (''last_duration_ms'', JNumber ms)])"
  have d: "name_a \<noteq> name_b" by (simp add: name_a_def name_b_def)
  have "str_prop ''member_quality'' row = Some (JObject [(name_a, JObject (q ''normal'' 2 0 0 2 800)), (name_b, JObject (q ''failed'' 2 2 2 0 5000))])"
    unfolding assms(1) priority_fixture_def by (simp add: str_prop_assign q_def)
  then have a: "str_prop name_a (object_of (str_prop ''member_quality'' row)) = Some (JObject (q ''normal'' 2 0 0 2 800))"
    and b: "str_prop name_b (object_of (str_prop ''member_quality'' row)) = Some (JObject (q ''failed'' 2 2 2 0 5000))"
    using d by (simp_all add: object_of_def str_prop_def)
  have p: "str_prop ''policy'' row \<noteq> Some (JString ''quality'')" using assms(2) by simp
  have s: "str_prop ''status'' (q st n bad cf cn ms) = Some (JString st)" "str_prop ''consecutive_failures'' (q st n bad cf cn ms) = Some (JNumber cf)"
    "str_prop ''consecutive_normal'' (q st n bad cf cn ms) = Some (JNumber cn)" "str_prop ''last_duration_ms'' (q st n bad cf cn ms) = Some (JNumber ms)"
    "str_prop ''connectivity'' (q st n bad cf cn ms) = None" "str_prop ''last_error'' (q st n bad cf cn ms) = None" for st n bad cf cn ms
    by (simp_all add: q_def str_prop_def)
  note ev = a b s p prop_string_def js_or_def show_small quality_label_def
  show "qualityText row name_a = utf8 [230, 173, 163, 229, 184, 184] @ '' '' @ utf8 [194, 183] @ '' '' @ utf8 [232, 191, 158, 231, 187, 173, 229, 164, 177, 232, 180, 165] @ '' 0 '' @
      utf8 [194, 183] @ '' '' @ utf8 [232, 191, 158, 231, 187, 173, 230, 173, 163, 229, 184, 184] @ '' 2 '' @ utf8 [194, 183] @ '' 800 ms''"
    "qualityText row name_b = utf8 [229, 164, 177, 232, 180, 165] @ '' '' @ utf8 [194, 183] @ '' '' @ utf8 [232, 191, 158, 231, 187, 173, 229, 164, 177, 232, 180, 165] @ '' 2 '' @
      utf8 [194, 183] @ '' '' @ utf8 [232, 191, 158, 231, 187, 173, 230, 173, 163, 229, 184, 184] @ '' 0 '' @ utf8 [194, 183] @ '' 5000 ms''"
    unfolding qualityText_def Let_def by (simp_all add: ev)
  show "memberStatus row name_a = Inr (utf8 [230, 173, 163, 229, 184, 184])" "memberStatus row name_b = Inr (utf8 [229, 164, 177, 232, 180, 165])"
    unfolding memberStatus_def by (simp_all add: ev)
qed

lemma probe_text_priority:
  assumes "str_prop ''member_quality'' row = str_prop ''member_quality'' priority_fixture" "str_prop ''policy'' row = Some (JString ''priority'')"
    and "str_prop ''members'' row = Some (JArray (map JString [name_a, name_b]))" "str_prop ''probe_warnings'' row = None" "str_prop ''probe_mode'' row = Some (JString ''full_path'')"
  shows "contains (utf8 [232, 191, 158, 231, 187, 173, 230, 173, 163, 229, 184, 184] @ '' 2'') (probe_text row)"
    and "\<not> contains (utf8 [232, 175, 132, 228, 188, 176, 228, 184, 173]) (probe_text row)"
proof -
  note t = priority_texts [OF assms(1,2)]
  have n: "strings_of (array_of (str_prop ''members'' row)) = [name_a, name_b]" "array_of (str_prop ''probe_warnings'' row) = []"
    unfolding assms(3,4) array_of_def option.case json.case strings_of_map by simp_all
  have e: "probe_text row = utf8 [230, 173, 163, 229, 184, 184] @ utf8 [229, 164, 177, 232, 180, 165] @ qualityText row name_a @ qualityText row name_b @ policyLabel row"
    unfolding probe_text_def Let_def n by (simp add: t(3,4) strings_of_def List.map_filter_simps)
  have l: "policyLabel row = utf8 [228, 188, 152, 229, 133, 136, 231, 186, 167, 230, 149, 133, 233, 154, 156, 232, 189, 172, 231, 167, 187, 239, 188, 136, 229, 174, 140, 230, 149, 180, 233, 147, 190, 232, 183, 175, 239, 188, 137]"
    using assms(2,5) by (simp add: policyLabel_def)
  show "contains (utf8 [232, 191, 158, 231, 187, 173, 230, 173, 163, 229, 184, 184] @ '' 2'') (probe_text row)"
    unfolding contains_iff e t(1)
    by (rule exI [of _ "utf8 [230, 173, 163, 229, 184, 184] @ utf8 [229, 164, 177, 232, 180, 165] @ utf8 [230, 173, 163, 229, 184, 184] @ '' '' @ utf8 [194, 183] @ '' '' @
      utf8 [232, 191, 158, 231, 187, 173, 229, 164, 177, 232, 180, 165] @ '' 0 '' @ utf8 [194, 183] @ '' ''"],
      rule exI [of _ "'' '' @ utf8 [194, 183] @ '' 800 ms'' @ qualityText row name_b @ policyLabel row"]) simp
  have "char_of (132 :: nat) \<notin> set (probe_text row)"
    unfolding e t(1,2) l utf8_def set_append by (simp add: char_of_eq_iff)
  then show "\<not> contains (utf8 [232, 175, 132, 228, 188, 176, 228, 184, 173]) (probe_text row)"
    using contains_elem [of "utf8 [232, 175, 132, 228, 188, 176, 228, 184, 173]" "probe_text row" "char_of (132 :: nat)"] by (auto simp: utf8_def)
qed

section \<open>Library: the route inputs pass\<close>

lemma traffic_text:
  assumes "quality_of ''download_bytes'' f = Some (JNumber b)" "quality_of ''interval_sec'' f = Some (JNumber i)" "0 < b" "0 < i"
    and "length (array_of (str_prop ''members'' f)) = 2"
  shows "contains (''2 '' @ utf8 [230, 157, 161, 229, 133, 177] @ '' '' @ fixed2 (month_gigabytes b i * 2) @ '' GB'') (qualityTraffic f)"
proof -
  have s: "show_nat 2 = ''2''" by (simp add: show_nat.simps digit_chars)
  show ?thesis unfolding contains_iff
    by (rule exI [of _ "utf8 [233, 162, 132, 232, 174, 161, 230, 175, 143, 230, 156, 136, 230, 173, 163, 230, 150, 135, 230, 181, 129, 233, 135, 143, 239, 188, 154, 230, 175, 143, 230, 157, 161] @ '' '' @
        fixed2 (month_gigabytes b i) @ '' GB'' @ utf8 [239, 188, 140]"],
      rule exI [of _ "utf8 [239, 188, 136] @ ''30 '' @ utf8 [229, 164, 169, 239, 188, 155, 228, 184, 141, 229, 144, 171] @ '' TLS'' @
        utf8 [227, 128, 129, 229, 141, 143, 232, 174, 174, 229, 143, 138, 233, 135, 141, 228, 188, 160, 229, 188, 128, 233, 148, 128, 239, 188, 137, 227, 128, 130]"])
      (use assms in \<open>simp add: qualityTraffic_def quality_of_def Let_def s\<close>)
qed

lemma traffic_numbers: "fixed2 (month_gigabytes 16384 30 * 2) = ''2.83''" "fixed2 (month_gigabytes 16384 60 * 2) = ''1.42''"
  by code_simp+

text \<open>The settings of the form and of what is saved.\<close>

lemma distinct_assign: "distinct (map fst t) \<Longrightarrow> distinct (map fst (object_assign t kvs))"
  by (induction kvs arbitrary: t) (auto simp: object_assign_def distinct_update)

lemma form_quality:
  assumes "distinct (map fst q)"
  shows "str_prop ''quality'' row = Some (JObject q) \<Longrightarrow>
    quality_of k (edit_form RouteInput row) = (case str_prop k q of None \<Rightarrow> str_prop k default_quality | Some v \<Rightarrow> Some v)"
  unfolding quality_of_def input_form_fields defaultQuality_def object_of_def
  using map_of_rev_distinct [OF assms] by (simp add: str_prop_assign) (simp add: str_prop_def)

lemma saved_row:
  assumes "p = save_payload k f en"
  shows "str_prop q (object_assign x p) = (case str_prop q p of None \<Rightarrow> str_prop q x | Some v \<Rightarrow> Some v)"
  using map_of_rev_distinct [OF payload_ids(3), of k f en] by (simp only: str_prop_assign assms) (simp add: str_prop_def)

lemma input_payload_keys: "q \<notin> {''uuid'', ''name'', ''listen'', ''members'', ''disabled'', ''policy'', ''quality''} \<Longrightarrow> str_prop q (save_payload RouteInput f en) = None"
  "str_prop ''listen'' (save_payload RouteInput f en) = str_prop ''listen'' f" "str_prop ''disabled'' (save_payload RouteInput f en) = Some (JBoolean (\<not> en))"
  by (auto simp: route_input_payload_def str_prop_literal simp del: literal_Cons)

lemma saved_config_row:
  assumes "config_row x" "p = save_payload RouteInput f en" "scalar (str_prop ''uuid'' f)" "scalar (str_prop ''name'' f)" "scalar (str_prop ''listen'' f)"
    and "str_prop ''members'' f = Some (JArray (map JString ms))"
  shows "config_row (object_assign x p)"
proof -
  have sc: "scalar (case v of None \<Rightarrow> w | Some j \<Rightarrow> Some j)" if "scalar v" "scalar w" for v w :: "json option" using that by (auto simp: scalar_def split: option.splits)
  note s = saved_row [OF assms(2), of _ x] payload_ids(1,2) [of RouteInput f en, folded assms(2)] input_payload_keys(1) [of _ f en, folded assms(2)] input_payload_keys(2,3) [of f en, folded assms(2)]
    members_payload [of RouteInput f en, folded assms(2)]
  show ?thesis using assms(1,3-6) unfolding config_row_def list.pred_inject by (simp add: s sc) blast
qed

lemma input_editable: "editable RouteInput input_fixture"
proof -
  have n: "trim ''auto_input'' \<noteq> []" by (simp add: trim_empty_iff is_space_def)
  show ?thesis unfolding editable_def
    using n fixture_rows(1) by (simp add: input_keys [of "''uuid''"] input_keys [of "''name''"] input_keys [of "''members''"] route_fixture_facts)
qed

text \<open>The form of the first route input, before and after typing.\<close>

lemma input_window_form:
  defines "f \<equiv> window_form RouteInput input_fixture"
  shows "quality_of k f = (case str_prop k quality_fixture of None \<Rightarrow> str_prop k default_quality | Some v \<Rightarrow> Some v)"
    and "str_prop ''policy'' f = Some (JString ''quality'')" "str_prop ''uuid'' f = Some (JString ''input'')" "str_prop ''name'' f = Some (JString ''auto_input'')"
    and "str_prop ''listen'' f = Some (JString ''[2001:db8::1]:1088'')" "str_prop ''members'' f = Some (JArray (map JString [name_b, name_a]))"
    and "\<exists>q. str_prop ''quality'' f = Some (JObject q) \<and> distinct (map fst q)"
proof -
  define row where "row = object_of_row (shown_row input_fixture)"
  note h = row_handed_on [OF fixture_rows(1), folded row_def]
  have f: "f = moveMember 0 1 (edit_form RouteInput row)" by (simp add: f_def window_form_def row_def Let_def)
  have q: "str_prop ''quality'' row = Some (JObject quality_fixture)" using h [of "''quality''"] by (simp add: input_keys [of "''quality''"])
  have d: "distinct (map fst quality_fixture)" "distinct (map fst default_quality)" by (simp_all add: quality_fixture_def default_quality_def)
  show "quality_of k f = (case str_prop k quality_fixture of None \<Rightarrow> str_prop k default_quality | Some v \<Rightarrow> Some v)"
    using form_quality [OF d(1) q, of k] by (simp add: quality_of_def f moved_other)
  show "\<exists>q. str_prop ''quality'' f = Some (JObject q) \<and> distinct (map fst q)"
    using distinct_assign [OF d(2), of quality_fixture] by (simp add: f moved_other input_form_fields q defaultQuality_def object_of_def del: edit_form.simps)
  show "str_prop ''policy'' f = Some (JString ''quality'')"
    using h [of "''policy''"] by (simp add: f moved_other input_form_fields js_or_def input_keys [of "''policy''"] del: edit_form.simps)
  show "str_prop ''uuid'' f = Some (JString ''input'')" "str_prop ''name'' f = Some (JString ''auto_input'')"
    using window_form_facts(1,2) [OF input_editable] by (simp_all add: f_def input_keys [of "''uuid''"] input_keys [of "''name''"] route_fixture_facts)
  have "str_prop ''listen'' (edit_form RouteInput row) = str_prop ''listen'' row" by (simp add: route_input_form_def str_prop_literal del: literal_Cons)
  then show "str_prop ''listen'' f = Some (JString ''[2001:db8::1]:1088'')"
    using h [of "''listen''"] by (simp add: f moved_other input_keys [of "''listen''"] del: edit_form.simps)
  have "array_of (str_prop ''members'' f) = [JString name_b, JString name_a]" unfolding f_def by (rule window_form_facts(4) [OF input_editable]) simp
  moreover have "\<exists>js. str_prop ''members'' f = Some (JArray js)" by (simp add: f moveMember_def str_prop_def update_conv')
  ultimately show "str_prop ''members'' f = Some (JArray (map JString [name_b, name_a]))" by (auto simp: array_of_def)
qed

lemma typing_input:
  assumes "cp_data s = window_form RouteInput input_fixture"
  shows "typing_section (s, m) = Some (config_change (type_quality typed_quality) s, m)"
proof -
  let ?f = "window_form RouteInput input_fixture" and ?g = "type_quality typed_quality (window_form RouteInput input_fixture)"
  note w = input_window_form
  have q: "quality_of ''download_bytes'' ?f = Some (JNumber 16384)" "quality_of ''interval_sec'' ?f = Some (JNumber 30)"
    by (simp_all add: w(1) quality_fixture_def str_prop_def)
  have g: "quality_of ''download_bytes'' ?g = Some (JNumber 16384)" "quality_of ''interval_sec'' ?g = Some (JNumber 60)"
    using q by (simp_all add: typed_quality_of typed_quality_def)
  have l: "length (array_of (str_prop ''members'' ?f)) = 2" "length (array_of (str_prop ''members'' ?g)) = 2"
    by (simp_all add: typed_other w(6) array_of_def)
  show ?thesis using traffic_text [OF q _ _ l(1)] traffic_text [OF g _ _ l(2)]
    by (simp add: typing_section_def assms config_change_def traffic_numbers)
qed

lemma saved_passes:
  assumes p_def: "p = save_payload RouteInput (type_quality typed_quality (window_form RouteInput input_fixture)) en"
    and "main_data (cp s) = shown_row (object_assign input_fixture p) # rs" "last_edit RouteInput m = p"
  shows "config_row (object_assign input_fixture p)" "str_prop ''name'' (object_assign input_fixture p) = Some (JString ''auto_input'')"
    "str_prop ''uuid'' (object_assign input_fixture p) = Some (JString ''input'')"
    "saved_section (s, m) = Some (cancel_window (config_edit RouteInput (shown_row (object_assign input_fixture p)) s), m)"
proof -
  let ?f = "window_form RouteInput input_fixture" and ?y = "object_assign input_fixture p"
  note w = input_window_form
  have sc: "scalar (str_prop ''uuid'' (type_quality typed_quality ?f))" "scalar (str_prop ''name'' (type_quality typed_quality ?f))"
    "scalar (str_prop ''listen'' (type_quality typed_quality ?f))" "str_prop ''members'' (type_quality typed_quality ?f) = Some (JArray (map JString [name_b, name_a]))"
    unfolding typed_other [of "''uuid''", simplified] typed_other [of "''name''", simplified] typed_other [of "''listen''", simplified]
      typed_other [of "''members''", simplified] w by (simp_all add: scalar_def)
  show y: "config_row ?y" by (rule saved_config_row [OF fixture_rows(1) p_def sc])
  have id: "str_prop ''uuid'' p = Some (JString ''input'')" "str_prop ''name'' p = Some (JString ''auto_input'')"
    unfolding p_def payload_ids by (simp_all add: typed_other w)
  show "str_prop ''name'' ?y = Some (JString ''auto_input'')" "str_prop ''uuid'' ?y = Some (JString ''input'')"
    unfolding saved_row [OF p_def] id by simp_all
  obtain q where q: "str_prop ''quality'' p = Some (JObject q)" "distinct (map fst q)"
  proof -
    obtain q0 where q0: "str_prop ''quality'' ?f = Some (JObject q0)" "distinct (map fst q0)" using w(7) by blast
    have "str_prop ''quality'' (type_quality typed_quality ?f) = Some (JObject (object_assign q0 typed_quality))"
      unfolding type_quality_def q0(1) by (simp add: str_prop_def update_conv' object_of_def)
    then have "str_prop ''quality'' p = Some (JObject (object_assign q0 typed_quality))" unfolding p_def input_form_fields .
    then show ?thesis by (rule that) (rule distinct_assign [OF q0(2)])
  qed
  have pq: "quality_of k p = (case map_of (rev typed_quality) k of None \<Rightarrow> quality_of k ?f | Some v \<Rightarrow> Some v)" for k
    using typed_quality_of [of k typed_quality ?f] by (simp add: quality_of_def p_def input_form_fields del: save_payload.simps)
  have v: "str_prop ''policy'' p = Some (JString ''quality'')" "quality_of ''download_url'' p = Some (JString ''https://download.example.com/probe.bin'')"
    "quality_of ''connectivity_url'' p = Some (JString ''https://check.example.com/ok'')" "quality_of ''interval_sec'' p = Some (JNumber 60)"
    by (simp_all add: pq typed_quality_def) (simp add: p_def input_form_fields typed_other w del: save_payload.simps)
  define row where "row = object_of_row (shown_row ?y)"
  have "str_prop ''quality'' row = Some (JObject q)" using row_handed_on [OF y, of "''quality''", folded row_def] saved_row [OF p_def, of "''quality''" input_fixture] q(1) by simp
  then have "quality_of ''download_url'' (edit_form RouteInput row) = quality_of ''download_url'' p"
    using form_quality [OF q(2), of row "''download_url''"] v(2) q(1) by (simp add: quality_of_def object_of_def split: option.splits)
  then show "saved_section (s, m) = Some (cancel_window (config_edit RouteInput (shown_row ?y) s), m)"
    using v by (simp add: saved_section_def assms(2,3) Let_def config_edit_def open_window_def row_def del: edit_form.simps normalize_row.simps)
qed

lemma shown_name_of: "str_prop ''name'' x = Some (JString n) \<Longrightarrow> js_string (row_name (shown_row x)) = n"
  by (simp add: row_of_object_def Let_def)

lemma third_card_names: "\<not> contains ''auto_priority'' ''auto_input''" "contains ''auto_priority'' ''auto_priority''" "\<not> contains ''auto_priority'' ''auto_legacy''"
  "\<not> contains ''auto_legacy'' ''auto_input''" "\<not> contains ''auto_legacy'' ''auto_priority''" "contains ''auto_legacy'' ''auto_legacy''"
  by code_simp+

lemma route_names:
  assumes "str_prop ''name'' y = Some (JString ''auto_input'')" "str_prop ''name'' z = Some (JString ''auto_priority'')"
    and "main_data (cp s) = map shown_row [y, z, legacy_fixture]"
  shows "card_with ''auto_priority'' s = Some (shown_row z)" "card_with ''auto_legacy'' s = Some (shown_row legacy_fixture)"
proof -
  have l: "js_string (row_name (shown_row legacy_fixture)) = ''auto_legacy''"
    by (rule shown_name_of) (simp add: legacy_keys [of "''name''"] route_fixture_facts)
  show "card_with ''auto_priority'' s = Some (shown_row z)" "card_with ''auto_legacy'' s = Some (shown_row legacy_fixture)"
    using shown_name_of [OF assms(1)] shown_name_of [OF assms(2)] l
    by (simp_all only: card_with_def assms(3) list.map filter.simps third_card_names if_True if_False list.case)
qed

text \<open>The window of the priority route, after both policies have been tried.\<close>

lemma priority_form:
  defines "row \<equiv> object_of_row (shown_row priority_fixture)"
  defines "f \<equiv> edit_form RouteInput row"
  shows "quality_of ''download_url'' f = Some (JString priority_url)" "quality_of ''interval_sec'' f = Some (JNumber 45)"
    and "str_prop ''policy'' f = Some (JString ''priority'')" "str_prop ''uuid'' f = Some (JString ''priority'')" "str_prop ''name'' f = Some (JString ''auto_priority'')"
    and "str_prop ''listen'' f = Some (JString ''[2001:db8::1]:1088'')" "str_prop ''members'' f = Some (JArray (map JString [name_a, name_b]))"
    and "policyLabel row = utf8 [228, 188, 152, 229, 133, 136, 231, 186, 167, 230, 149, 133, 233, 154, 156, 232, 189, 172, 231, 167, 187, 239, 188, 136, 229, 174, 140, 230, 149, 180, 233, 147, 190, 232, 183, 175, 239, 188, 137]"
    and "contains (utf8 [232, 191, 158, 231, 187, 173, 230, 173, 163, 229, 184, 184] @ '' 2'') (probe_text row)"
    and "\<not> contains (utf8 [232, 175, 132, 228, 188, 176, 228, 184, 173]) (probe_text row)"
proof -
  note h = row_handed_on [OF fixture_rows(2), folded row_def]
  let ?q = "object_assign quality_fixture [(''download_url'', JString ''https://priority.example.com/probe.bin''), (''interval_sec'', JNumber 45)]"
  have q: "str_prop ''quality'' row = Some (JObject ?q)" using h [of "''quality''"] by (simp add: priority_keys [of "''quality''"])
  have d: "distinct (map fst ?q)" by (rule distinct_assign) (simp add: quality_fixture_def)
  show "quality_of ''download_url'' f = Some (JString priority_url)" "quality_of ''interval_sec'' f = Some (JNumber 45)"
    unfolding f_def form_quality [OF d q] by (simp_all add: str_prop_assign priority_url_def)
  have r: "str_prop ''policy'' row = Some (JString ''priority'')" "str_prop ''uuid'' row = Some (JString ''priority'')" "str_prop ''name'' row = Some (JString ''auto_priority'')"
    "str_prop ''listen'' row = Some (JString ''[2001:db8::1]:1088'')" "str_prop ''members'' row = Some (JArray (map JString [name_a, name_b]))"
    "str_prop ''probe_mode'' row = Some (JString ''full_path'')" "str_prop ''probe_warnings'' row = None" "str_prop ''member_quality'' row = str_prop ''member_quality'' priority_fixture"
    using h [of "''policy''"] h [of "''uuid''"] h [of "''name''"] h [of "''listen''"] h [of "''members''"] h [of "''probe_mode''"] h [of "''probe_warnings''"] h [of "''member_quality''"]
    by (simp_all add: priority_keys [of "''policy''"] priority_keys [of "''uuid''"] priority_keys [of "''name''"] priority_keys [of "''listen''"] priority_keys [of "''members''"]
      priority_keys [of "''probe_mode''"] priority_keys [of "''probe_warnings''"] input_keys [of "''listen''"] input_keys [of "''members''"] input_keys [of "''probe_mode''"]
      input_keys [of "''probe_warnings''"] route_fixture_facts)
  show "str_prop ''policy'' f = Some (JString ''priority'')" unfolding f_def input_form_fields r by (simp add: js_or_def)
  show "str_prop ''uuid'' f = Some (JString ''priority'')" "str_prop ''name'' f = Some (JString ''auto_priority'')" unfolding f_def form_ids r by simp_all
  have l: "str_prop ''listen'' f = str_prop ''listen'' row" by (simp add: f_def route_input_form_def str_prop_literal del: literal_Cons)
  have k: "RouteInput \<noteq> BuiltinService" by simp
  show "str_prop ''listen'' f = Some (JString ''[2001:db8::1]:1088'')" unfolding l by (rule r(4))
  show "str_prop ''members'' f = Some (JArray (map JString [name_a, name_b]))" unfolding f_def members_form [OF k] r by (simp add: array_of_def)
  show "policyLabel row = utf8 [228, 188, 152, 229, 133, 136, 231, 186, 167, 230, 149, 133, 233, 154, 156, 232, 189, 172, 231, 167, 187, 239, 188, 136, 229, 174, 140, 230, 149, 180, 233, 147, 190, 232, 183, 175, 239, 188, 137]"
    using r by (simp add: policyLabel_def)
  show "contains (utf8 [232, 191, 158, 231, 187, 173, 230, 173, 163, 229, 184, 184] @ '' 2'') (probe_text row)"
    "\<not> contains (utf8 [232, 175, 132, 228, 188, 176, 228, 184, 173]) (probe_text row)"
    by (rule probe_text_priority [OF r(8,1,5,7,6)])+
qed

lemma policies_tried:
  "str_prop ''policy'' (choose_policy v (choose_policy w f)) = Some (JString v)"
  "k \<noteq> ''policy'' \<Longrightarrow> str_prop k (choose_policy v (choose_policy w f)) = str_prop k f"
  "quality_of k (choose_policy v (choose_policy w f)) = quality_of k f"
  by (simp_all add: choose_policy_def quality_of_def str_prop_def update_conv')

lemma priority_passes:
  assumes "config_idle RouteInput s" "main_data (cp s) = map shown_row [y, priority_fixture, legacy_fixture]"
    and "map_of (mk_records m) ''route_input'' = Some [y, priority_fixture, legacy_fixture]" "no_failure m" and be: "be = api dp fixture t0 t1"
    and y: "config_row y" "str_prop ''name'' y = Some (JString ''auto_input'')" "str_prop ''uuid'' y = Some (JString ''input'')"
  obtains s' m' z where "priority_section be (s, m) = Some (s', m')" "config_idle RouteInput s'" "main_data (cp s') = map shown_row [y, z, legacy_fixture]"
    "map_of (mk_records m') = (map_of (mk_records m))(''route_input'' \<mapsto> [y, z, legacy_fixture])" "no_failure m'"
    "str_prop ''name'' z = Some (JString ''auto_priority'')"
proof -
  define row where "row = object_of_row (shown_row priority_fixture)"
  define f where "f = edit_form RouteInput row"
  note w = priority_form [folded row_def, folded f_def]
  define s1 where "s1 = config_edit RouteInput (shown_row priority_fixture) s"
  define s2 where "s2 = config_change (choose_policy ''priority'') (config_change (choose_policy ''quality'') s1)"
  have n: "str_prop ''name'' priority_fixture = Some (JString ''auto_priority'')" "str_prop ''uuid'' priority_fixture = Some (JString ''priority'')"
    by (simp_all add: priority_keys [of "''name''"] priority_keys [of "''uuid''"])
  note c = route_names(1) [OF y(2) n(1) assms(2)]
  have s1: "cp_data s1 = f" by (simp only: s1_def config_edit_def open_window_def f_def row_def) simp
  define g where "g = choose_policy ''priority'' (choose_policy ''quality'' f)"
  note g = policies_tried(1,2) [where v = "''priority''" and w = "''quality''" and f = f, folded g_def]
    and gq = policies_tried(3) [where v = "''priority''" and w = "''quality''" and f = f, folded g_def]
  have s2: "config_idle RouteInput s2" "cp_data s2 = g"
    using assms(1) s1 by (simp_all add: s2_def s1_def config_change_def config_edit_def open_window_def config_idle_def g_def del: edit_form.simps normalize_row.simps)
  define p where "p = save_payload RouteInput g (cp_enabled s2)"
  have t: "trim ''auto_priority'' \<noteq> []" by (simp add: trim_empty_iff is_space_def)
  have h: "trim (text_prop ''name'' (cp_data s2)) \<noteq> []" "\<not> mk_failSave m" "\<not> mk_failList m"
    "map_of (mk_records m) (kind_name RouteInput) = Some ([y] @ priority_fixture # [legacy_fixture])" "str_prop ''uuid'' (cp_data s2) = Some (JString ''priority'')"
    "''priority'' \<noteq> []" "list_all (\<lambda>z. str_prop ''uuid'' z \<noteq> Some (JString ''priority'')) [y]" "p = save_payload RouteInput (cp_data s2) (cp_enabled s2)"
    using assms(3,4) t y(3) s2(2) g(2) [of "''name''"] g(2) [of "''uuid''"] w(4,5) by (simp_all add: no_failure_def p_def text_prop_def prop_string_def)
  let ?z = "object_assign priority_fixture p"
  obtain s3 m3 where a: "config_click be RouteInput (s2, m) = (s3, m3)" "config_idle RouteInput s3" "\<not> editModal (cp s3)"
    "main_data (cp s3) = map shown_row ([y] @ ?z # [legacy_fixture])" "map_of (mk_records m3) = (map_of (mk_records m))(kind_name RouteInput \<mapsto> [y] @ ?z # [legacy_fixture])"
    "mk_writes m3 = mk_writes m @ [(kind_name RouteInput, ''edit'', p, ''/api/'' @ kind_name RouteInput @ ''/edit'')]" "mk_failList m3 = mk_failList m" "mk_failSave m3 = mk_failSave m"
    unfolding be by (rule save_accepted [OF s2(1) h(1-6) n(2) h(7,8), of dp fixture t0 t1])
  have le: "last_edit RouteInput m3 = p" using a(6) by (simp add: last_edit_def writes_of_def List.map_filter_def)
  have pq: "quality_of k p = quality_of k f" for k using gq [of k] by (simp add: quality_of_def p_def input_form_fields del: save_payload.simps)
  have pp: "str_prop ''policy'' p = Some (JString ''priority'')" unfolding p_def input_form_fields by (rule g(1))
  have ps: "priority_section be (s, m) = Some (s3, m3)"
    unfolding priority_section_def prod.case c option.case Let_def row_def [symmetric] s1_def [symmetric] s2_def [symmetric] a(1) le
    using w(1-3,8-10) s1 s2(2) gq pq pp a(3) by (simp only: check_Some) simp
  have zn: "str_prop ''name'' ?z = Some (JString ''auto_priority'')"
    unfolding saved_row [OF p_def] using g(2) [of "''name''"] w(5) by (simp add: p_def payload_ids del: save_payload.simps)
  show ?thesis
    by (rule that [OF ps a(2) _ _ _ zn])
      (use a(4,5,7,8) assms(4) in \<open>simp_all add: no_failure_def del: normalize_row.simps\<close>)
qed

lemma legacy_passes:
  assumes "main_data (cp s) = map shown_row [y, z, legacy_fixture]" "str_prop ''name'' y = Some (JString ''auto_input'')"
    and "str_prop ''name'' z = Some (JString ''auto_priority'')"
  obtains s' where "legacy_section (s, m) = Some (s', m)"
proof -
  define row where "row = object_of_row (shown_row legacy_fixture)"
  note h = row_handed_on [OF fixture_rows(3), folded row_def]
  have r: "str_prop ''probe_mode'' row = Some (JString ''legacy_frame'')" "str_prop ''probe_warnings'' row = Some (JArray [JString legacy_warning])"
    using h [of "''probe_mode''"] h [of "''probe_warnings''"] by (simp_all add: legacy_keys [of "''probe_mode''"] legacy_keys [of "''probe_warnings''"])
  have d: "cp_data (config_edit RouteInput (shown_row legacy_fixture) s) = edit_form RouteInput row"
    by (simp only: config_edit_def open_window_def row_def) simp
  have "array_of (str_prop ''probe_warnings'' (edit_form RouteInput row)) = [JString legacy_warning]"
    unfolding input_form_fields r by (simp add: js_or_def array_of_def)
  then show ?thesis
    by (intro that) (use r in \<open>simp add: legacy_section_def route_names(2) [OF assms(2,3,1)] Let_def row_def [symmetric] d array_of_def policyLabel_def
      del: edit_form.simps normalize_row.simps\<close>)
qed

section \<open>Library: outputs and services pass\<close>

lemma output_editable: "editable RouteOutput (routeFixture ''output'')"
proof -
  have n: "trim ''auto_output'' \<noteq> []" by (simp add: trim_empty_iff is_space_def)
  show ?thesis unfolding editable_def using n routeFixture_row [of "''output''"] by (simp add: route_fixture_facts)
qed

lemma service_facts:
  "str_prop ''uuid'' (service_fixture (i, ty)) = Some (JString (''s'' @ show_nat i))" "str_prop ''name'' (service_fixture (i, ty)) = Some (JString ty)"
  "str_prop ''type'' (service_fixture (i, ty)) = Some (JString ty)"
  by (simp_all add: service_fixture_def str_prop_def)

lemma service_editable: "editable BuiltinService (service_fixture (0, ''echo''))"
proof -
  have n: "trim ''echo'' \<noteq> []" by (simp add: trim_empty_iff is_space_def)
  show ?thesis unfolding editable_def using n fixture_rows(4) by (simp add: service_facts)
qed

lemma refreshed:
  assumes "config_idle k s" and be: "be = api dp fixture t0 t1" and "map_of (mk_records m) (kind_name k) = Some rows"
  shows "mk_failList m \<Longrightarrow> refresh_page be (s, m) = (s\<lparr>cp := fst (roundtrip be (loadList KNone (cp s), m))\<rparr>, m) \<and>
      config_idle k (fst (refresh_page be (s, m))) \<and> listError (cp (fst (refresh_page be (s, m)))) = Some (Text list_failed)"
    and "\<not> mk_failList m \<Longrightarrow> refresh_page be (s, m) = (s\<lparr>cp := fst (roundtrip be (loadList KNone (cp s), m))\<rparr>, m) \<and>
      config_idle k (fst (refresh_page be (s, m))) \<and> listError (cp (fst (refresh_page be (s, m)))) = None \<and>
      main_data (cp (fst (refresh_page be (s, m)))) = map shown_row rows"
proof -
  define p where "p = loadList KNone (cp s)"
  have i: "inflight p = [Load (listRequestId p) KNone]" "last (posts p) = (list_url k, InfoBody)" "rowKind p = RouteRow" "queryPage p = []"
      "listEndpoint p = list_url k" "\<not> saving p" "listError p = None"
    using assms(1) by (simp_all add: p_def config_idle_def loadList_def page_url_def Let_def)
  have rp: "refresh_page be (s, m) = (case roundtrip be (p, m) of (q, m1) \<Rightarrow> (s\<lparr>cp := q\<rparr>, m1))" by (simp add: refresh_page_def p_def)
  note d = roundtrip_def load_settle_def load_then_def load_catch_def load_finally_def remove_nth_def Let_def config_idle_def
  { assume f: "mk_failList m"
    have "reply_of (list_action (kind_name k) [] m) = Reply (JNum 500) (JStr list_failed) None"
      using f by (simp add: list_action_def reply_of_def fail_reply_def str_prop_def)
    then have sv: "serve be (list_url k, InfoBody) m = (Reply (JNum 500) (JStr list_failed) None, m)" by (simp add: be list_served)
    show "refresh_page be (s, m) = (s\<lparr>cp := fst (roundtrip be (loadList KNone (cp s), m))\<rparr>, m) \<and>
      config_idle k (fst (refresh_page be (s, m))) \<and> listError (cp (fst (refresh_page be (s, m)))) = Some (Text list_failed)"
      unfolding p_def [symmetric] rp using i by (simp add: d sv utf8_def) }
  { assume f: "\<not> mk_failList m"
    have sv: "serve be (list_url k, InfoBody) m =
      (Reply (JNum 200) Undefined (Some \<lparr>p_list = Some (map row_of_object rows),
         p_pagination = Some \<lparr>total_nums = int (length rows), page_size = 20\<rparr>, p_version = JStr ''ui-test''\<rparr>), m)"
      unfolding be list_served reply_list [OF f assms(3)] ..
    show "refresh_page be (s, m) = (s\<lparr>cp := fst (roundtrip be (loadList KNone (cp s), m))\<rparr>, m) \<and>
      config_idle k (fst (refresh_page be (s, m))) \<and> listError (cp (fst (refresh_page be (s, m)))) = None \<and>
      main_data (cp (fst (refresh_page be (s, m)))) = map shown_row rows"
      unfolding p_def [symmetric] rp using i by (simp add: d sv comp_def) }
qed

lemma failing_list_passes:
  assumes "config_idle k s" and be: "be = api dp fixture t0 t1" and "map_of (mk_records m) (kind_name k) = Some rows" "rows \<noteq> []"
  obtains s' m' where "failing_list_section be (s, m) = Some (s', m')" "main_data (cp s') = map shown_row rows" "config_idle k s'"
proof -
  let ?m = "m\<lparr>mk_failList := True\<rparr>"
  have h: "map_of (mk_records ?m) (kind_name k) = Some rows" "mk_failList ?m" using assms(3) by simp_all
  obtain s1 where r1: "refresh_page be (s, ?m) = (s1, ?m)" "config_idle k s1" "listError (cp s1) = Some (Text list_failed)"
    using refreshed(1) [OF assms(1) be h] by (metis fst_conv)
  have h2: "map_of (mk_records (?m\<lparr>mk_failList := False\<rparr>)) (kind_name k) = Some rows" "\<not> mk_failList (?m\<lparr>mk_failList := False\<rparr>)" using assms(3) by simp_all
  obtain s2 where r2: "refresh_page be (s1, ?m\<lparr>mk_failList := False\<rparr>) = (s2, ?m\<lparr>mk_failList := False\<rparr>)" "config_idle k s2" "listError (cp s2) = None"
    "main_data (cp s2) = map shown_row rows"
    using refreshed(2) [OF r1(2) be h2] by (metis fst_conv)
  show ?thesis by (rule that [OF _ r2(4,2)]) (use r1 r2 assms(4) in \<open>simp add: failing_list_section_def del: normalize_row.simps\<close>)
qed

text \<open>The services the list shows; the first one has been saved.\<close>

lemma service_names:
  "\<not> contains ''http_proxy'' ''echo''" "contains ''http_proxy'' ''http_proxy''" "\<not> contains ''http_proxy'' ''socks5_server''" "\<not> contains ''http_proxy'' ''socks5x_server''"
  "\<not> contains ''socks5_server'' ''echo''" "\<not> contains ''socks5_server'' ''http_proxy''" "contains ''socks5_server'' ''socks5_server''" "\<not> contains ''socks5_server'' ''socks5x_server''"
  "\<not> contains ''socks5x_server'' ''echo''" "\<not> contains ''socks5x_server'' ''http_proxy''" "\<not> contains ''socks5x_server'' ''socks5_server''" "contains ''socks5x_server'' ''socks5x_server''"
  by code_simp+

definition type_rows :: "object \<Rightarrow> object list" where
  "type_rows y = [y, service_fixture (1, ''http_proxy''), service_fixture (2, ''socks5_server''), service_fixture (3, ''socks5x_server'')]"

lemma type_card:
  assumes "str_prop ''name'' y = Some (JString ''echo'')" "main_data (cp s) = map shown_row (type_rows y)" "i < 3"
  shows "card_with ([''http_proxy'', ''socks5_server'', ''socks5x_server''] ! i) s =
    Some (shown_row (service_fixture (Suc i, [''http_proxy'', ''socks5_server'', ''socks5x_server''] ! i)))"
proof -
  have i: "i = 0 \<or> i = 1 \<or> i = 2" using assms(3) by auto
  have n: "js_string (row_name (shown_row (service_fixture (k, ty)))) = ty" for k ty by (rule shown_name_of [OF service_facts(2)])
  show ?thesis using i n shown_name_of [OF assms(1)]
    by (elim disjE; simp only: card_with_def assms(2) type_rows_def list.map filter.simps service_names nth_Cons_0 nth_Cons_numeral nth_Cons_Suc One_nat_def numeral_2_eq_2 numeral_3_eq_3
      if_True if_False list.case)
qed

lemma type_passes:
  assumes "str_prop ''name'' y = Some (JString ''echo'')" "main_data (cp s) = map shown_row (type_rows y)" "i < 3"
    and ty: "ty = [''http_proxy'', ''socks5_server'', ''socks5x_server''] ! i"
  obtains s' where "type_section ty (s, m) = Some (s', m)" "main_data (cp s') = main_data (cp s)"
proof -
  define r where "r = shown_row (service_fixture (Suc i, ty))"
  have c: "card_with ty s = Some r" unfolding ty r_def by (rule type_card [OF assms(1-3)])
  define row where "row = object_of_row r"
  have t: "str_prop ''type'' row = Some (JString ty)"
    using row_handed_on [OF fixture_rows(4), of "''type''" "Suc i" ty] service_facts(3) [of "Suc i" ty] by (simp add: row_def r_def del: normalize_row.simps)
  define s1 where "s1 = config_edit BuiltinService r s"
  have d: "cp_data s1 = service_form row" by (simp add: s1_def config_edit_def open_window_def row_def)
  have f: "str_prop ''type'' (cp_data s1) = Some (JString ty)"
    unfolding d using t by (simp add: service_form_def str_prop_literal del: literal_Cons)
  have h: "\<not> contains ''socks'' ''http_proxy''" by code_simp
  have "i = 0 \<or> i = 1 \<or> i = 2" using assms(3) by auto
  then have "contains ''socks'' ty \<longrightarrow> isSocksType (cp_data s1)" using h f unfolding ty isSocksType_def by auto
  then have "type_section ty (s, m) = Some (cancel_window s1, m)"
    unfolding type_section_def prod.case c option.case Let_def s1_def [symmetric] using f by auto
  then show ?thesis by (rule that) (simp add: s1_def cancel_window_def config_edit_def open_window_def)
qed

lemma types_pass:
  assumes "str_prop ''name'' y = Some (JString ''echo'')" "main_data (cp s) = map shown_row (type_rows y)"
  obtains s' where "types_section (s, m) = Some (s', m)"
proof -
  obtain s1 where r1: "type_section ''http_proxy'' (s, m) = Some (s1, m)" "main_data (cp s1) = main_data (cp s)"
    by (rule type_passes [OF assms, of 0 "''http_proxy''" m]) simp_all
  have d1: "main_data (cp s1) = map shown_row (type_rows y)" by (simp only: r1(2) assms(2))
  obtain s2 where r2: "type_section ''socks5_server'' (s1, m) = Some (s2, m)" "main_data (cp s2) = main_data (cp s1)"
    by (rule type_passes [OF assms(1) d1, of 1 "''socks5_server''" m]) simp_all
  have d2: "main_data (cp s2) = map shown_row (type_rows y)" by (simp only: r2(2) d1)
  obtain s3 where r3: "type_section ''socks5x_server'' (s2, m) = Some (s3, m)"
    by (rule type_passes [OF assms(1) d2, of 2 "''socks5x_server''" m]) simp_all
  show ?thesis by (rule that) (simp add: types_section_def r1 r2 r3)
qed

section \<open>Properties\<close>

text \<open>What the earlier sections leave of the records these sections use.\<close>

definition routes_ready :: "mock \<Rightarrow> bool" where
  "routes_ready m \<longleftrightarrow>
     no_failure m \<and> map_of (mk_records m) ''route_output'' = Some [routeFixture ''output''] \<and>
     map_of (mk_records m) ''route_input'' = Some [input_fixture, priority_fixture, legacy_fixture] \<and>
     map_of (mk_records m) ''service'' = Some (map service_fixture (enumerate 0 [''echo'', ''http_proxy'', ''socks5_server'', ''socks5x_server'']))"

lemma inputs_pass:
  assumes "no_failure m" "map_of (mk_records m) ''route_input'' = Some [input_fixture, priority_fixture, legacy_fixture]" and be: "be = api dp fixture t0 t1"
  obtains s' m' where "Option.bind (Option.bind (Option.bind (window_section be RouteInput m) saved_section) (priority_section be)) legacy_section = Some (s', m')"
    "no_failure m'" "\<forall>kind. kind \<noteq> ''route_input'' \<longrightarrow> map_of (mk_records m') kind = map_of (mk_records m) kind"
proof -
  define p where "p = save_payload RouteInput (type_quality typed_quality (window_form RouteInput input_fixture)) (\<not> js_truthy (row_disabled (shown_row input_fixture)))"
  let ?y = "object_assign input_fixture p"
  have m: "map_of (mk_records m) (kind_name RouteInput) = Some (input_fixture # [priority_fixture, legacy_fixture])" using assms(2) by simp
  have f: "type_quality typed_quality (window_form RouteInput input_fixture) =
      (if RouteInput = RouteInput then type_quality typed_quality (window_form RouteInput input_fixture) else window_form RouteInput input_fixture)" by simp
  obtain s1 m1 where r1: "window_section be RouteInput m = Some (s1, m1)" "config_idle RouteInput s1" "main_data (cp s1) = map shown_row (?y # [priority_fixture, legacy_fixture])"
    "map_of (mk_records m1) = (map_of (mk_records m))(kind_name RouteInput \<mapsto> ?y # [priority_fixture, legacy_fixture])" "last_edit RouteInput m1 = p" "no_failure m1"
    by (rule window_passes [OF assms(1) m input_editable be f typing_input p_def])
  have d1: "main_data (cp s1) = shown_row ?y # map shown_row [priority_fixture, legacy_fixture]" using r1(3) by simp
  note y = saved_passes [OF p_def d1 r1(5)]
  define s2 where "s2 = cancel_window (config_edit RouteInput (shown_row ?y) s1)"
  have s2: "config_idle RouteInput s2" "main_data (cp s2) = map shown_row [?y, priority_fixture, legacy_fixture]"
    using r1(2,3) by (simp_all add: s2_def cancel_window_def config_edit_def open_window_def config_idle_def del: normalize_row.simps edit_form.simps)
  have m1: "map_of (mk_records m1) ''route_input'' = Some [?y, priority_fixture, legacy_fixture]" using r1(4) by simp
  obtain s3 m3 z where r3: "priority_section be (s2, m1) = Some (s3, m3)" "main_data (cp s3) = map shown_row [?y, z, legacy_fixture]"
    "map_of (mk_records m3) = (map_of (mk_records m1))(''route_input'' \<mapsto> [?y, z, legacy_fixture])" "no_failure m3" "str_prop ''name'' z = Some (JString ''auto_priority'')"
    by (rule priority_passes [OF s2 m1 r1(6) be y(1-3)])
  obtain s4 where r4: "legacy_section (s3, m3) = Some (s4, m3)" by (rule legacy_passes [OF r3(2) y(2) r3(5)])
  show ?thesis by (rule that [OF _ r3(4)]) (use r1(1,4) y(4) r3(1,3) r4 in \<open>simp_all add: s2_def del: normalize_row.simps\<close>)
qed

text \<open>
  C38: The script's run over the route and service pages passes. On the route outputs, the route inputs
  and the services it opens the first row, moves the second member to the front, is refused once and
  saves; the probe settings it types are sent, shown again and their traffic is computed; both policies
  keep the settings of the priority route, whose card shows no evaluation; the legacy route shows its
  warning; a failing list shows its message and recovers; the service types show their own fields.
\<close>

theorem route_sections_pass:
  assumes "be = api dp fixture t0 t1" and "routes_ready m"
  shows "\<exists>s1 m1 s2 m2 w. window_section be RouteOutput m = Some (s1, m1) \<and>
    Option.bind (Option.bind (Option.bind (window_section be RouteInput m1) saved_section) (priority_section be)) legacy_section = Some (s2, m2) \<and>
    Option.bind (Option.bind (window_section be BuiltinService m2) (failing_list_section be)) types_section = Some w"
proof -
  have m: "no_failure m" "map_of (mk_records m) (kind_name RouteOutput) = Some (routeFixture ''output'' # [])" using assms(2) by (simp_all add: routes_ready_def)
  obtain s1 m1 where r1: "window_section be RouteOutput m = Some (s1, m1)"
    "map_of (mk_records m1) = (map_of (mk_records m))(kind_name RouteOutput \<mapsto> object_assign (routeFixture ''output'')
       (save_payload RouteOutput (window_form RouteOutput (routeFixture ''output'')) (\<not> js_truthy (row_disabled (shown_row (routeFixture ''output''))))) # [])" "no_failure m1"
    by (rule window_passes [OF m output_editable assms(1), of "window_form RouteOutput (routeFixture ''output'')"]) simp_all
  have m1: "map_of (mk_records m1) ''route_input'' = Some [input_fixture, priority_fixture, legacy_fixture]" using r1(2) assms(2) by (simp add: routes_ready_def)
  obtain s2 m2 where r2: "Option.bind (Option.bind (Option.bind (window_section be RouteInput m1) saved_section) (priority_section be)) legacy_section = Some (s2, m2)"
    "no_failure m2" "\<forall>kind. kind \<noteq> ''route_input'' \<longrightarrow> map_of (mk_records m2) kind = map_of (mk_records m1) kind"
    by (rule inputs_pass [OF r1(3) m1 assms(1)])
  let ?e = "service_fixture (0, ''echo'')"
  have m2: "map_of (mk_records m2) (kind_name BuiltinService) = Some (?e # tl (type_rows ?e))"
    using r2(3) r1(2) assms(2) by (simp add: routes_ready_def type_rows_def numeral_2_eq_2 numeral_3_eq_3)
  define p where "p = save_payload BuiltinService (window_form BuiltinService ?e) (\<not> js_truthy (row_disabled (shown_row ?e)))"
  obtain s3 m3 where r3: "window_section be BuiltinService m2 = Some (s3, m3)" "config_idle BuiltinService s3"
    "map_of (mk_records m3) = (map_of (mk_records m2))(kind_name BuiltinService \<mapsto> object_assign ?e p # tl (type_rows ?e))"
    by (rule window_passes [OF r2(2) m2 service_editable assms(1), of "window_form BuiltinService ?e"]) (simp_all add: p_def)
  have rows: "object_assign ?e p # tl (type_rows ?e) = type_rows (object_assign ?e p)" by (simp add: type_rows_def)
  have n: "str_prop ''name'' (object_assign ?e p) = Some (JString ''echo'')"
  proof -
    have "str_prop ''name'' p = Some (JString ''echo'')" unfolding p_def payload_ids window_form_facts(2) [OF service_editable] by (rule service_facts(2))
    then show ?thesis unfolding saved_row [OF p_def] by simp
  qed
  have m3: "map_of (mk_records m3) (kind_name BuiltinService) = Some (type_rows (object_assign ?e p))" unfolding r3(3) rows by simp
  obtain s4 m4 where r4: "failing_list_section be (s3, m3) = Some (s4, m4)" "main_data (cp s4) = map shown_row (type_rows (object_assign ?e p))"
    by (rule failing_list_passes [OF r3(2) assms(1) m3]) (simp add: type_rows_def)
  obtain s5 where r5: "types_section (s4, m4) = Some (s5, m4)" by (rule types_pass [OF n r4(2)])
  show ?thesis using r1(1) r2(1) r3(1) r4(1) r5 by simp
qed

theorem route_sections_pass_witness:
  "\<exists>s1 m1. window_section (api (\<lambda>_. None) [] [] []) RouteOutput initial_mock = Some (s1, m1)"
proof -
  have r: "routes_ready initial_mock" by (simp add: routes_ready_def no_failure_def initial_mock_def initial_records_def)
  show ?thesis using route_sections_pass [OF refl r, of "\<lambda>_. None" "[]" "[]" "[]"] by blast
qed

end
