(* ===== verification/Contrast.thy ===== *)
theory Contrast
  imports Complex_Main MockApi
begin

text \<open>
  The readability check of \<open>src/scripts/test-admin-ui.cjs\<close> (\<open>readableText\<close>): the colours the browser
  computed are parsed, turned into relative luminances, and every visible text whose contrast ratio to
  its background is below 4.5 is reported. Numbers are reals instead of floating-point numbers;
  \<open>None\<close> is \<open>NaN\<close>, with which every comparison is false. Texts are lists of UTF-16 code units.
\<close>

section \<open>Colours\<close>

definition colour_char :: "char \<Rightarrow> bool" where
  "colour_char c \<longleftrightarrow> (let n = (of_char c :: nat) in (48 \<le> n \<and> n \<le> 57) \<or> c = CHR ''.'')"

text \<open>The matches of \<open>/[\d.]+/g\<close>.\<close>

fun colour_runs :: "string \<Rightarrow> string \<Rightarrow> string list" where
  "colour_runs run [] = (if run = [] then [] else [run])"
| "colour_runs run (c # cs) =
     (if colour_char c then colour_runs (run @ [c]) cs
      else if run = [] then colour_runs [] cs else run # colour_runs [] cs)"

text \<open>\<open>Number\<close> on such a match: at most one dot, and a digit.\<close>

definition decimal :: "string \<Rightarrow> real option" where
  "decimal s =
     (case split_on CHR ''.'' s of
        [a] \<Rightarrow> map_option of_int (digits_value a 0)
      | [a, b] \<Rightarrow> if a = [] \<and> b = [] then None else map_option (\<lambda>n. of_int n / 10 ^ length b) (digits_value (a @ b) 0)
      | _ \<Rightarrow> None)"

definition rgb :: "string \<Rightarrow> real option list" where
  "rgb color = map decimal (colour_runs [] color)"

section \<open>Luminance\<close>

definition channel_luminance :: "real \<Rightarrow> real" where
  "channel_luminance v =
     (let channel = v / 255 in
      if channel \<le> 0.04045 then channel / 12.92 else ((channel + 0.055) / 1.055) powr 2.4)"

definition weights :: "real list" where
  "weights = [0.2126, 0.7152, 0.0722]"

fun accumulate :: "real list \<Rightarrow> real option list \<Rightarrow> real \<Rightarrow> real option" where
  "accumulate (w # ws) (v # vs) acc =
     (case v of None \<Rightarrow> None | Some x \<Rightarrow> accumulate ws vs (acc + channel_luminance x * w))"
| "accumulate ws vs acc = Some acc"

definition luminance :: "real option list \<Rightarrow> real option" where
  "luminance c = accumulate weights (take 3 c) 0"

definition contrast :: "real \<Rightarrow> real \<Rightarrow> real" where
  "contrast a b = (max a b + 0.05) / (min a b + 0.05)"

section \<open>Elements\<close>

text \<open>
  A matched element: its text, whether it has client rectangles, its computed text colour and the
  background colours of itself and its ancestors, innermost first.
\<close>

record element =
  el_text :: "nat list"
  el_rects :: bool
  el_color :: string
  el_backgrounds :: "string list"

definition js_space :: "nat \<Rightarrow> bool" where
  "js_space n \<longleftrightarrow> n \<in> {9, 10, 11, 12, 13, 32, 160, 5760, 8232, 8233, 8239, 8287, 12288, 65279} \<or> 8192 \<le> n \<and> n \<le> 8202"

definition trim_units :: "nat list \<Rightarrow> nat list" where
  "trim_units s = rev (dropWhile js_space (rev (dropWhile js_space s)))"

definition opaque_colour :: "real option list \<Rightarrow> bool" where
  "opaque_colour c \<longleftrightarrow>
     length c = 3 \<or> (3 < length c \<and> (case c ! 3 of Some a \<Rightarrow> 0 < a | None \<Rightarrow> False))"

definition background :: "element \<Rightarrow> real option list" where
  "background el =
     (case filter opaque_colour (map rgb (el_backgrounds el)) of c # _ \<Rightarrow> c | [] \<Rightarrow> [Some 255, Some 255, Some 255])"

definition contrast_ratio :: "element \<Rightarrow> real option" where
  "contrast_ratio el =
     (case (luminance (rgb (el_color el)), luminance (background el)) of
        (Some a, Some b) \<Rightarrow> Some (contrast a b)
      | _ \<Rightarrow> None)"

text \<open>\<open>Number(ratio.toFixed(2))\<close>.\<close>

definition to_fixed2 :: "real \<Rightarrow> real" where
  "to_fixed2 x = of_int \<lfloor>x * 100 + 1 / 2\<rfloor> / 100"

definition readable_failures :: "element list \<Rightarrow> (nat list \<times> real) list" where
  "readable_failures els =
     concat (map (\<lambda>el.
         (case contrast_ratio el of
            Some ratio \<Rightarrow> if ratio < 4.5 then [(take 50 (trim_units (el_text el)), to_fixed2 ratio)] else []
          | None \<Rightarrow> []))
       (filter (\<lambda>el. el_rects el \<and> trim_units (el_text el) \<noteq> []) els))"

section \<open>Library: luminance\<close>

text \<open>The two branches of the channel function meet without a drop.\<close>

lemma power_le_powr:
  fixes x y :: real
  assumes "0 \<le> y" "0 < x" "y ^ 5 \<le> x ^ 12"
  shows "y \<le> x powr 2.4"
proof (rule ccontr)
  assume "\<not> y \<le> x powr 2.4"
  then have "(x powr 2.4) ^ 5 < y ^ 5" using assms(1) by (intro power_strict_mono) auto
  moreover have "(x powr 2.4) ^ 5 = x ^ 12"
    using assms(2) powr_realpow [of "x powr 2.4" 5] powr_realpow [of x 12] by (simp add: powr_powr)
  ultimately show False using assms(3) by simp
qed

lemma channel_join: "0.04045 / 12.92 \<le> ((0.04045 + 0.055) / 1.055 :: real) powr 2.4"
  by (rule power_le_powr) (simp_all add: power_divide field_simps)

lemma channel_luminance_mono:
  assumes "v \<le> w"
  shows "channel_luminance v \<le> channel_luminance w"
proof -
  consider "w / 255 \<le> 0.04045" | "v / 255 \<le> 0.04045" "0.04045 < w / 255" | "0.04045 < v / 255" by linarith
  then show ?thesis
  proof cases
    case 1
    then show ?thesis using assms by (simp add: channel_luminance_def Let_def)
  next
    case 2
    have "v / 255 / 12.92 \<le> 0.04045 / 12.92" using 2(1) by (intro divide_right_mono) auto
    also note channel_join
    also have "((0.04045 + 0.055) / 1.055) powr 2.4 \<le> ((w / 255 + 0.055) / 1.055) powr (2.4 :: real)"
      using 2(2) by (intro powr_mono2) auto
    finally show ?thesis using 2 by (simp add: channel_luminance_def Let_def)
  next
    case 3
    have m: "((v / 255 + 0.055) / 1.055) powr 2.4 \<le> ((w / 255 + 0.055) / 1.055) powr (2.4 :: real)"
      using 3 assms by (intro powr_mono2 divide_right_mono) auto
    have "0.04045 < w / 255" using 3 assms by (smt (verit) divide_right_mono)
    then show ?thesis using 3 m by (simp add: channel_luminance_def Let_def)
  qed
qed

lemma channel_luminance_ends [simp]: "channel_luminance 0 = 0" "channel_luminance 255 = 1"
  by (simp_all add: channel_luminance_def Let_def)

lemma channel_luminance_range: "0 \<le> v \<Longrightarrow> v \<le> 255 \<Longrightarrow> 0 \<le> channel_luminance v \<and> channel_luminance v \<le> 1"
  using channel_luminance_mono [of 0 v] channel_luminance_mono [of v 255] by simp

text \<open>A colour of three channels, with or without an alpha value.\<close>

fun colour_values :: "real option list \<Rightarrow> bool" where
  "colour_values (Some r # Some g # Some b # _) \<longleftrightarrow> {r, g, b} \<subseteq> {0..255}"
| "colour_values _ \<longleftrightarrow> False"

lemma luminance_rgb:
  "luminance (Some r # Some g # Some b # c) =
     Some (channel_luminance r * 0.2126 + channel_luminance g * 0.7152 + channel_luminance b * 0.0722)"
  by (simp add: luminance_def weights_def numeral_3_eq_3)

lemma luminance_range: "colour_values c \<Longrightarrow> \<exists>l. luminance c = Some l \<and> 0 \<le> l \<and> l \<le> 1"
proof (induction c rule: colour_values.induct)
  case (1 r g b c)
  then have "0 \<le> channel_luminance x \<and> channel_luminance x \<le> 1" if "x \<in> {r, g, b}" for x
    using channel_luminance_range that by auto
  from this [of r] this [of g] this [of b] show ?case by (simp add: luminance_rgb)
qed simp_all

lemma contrast_range: "0 \<le> a \<Longrightarrow> a \<le> 1 \<Longrightarrow> 0 \<le> b \<Longrightarrow> b \<le> 1 \<Longrightarrow> 1 \<le> contrast a b \<and> contrast a b \<le> 21"
  by (auto simp: contrast_def field_simps max_def min_def)

lemma contrast_sym: "contrast a b = contrast b a"
  by (simp add: contrast_def max.commute min.commute)

lemma luminance_mono:
  assumes "luminance (Some r # Some g # Some b # c) = Some l" "luminance (Some r' # Some g' # Some b' # c') = Some l'"
    and "r' \<le> r" "g' \<le> g" "b' \<le> b"
  shows "l' \<le> l"
  using assms channel_luminance_mono [of r' r] channel_luminance_mono [of g' g] channel_luminance_mono [of b' b]
  by (simp add: luminance_rgb)

section \<open>Properties\<close>

text \<open>
  The contrast ratio is meaningful. For colours with channels from 0 to 255 it lies between 1 and
  21 and does not depend on which of the two colours is the text; and making every channel of a text
  darker on a background at least as bright as the text never lowers its ratio, so an element that
  passes the check still does.
\<close>

theorem contrast_sound:
  assumes "colour_values (Some r # Some g # Some b # c)" and "colour_values (Some r' # Some g' # Some b' # c')"
    and "colour_values bg" and "r' \<le> r" and "g' \<le> g" and "b' \<le> b"
    and "luminance (Some r # Some g # Some b # c) = Some l" and "luminance (Some r' # Some g' # Some b' # c') = Some l'"
    and "luminance bg = Some k" and "l \<le> k"
  shows "1 \<le> contrast l k \<and> contrast l k \<le> contrast l' k \<and> contrast l' k \<le> 21 \<and> contrast l k = contrast k l"
proof -
  have l: "0 \<le> l" "l \<le> 1" and l': "0 \<le> l'" "l' \<le> 1" and k: "0 \<le> k" "k \<le> 1"
    using luminance_range [OF assms(1)] luminance_range [OF assms(2)] luminance_range [OF assms(3)] assms(7-9) by auto
  have m: "l' \<le> l" by (rule luminance_mono [OF assms(7,8,4,5,6)])
  have "(k + 0.05) / (l + 0.05) \<le> (k + 0.05) / (l' + 0.05)" using m l' k by (intro divide_left_mono) auto
  then have "contrast l k \<le> contrast l' k" using m assms(10) by (simp add: contrast_def)
  then show ?thesis using contrast_range [OF l k] contrast_range [OF l' k] contrast_sym by simp
qed

theorem contrast_sound_witness: "1 \<le> contrast 1 1 \<and> contrast 1 1 \<le> contrast 0 1 \<and> contrast 0 1 \<le> 21 \<and> contrast 1 1 = contrast 1 1"
  by (rule contrast_sound [of 255 255 255 "[]" 0 0 0 "[]" "[Some 255, Some 255, Some 255]"]) (simp_all add: luminance_rgb)

text \<open>
  The check reports exactly the unreadable texts: no failure is reported if and only if every
  element with client rectangles and a text that is not blank has a contrast ratio of at least 4.5 to
  the innermost background that is not transparent, white if all are; and black on white, the extreme
  case, has ratio 21.
\<close>

theorem readable_failures_exact:
  "(readable_failures els = [] \<longleftrightarrow>
     list_all (\<lambda>el. case contrast_ratio el of Some ratio \<Rightarrow> 4.5 \<le> ratio | None \<Rightarrow> True)
       (filter (\<lambda>el. el_rects el \<and> trim_units (el_text el) \<noteq> []) els)) \<and>
   contrast_ratio \<lparr>el_text = tx, el_rects = True, el_color = ''rgb(0, 0, 0)'', el_backgrounds = [''rgba(0, 0, 0, 0)'', ''rgb(255, 255, 255)'']\<rparr> = Some 21"
proof (rule conjI)
  show "readable_failures els = [] \<longleftrightarrow>
     list_all (\<lambda>el. case contrast_ratio el of Some ratio \<Rightarrow> 4.5 \<le> ratio | None \<Rightarrow> True)
       (filter (\<lambda>el. el_rects el \<and> trim_units (el_text el) \<noteq> []) els)"
    by (induction els) (auto simp: readable_failures_def split: option.splits)
  have "rgb ''rgb(0, 0, 0)'' = [Some 0, Some 0, Some 0]" "rgb ''rgba(0, 0, 0, 0)'' = [Some 0, Some 0, Some 0, Some 0]"
    "rgb ''rgb(255, 255, 255)'' = [Some 255, Some 255, Some 255]"
    by (simp_all add: rgb_def colour_char_def decimal_def)
  then show "contrast_ratio \<lparr>el_text = tx, el_rects = True, el_color = ''rgb(0, 0, 0)'', el_backgrounds = [''rgba(0, 0, 0, 0)'', ''rgb(255, 255, 255)'']\<rparr> = Some 21"
    by (simp add: contrast_ratio_def background_def opaque_colour_def luminance_rgb contrast_def)
qed

end
