(* ===== verification/HistoryScript.thy ===== *)
theory HistoryScript
  imports HistoryPanel
begin

text \<open>
  The section of \<open>src/scripts/test-admin-ui.cjs\<close> that drives the probe history panel: what the script
  clicks and types, in its order, and what it asserts after each step. A click is the event of the
  panel, followed by the reply of the query it sends. The clock readings of the panel are an argument,
  one for each event; \<open>fill\<close> sets the value of an input and the \<open>change\<close> event is dispatched by the
  script itself.
\<close>

section \<open>Times\<close>

text \<open>The time of the fixture's records, from the clock when the script started.\<close>

definition historyTime :: "int \<Rightarrow> string" where
  "historyTime start = datetime_text ((start - 5 * 60000) div 1000 * 1000 + 8 * 3600000)"

definition beijingInput :: "int \<Rightarrow> string" where
  "beijingInput ms = datetime_text (ms + 8 * 3600000)"

text \<open>The pattern \<open>/(?:\.\d+)?[+]08:00$/\<close>: the offset at the end, and a fraction before it.\<close>

definition strip_offset :: "string \<Rightarrow> string option" where
  "strip_offset s =
     (if 6 \<le> length s \<and> drop (length s - 6) s = ''+08:00'' then Some (take (length s - 6) s) else None)"

definition strip_fraction :: "string \<Rightarrow> string" where
  "strip_fraction u =
     (let ds = takeWhile (\<lambda>c. 48 \<le> (of_char c :: nat) \<and> (of_char c :: nat) \<le> 57) (rev u); rest = drop (length ds) (rev u)
      in if ds \<noteq> [] \<and> rest \<noteq> [] \<and> hd rest = CHR ''.'' then rev (tl rest) else u)"

definition formatProbeTime :: "string \<Rightarrow> string" where
  "formatProbeTime v =
     (if v = [] then utf8 [226, 128, 148]
      else let s = takeWhile (\<lambda>c. c \<noteq> CHR ''T'') v @
                   (case dropWhile (\<lambda>c. c \<noteq> CHR ''T'') v of [] \<Rightarrow> [] | _ # r \<Rightarrow> CHR '' '' # r)
           in case strip_offset s of None \<Rightarrow> s | Some u \<Rightarrow> strip_fraction u)"

section \<open>Driving the panel\<close>

text \<open>A user event and the reply of the query it sends, if it sends one.\<close>

definition act :: "backend \<Rightarrow> panel_event \<Rightarrow> panel \<times> mock \<Rightarrow> panel \<times> mock" where
  "act be e w = run_world be w [User e, Deliver 0]"

text \<open>
  \<open>changeTime\<close>: \<open>fill\<close> of a time control assigns the text and raises an error (\<open>Malformed value\<close>) unless
  the control then holds exactly this text. The two steps describe the script where it goes on:
  the value is the text. A browser whose sanitisation rewrites a text, such as one that drops zero seconds, stops the
  script at that \<open>fill\<close>; that is outside the model.
\<close>

definition changeStart :: "backend \<Rightarrow> string \<Rightarrow> int \<Rightarrow> panel \<times> mock \<Rightarrow> panel \<times> mock" where
  "changeStart be v now w = run_world be w [User (TypeStart v), User (TimeChanged now), Deliver 0]"

definition changeEnd :: "backend \<Rightarrow> string \<Rightarrow> int \<Rightarrow> panel \<times> mock \<Rightarrow> panel \<times> mock" where
  "changeEnd be v now w = run_world be w [User (TypeEnd v), User (TimeChanged now), Deliver 0]"

definition setFailHistory :: "bool \<Rightarrow> panel \<times> mock \<Rightarrow> panel \<times> mock" where
  "setFailHistory b w = (case w of (p, m) \<Rightarrow> (p, m\<lparr>mk_failHistory := b\<rparr>))"

text \<open>What the script reads: the rows, the page number, the last query and its numbers.\<close>

definition rows_shown :: "panel \<times> mock \<Rightarrow> nat" where
  "rows_shown w = length (shown_rows (fst w))"

definition page_no :: "panel \<times> mock \<Rightarrow> nat" where
  "page_no w = length (hp_previous (fst w)) + 1"

definition last_read :: "string \<Rightarrow> panel \<times> mock \<Rightarrow> string option" where
  "last_read k w = (if mk_historyReads (snd w) = [] then None else map_of (last (mk_historyReads (snd w))) k)"

definition read_number :: "string \<Rightarrow> panel \<times> mock \<Rightarrow> int option" where
  "read_number k w = (case last_read k w of None \<Rightarrow> None | Some v \<Rightarrow> js_Number v)"

definition since_read :: "panel \<times> mock \<Rightarrow> int" where
  "since_read w = (case read_number ''since'' w of Some a \<Rightarrow> a | None \<Rightarrow> 0)"

definition until_read :: "panel \<times> mock \<Rightarrow> int" where
  "until_read w = (case read_number ''until'' w of Some a \<Rightarrow> a | None \<Rightarrow> 0)"

definition read_span :: "panel \<times> mock \<Rightarrow> int option" where
  "read_span w =
     (case (read_number ''since'' w, read_number ''until'' w) of (Some a, Some b) \<Rightarrow> Some (b - a) | _ \<Rightarrow> None)"

definition first_shown :: "string \<Rightarrow> panel \<times> mock \<Rightarrow> json option" where
  "first_shown k w = (case shown_rows (fst w) of [] \<Rightarrow> None | r # _ \<Rightarrow> str_prop k r)"

definition no_records :: "panel \<times> mock \<Rightarrow> bool" where
  "no_records w \<longleftrightarrow> shown_rows (fst w) = [] \<and> \<not> hp_loading (fst w) \<and> hp_error (fst w) = None"

definition error_shown :: "panel_text \<Rightarrow> panel \<times> mock \<Rightarrow> bool" where
  "error_shown e w \<longleftrightarrow> hp_error (fst w) = Some e"

section \<open>The script\<close>

text \<open>Opening, paging, filters, presets, a failed query and its retry.\<close>

definition preset_section :: "backend \<Rightarrow> (nat \<Rightarrow> int) \<Rightarrow> string \<Rightarrow> panel \<times> mock \<Rightarrow> bool \<times> panel \<times> mock" where
  "preset_section be now ht w0 =
     (let w1 = act be (OpenHistory row_a (now 1)) w0;
          w2 = act be NextPage w1;
          w3 = act be PreviousPage w2;
          w4 = act be (SelectKind ''route'' (now 4)) w3;
          w5 = act be (SelectStatus ''slow'' (now 5)) w4;
          w6 = act be (SelectRange ''168'' (now 6)) w5;
          w7 = act be (RefreshHistory (now 7)) (setFailHistory True w6);
          w8 = act be RetryHistory (setFailHistory False w7);
          w9 = act be (SelectStatus [] (now 9)) w8;
          w10 = act be (SelectKind [] (now 10)) w9
      in (hp_name (fst w1) = JStr ''goai_tcpmux_pw'' \<and>
          map_option formatProbeTime (case first_shown ''time'' w1 of Some (JString v) \<Rightarrow> Some v | _ \<Rightarrow> None) =
            Some (map (\<lambda>c. if c = CHR ''T'' then CHR '' '' else c) ht) \<and>
          rows_shown w1 = 50 \<and> last_read ''uuid'' w1 = Some ''a'' \<and>
          page_no w2 = 2 \<and> rows_shown w2 = 5 \<and> last_read ''before'' w2 = Some ''6'' \<and>
          page_no w3 = 1 \<and>
          first_shown ''route_name'' w4 = Some (JString ''socks5-password'') \<and> last_read ''kind'' w4 = Some ''route'' \<and>
          no_records w5 \<and> last_read ''status'' w5 = Some ''slow'' \<and>
          hp_range (fst w6) = ''168'' \<and>
          read_span w6 = Some (168 * 3600000) \<and>
          error_shown (PText (Text history_failure)) w7 \<and>
          no_records w8 \<and>
          first_shown ''route_name'' w9 = Some (JString ''socks5-password''),
          w10))"

text \<open>The custom interval: its first value, one second, invalid intervals, empty ones, and back.\<close>

definition custom_section :: "backend \<Rightarrow> (nat \<Rightarrow> int) \<Rightarrow> string \<Rightarrow> panel \<times> mock \<Rightarrow> bool" where
  "custom_section be now ht w10 =
     (let w11 = act be (SelectRange ''custom'' (now 11)) w10;
          w12 = changeStart be ht (now 12) w11;
          w13 = changeEnd be ht (now 13) w12;
          w14 = act be NextPage w13;
          w15 = act be (SelectKind ''route'' (now 15)) w14;
          w16 = act be (RefreshHistory (now 16)) w15;
          w17 = changeStart be (beijingInput (until_read w13 + 1000)) (now 17) w16;
          w18 = changeStart be [] (now 18) w17;
          w19 = changeStart be ht (now 19) w18;
          w20 = changeStart be (beijingInput (since_read w13 - 1000)) (now 20) w19;
          w21 = changeEnd be (beijingInput (since_read w13 - 1000)) (now 21) w20;
          w22 = changeEnd be (beijingInput (until_read w13 + 1000)) (now 22) w21;
          w23 = changeStart be (beijingInput (until_read w13 + 1000)) (now 23) w22;
          w24 = changeStart be ht (now 24) w23;
          w25 = changeEnd be ht (now 25) w24;
          w26 = act be (SelectRange ''1'' (now 26)) w25;
          w27 = act be (SelectRange ''custom'' (now 27)) w26
      in hp_start (fst w11) = beijingInput (since_read w10) \<and> hp_end (fst w11) = beijingInput (until_read w10) \<and>
         rows_shown w13 = 50 \<and> Some (since_read w13) = date_parse (ht @ ''+08:00'') \<and> until_read w13 = since_read w13 + 999 \<and>
         rows_shown w14 = 5 \<and> since_read w14 = since_read w13 \<and> until_read w14 = until_read w13 \<and>
         page_no w15 = 1 \<and> last_read ''before'' w15 = None \<and> since_read w15 = since_read w13 \<and>
         until_read w16 = until_read w13 \<and>
         error_shown StartAfterEnd w17 \<and> error_shown IncompleteInterval w18 \<and>
         length (mk_historyReads (snd w18)) = length (mk_historyReads (snd w16)) \<and>
         no_records w21 \<and> no_records w23 \<and>
         hp_range (fst w26) \<noteq> ''custom'' \<and> until_read w26 - since_read w26 = 3600000 \<and>
         since_read w27 = since_read w13)"

definition history_section :: "backend \<Rightarrow> (nat \<Rightarrow> int) \<Rightarrow> string \<Rightarrow> panel \<times> mock \<Rightarrow> bool" where
  "history_section be now ht w =
     (case preset_section be now ht w of (ok, w') \<Rightarrow> ok \<and> custom_section be now ht w')"

section \<open>Library: the selection of the panel\<close>

type_synonym selection =
  "string \<times> string \<times> string \<times> string \<times> string \<times> jsval list \<times> jsval \<times> int option \<times> int option"

definition sel :: "panel \<Rightarrow> selection" where
  "sel p = (hp_range p, hp_start p, hp_end p, hp_kind p, hp_status p, hp_previous p, hp_before p, hp_since p, hp_until p)"

definition calm :: "panel \<times> mock \<Rightarrow> bool" where
  "calm w \<longleftrightarrow>
     panel_live (fst w) \<and> hp_uuid (fst w) = JStr ''a'' \<and> hp_inflight (fst w) = [] \<and> \<not> hp_loading (fst w) \<and>
     \<not> mk_failHistory (snd w)"

definition ready :: "(string \<Rightarrow> int option) \<Rightarrow> object list \<Rightarrow> panel \<times> mock \<Rightarrow> selection \<Rightarrow> bool" where
  "ready dp fx w t \<longleftrightarrow>
     calm w \<and> sel (fst w) = t \<and> hp_error (fst w) = None \<and> shown_rows (fst w) = fst (answer dp fx (fst w)) \<and>
     hp_next (fst w) = JNum (snd (answer dp fx (fst w))) \<and>
     mk_historyReads (snd w) \<noteq> [] \<and> last (mk_historyReads (snd w)) = history_params (fst w)"

lemma ready_calm: "ready dp fx w t \<Longrightarrow> calm w" and ready_sel: "ready dp fx w t \<Longrightarrow> sel (fst w) = t"
  by (simp_all add: ready_def)

lemma ready_load:
  assumes "panel_live q" "hp_uuid q = JStr ''a''" "hp_inflight q = []" "interval_current q" "\<not> mk_failHistory m" "sel q = t"
  shows "ready dp fx (deliver (api dp fx t0 t1) 0 (loadProbeHistory q, m)) t"
proof -
  have "sel (answered dp fx q) = sel q" by (simp add: sel_def)
  then show ?thesis using assms by (simp add: reload ready_def calm_def)
qed

text \<open>Events while a preset is selected.\<close>

lemma reset_preset:
  assumes "calm w" "sel (fst w) = (rg0, st, en, k0, s0, pr, b, a, c)"
    and "panel_step (fst w) e = resetProbeHistory now ((fst w)\<lparr>hp_range := rg, hp_kind := k, hp_status := s\<rparr>)"
    and "rg \<noteq> ''custom''" "js_Number rg = Some h"
  shows "ready dp fx (act (api dp fx t0 t1) e w) (rg, st, en, k, s, [], JNum 0, Some (now - h * 3600000), Some now)"
proof -
  obtain p m where w: "w = (p, m)" by force
  let ?q = "p\<lparr>hp_range := rg, hp_kind := k, hp_status := s, hp_previous := [], hp_before := JNum 0, hp_next := JNum 0,
      hp_until := Some now, hp_since := Some (now - h * 3600000)\<rparr>"
  have "act (api dp fx t0 t1) e w = deliver (api dp fx t0 t1) 0 (loadProbeHistory ?q, m)"
    using assms(3-5) by (simp add: w act_def run_world_def resetProbeHistory_def Let_def)
  moreover have "ready dp fx (deliver (api dp fx t0 t1) 0 (loadProbeHistory ?q, m))
      (rg, st, en, k, s, [], JNum 0, Some (now - h * 3600000), Some now)"
    using assms(1,2,4) by (intro ready_load) (simp_all add: w calm_def panel_live_def interval_current_def sel_def)
  ultimately show ?thesis by simp
qed

lemma panel_self [simp]:
  "p\<lparr>hp_range := hp_range p\<rparr> = p" "p\<lparr>hp_kind := hp_kind p\<rparr> = p" "p\<lparr>hp_status := hp_status p\<rparr> = p"
  "p\<lparr>hp_start := hp_start p\<rparr> = p" "p\<lparr>hp_end := hp_end p\<rparr> = p"
  by (cases p, simp)+

lemma preset_events:
  assumes "calm w" "sel (fst w) = (rg, st, en, k, s, pr, b, a, c)" "rg \<noteq> ''custom''" "js_Number rg = Some h"
  shows "ready dp fx (act (api dp fx t0 t1) (SelectKind k' now) w) (rg, st, en, k', s, [], JNum 0, Some (now - h * 3600000), Some now)"
    and "ready dp fx (act (api dp fx t0 t1) (SelectStatus s' now) w) (rg, st, en, k, s', [], JNum 0, Some (now - h * 3600000), Some now)"
proof -
  have f: "hp_range (fst w) = rg" "hp_kind (fst w) = k" "hp_status (fst w) = s" "panel_live (fst w)" using assms(1,2) by (simp_all add: sel_def calm_def)
  have u: "(fst w)\<lparr>hp_range := rg, hp_kind := k', hp_status := s\<rparr> = (fst w)\<lparr>hp_kind := k'\<rparr>" for k'
    by (rule panel.equality) (simp_all add: f)
  have v: "(fst w)\<lparr>hp_range := rg, hp_kind := k, hp_status := s'\<rparr> = (fst w)\<lparr>hp_status := s'\<rparr>" for s'
    by (rule panel.equality) (simp_all add: f)
  show "ready dp fx (act (api dp fx t0 t1) (SelectKind k' now) w) (rg, st, en, k', s, [], JNum 0, Some (now - h * 3600000), Some now)"
    by (rule reset_preset [OF assms(1,2) _ assms(3,4)]) (simp add: u f)
  show "ready dp fx (act (api dp fx t0 t1) (SelectStatus s' now) w) (rg, st, en, k, s', [], JNum 0, Some (now - h * 3600000), Some now)"
    by (rule reset_preset [OF assms(1,2) _ assms(3,4)]) (simp add: v f)
qed

lemma select_preset:
  assumes "calm w" "sel (fst w) = (rg0, st, en, k, s, pr, b, a, c)" "rg \<noteq> ''custom''" "js_Number rg = Some h"
  shows "ready dp fx (act (api dp fx t0 t1) (SelectRange rg now) w) (rg, st, en, k, s, [], JNum 0, Some (now - h * 3600000), Some now)"
proof -
  have f: "hp_kind (fst w) = k" "hp_status (fst w) = s" "panel_live (fst w)" using assms(1,2) by (simp_all add: sel_def calm_def)
  have u: "(fst w)\<lparr>hp_range := rg, hp_kind := k, hp_status := s\<rparr> = (fst w)\<lparr>hp_range := rg\<rparr>"
    by (rule panel.equality) (simp_all add: f)
  show ?thesis
    by (rule reset_preset [OF assms(1,2) _ assms(3,4)]) (use f assms(3) in \<open>simp add: u changeProbeHistoryRange_def\<close>)
qed

text \<open>Events while the custom interval is selected.\<close>

lemma load_custom:
  assumes "hp_range q = ''custom''" "custom_interval q = Inr (a, b)"
  shows "loadProbeHistory q = loadProbeHistory (q\<lparr>hp_since := Some a, hp_until := Some (b + 999)\<rparr>)"
proof -
  have "custom_interval (q\<lparr>hp_since := Some a, hp_until := Some (b + 999)\<rparr>) = Inr (a, b)" using assms(2) by (simp add: custom_interval_def)
  then show ?thesis using assms by (simp add: loadProbeHistory_def Let_def)
qed

lemma reset_custom:
  assumes "panel_live q" "hp_uuid q = JStr ''a''" "hp_inflight q = []" "\<not> mk_failHistory m"
    and "sel q = (''custom'', st, en, k, s, pr, bf, since, til)"
    and "date_parse (st @ ''+08:00'') = Some a" "date_parse (en @ ''+08:00'') = Some b" "a \<le> b"
  shows "ready dp fx (deliver (api dp fx t0 t1) 0 (resetProbeHistory now q, m))
    (''custom'', st, en, k, s, [], JNum 0, Some a, Some (b + 999))"
proof -
  let ?q = "q\<lparr>hp_previous := [], hp_before := JNum 0, hp_next := JNum 0\<rparr>"
  have f: "hp_range q = ''custom''" "hp_start q = st" "hp_end q = en" "hp_kind q = k" "hp_status q = s" using assms(5) by (simp_all add: sel_def)
  have ci: "custom_interval ?q = Inr (a, b)" using assms(6-8) by (simp add: custom_interval_def f)
  have "resetProbeHistory now q = loadProbeHistory (?q\<lparr>hp_since := Some a, hp_until := Some (b + 999)\<rparr>)"
    using load_custom [OF _ ci] f(1) by (simp add: resetProbeHistory_def Let_def)
  moreover have "ready dp fx (deliver (api dp fx t0 t1) 0 (loadProbeHistory (?q\<lparr>hp_since := Some a, hp_until := Some (b + 999)\<rparr>), m))
      (''custom'', st, en, k, s, [], JNum 0, Some a, Some (b + 999))"
    using assms(1-4) ci f
    by (intro ready_load) (simp_all add: panel_live_def sel_def interval_current_def custom_interval_def)
  ultimately show ?thesis by simp
qed

lemma custom_events:
  assumes "calm w" "sel (fst w) = (''custom'', st, en, k, s, pr, bf, since, til)"
    and "date_parse (st @ ''+08:00'') = Some a" "date_parse (en @ ''+08:00'') = Some b" "a \<le> b"
  shows "ready dp fx (act (api dp fx t0 t1) (SelectKind k' now) w) (''custom'', st, en, k', s, [], JNum 0, Some a, Some (b + 999))"
    and "ready dp fx (act (api dp fx t0 t1) (RefreshHistory now) w) (''custom'', st, en, k, s, [], JNum 0, Some a, Some (b + 999))"
proof -
  obtain p m where w: "w = (p, m)" by force
  have p: "panel_live p" "hp_uuid p = JStr ''a''" "hp_inflight p = []" "\<not> mk_failHistory m" "\<not> hp_loading p"
    "sel p = (''custom'', st, en, k, s, pr, bf, since, til)" using assms(1,2) by (simp_all add: w calm_def)
  have "sel (p\<lparr>hp_kind := k'\<rparr>) = (''custom'', st, en, k', s, pr, bf, since, til)" using p(6) by (simp add: sel_def)
  then show "ready dp fx (act (api dp fx t0 t1) (SelectKind k' now) w) (''custom'', st, en, k', s, [], JNum 0, Some a, Some (b + 999))"
    using reset_custom [of "p\<lparr>hp_kind := k'\<rparr>" m st en k' s pr bf since til a b dp fx t0 t1 now] p assms(3-5)
    by (simp add: w act_def run_world_def panel_live_def)
  show "ready dp fx (act (api dp fx t0 t1) (RefreshHistory now) w) (''custom'', st, en, k, s, [], JNum 0, Some a, Some (b + 999))"
    using reset_custom [OF p(1-4,6) assms(3-5)] p by (simp add: w act_def run_world_def)
qed

lemma change_times:
  assumes "calm w" "sel (fst w) = (''custom'', st, en, k, s, pr, bf, since, til)" "date_parse (v @ ''+08:00'') = Some a"
  shows "date_parse (en @ ''+08:00'') = Some b \<Longrightarrow> a \<le> b \<Longrightarrow>
      ready dp fx (changeStart (api dp fx t0 t1) v now w) (''custom'', v, en, k, s, [], JNum 0, Some a, Some (b + 999))"
    and "date_parse (st @ ''+08:00'') = Some b \<Longrightarrow> b \<le> a \<Longrightarrow>
      ready dp fx (changeEnd (api dp fx t0 t1) v now w) (''custom'', st, v, k, s, [], JNum 0, Some b, Some (a + 999))"
proof -
  obtain p m where w: "w = (p, m)" by force
  have p: "panel_live p" "hp_uuid p = JStr ''a''" "hp_inflight p = []" "\<not> mk_failHistory m"
    "sel p = (''custom'', st, en, k, s, pr, bf, since, til)" "hp_range p = ''custom''" using assms(1,2) by (simp_all add: w calm_def sel_def)
  have s: "sel (p\<lparr>hp_start := v\<rparr>) = (''custom'', v, en, k, s, pr, bf, since, til)"
    "sel (p\<lparr>hp_end := v\<rparr>) = (''custom'', st, v, k, s, pr, bf, since, til)" using p(5) by (simp_all add: sel_def)
  show "ready dp fx (changeStart (api dp fx t0 t1) v now w) (''custom'', v, en, k, s, [], JNum 0, Some a, Some (b + 999))"
    if "date_parse (en @ ''+08:00'') = Some b" "a \<le> b"
    using reset_custom [OF _ _ _ p(4) s(1) assms(3) that, of dp fx t0 t1 now] p
    by (simp add: w changeStart_def run_world_def panel_live_def)
  show "ready dp fx (changeEnd (api dp fx t0 t1) v now w) (''custom'', st, v, k, s, [], JNum 0, Some b, Some (a + 999))"
    if "date_parse (st @ ''+08:00'') = Some b" "b \<le> a"
    using reset_custom [OF _ _ _ p(4) s(2) that(1) assms(3) that(2), of dp fx t0 t1 now] p
    by (simp add: w changeEnd_def run_world_def panel_live_def)
qed

text \<open>An invalid interval: an error, no query.\<close>

lemma change_start_invalid:
  assumes "calm w" "sel (fst w) = (''custom'', st, en, k, s, pr, bf, since, til)"
    and "custom_interval ((fst w)\<lparr>hp_start := v\<rparr>) = Inl e"
  shows "calm (changeStart be v now w)" "sel (fst (changeStart be v now w)) = (''custom'', v, en, k, s, [], JNum 0, since, til)"
    "error_shown e (changeStart be v now w)" "snd (changeStart be v now w) = snd w"
proof -
  obtain p m where w: "w = (p, m)" by force
  have ci: "custom_interval (p\<lparr>hp_start := v, hp_previous := [], hp_before := JNum 0, hp_next := JNum 0\<rparr>) = Inl e"
    using assms(3) by (simp add: w custom_interval_def)
  have p: "panel_live p" "hp_inflight p = []" "hp_range p = ''custom''" using assms(1,2) by (simp_all add: w calm_def sel_def)
  then show "calm (changeStart be v now w)" "sel (fst (changeStart be v now w)) = (''custom'', v, en, k, s, [], JNum 0, since, til)"
    "error_shown e (changeStart be v now w)" "snd (changeStart be v now w) = snd w" using assms(1,2) ci
    by (simp_all add: w changeStart_def run_world_def panel_live_def resetProbeHistory_def loadProbeHistory_def Let_def deliver_def
        calm_def sel_def error_shown_def)
qed

text \<open>Turning pages, retrying, a failing query.\<close>

lemma current_sel:
  "sel p = (rg, st, en, k, s, pr, bf, x, y) \<Longrightarrow> rg \<noteq> ''custom'' \<Longrightarrow> interval_current p"
  "sel p = (''custom'', st, en, k, s, pr, bf, Some a, Some (b + 999)) \<Longrightarrow> date_parse (st @ ''+08:00'') = Some a \<Longrightarrow>
     date_parse (en @ ''+08:00'') = Some b \<Longrightarrow> a \<le> b \<Longrightarrow> interval_current p"
  by (auto simp: sel_def interval_current_def custom_interval_def)

lemma turn_next:
  assumes "ready dp fx w (rg, st, en, k, s, pr, bf, a, c)" "interval_current (fst w)"
    and "snd (answer dp fx (fst w)) = n" "n \<noteq> 0"
  shows "ready dp fx (act (api dp fx t0 t1) NextPage w) (rg, st, en, k, s, pr @ [bf], JNum n, a, c)"
proof -
  obtain p m where w: "w = (p, m)" by force
  let ?q = "p\<lparr>hp_previous := hp_previous p @ [hp_before p], hp_before := hp_next p\<rparr>"
  have n: "hp_next p = JNum n" using assms(1,3) by (simp add: ready_def w)
  have "interval_current ?q" using assms(2) by (simp add: w interval_current_def custom_interval_def)
  then have "ready dp fx (deliver (api dp fx t0 t1) 0 (loadProbeHistory ?q, m)) (rg, st, en, k, s, pr @ [bf], JNum n, a, c)"
    using assms(1) n by (intro ready_load) (simp_all add: w ready_def calm_def panel_live_def sel_def)
  then show ?thesis using assms(1,4) n by (simp add: w act_def run_world_def nextProbeHistory_def ready_def calm_def)
qed

lemma turn_previous:
  assumes "ready dp fx w (rg, st, en, k, s, pr @ [JNum b], bf, a, c)" "interval_current (fst w)"
  shows "ready dp fx (act (api dp fx t0 t1) PreviousPage w) (rg, st, en, k, s, pr, JNum b, a, c)"
proof -
  obtain p m where w: "w = (p, m)" by force
  have pv: "hp_previous p = pr @ [JNum b]" using assms(1) by (simp add: ready_def w sel_def)
  let ?q = "p\<lparr>hp_before := JNum b, hp_previous := pr\<rparr>"
  have "interval_current ?q" using assms(2) by (simp add: w interval_current_def custom_interval_def)
  then have "ready dp fx (deliver (api dp fx t0 t1) 0 (loadProbeHistory ?q, m)) (rg, st, en, k, s, pr, JNum b, a, c)"
    using assms(1) by (intro ready_load) (simp_all add: w ready_def calm_def panel_live_def sel_def)
  moreover have "previousProbeHistory p = loadProbeHistory ?q" by (simp add: previousProbeHistory_def pv)
  ultimately show ?thesis using assms(1) pv by (simp add: w act_def run_world_def ready_def calm_def)
qed

lemma fail_and_retry:
  assumes "calm w" "sel (fst w) = (rg, st, en, k, s, pr, bf, a, c)" "rg \<noteq> ''custom''" "js_Number rg = Some h"
    and w7_def: "w7 = act (api dp fx t0 t1) (RefreshHistory now) (setFailHistory True w)"
  shows "error_shown (PText (Text history_failure)) w7"
    and "ready dp fx (act (api dp fx t0 t1) RetryHistory (setFailHistory False w7)) (rg, st, en, k, s, [], JNum 0, Some (now - h * 3600000), Some now)"
proof -
  obtain p m where w: "w = (p, m)" by force
  have p: "panel_live p" "hp_uuid p = JStr ''a''" "hp_inflight p = []" "\<not> hp_loading p" "hp_range p = rg"
    using assms(1,2) by (simp_all add: w calm_def sel_def)
  define q where "q = p\<lparr>hp_previous := [], hp_before := JNum 0, hp_next := JNum 0, hp_until := Some now, hp_since := Some (now - h * 3600000)\<rparr>"
  define r where "r = q\<lparr>hp_requestId := Suc (hp_requestId q), hp_loading := True, hp_error := None, hp_records := JArray [], hp_inflight := []\<rparr>"
  have q: "interval_current q" "hp_inflight q = []" "panel_live q" "hp_uuid q = JStr ''a''"
    "sel q = (rg, st, en, k, s, [], JNum 0, Some (now - h * 3600000), Some now)"
    using p assms(2,3) by (simp_all add: q_def interval_current_def panel_live_def w sel_def)
  have r: "hp_requestId r = Suc (hp_requestId q)" "history_params r = history_params q" by (simp_all add: r_def history_params_def)
  have l: "loadProbeHistory q = r\<lparr>hp_inflight := [(Suc (hp_requestId q), history_url q)]\<rparr>"
    unfolding loadProbeHistory_current [OF q(1)] using q(2) by (simp add: r_def)
  have step: "panel_step p (RefreshHistory now) = loadProbeHistory q"
    using p assms(3,4) by (simp add: resetProbeHistory_def Let_def q_def)
  have rr: "r\<lparr>hp_inflight := []\<rparr> = r" by (simp add: r_def)
  have w7: "w7 = (r\<lparr>hp_error := Some (PText (Text history_failure)), hp_next := JNum 0, hp_loading := False\<rparr>,
      noted (history_params q) (m\<lparr>mk_failHistory := True\<rparr>))"
    using settled_query [OF r, of dp fx t0 t1 "m\<lparr>mk_failHistory := True\<rparr>"]
    by (simp add: w7_def act_def run_world_def setFailHistory_def w step l deliver_def remove_nth_def rr served_query noted_def
        del: panel_step.simps)
  show "error_shown (PText (Text history_failure)) w7" by (simp add: w7 error_shown_def)
  let ?r = "r\<lparr>hp_error := Some (PText (Text history_failure)), hp_next := JNum 0, hp_loading := False\<rparr>"
  have rl: "panel_live ?r" "hp_uuid ?r = JStr ''a''" "hp_inflight ?r = []" "interval_current ?r"
    "sel ?r = (rg, st, en, k, s, [], JNum 0, Some (now - h * 3600000), Some now)"
    using q assms(3) by (simp_all add: r_def panel_live_def interval_current_def sel_def)
  then have "ready dp fx (deliver (api dp fx t0 t1) 0 (loadProbeHistory ?r, (noted (history_params q) (m\<lparr>mk_failHistory := True\<rparr>))\<lparr>mk_failHistory := False\<rparr>))
      (rg, st, en, k, s, [], JNum 0, Some (now - h * 3600000), Some now)"
    by (intro ready_load) simp_all
  then show "ready dp fx (act (api dp fx t0 t1) RetryHistory (setFailHistory False w7)) (rg, st, en, k, s, [], JNum 0, Some (now - h * 3600000), Some now)"
    using rl(1) by (simp add: w7 act_def run_world_def setFailHistory_def)
qed

text \<open>Selecting the custom interval: the first time with the interval shown, later with the times typed.\<close>

lemma select_custom_first:
  assumes "calm w" "sel (fst w) = (rg, [], [], k, s, pr, bf, Some x, Some y)"
    and "\<bar>x + 28800000\<bar> \<le> 8640000000000000" "\<bar>y + 28800000\<bar> \<le> 8640000000000000"
    and "date_parse (beijingInput x @ ''+08:00'') = Some a" "date_parse (beijingInput y @ ''+08:00'') = Some b" "a \<le> b"
  shows "ready dp fx (act (api dp fx t0 t1) (SelectRange ''custom'' now) w)
    (''custom'', beijingInput x, beijingInput y, k, s, [], JNum 0, Some a, Some (b + 999))"
proof -
  obtain p m where w: "w = (p, m)" by force
  let ?q = "p\<lparr>hp_range := ''custom'', hp_start := beijingInput x, hp_end := beijingInput y\<rparr>"
  have p: "panel_live p" "hp_uuid p = JStr ''a''" "hp_inflight p = []" "\<not> mk_failHistory m"
    "hp_start p = []" "hp_end p = []" "hp_since p = Some x" "hp_until p = Some y" using assms(1,2) by (simp_all add: w calm_def sel_def)
  have "probeHistoryTimeInput (Some x) = Some (beijingInput x)" "probeHistoryTimeInput (Some y) = Some (beijingInput y)"
    using assms(3,4) by (simp_all add: probeHistoryTimeInput_def beijingInput_def)
  then have "act (api dp fx t0 t1) (SelectRange ''custom'' now) w = deliver (api dp fx t0 t1) 0 (resetProbeHistory now ?q, m)"
    using p by (simp add: w act_def run_world_def changeProbeHistoryRange_def)
  moreover have "sel ?q = (''custom'', beijingInput x, beijingInput y, k, s, pr, bf, Some x, Some y)"
    using assms(2) by (simp add: w sel_def)
  ultimately show ?thesis using reset_custom [of ?q m] p assms(5-7) by (simp add: panel_live_def)
qed

lemma select_custom_again:
  assumes "calm w" "sel (fst w) = (rg, st, en, k, s, pr, bf, x, y)" "st \<noteq> []"
    and "date_parse (st @ ''+08:00'') = Some a" "date_parse (en @ ''+08:00'') = Some b" "a \<le> b"
  shows "ready dp fx (act (api dp fx t0 t1) (SelectRange ''custom'' now) w) (''custom'', st, en, k, s, [], JNum 0, Some a, Some (b + 999))"
proof -
  obtain p m where w: "w = (p, m)" by force
  let ?q = "p\<lparr>hp_range := ''custom''\<rparr>"
  have p: "panel_live p" "hp_uuid p = JStr ''a''" "hp_inflight p = []" "\<not> mk_failHistory m" "hp_start p = st"
    using assms(1,2) by (simp_all add: w calm_def sel_def)
  have "act (api dp fx t0 t1) (SelectRange ''custom'' now) w = deliver (api dp fx t0 t1) 0 (resetProbeHistory now ?q, m)"
    using p assms(3) by (simp add: w act_def run_world_def changeProbeHistoryRange_def)
  moreover have "sel ?q = (''custom'', st, en, k, s, pr, bf, x, y)" using assms(2) by (simp add: w sel_def)
  ultimately show ?thesis using reset_custom [of ?q m] p assms(4-6) by (simp add: panel_live_def)
qed

section \<open>Library: the answers of the fixture\<close>

text \<open>The numbers of the fixture's rows a query selects, newest first.\<close>

definition matching :: "string \<Rightarrow> string \<Rightarrow> int \<Rightarrow> nat list" where
  "matching k s b =
     rev (filter (\<lambda>i. (k = [] \<or> k = (if odd i then ''route'' else ''frame'')) \<and>
                      (s = [] \<or> s = (if odd i then ''failed'' else ''normal'')) \<and> (b = 0 \<or> int i + 1 < b)) [0..<55])"

lemma history_row_props [simp]:
  "str_prop ''tunnel_uuid'' (history_row ht i) = Some (JString ''a'')"
  "str_prop ''time'' (history_row ht i) = Some (JString (ht @ ''.123+08:00''))"
  "str_prop ''kind'' (history_row ht i) = Some (JString (if odd i then ''route'' else ''frame''))"
  "str_prop ''status'' (history_row ht i) = Some (JString (if odd i then ''failed'' else ''normal''))"
  "str_prop ''route_name'' (history_row ht i) = Some (JString (if odd i then ''socks5-password'' else []))"
  "row_id (history_row ht i) = int i + 1"
  by (simp_all add: history_row_def str_prop_def row_id_def)

lemma answer_fixture:
  assumes "hp_uuid p = JStr ''a''" "hp_since p = Some a" "hp_until p = Some c" "hp_before p = JNum b" "0 \<le> b"
    and "dp (ht @ ''.123+08:00'') = Some t"
  shows "answer dp (historyFixture ht) p =
    (let m = (if a \<le> t \<and> t \<le> c then matching (hp_kind p) (hp_status p) b else [])
     in (map (history_row ht) (take 50 m), if length m > 50 then int (m ! 49) + 1 else 0))"
proof -
  have t: "row_time dp (history_row ht i) = Some t" for i using assms(6) by (simp add: row_time_def)
  have bm: "before_match (history_params p) (history_row ht i) \<longleftrightarrow> b = 0 \<or> int i + 1 < b" for i
  proof (cases "b = 0")
    case True
    then have "map_of (history_params p) ''before'' = None" using assms(4) by (simp add: history_params_def)
    then show ?thesis using True by (simp add: before_match_def)
  next
    case False
    then have m: "map_of (history_params p) ''before'' = Some (show_int b)" using assms(4) by (simp add: history_params_def)
    obtain x xs where x: "show_int b = x # xs" using show_nat_nonempty by (cases "show_int b") (auto simp: show_int_def split: if_splits)
    show ?thesis using False js_Number_show_int [of b] by (simp add: before_match_def m x)
  qed
  have hm: "history_match dp (history_params p) (history_row ht i) \<longleftrightarrow>
      (a \<le> t \<and> t \<le> c) \<and> (hp_kind p = [] \<or> hp_kind p = (if odd i then ''route'' else ''frame'')) \<and>
      (hp_status p = [] \<or> hp_status p = (if odd i then ''failed'' else ''normal''))" for i
    using assms(1) by (auto simp: history_match_params [OF assms(2,3)] t)
  let ?m = "if a \<le> t \<and> t \<le> c then matching (hp_kind p) (hp_status p) b else []"
  have f: "rev (filter (\<lambda>row. history_match dp (history_params p) row \<and> before_match (history_params p) row) (historyFixture ht)) =
      map (history_row ht) ?m"
    by (cases "a \<le> t \<and> t \<le> c") (auto simp: historyFixture_def matching_def filter_map comp_def hm bm rev_map conj_ac filter_empty_conv intro!: filter_cong)
  have "row_id (last (take 50 (map (history_row ht) ?m))) = int (?m ! 49) + 1" if "50 < length ?m"
  proof -
    have "last (take 50 (map (history_row ht) m)) = history_row ht (m ! 49)" if "50 < length m" for m
      using that by (subst last_conv_nth) auto
    from this [OF that] show ?thesis by simp
  qed
  then show ?thesis unfolding answer_def history_page_def Let_def f by (simp add: take_map)
qed

lemma matching_all: "length (matching [] [] 0) = 55" "matching [] [] 0 ! 49 = 5" "matching [] [] 0 = 54 # tl (matching [] [] 0)"
  by code_simp+

lemma matching_tail: "length (matching [] [] 6) = 5" "length (matching ''route'' [] 0) = 27" "matching ''route'' [] 0 = 53 # tl (matching ''route'' [] 0)"
  "matching ''route'' ''slow'' 0 = []"
  by code_simp+

text \<open>What the panel shows of the fixture, by the selection.\<close>

lemma ready_rows:
  assumes "ready dp (historyFixture ht) w (rg, st, en, k, s, pr, JNum b, Some a, Some c)" "0 \<le> b" "dp (ht @ ''.123+08:00'') = Some t"
  shows "shown_rows (fst w) = (if a \<le> t \<and> t \<le> c then map (history_row ht) (take 50 (matching k s b)) else [])"
    and "a \<le> t \<Longrightarrow> t \<le> c \<Longrightarrow> snd (answer dp (historyFixture ht) (fst w)) = (if 50 < length (matching k s b) then int (matching k s b ! 49) + 1 else 0)"
proof -
  have p: "hp_uuid (fst w) = JStr ''a''" "hp_since (fst w) = Some a" "hp_until (fst w) = Some c" "hp_before (fst w) = JNum b"
    "hp_kind (fst w) = k" "hp_status (fst w) = s" "shown_rows (fst w) = fst (answer dp (historyFixture ht) (fst w))"
    using assms(1) by (simp_all add: ready_def calm_def sel_def)
  show "shown_rows (fst w) = (if a \<le> t \<and> t \<le> c then map (history_row ht) (take 50 (matching k s b)) else [])"
    unfolding p(7) using answer_fixture [where ht = ht and dp = dp, OF p(1-4) assms(2,3)] p(5,6) by (simp add: Let_def)
  show "snd (answer dp (historyFixture ht) (fst w)) = (if 50 < length (matching k s b) then int (matching k s b ! 49) + 1 else 0)"
    if "a \<le> t" "t \<le> c"
    using answer_fixture [where ht = ht and dp = dp, OF p(1-4) assms(2,3)] p(5,6) that by (simp add: Let_def)
qed

lemma ready_reads:
  assumes "ready dp fx w (rg, st, en, k, s, pr, JNum b, Some a, Some c)"
  shows "last_read ''uuid'' w = Some ''a''" "last_read ''kind'' w = Some k" "last_read ''status'' w = Some s"
    "last_read ''before'' w = (if b = 0 then None else Some (show_int b))"
    "read_number ''since'' w = Some a" "read_number ''until'' w = Some c"
  using assms by (simp_all add: ready_def calm_def sel_def last_read_def read_number_def history_params_def num_text_def js_Number_show_int)

lemma ready_view:
  assumes "ready dp fx w (rg, st, en, k, s, pr, bf, a, c)"
  shows "hp_range (fst w) = rg" "hp_start (fst w) = st" "hp_end (fst w) = en" "page_no w = length pr + 1"
    "no_records w \<longleftrightarrow> shown_rows (fst w) = []"
  using assms by (simp_all add: ready_def sel_def page_no_def no_records_def calm_def)

lemma numbers: "js_Number ''24'' = Some 24" "js_Number ''168'' = Some 168" "js_Number ''1'' = Some 1" "show_int 6 = ''6''"
  by code_simp+

section \<open>Library: the time shown\<close>

lemma formatProbeTime_record:
  assumes "CHR ''T'' \<notin> set x" "CHR ''T'' \<notin> set y"
  shows "formatProbeTime ((x @ ''T'' @ y) @ ''.123+08:00'') = x @ '' '' @ y"
proof -
  let ?v = "x @ CHR ''T'' # (y @ ''.123+08:00'')"
  have a: "takeWhile (\<lambda>c. c \<noteq> CHR ''T'') ?v = x" "dropWhile (\<lambda>c. c \<noteq> CHR ''T'') ?v = CHR ''T'' # y @ ''.123+08:00''"
    using assms(1) by (simp_all add: takeWhile_append dropWhile_append)
  have o: "strip_offset (u @ ''+08:00'') = Some u" for u by (simp add: strip_offset_def)
  have f: "strip_fraction (u @ ''.123'') = u" for u by (simp add: strip_fraction_def)
  have e: "x @ CHR '' '' # y @ ''.123+08:00'' = ((x @ '' '' @ y) @ ''.123'') @ ''+08:00''" by simp
  have "formatProbeTime ?v = strip_fraction ((x @ '' '' @ y) @ ''.123'')"
    unfolding formatProbeTime_def Let_def a list.case e o by simp
  then show ?thesis unfolding f by simp
qed

lemma pad_no_T: "CHR ''T'' \<notin> set (pad w n)"
proof (induction w arbitrary: n)
  case (Suc w)
  have "n mod 10 < 10" by simp
  then have "take_bit 8 (48 + n mod 10) = 48 + n mod 10" by (simp add: take_bit_nat_eq_self)
  then have "char_of (48 + n mod 10) \<noteq> CHR ''T''" using \<open>n mod 10 < 10\<close> by (auto simp: char_of_eq_iff)
  then show ?case using Suc by auto
qed simp

lemma datetime_text_shape:
  assumes "-62167219200000 \<le> t" "t < 253402300800000"
  shows "\<exists>x y. datetime_text t = x @ ''T'' @ y \<and> CHR ''T'' \<notin> set x \<and> CHR ''T'' \<notin> set y"
proof -
  obtain y mo d where c: "civil_of_day (t div 86400000) = (y, mo, d)" by (metis prod_cases3)
  have "0 \<le> y" "y \<le> 9999" using year_range [OF assms] civil_of_day_spec(3) [OF c] by simp_all
  then have "CHR ''T'' \<notin> set (year_text y)" by (simp add: year_text_def pad_no_T)
  then show ?thesis unfolding datetime_text_eq [OF assms c]
    by (intro exI [of _ "year_text y @ ''-'' @ pad 2 (nat mo) @ ''-'' @ pad 2 (nat d)"] exI) (auto simp: pad_no_T)
qed

lemma time_shown:
  assumes "-62167219200000 \<le> t" "t < 253402300800000"
  shows "formatProbeTime (datetime_text t @ ''.123+08:00'') = map (\<lambda>c. if c = CHR ''T'' then CHR '' '' else c) (datetime_text t)"
proof -
  obtain x y where d: "datetime_text t = x @ ''T'' @ y" "CHR ''T'' \<notin> set x" "CHR ''T'' \<notin> set y"
    using datetime_text_shape [OF assms] by blast
  have "map (\<lambda>c. if c = CHR ''T'' then CHR '' '' else c) z = z" if "CHR ''T'' \<notin> set z" for z using that by (intro map_idI) auto
  then show ?thesis unfolding d(1) formatProbeTime_record [OF d(2,3)] using d(2,3) by simp
qed

section \<open>Library: running the sections\<close>

lemma ready_answered:
  "panel_live q \<Longrightarrow> hp_uuid q = JStr ''a'' \<Longrightarrow> hp_inflight q = [] \<Longrightarrow> \<not> mk_failHistory m \<Longrightarrow> sel q = t \<Longrightarrow>
   ready dp fx (answered dp fx q, noted (history_params q) m) t"
  by (simp add: ready_def calm_def sel_def)

lemma open_ready:
  assumes "\<not> mk_failHistory m"
    and w_def: "w = act (api dp fx t0 t1) (OpenHistory row_a now) (init_panel, m)"
  shows "ready dp fx w (''24'', [], [], [], [], [], JNum 0, Some (now - 86400000), Some now)"
    "hp_name (fst w) = JStr ''goai_tcpmux_pw''"
proof -
  have nm: "row_name row_a = JStr ''goai_tcpmux_pw''"
    by (simp add: row_a_def row_of_object_def tunnels_def str_prop_def Let_def name_a_def)
  have h: "hp_alive init_panel" "hp_inflight init_panel = []" by (simp_all add: init_panel_def)
  let ?q = "init_panel\<lparr>hp_name := row_name row_a, hp_uuid := row_uuid row_a, hp_range := ''24'', hp_start := [], hp_end := [],
      hp_kind := [], hp_status := [], hp_modal := True, hp_previous := [], hp_before := JNum 0, hp_next := JNum 0,
      hp_until := Some now, hp_since := Some (now - 86400000)\<rparr>"
  have w: "w = (answered dp fx ?q, noted (history_params ?q) m)"
    unfolding w_def act_def by (rule open_history(1) [OF h assms(1)])
  show "ready dp fx w (''24'', [], [], [], [], [], JNum 0, Some (now - 86400000), Some now)"
    unfolding w using assms(1) h by (intro ready_answered) (simp_all add: panel_live_def sel_def)
  show "hp_name (fst w) = JStr ''goai_tcpmux_pw''" by (simp add: w answered_def nm)
qed

lemma preset_section_passes:
  assumes "dp (ht @ ''.123+08:00'') = Some t" "formatProbeTime (ht @ ''.123+08:00'') = map (\<lambda>c. if c = CHR ''T'' then CHR '' '' else c) ht"
    and now: "\<And>i. t \<le> now i" "\<And>i. now i - 86400000 \<le> t" and "\<not> mk_failHistory m" and be: "be = api dp (historyFixture ht) t0 t1"
  shows "\<exists>w. preset_section be now ht (init_panel, m) = (True, w) \<and>
    ready dp (historyFixture ht) w (''168'', [], [], [], [], [], JNum 0, Some (now 10 - 168 * 3600000), Some (now 10))"
proof -
  let ?rd = "ready dp (historyFixture ht)"
  have tm: "t \<le> now i" "now i - 86400000 \<le> t" "now i - 604800000 \<le> t" for i using now [of i] by simp_all
  define w1 where "w1 = act be (OpenHistory row_a (now 1)) (init_panel, m)"
  define w2 where "w2 = act be NextPage w1"
  define w3 where "w3 = act be PreviousPage w2"
  define w4 where "w4 = act be (SelectKind ''route'' (now 4)) w3"
  define w5 where "w5 = act be (SelectStatus ''slow'' (now 5)) w4"
  define w6 where "w6 = act be (SelectRange ''168'' (now 6)) w5"
  define w7 where "w7 = act be (RefreshHistory (now 7)) (setFailHistory True w6)"
  define w8 where "w8 = act be RetryHistory (setFailHistory False w7)"
  define w9 where "w9 = act be (SelectStatus [] (now 9)) w8"
  define w10 where "w10 = act be (SelectKind [] (now 10)) w9"
  have r1: "?rd w1 (''24'', [], [], [], [], [], JNum 0, Some (now 1 - 86400000), Some (now 1))" "hp_name (fst w1) = JStr ''goai_tcpmux_pw''"
    by (rule open_ready [OF assms(5) w1_def [unfolded be]])+
  have a1: "snd (answer dp (historyFixture ht) (fst w1)) = 6" using ready_rows(2) [OF r1(1) _ assms(1)] tm matching_all by simp
  have r2: "?rd w2 (''24'', [], [], [], [], [JNum 0], JNum 6, Some (now 1 - 86400000), Some (now 1))"
    using turn_next [OF r1(1) current_sel(1) [OF ready_sel [OF r1(1)]] a1] unfolding w2_def be by simp
  have r3: "?rd w3 (''24'', [], [], [], [], [], JNum 0, Some (now 1 - 86400000), Some (now 1))"
    using turn_previous [of dp "historyFixture ht" w2 "''24''" "[]" "[]" "[]" "[]" "[]" 0] r2 current_sel(1) [OF ready_sel [OF r2]] unfolding w3_def be by simp
  have r4: "?rd w4 (''24'', [], [], ''route'', [], [], JNum 0, Some (now 4 - 24 * 3600000), Some (now 4))"
    unfolding w4_def be by (rule preset_events(1) [OF ready_calm [OF r3] ready_sel [OF r3] _ numbers(1)]) simp
  have r5: "?rd w5 (''24'', [], [], ''route'', ''slow'', [], JNum 0, Some (now 5 - 24 * 3600000), Some (now 5))"
    unfolding w5_def be by (rule preset_events(2) [OF ready_calm [OF r4] ready_sel [OF r4] _ numbers(1)]) simp
  have r6: "?rd w6 (''168'', [], [], ''route'', ''slow'', [], JNum 0, Some (now 6 - 168 * 3600000), Some (now 6))"
    unfolding w6_def be by (rule select_preset [OF ready_calm [OF r5] ready_sel [OF r5] _ numbers(2)]) simp
  note fr = fail_and_retry [OF ready_calm [OF r6] ready_sel [OF r6] _ numbers(2) w7_def [unfolded be], simplified]
  have r8: "?rd w8 (''168'', [], [], ''route'', ''slow'', [], JNum 0, Some (now 7 - 168 * 3600000), Some (now 7))"
    using fr(2) unfolding w8_def be by simp
  have r9: "?rd w9 (''168'', [], [], ''route'', [], [], JNum 0, Some (now 9 - 168 * 3600000), Some (now 9))"
    unfolding w9_def be by (rule preset_events(2) [OF ready_calm [OF r8] ready_sel [OF r8] _ numbers(2)]) simp
  have r10: "?rd w10 (''168'', [], [], [], [], [], JNum 0, Some (now 10 - 168 * 3600000), Some (now 10))"
    unfolding w10_def be by (rule preset_events(1) [OF ready_calm [OF r9] ready_sel [OF r9] _ numbers(2)]) simp
  have s1: "shown_rows (fst w1) = map (history_row ht) (take 50 (matching [] [] 0))" using ready_rows(1) [OF r1(1) _ assms(1)] tm by simp
  have s4: "shown_rows (fst w4) = map (history_row ht) (take 50 (matching ''route'' [] 0))" using ready_rows(1) [OF r4 _ assms(1)] tm by simp
  have s9: "shown_rows (fst w9) = map (history_row ht) (take 50 (matching ''route'' [] 0))" using ready_rows(1) [OF r9 _ assms(1)] tm by simp
  have c1: "map_option formatProbeTime (case first_shown ''time'' w1 of Some (JString v) \<Rightarrow> Some v | _ \<Rightarrow> None) =
      Some (map (\<lambda>c. if c = CHR ''T'' then CHR '' '' else c) ht)" "rows_shown w1 = 50"
    using assms(2) by (simp_all add: first_shown_def rows_shown_def s1 matching_all(1)) (subst matching_all(3), simp)
  have c2: "page_no w2 = 2" "rows_shown w2 = 5" "last_read ''before'' w2 = Some ''6''"
    using ready_view(4) [OF r2] ready_rows(1) [OF r2 _ assms(1)] tm ready_reads(4) [OF r2] by (simp_all add: rows_shown_def matching_tail numbers)
  have fs: "first_shown ''route_name'' w = Some (JString ''socks5-password'')" if "shown_rows (fst w) = map (history_row ht) (take 50 (matching ''route'' [] 0))" for w
    by (simp add: first_shown_def that) (subst matching_tail(3), simp)
  have c5: "no_records w5" "no_records w8"
    using ready_view(5) [OF r5] ready_rows(1) [OF r5 _ assms(1)] ready_view(5) [OF r8] ready_rows(1) [OF r8 _ assms(1)] by (simp_all add: matching_tail(4))
  have c6: "read_span w6 = Some (168 * 3600000)" using ready_reads(5,6) [OF r6] by (simp add: read_span_def)
  have "preset_section be now ht (init_panel, m) = (True, w10)"
    unfolding preset_section_def Let_def w1_def [symmetric] w2_def [symmetric] w3_def [symmetric] w4_def [symmetric] w5_def [symmetric]
      w6_def [symmetric] w7_def [symmetric] w8_def [symmetric] w9_def [symmetric] w10_def [symmetric]
    using r1(2) c1 c2 c5 c6 fs [OF s4] fs [OF s9] ready_reads(1) [OF r1(1)] ready_view(4) [OF r3] ready_reads(2) [OF r4]
      ready_reads(3) [OF r5] ready_view(1) [OF r6] fr(1) by simp
  then show ?thesis using r10 by blast
qed

lemma date_parse_beijingInput:
  assumes "-62167248000000 \<le> x" "x < 253402272000000"
  shows "date_parse (beijingInput x @ ''+08:00'') = Some (x - x mod 1000)"
proof -
  have "(x + 28800000) mod 1000 = x mod 1000" using mod_mult_self2 [of x 1000 28800] by simp
  then show ?thesis using date_parse_datetime(1) [of "x + 28800000"] assms by (simp add: beijingInput_def)
qed

lemma floor_second_mono: "(S :: int) mod 1000 = 0 \<Longrightarrow> S \<le> y \<Longrightarrow> S \<le> y - y mod 1000"
proof -
  assume m: "S mod 1000 = 0" and le: "S \<le> y"
  have "S div 1000 \<le> y div 1000" using le by (rule zdiv_mono1) simp
  moreover have "1000 * (S div 1000) = S" using m mult_div_mod_eq [of 1000 S] by simp
  moreover have "1000 * (y div 1000) = y - y mod 1000" by (simp add: minus_mod_eq_mult_div)
  ultimately show ?thesis by linarith
qed

lemma ready_interval:
  "ready dp fx w (rg, st, en, k, s, pr, JNum b, Some a, Some c) \<Longrightarrow> since_read w = a"
  "ready dp fx w (rg, st, en, k, s, pr, JNum b, Some a, Some c) \<Longrightarrow> until_read w = c"
  using ready_reads(5,6) by (simp_all add: since_read_def until_read_def)

lemma no_start: "date_parse ''+08:00'' = None"
  by code_simp

text \<open>The seconds around that of the records, as the script types them.\<close>

lemma second_inputs:
  assumes "(S :: int) mod 1000 = 0" "-62000000000000 \<le> S" "S \<le> 253402000000000"
  shows "date_parse (beijingInput (S - 1000) @ ''+08:00'') = Some (S - 1000)"
    and "date_parse (beijingInput (S + 999 + 1000) @ ''+08:00'') = Some (S + 1000)"
proof -
  have "(S - 1000) mod 1000 = 0" using assms(1) mod_diff_eq [of S 1000 1000] by simp
  then show "date_parse (beijingInput (S - 1000) @ ''+08:00'') = Some (S - 1000)"
    using date_parse_beijingInput [of "S - 1000"] assms by simp
  have "(S + 1999) mod 1000 = 999" using assms(1) mod_add_eq [of S 1000 1999] by simp
  then show "date_parse (beijingInput (S + 999 + 1000) @ ''+08:00'') = Some (S + 1000)"
    using date_parse_beijingInput [of "S + 1999"] assms by (simp add: add.assoc)
qed

lemma custom_first:
  assumes be: "be = api dp (historyFixture ht) t0 t1"
    and rec: "dp (ht @ ''.123+08:00'') = Some (S + 123)" "date_parse (ht @ ''+08:00'') = Some S"
    and S: "S mod 1000 = 0" "-62000000000000 \<le> S" "S \<le> n" "n \<le> 253402000000000"
    and r10: "ready dp (historyFixture ht) w10 (''168'', [], [], [], [], [], JNum 0, Some (n - 168 * 3600000), Some n)"
    and w11: "w11 = act be (SelectRange ''custom'' n11) w10" and w12: "w12 = changeStart be ht n12 w11" and w13: "w13 = changeEnd be ht n13 w12"
    and w14: "w14 = act be NextPage w13" and w15: "w15 = act be (SelectKind ''route'' n15) w14" and w16: "w16 = act be (RefreshHistory n16) w15"
  shows "hp_start (fst w11) = beijingInput (since_read w10)" "hp_end (fst w11) = beijingInput (until_read w10)"
    "rows_shown w13 = 50" "since_read w13 = S" "until_read w13 = S + 999" "rows_shown w14 = 5" "since_read w14 = S" "until_read w14 = S + 999"
    "page_no w15 = 1" "last_read ''before'' w15 = None" "since_read w15 = S" "until_read w16 = S + 999"
    "ready dp (historyFixture ht) w16 (''custom'', ht, ht, ''route'', [], [], JNum 0, Some S, Some (S + 999))"
proof -
  let ?rd = "ready dp (historyFixture ht)"
  define a b where "a = (n - 168 * 3600000) - (n - 168 * 3600000) mod 1000" and "b = n - n mod 1000"
  have ab: "date_parse (beijingInput (n - 168 * 3600000) @ ''+08:00'') = Some a" "date_parse (beijingInput n @ ''+08:00'') = Some b"
    using date_parse_beijingInput [of "n - 168 * 3600000"] date_parse_beijingInput [of n] S by (simp_all add: a_def b_def)
  have "0 \<le> (n - 168 * 3600000) mod 1000" "n mod 1000 < 1000" by simp_all
  then have le: "a \<le> b" "S \<le> b" using floor_second_mono [OF S(1,3)] by (auto simp: a_def b_def)
  have r11: "?rd w11 (''custom'', beijingInput (n - 168 * 3600000), beijingInput n, [], [], [], JNum 0, Some a, Some (b + 999))"
    unfolding w11 be by (rule select_custom_first [OF ready_calm [OF r10] ready_sel [OF r10] _ _ ab le(1)]) (use S in simp_all)
  have r12: "?rd w12 (''custom'', ht, beijingInput n, [], [], [], JNum 0, Some S, Some (b + 999))"
    unfolding w12 be by (rule change_times(1) [OF ready_calm [OF r11] ready_sel [OF r11] rec(2) ab(2) le(2)])
  have r13: "?rd w13 (''custom'', ht, ht, [], [], [], JNum 0, Some S, Some (S + 999))"
    unfolding w13 be by (rule change_times(2) [OF ready_calm [OF r12] ready_sel [OF r12] rec(2) rec(2)]) simp
  have c13: "interval_current (fst w13)" by (rule current_sel(2) [OF ready_sel [OF r13] rec(2) rec(2)]) simp
  have "snd (answer dp (historyFixture ht) (fst w13)) = 6" using ready_rows(2) [OF r13 _ rec(1)] matching_all by simp
  then have r14: "?rd w14 (''custom'', ht, ht, [], [], [JNum 0], JNum 6, Some S, Some (S + 999))"
    using turn_next [OF r13 c13, of 6] unfolding w14 be by simp
  have r15: "?rd w15 (''custom'', ht, ht, ''route'', [], [], JNum 0, Some S, Some (S + 999))"
    unfolding w15 be by (rule custom_events(1) [OF ready_calm [OF r14] ready_sel [OF r14] rec(2) rec(2)]) simp
  show r16: "?rd w16 (''custom'', ht, ht, ''route'', [], [], JNum 0, Some S, Some (S + 999))"
    unfolding w16 be by (rule custom_events(2) [OF ready_calm [OF r15] ready_sel [OF r15] rec(2) rec(2)]) simp
  show "hp_start (fst w11) = beijingInput (since_read w10)" "hp_end (fst w11) = beijingInput (until_read w10)"
    using ready_view(2,3) [OF r11] ready_interval [OF r10] by simp_all
  show "rows_shown w13 = 50" "rows_shown w14 = 5"
    using ready_rows(1) [OF r13 _ rec(1)] ready_rows(1) [OF r14 _ rec(1)] by (simp_all add: rows_shown_def matching_all(1) matching_tail(1))
  show "since_read w13 = S" "until_read w13 = S + 999" "since_read w14 = S" "until_read w14 = S + 999" "since_read w15 = S" "until_read w16 = S + 999"
    "page_no w15 = 1" "last_read ''before'' w15 = None"
    using ready_interval [OF r13] ready_interval [OF r14] ready_interval [OF r15] ready_interval [OF r16] ready_view(4) [OF r15] ready_reads(4) [OF r15] by simp_all
qed

lemma custom_second:
  assumes be: "be = api dp (historyFixture ht) t0 t1" and ht: "ht \<noteq> []"
    and rec: "dp (ht @ ''.123+08:00'') = Some (S + 123)" "date_parse (ht @ ''+08:00'') = Some S"
    and S: "S mod 1000 = 0" "-62000000000000 \<le> S" "S \<le> 253402000000000"
    and r16: "ready dp (historyFixture ht) w16 (''custom'', ht, ht, ''route'', [], [], JNum 0, Some S, Some (S + 999))"
    and w17: "w17 = changeStart be (beijingInput (S + 999 + 1000)) n17 w16" and w18: "w18 = changeStart be [] n18 w17"
    and w19: "w19 = changeStart be ht n19 w18" and w20: "w20 = changeStart be (beijingInput (S - 1000)) n20 w19"
    and w21: "w21 = changeEnd be (beijingInput (S - 1000)) n21 w20" and w22: "w22 = changeEnd be (beijingInput (S + 999 + 1000)) n22 w21"
    and w23: "w23 = changeStart be (beijingInput (S + 999 + 1000)) n23 w22" and w24: "w24 = changeStart be ht n24 w23"
    and w25: "w25 = changeEnd be ht n25 w24" and w26: "w26 = act be (SelectRange ''1'' n26) w25"
    and w27: "w27 = act be (SelectRange ''custom'' n27) w26"
  shows "error_shown StartAfterEnd w17" "error_shown IncompleteInterval w18" "snd w18 = snd w16" "no_records w21" "no_records w23"
    "hp_range (fst w26) = ''1''" "until_read w26 - since_read w26 = 3600000" "since_read w27 = S"
proof -
  let ?rd = "ready dp (historyFixture ht)"
  note d = second_inputs [OF S]
  have "custom_interval ((fst w16)\<lparr>hp_start := beijingInput (S + 999 + 1000)\<rparr>) = Inl StartAfterEnd"
    using ready_sel [OF r16] d(2) rec(2) by (simp add: custom_interval_def sel_def)
  note c17 = change_start_invalid [OF ready_calm [OF r16] ready_sel [OF r16] this, of be n17, folded w17]
  have "custom_interval ((fst w17)\<lparr>hp_start := []\<rparr>) = Inl IncompleteInterval"
    using no_start by (simp add: custom_interval_def)
  note c18 = change_start_invalid [OF c17(1,2) this, of be n18, folded w18]
  have r19: "?rd w19 (''custom'', ht, ht, ''route'', [], [], JNum 0, Some S, Some (S + 999))"
    unfolding w19 be by (rule change_times(1) [OF c18(1,2) rec(2) rec(2)]) simp
  have r20: "?rd w20 (''custom'', beijingInput (S - 1000), ht, ''route'', [], [], JNum 0, Some (S - 1000), Some (S + 999))"
    unfolding w20 be by (rule change_times(1) [OF ready_calm [OF r19] ready_sel [OF r19] d(1) rec(2)]) simp
  have r21: "?rd w21 (''custom'', beijingInput (S - 1000), beijingInput (S - 1000), ''route'', [], [], JNum 0, Some (S - 1000), Some (S - 1000 + 999))"
    unfolding w21 be by (rule change_times(2) [OF ready_calm [OF r20] ready_sel [OF r20] d(1) d(1)]) simp
  have r22: "?rd w22 (''custom'', beijingInput (S - 1000), beijingInput (S + 999 + 1000), ''route'', [], [], JNum 0, Some (S - 1000), Some (S + 1000 + 999))"
    unfolding w22 be by (rule change_times(2) [OF ready_calm [OF r21] ready_sel [OF r21] d(2) d(1)]) simp
  have r23: "?rd w23 (''custom'', beijingInput (S + 999 + 1000), beijingInput (S + 999 + 1000), ''route'', [], [], JNum 0, Some (S + 1000), Some (S + 1000 + 999))"
    unfolding w23 be by (rule change_times(1) [OF ready_calm [OF r22] ready_sel [OF r22] d(2) d(2)]) simp
  have r24: "?rd w24 (''custom'', ht, beijingInput (S + 999 + 1000), ''route'', [], [], JNum 0, Some S, Some (S + 1000 + 999))"
    unfolding w24 be by (rule change_times(1) [OF ready_calm [OF r23] ready_sel [OF r23] rec(2) d(2)]) simp
  have r25: "?rd w25 (''custom'', ht, ht, ''route'', [], [], JNum 0, Some S, Some (S + 999))"
    unfolding w25 be by (rule change_times(2) [OF ready_calm [OF r24] ready_sel [OF r24] rec(2) rec(2)]) simp
  have r26: "?rd w26 (''1'', ht, ht, ''route'', [], [], JNum 0, Some (n26 - 1 * 3600000), Some n26)"
    unfolding w26 be by (rule select_preset [OF ready_calm [OF r25] ready_sel [OF r25] _ numbers(3)]) simp
  have r27: "?rd w27 (''custom'', ht, ht, ''route'', [], [], JNum 0, Some S, Some (S + 999))"
    unfolding w27 be by (rule select_custom_again [OF ready_calm [OF r26] ready_sel [OF r26] ht rec(2) rec(2)]) simp
  show "error_shown StartAfterEnd w17" "error_shown IncompleteInterval w18" "snd w18 = snd w16" using c17(3,4) c18(3,4) by simp_all
  show "no_records w21" "no_records w23"
    using ready_view(5) [OF r21] ready_rows(1) [OF r21 _ rec(1)] ready_view(5) [OF r23] ready_rows(1) [OF r23 _ rec(1)] by simp_all
  show "hp_range (fst w26) = ''1''" "until_read w26 - since_read w26 = 3600000" "since_read w27 = S"
    using ready_view(1) [OF r26] ready_interval [OF r26] ready_interval [OF r27] by simp_all
qed

lemma custom_section_passes:
  assumes be: "be = api dp (historyFixture ht) t0 t1" and ht: "ht \<noteq> []"
    and rec: "dp (ht @ ''.123+08:00'') = Some (S + 123)" "date_parse (ht @ ''+08:00'') = Some S"
    and S: "S mod 1000 = 0" "-62000000000000 \<le> S" "S \<le> now 10" "now 10 \<le> 253402000000000"
    and r10: "ready dp (historyFixture ht) w10 (''168'', [], [], [], [], [], JNum 0, Some (now 10 - 168 * 3600000), Some (now 10))"
  shows "custom_section be now ht w10"
proof -
  define w11 where "w11 = act be (SelectRange ''custom'' (now 11)) w10"
  define w12 where "w12 = changeStart be ht (now 12) w11"
  define w13 where "w13 = changeEnd be ht (now 13) w12"
  define w14 where "w14 = act be NextPage w13"
  define w15 where "w15 = act be (SelectKind ''route'' (now 15)) w14"
  define w16 where "w16 = act be (RefreshHistory (now 16)) w15"
  note f = custom_first [OF be rec S r10 w11_def w12_def w13_def w14_def w15_def w16_def]
  have S': "S \<le> 253402000000000" using S by simp
  note g = custom_second [OF be ht rec S(1,2) S' f(13) refl refl refl refl refl refl refl refl refl refl refl]
  show ?thesis
    unfolding custom_section_def Let_def w11_def [symmetric] w12_def [symmetric] w13_def [symmetric] w14_def [symmetric] w15_def [symmetric]
      w16_def [symmetric] f(4,5)
    using f(1-3,6-12) g rec(2) by simp
qed

section \<open>Properties\<close>

text \<open>
  C29: The history section of the UI test passes whenever it is run. For every time at which the script
  may start, and every later readings of the clock within 23 hours, all its assertions hold on the
  panel and the in-memory API: fifty records and then five, the cursor, the filters, the lengths of
  the presets, the failed query and its retry, the Beijing times filled in, the one-second interval
  that holds all records, the invalid intervals that send nothing and the empty ones on either side.
  The time controls are taken to hold the texts the script fills in, as its \<open>fill\<close> checks.
\<close>

theorem history_section_passes:
  assumes "0 \<le> start" and "start \<le> 253000000000000" and "\<forall>i. start \<le> now i \<and> now i \<le> start + 23 * 3600000"
    and "\<not> mk_failHistory m"
  shows "history_section (api date_parse (historyFixture (historyTime start)) t0 t1) now (historyTime start) (init_panel, m)"
proof -
  define S where "S = (start - 300000) div 1000 * 1000"
  define ht where "ht = historyTime start"
  have m: "S mod 1000 = 0" by (simp add: S_def)
  have b: "start - 300999 \<le> S" "S \<le> start - 300000" unfolding S_def by linarith+
  have e: "ht = datetime_text (S + 28800000)" by (simp add: ht_def historyTime_def S_def)
  have r: "-62167219200000 \<le> S + 28800000" "S + 28800000 < 253402300800000" using b assms(1,2) by simp_all
  have "(S + 28800000) mod 1000 = 0" using m mod_mult_self2 [of S 1000 28800] by simp
  moreover have pad: "pad 3 (nat 123) = ''123''" by code_simp
  ultimately have p: "date_parse (ht @ ''.123+08:00'') = Some (S + 123)" "date_parse (ht @ ''+08:00'') = Some S"
    using date_parse_datetime(1) [OF r] date_parse_datetime(2) [OF r, of 123] unfolding e pad by simp_all
  have n: "S + 123 \<le> now i" "now i - 86400000 \<le> S + 123" for i using assms(3) b by (auto simp: algebra_simps dest!: spec [of _ i])
  obtain w where w: "preset_section (api date_parse (historyFixture ht) t0 t1) now ht (init_panel, m) = (True, w)"
    "ready date_parse (historyFixture ht) w (''168'', [], [], [], [], [], JNum 0, Some (now 10 - 168 * 3600000), Some (now 10))"
    using preset_section_passes [where dp = date_parse and ht = ht and now = now, OF p(1) time_shown [OF r, folded e] n assms(4) refl] by blast
  have "ht \<noteq> []" using datetime_text_shape [OF r] e by auto
  moreover have "S \<le> now 10" "now 10 \<le> 253402000000000" using assms(2) assms(3) [rule_format, of 10] b by simp_all
  ultimately show ?thesis
    using custom_section_passes [where dp = date_parse and ht = ht and now = now, OF refl _ p m _ _ _ w(2)] w(1) b assms(1) by (simp add: history_section_def ht_def)
qed

theorem history_section_passes_witness:
  "history_section (api date_parse (historyFixture (historyTime 1792231800456)) [] []) (\<lambda>i. 1792231800456 + int (min i 60))
     (historyTime 1792231800456) (init_panel, initial_mock)"
  by (rule history_section_passes) (simp_all add: initial_mock_def min_def)

end
