(* ===== verification/Tokens.thy ===== *)
theory Tokens
  imports Prelude
begin

text \<open>
  The two text encodings the login protocol of \<open>src/admin/route/auth.go\<close> puts on the wire:
  \<open>base64.RawURLEncoding\<close> (URL alphabet, no padding) for tokens and nonces, and hexadecimal for
  proofs. The locale \<open>token_codec\<close> states what a nonce of two dot-separated parts relies on; the
  base64 functions are its instance.
\<close>

section \<open>Base64 without padding\<close>

definition b64_char :: "nat \<Rightarrow> char" where
  "b64_char n =
     char_of (if n < 26 then n + 65 else if n < 52 then n + 71 else if n < 62 then n - 4
              else if n = 62 then 45 else 95)"

definition b64_value :: "char \<Rightarrow> nat option" where
  "b64_value c =
     (let n = (of_char c :: nat) in
      if 65 \<le> n \<and> n \<le> 90 then Some (n - 65)
      else if 97 \<le> n \<and> n \<le> 122 then Some (n - 71)
      else if 48 \<le> n \<and> n \<le> 57 then Some (n + 4)
      else if n = 45 then Some 62 else if n = 95 then Some 63 else None)"

text \<open>\<open>EncodeToString\<close>: three bytes give four characters, a rest of one or two bytes gives two or three.\<close>

fun b64_encode :: "byte list \<Rightarrow> string" where
  "b64_encode [] = []"
| "b64_encode [a] = [b64_char (unat a div 4), b64_char (unat a mod 4 * 16)]"
| "b64_encode [a, b] =
     [b64_char (unat a div 4), b64_char (unat a mod 4 * 16 + unat b div 16), b64_char (unat b mod 16 * 4)]"
| "b64_encode (a # b # c # r) =
     [b64_char (unat a div 4), b64_char (unat a mod 4 * 16 + unat b div 16),
      b64_char (unat b mod 16 * 4 + unat c div 64), b64_char (unat c mod 64)] @ b64_encode r"

text \<open>\<open>DecodeString\<close> skips line ends, refuses other foreign characters and a rest of one character,
  and ignores the unused low bits of the last character.\<close>

fun b64_groups :: "nat list \<Rightarrow> byte list option" where
  "b64_groups [] = Some []"
| "b64_groups [a] = None"
| "b64_groups [a, b] = Some [word_of_nat (a * 4 + b div 16)]"
| "b64_groups [a, b, c] = Some [word_of_nat (a * 4 + b div 16), word_of_nat (b mod 16 * 16 + c div 4)]"
| "b64_groups (a # b # c # d # r) =
     (case b64_groups r of
        None \<Rightarrow> None
      | Some bs \<Rightarrow>
          Some (word_of_nat (a * 4 + b div 16) # word_of_nat (b mod 16 * 16 + c div 4)
                # word_of_nat (c mod 4 * 64 + d) # bs))"

definition b64_decode :: "string \<Rightarrow> byte list option" where
  "b64_decode s =
     (case those (map b64_value (filter (\<lambda>c. of_char c \<noteq> (10 :: nat) \<and> of_char c \<noteq> (13 :: nat)) s)) of
        None \<Rightarrow> None
      | Some vs \<Rightarrow> b64_groups vs)"

section \<open>Hexadecimal\<close>

definition hex_value :: "char \<Rightarrow> nat option" where
  "hex_value c =
     (let n = (of_char c :: nat) in
      if 48 \<le> n \<and> n \<le> 57 then Some (n - 48)
      else if 97 \<le> n \<and> n \<le> 102 then Some (n - 87)
      else if 65 \<le> n \<and> n \<le> 70 then Some (n - 55) else None)"

definition hex_char :: "nat \<Rightarrow> char" where
  "hex_char n = char_of (if n < 10 then n + 48 else n + 87)"

fun hex_encode :: "byte list \<Rightarrow> string" where
  "hex_encode [] = []"
| "hex_encode (b # bs) = hex_char (unat b div 16) # hex_char (unat b mod 16) # hex_encode bs"

fun hex_decode :: "string \<Rightarrow> byte list option" where
  "hex_decode [] = Some []"
| "hex_decode [c] = None"
| "hex_decode (c # d # r) =
     (case (hex_value c, hex_value d, hex_decode r) of
        (Some x, Some y, Some bs) \<Rightarrow> Some (word_of_nat (x * 16 + y) # bs)
      | _ \<Rightarrow> None)"

section \<open>Round trips\<close>

lemma b64_value_char [simp]: "n < 64 \<Longrightarrow> b64_value (b64_char n) = Some n"
  by (auto simp: b64_value_def b64_char_def Let_def)

lemma b64_char_range:
  "n < 64 \<Longrightarrow> of_char (b64_char n) \<notin> {10, 13, 32, 46 :: nat} \<and> of_char (b64_char n) \<notin> {9, 11, 12 :: nat}"
  by (auto simp: b64_char_def)

lemma byte_parts:
  "unat (b :: byte) div 4 < 64" "unat b div 16 < 16" "unat b div 64 < 4"
  using unat_byte_lt [of b] by auto

lemma word_of_nat_unat_byte:
  "n = unat (b :: byte) \<Longrightarrow> word_of_nat n = b"
  by simp

definition b64_values :: "byte list \<Rightarrow> nat list" where
  "b64_values bs = map (\<lambda>c. the (b64_value c)) (b64_encode bs)"

lemma digit_bounds: "y < 16 \<Longrightarrow> x mod 4 * 16 + y < (64 :: nat)" "z < 4 \<Longrightarrow> x mod 16 * 4 + z < (64 :: nat)"
proof -
  have "x mod 4 \<le> 3" "x mod 16 \<le> 15" by simp_all
  then show "y < 16 \<Longrightarrow> x mod 4 * 16 + y < 64" "z < 4 \<Longrightarrow> x mod 16 * 4 + z < 64" by linarith+
qed

lemma b64_digits:
  "unat (a :: byte) mod 4 * 16 < 64" "unat (b :: byte) mod 16 * 4 < 64"
  "unat a mod 4 * 16 + unat b div 16 < 64" "unat b mod 16 * 4 + unat (c :: byte) div 64 < 64"
  using digit_bounds(1) [of 0 "unat a"] digit_bounds(2) [of 0 "unat b"]
    digit_bounds(1) [OF byte_parts(2) [of b], of "unat a"] digit_bounds(2) [OF byte_parts(3) [of c], of "unat b"]
  by (simp_all only: add_0_right zero_less_numeral simp_thms)

lemma b64_encode_chars: "set (b64_encode bs) \<subseteq> b64_char ` {..<64}"
proof (induction bs rule: b64_encode.induct)
  case (2 a)
  show ?case using byte_parts(1) [of a] b64_digits(1) [of a] unfolding b64_encode.simps set_simps by blast
next
  case (3 a b)
  show ?case using byte_parts(1) [of a] b64_digits(2) [of b] b64_digits(3) [of a b]
    unfolding b64_encode.simps set_simps by blast
next
  case (4 a b c r)
  have "unat c mod 64 < 64" by simp
  then show ?case using 4 byte_parts(1) [of a] b64_digits(3) [of a b] b64_digits(4) [of b c]
    unfolding b64_encode.simps set_simps set_append by blast
qed simp

lemma those_values: "\<forall>c \<in> set s. b64_value c \<noteq> None \<Longrightarrow> those (map b64_value s) = Some (map (\<lambda>c. the (b64_value c)) s)"
  by (induction s) auto

lemma join_byte:
  "w div 16 < 16 \<Longrightarrow> unat (a :: byte) div 4 * 4 + (unat a mod 4 * 16 + w div 16) div 16 = unat a"
  "z < 4 \<Longrightarrow> v < 16 \<Longrightarrow> v = unat b div 16 \<Longrightarrow>
   (u * 16 + v) mod 16 * 16 + (unat (b :: byte) mod 16 * 4 + z) div 4 = unat b"
  "z = unat (c :: byte) div 64 \<Longrightarrow> z < 4 \<Longrightarrow> (u * 4 + z) mod 4 * 64 + unat c mod 64 = unat c"
  by simp_all

lemma b64_groups_values: "b64_groups (b64_values bs) = Some bs"
proof (induction bs rule: b64_encode.induct)
  case 1
  show ?case by (simp add: b64_values_def)
next
  case (2 a)
  define x y where "x = unat a div 4" and "y = unat a mod 4 * 16"
  have "y < 64" "x * 4 + y div 16 = unat a" unfolding x_def y_def by simp_all
  moreover have "x < 64" using byte_parts(1) [of a] by (simp add: x_def)
  ultimately show ?case by (simp add: b64_values_def flip: x_def y_def)
next
  case (3 a b)
  define x y z where "x = unat a div 4" and "y = unat a mod 4 * 16 + unat b div 16" and "z = unat b mod 16 * 4"
  have "y < 64" "z < 64" "x < 64"
    unfolding x_def y_def z_def by (rule b64_digits byte_parts)+
  moreover have "x * 4 + y div 16 = unat a" "y mod 16 * 16 + z div 4 = unat b"
    using byte_parts [of b] join_byte(1) [of "unat b" a] join_byte(2) [of 0 "unat b div 16" b "unat a mod 4"]
    unfolding x_def y_def z_def by simp_all
  ultimately show ?case by (simp add: b64_values_def flip: x_def y_def z_def)
next
  case (4 a b c r)
  define x y z t where "x = unat a div 4" and "y = unat a mod 4 * 16 + unat b div 16"
    and "z = unat b mod 16 * 4 + unat c div 64" and "t = unat c mod 64"
  have "y < 64" "z < 64" "x < 64" "t < 64"
    unfolding x_def y_def z_def t_def by (rule b64_digits byte_parts mod_less_divisor zero_less_numeral)+
  moreover have "x * 4 + y div 16 = unat a" "y mod 16 * 16 + z div 4 = unat b" "z mod 4 * 64 + t = unat c"
    using byte_parts [of b] byte_parts [of c] join_byte(1) [of "unat b" a]
      join_byte(2) [of "unat c div 64" "unat b div 16" b "unat a mod 4"]
      join_byte(3) [of "unat c div 64" c "unat b mod 16"]
    unfolding x_def y_def z_def t_def by (simp_all only: refl)
  ultimately show ?case using 4 by (simp add: b64_values_def flip: x_def y_def z_def t_def)
qed

lemma b64_roundtrip: "b64_decode (b64_encode bs) = Some bs"
proof -
  have "filter (\<lambda>c. of_char c \<noteq> (10 :: nat) \<and> of_char c \<noteq> (13 :: nat)) (b64_encode bs) = b64_encode bs"
    by (rule filter_True) (use b64_encode_chars [of bs] b64_char_range in blast)
  moreover have "\<forall>c \<in> set (b64_encode bs). b64_value c \<noteq> None"
    using b64_encode_chars [of bs] by fastforce
  ultimately show ?thesis
    using b64_groups_values [of bs] by (simp add: b64_decode_def those_values b64_values_def)
qed

lemma b64_no_dot: "CHR ''.'' \<notin> set (b64_encode bs)"
proof
  assume "CHR ''.'' \<in> set (b64_encode bs)"
  then obtain n where n: "n < 64" "CHR ''.'' = b64_char n" using b64_encode_chars [of bs] by blast
  have "of_char (CHR ''.'') = (46 :: nat)" by simp
  then show False using b64_char_range [OF n(1)] n(2) by simp
qed

lemma b64_no_space: "c \<in> set (b64_encode bs) \<Longrightarrow> \<not> is_space c"
  using b64_encode_chars [of bs] b64_char_range unfolding is_space_def by blast

lemma hex_value_char [simp]: "n < 16 \<Longrightarrow> hex_value (hex_char n) = Some n"
  by (auto simp: hex_value_def hex_char_def Let_def)

lemma hex_char_plain: "n < 16 \<Longrightarrow> lower_char (hex_char n) = hex_char n \<and> \<not> is_space (hex_char n)"
  by (auto simp: lower_char_def hex_char_def is_space_def Let_def)

lemma hex_roundtrip: "hex_decode (hex_encode bs) = Some bs"
proof (induction bs)
  case (Cons b bs)
  have "unat b div 16 < 16" "unat b mod 16 < 16" using unat_byte_lt [of b] by auto
  then show ?case using Cons by simp
qed simp

lemma hex_encode_plain: "c \<in> set (hex_encode bs) \<Longrightarrow> lower_char c = c \<and> \<not> is_space c"
proof (induction bs)
  case (Cons b bs)
  have "unat b div 16 < 16" "unat b mod 16 < 16" using unat_byte_lt [of b] by auto
  then show ?case using Cons hex_char_plain by auto
qed simp

lemma trim_plain: "\<forall>c \<in> set s. \<not> is_space c \<Longrightarrow> trim s = s"
proof -
  assume a: "\<forall>c \<in> set s. \<not> is_space c"
  then have "dropWhile is_space s = s" by (cases s) auto
  moreover have "dropWhile is_space (rev s) = rev s" using a by (cases "rev s") (auto dest: arg_cong [of _ _ set])
  ultimately show ?thesis by (simp add: trim_def)
qed

lemma trim_lower_hex: "trim (lower (hex_encode bs)) = hex_encode bs"
proof -
  have "lower (hex_encode bs) = hex_encode bs"
    unfolding lower_def by (rule map_idI) (use hex_encode_plain [of _ bs] in blast)
  then show ?thesis using trim_plain [of "hex_encode bs"] hex_encode_plain [of _ bs] by simp
qed

section \<open>What a two-part token relies on\<close>

locale token_codec =
  fixes enc :: "byte list \<Rightarrow> string" and dec :: "string \<Rightarrow> byte list option"
  assumes decode_encode: "dec (enc bs) = Some bs"
    and no_separator: "CHR ''.'' \<notin> set (enc bs)"
    and no_blank: "c \<in> set (enc bs) \<Longrightarrow> \<not> is_space c"
begin

lemma parts_of_token: "split_on CHR ''.'' (enc a @ ''.'' @ enc b) = [enc a, enc b]"
  using no_separator by (simp add: split_on_two)

lemma token_plain: "trim (enc a @ ''.'' @ enc b) = enc a @ ''.'' @ enc b"
  by (rule trim_plain) (auto dest: no_blank simp: is_space_def)

lemma enc_inject: "enc a = enc b \<longleftrightarrow> a = b"
  using decode_encode by (metis option.inject)

lemma token_inject: "enc a @ ''.'' @ enc b = enc c @ ''.'' @ enc d \<longleftrightarrow> a = c \<and> b = d"
proof
  assume "enc a @ ''.'' @ enc b = enc c @ ''.'' @ enc d"
  then have "[enc a, enc b] = [enc c, enc d]" using parts_of_token [of a b] parts_of_token [of c d] by metis
  then show "a = c \<and> b = d" by (simp add: enc_inject)
qed simp

end

interpretation b64: token_codec b64_encode b64_decode
  by unfold_locales (auto simp: b64_roundtrip b64_no_dot dest: b64_no_space)

end
