(* ===== verification/Endpoint.thy ===== *)
theory Endpoint
  imports AdminUi
begin

text \<open>
  Endpoints and modes as the tunnel core reads them: \<open>src/tun/enum.go\<close> (protocols),
  \<open>src/tun/parse.go\<close> (\<open>parseProtocol\<close>, \<open>parseExtend\<close>), \<open>src/pkg/crypto/enum.go\<close> (\<open>ToMode\<close>), the
  \<open>Config\<close> and \<open>Extend\<close> records of \<open>src/tun/config.go\<close>, and the two functions of Go's package
  \<open>net\<close> they are used with, \<open>SplitHostPort\<close> and \<open>JoinHostPort\<close>. The JSON decoder is a parameter.
\<close>

section \<open>Protocols\<close>

datatype protocol = TCP | TcpMux | QUIC | KCP | KcpMux | KCPX | KCPXMux | UDP | Socks5X

datatype parse_error = InvalidListenProtocol | UnknownProtocol

fun protocol_String :: "protocol \<Rightarrow> string" where
  "protocol_String TCP = ''tcp''"
| "protocol_String TcpMux = ''tcp_mux''"
| "protocol_String QUIC = ''quic''"
| "protocol_String KCP = ''kcp''"
| "protocol_String KcpMux = ''kcp_mux''"
| "protocol_String KCPX = ''kcpx''"
| "protocol_String KCPXMux = ''kcpx_mux''"
| "protocol_String UDP = ''udp''"
| "protocol_String Socks5X = ''socks5x''"

definition toProtocol :: "string \<Rightarrow> parse_error + protocol" where
  "toProtocol s =
     (if s = ''tcp'' then Inr TCP
      else if s = ''tcp_mux'' \<or> s = ''tcpmux'' then Inr TcpMux
      else if s = ''quic'' then Inr QUIC
      else if s = ''kcp'' then Inr KCP
      else if s = ''kcp_mux'' \<or> s = ''kcpmux'' then Inr KcpMux
      else if s = ''kcpx'' then Inr KCPX
      else if s = ''kcpx_mux'' then Inr KCPXMux
      else if s = ''udp'' then Inr UDP
      else if s = ''socks5x'' then Inr Socks5X
      else Inl UnknownProtocol)"

definition parseProtocol :: "string \<Rightarrow> parse_error + protocol \<times> string" where
  "parseProtocol s =
     (let ss = split_on CHR ''@'' s in
      if length ss \<noteq> 2 then Inl InvalidListenProtocol
      else (case toProtocol (ss ! 0) of
              Inl e \<Rightarrow> Inl e
            | Inr proto \<Rightarrow> Inr (proto, ss ! 1)))"

section \<open>Extension records and cipher modes\<close>

record extend =
  MuxConn :: int
  AutoExpire :: int
  FrameHeaderEnable :: bool
  ProbeIntervalSec :: int
  ProbeTimeoutMS :: int
  ProbeWindowSize :: int

definition extend_zero :: extend where
  "extend_zero = \<lparr>MuxConn = 0, AutoExpire = 0, FrameHeaderEnable = False, ProbeIntervalSec = 0,
     ProbeTimeoutMS = 0, ProbeWindowSize = 0\<rparr>"

text \<open>\<open>parseExtend\<close>: a decoding error is swallowed and the zero record returned; no error is ever returned.\<close>

definition parseExtend :: "(string \<Rightarrow> extend option) \<Rightarrow> string \<Rightarrow> parse_error + extend" where
  "parseExtend unmarshal s = (case unmarshal s of None \<Rightarrow> Inr extend_zero | Some e \<Rightarrow> Inr e)"

record config =
  UUID :: string
  Name :: string
  Disabled :: bool
  Mode :: string
  Input :: string
  InProtoCfg :: string
  InDecryptMode :: string
  InDecryptKey :: string
  InExtend :: string
  Output :: string
  OutProtoCfg :: string
  OutCryptMode :: string
  OutCryptKey :: string
  OutExtend :: string
  CreatedAt :: int

datatype cipher_mode = ModeNone | ModeGCM

definition ToMode :: "string \<Rightarrow> unit + cipher_mode" where
  "ToMode s =
     (if s = [] \<or> s = ''none'' \<or> s = ''NONE'' then Inr ModeNone
      else if s = ''gcm'' \<or> s = ''GCM'' then Inr ModeGCM
      else Inl ())"

section \<open>Host and port\<close>

fun first_index :: "'a \<Rightarrow> 'a list \<Rightarrow> nat option" where
  "first_index c [] = None"
| "first_index c (x # xs) = (if x = c then Some 0 else map_option Suc (first_index c xs))"

fun last_index :: "'a \<Rightarrow> 'a list \<Rightarrow> nat option" where
  "last_index c [] = None"
| "last_index c (x # xs) =
     (case last_index c xs of Some i \<Rightarrow> Some (Suc i) | None \<Rightarrow> if x = c then Some 0 else None)"

datatype addr_error = MissingPort | TooManyColons | MissingBracket | UnexpectedOpen | UnexpectedClose

text \<open>\<open>net.SplitHostPort\<close>: the port follows the last colon; a bracketed host ends just before it.\<close>

definition SplitHostPort :: "string \<Rightarrow> addr_error + string \<times> string" where
  "SplitHostPort hp =
     (case last_index CHR '':'' hp of
        None \<Rightarrow> Inl MissingPort
      | Some i \<Rightarrow>
          let port = drop (Suc i) hp in
          if hp ! 0 = CHR ''['' then
            (case first_index CHR '']'' hp of
               None \<Rightarrow> Inl MissingBracket
             | Some e \<Rightarrow>
                 if e + 1 = length hp then Inl MissingPort
                 else if e + 1 \<noteq> i then
                   (if hp ! (e + 1) = CHR '':'' then Inl TooManyColons else Inl MissingPort)
                 else if CHR ''['' \<in> set (drop 1 hp) then Inl UnexpectedOpen
                 else if CHR '']'' \<in> set (drop (e + 1) hp) then Inl UnexpectedClose
                 else Inr (drop 1 (take e hp), port))
          else
            let host = take i hp in
            if CHR '':'' \<in> set host then Inl TooManyColons
            else if CHR ''['' \<in> set hp then Inl UnexpectedOpen
            else if CHR '']'' \<in> set hp then Inl UnexpectedClose
            else Inr (host, port))"

definition JoinHostPort :: "string \<Rightarrow> string \<Rightarrow> string" where
  "JoinHostPort host port =
     (if CHR '':'' \<in> set host then ''['' @ host @ '']:'' @ port else host @ '':'' @ port)"

section \<open>Library\<close>

lemma toProtocol_String [simp]: "toProtocol (protocol_String p) = Inr p"
  by (cases p) (simp_all add: toProtocol_def)

lemma protocol_String_at: "CHR ''@'' \<notin> set (protocol_String p)"
  by (cases p) auto

lemma parseProtocol_Inr:
  "parseProtocol s = Inr (p, a) \<longleftrightarrow>
   (\<exists>t. s = t @ CHR ''@'' # a \<and> CHR ''@'' \<notin> set t \<and> CHR ''@'' \<notin> set a \<and> toProtocol t = Inr p)"
proof
  assume "parseProtocol s = Inr (p, a)"
  then obtain t where t: "toProtocol t = Inr p" "split_on CHR ''@'' s = [t, a]"
    by (auto simp: parseProtocol_def Let_def length_Suc_conv numeral_2_eq_2 split: sum.splits if_splits)
  then show "\<exists>t. s = t @ CHR ''@'' # a \<and> CHR ''@'' \<notin> set t \<and> CHR ''@'' \<notin> set a \<and> toProtocol t = Inr p"
    using split_on_two [of "CHR ''@''" s t a] by blast
next
  assume "\<exists>t. s = t @ CHR ''@'' # a \<and> CHR ''@'' \<notin> set t \<and> CHR ''@'' \<notin> set a \<and> toProtocol t = Inr p"
  then obtain t where "split_on CHR ''@'' s = [t, a]" "toProtocol t = Inr p"
    using split_on_two [of "CHR ''@''" s] by blast
  then show "parseProtocol s = Inr (p, a)" by (simp add: parseProtocol_def)
qed

lemma normalizeProto_names:
  "normalizeProto ''tcp'' = ''tcp''"
  "normalizeProto ''tcp_mux'' = ''tcp_mux''"
  "normalizeProto ''tcpmux'' = ''tcp_mux''"
  "normalizeProto ''quic'' = ''quic''"
  "normalizeProto ''kcp'' = ''kcp''"
  "normalizeProto ''kcp_mux'' = ''kcp_mux''"
  "normalizeProto ''kcpmux'' = ''kcp_mux''"
  "normalizeProto ''kcpx'' = ''kcpx''"
  "normalizeProto ''kcpx_mux'' = ''kcpx_mux''"
  "normalizeProto ''udp'' = ''udp''"
  "normalizeProto ''socks5x'' = ''socks5x''"
  by code_simp+

lemma toProtocol_names:
  "toProtocol ''tcp'' = Inr TCP"
  "toProtocol ''tcp_mux'' = Inr TcpMux"
  "toProtocol ''tcpmux'' = Inr TcpMux"
  "toProtocol ''quic'' = Inr QUIC"
  "toProtocol ''kcp'' = Inr KCP"
  "toProtocol ''kcp_mux'' = Inr KcpMux"
  "toProtocol ''kcpmux'' = Inr KcpMux"
  "toProtocol ''kcpx'' = Inr KCPX"
  "toProtocol ''kcpx_mux'' = Inr KCPXMux"
  "toProtocol ''udp'' = Inr UDP"
  "toProtocol ''socks5x'' = Inr Socks5X"
  by code_simp+

lemma toProtocol_cases:
  assumes "toProtocol t = Inr p"
  obtains "t = ''tcp''" | "t = ''tcp_mux''" | "t = ''tcpmux''" | "t = ''quic''" | "t = ''kcp''" | "t = ''kcp_mux''" | "t = ''kcpmux''" | "t = ''kcpx''" | "t = ''kcpx_mux''" | "t = ''udp''" | "t = ''socks5x''"
proof -
  assume neq: "t = ''tcp'' \<Longrightarrow> thesis" "t = ''tcp_mux'' \<Longrightarrow> thesis" "t = ''tcpmux'' \<Longrightarrow> thesis" "t = ''quic'' \<Longrightarrow> thesis" "t = ''kcp'' \<Longrightarrow> thesis" "t = ''kcp_mux'' \<Longrightarrow> thesis" "t = ''kcpmux'' \<Longrightarrow> thesis" "t = ''kcpx'' \<Longrightarrow> thesis" "t = ''kcpx_mux'' \<Longrightarrow> thesis" "t = ''udp'' \<Longrightarrow> thesis" "t = ''socks5x'' \<Longrightarrow> thesis"
  show thesis
  proof (rule ccontr)
    assume "\<not> thesis"
    then have "toProtocol t = Inl UnknownProtocol" unfolding toProtocol_def using neq by presburger
    with assms show False by simp
  qed
qed

lemma normalizeProto_toProtocol:
  assumes "toProtocol t = Inr p"
  shows "normalizeProto t = protocol_String p"
  by (rule toProtocol_cases [OF assms])
    (use assms in \<open>auto simp: toProtocol_names normalizeProto_names\<close>)

lemma first_index_None [simp]: "first_index c xs = None \<longleftrightarrow> c \<notin> set xs"
  by (induction xs) auto

lemma last_index_None [simp]: "last_index c xs = None \<longleftrightarrow> c \<notin> set xs"
  by (induction xs) (auto split: option.splits if_splits)

lemma first_index_append: "c \<notin> set xs \<Longrightarrow> first_index c (xs @ c # ys) = Some (length xs)"
  by (induction xs) auto

lemma last_index_append: "c \<notin> set ys \<Longrightarrow> last_index c (xs @ c # ys) = Some (length xs)"
  by (induction xs) (auto split: option.splits)

lemma SplitHostPort_JoinHostPort:
  assumes "CHR '':'' \<notin> set port"
    and "CHR ''['' \<notin> set host" "CHR '']'' \<notin> set host" "CHR ''['' \<notin> set port" "CHR '']'' \<notin> set port"
  shows "SplitHostPort (JoinHostPort host port) = Inr (host, port)"
proof (cases "CHR '':'' \<in> set host")
  case True
  let ?s = "''['' @ host @ '']:'' @ port"
  have "last_index CHR '':'' ?s = Some (length host + 2)"
    using last_index_append [OF assms(1), of "''['' @ host @ '']''"] by simp
  moreover have "first_index CHR '']'' ?s = Some (length host + 1)"
    using first_index_append [of "CHR '']''" "''['' @ host" "'':'' @ port"] assms by simp
  ultimately show ?thesis using True assms
    by (simp add: JoinHostPort_def SplitHostPort_def)
next
  case False
  have "last_index CHR '':'' (host @ '':'' @ port) = Some (length host)"
    using last_index_append [OF assms(1), of host] by simp
  moreover have "(host @ '':'' @ port) ! 0 \<noteq> CHR ''[''"
    using assms by (cases host) auto
  ultimately show ?thesis using False assms
    by (simp add: JoinHostPort_def SplitHostPort_def Let_def)
qed

section \<open>Properties\<close>

text \<open>
  Printing a protocol and an address and parsing the result gives both back, for every
  protocol, and parsing accepts nothing but one protocol name, one \<open>@\<close> and an address without
  \<open>@\<close>.
\<close>

theorem parseProtocol_roundtrip:
  "(CHR ''@'' \<notin> set a \<longrightarrow> parseProtocol (protocol_String p @ ''@'' @ a) = Inr (p, a)) \<and>
   (parseProtocol s = Inr (p, a) \<longrightarrow>
      (\<exists>t. s = t @ ''@'' @ a \<and> toProtocol t = Inr p \<and> CHR ''@'' \<notin> set t \<and> CHR ''@'' \<notin> set a))"
  using protocol_String_at by (auto simp: parseProtocol_Inr)

theorem parseProtocol_roundtrip_witness:
  "parseProtocol ''tcp_mux@44.55.66.77:7779'' = Inr (TcpMux, ''44.55.66.77:7779'')"
  using parseProtocol_roundtrip [of "''44.55.66.77:7779''" TcpMux] by simp

text \<open>
  C23: The page and the core read an endpoint the same way: when the core accepts it, the page
  splits it into the canonical name of the same protocol and the same address.
\<close>

theorem splitEndpoint_agrees_with_core:
  assumes "parseProtocol s = Inr (p, a)"
  shows "splitEndpoint s fb = (protocol_String p, a)"
proof -
  obtain t where "s = t @ CHR ''@'' # a" "CHR ''@'' \<notin> set t" "toProtocol t = Inr p"
    using assms unfolding parseProtocol_Inr by blast
  then show ?thesis using splitEndpoint_at normalizeProto_toProtocol by metis
qed

theorem splitEndpoint_agrees_with_core_witness:
  "splitEndpoint ''kcpmux@1.2.3.4:5'' ''tcp'' = (''kcp_mux'', ''1.2.3.4:5'')"
proof -
  have "parseProtocol ''kcpmux@1.2.3.4:5'' = Inr (KcpMux, ''1.2.3.4:5'')" by code_simp
  from splitEndpoint_agrees_with_core [OF this] show ?thesis by simp
qed

end
