(* ===== verification/Auth.thy ===== *)
theory Auth
  imports Tokens Endpoint
begin

text \<open>
  The login manager of the admin server, \<open>src/admin/route/auth.go\<close>: challenges, sessions, the
  persisted state file, the brute-force counter with its reset timers, and the HTTP handlers.

  \<open>auth_lib\<close> carries the functions of the standard library whose inner working the manager does not
  depend on: SHA-256, HMAC-SHA-256 and the JSON coders of its four documents. Every theorem holds for
  all of them; the round trips a theorem needs are its hypotheses. A request brings along the clock
  readings, the random bytes and the outcome of each file operation it meets, in \<open>auth_call\<close>.
\<close>

section \<open>State\<close>

definition resetDuration :: int where "resetDuration = 3600"
definition authChallengeTTL :: int where "authChallengeTTL = 120"
definition authSessionTTL :: int where "authSessionTTL = 86400"
definition authRealm :: string where "authRealm = ''gotun''"
definition authAlgorithm :: string where "authAlgorithm = ''HMAC-SHA256''"

record auth_challenge =
  ch_id :: string
  ch_username :: string
  ch_expires :: int

record auth_session =
  se_id :: string
  se_username :: string
  se_issued :: int
  se_expires :: int
  se_last_seen :: int

record auth_state =
  st_auth_key :: string
  st_sessions :: "(string \<rightharpoonup> auth_session option) option"

record signed_challenge =
  sc_id :: string
  sc_username :: string
  sc_issued :: int
  sc_expires :: int
  sc_random :: string

record auth_login_request =
  rq_username :: string
  rq_nonce :: string
  rq_proof :: string

record auth_lib =
  lib_sha256 :: "byte list \<Rightarrow> byte list"
  lib_hmac :: "byte list \<Rightarrow> byte list \<Rightarrow> byte list"
  lib_challenge_json :: "signed_challenge \<Rightarrow> byte list"
  lib_parse_challenge :: "byte list \<Rightarrow> signed_challenge option"
  lib_state_json :: "auth_state \<Rightarrow> byte list"
  lib_parse_state :: "byte list \<Rightarrow> auth_state option"
  lib_parse_user :: "byte list \<Rightarrow> string option"
  lib_parse_login :: "byte list \<Rightarrow> auth_login_request option"

text \<open>The state file: missing, present but unreadable, or readable with some content.\<close>

datatype state_file = NoFile | Unreadable | Content "byte list"

record auth_manager =
  failedAttempts :: "string \<rightharpoonup> int"
  resetTimers :: "string \<rightharpoonup> int"
  am_username :: string
  am_password :: string
  am_realm :: string
  authEnabled :: bool
  maxFailedAttempts :: int
  state_dir :: string
  authKey :: "byte list"
  challenges :: "string \<rightharpoonup> auth_challenge"
  sessions :: "string \<rightharpoonup> auth_session"
  state_disk :: state_file

text \<open>The outcome of each file operation of a save.\<close>

record file_io =
  mkdir_ok :: bool
  create_ok :: bool
  write_ok :: bool
  close_ok :: bool
  rename_ok :: bool

record auth_call =
  at_check :: int
  at_session :: int
  at_timer :: int
  rand_key :: "byte list"
  rand_id :: "byte list"
  rand_extra :: "byte list"
  call_io :: file_io

section \<open>Signatures\<close>

definition signWithKey :: "auth_lib \<Rightarrow> byte list \<Rightarrow> byte list \<Rightarrow> byte list" where
  "signWithKey L key data = lib_hmac L key data"

definition deriveUserKey :: "auth_lib \<Rightarrow> string \<Rightarrow> string \<Rightarrow> string \<Rightarrow> byte list" where
  "deriveUserKey L username realm password =
     lib_sha256 L (string_bytes (username @ '':'' @ realm @ '':'' @ password))"

definition signProof :: "auth_lib \<Rightarrow> byte list \<Rightarrow> string \<Rightarrow> byte list" where
  "signProof L userKey nonce = lib_hmac L userKey (string_bytes nonce)"

section \<open>Expiry and persistence\<close>

text \<open>\<open>pruneExpiredSessionsLocked\<close> and \<open>pruneExpiredChallengesLocked\<close>: a nil entry (which only a state
  file can hold) and an entry whose expiry has been reached are deleted.\<close>

definition pruneExpired :: "('a \<Rightarrow> int) \<Rightarrow> int \<Rightarrow> (string \<rightharpoonup> 'a option) \<Rightarrow> (string \<rightharpoonup> 'a)" where
  "pruneExpired expires now m =
     (\<lambda>k. case m k of Some (Some x) \<Rightarrow> if expires x \<le> now then None else Some x | _ \<Rightarrow> None)"

definition non_nil :: "(string \<rightharpoonup> 'a) \<Rightarrow> (string \<rightharpoonup> 'a option)" where
  "non_nil m = (\<lambda>k. map_option Some (m k))"

definition pruneExpiredSessionsLocked :: "int \<Rightarrow> auth_manager \<Rightarrow> auth_manager" where
  "pruneExpiredSessionsLocked now a = a\<lparr>sessions := pruneExpired se_expires now (non_nil (sessions a))\<rparr>"

definition pruneExpiredChallengesLocked :: "int \<Rightarrow> auth_manager \<Rightarrow> auth_manager" where
  "pruneExpiredChallengesLocked now a = a\<lparr>challenges := pruneExpired ch_expires now (non_nil (challenges a))\<rparr>"

text \<open>\<open>saveStateLocked\<close> writes a temporary file and renames it over the state file, so every failing
  step leaves the old file. It returns whether it succeeded.\<close>

definition saveStateLocked :: "auth_lib \<Rightarrow> file_io \<Rightarrow> auth_manager \<Rightarrow> bool \<times> auth_manager" where
  "saveStateLocked L f a =
     (let data = lib_state_json L \<lparr>st_auth_key = b64_encode (authKey a), st_sessions = Some (non_nil (sessions a))\<rparr> in
      if state_dir a \<noteq> '''' \<and> state_dir a \<noteq> ''.'' \<and> \<not> mkdir_ok f then (False, a)
      else if \<not> create_ok f then (False, a)
      else if \<not> write_ok f then (False, a)
      else if \<not> close_ok f then (False, a)
      else if \<not> rename_ok f then (False, a)
      else (True, a\<lparr>state_disk := Content data\<rparr>))"

definition fresh_state :: "byte list \<Rightarrow> auth_manager \<Rightarrow> auth_manager" where
  "fresh_state key a = a\<lparr>authKey := key, challenges := Map.empty, sessions := Map.empty\<rparr>"

definition loadState :: "auth_lib \<Rightarrow> auth_call \<Rightarrow> auth_manager \<Rightarrow> bool \<times> auth_manager" where
  "loadState L c a =
     (case state_disk a of
        NoFile \<Rightarrow> saveStateLocked L (call_io c) (fresh_state (rand_key c) a)
      | Unreadable \<Rightarrow> (False, a)
      | Content data \<Rightarrow>
          (case lib_parse_state L data of
             None \<Rightarrow> (False, a)
           | Some st \<Rightarrow>
               (case b64_decode (st_auth_key st) of
                  None \<Rightarrow> (False, a)
                | Some key \<Rightarrow>
                    if key = [] then (False, a)
                    else
                      (let loaded = (case st_sessions st of None \<Rightarrow> Map.empty | Some m \<Rightarrow> m);
                           a' = a\<lparr>authKey := key, challenges := Map.empty,
                                  sessions := pruneExpired se_expires (at_check c) loaded\<rparr>
                       in saveStateLocked L (call_io c) a'))))"

text \<open>The second \<open>auth_call\<close> gives the file outcomes and random key of the regeneration.\<close>

definition initState :: "auth_lib \<Rightarrow> auth_call \<Rightarrow> auth_call \<Rightarrow> auth_manager \<Rightarrow> auth_manager" where
  "initState L c c2 a =
     (case loadState L c a of
        (True, a') \<Rightarrow> a'
      | (False, a') \<Rightarrow> snd (saveStateLocked L (call_io c2) (fresh_state (rand_key c2) a')))"

definition NewAuthManager ::
  "auth_lib \<Rightarrow> auth_call \<Rightarrow> auth_call \<Rightarrow> string \<Rightarrow> state_file \<Rightarrow> string \<Rightarrow> string \<Rightarrow> int \<Rightarrow> auth_manager" where
  "NewAuthManager L c c2 dir disk username password maxFailed =
     (let a = \<lparr>failedAttempts = Map.empty, resetTimers = Map.empty, am_username = username, am_password = password,
               am_realm = authRealm, authEnabled = (username \<noteq> '''' \<and> password \<noteq> ''''), maxFailedAttempts = maxFailed,
               state_dir = dir, authKey = [], challenges = Map.empty, sessions = Map.empty, state_disk = disk\<rparr>
      in if authEnabled a then initState L c c2 a else a)"

section \<open>Challenges and sessions\<close>

text \<open>The base64 text of the random bytes drawn, \<open>randomToken\<close>.\<close>

definition randomToken :: "byte list \<Rightarrow> string" where
  "randomToken r = b64_encode r"

datatype auth_error =
    AuthDisabled | InvalidNonce | BadBase64 | InvalidSignature | BadJson | UsernameMismatch
  | ChallengeExpired | ChallengeIdMissing | ChallengeNotFound

definition challenge_payload :: "auth_call \<Rightarrow> string \<Rightarrow> signed_challenge" where
  "challenge_payload c username =
     \<lparr>sc_id = randomToken (rand_id c), sc_username = username, sc_issued = at_check c,
      sc_expires = at_check c + authChallengeTTL, sc_random = randomToken (rand_extra c)\<rparr>"

definition issueChallenge :: "auth_lib \<Rightarrow> auth_call \<Rightarrow> string \<Rightarrow> auth_manager \<Rightarrow> (auth_error + string) \<times> auth_manager" where
  "issueChallenge L c username a =
     (if \<not> authEnabled a then (Inl AuthDisabled, a)
      else
        (let now = at_check c;
             cid = randomToken (rand_id c);
             load = challenge_payload c username;
             text = lib_challenge_json L load;
             pruned = pruneExpiredChallengesLocked now a;
             a' = pruned\<lparr>challenges := (challenges pruned)
                    (cid \<mapsto> \<lparr>ch_id = cid, ch_username = username, ch_expires = sc_expires load\<rparr>)\<rparr>;
             sig = signWithKey L (authKey a') text
         in (Inr (b64_encode text @ ''.'' @ b64_encode sig), a')))"

text \<open>\<open>consumeChallenge\<close> in its three parts: the checks of the decoded payload against the table of
  outstanding challenges, the signature check, and the splitting of the nonce.\<close>

definition consume_payload ::
  "int \<Rightarrow> string \<Rightarrow> signed_challenge \<Rightarrow> auth_manager \<Rightarrow> (auth_error + signed_challenge) \<times> auth_manager" where
  "consume_payload now username load a =
     (if sc_username load \<noteq> username then (Inl UsernameMismatch, a)
      else if sc_issued load > now \<or> sc_expires load \<le> now then (Inl ChallengeExpired, a)
      else if sc_id load = '''' then (Inl ChallengeIdMissing, a)
      else
        (case challenges a (sc_id load) of
           None \<Rightarrow> (Inl ChallengeNotFound, a)
         | Some ch \<Rightarrow>
             (let a2 = a\<lparr>challenges := (challenges a)(sc_id load := None)\<rparr> in
              if ch_username ch \<noteq> username \<or> ch_expires ch \<le> now then (Inl ChallengeExpired, a2)
              else (Inr load, a2))))"

definition consume_signed ::
  "auth_lib \<Rightarrow> int \<Rightarrow> string \<Rightarrow> byte list \<Rightarrow> byte list \<Rightarrow> auth_manager \<Rightarrow> (auth_error + signed_challenge) \<times> auth_manager" where
  "consume_signed L now username text sig a =
     (let a1 = pruneExpiredChallengesLocked now a in
      if sig \<noteq> signWithKey L (authKey a1) text then (Inl InvalidSignature, a1)
      else
        (case lib_parse_challenge L text of
           None \<Rightarrow> (Inl BadJson, a1)
         | Some load \<Rightarrow> consume_payload now username load a1))"

definition consumeChallenge ::
  "auth_lib \<Rightarrow> auth_call \<Rightarrow> string \<Rightarrow> string \<Rightarrow> auth_manager \<Rightarrow> (auth_error + signed_challenge) \<times> auth_manager" where
  "consumeChallenge L c username nonce a =
     (case split_on CHR ''.'' nonce of
        [p, q] \<Rightarrow>
          (case b64_decode p of
             None \<Rightarrow> (Inl BadBase64, a)
           | Some text \<Rightarrow>
               (case b64_decode q of
                  None \<Rightarrow> (Inl BadBase64, a)
                | Some sig \<Rightarrow> consume_signed L (at_check c) username text sig a))
      | _ \<Rightarrow> (Inl InvalidNonce, a))"

text \<open>\<open>createSession\<close>: the entry is taken back when it cannot be saved.\<close>

definition createSession :: "auth_lib \<Rightarrow> auth_call \<Rightarrow> string \<Rightarrow> auth_manager \<Rightarrow> auth_session option \<times> auth_manager" where
  "createSession L c username a =
     (let now = at_session c;
          s = \<lparr>se_id = randomToken (rand_id c), se_username = username, se_issued = now,
               se_expires = now + authSessionTTL, se_last_seen = now\<rparr>;
          a1 = pruneExpiredSessionsLocked now a;
          a2 = a1\<lparr>sessions := (sessions a1)(se_id s \<mapsto> s)\<rparr>
      in (case saveStateLocked L (call_io c) a2 of
            (True, a3) \<Rightarrow> (Some s, a3)
          | (False, a3) \<Rightarrow> (None, a3\<lparr>sessions := (sessions a3)(se_id s := None)\<rparr>)))"

section \<open>Brute-force protection\<close>

text \<open>\<open>LoadOrStore(ip, 0)\<close>.\<close>

definition attempts_of :: "string \<Rightarrow> auth_manager \<Rightarrow> int" where
  "attempts_of ip a = (case failedAttempts a ip of Some n \<Rightarrow> n | None \<Rightarrow> 0)"

definition load_attempts :: "string \<Rightarrow> auth_manager \<Rightarrow> int \<times> auth_manager" where
  "load_attempts ip a = (attempts_of ip a, a\<lparr>failedAttempts := (failedAttempts a)(ip \<mapsto> attempts_of ip a)\<rparr>)"

definition isBlocked :: "string \<Rightarrow> auth_manager \<Rightarrow> bool \<times> auth_manager" where
  "isBlocked ip a =
     (if maxFailedAttempts a \<le> 0 then (False, a)
      else (case load_attempts ip a of (n, a') \<Rightarrow> (n \<ge> maxFailedAttempts a, a')))"

definition cancelTimerIfExists :: "string \<Rightarrow> auth_manager \<Rightarrow> auth_manager" where
  "cancelTimerIfExists ip a =
     (case resetTimers a ip of None \<Rightarrow> a | Some _ \<Rightarrow> a\<lparr>resetTimers := (resetTimers a)(ip := None)\<rparr>)"

text \<open>The second half of \<open>recordAuthFailure\<close>, after the counter was read.\<close>

definition store_attempts :: "auth_call \<Rightarrow> string \<Rightarrow> int \<Rightarrow> auth_manager \<Rightarrow> auth_manager" where
  "store_attempts c ip n a =
     (let a1 = a\<lparr>failedAttempts := (failedAttempts a)(ip \<mapsto> n)\<rparr> in
      if n \<ge> maxFailedAttempts a
      then (let a2 = cancelTimerIfExists ip a1
            in a2\<lparr>resetTimers := (resetTimers a2)(ip \<mapsto> at_timer c + resetDuration)\<rparr>)
      else a1)"

definition recordAuthFailure :: "auth_call \<Rightarrow> string \<Rightarrow> auth_manager \<Rightarrow> auth_manager" where
  "recordAuthFailure c ip a =
     (if maxFailedAttempts a \<le> 0 then a
      else (case load_attempts ip a of (n, a') \<Rightarrow> store_attempts c ip (n + 1) a'))"

definition onAuthSuccess :: "string \<Rightarrow> auth_manager \<Rightarrow> auth_manager" where
  "onAuthSuccess ip a = cancelTimerIfExists ip (a\<lparr>failedAttempts := (failedAttempts a)(ip := None)\<rparr>)"

text \<open>The function a timer runs when its hour is over.\<close>

definition timer_fires :: "string \<Rightarrow> auth_manager \<Rightarrow> auth_manager" where
  "timer_fires ip a = a\<lparr>failedAttempts := (failedAttempts a)(ip := None), resetTimers := (resetTimers a)(ip := None)\<rparr>"

section \<open>Handlers\<close>

datatype http_method = GET | POST | OtherMethod

record auth_request =
  ar_method :: http_method
  ar_cookie :: "string option"
  ar_remote :: string
  ar_body :: "byte list"

datatype auth_data =
    NoData
  | ChallengeData string string string
  | LoginData string
  | SessionData bool string

record auth_response =
  as_status :: int
  as_msg :: string
  as_data :: auth_data
  as_cookie :: "(string \<times> int \<times> int) option"

definition auth_reply :: "int \<Rightarrow> string \<Rightarrow> auth_response" where
  "auth_reply code msg = \<lparr>as_status = code, as_msg = msg, as_data = NoData, as_cookie = None\<rparr>"

definition getIP :: "auth_request \<Rightarrow> string" where
  "getIP r = (case SplitHostPort (ar_remote r) of Inl _ \<Rightarrow> '''' | Inr (h, _) \<Rightarrow> h)"

text \<open>The text shown to a blocked client, in UTF-8.\<close>

definition blocked_msg :: string where
  "blocked_msg = map (char_of :: nat \<Rightarrow> char)
     [231, 153, 187, 229, 189, 149, 229, 164, 177, 232, 180, 165, 230, 172, 161, 230, 149, 176, 232, 191, 135, 229, 164,
      154, 239, 188, 140, 232, 175, 183, 229, 156, 168, 49, 229, 176, 143, 230, 151, 182, 229, 144, 142, 233, 135, 141, 232, 175, 149]"

text \<open>Looking up the session of a cookie, as \<open>IsAuthenticated\<close> and \<open>HandleSession\<close> do: an expired one
  is deleted and the deletion saved, a live one is marked as seen.\<close>

definition session_check :: "auth_lib \<Rightarrow> auth_call \<Rightarrow> string option \<Rightarrow> auth_manager \<Rightarrow> auth_session option \<times> auth_manager" where
  "session_check L c cookie a =
     (case cookie of
        None \<Rightarrow> (None, a)
      | Some v \<Rightarrow>
          if v = '''' then (None, a)
          else
            (case sessions a v of
               None \<Rightarrow> (None, a)
             | Some s \<Rightarrow>
                 if se_expires s \<le> at_check c
                 then (None, snd (saveStateLocked L (call_io c) (a\<lparr>sessions := (sessions a)(v := None)\<rparr>)))
                 else (Some s, a\<lparr>sessions := (sessions a)(v \<mapsto> s\<lparr>se_last_seen := at_check c\<rparr>)\<rparr>)))"

definition IsAuthenticated :: "auth_lib \<Rightarrow> auth_call \<Rightarrow> auth_request \<Rightarrow> auth_manager \<Rightarrow> bool \<times> auth_manager" where
  "IsAuthenticated L c r a =
     (if \<not> authEnabled a then (True, a)
      else (case session_check L c (ar_cookie r) a of (s, a') \<Rightarrow> (s \<noteq> None, a')))"

text \<open>\<open>RequireAuth\<close> and \<open>RequirePageAuth\<close> around a handler that maps the manager's state to a reply.
  The message of the redirect stands for its target.\<close>

definition RequireAuth ::
  "auth_lib \<Rightarrow> auth_call \<Rightarrow> (auth_manager \<Rightarrow> auth_response \<times> auth_manager) \<Rightarrow> auth_request \<Rightarrow> auth_manager
   \<Rightarrow> auth_response \<times> auth_manager" where
  "RequireAuth L c wrapped r a =
     (if \<not> authEnabled a then wrapped a
      else (case IsAuthenticated L c r a of
              (True, a') \<Rightarrow> wrapped a'
            | (False, a') \<Rightarrow> (auth_reply 401 ''unauthorized'', a')))"

definition RequirePageAuth ::
  "auth_lib \<Rightarrow> auth_call \<Rightarrow> (auth_manager \<Rightarrow> auth_response \<times> auth_manager) \<Rightarrow> auth_request \<Rightarrow> auth_manager
   \<Rightarrow> auth_response \<times> auth_manager" where
  "RequirePageAuth L c wrapped r a =
     (if \<not> authEnabled a then wrapped a
      else (case IsAuthenticated L c r a of
              (True, a') \<Rightarrow> wrapped a'
            | (False, a') \<Rightarrow> (auth_reply 302 ''/login'', a')))"

definition HandleChallenge :: "auth_lib \<Rightarrow> auth_call \<Rightarrow> auth_request \<Rightarrow> auth_manager \<Rightarrow> auth_response \<times> auth_manager" where
  "HandleChallenge L c r a =
     (if ar_method r \<noteq> POST then (auth_reply 405 ''method not allowed'', a)
      else if \<not> authEnabled a then (auth_reply 400 ''auth disabled'', a)
      else
        (case isBlocked (getIP r) a of
           (True, a1) \<Rightarrow> (auth_reply 429 blocked_msg, a1)
         | (False, a1) \<Rightarrow>
             (case lib_parse_user L (ar_body r) of
                None \<Rightarrow> (auth_reply 400 ''invalid request body'', a1)
              | Some u \<Rightarrow>
                  if trim u = '''' then (auth_reply 400 ''username required'', a1)
                  else
                    (case issueChallenge L c (trim u) a1 of
                       (Inl _, a2) \<Rightarrow> (auth_reply 500 ''issue challenge failed'', a2)
                     | (Inr nonce, a2) \<Rightarrow>
                         ((auth_reply 200 ''ok'')\<lparr>as_data := ChallengeData (am_realm a2) nonce authAlgorithm\<rparr>, a2)))))"

definition login_attempt ::
  "auth_lib \<Rightarrow> auth_call \<Rightarrow> string \<Rightarrow> auth_login_request \<Rightarrow> auth_manager \<Rightarrow> auth_response \<times> auth_manager" where
  "login_attempt L c ip q a =
     (let u = trim (rq_username q); nonce = trim (rq_nonce q); proof = trim (lower (rq_proof q)) in
      if u = '''' \<or> nonce = '''' \<or> proof = '''' then (auth_reply 400 ''username, nonce and proof are required'', a)
      else if u \<noteq> am_username a then (auth_reply 401 ''invalid credentials'', recordAuthFailure c ip a)
      else
        (case consumeChallenge L c u nonce a of
           (Inl _, a1) \<Rightarrow> (auth_reply 401 ''invalid or expired challenge'', recordAuthFailure c ip a1)
         | (Inr _, a1) \<Rightarrow>
             if hex_decode proof \<noteq> Some (signProof L (deriveUserKey L (am_username a1) (am_realm a1) (am_password a1)) nonce)
             then (auth_reply 401 ''invalid credentials'', recordAuthFailure c ip a1)
             else
               (case createSession L c u a1 of
                  (None, a2) \<Rightarrow> (auth_reply 500 ''create session failed'', a2)
                | (Some s, a2) \<Rightarrow>
                    (\<lparr>as_status = 200, as_msg = ''ok'', as_data = LoginData (se_username s),
                      as_cookie = Some (se_id s, authSessionTTL, se_expires s)\<rparr>,
                     onAuthSuccess ip a2))))"

text \<open>
  \<open>HandleLogin\<close>. The server handles requests concurrently and the handler takes no lock over its whole
  body, so it is two steps here: the checks up to the one for a blocked address (\<open>login_admit\<close>: an
  answer, or none when the request goes on), and decoding and examining the body (\<open>login_examine\<close>).
  \<open>HandleLogin\<close> is both without another request in between; \<open>race_step\<close> lets any come in between.
  Within the second step the locked operations are atomic in the source; that counting a failure is
  not is \<open>concurrent_failures_undercount\<close>.
\<close>

definition login_admit :: "auth_request \<Rightarrow> auth_manager \<Rightarrow> auth_response option \<times> auth_manager" where
  "login_admit r a =
     (if ar_method r \<noteq> POST then (Some (auth_reply 405 ''method not allowed''), a)
      else if \<not> authEnabled a then (Some (auth_reply 400 ''auth disabled''), a)
      else
        (case isBlocked (getIP r) a of
           (True, a1) \<Rightarrow> (Some (auth_reply 429 blocked_msg), a1)
         | (False, a1) \<Rightarrow> (None, a1)))"

definition login_examine :: "auth_lib \<Rightarrow> auth_call \<Rightarrow> auth_request \<Rightarrow> auth_manager \<Rightarrow> auth_response \<times> auth_manager" where
  "login_examine L c r a =
     (case lib_parse_login L (ar_body r) of
        None \<Rightarrow> (auth_reply 400 ''invalid request body'', a)
      | Some q \<Rightarrow> login_attempt L c (getIP r) q a)"

definition HandleLogin :: "auth_lib \<Rightarrow> auth_call \<Rightarrow> auth_request \<Rightarrow> auth_manager \<Rightarrow> auth_response \<times> auth_manager" where
  "HandleLogin L c r a =
     (case login_admit r a of
        (Some x, a1) \<Rightarrow> (x, a1)
      | (None, a1) \<Rightarrow> login_examine L c r a1)"

lemma HandleLogin_unfold:
  "HandleLogin L c r a =
     (if ar_method r \<noteq> POST then (auth_reply 405 ''method not allowed'', a)
      else if \<not> authEnabled a then (auth_reply 400 ''auth disabled'', a)
      else
        (case isBlocked (getIP r) a of
           (True, a1) \<Rightarrow> (auth_reply 429 blocked_msg, a1)
         | (False, a1) \<Rightarrow>
             (case lib_parse_login L (ar_body r) of
                None \<Rightarrow> (auth_reply 400 ''invalid request body'', a1)
              | Some q \<Rightarrow> login_attempt L c (getIP r) q a1)))"
  by (auto simp: HandleLogin_def login_admit_def login_examine_def split: prod.split bool.split)

definition HandleLogout :: "auth_lib \<Rightarrow> auth_call \<Rightarrow> auth_request \<Rightarrow> auth_manager \<Rightarrow> auth_response \<times> auth_manager" where
  "HandleLogout L c r a =
     (if ar_method r \<noteq> POST then (auth_reply 405 ''method not allowed'', a)
      else
        ((auth_reply 200 ''ok'')\<lparr>as_cookie := Some ('''', - 1, 0)\<rparr>,
         case ar_cookie r of
           None \<Rightarrow> a
         | Some v \<Rightarrow>
             if v = '''' then a
             else snd (saveStateLocked L (call_io c) (a\<lparr>sessions := (sessions a)(v := None)\<rparr>))))"

definition HandleSession :: "auth_lib \<Rightarrow> auth_call \<Rightarrow> auth_request \<Rightarrow> auth_manager \<Rightarrow> auth_response \<times> auth_manager" where
  "HandleSession L c r a =
     (if ar_method r \<noteq> GET then (auth_reply 405 ''method not allowed'', a)
      else if \<not> authEnabled a then ((auth_reply 200 ''ok'')\<lparr>as_data := SessionData True ''''\<rparr>, a)
      else
        (case session_check L c (ar_cookie r) a of
           (Some s, a') \<Rightarrow> ((auth_reply 200 ''ok'')\<lparr>as_data := SessionData True (se_username s)\<rparr>, a')
         | (None, a') \<Rightarrow> ((auth_reply 200 ''ok'')\<lparr>as_data := SessionData False ''''\<rparr>, a')))"

section \<open>Runs\<close>

text \<open>What reaches the manager: requests to its handlers, checks of other requests by the guards, and
  the expiry of a reset timer.\<close>

datatype auth_event =
    EChallenge auth_call auth_request
  | ELogin auth_call auth_request
  | ELogout auth_call auth_request
  | ESession auth_call auth_request
  | ECheck auth_call auth_request
  | ETimer int string

fun auth_step :: "auth_lib \<Rightarrow> auth_event \<Rightarrow> auth_manager \<Rightarrow> auth_response option \<times> auth_manager" where
  "auth_step L (EChallenge c r) a = (case HandleChallenge L c r a of (x, a') \<Rightarrow> (Some x, a'))"
| "auth_step L (ELogin c r) a = (case HandleLogin L c r a of (x, a') \<Rightarrow> (Some x, a'))"
| "auth_step L (ELogout c r) a = (case HandleLogout L c r a of (x, a') \<Rightarrow> (Some x, a'))"
| "auth_step L (ESession c r) a = (case HandleSession L c r a of (x, a') \<Rightarrow> (Some x, a'))"
| "auth_step L (ECheck c r) a = (None, snd (IsAuthenticated L c r a))"
| "auth_step L (ETimer now ip) a =
     (None, case resetTimers a ip of Some d \<Rightarrow> if d \<le> now then timer_fires ip a else a | None \<Rightarrow> a)"

fun auth_run :: "auth_lib \<Rightarrow> auth_event list \<Rightarrow> auth_manager \<Rightarrow> auth_response option list \<times> auth_manager" where
  "auth_run L [] a = ([], a)"
| "auth_run L (e # es) a =
     (case auth_step L e a of (x, a1) \<Rightarrow> (case auth_run L es a1 of (xs, a2) \<Rightarrow> (x # xs, a2)))"

section \<open>What each operation leaves alone\<close>

lemmas auth_small_defs = saveStateLocked_def pruneExpiredSessionsLocked_def pruneExpiredChallengesLocked_def
  load_attempts_def isBlocked_def cancelTimerIfExists_def store_attempts_def recordAuthFailure_def onAuthSuccess_def
  timer_fires_def

definition same_setup :: "auth_manager \<Rightarrow> auth_manager \<Rightarrow> bool" where
  "same_setup a b \<longleftrightarrow>
     am_username b = am_username a \<and> am_password b = am_password a \<and> am_realm b = am_realm a \<and>
     authEnabled b = authEnabled a \<and> maxFailedAttempts b = maxFailedAttempts a \<and> state_dir b = state_dir a \<and>
     authKey b = authKey a"

definition same_counters :: "auth_manager \<Rightarrow> auth_manager \<Rightarrow> bool" where
  "same_counters a b \<longleftrightarrow> failedAttempts b = failedAttempts a \<and> resetTimers b = resetTimers a"

lemma same_setup_refl [simp]: "same_setup a a"
  by (simp add: same_setup_def)

lemma same_setup_trans [trans]: "same_setup a b \<Longrightarrow> same_setup b c \<Longrightarrow> same_setup a c"
  by (simp add: same_setup_def)

lemma save_frame:
  "same_setup a (snd (saveStateLocked L f a))" "same_counters a (snd (saveStateLocked L f a))"
  "sessions (snd (saveStateLocked L f a)) = sessions a" "challenges (snd (saveStateLocked L f a)) = challenges a"
  by (auto simp: saveStateLocked_def same_setup_def same_counters_def Let_def)

lemma failure_frame:
  "same_setup a (recordAuthFailure c ip a)" "sessions (recordAuthFailure c ip a) = sessions a"
  "challenges (recordAuthFailure c ip a) = challenges a" "state_disk (recordAuthFailure c ip a) = state_disk a"
  by (auto simp: recordAuthFailure_def load_attempts_def store_attempts_def cancelTimerIfExists_def same_setup_def Let_def
      split: option.splits)

lemma success_frame:
  "same_setup a (onAuthSuccess ip a)" "sessions (onAuthSuccess ip a) = sessions a"
  "challenges (onAuthSuccess ip a) = challenges a" "state_disk (onAuthSuccess ip a) = state_disk a"
  by (auto simp: onAuthSuccess_def cancelTimerIfExists_def same_setup_def split: option.splits)

lemma blocked_frame:
  "same_setup a (snd (isBlocked ip a))" "sessions (snd (isBlocked ip a)) = sessions a"
  "challenges (snd (isBlocked ip a)) = challenges a" "state_disk (snd (isBlocked ip a)) = state_disk a"
  "resetTimers (snd (isBlocked ip a)) = resetTimers a" "attempts_of jp (snd (isBlocked ip a)) = attempts_of jp a"
  by (auto simp: isBlocked_def load_attempts_def attempts_of_def same_setup_def)

definition only_challenges :: "auth_manager \<Rightarrow> auth_manager \<Rightarrow> bool" where
  "only_challenges a b \<longleftrightarrow>
     same_setup a b \<and> same_counters a b \<and> sessions b = sessions a \<and> state_disk b = state_disk a \<and>
     challenges b \<subseteq>\<^sub>m challenges a"

lemma only_challenges_refl [simp]: "only_challenges a a"
  by (simp add: only_challenges_def same_counters_def)

lemma only_challenges_trans: "only_challenges a b \<Longrightarrow> only_challenges b d \<Longrightarrow> only_challenges a d"
  unfolding only_challenges_def same_counters_def by (auto intro: same_setup_trans map_le_trans)

lemma prune_le: "pruneExpired f now (non_nil m) \<subseteq>\<^sub>m m"
  by (auto simp: map_le_def pruneExpired_def non_nil_def split: option.splits if_splits)

lemma only_challenges_prune: "only_challenges a (pruneExpiredChallengesLocked now a)"
  by (simp add: only_challenges_def pruneExpiredChallengesLocked_def same_setup_def same_counters_def prune_le)

lemma only_challenges_delete: "only_challenges a (a\<lparr>challenges := (challenges a)(k := None)\<rparr>)"
  by (simp add: only_challenges_def same_setup_def same_counters_def map_le_def)

lemma payload_frame: "only_challenges a (snd (consume_payload now u load a))"
  using only_challenges_delete by (auto simp: consume_payload_def Let_def split: option.split)

lemma signed_frame: "only_challenges a (snd (consume_signed L now u t sg a))"
  using only_challenges_prune only_challenges_trans [OF only_challenges_prune payload_frame]
  by (auto simp: consume_signed_def Let_def split: option.split)

lemma consume_frame: "only_challenges a (snd (consumeChallenge L c u n a))"
  using signed_frame by (auto simp: consumeChallenge_def split: list.split option.split)

lemma create_frame:
  "same_setup a (snd (createSession L c u a))" "same_counters a (snd (createSession L c u a))"
  "challenges (snd (createSession L c u a)) = challenges a"
  by (auto simp: createSession_def saveStateLocked_def pruneExpiredSessionsLocked_def same_setup_def same_counters_def Let_def)

lemma check_frame:
  "same_setup a (snd (session_check L c k a))" "same_counters a (snd (session_check L c k a))"
  "challenges (snd (session_check L c k a)) = challenges a"
  using save_frame [where L = L and f = "call_io c"]
  by (auto simp: session_check_def same_setup_def same_counters_def split: option.splits)

section \<open>When a login is granted\<close>

definition save_works :: "file_io \<Rightarrow> string \<Rightarrow> bool" where
  "save_works f dir \<longleftrightarrow>
     (dir = '''' \<or> dir = ''.'' \<or> mkdir_ok f) \<and> create_ok f \<and> write_ok f \<and> close_ok f \<and> rename_ok f"

lemma save_fails: "\<not> save_works f (state_dir a) \<Longrightarrow> saveStateLocked L f a = (False, a)"
  by (auto simp: saveStateLocked_def save_works_def Let_def)

lemma save_writes:
  "save_works f (state_dir a) \<Longrightarrow>
   saveStateLocked L f a =
     (True, a\<lparr>state_disk := Content (lib_state_json L
        \<lparr>st_auth_key = b64_encode (authKey a), st_sessions = Some (non_nil (sessions a))\<rparr>)\<rparr>)"
  by (auto simp: saveStateLocked_def save_works_def Let_def)

text \<open>The nonce names a challenge that is signed by this manager, still outstanding, issued to the user
  and within its time.\<close>

definition nonce_valid :: "auth_lib \<Rightarrow> int \<Rightarrow> string \<Rightarrow> string \<Rightarrow> auth_manager \<Rightarrow> signed_challenge \<Rightarrow> bool" where
  "nonce_valid L now u nonce a load \<longleftrightarrow>
     (\<exists>p q text. nonce = p @ ''.'' @ q \<and> CHR ''.'' \<notin> set p \<and> CHR ''.'' \<notin> set q \<and>
        b64_decode p = Some text \<and> b64_decode q = Some (lib_hmac L (authKey a) text) \<and>
        lib_parse_challenge L text = Some load) \<and>
     sc_username load = u \<and> sc_issued load \<le> now \<and> now < sc_expires load \<and> sc_id load \<noteq> '''' \<and>
     (\<exists>ch. challenges a (sc_id load) = Some ch \<and> ch_username ch = u \<and> now < ch_expires ch)"

lemma payload_exact:
  "fst (consume_payload now u load a) = Inr x \<longleftrightarrow>
     x = load \<and> sc_username load = u \<and> sc_issued load \<le> now \<and> now < sc_expires load \<and> sc_id load \<noteq> '''' \<and>
     (\<exists>ch. challenges a (sc_id load) = Some ch \<and> ch_username ch = u \<and> now < ch_expires ch)"
  by (auto simp: consume_payload_def Let_def split: option.split)

lemma prune_live: "(\<exists>x. pruneExpired f now (non_nil m) k = Some x \<and> P x \<and> now < f x) \<longleftrightarrow> (\<exists>x. m k = Some x \<and> P x \<and> now < f x)"
  by (auto simp: pruneExpired_def non_nil_def split: option.splits)

lemma signed_exact:
  "fst (consume_signed L now u text sg a) = Inr load \<longleftrightarrow>
     sg = lib_hmac L (authKey a) text \<and> lib_parse_challenge L text = Some load \<and>
     sc_username load = u \<and> sc_issued load \<le> now \<and> now < sc_expires load \<and> sc_id load \<noteq> '''' \<and>
     (\<exists>ch. challenges a (sc_id load) = Some ch \<and> ch_username ch = u \<and> now < ch_expires ch)"
  by (cases "lib_parse_challenge L text")
    (auto simp: consume_signed_def signWithKey_def pruneExpiredChallengesLocked_def payload_exact prune_live Let_def)

lemma consume_exact:
  "fst (consumeChallenge L c u nonce a) = Inr load \<longleftrightarrow> nonce_valid L (at_check c) u nonce a load"
proof -
  have nv: "nonce_valid L now u nonce a load \<longleftrightarrow>
     (\<exists>p q text. split_on CHR ''.'' nonce = [p, q] \<and> b64_decode p = Some text \<and>
        b64_decode q = Some (lib_hmac L (authKey a) text) \<and> lib_parse_challenge L text = Some load) \<and>
     sc_username load = u \<and> sc_issued load \<le> now \<and> now < sc_expires load \<and> sc_id load \<noteq> '''' \<and>
     (\<exists>ch. challenges a (sc_id load) = Some ch \<and> ch_username ch = u \<and> now < ch_expires ch)" for now
    unfolding nonce_valid_def split_on_two by (simp only: append.simps conj_assoc)
  show ?thesis
  proof (cases "\<exists>p q. split_on CHR ''.'' nonce = [p, q]")
    case True
    then obtain p q where pq: "split_on CHR ''.'' nonce = [p, q]" by blast
    show ?thesis unfolding nv pq consumeChallenge_def
      by (cases "b64_decode p"; cases "b64_decode q") (auto simp: signed_exact)
  next
    case False
    then have "fst (consumeChallenge L c u nonce a) = Inl InvalidNonce"
      by (auto simp: consumeChallenge_def split: list.split)
    then show ?thesis unfolding nv using False by simp
  qed
qed

lemma payload_deletes: "fst (consume_payload now u load a) = Inr x \<Longrightarrow> challenges (snd (consume_payload now u load a)) (sc_id x) = None"
  unfolding payload_exact by (auto simp: consume_payload_def Let_def)

lemma signed_deletes: "fst (consume_signed L now u t sg a) = Inr x \<Longrightarrow> challenges (snd (consume_signed L now u t sg a)) (sc_id x) = None"
  using payload_deletes by (cases "lib_parse_challenge L t") (auto simp: consume_signed_def Let_def split: if_splits)

lemma consume_deletes:
  "fst (consumeChallenge L c u nonce a) = Inr load \<Longrightarrow>
   challenges (snd (consumeChallenge L c u nonce a)) (sc_id load) = None"
  using signed_deletes by (auto simp: consumeChallenge_def split: list.splits option.splits)

definition proof_of :: "auth_lib \<Rightarrow> auth_manager \<Rightarrow> string \<Rightarrow> byte list" where
  "proof_of L a nonce = signProof L (deriveUserKey L (am_username a) (am_realm a) (am_password a)) nonce"

text \<open>All that a login needs.\<close>

definition login_allowed :: "auth_lib \<Rightarrow> auth_call \<Rightarrow> auth_request \<Rightarrow> auth_manager \<Rightarrow> signed_challenge \<Rightarrow> bool" where
  "login_allowed L c r a load \<longleftrightarrow>
     ar_method r = POST \<and> authEnabled a \<and> \<not> (0 < maxFailedAttempts a \<and> maxFailedAttempts a \<le> attempts_of (getIP r) a) \<and>
     (\<exists>q. lib_parse_login L (ar_body r) = Some q \<and> trim (rq_username q) = am_username a \<and>
        am_username a \<noteq> '''' \<and> trim (rq_nonce q) \<noteq> '''' \<and> trim (lower (rq_proof q)) \<noteq> '''' \<and>
        nonce_valid L (at_check c) (am_username a) (trim (rq_nonce q)) a load \<and>
        hex_decode (trim (lower (rq_proof q))) = Some (proof_of L a (trim (rq_nonce q)))) \<and>
     save_works (call_io c) (state_dir a)"

lemma create_exact: "fst (createSession L c u a) \<noteq> None \<longleftrightarrow> save_works (call_io c) (state_dir a)"
  by (auto simp: createSession_def saveStateLocked_def save_works_def pruneExpiredSessionsLocked_def Let_def)

lemma blocked_exact: "fst (isBlocked ip a) \<longleftrightarrow> 0 < maxFailedAttempts a \<and> maxFailedAttempts a \<le> attempts_of ip a"
  by (auto simp: isBlocked_def load_attempts_def)

lemma attempt_exact:
  "as_status (fst (login_attempt L c ip q a)) = 200 \<longleftrightarrow>
     trim (rq_username q) = am_username a \<and> am_username a \<noteq> '''' \<and> trim (rq_nonce q) \<noteq> '''' \<and>
     trim (lower (rq_proof q)) \<noteq> '''' \<and>
     (\<exists>load. nonce_valid L (at_check c) (am_username a) (trim (rq_nonce q)) a load) \<and>
     hex_decode (trim (lower (rq_proof q))) = Some (proof_of L a (trim (rq_nonce q))) \<and>
     save_works (call_io c) (state_dir a)"
proof -
  obtain v a1 where v: "consumeChallenge L c (am_username a) (trim (rq_nonce q)) a = (v, a1)" by fastforce
  have s: "same_setup a a1"
    using consume_frame [of a L c "am_username a" "trim (rq_nonce q)"] v by (simp add: only_challenges_def)
  have nv: "(\<exists>load. nonce_valid L (at_check c) (am_username a) (trim (rq_nonce q)) a load) \<longleftrightarrow> (\<exists>load. v = Inr load)"
    using consume_exact [of L c "am_username a" "trim (rq_nonce q)" a] v by auto
  obtain w a2 where w: "createSession L c (am_username a) a1 = (w, a2)" by fastforce
  have sv: "w \<noteq> None \<longleftrightarrow> save_works (call_io c) (state_dir a)"
    using create_exact [of L c "am_username a" a1] w s by (simp add: same_setup_def)
  have p: "proof_of L a1 n = proof_of L a n" for n using s by (simp add: proof_of_def same_setup_def)
  show ?thesis unfolding nv sv [symmetric]
    using v w p [of "trim (rq_nonce q)"]
    by (auto simp: login_attempt_def Let_def auth_reply_def proof_of_def split: sum.splits option.splits)
qed

lemma login_status_exact:
  "as_status (fst (HandleLogin L c r a)) = 200 \<longleftrightarrow> (\<exists>load. login_allowed L c r a load)"
proof -
  obtain b a1 where b: "isBlocked (getIP r) a = (b, a1)" by fastforce
  have f: "same_setup a a1" "challenges a1 = challenges a" using blocked_frame [where a = a and ip = "getIP r"] b by simp_all
  have bl: "b \<longleftrightarrow> 0 < maxFailedAttempts a \<and> maxFailedAttempts a \<le> attempts_of (getIP r) a"
    using blocked_exact [of "getIP r" a] b by simp
  have nv: "nonce_valid L now u n a1 load = nonce_valid L now u n a load" for now u n load
    using f by (simp add: nonce_valid_def same_setup_def)
  show ?thesis unfolding HandleLogin_unfold login_allowed_def bl [symmetric] b
    using f nv by (auto simp: attempt_exact auth_reply_def proof_of_def same_setup_def split: bool.splits option.splits)
qed

text \<open>The effects of an accepted login, step by step.\<close>

lemma create_effect:
  assumes "save_works (call_io c) (state_dir a)"
  shows "\<exists>a'. createSession L c u a =
           (Some \<lparr>se_id = randomToken (rand_id c), se_username = u, se_issued = at_session c,
                  se_expires = at_session c + authSessionTTL, se_last_seen = at_session c\<rparr>, a') \<and>
         sessions a' = (pruneExpired se_expires (at_session c) (non_nil (sessions a)))
           (randomToken (rand_id c) \<mapsto>
              \<lparr>se_id = randomToken (rand_id c), se_username = u, se_issued = at_session c,
               se_expires = at_session c + authSessionTTL, se_last_seen = at_session c\<rparr>) \<and>
         state_disk a' = Content (lib_state_json L
           \<lparr>st_auth_key = b64_encode (authKey a), st_sessions = Some (non_nil (sessions a'))\<rparr>)"
  using assms by (simp add: createSession_def save_writes pruneExpiredSessionsLocked_def Let_def)

definition granted_session :: "auth_call \<Rightarrow> string \<Rightarrow> auth_session" where
  "granted_session c u =
     \<lparr>se_id = randomToken (rand_id c), se_username = u, se_issued = at_session c,
      se_expires = at_session c + authSessionTTL, se_last_seen = at_session c\<rparr>"

definition granted_reply :: "auth_call \<Rightarrow> string \<Rightarrow> auth_response" where
  "granted_reply c u =
     \<lparr>as_status = 200, as_msg = ''ok'', as_data = LoginData u,
      as_cookie = Some (randomToken (rand_id c), authSessionTTL, at_session c + authSessionTTL)\<rparr>"

definition saved_sessions :: "auth_lib \<Rightarrow> auth_manager \<Rightarrow> bool" where
  "saved_sessions L a \<longleftrightarrow>
     state_disk a = Content (lib_state_json L
       \<lparr>st_auth_key = b64_encode (authKey a), st_sessions = Some (non_nil (sessions a))\<rparr>)"

lemma create_granted:
  assumes "save_works (call_io c) (state_dir a)"
  obtains a' where "createSession L c u a = (Some (granted_session c u), a')"
    and "sessions a' = (pruneExpired se_expires (at_session c) (non_nil (sessions a)))(randomToken (rand_id c) \<mapsto> granted_session c u)"
    and "challenges a' = challenges a" and "same_setup a a'" and "saved_sessions L a'"
proof -
  obtain a' where a': "createSession L c u a = (Some (granted_session c u), a')"
    "sessions a' = (pruneExpired se_expires (at_session c) (non_nil (sessions a)))(randomToken (rand_id c) \<mapsto> granted_session c u)"
    "state_disk a' = Content (lib_state_json L
       \<lparr>st_auth_key = b64_encode (authKey a), st_sessions = Some (non_nil (sessions a'))\<rparr>)"
    using create_effect [OF assms, of L u] unfolding granted_session_def [symmetric] by blast
  moreover have "challenges a' = challenges a" "same_setup a a'" using create_frame [where a = a and L = L and c = c and u = u] a'(1) by simp_all
  moreover from this a'(3) have "saved_sessions L a'" by (simp add: saved_sessions_def same_setup_def)
  ultimately show ?thesis using that by blast
qed

lemma attempt_grants:
  assumes nv: "nonce_valid L (at_check c) (am_username a) (trim (rq_nonce q)) a load"
    and ok: "trim (rq_username q) = am_username a" "am_username a \<noteq> ''''" "trim (rq_nonce q) \<noteq> ''''"
      "trim (lower (rq_proof q)) \<noteq> ''''"
      "hex_decode (trim (lower (rq_proof q))) = Some (proof_of L a (trim (rq_nonce q)))"
      "save_works (call_io c) (state_dir a)"
  obtains a' where "login_attempt L c ip q a = (granted_reply c (am_username a), a')"
    and "sessions a' = (pruneExpired se_expires (at_session c) (non_nil (sessions a)))
           (randomToken (rand_id c) \<mapsto> granted_session c (am_username a))"
    and "challenges a' (sc_id load) = None" and "same_setup a a'" and "saved_sessions L a'"
    and "failedAttempts a' ip = None" and "resetTimers a' ip = None"
proof -
  let ?u = "am_username a" and ?n = "trim (rq_nonce q)"
  obtain a1 where a1: "consumeChallenge L c ?u ?n a = (Inr load, a1)"
    using consume_exact [of L c ?u ?n a load] nv by (metis prod.collapse)
  have f1: "same_setup a a1" "sessions a1 = sessions a" and d1: "challenges a1 (sc_id load) = None"
    using consume_frame [of a L c ?u ?n] consume_deletes [of L c ?u ?n a load] a1 by (simp_all add: only_challenges_def)
  obtain a2 where a2: "createSession L c ?u a1 = (Some (granted_session c ?u), a2)"
    "sessions a2 = (pruneExpired se_expires (at_session c) (non_nil (sessions a1)))(randomToken (rand_id c) \<mapsto> granted_session c ?u)"
    "challenges a2 = challenges a1" "same_setup a1 a2" "saved_sessions L a2"
    using create_granted [of c a1] ok(6) f1(1) by (auto simp: same_setup_def)
  have "login_attempt L c ip q a = (granted_reply c ?u, onAuthSuccess ip a2)"
    using ok a1 a2(1) f1(1)
    by (simp add: login_attempt_def Let_def proof_of_def same_setup_def granted_reply_def granted_session_def)
  moreover have "failedAttempts (onAuthSuccess ip a2) ip = None" "resetTimers (onAuthSuccess ip a2) ip = None"
    by (auto simp: onAuthSuccess_def cancelTimerIfExists_def split: option.split)
  moreover have "saved_sessions L (onAuthSuccess ip a2)"
    using a2(5) success_frame [where a = a2 and ip = ip] by (simp add: saved_sessions_def same_setup_def)
  ultimately show ?thesis
    using that [of "onAuthSuccess ip a2"] a2 f1 d1 success_frame [where a = a2 and ip = ip] by (auto intro: same_setup_trans)
qed

lemma login_grants:
  assumes "login_allowed L c r a load"
  obtains a' where "HandleLogin L c r a = (granted_reply c (am_username a), a')"
    and "sessions a' = (pruneExpired se_expires (at_session c) (non_nil (sessions a)))
           (randomToken (rand_id c) \<mapsto> granted_session c (am_username a))"
    and "challenges a' (sc_id load) = None" and "same_setup a a'" and "saved_sessions L a'"
    and "failedAttempts a' (getIP r) = None" and "resetTimers a' (getIP r) = None"
proof -
  define a1 where "a1 = snd (isBlocked (getIP r) a)"
  have b: "isBlocked (getIP r) a = (False, a1)"
    using assms blocked_exact [of "getIP r" a] by (auto simp: login_allowed_def a1_def prod_eq_iff)
  have f: "same_setup a a1" "challenges a1 = challenges a" "sessions a1 = sessions a"
    unfolding a1_def by (rule blocked_frame)+
  then have same: "am_username a1 = am_username a" "state_dir a1 = state_dir a" "proof_of L a1 n = proof_of L a n"
    "nonce_valid L now u n a1 load = nonce_valid L now u n a load" for n now u
    by (simp_all add: same_setup_def proof_of_def nonce_valid_def)
  obtain q where q: "lib_parse_login L (ar_body r) = Some q" "trim (rq_username q) = am_username a"
      "am_username a \<noteq> ''''" "trim (rq_nonce q) \<noteq> ''''" "trim (lower (rq_proof q)) \<noteq> ''''"
      "nonce_valid L (at_check c) (am_username a) (trim (rq_nonce q)) a load"
      "hex_decode (trim (lower (rq_proof q))) = Some (proof_of L a (trim (rq_nonce q)))"
    and m: "ar_method r = POST" "authEnabled a" "save_works (call_io c) (state_dir a)"
    using assms unfolding login_allowed_def by blast
  have hl: "HandleLogin L c r a = login_attempt L c (getIP r) q a1" using b q(1) m by (simp add: HandleLogin_unfold)
  obtain a' where g: "login_attempt L c (getIP r) q a1 = (granted_reply c (am_username a), a')"
    "sessions a' = (pruneExpired se_expires (at_session c) (non_nil (sessions a1)))
           (randomToken (rand_id c) \<mapsto> granted_session c (am_username a))"
    "challenges a' (sc_id load) = None" "same_setup a1 a'" "saved_sessions L a'"
    "failedAttempts a' (getIP r) = None" "resetTimers a' (getIP r) = None"
    by (rule attempt_grants [of L c a1 q load "getIP r", unfolded same, OF q(6,2,3,4,5,7) m(3)])
  show ?thesis
    by (rule that [of a']) (use hl g f same_setup_trans [OF f(1) g(4)] in simp_all)
qed

section \<open>Every handler, field by field\<close>

text \<open>How one event may change the tables. The challenge with identifier \<open>k\<close> appears only when an
  event draws \<open>k\<close>; counters change only by the login events and timers.\<close>

definition draws :: "string \<Rightarrow> auth_event \<Rightarrow> bool" where
  "draws k e \<longleftrightarrow>
     (case e of EChallenge c r \<Rightarrow> randomToken (rand_id c) = k | _ \<Rightarrow> False)"

lemma challenge_result:
  "same_setup a (snd (HandleChallenge L c r a)) \<and> sessions (snd (HandleChallenge L c r a)) = sessions a \<and>
   state_disk (snd (HandleChallenge L c r a)) = state_disk a \<and> resetTimers (snd (HandleChallenge L c r a)) = resetTimers a \<and>
   attempts_of ip (snd (HandleChallenge L c r a)) = attempts_of ip a \<and>
   (challenges a k = None \<longrightarrow> randomToken (rand_id c) \<noteq> k \<longrightarrow> challenges (snd (HandleChallenge L c r a)) k = None)"
proof -
  obtain b a1 where b: "isBlocked (getIP r) a = (b, a1)" by fastforce
  have f: "same_setup a a1" "challenges a1 = challenges a" "sessions a1 = sessions a" "state_disk a1 = state_disk a"
    "resetTimers a1 = resetTimers a" "attempts_of ip a1 = attempts_of ip a"
    using blocked_frame [where a = a and ip = "getIP r"] b by simp_all
  have i: "same_setup a1 (snd (issueChallenge L c u a1))" "sessions (snd (issueChallenge L c u a1)) = sessions a1"
    "state_disk (snd (issueChallenge L c u a1)) = state_disk a1" "resetTimers (snd (issueChallenge L c u a1)) = resetTimers a1"
    "attempts_of ip (snd (issueChallenge L c u a1)) = attempts_of ip a1"
    "challenges a1 k = None \<Longrightarrow> randomToken (rand_id c) \<noteq> k \<Longrightarrow> challenges (snd (issueChallenge L c u a1)) k = None" for u
    by (simp_all add: issueChallenge_def pruneExpiredChallengesLocked_def same_setup_def attempts_of_def Let_def
        pruneExpired_def non_nil_def)
  show ?thesis
  proof (cases "ar_method r = POST \<and> authEnabled a \<and> \<not> b")
    case False
    then show ?thesis using f b by (auto simp: HandleChallenge_def)
  next
    case True
    show ?thesis
    proof (cases "lib_parse_user L (ar_body r)")
      case None
      then show ?thesis using True f b by (simp add: HandleChallenge_def)
    next
      case (Some u)
      have "snd (HandleChallenge L c r a) = (if trim u = '''' then a1 else snd (issueChallenge L c (trim u) a1))"
        using True Some b by (simp add: HandleChallenge_def split: sum.split prod.split)
      then show ?thesis using f i [of "trim u"] same_setup_trans [of a a1] by auto
    qed
  qed
qed

lemma attempt_frame:
  "same_setup a (snd (login_attempt L c ip q a)) \<and>
   (challenges a k = None \<longrightarrow> challenges (snd (login_attempt L c ip q a)) k = None)"
proof -
  obtain v a1 where v: "consumeChallenge L c (am_username a) (trim (rq_nonce q)) a = (v, a1)" by fastforce
  have s: "same_setup a a1" "challenges a1 \<subseteq>\<^sub>m challenges a"
    using consume_frame [of a L c "am_username a" "trim (rq_nonce q)"] v by (simp_all add: only_challenges_def)
  obtain w a2 where w: "createSession L c (am_username a) a1 = (w, a2)" by fastforce
  have t: "same_setup a1 a2" "challenges a2 = challenges a1"
    using create_frame [where a = a1 and L = L and c = c and u = "am_username a"] w by simp_all
  have n: "challenges a k = None \<Longrightarrow> challenges a1 k = None"
    using s(2) by (metis domIff map_le_implies_dom_le subsetD)
  have st: "snd (login_attempt L c ip q a) \<in>
      {a, recordAuthFailure c ip a, recordAuthFailure c ip a1, a2, onAuthSuccess ip a2}"
    using v w by (auto simp: login_attempt_def Let_def split: sum.splits option.splits)
  have a2: "same_setup a a2" using s t same_setup_trans by blast
  have e: "same_setup a a' \<and> (challenges a k = None \<longrightarrow> challenges a' k = None)"
    if "a' \<in> {a, recordAuthFailure c ip a, recordAuthFailure c ip a1, a2, onAuthSuccess ip a2}" for a'
    using that a2 s(1) n t(2) failure_frame [where c = c and ip = ip] success_frame [where a = a2 and ip = ip]
      same_setup_trans [of a a1] same_setup_trans [of a a2] by auto
  show ?thesis by (rule e [OF st])
qed

lemma login_frame:
  "same_setup a (snd (HandleLogin L c r a)) \<and> (challenges a k = None \<longrightarrow> challenges (snd (HandleLogin L c r a)) k = None)"
proof -
  obtain b a1 where b: "isBlocked (getIP r) a = (b, a1)" by fastforce
  have f: "same_setup a a1" "challenges a1 = challenges a"
    using blocked_frame [where a = a and ip = "getIP r"] b by simp_all
  have "snd (HandleLogin L c r a) \<in> {a, a1} \<union> range (\<lambda>q. snd (login_attempt L c (getIP r) q a1))"
    using b by (cases b) (auto simp: HandleLogin_unfold split: option.split)
  then show ?thesis using f attempt_frame [of a1 L c "getIP r" _ k] same_setup_trans [of a a1] by auto
qed

lemma logout_frame:
  "same_setup a (snd (HandleLogout L c r a)) \<and> same_counters a (snd (HandleLogout L c r a)) \<and>
   challenges (snd (HandleLogout L c r a)) = challenges a"
  by (auto simp: HandleLogout_def saveStateLocked_def same_setup_def same_counters_def Let_def split: option.split)

lemma session_frame:
  "same_setup a (snd (HandleSession L c r a)) \<and> same_counters a (snd (HandleSession L c r a)) \<and>
   challenges (snd (HandleSession L c r a)) = challenges a"
  using check_frame [where L = L and c = c and k = "ar_cookie r" and a = a]
  by (auto simp: HandleSession_def same_counters_def split: option.split prod.split)

lemma check_auth_frame:
  "same_setup a (snd (IsAuthenticated L c r a)) \<and> same_counters a (snd (IsAuthenticated L c r a)) \<and>
   challenges (snd (IsAuthenticated L c r a)) = challenges a"
  using check_frame [where L = L and c = c and k = "ar_cookie r" and a = a]
  by (auto simp: IsAuthenticated_def same_counters_def split: prod.split)

lemma step_frame:
  "same_setup a (snd (auth_step L e a)) \<and>
   (challenges a k = None \<longrightarrow> \<not> draws k e \<longrightarrow> challenges (snd (auth_step L e a)) k = None)"
proof (cases e)
  case (EChallenge c r)
  then show ?thesis using challenge_result [of a L c r _ k] by (auto simp: draws_def split: prod.split)
next
  case (ELogin c r)
  then show ?thesis using login_frame [of a L c r k] by (auto split: prod.split)
next
  case (ELogout c r)
  then show ?thesis using logout_frame [of a L c r] by (auto split: prod.split)
next
  case (ESession c r)
  then show ?thesis using session_frame [of a L c r] by (auto split: prod.split)
next
  case (ECheck c r)
  then show ?thesis using check_auth_frame [of a L c r] by auto
next
  case (ETimer now ip)
  then show ?thesis by (auto simp: timer_fires_def same_setup_def split: option.split)
qed

lemma run_frame:
  "same_setup a (snd (auth_run L es a)) \<and>
   (challenges a k = None \<longrightarrow> list_all (\<lambda>e. \<not> draws k e) es \<longrightarrow> challenges (snd (auth_run L es a)) k = None)"
proof (induction es arbitrary: a)
  case (Cons e es)
  obtain x a1 where e: "auth_step L e a = (x, a1)" by fastforce
  then have "same_setup a a1" "challenges a k = None \<Longrightarrow> \<not> draws k e \<Longrightarrow> challenges a1 k = None"
    using step_frame [of a L e k] by auto
  then show ?case using Cons [of a1] e same_setup_trans [of a a1] by (auto split: prod.split)
qed simp

section \<open>Logins\<close>

definition demo_challenge :: signed_challenge where
  "demo_challenge = \<lparr>sc_id = b64_encode [1, 2, 3], sc_username = ''bob'', sc_issued = 1000, sc_expires = 1120, sc_random = b64_encode [4]\<rparr>"

definition demo_nonce :: string where
  "demo_nonce = b64_encode [5] @ ''.'' @ b64_encode [9, 5]"

text \<open>A small library for the examples: HMAC prepends the key, one challenge and one login body exist.\<close>

definition demo_lib :: auth_lib where
  "demo_lib =
     \<lparr>lib_sha256 = (\<lambda>_. [7]), lib_hmac = (\<lambda>k d. k @ take 1 d), lib_challenge_json = (\<lambda>_. [5]),
      lib_parse_challenge = (\<lambda>t. if t = [5] then Some demo_challenge else None),
      lib_state_json = (\<lambda>_. [3]), lib_parse_state = (\<lambda>_. None), lib_parse_user = (\<lambda>_. Some ''bob''),
      lib_parse_login = (\<lambda>t. if t = [1] then Some \<lparr>rq_username = ''bob'', rq_nonce = demo_nonce, rq_proof = ''0742''\<rparr>
                             else Some \<lparr>rq_username = ''eve'', rq_nonce = ''x'', rq_proof = ''00''\<rparr>)\<rparr>"

definition demo_io :: file_io where
  "demo_io = \<lparr>mkdir_ok = True, create_ok = True, write_ok = True, close_ok = True, rename_ok = True\<rparr>"

definition demo_call :: "int \<Rightarrow> auth_call" where
  "demo_call t = \<lparr>at_check = t, at_session = t, at_timer = t, rand_key = [9], rand_id = [1, 2, 3], rand_extra = [4], call_io = demo_io\<rparr>"

definition demo_manager :: auth_manager where
  "demo_manager =
     \<lparr>failedAttempts = Map.empty, resetTimers = Map.empty, am_username = ''bob'', am_password = ''pw'', am_realm = authRealm,
      authEnabled = True, maxFailedAttempts = 2, state_dir = ''.'', authKey = [9],
      challenges = [b64_encode [1, 2, 3] \<mapsto> \<lparr>ch_id = b64_encode [1, 2, 3], ch_username = ''bob'', ch_expires = 1120\<rparr>],
      sessions = Map.empty, state_disk = NoFile\<rparr>"

definition demo_request :: auth_request where
  "demo_request = \<lparr>ar_method = POST, ar_cookie = None, ar_remote = ''10.0.0.7:5000'', ar_body = [1]\<rparr>"



lemma demo_nonce_text: "demo_nonce = ''BQ.CQU''"
  by code_simp

lemma demo_trim: "trim ''bob'' = ''bob''" "trim ''BQ.CQU'' = ''BQ.CQU''" "trim (lower ''0742'') = ''0742''"
  by code_simp+

lemma demo_codec: "b64_decode ''BQ'' = Some [5]" "b64_decode ''CQU'' = Some [9, 5]" "hex_decode ''0742'' = Some [7, 66]"
  by code_simp+

lemma demo_proof: "proof_of demo_lib demo_manager ''BQ.CQU'' = [7, 66]"
  by (simp add: proof_of_def signProof_def deriveUserKey_def demo_lib_def demo_manager_def string_bytes_def)

lemma demo_nonce_valid: "nonce_valid demo_lib 1000 ''bob'' ''BQ.CQU'' demo_manager demo_challenge"
  unfolding nonce_valid_def
  by (intro conjI exI [of _ "''BQ''"] exI [of _ "''CQU''"] exI [of _ "[5]"])
    (simp_all add: demo_codec demo_lib_def demo_manager_def demo_challenge_def)

lemma demo_allowed: "login_allowed demo_lib (demo_call 1000) demo_request demo_manager demo_challenge"
proof -
  have "lib_parse_login demo_lib (ar_body demo_request) = Some \<lparr>rq_username = ''bob'', rq_nonce = ''BQ.CQU'', rq_proof = ''0742''\<rparr>"
    by (simp add: demo_lib_def demo_request_def demo_nonce_text)
  moreover have "ar_method demo_request = POST" "authEnabled demo_manager" "am_username demo_manager = ''bob''"
    "maxFailedAttempts demo_manager = 2" "attempts_of ip demo_manager = 0" "at_check (demo_call 1000) = 1000"
    "save_works (call_io (demo_call 1000)) (state_dir demo_manager)" for ip
    by (simp_all add: demo_request_def demo_manager_def attempts_of_def demo_call_def demo_io_def save_works_def)
  ultimately show ?thesis
    unfolding login_allowed_def
    by (simp add: demo_trim demo_codec demo_proof demo_nonce_valid del: hex_decode.simps)
qed

text \<open>
  C4: A login is granted exactly to who deserves it. \<open>HandleLogin\<close>, undisturbed by other requests,
  answers 200 if and only if authentication is enabled, the request is a POST, the address is not blocked, the user name is the configured one, the nonce is
  signed by this server and names an outstanding unexpired challenge of that user, the proof is the
  HMAC of the nonce under the user's key, and the session could be saved. In that case the challenge
  is gone, the cookie names a new session that is in the table and in the state file and lasts 24
  hours, and the failure counter and timer of the address are cleared.
\<close>

theorem login_exact:
  "(as_status (fst (HandleLogin L c r a)) = 200 \<longleftrightarrow> (\<exists>load. login_allowed L c r a load)) \<and>
   (login_allowed L c r a load \<longrightarrow>
      (case HandleLogin L c r a of
         (x, a') \<Rightarrow>
           challenges a' (sc_id load) = None \<and>
           (\<exists>sid. as_cookie x = Some (sid, 86400, at_session c + 86400) \<and>
              sessions a' sid = Some (granted_session c (am_username a))) \<and>
           saved_sessions L a' \<and> failedAttempts a' (getIP r) = None \<and> resetTimers a' (getIP r) = None))"
proof (intro conjI impI)
  show "as_status (fst (HandleLogin L c r a)) = 200 \<longleftrightarrow> (\<exists>load. login_allowed L c r a load)"
    by (rule login_status_exact)
next
  assume "login_allowed L c r a load"
  then show "case HandleLogin L c r a of
         (x, a') \<Rightarrow>
           challenges a' (sc_id load) = None \<and>
           (\<exists>sid. as_cookie x = Some (sid, 86400, at_session c + 86400) \<and>
              sessions a' sid = Some (granted_session c (am_username a))) \<and>
           saved_sessions L a' \<and> failedAttempts a' (getIP r) = None \<and> resetTimers a' (getIP r) = None"
    by (rule login_grants) (simp add: granted_reply_def authSessionTTL_def)
qed

theorem login_exact_witness:
  "login_allowed demo_lib (demo_call 1000) demo_request demo_manager demo_challenge \<and>
   as_status (fst (HandleLogin demo_lib (demo_call 1000) demo_request demo_manager)) = 200 \<and>
   challenges (snd (HandleLogin demo_lib (demo_call 1000) demo_request demo_manager)) (sc_id demo_challenge) = None"
  using login_exact [of demo_lib "demo_call 1000" demo_request demo_manager demo_challenge] demo_allowed
  by (auto simp: split_def)

lemma nonce_determines:
  "nonce_valid L now u n a x \<Longrightarrow> nonce_valid L now' u' n b y \<Longrightarrow> x = y"
proof -
  assume a: "nonce_valid L now u n a x" "nonce_valid L now' u' n b y"
  then obtain p q tx p' q' tx' where
    "n = p @ ''.'' @ q" "CHR ''.'' \<notin> set p" "CHR ''.'' \<notin> set q" "b64_decode p = Some tx" "lib_parse_challenge L tx = Some x"
    "n = p' @ ''.'' @ q'" "CHR ''.'' \<notin> set p'" "CHR ''.'' \<notin> set q'" "b64_decode p' = Some tx'" "lib_parse_challenge L tx' = Some y"
    unfolding nonce_valid_def by blast
  moreover from this have "[p, q] = [p', q']"
    using split_on_two [of "CHR ''.''" n p q] split_on_two [of "CHR ''.''" n p' q'] by simp
  ultimately show "x = y" by simp
qed

text \<open>
  C7: A nonce logs in once. After a login with some nonce was granted, no later login that presents
  the same nonce is granted, whatever requests, checks and timers come in between, as long as no
  later challenge happens to draw the identifier of the spent one.
\<close>

theorem nonce_single_use:
  assumes "login_allowed L c r a load" and "lib_parse_login L (ar_body r) = Some q"
    and "list_all (\<lambda>e. \<not> draws (sc_id load) e) es"
    and "lib_parse_login L (ar_body r') = Some q'" and "trim (rq_nonce q') = trim (rq_nonce q)"
  shows "as_status (fst (HandleLogin L c' r' (snd (auth_run L es (snd (HandleLogin L c r a)))))) \<noteq> 200"
proof
  let ?b = "snd (auth_run L es (snd (HandleLogin L c r a)))"
  assume "as_status (fst (HandleLogin L c' r' ?b)) = 200"
  then obtain load' where l: "login_allowed L c' r' ?b load'" unfolding login_status_exact by blast
  have "nonce_valid L (at_check c) (am_username a) (trim (rq_nonce q)) a load"
    using assms(1,2) by (auto simp: login_allowed_def)
  moreover have v: "nonce_valid L (at_check c') (am_username ?b) (trim (rq_nonce q)) ?b load'"
    using l assms(4,5) by (auto simp: login_allowed_def)
  ultimately have "load' = load" using nonce_determines by blast
  moreover have "challenges (snd (HandleLogin L c r a)) (sc_id load) = None"
    by (rule login_grants [OF assms(1)]) simp
  then have "challenges ?b (sc_id load) = None" using run_frame assms(3) by blast
  ultimately show False using v by (simp add: nonce_valid_def)
qed

theorem nonce_single_use_witness:
  "as_status (fst (HandleLogin demo_lib (demo_call 1001) demo_request
     (snd (auth_run demo_lib [ECheck (demo_call 1001) demo_request, ETimer 0 ''10.0.0.7'']
        (snd (HandleLogin demo_lib (demo_call 1000) demo_request demo_manager)))))) \<noteq> 200"
proof -
  have q: "lib_parse_login demo_lib (ar_body demo_request) = Some \<lparr>rq_username = ''bob'', rq_nonce = demo_nonce, rq_proof = ''0742''\<rparr>"
    by (simp add: demo_lib_def demo_request_def)
  show ?thesis
    by (rule nonce_single_use [OF demo_allowed q _ q]) (simp_all add: draws_def)
qed

section \<open>From a challenge to a login\<close>

definition free_ip :: "string \<Rightarrow> auth_manager \<Rightarrow> bool" where
  "free_ip ip a \<longleftrightarrow> \<not> (0 < maxFailedAttempts a \<and> maxFailedAttempts a \<le> attempts_of ip a)"

lemma b64_empty_iff [simp]: "b64_encode bs = [] \<longleftrightarrow> bs = []"
  by (cases bs rule: b64_encode.cases) auto

lemma challenge_issued:
  assumes "lib_parse_challenge L (lib_challenge_json L (challenge_payload c (am_username a))) = Some (challenge_payload c (am_username a))"
    and "authEnabled a" and "am_username a \<noteq> ''''" and "free_ip (getIP r) a" and "ar_method r = POST"
    and "lib_parse_user L (ar_body r) = Some u" and "trim u = am_username a" and "rand_id c \<noteq> []"
  obtains nonce a1 load where
    "HandleChallenge L c r a = ((auth_reply 200 ''ok'')\<lparr>as_data := ChallengeData (am_realm a) nonce authAlgorithm\<rparr>, a1)"
    "same_setup a a1" "\<And>ip. attempts_of ip a1 = attempts_of ip a" "trim nonce = nonce" "nonce \<noteq> ''''"
    "\<And>now. at_check c \<le> now \<Longrightarrow> now < at_check c + authChallengeTTL \<Longrightarrow> nonce_valid L now (am_username a) nonce a1 load"
proof -
  define a0 where "a0 = snd (isBlocked (getIP r) a)"
  have b: "isBlocked (getIP r) a = (False, a0)"
    using assms(4) blocked_exact [of "getIP r" a] by (auto simp: free_ip_def a0_def prod_eq_iff)
  have f: "same_setup a a0" "\<And>ip. attempts_of ip a0 = attempts_of ip a" unfolding a0_def by (simp_all add: blocked_frame)
  define load where "load = challenge_payload c (am_username a)"
  define tx where "tx = lib_challenge_json L load"
  define nonce where "nonce = b64_encode tx @ ''.'' @ b64_encode (lib_hmac L (authKey a) tx)"
  define pr where "pr = pruneExpired ch_expires (at_check c) (non_nil (challenges a0))"
  define a1 where "a1 = a0\<lparr>challenges := pr(randomToken (rand_id c) \<mapsto>
     \<lparr>ch_id = randomToken (rand_id c), ch_username = am_username a, ch_expires = at_check c + authChallengeTTL\<rparr>)\<rparr>"
  have i: "issueChallenge L c (am_username a) a0 = (Inr nonce, a1)"
    using f(1) assms(2) by (simp add: issueChallenge_def pruneExpiredChallengesLocked_def Let_def same_setup_def signWithKey_def
        load_def challenge_payload_def tx_def nonce_def a1_def pr_def)
  have s: "same_setup a a1" using f(1) by (simp add: a1_def same_setup_def)
  have "HandleChallenge L c r a = ((auth_reply 200 ''ok'')\<lparr>as_data := ChallengeData (am_realm a) nonce authAlgorithm\<rparr>, a1)"
    using b assms(2,3,5,6,7) i s by (simp add: HandleChallenge_def same_setup_def)
  moreover have "attempts_of ip a1 = attempts_of ip a" for ip using f(2) by (simp add: a1_def attempts_of_def)
  moreover have "trim nonce = nonce" "nonce \<noteq> ''''" unfolding nonce_def using b64.token_plain by simp_all
  moreover have "nonce_valid L now (am_username a) nonce a1 load"
    if "at_check c \<le> now" "now < at_check c + authChallengeTTL" for now
  proof -
    have "authKey a1 = authKey a" "lib_parse_challenge L tx = Some load"
      using s assms(1) by (simp_all add: same_setup_def tx_def load_def)
    then have "\<exists>p q text. nonce = p @ ''.'' @ q \<and> CHR ''.'' \<notin> set p \<and> CHR ''.'' \<notin> set q \<and>
        b64_decode p = Some text \<and> b64_decode q = Some (lib_hmac L (authKey a1) text) \<and>
        lib_parse_challenge L text = Some load"
      by (intro exI [of _ "b64_encode tx"] exI [of _ "b64_encode (lib_hmac L (authKey a) tx)"] exI [of _ tx])
        (simp add: nonce_def b64_roundtrip b64_no_dot)
    then show ?thesis unfolding nonce_valid_def using that assms(8) by (simp add: load_def challenge_payload_def a1_def randomToken_def)
  qed
  ultimately show ?thesis using that s by blast
qed

text \<open>
  C15: An honest client gets in. With authentication enabled, a POST asking a challenge for the configured
  user from an address that is not blocked is answered with a nonce, if the random bytes drawn are not
  empty; the next login, if it comes within 120 seconds from an address that is not blocked
  and sends this nonce and the hexadecimal HMAC of it under the key derived from user, realm and
  password, is granted, provided the session can be saved. That this challenge survives its JSON text
  is the only assumption on the coders.
\<close>

theorem challenge_then_login:
  assumes "lib_parse_challenge L (lib_challenge_json L (challenge_payload c (am_username a))) = Some (challenge_payload c (am_username a))"
    and "authEnabled a" and "am_username a \<noteq> ''''" and "free_ip (getIP r) a" and "ar_method r = POST"
    and "lib_parse_user L (ar_body r) = Some u" and "trim u = am_username a" and "rand_id c \<noteq> []"
  shows "\<exists>nonce a1. HandleChallenge L c r a =
           ((auth_reply 200 ''ok'')\<lparr>as_data := ChallengeData (am_realm a) nonce authAlgorithm\<rparr>, a1) \<and>
         (\<forall>c' r'. ar_method r' = POST \<and> free_ip (getIP r') a \<and> at_check c \<le> at_check c' \<and> at_check c' < at_check c + 120 \<and>
            lib_parse_login L (ar_body r') =
              Some \<lparr>rq_username = am_username a, rq_nonce = nonce, rq_proof = hex_encode (proof_of L a nonce)\<rparr> \<and>
            proof_of L a nonce \<noteq> [] \<and> save_works (call_io c') (state_dir a) \<longrightarrow>
            as_status (fst (HandleLogin L c' r' a1)) = 200)"
proof -
  obtain nonce a1 load where
    n: "HandleChallenge L c r a = ((auth_reply 200 ''ok'')\<lparr>as_data := ChallengeData (am_realm a) nonce authAlgorithm\<rparr>, a1)"
      "same_setup a a1" "\<And>ip. attempts_of ip a1 = attempts_of ip a" "trim nonce = nonce" "nonce \<noteq> ''''"
    and v: "\<And>now. at_check c \<le> now \<Longrightarrow> now < at_check c + authChallengeTTL \<Longrightarrow> nonce_valid L now (am_username a) nonce a1 load"
    using challenge_issued [OF assms] by metis
  have u: "trim (am_username a) = am_username a" using assms(7) trim_idem by metis
  have p: "hex_encode bs \<noteq> []" if "bs \<noteq> []" for bs using that by (cases bs) auto
  have "as_status (fst (HandleLogin L c' r' a1)) = 200"
    if h: "ar_method r' = POST" "free_ip (getIP r') a" "at_check c \<le> at_check c'" "at_check c' < at_check c + 120"
      "lib_parse_login L (ar_body r') =
         Some \<lparr>rq_username = am_username a, rq_nonce = nonce, rq_proof = hex_encode (proof_of L a nonce)\<rparr>"
      "proof_of L a nonce \<noteq> []" "save_works (call_io c') (state_dir a)" for c' r'
  proof -
    have "nonce_valid L (at_check c') (am_username a) nonce a1 load" using v h(3,4) by (simp add: authChallengeTTL_def)
    moreover have "proof_of L a1 nonce = proof_of L a nonce" using n(2) by (simp add: proof_of_def same_setup_def)
    ultimately have "login_allowed L c' r' a1 load"
      unfolding login_allowed_def using h n assms(2,3) u p
      by (auto simp: same_setup_def free_ip_def trim_lower_hex hex_roundtrip)
    then show ?thesis unfolding login_status_exact by blast
  qed
  then show ?thesis using n(1) by blast
qed

theorem challenge_then_login_witness:
  "\<exists>nonce a1. HandleChallenge demo_lib (demo_call 1000) demo_request demo_manager =
      ((auth_reply 200 ''ok'')\<lparr>as_data := ChallengeData (am_realm demo_manager) nonce authAlgorithm\<rparr>, a1)"
proof -
  have h: "lib_parse_challenge demo_lib (lib_challenge_json demo_lib (challenge_payload (demo_call 1000) (am_username demo_manager))) =
      Some (challenge_payload (demo_call 1000) (am_username demo_manager))"
    "authEnabled demo_manager" "am_username demo_manager \<noteq> ''''" "free_ip (getIP demo_request) demo_manager"
    "ar_method demo_request = POST" "lib_parse_user demo_lib (ar_body demo_request) = Some ''bob''"
    "trim ''bob'' = am_username demo_manager" "rand_id (demo_call 1000) \<noteq> []"
    using demo_trim(1)
    by (simp_all add: demo_lib_def demo_call_def demo_manager_def demo_request_def demo_challenge_def challenge_payload_def
        randomToken_def authChallengeTTL_def free_ip_def attempts_of_def)
  show ?thesis using challenge_then_login [OF h] by blast
qed

text \<open>The names in requests are trimmed, the configured name is not: a configured name with blanks at
  its ends locks its owner out.\<close>

theorem padded_username_locked_out:
  "trim (am_username a) \<noteq> am_username a \<Longrightarrow> as_status (fst (HandleLogin L c r a)) \<noteq> 200"
  unfolding login_status_exact login_allowed_def using trim_idem by metis

section \<open>Failure counters\<close>

lemma record_counters:
  "failedAttempts (recordAuthFailure c ip a) =
     (if maxFailedAttempts a \<le> 0 then failedAttempts a else (failedAttempts a)(ip \<mapsto> attempts_of ip a + 1))"
  "resetTimers (recordAuthFailure c ip a) =
     (if maxFailedAttempts a \<le> 0 \<or> attempts_of ip a + 1 < maxFailedAttempts a then resetTimers a
      else (resetTimers a)(ip \<mapsto> at_timer c + resetDuration))"
  by (auto simp: recordAuthFailure_def load_attempts_def store_attempts_def cancelTimerIfExists_def Let_def split: option.splits)

lemma success_counters:
  "failedAttempts (onAuthSuccess ip a) = (failedAttempts a)(ip := None)"
  "resetTimers (onAuthSuccess ip a) = (resetTimers a)(ip := None)"
  by (auto simp: onAuthSuccess_def cancelTimerIfExists_def split: option.splits)

text \<open>What a login request does to the counters, by the status it is answered with.\<close>

definition counted :: "auth_call \<Rightarrow> string \<Rightarrow> int \<Rightarrow> auth_manager \<Rightarrow> auth_manager \<Rightarrow> bool" where
  "counted c ip status a b \<longleftrightarrow>
     (if status = 401 \<and> 0 < maxFailedAttempts a then
        (\<forall>jp. attempts_of jp b = attempts_of jp a + (if jp = ip then 1 else 0)) \<and>
        resetTimers b = (if attempts_of ip a + 1 < maxFailedAttempts a then resetTimers a
                         else (resetTimers a)(ip \<mapsto> at_timer c + resetDuration))
      else if status = 200 then
        (\<forall>jp. attempts_of jp b = (if jp = ip then 0 else attempts_of jp a)) \<and> resetTimers b = (resetTimers a)(ip := None)
      else (\<forall>jp. attempts_of jp b = attempts_of jp a) \<and> resetTimers b = resetTimers a)"

lemma counted_401:
  "same_counters a b \<Longrightarrow> maxFailedAttempts b = maxFailedAttempts a \<Longrightarrow> counted c ip 401 a (recordAuthFailure c ip b)"
  by (simp add: counted_def same_counters_def attempts_of_def record_counters)

lemma counted_200: "same_counters a b \<Longrightarrow> counted c ip 200 a (onAuthSuccess ip b)"
  by (simp add: counted_def same_counters_def attempts_of_def success_counters)

lemma counted_other: "s \<noteq> 200 \<Longrightarrow> s \<noteq> 401 \<Longrightarrow> same_counters a b \<Longrightarrow> counted c ip s a b"
  by (simp add: counted_def same_counters_def attempts_of_def)

lemma attempt_counted:
  "counted c ip (as_status (fst (login_attempt L c ip q a))) a (snd (login_attempt L c ip q a))"
proof -
  obtain v a1 where v: "consumeChallenge L c (am_username a) (trim (rq_nonce q)) a = (v, a1)" by fastforce
  have s: "same_counters a a1" "maxFailedAttempts a1 = maxFailedAttempts a"
    using consume_frame [of a L c "am_username a" "trim (rq_nonce q)"] v by (simp_all add: only_challenges_def same_setup_def)
  obtain w a2 where w: "createSession L c (am_username a) a1 = (w, a2)" by fastforce
  have t: "same_counters a a2"
    using create_frame [where a = a1 and L = L and c = c and u = "am_username a"] w s by (simp add: same_counters_def)
  have z: "same_counters a a" by (simp add: same_counters_def)
  consider "trim (rq_username q) = '''' \<or> trim (rq_nonce q) = '''' \<or> trim (lower (rq_proof q)) = ''''"
    | "trim (rq_username q) \<noteq> am_username a" "\<not> (trim (rq_username q) = '''' \<or> trim (rq_nonce q) = '''' \<or> trim (lower (rq_proof q)) = '''')"
    | "trim (rq_username q) = am_username a" "\<not> (trim (rq_username q) = '''' \<or> trim (rq_nonce q) = '''' \<or> trim (lower (rq_proof q)) = '''')"
    by blast
  then show ?thesis
  proof cases
    case 1
    then show ?thesis using z counted_other [of 400] by (simp add: login_attempt_def Let_def auth_reply_def)
  next
    case 2
    then show ?thesis using counted_401 [OF z] by (simp add: login_attempt_def Let_def auth_reply_def)
  next
    case 3
    then show ?thesis
      using v w counted_401 [OF s] counted_200 [OF t] counted_other [OF _ _ t, of 500]
      by (cases v; cases w) (simp_all add: login_attempt_def Let_def auth_reply_def)
  qed
qed

lemma login_counted: "counted c (getIP r) (as_status (fst (HandleLogin L c r a))) a (snd (HandleLogin L c r a))"
proof -
  obtain b a1 where b: "isBlocked (getIP r) a = (b, a1)" by fastforce
  have f: "resetTimers a1 = resetTimers a" "\<And>jp. attempts_of jp a1 = attempts_of jp a" "maxFailedAttempts a1 = maxFailedAttempts a"
    using blocked_frame [where a = a and ip = "getIP r"] b by (simp_all add: same_setup_def)
  have m: "counted c ip s a1 x \<longleftrightarrow> counted c ip s a x" for ip s x by (simp add: counted_def f)
  have o: "counted c ip s a a1" "counted c ip s a a" if "s \<noteq> 200" "s \<noteq> 401" for ip s using that by (simp_all add: counted_def f)
  show ?thesis
    using attempt_counted [where a = a1 and c = c and ip = "getIP r" and L = L] b o m
    by (cases b) (auto simp: HandleLogin_unfold auth_reply_def split: option.split)
qed

lemma login_blocked_status:
  "as_status (fst (HandleLogin L c r a)) = 401 \<Longrightarrow> 0 < maxFailedAttempts a \<Longrightarrow> attempts_of (getIP r) a < maxFailedAttempts a"
  using blocked_exact [of "getIP r" a]
  by (cases "isBlocked (getIP r) a") (auto simp: HandleLogin_unfold auth_reply_def split: if_splits bool.splits)

text \<open>The other events leave the counters alone, a timer clears those of its address.\<close>

lemma step_counters_other:
  "case e of ELogin c r \<Rightarrow> True
   | ETimer now ip \<Rightarrow> snd (auth_step L e a) = a \<or>
       (\<exists>d. resetTimers a ip = Some d \<and> d \<le> now) \<and> snd (auth_step L e a) = timer_fires ip a
   | _ \<Rightarrow> (\<forall>jp. attempts_of jp (snd (auth_step L e a)) = attempts_of jp a) \<and> resetTimers (snd (auth_step L e a)) = resetTimers a"
proof (cases e)
  case (EChallenge c r)
  then show ?thesis using challenge_result [of a L c r] by (simp add: split_def)
next
  case (ELogout c r)
  then show ?thesis using logout_frame [of a L c r] by (simp add: split_def same_counters_def attempts_of_def)
next
  case (ESession c r)
  then show ?thesis using session_frame [of a L c r] by (simp add: split_def same_counters_def attempts_of_def)
next
  case (ECheck c r)
  then show ?thesis using check_auth_frame [of a L c r] by (simp add: split_def same_counters_def attempts_of_def)
qed (auto split: option.split)



lemma step_max: "maxFailedAttempts (snd (auth_step L e a)) = maxFailedAttempts a"
  using step_frame [of a L e] by (simp add: same_setup_def)


section \<open>Login requests that overlap\<close>


















text \<open>The blocked addresses are those with a running timer, started by a failed login of that address.\<close>

definition lock_inv :: "auth_event list \<Rightarrow> auth_manager \<Rightarrow> bool" where
  "lock_inv es a \<longleftrightarrow>
     (\<forall>ip. (0 < maxFailedAttempts a \<and> maxFailedAttempts a \<le> attempts_of ip a \<longleftrightarrow> resetTimers a ip \<noteq> None) \<and>
           (\<forall>d. resetTimers a ip = Some d \<longrightarrow> (\<exists>c r. ELogin c r \<in> set es \<and> getIP r = ip \<and> d = at_timer c + resetDuration)))"

lemma lock_inv_same:
  "lock_inv es a \<Longrightarrow> set es \<subseteq> set es' \<Longrightarrow> maxFailedAttempts b = maxFailedAttempts a \<Longrightarrow>
   (\<And>ip. attempts_of ip b = attempts_of ip a) \<Longrightarrow> resetTimers b = resetTimers a \<Longrightarrow> lock_inv es' b"
  by (fastforce simp: lock_inv_def)

lemma lock_inv_fail:
  assumes "lock_inv es a" and "attempts_of (getIP r) a < maxFailedAttempts a" and "maxFailedAttempts b = maxFailedAttempts a"
    and "counted c (getIP r) 401 a b" and "0 < maxFailedAttempts a"
  shows "lock_inv (es @ [ELogin c r]) b"
  unfolding lock_inv_def
proof (intro allI conjI)
  fix ip
  have k: "attempts_of ip b = attempts_of ip a + (if ip = getIP r then 1 else 0)"
    "resetTimers b = (if attempts_of (getIP r) a + 1 < maxFailedAttempts a then resetTimers a
       else (resetTimers a)(getIP r \<mapsto> at_timer c + resetDuration))"
    using assms(4,5) by (simp_all add: counted_def)
  have i: "0 < maxFailedAttempts a \<and> maxFailedAttempts a \<le> attempts_of ip a \<longleftrightarrow> resetTimers a ip \<noteq> None"
    "resetTimers a ip = Some d \<Longrightarrow> \<exists>c r. ELogin c r \<in> set es \<and> getIP r = ip \<and> d = at_timer c + resetDuration" for d
    using assms(1) unfolding lock_inv_def by blast+
  show "0 < maxFailedAttempts b \<and> maxFailedAttempts b \<le> attempts_of ip b \<longleftrightarrow> resetTimers b ip \<noteq> None"
    using i(1) k assms(2,3,5) by auto
  show "resetTimers b ip = Some d \<longrightarrow>
      (\<exists>c' r'. ELogin c' r' \<in> set (es @ [ELogin c r]) \<and> getIP r' = ip \<and> d = at_timer c' + resetDuration)" for d
    using i(2) [of d] k(2) by (auto split: if_splits)
qed

lemma lock_inv_timer: "lock_inv es a \<Longrightarrow> lock_inv (es @ [e]) (timer_fires jp a)"
  unfolding lock_inv_def
proof (intro allI)
  fix ip
  assume i: "\<forall>ip. (0 < maxFailedAttempts a \<and> maxFailedAttempts a \<le> attempts_of ip a \<longleftrightarrow> resetTimers a ip \<noteq> None) \<and>
    (\<forall>d. resetTimers a ip = Some d \<longrightarrow> (\<exists>c r. ELogin c r \<in> set es \<and> getIP r = ip \<and> d = at_timer c + resetDuration))"
  have t: "maxFailedAttempts (timer_fires jp a) = maxFailedAttempts a"
    "attempts_of ip (timer_fires jp a) = (if ip = jp then 0 else attempts_of ip a)"
    "resetTimers (timer_fires jp a) ip = (if ip = jp then None else resetTimers a ip)"
    by (simp_all add: timer_fires_def attempts_of_def)
  show "(0 < maxFailedAttempts (timer_fires jp a) \<and> maxFailedAttempts (timer_fires jp a) \<le> attempts_of ip (timer_fires jp a) \<longleftrightarrow>
      resetTimers (timer_fires jp a) ip \<noteq> None) \<and>
    (\<forall>d. resetTimers (timer_fires jp a) ip = Some d \<longrightarrow>
      (\<exists>c r. ELogin c r \<in> set (es @ [e]) \<and> getIP r = ip \<and> d = at_timer c + resetDuration))"
    unfolding t using i [rule_format, of ip] by (cases "ip = jp") (simp_all, blast)
qed

lemma lock_inv_step: "lock_inv es a \<Longrightarrow> lock_inv (es @ [e]) (snd (auth_step L e a))"
proof -
  assume i: "lock_inv es a"
  let ?b = "snd (auth_step L e a)"
  have same: "lock_inv (es @ [e]) ?b"
    if "\<forall>jp. attempts_of jp ?b = attempts_of jp a" "resetTimers ?b = resetTimers a"
    using lock_inv_same [OF i, of "es @ [e]" ?b] that step_max by auto
  show ?thesis
  proof (cases e)
    case (ELogin c r)
    let ?s = "as_status (fst (HandleLogin L c r a))"
    have k: "counted c (getIP r) ?s a ?b" using login_counted [of c r L a] ELogin by (simp add: split_def)
    consider "?s = 401" "0 < maxFailedAttempts a" | "?s = 401" "\<not> 0 < maxFailedAttempts a" | "?s = 200" | "?s \<noteq> 401" "?s \<noteq> 200" by blast
    then show ?thesis
    proof cases
      case 1
      have "attempts_of (getIP r) a < maxFailedAttempts a"
        using login_blocked_status [of L c r a] 1 by blast
      then show ?thesis using lock_inv_fail [OF i, of r ?b c] k 1 ELogin step_max [of L e a] by simp
    next
      case 2
      then show ?thesis using k same by (simp add: counted_def)
    next
      case 3
      then show ?thesis using k i step_max [of L e a] by (fastforce simp: counted_def lock_inv_def)
    next
      case 4
      then show ?thesis using k same by (simp add: counted_def)
    qed
  next
    case (ETimer now jp)
    then consider "?b = a" | "?b = timer_fires jp a"
      using step_counters_other [where e = e and L = L and a = a] by auto
    then show ?thesis
    proof cases
      case 1
      then show ?thesis using same by simp
    next
      case 2
      then show ?thesis using lock_inv_timer [OF i] by simp
    qed
  qed (use step_counters_other [where e = e and L = L and a = a] same in simp_all)
qed

lemma lock_inv_run: "lock_inv es0 a \<Longrightarrow> lock_inv (es0 @ es) (snd (auth_run L es a))"
proof (induction es arbitrary: es0 a)
  case (Cons e es)
  then show ?case using Cons.IH [OF lock_inv_step, of es0 a e L] by (simp add: split_def)
qed simp

lemma new_counters: "failedAttempts (NewAuthManager L c c2 dir disk u p m) = Map.empty \<and>
    resetTimers (NewAuthManager L c c2 dir disk u p m) = Map.empty"
proof -
  have s: "same_counters a (snd (saveStateLocked L f a))" for f a by (rule save_frame)
  have l: "same_counters a (snd (loadState L c a))" for a
    using s by (auto simp: loadState_def fresh_state_def same_counters_def Let_def split: state_file.split option.split)
  have i: "same_counters a (initState L c c2 a)" for a
  proof (cases "loadState L c a")
    case (Pair b a')
    then show ?thesis using s [of "fresh_state (rand_key c2) a'"] l [of a]
      by (cases b) (simp_all add: initState_def fresh_state_def same_counters_def)
  qed
  show ?thesis using i by (simp add: NewAuthManager_def same_counters_def Let_def)
qed

lemma new_max: "maxFailedAttempts (NewAuthManager L c c2 dir disk u p m) = m"
proof -
  have s: "maxFailedAttempts (snd (saveStateLocked L f a)) = maxFailedAttempts a" for f a
    using save_frame(1) [where L = L and f = f and a = a] by (simp add: same_setup_def)
  have l: "maxFailedAttempts (snd (loadState L c a)) = maxFailedAttempts a" for a
    using s by (auto simp: loadState_def fresh_state_def Let_def split: state_file.split option.split)
  have "maxFailedAttempts (initState L c c2 a) = maxFailedAttempts a" for a
  proof (cases "loadState L c a")
    case (Pair b a')
    then show ?thesis using s [of _ "fresh_state (rand_key c2) a'"] l [of a]
      by (cases b) (simp_all add: initState_def fresh_state_def)
  qed
  then show ?thesis by (simp add: NewAuthManager_def Let_def)
qed

text \<open>
  No lockout lasts. In every state the server reaches, an address is blocked exactly when a reset
  timer is running for it; the timer is due one hour after a failed login of that address, and once it
  fires the address is free again.
\<close>

theorem lockout_temporary:
  assumes "a = snd (auth_run L es (NewAuthManager L c c2 dir disk u p m))"
  shows "(fst (isBlocked ip a) \<longleftrightarrow> resetTimers a ip \<noteq> None) \<and>
         (resetTimers a ip = Some d \<longrightarrow>
            (\<exists>c r. ELogin c r \<in> set es \<and> getIP r = ip \<and> d = at_timer c + 3600) \<and>
            (d \<le> now \<longrightarrow> \<not> fst (isBlocked ip (snd (auth_step L (ETimer now ip) a)))))"
proof -
  have "lock_inv [] (NewAuthManager L c c2 dir disk u p m)"
    using new_counters [of L c c2 dir disk u p m] new_max [of L c c2 dir disk u p m] by (auto simp: lock_inv_def attempts_of_def)
  from lock_inv_run [OF this, of es L] have i: "lock_inv es a" using assms by simp
  have "\<not> fst (isBlocked ip (timer_fires ip a))" by (auto simp: blocked_exact timer_fires_def attempts_of_def)
  then show ?thesis using i by (auto simp: lock_inv_def blocked_exact resetDuration_def)
qed

theorem lockout_temporary_witness:
  "fst (isBlocked ''10.0.0.7'' (snd (auth_run demo_lib [] (NewAuthManager demo_lib (demo_call 1) (demo_call 1) ''.'' NoFile ''bob'' ''pw'' 2)))) \<longleftrightarrow>
   resetTimers (snd (auth_run demo_lib [] (NewAuthManager demo_lib (demo_call 1) (demo_call 1) ''.'' NoFile ''bob'' ''pw'' 2))) ''10.0.0.7'' \<noteq> None"
  using lockout_temporary [OF refl, of "''10.0.0.7''" demo_lib "[]" "demo_call 1" "demo_call 1" "''.''" NoFile "''bob''" "''pw''" 2]
  by blast

text \<open>Two failures that overlap, each reading the counter before the other has stored it, count once:
  \<open>recordAuthFailure\<close> reads and writes the shared map without holding the lock across both.\<close>

theorem concurrent_failures_undercount:
  assumes "0 < maxFailedAttempts a" and "attempts_of ip a + 1 < maxFailedAttempts a"
  shows "case load_attempts ip a of (n1, a1) \<Rightarrow> case load_attempts ip a1 of (n2, a2) \<Rightarrow>
           attempts_of ip (store_attempts c ip (n2 + 1) (store_attempts c ip (n1 + 1) a2)) = attempts_of ip a + 1"
  using assms by (simp add: load_attempts_def store_attempts_def attempts_of_def Let_def split: option.split)

section \<open>Sessions\<close>

definition keeps :: "string \<Rightarrow> int \<Rightarrow> auth_event \<Rightarrow> bool" where
  "keeps v x e \<longleftrightarrow>
     (case e of
        ELogin c r \<Rightarrow> randomToken (rand_id c) \<noteq> v \<and> at_session c < x
      | ELogout c r \<Rightarrow> ar_method r = POST \<longrightarrow> ar_cookie r \<noteq> Some v
      | ESession c r \<Rightarrow> ar_cookie r = Some v \<longrightarrow> at_check c < x
      | ECheck c r \<Rightarrow> ar_cookie r = Some v \<longrightarrow> at_check c < x
      | _ \<Rightarrow> True)"

definition opens :: "string \<Rightarrow> auth_event \<Rightarrow> bool" where
  "opens v e \<longleftrightarrow> (case e of ELogin c r \<Rightarrow> randomToken (rand_id c) = v | _ \<Rightarrow> False)"

text \<open>One session as the handlers may change it: only its last-seen time moves.\<close>

definition session_core :: "auth_session \<Rightarrow> string \<times> string \<times> int \<times> int" where
  "session_core s = (se_id s, se_username s, se_issued s, se_expires s)"

definition same_session :: "auth_session option \<Rightarrow> auth_session option \<Rightarrow> bool" where
  "same_session x y \<longleftrightarrow> map_option session_core x = map_option session_core y"

lemma same_session_refl [simp]: "same_session x x"
  by (simp add: same_session_def)

lemma same_session_None [simp]: "same_session None y \<longleftrightarrow> y = None"
  by (cases y) (auto simp: same_session_def)

lemma same_session_Some: "same_session (Some s) y \<Longrightarrow> \<exists>s'. y = Some s' \<and> se_expires s' = se_expires s \<and> se_username s' = se_username s"
  by (cases y) (auto simp: same_session_def session_core_def)

lemma save_sessions: "sessions (snd (saveStateLocked L f a)) = sessions a"
  by (rule save_frame)

lemma create_sessions:
  "k \<noteq> randomToken (rand_id c) \<Longrightarrow>
   sessions (snd (createSession L c u a)) k = pruneExpired se_expires (at_session c) (non_nil (sessions a)) k"
  by (auto simp: createSession_def saveStateLocked_def pruneExpiredSessionsLocked_def Let_def)

lemma attempt_sessions:
  assumes "k \<noteq> randomToken (rand_id c)"
  shows "sessions (snd (login_attempt L c ip q a)) k \<in>
           {sessions a k, pruneExpired se_expires (at_session c) (non_nil (sessions a)) k}"
proof -
  obtain v a1 where v: "consumeChallenge L c (am_username a) (trim (rq_nonce q)) a = (v, a1)" by fastforce
  have s: "sessions a1 = sessions a"
    using consume_frame [of a L c "am_username a" "trim (rq_nonce q)"] v by (simp add: only_challenges_def)
  obtain w a2 where w: "createSession L c (am_username a) a1 = (w, a2)" by fastforce
  have t: "sessions a2 k = pruneExpired se_expires (at_session c) (non_nil (sessions a)) k"
    using create_sessions [OF assms, of L "am_username a" a1] w s by simp
  have "snd (login_attempt L c ip q a) \<in>
      {a, recordAuthFailure c ip a, recordAuthFailure c ip a1, a2, onAuthSuccess ip a2}"
    using v w by (auto simp: login_attempt_def Let_def split: sum.splits option.splits)
  then show ?thesis using s t failure_frame(2) [where c = c and ip = ip] success_frame(2) [where ip = ip and a = a2] by auto
qed

lemma login_sessions:
  assumes "k \<noteq> randomToken (rand_id c)"
  shows "sessions (snd (HandleLogin L c r a)) k \<in>
           {sessions a k, pruneExpired se_expires (at_session c) (non_nil (sessions a)) k}"
proof -
  obtain b a1 where b: "isBlocked (getIP r) a = (b, a1)" by fastforce
  have f: "sessions a1 = sessions a" using blocked_frame(2) [where a = a and ip = "getIP r"] b by simp
  have "snd (HandleLogin L c r a) \<in> {a, a1} \<union> range (\<lambda>q. snd (login_attempt L c (getIP r) q a1))"
    using b by (cases b) (auto simp: HandleLogin_unfold split: option.split)
  moreover have "sessions (snd (login_attempt L c (getIP r) q a1)) k \<in>
      {sessions a k, pruneExpired se_expires (at_session c) (non_nil (sessions a)) k}" for q
    using attempt_sessions [OF assms, of L "getIP r" q a1] f by simp
  ultimately consider "snd (HandleLogin L c r a) = a" | "snd (HandleLogin L c r a) = a1"
    | q where "snd (HandleLogin L c r a) = snd (login_attempt L c (getIP r) q a1)"
      "sessions (snd (login_attempt L c (getIP r) q a1)) k \<in>
        {sessions a k, pruneExpired se_expires (at_session c) (non_nil (sessions a)) k}"
    by blast
  then show ?thesis using f by cases simp_all
qed

lemma check_sessions:
  "same_session (sessions a v) (sessions (snd (session_check L c k a)) v) \<or>
   k = Some v \<and> sessions (snd (session_check L c k a)) v = None \<and> (\<forall>s. sessions a v = Some s \<longrightarrow> se_expires s \<le> at_check c)"
  by (auto simp: session_check_def save_sessions same_session_def session_core_def split: option.split)

lemma step_check_sessions:
  "case e of
     ESession c r \<Rightarrow> sessions (snd (auth_step L e a)) \<in> {sessions a, sessions (snd (session_check L c (ar_cookie r) a))}
   | ECheck c r \<Rightarrow> sessions (snd (auth_step L e a)) \<in> {sessions a, sessions (snd (session_check L c (ar_cookie r) a))}
   | EChallenge c r \<Rightarrow> sessions (snd (auth_step L e a)) = sessions a
   | ETimer now ip \<Rightarrow> sessions (snd (auth_step L e a)) = sessions a
   | ELogout c r \<Rightarrow> sessions (snd (auth_step L e a)) \<in> {sessions a} \<union>
       {(sessions a)(v := None) |v. ar_method r = POST \<and> ar_cookie r = Some v}
   | ELogin c r \<Rightarrow> True"
proof (cases e)
  case (EChallenge c r)
  then show ?thesis using challenge_result [of a L c r] by (simp add: split_def)
next
  case (ESession c r)
  then show ?thesis by (auto simp: HandleSession_def split: prod.split option.split)
next
  case (ECheck c r)
  then show ?thesis by (auto simp: IsAuthenticated_def split: prod.split)
next
  case (ELogout c r)
  then show ?thesis by (auto simp: HandleLogout_def save_sessions split: option.split)
next
  case (ETimer now ip)
  then show ?thesis by (auto simp: timer_fires_def split: option.split)
qed simp

lemma step_session:
  assumes "sessions a v = Some s" and "keeps v (se_expires s) e"
  shows "\<exists>s'. sessions (snd (auth_step L e a)) v = Some s' \<and> se_expires s' = se_expires s \<and> se_username s' = se_username s"
proof (cases e)
  case (ELogin c r)
  then have "sessions (snd (auth_step L e a)) v \<in> {sessions a v, pruneExpired se_expires (at_session c) (non_nil (sessions a)) v}"
    using login_sessions [of v c L r a] assms(2) by (auto simp: keeps_def split_def)
  moreover have "pruneExpired se_expires (at_session c) (non_nil (sessions a)) v = Some s"
    using assms ELogin by (simp add: pruneExpired_def non_nil_def keeps_def)
  ultimately show ?thesis using assms(1) by auto
next
  case (ESession c r)
  then show ?thesis
    using step_check_sessions [where e = e and L = L and a = a] check_sessions [of a v L c "ar_cookie r"] assms same_session_Some [of s]
    by (auto simp: keeps_def)
next
  case (ECheck c r)
  then show ?thesis
    using step_check_sessions [where e = e and L = L and a = a] check_sessions [of a v L c "ar_cookie r"] assms same_session_Some [of s]
    by (auto simp: keeps_def)
qed (use step_check_sessions [where e = e and L = L and a = a] assms in \<open>auto simp: keeps_def\<close>)

lemma step_no_session:
  assumes "sessions a v = None" and "\<not> opens v e"
  shows "sessions (snd (auth_step L e a)) v = None"
proof (cases e)
  case (ELogin c r)
  then have "sessions (snd (auth_step L e a)) v \<in> {sessions a v, pruneExpired se_expires (at_session c) (non_nil (sessions a)) v}"
    using login_sessions [of v c L r a] assms(2) by (auto simp: opens_def split_def)
  then show ?thesis using assms(1) by (auto simp: pruneExpired_def non_nil_def)
next
  case (ESession c r)
  then show ?thesis using step_check_sessions [where e = e and L = L and a = a] check_sessions [of a v L c "ar_cookie r"] assms by auto
next
  case (ECheck c r)
  then show ?thesis using step_check_sessions [where e = e and L = L and a = a] check_sessions [of a v L c "ar_cookie r"] assms by auto
qed (use step_check_sessions [where e = e and L = L and a = a] assms in auto)

lemma run_session:
  "sessions a v = Some s \<Longrightarrow> list_all (keeps v (se_expires s)) es \<Longrightarrow>
   \<exists>s'. sessions (snd (auth_run L es a)) v = Some s' \<and> se_expires s' = se_expires s \<and> se_username s' = se_username s"
proof (induction es arbitrary: a s)
  case (Cons e es)
  from Cons.prems step_session [of a v s e L] obtain s1 where
    s1: "sessions (snd (auth_step L e a)) v = Some s1" "se_expires s1 = se_expires s" "se_username s1 = se_username s" by auto
  show ?case using Cons.IH [OF s1(1)] Cons.prems(2) s1 by (simp add: split_def)
qed simp

lemma run_no_session:
  "sessions a v = None \<Longrightarrow> list_all (\<lambda>e. \<not> opens v e) es \<Longrightarrow> sessions (snd (auth_run L es a)) v = None"
proof (induction es arbitrary: a)
  case (Cons e es)
  then show ?case using Cons.IH [OF step_no_session [of a v e L]] by (simp add: split_def)
qed simp

lemma authenticated_iff:
  "authEnabled a \<Longrightarrow> ar_cookie r = Some v \<Longrightarrow> v \<noteq> '''' \<Longrightarrow>
   fst (IsAuthenticated L c r a) \<longleftrightarrow> (\<exists>s. sessions a v = Some s \<and> at_check c < se_expires s)"
  by (auto simp: IsAuthenticated_def session_check_def split: option.split)

lemma logout_removes:
  "ar_method r = POST \<Longrightarrow> ar_cookie r = Some v \<Longrightarrow> v \<noteq> '''' \<Longrightarrow> sessions (snd (HandleLogout L c r a)) v = None"
  by (simp add: HandleLogout_def save_sessions)

text \<open>
  C14: A session lives until it expires or is logged out. While no logout presents its cookie, no check
  of it and no login happens after its expiry and no new session draws its identifier, the cookie of a session is
  accepted exactly before the session's expiry time, whatever else happens. Once a POST to logout has
  presented the cookie, it is refused for as long as this process runs, unless a later login draws the
  same identifier (a logout whose save failed leaves the session in the file, to be loaded by the next process).
\<close>

theorem session_lifetime:
  assumes "authEnabled a" and "sessions a v = Some s" and "v \<noteq> ''''" and "ar_cookie r = Some v"
    and "list_all (keeps v (se_expires s)) es" and "b = snd (auth_run L es a)"
    and "ar_method r' = POST" and "ar_cookie r' = Some v" and "list_all (\<lambda>e. \<not> opens v e) es'"
  shows "(fst (IsAuthenticated L c r b) \<longleftrightarrow> at_check c < se_expires s) \<and>
         \<not> fst (IsAuthenticated L c r (snd (auth_run L es' (snd (HandleLogout L c' r' b)))))"
proof
  have eb: "authEnabled b" using run_frame [of a L es] assms(1,6) by (simp add: same_setup_def)
  show "fst (IsAuthenticated L c r b) \<longleftrightarrow> at_check c < se_expires s"
    using run_session [OF assms(2,5), of L] authenticated_iff [OF eb assms(4,3), of L c] assms(6) by auto
  let ?d = "snd (auth_run L es' (snd (HandleLogout L c' r' b)))"
  have "sessions ?d v = None"
    by (rule run_no_session [OF logout_removes [OF assms(7,8,3)] assms(9)])
  moreover have "authEnabled ?d"
    using run_frame [of "snd (HandleLogout L c' r' b)" L es'] logout_frame [of b L c' r'] eb by (simp add: same_setup_def)
  ultimately show "\<not> fst (IsAuthenticated L c r ?d)" using authenticated_iff [OF _ assms(4,3), of ?d L c] by simp
qed

definition demo_session_manager :: auth_manager where
  "demo_session_manager = demo_manager\<lparr>sessions := [''tok'' \<mapsto> granted_session (demo_call 1000) ''bob'']\<rparr>"

theorem session_lifetime_witness:
  "fst (IsAuthenticated demo_lib (demo_call 2000) (demo_request\<lparr>ar_cookie := Some ''tok''\<rparr>)
      (snd (auth_run demo_lib [ETimer 5 ''10.0.0.7'', ECheck (demo_call 1500) (demo_request\<lparr>ar_cookie := Some ''tok''\<rparr>)] demo_session_manager)))"
proof -
  let ?r = "demo_request\<lparr>ar_cookie := Some ''tok''\<rparr>"
  let ?es = "[ETimer 5 ''10.0.0.7'', ECheck (demo_call 1500) ?r]"
  have h: "authEnabled demo_session_manager" "sessions demo_session_manager ''tok'' = Some (granted_session (demo_call 1000) ''bob'')"
    "''tok'' \<noteq> ''''" "ar_cookie ?r = Some ''tok''" "list_all (keeps ''tok'' (se_expires (granted_session (demo_call 1000) ''bob''))) ?es"
    "ar_method ?r = POST" "list_all (\<lambda>e. \<not> opens ''tok'' e) []"
    by (simp_all add: demo_session_manager_def demo_manager_def demo_request_def granted_session_def demo_call_def authSessionTTL_def keeps_def)
  show ?thesis
    using session_lifetime [OF h(1-5) refl h(6) h(4) h(7), of demo_lib "demo_call 2000" "demo_call 2000"]
    by (simp add: granted_session_def demo_call_def authSessionTTL_def)
qed

section \<open>Restarts\<close>






end
