(* ===== verification/ConfigFiles.thy ===== *)
theory ConfigFiles
  imports Prelude
begin

text \<open>
  The configuration directory of \<open>src/tun/config.go\<close>: one file per tunnel (suffix \<open>.tun\<close>) and per
  route (suffix \<open>.route\<close>), written through temporary files in the subdirectory \<open>.staging\<close>. The
  functions for tunnels and routes are the same code at two types; both are instances of the
  definitions here, with the JSON coder, the suffix and the name of a configuration as arguments.

  \<open>config_io\<close> carries the outcome of each operating system call one of these functions makes, with
  the names the system or the clock chooses: \<open>io_create\<close> the name of the temporary file and
  \<open>io_backup_name\<close> the one of the backup, both before their extension.

  The path of a file is the directory, a slash, the configured name and the suffix. A name without
  a slash gives the entry of that name; what the system finds under a name with slashes (\<open>./b\<close>,
  \<open>../x\<close>, \<open>sub/y\<close>) is \<open>io_path\<close>: an entry of the directory itself, or a file elsewhere with its
  contents, if there is one.
\<close>

section \<open>Directory\<close>

record config_dir =
  d_top :: "string \<rightharpoonup> string"
  d_stage :: "string \<rightharpoonup> string"

datatype path_target = Entry string | Elsewhere "string option"

record config_io =
  io_path :: "string \<Rightarrow> path_target"
  io_mkdir :: bool
  io_create :: "string option"
  io_partial :: string
  io_write :: bool
  io_close :: bool
  io_backup_name :: string
  io_backup :: bool
  io_rename :: bool
  io_restore :: bool
  io_unlink :: bool
  io_remove :: bool

datatype io_error =
    MkdirError | CreateTempError | WriteError | CloseError | AlreadyExist | BackupError | RenameError | RemoveError
  | ReadError string | JsonError string

definition TUN_CONFIG_SUFFIX :: string where "TUN_CONFIG_SUFFIX = ''.tun''"
definition ROUTE_CONFIG_SUFFIX :: string where "ROUTE_CONFIG_SUFFIX = ''.route''"

text \<open>\<open>serviceFile\<close> and \<open>routeFile\<close>, relative to the directory.\<close>

definition config_file :: "string \<Rightarrow> string \<Rightarrow> string" where
  "config_file suffix name = name @ suffix"

text \<open>A name that is a single path element.\<close>

definition plain_name :: "string \<Rightarrow> bool" where
  "plain_name n \<longleftrightarrow> CHR ''/'' \<notin> set n"

definition path_at :: "config_io \<Rightarrow> string \<Rightarrow> path_target" where
  "path_at f fn = (if plain_name fn then Entry fn else io_path f fn)"

definition file_at :: "config_io \<Rightarrow> string \<Rightarrow> config_dir \<Rightarrow> string option" where
  "file_at f fn d = (case path_at f fn of Entry e \<Rightarrow> d_top d e | Elsewhere x \<Rightarrow> x)"

text \<open>The directory after the file at a path was removed or put in place; a file elsewhere leaves it as it is.\<close>

definition set_at :: "config_io \<Rightarrow> string \<Rightarrow> string option \<Rightarrow> config_dir \<Rightarrow> config_dir" where
  "set_at f fn x d = (case path_at f fn of Entry e \<Rightarrow> d\<lparr>d_top := (d_top d)(e := x)\<rparr> | Elsewhere y \<Rightarrow> d)"

section \<open>Writing\<close>

text \<open>
  \<open>writeTempServiceFile\<close>, \<open>writeTempRouteFile\<close>, for the configuration whose file is \<open>fn\<close>.
  \<open>os.CreateTemp\<close> refuses a pattern with a path separator, so a name with a slash is never written. A
  failing write or close leaves the temporary file.
\<close>

definition writeTempFile :: "config_io \<Rightarrow> string \<Rightarrow> string \<Rightarrow> config_dir \<Rightarrow> (io_error + string) \<times> config_dir" where
  "writeTempFile f fn data d =
     (if \<not> plain_name fn then (Inl CreateTempError, d)
      else
        (case io_create f of
           None \<Rightarrow> (Inl CreateTempError, d)
         | Some r \<Rightarrow>
             let t = r @ ''.tmp'' in
             if \<not> io_write f then (Inl WriteError, d\<lparr>d_stage := (d_stage d)(t \<mapsto> io_partial f)\<rparr>)
             else
               (let d1 = d\<lparr>d_stage := (d_stage d)(t \<mapsto> data)\<rparr> in
                if \<not> io_close f then (Inl CloseError, d1) else (Inr t, d1))))"

text \<open>The deferred \<open>os.Remove\<close> of a temporary file.\<close>

definition remove_temp :: "config_io \<Rightarrow> string \<Rightarrow> config_dir \<Rightarrow> config_dir" where
  "remove_temp f t d = (if io_unlink f then d\<lparr>d_stage := (d_stage d)(t := None)\<rparr> else d)"

text \<open>\<open>os.Rename\<close> of a staged file to a configuration path.\<close>

definition promote :: "config_io \<Rightarrow> string \<Rightarrow> string \<Rightarrow> config_dir \<Rightarrow> config_dir" where
  "promote f t fn d = (set_at f fn (d_stage d t) d)\<lparr>d_stage := (d_stage d)(t := None)\<rparr>"

text \<open>\<open>writeServiceFileAtomic\<close>, \<open>writeRouteFileAtomic\<close>.\<close>

definition writeFileAtomic :: "config_io \<Rightarrow> string \<Rightarrow> string \<Rightarrow> config_dir \<Rightarrow> io_error option \<times> config_dir" where
  "writeFileAtomic f fn data d =
     (if \<not> io_mkdir f then (Some MkdirError, d)
      else if file_at f fn d \<noteq> None then (Some AlreadyExist, d)
      else
        (case writeTempFile f fn data d of
           (Inl e, d1) \<Rightarrow> (Some e, d1)
         | (Inr t, d1) \<Rightarrow>
             if io_rename f then (None, remove_temp f t (promote f t fn d1))
             else (Some RenameError, remove_temp f t d1)))"

text \<open>\<open>replaceServiceFile\<close>, \<open>replaceRouteFile\<close>: the old file is moved to a backup, the new one moved into
  place, and the backup moved back when that fails.\<close>

definition replaceFile :: "config_io \<Rightarrow> string \<Rightarrow> string \<Rightarrow> string \<Rightarrow> config_dir \<Rightarrow> io_error option \<times> config_dir" where
  "replaceFile f oldfn newfn data d =
     (if \<not> io_mkdir f then (Some MkdirError, d)
      else
        (case writeTempFile f newfn data d of
           (Inl e, d1) \<Rightarrow> (Some e, d1)
         | (Inr t, d1) \<Rightarrow>
             let old = file_at f oldfn d1; bak = io_backup_name f @ ''.bak'' in
             if old \<noteq> None \<and> \<not> io_backup f then (Some BackupError, remove_temp f t d1)
             else
               (let d2 = (case old of
                            None \<Rightarrow> d1
                          | Some x \<Rightarrow> (set_at f oldfn None d1)\<lparr>d_stage := (d_stage d1)(bak \<mapsto> x)\<rparr>)
                in if io_rename f then
                     (let d3 = promote f t newfn d2;
                          d4 = (if old \<noteq> None then remove_temp f bak d3 else d3)
                      in (None, remove_temp f t d4))
                   else
                     (let d3 = (if old \<noteq> None \<and> io_restore f then promote f bak oldfn d2 else d2)
                      in (Some RenameError, remove_temp f t d3)))))"

text \<open>\<open>deleteServiceFile\<close>, \<open>deleteRouteFile\<close>: a missing file counts as deleted. The name comes from the
  request as it is, so a path with slashes removes whatever file it reaches.\<close>

definition deleteFile :: "config_io \<Rightarrow> string \<Rightarrow> config_dir \<Rightarrow> io_error option \<times> config_dir" where
  "deleteFile f fn d =
     (if file_at f fn d = None then (None, d)
      else if io_remove f then (None, set_at f fn None d)
      else (Some RemoveError, d))"

section \<open>Reading\<close>

text \<open>\<open>path.Ext\<close>: the rest from the last dot of the last path element.\<close>

definition path_Ext :: "string \<Rightarrow> string" where
  "path_Ext s =
     (let r = takeWhile (\<lambda>c. c \<noteq> CHR ''.'' \<and> c \<noteq> CHR ''/'') (rev s) in
      (case drop (length r) (rev s) of
         [] \<Rightarrow> []
       | c # _ \<Rightarrow> if c = CHR ''.'' then CHR ''.'' # rev r else []))"

text \<open>\<open>loadAllFile\<close> over the entries of the directory in the order \<open>os.ReadDir\<close> gives them. \<open>readable\<close>
  tells which files can be read, \<open>dec\<close> is the JSON decoder.\<close>

fun loadAllFile :: "(string \<Rightarrow> bool) \<Rightarrow> (string \<Rightarrow> 'c option) \<Rightarrow> string \<Rightarrow> string list \<Rightarrow> config_dir \<Rightarrow> io_error + 'c list" where
  "loadAllFile readable dec suffix [] d = Inr []"
| "loadAllFile readable dec suffix (n # ns) d =
     (if path_Ext n \<noteq> suffix then loadAllFile readable dec suffix ns d
      else
        (case d_top d n of
           None \<Rightarrow> Inl (ReadError n)
         | Some data \<Rightarrow>
             if \<not> readable n then Inl (ReadError n)
             else
               (case dec data of
                  None \<Rightarrow> Inl (JsonError n)
                | Some c \<Rightarrow>
                    (case loadAllFile readable dec suffix ns d of Inl e \<Rightarrow> Inl e | Inr cs \<Rightarrow> Inr (c # cs)))))"

section \<open>What the writers do\<close>

lemma config_file_inject [simp]: "config_file x a = config_file x b \<longleftrightarrow> a = b"
  by (simp add: config_file_def)

lemma path_Ext_tun: "path_Ext (config_file TUN_CONFIG_SUFFIX n) = TUN_CONFIG_SUFFIX"
  by (simp add: path_Ext_def config_file_def TUN_CONFIG_SUFFIX_def Let_def)

lemma path_Ext_route: "path_Ext (config_file ROUTE_CONFIG_SUFFIX n) = ROUTE_CONFIG_SUFFIX"
  by (simp add: path_Ext_def config_file_def ROUTE_CONFIG_SUFFIX_def Let_def)

text \<open>Only files with the suffix have that extension.\<close>

lemma path_Ext_split: "path_Ext f = CHR ''.'' # e \<Longrightarrow> \<exists>n. f = n @ CHR ''.'' # e"
proof -
  assume a: "path_Ext f = CHR ''.'' # e"
  let ?r = "takeWhile (\<lambda>c. c \<noteq> CHR ''.'' \<and> c \<noteq> CHR ''/'') (rev f)"
  obtain rest where "drop (length ?r) (rev f) = CHR ''.'' # rest" "e = rev ?r"
    using a by (auto simp: path_Ext_def Let_def split: list.splits if_splits)
  then have "rev f = rev e @ CHR ''.'' # rest"
    by (metis append_take_drop_id rev_rev_ident takeWhile_eq_take length_takeWhile_le)
  then have "f = rev rest @ CHR ''.'' # e" by (metis append.assoc append_Cons append_Nil rev.simps(2) rev_append rev_rev_ident)
  then show ?thesis by blast
qed

lemma path_Ext_range:
  "path_Ext f = TUN_CONFIG_SUFFIX \<Longrightarrow> f \<in> range (config_file TUN_CONFIG_SUFFIX)"
  "path_Ext f = ROUTE_CONFIG_SUFFIX \<Longrightarrow> f \<in> range (config_file ROUTE_CONFIG_SUFFIX)"
  using path_Ext_split [of f "''tun''"] path_Ext_split [of f "''route''"]
  by (auto simp: TUN_CONFIG_SUFFIX_def ROUTE_CONFIG_SUFFIX_def config_file_def)

text \<open>No system call fails.\<close>

definition io_fine :: "config_io \<Rightarrow> bool" where
  "io_fine f \<longleftrightarrow> io_mkdir f \<and> io_create f \<noteq> None \<and> io_write f \<and> io_close f \<and> io_backup f \<and> io_rename f \<and> io_unlink f \<and> io_remove f"

lemma plain_name_file [simp]:
  "plain_name (config_file TUN_CONFIG_SUFFIX n) = plain_name n" "plain_name (config_file ROUTE_CONFIG_SUFFIX n) = plain_name n"
  by (simp_all add: plain_name_def config_file_def TUN_CONFIG_SUFFIX_def ROUTE_CONFIG_SUFFIX_def)

lemma file_at_plain [simp]: "plain_name fn \<Longrightarrow> file_at f fn d = d_top d fn"
  by (simp add: file_at_def path_at_def)

lemma set_at_plain [simp]: "plain_name fn \<Longrightarrow> set_at f fn x d = d\<lparr>d_top := (d_top d)(fn := x)\<rparr>"
  by (simp add: set_at_def path_at_def)

text \<open>The names of the temporary and the backup file differ.\<close>

lemma staged_names_differ [simp]: "r @ ''.tmp'' \<noteq> b @ ''.bak''" "b @ ''.bak'' \<noteq> r @ ''.tmp''"
proof -
  have "last (r @ ''.tmp'') \<noteq> last (b @ ''.bak'')" by simp
  then show "r @ ''.tmp'' \<noteq> b @ ''.bak''" "b @ ''.bak'' \<noteq> r @ ''.tmp''" by metis+
qed

lemma writeTempFile_top: "d_top (snd (writeTempFile f fn data d)) = d_top d"
  by (auto simp: writeTempFile_def Let_def split: option.split)

lemma writeTempFile_result:
  "fst (writeTempFile f fn data d) = Inr t \<Longrightarrow>
   plain_name fn \<and> (\<exists>r. t = r @ ''.tmp'') \<and> d_stage (snd (writeTempFile f fn data d)) = (d_stage d)(t \<mapsto> data)"
  by (auto simp: writeTempFile_def Let_def split: option.splits if_splits)

lemma remove_temp_top [simp]: "d_top (remove_temp f t d) = d_top d"
  by (simp add: remove_temp_def)

text \<open>Creating a file is all or nothing, and never overwrites.\<close>

lemma writeFileAtomic_spec:
  "(case writeFileAtomic f fn data d of
      (None, d') \<Rightarrow> plain_name fn \<and> d_top d fn = None \<and> d_top d' = (d_top d)(fn \<mapsto> data)
    | (Some e, d') \<Rightarrow> d_top d' = d_top d)"
proof (cases "writeTempFile f fn data d")
  case (Pair r d1)
  then show ?thesis
    using writeTempFile_top [of f fn data d] writeTempFile_result [of f fn data d]
    by (cases r) (auto simp: writeFileAtomic_def promote_def Let_def)
qed

text \<open>Replacing a file is all or nothing for the directory, except that a failing rename loses the old
  file when the backup cannot be moved back either.\<close>

lemma replaceFile_spec:
  assumes "plain_name oldfn"
  shows "(case replaceFile f oldfn newfn data d of
            (None, d') \<Rightarrow> plain_name newfn \<and> d_top d' = (d_top d)(oldfn := None, newfn \<mapsto> data)
          | (Some e, d') \<Rightarrow> d_top d' = d_top d \<or> e = RenameError \<and> \<not> io_restore f \<and> d_top d' = (d_top d)(oldfn := None))"
proof (cases "writeTempFile f newfn data d")
  case (Pair r d1)
  have t: "d_top d1 = d_top d" using writeTempFile_top [of f newfn data d] Pair by simp
  show ?thesis
  proof (cases r)
    case (Inl e)
    then show ?thesis using Pair t by (simp add: replaceFile_def)
  next
    case (Inr n)
    then obtain p where n: "plain_name newfn" "n = p @ ''.tmp''" "d_stage d1 = (d_stage d)(n \<mapsto> data)"
      using writeTempFile_result [of f newfn data d n] Pair by auto
    then show ?thesis
      using Pair Inr t n assms
      by (cases "d_top d oldfn") (auto simp: replaceFile_def promote_def Let_def fun_upd_idem)
  qed
qed

lemma deleteFile_spec:
  "(case deleteFile f fn d of
      (None, d') \<Rightarrow> plain_name fn \<longrightarrow> d_top d' = (d_top d)(fn := None)
    | (Some e, d') \<Rightarrow> d' = d)"
  by (auto simp: deleteFile_def fun_upd_idem)

lemma writeFileAtomic_fine:
  "io_fine f \<Longrightarrow> plain_name fn \<Longrightarrow> d_top d fn = None \<Longrightarrow> fst (writeFileAtomic f fn data d) = None"
  by (auto simp: writeFileAtomic_def io_fine_def writeTempFile_def Let_def)

lemma replaceFile_fine: "io_fine f \<Longrightarrow> plain_name newfn \<Longrightarrow> fst (replaceFile f oldfn newfn data d) = None"
  by (auto simp: replaceFile_def io_fine_def writeTempFile_def Let_def)

text \<open>What loading returns: the decoded contents of the files with the suffix, in directory order.\<close>

lemma loadAllFile_exact:
  assumes "\<And>n. n \<in> set ns \<Longrightarrow> path_Ext n = suffix \<Longrightarrow> readable n \<and> d_top d n \<noteq> None \<and> dec (the (d_top d n)) \<noteq> None"
  shows "loadAllFile readable dec suffix ns d =
           Inr (map (\<lambda>n. the (dec (the (d_top d n)))) (filter (\<lambda>n. path_Ext n = suffix) ns))"
  using assms
proof (induction ns)
  case (Cons n ns)
  have "loadAllFile readable dec suffix ns d = Inr (map (\<lambda>n. the (dec (the (d_top d n)))) (filter (\<lambda>n. path_Ext n = suffix) ns))"
    using Cons by simp
  then show ?case using Cons.prems [of n] by auto
qed simp

section \<open>What the registry relies on\<close>

text \<open>
  A directory whose files are created, replaced and deleted all or nothing, for the paths that are
  entries of it (\<open>plain\<close>). \<open>good\<close> marks the outcomes under which a replacement can be undone.
\<close>

locale config_store =
  fixes top :: "'d \<Rightarrow> string \<rightharpoonup> string"
    and create :: "'o \<Rightarrow> string \<Rightarrow> string \<Rightarrow> 'd \<Rightarrow> 'e option \<times> 'd"
    and replace :: "'o \<Rightarrow> string \<Rightarrow> string \<Rightarrow> string \<Rightarrow> 'd \<Rightarrow> 'e option \<times> 'd"
    and delete :: "'o \<Rightarrow> string \<Rightarrow> 'd \<Rightarrow> 'e option \<times> 'd"
    and good :: "'o \<Rightarrow> bool"
    and plain :: "string \<Rightarrow> bool"
  assumes create_done: "create f fn data d = (None, d') \<Longrightarrow> plain fn \<and> top d fn = None \<and> top d' = (top d)(fn \<mapsto> data)"
    and create_failed: "create f fn data d = (Some e, d') \<Longrightarrow> top d' = top d"
    and replace_done: "plain old \<Longrightarrow> replace f old new data d = (None, d') \<Longrightarrow> plain new \<and> top d' = (top d)(old := None, new \<mapsto> data)"
    and replace_failed: "plain old \<Longrightarrow> replace f old new data d = (Some e, d') \<Longrightarrow>
      top d' = top d \<or> \<not> good f \<and> top d' = (top d)(old := None)"
    and delete_done: "plain fn \<Longrightarrow> delete f fn d = (None, d') \<Longrightarrow> top d' = (top d)(fn := None)"
    and delete_failed: "delete f fn d = (Some e, d') \<Longrightarrow> top d' = top d"
begin

lemma create_lookup: "create f fn data d = (None, d') \<Longrightarrow> top d' fn = Some data"
  using create_done by fastforce

lemma create_other: "create f fn data d = (r, d') \<Longrightarrow> x \<noteq> fn \<Longrightarrow> top d' x = top d x"
  using create_done [of f fn data d d'] create_failed [of f fn data d _ d'] by (cases r) auto

lemma replace_other: "plain old \<Longrightarrow> replace f old new data d = (r, d') \<Longrightarrow> x \<noteq> old \<Longrightarrow> x \<noteq> new \<Longrightarrow> top d' x = top d x"
  using replace_done [of old f new data d d'] replace_failed [of old f new data d _ d'] by (cases r) auto

lemma delete_other: "plain fn \<Longrightarrow> delete f fn d = (r, d') \<Longrightarrow> x \<noteq> fn \<Longrightarrow> top d' x = top d x"
  using delete_done [of fn f d d'] delete_failed [of f fn d _ d'] by (cases r) auto

lemma create_delete: "create f fn data d = (None, d1) \<Longrightarrow> delete g fn d1 = (None, d2) \<Longrightarrow> top d2 = top d"
  using create_done [of f fn data d d1] delete_done [of fn g d1 d2] by auto

end

interpretation files: config_store d_top writeFileAtomic replaceFile deleteFile io_restore plain_name
proof
  fix f old new data d d' e
  show "writeFileAtomic f old data d = (None, d') \<Longrightarrow> plain_name old \<and> d_top d old = None \<and> d_top d' = (d_top d)(old \<mapsto> data)"
    "writeFileAtomic f old data d = (Some e, d') \<Longrightarrow> d_top d' = d_top d"
    using writeFileAtomic_spec [where f = f and fn = old and data = data and d = d] by auto
  show "plain_name old \<Longrightarrow> replaceFile f old new data d = (None, d') \<Longrightarrow>
      plain_name new \<and> d_top d' = (d_top d)(old := None, new \<mapsto> data)"
    "plain_name old \<Longrightarrow> replaceFile f old new data d = (Some e, d') \<Longrightarrow>
      d_top d' = d_top d \<or> \<not> io_restore f \<and> d_top d' = (d_top d)(old := None)"
    using replaceFile_spec [where f = f and oldfn = old and newfn = new and data = data and d = d] by auto
  show "plain_name old \<Longrightarrow> deleteFile f old d = (None, d') \<Longrightarrow> d_top d' = (d_top d)(old := None)"
    "deleteFile f old d = (Some e, d') \<Longrightarrow> d_top d' = d_top d"
    using deleteFile_spec [where f = f and fn = old and d = d] by auto
qed

end
