(* ===== verification/RouteConfig.thy ===== *)
theory RouteConfig
  imports Endpoint
begin

text \<open>
  Configuration of the smart routes: \<open>src/tun/route_config.go\<close> and
  \<open>src/tun/route_quality_config.go\<close>. \<open>url.Parse\<close>, \<open>net.LookupPort\<close> and the JSON decoders are
  arguments; nothing is assumed of them beyond returning a value. A method with a pointer receiver
  that fills in defaults returns the updated record.
\<close>

section \<open>Data\<close>

record quality_config =
  DownloadURL :: string
  ConnectivityURL :: string
  DownloadStatus :: int
  ConnectivityStatus :: int
  DownloadBytes :: int
  IntervalSec :: int
  TimeoutMS :: int
  NormalMS :: int

record route_config =
  r_UUID :: string
  r_Name :: string
  r_Disabled :: bool
  r_Mode :: string
  r_Listen :: string
  r_InProtoCfg :: string
  r_Members :: "string list"
  r_Policy :: string
  r_Quality :: quality_config
  r_ProbeMode :: string
  r_ProbeWarnings :: "string list"
  r_CreatedAt :: int

record parsed_url =
  u_Scheme :: string
  u_Hostname :: string
  u_User :: bool
  u_Fragment :: string
  u_Port :: string

record url_lib =
  url_Parse :: "string \<Rightarrow> parsed_url option"
  LookupPort :: "string \<Rightarrow> bool"

record socks_config =
  UserName :: string
  Password :: string
  TCPTimeout :: "32 word"
  UDPAdvertisedIP :: string
  UDPAdvertisedPort :: int

definition socks_zero :: socks_config where
  "socks_zero = \<lparr>UserName = [], Password = [], TCPTimeout = 0, UDPAdvertisedIP = [], UDPAdvertisedPort = 0\<rparr>"

datatype route_error =
    BadTargetURL | BadTargetPort | BadStatusCode | BadDownloadBytes | BadInterval | BadTimeout
  | EmptyName | UnknownMode string | UnknownPolicy string | QualityNeedsInput | QualityNeedsFullPath
  | BadProbeMode | NoMembers | EmptyMember | DuplicateMember string
  | ListenNeedsProtocol parse_error | ListenHasProtocol | ListenNotHostPort addr_error
  | ProxyNotSocks5 | ProxyEncrypted | ProxyExtend parse_error | ProxyFramed | ProxyAddr addr_error | ProxyAuth

section \<open>Quality configuration\<close>

definition or_default :: "'a \<Rightarrow> 'a \<Rightarrow> 'a \<Rightarrow> 'a" where
  "or_default z d x = (if x = z then d else x)"

definition quality_normalize :: "quality_config \<Rightarrow> quality_config" where
  "quality_normalize c =
     \<lparr>DownloadURL = or_default [] ''https://speed.cloudflare.com/__down?bytes=16384'' (DownloadURL c),
      ConnectivityURL = or_default [] ''https://www.gstatic.com/generate_204'' (ConnectivityURL c),
      DownloadStatus = or_default 0 200 (DownloadStatus c),
      ConnectivityStatus = or_default 0 204 (ConnectivityStatus c),
      DownloadBytes = or_default 0 16384 (DownloadBytes c),
      IntervalSec = or_default 0 30 (IntervalSec c),
      TimeoutMS = or_default 0 5000 (TimeoutMS c),
      NormalMS = or_default 0 2000 (NormalMS c)\<rparr>"

definition check_target :: "url_lib \<Rightarrow> string \<Rightarrow> route_error option" where
  "check_target lib target =
     (case url_Parse lib target of
        None \<Rightarrow> Some BadTargetURL
      | Some u \<Rightarrow>
          if u_Scheme u \<noteq> ''https'' \<or> u_Hostname u = [] \<or> u_User u \<or> u_Fragment u \<noteq> [] then Some BadTargetURL
          else if u_Port u \<noteq> [] \<and> \<not> LookupPort lib (u_Port u) then Some BadTargetPort
          else None)"

fun first_error :: "'e option list \<Rightarrow> 'e option" where
  "first_error [] = None"
| "first_error (None # es) = first_error es"
| "first_error (Some e # es) = Some e"

definition quality_validate :: "url_lib \<Rightarrow> quality_config \<Rightarrow> route_error option" where
  "quality_validate lib c =
     (case first_error (map (check_target lib) [DownloadURL c, ConnectivityURL c]) of
        Some e \<Rightarrow> Some e
      | None \<Rightarrow>
          if DownloadStatus c < 200 \<or> DownloadStatus c > 299 \<or> ConnectivityStatus c < 200 \<or> ConnectivityStatus c > 299
          then Some BadStatusCode
          else if DownloadBytes c < 1 \<or> DownloadBytes c > 1024 * 1024 then Some BadDownloadBytes
          else if IntervalSec c < 10 \<or> IntervalSec c > 3600 then Some BadInterval
          else if TimeoutMS c < 100 \<or> TimeoutMS c > 30000 \<or> NormalMS c < 1 \<or> NormalMS c > TimeoutMS c
          then Some BadTimeout
          else None)"

section \<open>Route configuration\<close>

definition RouteModeOutput :: string where "RouteModeOutput = ''output''"
definition RouteModeInput :: string where "RouteModeInput = ''input''"
definition RouteProbeFullPath :: string where "RouteProbeFullPath = ''full_path''"
definition RouteProbeLegacyFrame :: string where "RouteProbeLegacyFrame = ''legacy_frame''"

lemmas route_consts = RouteModeOutput_def RouteModeInput_def RouteProbeFullPath_def RouteProbeLegacyFrame_def

definition usesFullPathProbe :: "route_config \<Rightarrow> bool" where
  "usesFullPathProbe r \<longleftrightarrow> r_Mode r = RouteModeInput \<and> r_ProbeMode r = RouteProbeFullPath"

definition route_normalize :: "route_config \<Rightarrow> route_config" where
  "route_normalize r =
     (let r1 = (if r_Policy r = [] then r\<lparr>r_Policy := ''priority''\<rparr> else r);
          r2 = (if r_Mode r1 = [] then r1\<lparr>r_Mode := RouteModeOutput\<rparr> else r1);
          r3 = (if r_Mode r2 = RouteModeInput \<and> r_ProbeMode r2 = [] then r2\<lparr>r_ProbeMode := RouteProbeFullPath\<rparr> else r2)
      in if usesFullPathProbe r3 then r3\<lparr>r_Quality := quality_normalize (r_Quality r3)\<rparr> else r3)"

text \<open>The loop over the members with the set of names seen.\<close>

fun check_members :: "bool \<Rightarrow> string list \<Rightarrow> string set \<Rightarrow> route_error option" where
  "check_members full [] seen = None"
| "check_members full (m # ms) seen =
     (if trim m = [] then Some EmptyMember
      else if full \<and> m \<in> seen then Some (DuplicateMember m)
      else check_members full ms (insert m seen))"

definition check_listen :: "route_config \<Rightarrow> route_error option" where
  "check_listen r =
     (if r_Mode r = RouteModeOutput then
        (case parseProtocol (r_Listen r) of Inl e \<Rightarrow> Some (ListenNeedsProtocol e) | Inr _ \<Rightarrow> None)
      else if contains ''@'' (r_Listen r) then Some ListenHasProtocol
      else (case SplitHostPort (r_Listen r) of Inl e \<Rightarrow> Some (ListenNotHostPort e) | Inr _ \<Rightarrow> None))"

definition validate_normalized :: "url_lib \<Rightarrow> route_config \<Rightarrow> route_error option" where
  "validate_normalized lib r =
     (if trim (r_Name r) = [] then Some EmptyName
      else if r_Mode r \<noteq> RouteModeOutput \<and> r_Mode r \<noteq> RouteModeInput then Some (UnknownMode (r_Mode r))
      else if r_Policy r \<noteq> ''priority'' \<and> r_Policy r \<noteq> ''quality'' then Some (UnknownPolicy (r_Policy r))
      else if r_Policy r = ''quality'' \<and> r_Mode r \<noteq> RouteModeInput then Some QualityNeedsInput
      else if r_Policy r = ''quality'' \<and> \<not> usesFullPathProbe r then Some QualityNeedsFullPath
      else if r_ProbeMode r \<noteq> [] \<and> \<not> usesFullPathProbe r \<and>
              \<not> (r_Mode r = RouteModeInput \<and> r_Policy r = ''priority'' \<and> r_ProbeMode r = RouteProbeLegacyFrame)
      then Some BadProbeMode
      else
        (case (if usesFullPathProbe r then quality_validate lib (r_Quality r) else None) of
           Some e \<Rightarrow> Some e
         | None \<Rightarrow>
             if r_Members r = [] then Some NoMembers
             else (case check_members (usesFullPathProbe r) (r_Members r) {} of
                     Some e \<Rightarrow> Some e
                   | None \<Rightarrow> check_listen r)))"

definition validateBasic :: "url_lib \<Rightarrow> route_config \<Rightarrow> route_error option \<times> route_config" where
  "validateBasic lib r = (let r' = route_normalize r in (validate_normalized lib r', r'))"

definition memberInputProto :: "config \<Rightarrow> parse_error + protocol" where
  "memberInputProto cfg = (case parseProtocol (Input cfg) of Inl e \<Rightarrow> Inl e | Inr (p, _) \<Rightarrow> Inr p)"

definition loopback_host :: "string \<Rightarrow> string" where
  "loopback_host host =
     (let h = (if host = [] \<or> host = ''0.0.0.0'' then ''127.0.0.1'' else host) in
      if h = ''::'' then ''::1'' else h)"

definition routeQualityProxy ::
  "(string \<Rightarrow> extend option) \<Rightarrow> (string \<Rightarrow> socks_config option) \<Rightarrow> config \<Rightarrow> route_error + string \<times> socks_config" where
  "routeQualityProxy unmarshal unmarshalAuth cfg =
     (case parseProtocol (Input cfg) of
        Inl e \<Rightarrow> Inl ProxyNotSocks5
      | Inr (p, addr) \<Rightarrow>
          if p \<noteq> Socks5X then Inl ProxyNotSocks5
          else if InDecryptMode cfg \<noteq> [] \<and> InDecryptMode cfg \<noteq> ''none'' then Inl ProxyEncrypted
          else
            (case parseExtend unmarshal (InExtend cfg) of
               Inl e \<Rightarrow> Inl (ProxyExtend e)
             | Inr ext \<Rightarrow>
                 if FrameHeaderEnable ext then Inl ProxyFramed
                 else
                   (case SplitHostPort addr of
                      Inl e \<Rightarrow> Inl (ProxyAddr e)
                    | Inr (host, port) \<Rightarrow>
                        if trim (InProtoCfg cfg) \<noteq> [] then
                          (case unmarshalAuth (InProtoCfg cfg) of
                             None \<Rightarrow> Inl ProxyAuth
                           | Some auth \<Rightarrow> Inr (JoinHostPort (loopback_host host) port, auth))
                        else Inr (JoinHostPort (loopback_host host) port, socks_zero))))"

section \<open>Specification of an accepted route\<close>

definition quality_ok :: "url_lib \<Rightarrow> quality_config \<Rightarrow> bool" where
  "quality_ok lib c \<longleftrightarrow>
     check_target lib (DownloadURL c) = None \<and> check_target lib (ConnectivityURL c) = None \<and>
     200 \<le> DownloadStatus c \<and> DownloadStatus c \<le> 299 \<and> 200 \<le> ConnectivityStatus c \<and> ConnectivityStatus c \<le> 299 \<and>
     1 \<le> DownloadBytes c \<and> DownloadBytes c \<le> 1048576 \<and> 10 \<le> IntervalSec c \<and> IntervalSec c \<le> 3600 \<and>
     100 \<le> TimeoutMS c \<and> TimeoutMS c \<le> 30000 \<and> 1 \<le> NormalMS c \<and> NormalMS c \<le> TimeoutMS c"

definition route_ok :: "url_lib \<Rightarrow> route_config \<Rightarrow> bool" where
  "route_ok lib r \<longleftrightarrow>
     trim (r_Name r) \<noteq> [] \<and> r_Policy r \<in> {''priority'', ''quality''} \<and>
     r_Members r \<noteq> [] \<and> list_all (\<lambda>m. trim m \<noteq> []) (r_Members r) \<and>
     (if r_Mode r = ''output''
      then r_Policy r = ''priority'' \<and> r_ProbeMode r = [] \<and> (\<exists>x. parseProtocol (r_Listen r) = Inr x)
      else r_Mode r = ''input'' \<and> CHR ''@'' \<notin> set (r_Listen r) \<and> (\<exists>x. SplitHostPort (r_Listen r) = Inr x) \<and>
           (if r_ProbeMode r = ''full_path''
            then distinct (r_Members r) \<and> quality_ok lib (r_Quality r)
            else r_Policy r = ''priority'' \<and> r_ProbeMode r = ''legacy_frame''))"

section \<open>Library\<close>

lemma or_default_idem [simp]: "or_default z d (or_default z d x) = or_default z d x"
  by (simp add: or_default_def)

lemma quality_normalize_idem [simp]: "quality_normalize (quality_normalize c) = quality_normalize c"
  by (simp add: quality_normalize_def)

lemma first_error_None: "first_error es = None \<longleftrightarrow> list_all (\<lambda>e. e = None) es"
  by (induction es rule: first_error.induct) auto

lemma error_case_None: "(case x of None \<Rightarrow> k | Some e \<Rightarrow> Some e) = None \<longleftrightarrow> x = None \<and> k = None"
  by (cases x) auto

lemma quality_validate_None: "quality_validate lib c = None \<longleftrightarrow> quality_ok lib c"
proof (cases "check_target lib (DownloadURL c)")
  case (Some e)
  then show ?thesis by (simp add: quality_validate_def quality_ok_def)
next
  case None
  note d = None
  show ?thesis
  proof (cases "check_target lib (ConnectivityURL c)")
    case (Some e)
    with d show ?thesis by (simp add: quality_validate_def quality_ok_def)
  next
    case None
    with d show ?thesis by (simp add: quality_validate_def quality_ok_def not_less)
  qed
qed

lemma check_members_None:
  "check_members full ms seen = None \<longleftrightarrow>
     list_all (\<lambda>m. trim m \<noteq> []) ms \<and> (full \<longrightarrow> distinct ms \<and> set ms \<inter> seen = {})"
  by (induction ms arbitrary: seen) (auto split: if_splits)

lemma contains_char: "contains [c] s \<longleftrightarrow> c \<in> set s"
  by (simp add: contains_iff in_set_conv_decomp)

lemma route_normalize_eq:
  "route_normalize r =
     (let mode = or_default [] ''output'' (r_Mode r);
          probe = (if mode = ''input'' then or_default [] ''full_path'' (r_ProbeMode r) else r_ProbeMode r)
      in r\<lparr>r_Policy := or_default [] ''priority'' (r_Policy r), r_Mode := mode, r_ProbeMode := probe,
           r_Quality := (if mode = ''input'' \<and> probe = ''full_path'' then quality_normalize (r_Quality r) else r_Quality r)\<rparr>)"
  by (cases "r_Policy r = []"; cases "r_Mode r = []"; cases "r_ProbeMode r = []")
    (simp_all add: route_normalize_def Let_def or_default_def usesFullPathProbe_def route_consts)

lemma route_normalize_fields:
  "r_Name (route_normalize r) = r_Name r" "r_Members (route_normalize r) = r_Members r"
  "r_Listen (route_normalize r) = r_Listen r" "r_UUID (route_normalize r) = r_UUID r"
  "r_Disabled (route_normalize r) = r_Disabled r" "r_CreatedAt (route_normalize r) = r_CreatedAt r"
  "r_Policy (route_normalize r) = or_default [] ''priority'' (r_Policy r)"
  "r_Mode (route_normalize r) = or_default [] ''output'' (r_Mode r)"
  by (simp_all add: route_normalize_eq Let_def)

lemma route_normalize_probe: "r_Mode (route_normalize r) = ''input'' \<Longrightarrow> r_ProbeMode (route_normalize r) \<noteq> []"
  by (simp add: route_normalize_eq Let_def or_default_def)

lemma route_normalize_idem: "route_normalize (route_normalize r) = route_normalize r"
  by (simp add: route_normalize_eq Let_def)

lemma check_listen_None:
  "check_listen r = None \<longleftrightarrow>
     (if r_Mode r = ''output'' then \<exists>x. parseProtocol (r_Listen r) = Inr x
      else CHR ''@'' \<notin> set (r_Listen r) \<and> (\<exists>x. SplitHostPort (r_Listen r) = Inr x))"
  by (auto simp: check_listen_def RouteModeOutput_def contains_char split: sum.splits)

lemma validate_normalized_None:
  assumes "r_Mode r = ''input'' \<Longrightarrow> r_ProbeMode r \<noteq> []"
  shows "validate_normalized lib r = None \<longleftrightarrow> route_ok lib r"
proof -
  consider "r_Mode r = ''output''" | "r_Mode r = ''input''" | "r_Mode r \<noteq> ''output''" "r_Mode r \<noteq> ''input''" by blast
  then show ?thesis
  proof cases
    case 1
    then have "\<not> usesFullPathProbe r" by (simp add: usesFullPathProbe_def route_consts)
    with 1 show ?thesis
      by (simp add: validate_normalized_def route_ok_def route_consts check_members_None check_listen_None
          error_case_None)
  next
    case 2
    show ?thesis
    proof (cases "r_ProbeMode r = ''full_path''")
      case True
      then have "usesFullPathProbe r" using 2 by (simp add: usesFullPathProbe_def route_consts)
      with 2 True show ?thesis
        by (simp add: validate_normalized_def route_ok_def route_consts check_members_None check_listen_None
            quality_validate_None error_case_None) blast
    next
      case False
      then have "\<not> usesFullPathProbe r" by (simp add: usesFullPathProbe_def route_consts)
      with 2 False assms show ?thesis
        by (simp add: validate_normalized_def route_ok_def route_consts check_members_None check_listen_None
            error_case_None)
    qed
  next
    case 3
    then show ?thesis by (simp add: validate_normalized_def route_ok_def route_consts)
  qed
qed

lemma last_index_Some:
  "last_index c xs = Some i \<Longrightarrow> i < length xs \<and> xs ! i = c \<and> c \<notin> set (drop (Suc i) xs)"
  by (induction xs arbitrary: i) (auto split: option.splits if_splits)

lemma first_index_Some: "first_index c xs = Some i \<Longrightarrow> i < length xs \<and> c \<notin> set (take i xs)"
  by (induction xs arbitrary: i) (auto split: if_splits)

lemma SplitHostPort_plain:
  assumes "SplitHostPort hp = Inr (h, p)"
  shows "CHR '':'' \<notin> set p \<and> CHR ''['' \<notin> set h \<and> CHR '']'' \<notin> set h \<and> CHR ''['' \<notin> set p \<and> CHR '']'' \<notin> set p"
proof -
  obtain i where i: "last_index CHR '':'' hp = Some i" and p: "p = drop (Suc i) hp"
    using assms by (auto simp: SplitHostPort_def Let_def split: option.splits if_splits)
  have colon: "CHR '':'' \<notin> set p" using last_index_Some [OF i] p by simp
  show ?thesis
  proof (cases "hp ! 0 = CHR ''[''")
    case True
    then obtain e where e: "first_index CHR '']'' hp = Some e" "e + 1 = i" "CHR ''['' \<notin> set (drop 1 hp)"
      "CHR '']'' \<notin> set (drop (e + 1) hp)" "h = drop 1 (take e hp)"
      using assms i by (auto simp: SplitHostPort_def Let_def split: option.splits if_splits)
    have "set h \<subseteq> set (take e hp)" using e(5) set_drop_subset [of 1 "take e hp"] by simp
    moreover have "set h \<subseteq> set (drop 1 hp)" using e(5) by (auto simp: drop_take dest: in_set_takeD)
    moreover have "set p \<subseteq> set (drop 1 hp)" "set p \<subseteq> set (drop (e + 1) hp)"
      using e(2) p set_drop_subset [of 1 "drop i hp"] set_drop_subset [of i "drop 1 hp"] by simp_all
    ultimately have "set h \<subseteq> set (drop 1 hp)" "set h \<subseteq> set (take e hp)" "set p \<subseteq> set (drop 1 hp)" "set p \<subseteq> set (drop (e + 1) hp)"
      by blast+
    then show ?thesis using colon e first_index_Some [OF e(1)] by blast
  next
    case False
    then have "CHR ''['' \<notin> set hp" "CHR '']'' \<notin> set hp" "h = take i hp"
      using assms i by (auto simp: SplitHostPort_def Let_def split: if_splits)
    then show ?thesis using colon p by (auto dest: in_set_takeD in_set_dropD)
  qed
qed

lemma loopback_host_plain:
  "CHR ''['' \<notin> set h \<Longrightarrow> CHR '']'' \<notin> set h \<Longrightarrow>
   CHR ''['' \<notin> set (loopback_host h) \<and> CHR '']'' \<notin> set (loopback_host h)"
  by (auto simp: loopback_host_def Let_def)

lemma loopback_host_concrete: "loopback_host h \<notin> {[], ''0.0.0.0'', ''::''}"
  by (auto simp: loopback_host_def Let_def)

section \<open>Properties\<close>

text \<open>
  Validation is exact. A route configuration passes \<open>validateBasic\<close> if and only if, after the
  defaults are filled in, it has a name, members without blanks, a known mode and policy, a listen
  address of the form its mode needs, quality selection only on input routes that probe the full
  path, and for those distinct members and probe limits within their ranges; the result is
  already normal, so validating it again changes nothing.
\<close>

theorem validateBasic_exact:
  "(fst (validateBasic lib r) = None \<longleftrightarrow> route_ok lib (route_normalize r)) \<and>
   snd (validateBasic lib r) = route_normalize r \<and>
   validateBasic lib (snd (validateBasic lib r)) = validateBasic lib r"
  using validate_normalized_None [of "route_normalize r" lib] route_normalize_probe [of r]
  by (simp add: validateBasic_def Let_def route_normalize_idem)

text \<open>
  The address the full-path probe dials is a concrete one that parses back: when
  \<open>routeQualityProxy\<close> accepts a member, its input is an unencrypted, unframed \<open>socks5x\<close> listener,
  and the returned address splits into the listener's port and a host that is no wildcard, the
  loopback of the same family when the listener is bound to all addresses.
\<close>

theorem routeQualityProxy_dialable:
  assumes "routeQualityProxy unmarshal unmarshalAuth cfg = Inr (addr, auth)"
  shows "\<exists>listen host port. parseProtocol (Input cfg) = Inr (Socks5X, listen) \<and>
           ToMode (InDecryptMode cfg) = Inr ModeNone \<and>
           SplitHostPort listen = Inr (host, port) \<and>
           SplitHostPort addr = Inr (loopback_host host, port) \<and>
           loopback_host host \<notin> {[], ''0.0.0.0'', ''::''} \<and>
           (host \<notin> {[], ''0.0.0.0'', ''::''} \<longrightarrow> loopback_host host = host)"
proof -
  obtain listen where l: "parseProtocol (Input cfg) = Inr (Socks5X, listen)"
    and m: "InDecryptMode cfg = [] \<or> InDecryptMode cfg = ''none''"
    using assms by (auto simp: routeQualityProxy_def split: sum.splits if_splits)
  moreover obtain host port where s: "SplitHostPort listen = Inr (host, port)"
    and a: "addr = JoinHostPort (loopback_host host) port"
    using assms l by (auto simp: routeQualityProxy_def parseExtend_def split: sum.splits if_splits option.splits prod.splits)
  moreover have "SplitHostPort addr = Inr (loopback_host host, port)"
    unfolding a using SplitHostPort_plain [OF s] loopback_host_plain [of host]
    by (intro SplitHostPort_JoinHostPort) auto
  moreover have "ToMode (InDecryptMode cfg) = Inr ModeNone" using m by (auto simp: ToMode_def)
  ultimately show ?thesis
    using loopback_host_concrete [of host] by (auto simp: loopback_host_def Let_def)
qed

definition sample_member :: config where
  "sample_member = \<lparr>UUID = ''u'', Name = ''m'', Disabled = False, Mode = [], Input = ''socks5x@[::]:1080'',
     InProtoCfg = [], InDecryptMode = ''none'', InDecryptKey = [], InExtend = [], Output = ''tcp@1.2.3.4:5'',
     OutProtoCfg = [], OutCryptMode = [], OutCryptKey = [], OutExtend = [], CreatedAt = 0\<rparr>"

theorem routeQualityProxy_dialable_witness:
  "routeQualityProxy (\<lambda>_. None) (\<lambda>_. None) sample_member = Inr (''[::1]:1080'', socks_zero) \<and>
   SplitHostPort ''[::1]:1080'' = Inr (''::1'', ''1080'')"
proof -
  have r: "routeQualityProxy (\<lambda>_. None) (\<lambda>_. None) sample_member = Inr (''[::1]:1080'', socks_zero)"
    by code_simp
  have p: "parseProtocol (Input sample_member) = Inr (Socks5X, ''[::]:1080'')"
    and s: "SplitHostPort ''[::]:1080'' = Inr (''::'', ''1080'')" and h: "loopback_host ''::'' = ''::1''"
    by code_simp+
  from routeQualityProxy_dialable [OF r] r show ?thesis by (auto simp: p s h)
qed

end
