(* ===== verification/Manager.thy ===== *)
theory Manager
  imports ConfigFiles RouteConfig
begin

text \<open>
  The registry of tunnels and routes, \<open>src/tun/manager.go\<close>, with the service constructors' dispatch of
  \<open>src/tun/service.go\<close>: adding, replacing with rollback, switching on and off, removing and loading at
  start, for tunnels and for routes, over the configuration directory of \<open>ConfigFiles\<close>.

  A service object is an instance number with its configuration; \<open>mg_open\<close> holds the instances whose
  \<open>Run\<close> was called and that were not closed since. Whether a constructor, \<open>Run\<close> or \<open>Close\<close> of a
  transport succeeds comes from outside (\<open>mgr_lib\<close>, \<open>mgr_call\<close>), as do the clock, new identifiers,
  the order in which Go walks a map, and the file system outcomes.
\<close>

section \<open>State\<close>

datatype svc_kind = KDisabled | KServer | KFrpc | KFrps

record managed =
  sv_cfg :: config
  sv_kind :: svc_kind
  sv_inst :: nat

record managed_route =
  rt_cfg :: route_config
  rt_inst :: nat

record mgr =
  mg_services :: "string \<rightharpoonup> managed"
  mg_routes :: "string \<rightharpoonup> managed_route"
  mg_dir :: config_dir
  mg_fresh :: nat
  mg_open :: "nat set"

record mgr_lib =
  ml_build :: "config \<Rightarrow> bool"
  ml_build_route :: "route_config \<Rightarrow> bool"
  ml_json :: "config \<Rightarrow> string"
  ml_route_json :: "route_config \<Rightarrow> string"
  ml_url :: url_lib
  ml_extend :: "string \<Rightarrow> extend option"
  ml_socks :: "string \<Rightarrow> socks_config option"
  ml_warn :: "string \<Rightarrow> route_error option \<Rightarrow> string"

record mgr_call =
  mc_now :: int
  mc_uuid :: string
  mc_run :: bool
  mc_close :: bool
  mc_close_new :: bool
  mc_rerun :: bool
  mc_io :: config_io
  mc_order :: "string list"

datatype mgr_error =
    NameExist | NameTakenByRoute | NameTakenByTunnel | UuidNotExist | TunNotExist | RouteNotExist
  | InvalidMode string | BuildFailed | RunFailed | CloseFailed | FileFailed io_error
  | RollbackFailed mgr_error mgr_error
  | RouteInvalid route_error | MemberNotExist string | MemberProxy string route_error | MemberInput string parse_error
  | MemberProtoDiffers string protocol protocol | ListenTaken string | LegacyNotAllowed

definition NewManager :: "config_dir \<Rightarrow> mgr" where
  "NewManager d = \<lparr>mg_services = Map.empty, mg_routes = Map.empty, mg_dir = d, mg_fresh = 0, mg_open = {}\<rparr>"

section \<open>Service objects\<close>

definition NewService :: "mgr_lib \<Rightarrow> config \<Rightarrow> mgr_error + svc_kind" where
  "NewService L cfg =
     (if Mode cfg = '''' \<or> Mode cfg = ''default'' then if ml_build L cfg then Inr KServer else Inl BuildFailed
      else if Mode cfg = ''frpc'' then if ml_build L cfg then Inr KFrpc else Inl BuildFailed
      else if Mode cfg = ''frps'' then if ml_build L cfg then Inr KFrps else Inl BuildFailed
      else Inl (InvalidMode (Mode cfg)))"

definition NewDisabledService :: "config \<Rightarrow> nat \<Rightarrow> managed" where
  "NewDisabledService cfg i = \<lparr>sv_cfg = cfg\<lparr>Disabled := True\<rparr>, sv_kind = KDisabled, sv_inst = i\<rparr>"

definition prepareManagedService :: "mgr_lib \<Rightarrow> config \<Rightarrow> mgr \<Rightarrow> (mgr_error + managed) \<times> mgr" where
  "prepareManagedService L cfg m =
     (let m1 = m\<lparr>mg_fresh := Suc (mg_fresh m)\<rparr> in
      if Disabled cfg then (Inr (NewDisabledService cfg (mg_fresh m)), m1)
      else
        (case NewService L cfg of
           Inl e \<Rightarrow> (Inl e, m)
         | Inr k \<Rightarrow> (Inr \<lparr>sv_cfg = cfg, sv_kind = k, sv_inst = mg_fresh m\<rparr>, m1)))"

text \<open>\<open>runPreparedService\<close>: \<open>ok\<close> says that \<open>Run\<close> returned no error within two seconds, or did not return
  by then. A disabled service always runs and closes.\<close>

definition runPreparedService :: "bool \<Rightarrow> managed \<Rightarrow> mgr \<Rightarrow> bool \<times> mgr" where
  "runPreparedService ok s m = (sv_kind s = KDisabled \<or> ok, m\<lparr>mg_open := insert (sv_inst s) (mg_open m)\<rparr>)"

definition close_service :: "bool \<Rightarrow> managed \<Rightarrow> mgr \<Rightarrow> bool \<times> mgr" where
  "close_service ok s m =
     (if sv_kind s = KDisabled \<or> ok then (True, m\<lparr>mg_open := mg_open m - {sv_inst s}\<rparr>) else (False, m))"

definition normalizeConfig :: "mgr_call \<Rightarrow> config \<Rightarrow> config" where
  "normalizeConfig c cfg =
     (let cfg1 = (if CreatedAt cfg = 0 then cfg\<lparr>CreatedAt := mc_now c\<rparr> else cfg) in
      if UUID cfg1 = '''' then cfg1\<lparr>UUID := mc_uuid c\<rparr> else cfg1)"

section \<open>Tunnels\<close>

definition GetService :: "string \<Rightarrow> mgr \<Rightarrow> managed option" where
  "GetService name m = mg_services m name"

text \<open>Walking the map in some order, \<open>getServiceByUUIDLocked\<close> and \<open>GetServiceByUUID\<close>.\<close>

fun getServiceByUUIDLocked :: "string list \<Rightarrow> string \<Rightarrow> mgr \<Rightarrow> (managed \<times> string) option" where
  "getServiceByUUIDLocked [] uuid m = None"
| "getServiceByUUIDLocked (n # ns) uuid m =
     (case mg_services m n of
        Some s \<Rightarrow> if UUID (sv_cfg s) = uuid then Some (s, n) else getServiceByUUIDLocked ns uuid m
      | None \<Rightarrow> getServiceByUUIDLocked ns uuid m)"

text \<open>
  \<open>RemoveService\<close> deletes the file before it takes the lock, so it is two steps: the file first, then,
  under the lock, closing and forgetting the service. \<open>RemoveService\<close> is both without an operation of
  another request in between; \<open>remove_race\<close> shows what such an operation can do.
\<close>

definition remove_service_file :: "mgr_call \<Rightarrow> string \<Rightarrow> mgr \<Rightarrow> mgr_error option \<times> mgr" where
  "remove_service_file c name m =
     (case deleteFile (mc_io c) (config_file TUN_CONFIG_SUFFIX name) (mg_dir m) of
        (Some e, d) \<Rightarrow> (Some (FileFailed e), m\<lparr>mg_dir := d\<rparr>)
      | (None, d) \<Rightarrow> (None, m\<lparr>mg_dir := d\<rparr>))"

definition remove_service_locked :: "mgr_call \<Rightarrow> string \<Rightarrow> mgr \<Rightarrow> mgr_error option \<times> mgr" where
  "remove_service_locked c name m =
     (case mg_services m name of
        None \<Rightarrow> (None, m)
      | Some s \<Rightarrow>
          (case close_service (mc_close c) s m of
             (False, m2) \<Rightarrow> (Some CloseFailed, m2)
           | (True, m2) \<Rightarrow> (None, m2\<lparr>mg_services := (mg_services m2)(name := None)\<rparr>)))"

definition RemoveService :: "mgr_call \<Rightarrow> string \<Rightarrow> mgr \<Rightarrow> mgr_error option \<times> mgr" where
  "RemoveService c name m =
     (case remove_service_file c name m of
        (Some e, m1) \<Rightarrow> (Some e, m1)
      | (None, m1) \<Rightarrow> remove_service_locked c name m1)"

definition RemoveServiceByUUID :: "mgr_call \<Rightarrow> string \<Rightarrow> mgr \<Rightarrow> mgr_error option \<times> mgr" where
  "RemoveServiceByUUID c uuid m =
     (case getServiceByUUIDLocked (mc_order c) uuid m of
        None \<Rightarrow> (Some UuidNotExist, m)
      | Some (s, _) \<Rightarrow> RemoveService c (Name (sv_cfg s)) m)"

definition AddService :: "mgr_lib \<Rightarrow> mgr_call \<Rightarrow> config \<Rightarrow> bool \<Rightarrow> mgr \<Rightarrow> mgr_error option \<times> mgr" where
  "AddService L c config createFile m =
     (let cfg = normalizeConfig c config in
      if mg_services m (Name cfg) \<noteq> None then (Some NameExist, m)
      else
        (case prepareManagedService L cfg m of
           (Inl e, m1) \<Rightarrow> (Some e, m1)
         | (Inr s, m1) \<Rightarrow>
             (case runPreparedService (mc_run c) s m1 of
                (False, m2) \<Rightarrow> (Some RunFailed, m2)
              | (True, m2) \<Rightarrow>
                  if createFile then
                    (case writeFileAtomic (mc_io c) (config_file TUN_CONFIG_SUFFIX (Name cfg)) (ml_json L cfg) (mg_dir m2) of
                       (Some e, d) \<Rightarrow> (Some (FileFailed e), snd (close_service (mc_close_new c) s (m2\<lparr>mg_dir := d\<rparr>)))
                     | (None, d) \<Rightarrow> (None, m2\<lparr>mg_dir := d, mg_services := (mg_services m2)(Name cfg \<mapsto> s)\<rparr>))
                  else (None, m2\<lparr>mg_services := (mg_services m2)(Name cfg \<mapsto> s)\<rparr>))))"

definition rollbackReplaceLocked :: "mgr_lib \<Rightarrow> mgr_call \<Rightarrow> string \<Rightarrow> config \<Rightarrow> mgr_error \<Rightarrow> mgr \<Rightarrow> mgr_error option \<times> mgr" where
  "rollbackReplaceLocked L c oldName oldCfg cause m =
     (case prepareManagedService L oldCfg m of
        (Inl e, m1) \<Rightarrow> (Some (RollbackFailed cause e), m1\<lparr>mg_services := (mg_services m1)(oldName := None)\<rparr>)
      | (Inr s, m1) \<Rightarrow>
          (case runPreparedService (mc_rerun c) s m1 of
             (False, m2) \<Rightarrow> (Some (RollbackFailed cause RunFailed), m2\<lparr>mg_services := (mg_services m2)(oldName := None)\<rparr>)
           | (True, m2) \<Rightarrow> (Some cause, m2\<lparr>mg_services := (mg_services m2)(oldName \<mapsto> s)\<rparr>)))"

text \<open>The common end of \<open>ReplaceServiceByUUID\<close> and \<open>SetServiceDisabled\<close>: prepare the new service, close the
  old one, run the new one, replace the file, and go back to the old one when a step fails.\<close>

definition swap_service ::
  "mgr_lib \<Rightarrow> mgr_call \<Rightarrow> managed \<Rightarrow> string \<Rightarrow> string \<Rightarrow> config \<Rightarrow> mgr \<Rightarrow> mgr_error option \<times> mgr" where
  "swap_service L c old oldName newName cfg m =
     (let oldCfg = sv_cfg old in
      case prepareManagedService L cfg m of
        (Inl e, m1) \<Rightarrow> (Some e, m1)
      | (Inr s, m1) \<Rightarrow>
          (case close_service (mc_close c) old m1 of
             (False, m2) \<Rightarrow> (Some CloseFailed, m2)
           | (True, m2) \<Rightarrow>
               (case runPreparedService (mc_run c) s m2 of
                  (False, m3) \<Rightarrow> rollbackReplaceLocked L c oldName oldCfg RunFailed m3
                | (True, m3) \<Rightarrow>
                    (case replaceFile (mc_io c) (config_file TUN_CONFIG_SUFFIX (Name oldCfg)) (config_file TUN_CONFIG_SUFFIX (Name cfg))
                            (ml_json L cfg) (mg_dir m3) of
                       (Some e, d) \<Rightarrow>
                         rollbackReplaceLocked L c oldName oldCfg (FileFailed e) (snd (close_service (mc_close_new c) s (m3\<lparr>mg_dir := d\<rparr>)))
                     | (None, d) \<Rightarrow>
                         (None, m3\<lparr>mg_dir := d, mg_services := (mg_services m3)(oldName := None, newName \<mapsto> s)\<rparr>)))))"

definition ReplaceServiceByUUID :: "mgr_lib \<Rightarrow> mgr_call \<Rightarrow> config \<Rightarrow> mgr \<Rightarrow> mgr_error option \<times> mgr" where
  "ReplaceServiceByUUID L c config m =
     (case getServiceByUUIDLocked (mc_order c) (UUID config) m of
        None \<Rightarrow> (Some UuidNotExist, m)
      | Some (old, oldName) \<Rightarrow>
          (let cfg = (normalizeConfig c config)\<lparr>UUID := UUID (sv_cfg old), CreatedAt := CreatedAt (sv_cfg old)\<rparr> in
           if Name cfg \<noteq> oldName \<and> mg_services m (Name cfg) \<noteq> None then (Some NameExist, m)
           else swap_service L c old oldName (Name cfg) cfg m))"

definition SetServiceDisabled :: "mgr_lib \<Rightarrow> mgr_call \<Rightarrow> string \<Rightarrow> bool \<Rightarrow> mgr \<Rightarrow> mgr_error option \<times> mgr" where
  "SetServiceDisabled L c name disabled m =
     (case mg_services m name of
        None \<Rightarrow> (Some TunNotExist, m)
      | Some current \<Rightarrow>
          if Disabled (sv_cfg current) = disabled then (None, m)
          else swap_service L c current name name ((sv_cfg current)\<lparr>Disabled := disabled\<rparr>) m)"

section \<open>Routes\<close>

text \<open>The loop over the members in \<open>validateRouteLocked\<close>: an error, or the probe warnings.\<close>

fun check_route_members ::
  "mgr_lib \<Rightarrow> mgr \<Rightarrow> route_config \<Rightarrow> string list \<Rightarrow> string set \<Rightarrow> string list \<Rightarrow> mgr_error + string list" where
  "check_route_members L m cfg [] seen warnings = Inr warnings"
| "check_route_members L m cfg (n # ns) seen warnings =
     (case mg_services m n of
        None \<Rightarrow> Inl (MemberNotExist n)
      | Some s \<Rightarrow>
          if r_Mode cfg = RouteModeInput then
            (let w1 = (if r_ProbeMode cfg = RouteProbeLegacyFrame \<and> n \<in> seen then warnings @ [ml_warn L n None] else warnings) in
             case routeQualityProxy (ml_extend L) (ml_socks L) (sv_cfg s) of
               Inl e \<Rightarrow>
                 if usesFullPathProbe cfg then Inl (MemberProxy n e)
                 else check_route_members L m cfg ns (insert n seen) (w1 @ [ml_warn L n (Some e)])
             | Inr _ \<Rightarrow> check_route_members L m cfg ns (insert n seen) w1)
          else check_route_members L m cfg ns seen warnings)"

text \<open>All members of an input route speak the protocol of the first; \<open>want\<close> is absent before it.\<close>

fun check_protocols :: "mgr \<Rightarrow> string list \<Rightarrow> protocol option \<Rightarrow> mgr_error option" where
  "check_protocols m [] want = None"
| "check_protocols m (n # ns) want =
     (case mg_services m n of
        None \<Rightarrow> Some (MemberNotExist n)
      | Some s \<Rightarrow>
          (case memberInputProto (sv_cfg s) of
             Inl e \<Rightarrow> Some (MemberInput n e)
           | Inr p \<Rightarrow>
               (case want of
                  None \<Rightarrow> check_protocols m ns (Some p)
                | Some w \<Rightarrow> if p \<noteq> w then Some (MemberProtoDiffers n p w) else check_protocols m ns want)))"

fun listen_conflict :: "mgr \<Rightarrow> string list \<Rightarrow> string \<Rightarrow> string \<Rightarrow> mgr_error option" where
  "listen_conflict m [] listen excl = None"
| "listen_conflict m (n # ns) listen excl =
     (case mg_routes m n of
        Some r \<Rightarrow>
          if r_UUID (rt_cfg r) \<noteq> excl \<and> r_Listen (rt_cfg r) = listen then Some (ListenTaken n)
          else listen_conflict m ns listen excl
      | None \<Rightarrow> listen_conflict m ns listen excl)"

definition validateRouteLocked ::
  "mgr_lib \<Rightarrow> string list \<Rightarrow> string \<Rightarrow> mgr \<Rightarrow> route_config \<Rightarrow> mgr_error + route_config" where
  "validateRouteLocked L order excl m cfg0 =
     (case validateBasic (ml_url L) cfg0 of
        (Some e, _) \<Rightarrow> Inl (RouteInvalid e)
      | (None, cfg) \<Rightarrow>
          if (case mg_routes m (r_Name cfg) of Some r \<Rightarrow> r_UUID (rt_cfg r) \<noteq> excl | None \<Rightarrow> False) then Inl NameTakenByRoute
          else if mg_services m (r_Name cfg) \<noteq> None then Inl NameTakenByTunnel
          else
            (case check_route_members L m cfg (r_Members cfg) {} [] of
               Inl e \<Rightarrow> Inl e
             | Inr ws \<Rightarrow>
                 (case (if r_Mode cfg = RouteModeInput then check_protocols m (r_Members cfg) None else None) of
                    Some e \<Rightarrow> Inl e
                  | None \<Rightarrow>
                      (case listen_conflict m order (r_Listen cfg) excl of
                         Some e \<Rightarrow> Inl e
                       | None \<Rightarrow> Inr (cfg\<lparr>r_ProbeWarnings := ws\<rparr>)))))"

text \<open>\<open>newRouteService\<close>: the basic validation again, then the parts the output mode needs.\<close>

definition buildRouteServiceLocked :: "mgr_lib \<Rightarrow> route_config \<Rightarrow> mgr \<Rightarrow> (mgr_error + managed_route) \<times> mgr" where
  "buildRouteServiceLocked L cfg m =
     (case validateBasic (ml_url L) cfg of
        (Some e, _) \<Rightarrow> (Inl (RouteInvalid e), m)
      | (None, cfg') \<Rightarrow>
          if r_Mode cfg' = RouteModeOutput \<and> \<not> ml_build_route L cfg' then (Inl BuildFailed, m)
          else (Inr \<lparr>rt_cfg = cfg', rt_inst = mg_fresh m\<rparr>, m\<lparr>mg_fresh := Suc (mg_fresh m)\<rparr>))"

definition run_route :: "bool \<Rightarrow> managed_route \<Rightarrow> mgr \<Rightarrow> bool \<times> mgr" where
  "run_route ok r m = (r_Disabled (rt_cfg r) \<or> ok, m\<lparr>mg_open := insert (rt_inst r) (mg_open m)\<rparr>)"

definition close_route :: "managed_route \<Rightarrow> mgr \<Rightarrow> mgr" where
  "close_route r m = m\<lparr>mg_open := mg_open m - {rt_inst r}\<rparr>"

text \<open>The fallback of \<open>AddRoute\<close> for configurations loaded from files: full-path probing unless a member
  is repeated or has no plain SOCKS input.\<close>

fun legacy_probe_mode :: "mgr_lib \<Rightarrow> mgr \<Rightarrow> string list \<Rightarrow> string set \<Rightarrow> string" where
  "legacy_probe_mode L m [] seen = RouteProbeFullPath"
| "legacy_probe_mode L m (n # ns) seen =
     (if n \<in> seen then RouteProbeLegacyFrame
      else
        (case mg_services m n of
           None \<Rightarrow> legacy_probe_mode L m ns (insert n seen)
         | Some s \<Rightarrow>
             (case routeQualityProxy (ml_extend L) (ml_socks L) (sv_cfg s) of
                Inl _ \<Rightarrow> RouteProbeLegacyFrame
              | Inr _ \<Rightarrow> legacy_probe_mode L m ns (insert n seen))))"

definition route_defaults :: "mgr_lib \<Rightarrow> mgr_call \<Rightarrow> route_config \<Rightarrow> bool \<Rightarrow> mgr \<Rightarrow> route_config" where
  "route_defaults L c cfg createFile m =
     (let c1 = (if \<not> createFile \<and> r_Mode cfg = RouteModeInput \<and> (r_Policy cfg = '''' \<or> r_Policy cfg = ''priority'') \<and>
                   (r_ProbeMode cfg = '''' \<or> r_ProbeMode cfg = RouteProbeLegacyFrame)
                then cfg\<lparr>r_ProbeMode := legacy_probe_mode L m (r_Members cfg) {}\<rparr> else cfg);
          c2 = (if r_UUID c1 = '''' then c1\<lparr>r_UUID := mc_uuid c\<rparr> else c1)
      in if r_CreatedAt c2 = 0 then c2\<lparr>r_CreatedAt := mc_now c\<rparr> else c2)"

definition AddRoute :: "mgr_lib \<Rightarrow> mgr_call \<Rightarrow> route_config \<Rightarrow> bool \<Rightarrow> mgr \<Rightarrow> mgr_error option \<times> mgr" where
  "AddRoute L c cfg0 createFile m =
     (if createFile \<and> r_ProbeMode cfg0 = RouteProbeLegacyFrame then (Some LegacyNotAllowed, m)
      else
        (case validateRouteLocked L (mc_order c) '''' m (route_defaults L c cfg0 createFile m) of
           Inl e \<Rightarrow> (Some e, m)
         | Inr cfg \<Rightarrow>
             (case buildRouteServiceLocked L cfg m of
                (Inl e, m1) \<Rightarrow> (Some e, m1)
              | (Inr r, m1) \<Rightarrow>
                  (case run_route (mc_run c) r m1 of
                     (False, m2) \<Rightarrow> (Some RunFailed, m2)
                   | (True, m2) \<Rightarrow>
                       if createFile then
                         (case writeFileAtomic (mc_io c) (config_file ROUTE_CONFIG_SUFFIX (r_Name cfg)) (ml_route_json L cfg) (mg_dir m2) of
                            (Some e, d) \<Rightarrow> (Some (FileFailed e), close_route r (m2\<lparr>mg_dir := d\<rparr>))
                          | (None, d) \<Rightarrow> (None, m2\<lparr>mg_dir := d, mg_routes := (mg_routes m2)(r_Name cfg \<mapsto> r)\<rparr>))
                       else (None, m2\<lparr>mg_routes := (mg_routes m2)(r_Name cfg \<mapsto> r)\<rparr>)))))"

fun getRouteByUUIDLocked :: "string list \<Rightarrow> string \<Rightarrow> mgr \<Rightarrow> (managed_route \<times> string) option" where
  "getRouteByUUIDLocked [] uuid m = None"
| "getRouteByUUIDLocked (n # ns) uuid m =
     (case mg_routes m n of
        Some r \<Rightarrow> if r_UUID (rt_cfg r) = uuid then Some (r, n) else getRouteByUUIDLocked ns uuid m
      | None \<Rightarrow> getRouteByUUIDLocked ns uuid m)"

definition rollbackRouteLocked :: "mgr_lib \<Rightarrow> mgr_call \<Rightarrow> string \<Rightarrow> route_config \<Rightarrow> mgr_error \<Rightarrow> mgr \<Rightarrow> mgr_error option \<times> mgr" where
  "rollbackRouteLocked L c oldName oldCfg cause m =
     (case buildRouteServiceLocked L oldCfg m of
        (Inl e, m1) \<Rightarrow> (Some (RollbackFailed cause e), m1\<lparr>mg_routes := (mg_routes m1)(oldName := None)\<rparr>)
      | (Inr r, m1) \<Rightarrow>
          (case run_route (mc_rerun c) r m1 of
             (False, m2) \<Rightarrow> (Some (RollbackFailed cause RunFailed), m2\<lparr>mg_routes := (mg_routes m2)(oldName := None)\<rparr>)
           | (True, m2) \<Rightarrow> (Some cause, m2\<lparr>mg_routes := (mg_routes m2)(oldName \<mapsto> r)\<rparr>)))"

text \<open>The common end of \<open>ReplaceRouteByUUID\<close> and \<open>SetRouteDisabled\<close>.\<close>

definition swap_route ::
  "mgr_lib \<Rightarrow> mgr_call \<Rightarrow> managed_route \<Rightarrow> string \<Rightarrow> string \<Rightarrow> route_config \<Rightarrow> mgr \<Rightarrow> mgr_error option \<times> mgr" where
  "swap_route L c old oldName newName cfg m =
     (case buildRouteServiceLocked L cfg m of
        (Inl e, m1) \<Rightarrow> (Some e, m1)
      | (Inr r, m1) \<Rightarrow>
          (case run_route (mc_run c) r (close_route old m1) of
             (False, m3) \<Rightarrow> rollbackRouteLocked L c oldName (rt_cfg old) RunFailed m3
           | (True, m3) \<Rightarrow>
               (case replaceFile (mc_io c) (config_file ROUTE_CONFIG_SUFFIX (r_Name (rt_cfg old)))
                       (config_file ROUTE_CONFIG_SUFFIX (r_Name cfg)) (ml_route_json L cfg) (mg_dir m3) of
                  (Some e, d) \<Rightarrow> rollbackRouteLocked L c oldName (rt_cfg old) (FileFailed e) (close_route r (m3\<lparr>mg_dir := d\<rparr>))
                | (None, d) \<Rightarrow> (None, m3\<lparr>mg_dir := d, mg_routes := (mg_routes m3)(oldName := None, newName \<mapsto> r)\<rparr>))))"

definition ReplaceRouteByUUID :: "mgr_lib \<Rightarrow> mgr_call \<Rightarrow> route_config \<Rightarrow> mgr \<Rightarrow> mgr_error option \<times> mgr" where
  "ReplaceRouteByUUID L c cfg0 m =
     (case getRouteByUUIDLocked (mc_order c) (r_UUID cfg0) m of
        None \<Rightarrow> (Some UuidNotExist, m)
      | Some (old, oldName) \<Rightarrow>
          (let c1 = cfg0\<lparr>r_UUID := r_UUID (rt_cfg old), r_CreatedAt := r_CreatedAt (rt_cfg old)\<rparr>;
               c2 = (if r_Mode c1 = RouteModeInput then c1\<lparr>r_ProbeMode := RouteProbeFullPath\<rparr> else c1)
           in (case validateRouteLocked L (mc_order c) (r_UUID c2) m c2 of
                 Inl e \<Rightarrow> (Some e, m)
               | Inr cfg \<Rightarrow> swap_route L c old oldName (r_Name cfg) cfg m)))"

definition SetRouteDisabled :: "mgr_lib \<Rightarrow> mgr_call \<Rightarrow> string \<Rightarrow> bool \<Rightarrow> mgr \<Rightarrow> mgr_error option \<times> mgr" where
  "SetRouteDisabled L c name disabled m =
     (case mg_routes m name of
        None \<Rightarrow> (Some RouteNotExist, m)
      | Some current \<Rightarrow>
          if r_Disabled (rt_cfg current) = disabled then (None, m)
          else
            (case validateRouteLocked L (mc_order c) (r_UUID (rt_cfg current)) m ((rt_cfg current)\<lparr>r_Disabled := disabled\<rparr>) of
               Inl e \<Rightarrow> (Some e, m)
             | Inr cfg \<Rightarrow> swap_route L c current name name cfg m))"

text \<open>\<open>RemoveRoute\<close>: two steps as well.\<close>

definition remove_route_file :: "mgr_call \<Rightarrow> string \<Rightarrow> mgr \<Rightarrow> mgr_error option \<times> mgr" where
  "remove_route_file c name m =
     (case deleteFile (mc_io c) (config_file ROUTE_CONFIG_SUFFIX name) (mg_dir m) of
        (Some e, d) \<Rightarrow> (Some (FileFailed e), m\<lparr>mg_dir := d\<rparr>)
      | (None, d) \<Rightarrow> (None, m\<lparr>mg_dir := d\<rparr>))"

definition remove_route_locked :: "string \<Rightarrow> mgr \<Rightarrow> mgr_error option \<times> mgr" where
  "remove_route_locked name m =
     (case mg_routes m name of
        None \<Rightarrow> (None, m)
      | Some r \<Rightarrow> (let m2 = close_route r m in (None, m2\<lparr>mg_routes := (mg_routes m2)(name := None)\<rparr>)))"

definition RemoveRoute :: "mgr_call \<Rightarrow> string \<Rightarrow> mgr \<Rightarrow> mgr_error option \<times> mgr" where
  "RemoveRoute c name m =
     (case remove_route_file c name m of
        (Some e, m1) \<Rightarrow> (Some e, m1)
      | (None, m1) \<Rightarrow> remove_route_locked name m1)"

definition RemoveRouteByUUID :: "mgr_call \<Rightarrow> string \<Rightarrow> mgr \<Rightarrow> mgr_error option \<times> mgr" where
  "RemoveRouteByUUID c uuid m =
     (case getRouteByUUIDLocked (mc_order c) uuid m of
        None \<Rightarrow> (Some UuidNotExist, m)
      | Some (r, _) \<Rightarrow> RemoveRoute c (r_Name (rt_cfg r)) m)"

definition AllRoute :: "string list \<Rightarrow> string \<Rightarrow> mgr \<Rightarrow> managed_route list" where
  "AllRoute order mode m =
     concat (map (\<lambda>n. case mg_routes m n of
                        Some r \<Rightarrow> if mode = '''' \<or> r_Mode (rt_cfg r) = mode then [r] else []
                      | None \<Rightarrow> []) order)"

section \<open>Start\<close>

text \<open>\<open>Run\<close>: the tunnels first, any error ends it; then the routes, errors are only logged. Each call
  of \<open>AddService\<close> and \<open>AddRoute\<close> has its own outcomes.\<close>

fun add_services :: "mgr_lib \<Rightarrow> (nat \<Rightarrow> mgr_call) \<Rightarrow> nat \<Rightarrow> config list \<Rightarrow> mgr \<Rightarrow> mgr_error option \<times> mgr" where
  "add_services L cs i [] m = (None, m)"
| "add_services L cs i (cfg # cfgs) m =
     (case AddService L (cs i) cfg False m of
        (Some e, m') \<Rightarrow> (Some e, m')
      | (None, m') \<Rightarrow> add_services L cs (Suc i) cfgs m')"

fun add_routes :: "mgr_lib \<Rightarrow> (nat \<Rightarrow> mgr_call) \<Rightarrow> nat \<Rightarrow> route_config list \<Rightarrow> mgr \<Rightarrow> mgr" where
  "add_routes L cs i [] m = m"
| "add_routes L cs i (cfg # cfgs) m = add_routes L cs (Suc i) cfgs (snd (AddRoute L (cs i) cfg False m))"

definition manager_Run ::
  "mgr_lib \<Rightarrow> (string \<Rightarrow> config option) \<Rightarrow> (string \<Rightarrow> route_config option) \<Rightarrow> (string \<Rightarrow> bool) \<Rightarrow> string list
   \<Rightarrow> (nat \<Rightarrow> mgr_call) \<Rightarrow> mgr \<Rightarrow> mgr_error option \<times> mgr" where
  "manager_Run L dec decRoute readable entries cs m =
     (case loadAllFile readable dec TUN_CONFIG_SUFFIX entries (mg_dir m) of
        Inl e \<Rightarrow> (Some (FileFailed e), m)
      | Inr cfgs \<Rightarrow>
          (case add_services L cs 0 cfgs m of
             (Some e, m1) \<Rightarrow> (Some e, m1)
           | (None, m1) \<Rightarrow>
               (case loadAllFile readable decRoute ROUTE_CONFIG_SUFFIX entries (mg_dir m1) of
                  Inl e \<Rightarrow> (Some (FileFailed e), m1)
                | Inr rs \<Rightarrow> (None, add_routes L cs (length cfgs) rs m1))))"

section \<open>Instances\<close>

text \<open>The instance registered under each name, tunnels left and routes right.\<close>

definition slot :: "mgr \<Rightarrow> (string + string) \<rightharpoonup> nat" where
  "slot m k = (case k of Inl n \<Rightarrow> map_option sv_inst (mg_services m n) | Inr n \<Rightarrow> map_option rt_inst (mg_routes m n))"

text \<open>No instance is registered twice, every registered instance is running, all were made here.\<close>

definition slots_ok :: "('k \<rightharpoonup> nat) \<Rightarrow> nat set \<Rightarrow> nat \<Rightarrow> bool" where
  "slots_ok sl op fr \<longleftrightarrow>
     (\<forall>k k' i. sl k = Some i \<longrightarrow> sl k' = Some i \<longrightarrow> k = k') \<and> (\<forall>k i. sl k = Some i \<longrightarrow> i \<in> op) \<and> (\<forall>i\<in>op. i < fr)"

definition names_ok :: "mgr \<Rightarrow> bool" where
  "names_ok m \<longleftrightarrow>
     (\<forall>n s. mg_services m n = Some s \<longrightarrow> Name (sv_cfg s) = n) \<and> (\<forall>n r. mg_routes m n = Some r \<longrightarrow> r_Name (rt_cfg r) = n)"

definition registry_ok :: "mgr \<Rightarrow> bool" where
  "registry_ok m \<longleftrightarrow> slots_ok (slot m) (mg_open m) (mg_fresh m) \<and> names_ok m"

lemma slots_grow: "slots_ok sl op fr \<Longrightarrow> fr \<le> fr' \<Longrightarrow> slots_ok sl op fr'"
  by (fastforce simp: slots_ok_def)

lemma slots_open: "slots_ok sl op fr \<Longrightarrow> slots_ok sl (insert fr op) (Suc fr)"
  by (fastforce simp: slots_ok_def)

lemma slots_forget: "slots_ok sl op fr \<Longrightarrow> slots_ok (sl(k := None)) op fr"
  by (simp add: slots_ok_def)

lemma slots_close: "slots_ok sl op fr \<Longrightarrow> sl k = Some i \<Longrightarrow> slots_ok (sl(k := None)) (op - {i}) fr"
  by (auto simp: slots_ok_def)

lemma slots_spare: "slots_ok sl op fr \<Longrightarrow> \<forall>k. sl k \<noteq> Some i \<Longrightarrow> slots_ok sl (op - {i}) fr"
  by (auto simp: slots_ok_def)

lemma slots_fresh: "slots_ok sl op fr \<Longrightarrow> sl k \<noteq> Some fr"
  by (auto simp: slots_ok_def)

lemma slots_register:
  assumes "slots_ok (sl(k := None)) op fr"
  shows "slots_ok (sl(k \<mapsto> fr)) (insert fr op) (Suc fr)"
proof -
  have f: "sl k' \<noteq> Some fr" if "k' \<noteq> k" for k' using slots_fresh [OF assms, of k'] that by simp
  have i: "sl k1 = Some i \<Longrightarrow> sl k2 = Some i \<Longrightarrow> k1 \<noteq> k \<Longrightarrow> k2 \<noteq> k \<Longrightarrow> k1 = k2"
    "sl k1 = Some i \<Longrightarrow> k1 \<noteq> k \<Longrightarrow> i \<in> op" "i \<in> op \<Longrightarrow> i < fr" for k1 k2 i
    using assms unfolding slots_ok_def by (metis fun_upd_apply)+
  show ?thesis unfolding slots_ok_def
    using f i by (auto simp: less_Suc_eq split: if_splits)
qed

lemma slot_simps [simp]:
  "slot (m\<lparr>mg_dir := d\<rparr>) = slot m" "slot (m\<lparr>mg_fresh := f\<rparr>) = slot m" "slot (m\<lparr>mg_open := op\<rparr>) = slot m"
  "slot (m\<lparr>mg_services := sv\<rparr>) (Inl n) = map_option sv_inst (sv n)" "slot (m\<lparr>mg_services := sv\<rparr>) (Inr n) = slot m (Inr n)"
  "slot (m\<lparr>mg_routes := rt\<rparr>) (Inr n) = map_option rt_inst (rt n)" "slot (m\<lparr>mg_routes := rt\<rparr>) (Inl n) = slot m (Inl n)"
  by (auto simp: slot_def fun_eq_iff split: sum.split)

lemma slot_upd:
  "slot (m\<lparr>mg_services := (mg_services m)(n := x)\<rparr>) = (slot m)(Inl n := map_option sv_inst x)"
  "slot (m\<lparr>mg_routes := (mg_routes m)(n := y)\<rparr>) = (slot m)(Inr n := map_option rt_inst y)"
  by (auto simp: slot_def fun_eq_iff split: sum.split)

lemma prepare_result:
  obtains e where "prepareManagedService L cfg m = (Inl e, m)"
  | s where "prepareManagedService L cfg m = (Inr s, m\<lparr>mg_fresh := Suc (mg_fresh m)\<rparr>)" "sv_cfg s = cfg" "sv_inst s = mg_fresh m"
proof (cases "Disabled cfg")
  case True
  then have "cfg\<lparr>Disabled := True\<rparr> = cfg" by simp
  then show ?thesis using that(2) True by (simp add: prepareManagedService_def NewDisabledService_def Let_def)
next
  case False
  then show ?thesis using that by (cases "NewService L cfg") (auto simp: prepareManagedService_def Let_def)
qed

lemma build_route_result:
  obtains e where "buildRouteServiceLocked L cfg m = (Inl e, m)"
  | r where "buildRouteServiceLocked L cfg m = (Inr r, m\<lparr>mg_fresh := Suc (mg_fresh m)\<rparr>)"
      "rt_cfg r = snd (validateBasic (ml_url L) cfg)" "rt_inst r = mg_fresh m"
proof (cases "validateBasic (ml_url L) cfg")
  case (Pair e b)
  show ?thesis
  proof (cases "e = None \<and> \<not> (r_Mode b = RouteModeOutput \<and> \<not> ml_build_route L b)")
    case True
    then show ?thesis using that(2) Pair by (auto simp: buildRouteServiceLocked_def)
  next
    case False
    then show ?thesis using that(1) Pair by (cases e) (auto simp: buildRouteServiceLocked_def)
  qed
qed

lemma route_normalize_name: "r_Name (snd (validateBasic u cfg)) = r_Name cfg"
  by (simp add: validateBasic_def route_normalize_def Let_def)

text \<open>Registering the freshly built instance under a name that holds nothing (any more).\<close>

lemma register_service:
  assumes "slots_ok ((slot m)(Inl n := None)) (mg_open m) (mg_fresh m)" and "names_ok m" and "sv_inst s = mg_fresh m" and "Name (sv_cfg s) = n"
  shows "registry_ok (m\<lparr>mg_fresh := Suc (mg_fresh m), mg_open := insert (sv_inst s) (mg_open m),
           mg_services := (mg_services m)(n \<mapsto> s)\<rparr>)"
proof -
  let ?m = "m\<lparr>mg_fresh := Suc (mg_fresh m), mg_open := insert (sv_inst s) (mg_open m)\<rparr>"
  have "slot (?m\<lparr>mg_services := (mg_services ?m)(n \<mapsto> s)\<rparr>) = (slot m)(Inl n \<mapsto> mg_fresh m)"
    unfolding slot_upd using assms(3) by simp
  then show ?thesis using slots_register [OF assms(1)] assms(2-4) by (auto simp: registry_ok_def names_ok_def)
qed

lemma rollback_ok:
  assumes "slots_ok ((slot m)(Inl n := None)) (mg_open m) (mg_fresh m)" and "names_ok m" and "Name cfg = n"
  shows "registry_ok (snd (rollbackReplaceLocked L c n cfg cause m))"
proof (cases rule: prepare_result [of L cfg m])
  case (1 e)
  then show ?thesis using assms by (auto simp: rollbackReplaceLocked_def registry_ok_def slot_upd names_ok_def)
next
  case (2 s)
  let ?m = "m\<lparr>mg_fresh := Suc (mg_fresh m), mg_open := insert (sv_inst s) (mg_open m)\<rparr>"
  have "registry_ok (?m\<lparr>mg_services := (mg_services m)(n \<mapsto> s)\<rparr>)" using register_service [OF assms(1,2), of s] 2 assms(3) by simp
  moreover have "slot (?m\<lparr>mg_services := (mg_services ?m)(n := None)\<rparr>) = (slot m)(Inl n := None)"
    unfolding slot_upd by simp
  then have "registry_ok (?m\<lparr>mg_services := (mg_services m)(n := None)\<rparr>)"
    using slots_open [OF assms(1)] 2 assms(2) by (auto simp: registry_ok_def names_ok_def)
  ultimately show ?thesis using 2
    by (cases "sv_kind s = KDisabled \<or> mc_rerun c") (auto simp: rollbackReplaceLocked_def runPreparedService_def)
qed

lemma names_simps [simp]:
  "names_ok (m\<lparr>mg_dir := d\<rparr>) = names_ok m" "names_ok (m\<lparr>mg_fresh := f\<rparr>) = names_ok m" "names_ok (m\<lparr>mg_open := op\<rparr>) = names_ok m"
  by (simp_all add: names_ok_def)

lemma close_result:
  obtains "close_service ok s m = (False, m)"
  | "close_service ok s m = (True, m\<lparr>mg_open := mg_open m - {sv_inst s}\<rparr>)"
  by (cases "sv_kind s = KDisabled \<or> ok") (auto simp: close_service_def)

lemma registry_ok_cong:
  "registry_ok a \<Longrightarrow> mg_services b = mg_services a \<Longrightarrow> mg_routes b = mg_routes a \<Longrightarrow> mg_open b = mg_open a \<Longrightarrow>
   mg_fresh b = mg_fresh a \<Longrightarrow> registry_ok b"
proof -
  assume a: "registry_ok a" "mg_services b = mg_services a" "mg_routes b = mg_routes a" "mg_open b = mg_open a" "mg_fresh b = mg_fresh a"
  then have "slot b = slot a" by (auto simp: slot_def fun_eq_iff split: sum.split)
  then show "registry_ok b" using a by (simp add: registry_ok_def names_ok_def)
qed

text \<open>The state after the old service was closed and \<open>Run\<close> of the new one was called.\<close>

definition switched :: "nat \<Rightarrow> mgr \<Rightarrow> mgr" where
  "switched i m = m\<lparr>mg_fresh := Suc (mg_fresh m), mg_open := insert (mg_fresh m) (mg_open m - {i})\<rparr>"

lemma switched_simps [simp]:
  "mg_services (switched i m) = mg_services m" "mg_routes (switched i m) = mg_routes m" "mg_dir (switched i m) = mg_dir m"
  "slot (switched i m) = slot m" "names_ok (switched i m) = names_ok m"
  "mg_fresh (switched i m) = Suc (mg_fresh m)" "mg_open (switched i m) = insert (mg_fresh m) (mg_open m - {i})"
  by (simp_all add: switched_def)

text \<open>The ways a replacement can end.\<close>

lemma swap_service_cases:
  obtains (unprepared) e where "swap_service L c old n n' cfg m = (Some e, m)" "\<And>x y. e \<noteq> RollbackFailed x y"
  | (unclosed) "swap_service L c old n n' cfg m = (Some CloseFailed, m\<lparr>mg_fresh := Suc (mg_fresh m)\<rparr>)" "\<not> mc_close c"
  | (unrun) "swap_service L c old n n' cfg m = rollbackReplaceLocked L c n (sv_cfg old) RunFailed (switched (sv_inst old) m)" "\<not> mc_run c"
  | (unsaved) e d m' where
      "swap_service L c old n n' cfg m = rollbackReplaceLocked L c n (sv_cfg old) (FileFailed e) m'"
      "replaceFile (mc_io c) (config_file TUN_CONFIG_SUFFIX (Name (sv_cfg old))) (config_file TUN_CONFIG_SUFFIX (Name cfg)) (ml_json L cfg) (mg_dir m) = (Some e, d)"
      "mg_services m' = mg_services m" "mg_routes m' = mg_routes m" "mg_dir m' = d" "mg_fresh m' = Suc (mg_fresh m)"
      "mg_open m' = insert (mg_fresh m) (mg_open m - {sv_inst old}) \<and> \<not> mc_close_new c \<or> mg_open m' = mg_open m - {sv_inst old} - {mg_fresh m}"
  | (swapped) s d where
      "swap_service L c old n n' cfg m =
         (None, (switched (sv_inst old) m)\<lparr>mg_dir := d, mg_services := (mg_services m)(n := None, n' \<mapsto> s)\<rparr>)"
      "replaceFile (mc_io c) (config_file TUN_CONFIG_SUFFIX (Name (sv_cfg old))) (config_file TUN_CONFIG_SUFFIX (Name cfg)) (ml_json L cfg) (mg_dir m) = (None, d)"
      "sv_cfg s = cfg" "sv_inst s = mg_fresh m"
proof (cases rule: prepare_result [of L cfg m])
  case (1 e)
  moreover have "e \<noteq> RollbackFailed x y" for x y
    using 1 by (auto simp: prepareManagedService_def NewService_def Let_def split: if_splits)
  ultimately show ?thesis using unprepared [of e] by (simp add: swap_service_def)
next
  case (2 s)
  let ?m1 = "m\<lparr>mg_fresh := Suc (mg_fresh m)\<rparr>"
  show ?thesis
  proof (cases "sv_kind old = KDisabled \<or> mc_close c")
    case False
    then show ?thesis using unclosed 2 by (simp add: swap_service_def close_service_def)
  next
    case True
    then have c: "close_service (mc_close c) old ?m1 = (True, ?m1\<lparr>mg_open := mg_open m - {sv_inst old}\<rparr>)"
      by (simp add: close_service_def)
    obtain e d where f: "replaceFile (mc_io c) (config_file TUN_CONFIG_SUFFIX (Name (sv_cfg old)))
        (config_file TUN_CONFIG_SUFFIX (Name cfg)) (ml_json L cfg) (mg_dir m) = (e, d)" by fastforce
    have r: "runPreparedService (mc_run c) s (?m1\<lparr>mg_open := mg_open m - {sv_inst old}\<rparr>) =
        (sv_kind s = KDisabled \<or> mc_run c, switched (sv_inst old) m)"
      using 2(3) by (simp add: runPreparedService_def switched_def)
    show ?thesis
    proof (cases "sv_kind s = KDisabled \<or> mc_run c")
      case False
      then show ?thesis using unrun 2 c r by (simp add: swap_service_def)
    next
      case run: True
      show ?thesis
      proof (cases e)
        case None
        then show ?thesis using swapped [where s = s and d = d] run 2 c r f by (simp add: swap_service_def)
      next
        case (Some x)
        then show ?thesis
          using unsaved [where e = x and m' = "snd (close_service (mc_close_new c) s ((switched (sv_inst old) m)\<lparr>mg_dir := d\<rparr>))" and d = d] run 2 c r f
          by (cases "sv_kind s = KDisabled \<or> mc_close_new c") (auto simp: swap_service_def close_service_def)
      qed
    qed
  qed
qed

lemma swap_service_ok:
  assumes ok: "registry_ok m" and old: "mg_services m n = Some old"
    and new: "Name cfg = n'" "n' = n \<or> mg_services m n' = None"
  shows "registry_ok (snd (swap_service L c old n n' cfg m))"
proof -
  have so: "slots_ok (slot m) (mg_open m) (mg_fresh m)" and nm: "names_ok m" and nold: "Name (sv_cfg old) = n"
    using ok old by (auto simp: registry_ok_def names_ok_def)
  have sl: "slot m (Inl n) = Some (sv_inst old)" using old by (simp add: slot_def)
  have closed: "slots_ok ((slot m)(Inl n := None)) (mg_open m - {sv_inst old}) (mg_fresh m)" by (rule slots_close [OF so sl])
  have open3: "slots_ok ((slot m)(Inl n := None)) (insert (mg_fresh m) (mg_open m - {sv_inst old})) (Suc (mg_fresh m))"
    by (rule slots_open [OF closed])
  have shut3: "slots_ok ((slot m)(Inl n := None)) (mg_open m - {sv_inst old} - {mg_fresh m}) (Suc (mg_fresh m))"
    using slots_grow [OF slots_spare [OF closed]] slots_fresh [OF closed] by simp
  show ?thesis
  proof (cases rule: swap_service_cases [of L c old n n' cfg m])
    case (unprepared e)
    then show ?thesis using ok by simp
  next
    case unclosed
    then show ?thesis using nm slots_grow [OF so, of "Suc (mg_fresh m)"] by (simp add: registry_ok_def)
  next
    case unrun
    then show ?thesis using rollback_ok [of "switched (sv_inst old) m" n] open3 nm nold by simp
  next
    case (unsaved e d m')
    have "slot m' = slot m" using unsaved(3,4) by (auto simp: slot_def fun_eq_iff split: sum.split)
    then show ?thesis using unsaved rollback_ok [of m' n] open3 shut3 nm nold by (auto simp: names_ok_def)
  next
    case (swapped s d)
    let ?b = "m\<lparr>mg_open := mg_open m - {sv_inst old}, mg_dir := d, mg_services := (mg_services m)(n := None)\<rparr>"
    have "slot ?b = (slot m)(Inl n := None)" using slot_upd(1) [of "m\<lparr>mg_open := mg_open m - {sv_inst old}, mg_dir := d\<rparr>" n None] by simp
    then have "slots_ok ((slot ?b)(Inl n' := None)) (mg_open ?b) (mg_fresh ?b)" using slots_forget [OF closed, of "Inl n'"] by simp
    moreover have "names_ok ?b" using nm by (simp add: names_ok_def)
    ultimately have "registry_ok (snd (swap_service L c old n n' cfg m))"
      by (rule registry_ok_cong [OF register_service [of ?b n' s]]) (use swapped new(1) in simp_all)
    then show ?thesis .
  qed
qed

text \<open>The same for routes.\<close>

lemma register_route:
  assumes "slots_ok ((slot m)(Inr n := None)) (mg_open m) (mg_fresh m)" and "names_ok m" and "rt_inst r = mg_fresh m" and "r_Name (rt_cfg r) = n"
  shows "registry_ok (m\<lparr>mg_fresh := Suc (mg_fresh m), mg_open := insert (rt_inst r) (mg_open m),
           mg_routes := (mg_routes m)(n \<mapsto> r)\<rparr>)"
proof -
  let ?m = "m\<lparr>mg_fresh := Suc (mg_fresh m), mg_open := insert (rt_inst r) (mg_open m)\<rparr>"
  have "slot (?m\<lparr>mg_routes := (mg_routes ?m)(n \<mapsto> r)\<rparr>) = (slot m)(Inr n \<mapsto> mg_fresh m)"
    unfolding slot_upd using assms(3) by simp
  then show ?thesis using slots_register [OF assms(1)] assms(2-4) by (auto simp: registry_ok_def names_ok_def)
qed

lemma rollback_route_ok:
  assumes "slots_ok ((slot m)(Inr n := None)) (mg_open m) (mg_fresh m)" and "names_ok m" and "r_Name cfg = n"
  shows "registry_ok (snd (rollbackRouteLocked L c n cfg cause m))"
proof (cases rule: build_route_result [of L cfg m])
  case (1 e)
  then show ?thesis using assms by (auto simp: rollbackRouteLocked_def registry_ok_def slot_upd names_ok_def)
next
  case (2 r)
  let ?m = "m\<lparr>mg_fresh := Suc (mg_fresh m), mg_open := insert (rt_inst r) (mg_open m)\<rparr>"
  have "registry_ok (?m\<lparr>mg_routes := (mg_routes m)(n \<mapsto> r)\<rparr>)"
    using register_route [OF assms(1,2), of r] 2 assms(3) route_normalize_name by simp
  moreover have "slot (?m\<lparr>mg_routes := (mg_routes ?m)(n := None)\<rparr>) = (slot m)(Inr n := None)"
    unfolding slot_upd by simp
  then have "registry_ok (?m\<lparr>mg_routes := (mg_routes m)(n := None)\<rparr>)"
    using slots_open [OF assms(1)] 2 assms(2) by (auto simp: registry_ok_def names_ok_def)
  ultimately show ?thesis using 2
    by (cases "r_Disabled (rt_cfg r) \<or> mc_rerun c") (auto simp: rollbackRouteLocked_def run_route_def)
qed

lemma swap_route_cases:
  obtains (unbuilt) e where "swap_route L c old n n' cfg m = (Some e, m)" "\<And>x y. e \<noteq> RollbackFailed x y"
  | (unrun) "swap_route L c old n n' cfg m = rollbackRouteLocked L c n (rt_cfg old) RunFailed (switched (rt_inst old) m)" "\<not> mc_run c"
  | (unsaved) e d m' where
      "swap_route L c old n n' cfg m = rollbackRouteLocked L c n (rt_cfg old) (FileFailed e) m'"
      "replaceFile (mc_io c) (config_file ROUTE_CONFIG_SUFFIX (r_Name (rt_cfg old))) (config_file ROUTE_CONFIG_SUFFIX (r_Name cfg)) (ml_route_json L cfg) (mg_dir m) = (Some e, d)"
      "mg_services m' = mg_services m" "mg_routes m' = mg_routes m" "mg_dir m' = d" "mg_fresh m' = Suc (mg_fresh m)"
      "mg_open m' = mg_open m - {rt_inst old} - {mg_fresh m}"
  | (swapped) r d where
      "swap_route L c old n n' cfg m =
         (None, (switched (rt_inst old) m)\<lparr>mg_dir := d, mg_routes := (mg_routes m)(n := None, n' \<mapsto> r)\<rparr>)"
      "replaceFile (mc_io c) (config_file ROUTE_CONFIG_SUFFIX (r_Name (rt_cfg old))) (config_file ROUTE_CONFIG_SUFFIX (r_Name cfg)) (ml_route_json L cfg) (mg_dir m) = (None, d)"
      "rt_cfg r = snd (validateBasic (ml_url L) cfg)" "rt_inst r = mg_fresh m"
proof (cases rule: build_route_result [of L cfg m])
  case (1 e)
  moreover have "e \<noteq> RollbackFailed x y" for x y
    using 1 by (auto simp: buildRouteServiceLocked_def split: prod.splits option.splits if_splits)
  ultimately show ?thesis using unbuilt [of e] by (simp add: swap_route_def)
next
  case (2 r)
  obtain e d where f: "replaceFile (mc_io c) (config_file ROUTE_CONFIG_SUFFIX (r_Name (rt_cfg old)))
      (config_file ROUTE_CONFIG_SUFFIX (r_Name cfg)) (ml_route_json L cfg) (mg_dir m) = (e, d)" by fastforce
  have r: "run_route (mc_run c) r (close_route old (m\<lparr>mg_fresh := Suc (mg_fresh m)\<rparr>)) =
      (r_Disabled (rt_cfg r) \<or> mc_run c, switched (rt_inst old) m)"
    using 2(3) by (simp add: run_route_def close_route_def switched_def)
  show ?thesis
  proof (cases "r_Disabled (rt_cfg r) \<or> mc_run c")
    case False
    then show ?thesis using unrun 2 r by (simp add: swap_route_def)
  next
    case run: True
    show ?thesis
    proof (cases e)
      case None
      then show ?thesis using swapped [where r = r and d = d] run 2 r f by (simp add: swap_route_def)
    next
      case (Some x)
      then show ?thesis
        using unsaved [where e = x and m' = "close_route r ((switched (rt_inst old) m)\<lparr>mg_dir := d\<rparr>)" and d = d] run 2 r f
        by (auto simp: swap_route_def close_route_def)
    qed
  qed
qed

lemma swap_route_ok:
  assumes ok: "registry_ok m" and old: "mg_routes m n = Some old" and new: "r_Name cfg = n'"
  shows "registry_ok (snd (swap_route L c old n n' cfg m))"
proof -
  have so: "slots_ok (slot m) (mg_open m) (mg_fresh m)" and nm: "names_ok m" and nold: "r_Name (rt_cfg old) = n"
    using ok old by (auto simp: registry_ok_def names_ok_def)
  have sl: "slot m (Inr n) = Some (rt_inst old)" using old by (simp add: slot_def)
  have closed: "slots_ok ((slot m)(Inr n := None)) (mg_open m - {rt_inst old}) (mg_fresh m)" by (rule slots_close [OF so sl])
  have open3: "slots_ok ((slot m)(Inr n := None)) (insert (mg_fresh m) (mg_open m - {rt_inst old})) (Suc (mg_fresh m))"
    by (rule slots_open [OF closed])
  have shut3: "slots_ok ((slot m)(Inr n := None)) (mg_open m - {rt_inst old} - {mg_fresh m}) (Suc (mg_fresh m))"
    using slots_grow [OF slots_spare [OF closed]] slots_fresh [OF closed] by simp
  show ?thesis
  proof (cases rule: swap_route_cases [of L c old n n' cfg m])
    case (unbuilt e)
    then show ?thesis using ok by simp
  next
    case unrun
    then show ?thesis using rollback_route_ok [of "switched (rt_inst old) m" n] open3 nm nold by simp
  next
    case (unsaved e d m')
    have "slot m' = slot m" using unsaved(3,4) by (auto simp: slot_def fun_eq_iff split: sum.split)
    then show ?thesis using unsaved rollback_route_ok [of m' n] shut3 nm nold by (auto simp: names_ok_def)
  next
    case (swapped r d)
    let ?b = "m\<lparr>mg_open := mg_open m - {rt_inst old}, mg_dir := d, mg_routes := (mg_routes m)(n := None)\<rparr>"
    have "slot ?b = (slot m)(Inr n := None)" using slot_upd(2) [of "m\<lparr>mg_open := mg_open m - {rt_inst old}, mg_dir := d\<rparr>" n None] by simp
    then have "slots_ok ((slot ?b)(Inr n' := None)) (mg_open ?b) (mg_fresh ?b)" using slots_forget [OF closed, of "Inr n'"] by simp
    moreover have "names_ok ?b" using nm by (simp add: names_ok_def)
    ultimately show ?thesis
      by (intro registry_ok_cong [OF register_route [of ?b n' r]]) (use swapped new route_normalize_name in simp_all)
  qed
qed

section \<open>Adding and removing\<close>

lemma add_service_cases:
  obtains (rejected) e where "AddService L c cfg f m = (Some e, m)" "e \<noteq> CloseFailed" "\<And>x y. e \<noteq> RollbackFailed x y"
  | (unrun) "AddService L c cfg f m = (Some RunFailed, m\<lparr>mg_fresh := Suc (mg_fresh m), mg_open := insert (mg_fresh m) (mg_open m)\<rparr>)" "\<not> mc_run c"
  | (unsaved) e d op where
      "AddService L c cfg f m = (Some (FileFailed e), m\<lparr>mg_fresh := Suc (mg_fresh m), mg_open := op, mg_dir := d\<rparr>)"
      "writeFileAtomic (mc_io c) (config_file TUN_CONFIG_SUFFIX (Name (normalizeConfig c cfg))) (ml_json L (normalizeConfig c cfg)) (mg_dir m) = (Some e, d)"
      "op = insert (mg_fresh m) (mg_open m) \<and> \<not> mc_close_new c \<or> op = mg_open m - {mg_fresh m}" "f"
  | (added) s d where
      "AddService L c cfg f m = (None, m\<lparr>mg_fresh := Suc (mg_fresh m), mg_open := insert (mg_fresh m) (mg_open m), mg_dir := d,
         mg_services := (mg_services m)(Name (normalizeConfig c cfg) \<mapsto> s)\<rparr>)"
      "mg_services m (Name (normalizeConfig c cfg)) = None" "sv_cfg s = normalizeConfig c cfg" "sv_inst s = mg_fresh m"
      "f \<and> writeFileAtomic (mc_io c) (config_file TUN_CONFIG_SUFFIX (Name (normalizeConfig c cfg))) (ml_json L (normalizeConfig c cfg)) (mg_dir m) = (None, d) \<or> \<not> f \<and> d = mg_dir m"
proof (cases "mg_services m (Name (normalizeConfig c cfg)) = None")
  case False
  then show ?thesis using rejected [of NameExist] by (simp add: AddService_def Let_def)
next
  case free: True
  let ?cfg = "normalizeConfig c cfg"
  show ?thesis
  proof (cases rule: prepare_result [of L ?cfg m])
    case (1 e)
    moreover have "e \<noteq> CloseFailed" "e \<noteq> RollbackFailed x y" for x y
      using 1 by (auto simp: prepareManagedService_def NewService_def Let_def split: if_splits)
    ultimately show ?thesis using rejected [of e] free by (simp add: AddService_def Let_def)
  next
    case (2 s)
    obtain e d where w: "writeFileAtomic (mc_io c) (config_file TUN_CONFIG_SUFFIX (Name ?cfg)) (ml_json L ?cfg) (mg_dir m) = (e, d)" by fastforce
    show ?thesis
    proof (cases "sv_kind s = KDisabled \<or> mc_run c")
      case False
      then show ?thesis using unrun free 2 by (simp add: AddService_def runPreparedService_def Let_def)
    next
      case run: True
      let ?m = "m\<lparr>mg_fresh := Suc (mg_fresh m), mg_open := insert (mg_fresh m) (mg_open m)\<rparr>"
      have r: "runPreparedService (mc_run c) s (m\<lparr>mg_fresh := Suc (mg_fresh m)\<rparr>) = (True, ?m)"
        using run 2 by (simp add: runPreparedService_def)
      have eq: "AddService L c cfg f m =
         (if f then
            (case e of
               Some x \<Rightarrow> (Some (FileFailed x), snd (close_service (mc_close_new c) s (?m\<lparr>mg_dir := d\<rparr>)))
             | None \<Rightarrow> (None, ?m\<lparr>mg_dir := d, mg_services := (mg_services m)(Name ?cfg \<mapsto> s)\<rparr>))
          else (None, ?m\<lparr>mg_services := (mg_services m)(Name ?cfg \<mapsto> s)\<rparr>))"
        using free 2 r w by (simp add: AddService_def Let_def split: option.split)
      have cl: "snd (close_service (mc_close_new c) s (?m\<lparr>mg_dir := d\<rparr>)) =
          m\<lparr>mg_fresh := Suc (mg_fresh m), mg_open := (if sv_kind s = KDisabled \<or> mc_close_new c then mg_open m - {mg_fresh m}
             else insert (mg_fresh m) (mg_open m)), mg_dir := d\<rparr>"
        using 2(3) by (simp add: close_service_def)
      consider "\<not> f" | "f" "e = None" | x where "f" "e = Some x" by (cases e) auto
      then show ?thesis
      proof cases
        case 1
        then show ?thesis using added [where s = s and d = "mg_dir m"] eq free 2 by simp
      next
        case 2
        then show ?thesis using added [where s = s and d = d] eq free w \<open>sv_cfg s = _\<close> \<open>sv_inst s = _\<close> by simp
      next
        case (3 x)
        then show ?thesis using unsaved [where e = x and d = d] eq w cl by (auto split: if_splits)
      qed
    qed
  qed
qed

lemma validate_route_name: "validateRouteLocked L order excl m cfg = Inr cfg' \<Longrightarrow> r_Name cfg' = r_Name cfg"
  using route_normalize_name [of "ml_url L" cfg]
  by (auto simp: validateRouteLocked_def split: prod.splits option.splits sum.splits if_splits)

lemma add_route_cases:
  obtains (rejected) e where "AddRoute L c cfg f m = (Some e, m)" "e \<noteq> CloseFailed" "\<And>x y. e \<noteq> RollbackFailed x y"
  | (unrun) "AddRoute L c cfg f m = (Some RunFailed, m\<lparr>mg_fresh := Suc (mg_fresh m), mg_open := insert (mg_fresh m) (mg_open m)\<rparr>)" "\<not> mc_run c"
  | (unsaved) e d cfg' where
      "AddRoute L c cfg f m = (Some (FileFailed e), m\<lparr>mg_fresh := Suc (mg_fresh m), mg_open := mg_open m - {mg_fresh m}, mg_dir := d\<rparr>)"
      "writeFileAtomic (mc_io c) (config_file ROUTE_CONFIG_SUFFIX (r_Name cfg')) (ml_route_json L cfg') (mg_dir m) = (Some e, d)" "f"
  | (added) r d cfg' where
      "AddRoute L c cfg f m = (None, m\<lparr>mg_fresh := Suc (mg_fresh m), mg_open := insert (mg_fresh m) (mg_open m), mg_dir := d,
         mg_routes := (mg_routes m)(r_Name cfg' \<mapsto> r)\<rparr>)"
      "validateRouteLocked L (mc_order c) '''' m (route_defaults L c cfg f m) = Inr cfg'"
      "rt_cfg r = snd (validateBasic (ml_url L) cfg')" "rt_inst r = mg_fresh m"
      "f \<and> writeFileAtomic (mc_io c) (config_file ROUTE_CONFIG_SUFFIX (r_Name cfg')) (ml_route_json L cfg') (mg_dir m) = (None, d) \<or> \<not> f \<and> d = mg_dir m"
proof (cases "f \<and> r_ProbeMode cfg = RouteProbeLegacyFrame")
  case True
  then show ?thesis using rejected [of LegacyNotAllowed] by (simp add: AddRoute_def)
next
  case leg: False
  let ?v = "validateRouteLocked L (mc_order c) '''' m (route_defaults L c cfg f m)"
  have plain: "?v = Inl e \<Longrightarrow> e \<noteq> CloseFailed \<and> e \<noteq> RollbackFailed x y" for e x y
  proof -
    have m: "check_route_members L m k ns seen ws = Inl e \<Longrightarrow> e \<noteq> CloseFailed \<and> e \<noteq> RollbackFailed x y" for k ns seen ws
      by (induction ns arbitrary: seen ws) (auto simp: Let_def split: option.splits if_splits sum.splits)
    have p: "check_protocols m ns w = Some e \<Longrightarrow> e \<noteq> CloseFailed \<and> e \<noteq> RollbackFailed x y" for ns w
      by (induction ns arbitrary: w) (auto split: option.splits if_splits sum.splits)
    have l: "listen_conflict m ns a b = Some e \<Longrightarrow> e \<noteq> CloseFailed \<and> e \<noteq> RollbackFailed x y" for ns a b
      by (induction ns) (auto split: option.splits if_splits)
    show "?v = Inl e \<Longrightarrow> ?thesis"
      using m p l by (auto simp: validateRouteLocked_def split: prod.splits option.splits sum.splits if_splits)
  qed
  show ?thesis
  proof (cases ?v)
    case (Inl e)
    then show ?thesis using rejected [of e] plain leg by (simp add: AddRoute_def)
  next
    case (Inr cfg')
    show ?thesis
    proof (cases rule: build_route_result [of L cfg' m])
      case (1 e)
      moreover have "e \<noteq> CloseFailed" "e \<noteq> RollbackFailed x y" for x y
        using 1 by (auto simp: buildRouteServiceLocked_def split: prod.splits option.splits if_splits)
      ultimately show ?thesis using rejected [of e] Inr leg by (simp add: AddRoute_def)
    next
      case (2 r)
      let ?m = "m\<lparr>mg_fresh := Suc (mg_fresh m), mg_open := insert (mg_fresh m) (mg_open m)\<rparr>"
      obtain e d where w: "writeFileAtomic (mc_io c) (config_file ROUTE_CONFIG_SUFFIX (r_Name cfg')) (ml_route_json L cfg') (mg_dir m) = (e, d)" by fastforce
      show ?thesis
      proof (cases "r_Disabled (rt_cfg r) \<or> mc_run c")
        case False
        then show ?thesis using unrun leg Inr 2 by (simp add: AddRoute_def run_route_def)
      next
        case run: True
        have r: "run_route (mc_run c) r (m\<lparr>mg_fresh := Suc (mg_fresh m)\<rparr>) = (True, ?m)"
          using run 2 by (simp add: run_route_def)
        consider "\<not> f" | "f" "e = None" | x where "f" "e = Some x" by (cases e) auto
        then show ?thesis
        proof cases
          case 1
          then show ?thesis using added [where r = r and d = "mg_dir m" and cfg' = cfg'] leg Inr 2 r by (simp add: AddRoute_def)
        next
          case f: 2
          then show ?thesis using added [where r = r and d = d and cfg' = cfg'] leg Inr 2 r w by (simp add: AddRoute_def)
        next
          case (3 x)
          then show ?thesis using unsaved [where e = x and d = d and cfg' = cfg'] leg Inr 2 r w by (simp add: AddRoute_def close_route_def)
        qed
      qed
    qed
  qed
qed

lemmas remove_service_unfold = RemoveService_def remove_service_file_def remove_service_locked_def

lemma remove_service_cases:
  obtains (unlinked) e where "RemoveService c n m = (Some (FileFailed e), m)"
  | (absent) d where "RemoveService c n m = (None, m\<lparr>mg_dir := d\<rparr>)" "mg_services m n = None"
      "deleteFile (mc_io c) (config_file TUN_CONFIG_SUFFIX n) (mg_dir m) = (None, d)"
  | (unclosed) d where "RemoveService c n m = (Some CloseFailed, m\<lparr>mg_dir := d\<rparr>)" "\<not> mc_close c"
  | (removed) d s where "RemoveService c n m = (None, m\<lparr>mg_dir := d, mg_open := mg_open m - {sv_inst s}, mg_services := (mg_services m)(n := None)\<rparr>)"
      "mg_services m n = Some s" "deleteFile (mc_io c) (config_file TUN_CONFIG_SUFFIX n) (mg_dir m) = (None, d)"
proof -
  obtain e d where f: "deleteFile (mc_io c) (config_file TUN_CONFIG_SUFFIX n) (mg_dir m) = (e, d)" by fastforce
  have "e \<noteq> None \<Longrightarrow> d = mg_dir m" using deleteFile_spec [where f = "mc_io c" and fn = "config_file TUN_CONFIG_SUFFIX n" and d = "mg_dir m"] f by (auto split: option.splits)
  then have ed: "\<And>x. e = Some x \<Longrightarrow> m\<lparr>mg_dir := d\<rparr> = m" by simp
  consider x where "e = Some x" | "e = None" "mg_services m n = None"
    | s where "e = None" "mg_services m n = Some s" "sv_kind s = KDisabled \<or> mc_close c"
    | s where "e = None" "mg_services m n = Some s" "\<not> (sv_kind s = KDisabled \<or> mc_close c)" by fastforce
  then show ?thesis
  proof cases
    case (1 x)
    then show ?thesis using unlinked [of x] f ed by (simp add: remove_service_unfold)
  next
    case 2
    then show ?thesis using absent [of d] f by (simp add: remove_service_unfold)
  next
    case (3 s)
    then show ?thesis using removed [where d = d and s = s] f by (simp add: remove_service_unfold close_service_def)
  next
    case (4 s)
    then show ?thesis using unclosed [of d] f by (simp add: remove_service_unfold close_service_def)
  qed
qed

lemmas remove_route_unfold = RemoveRoute_def remove_route_file_def remove_route_locked_def

lemma remove_route_cases:
  obtains (unlinked) e where "RemoveRoute c n m = (Some (FileFailed e), m)"
  | (absent) d where "RemoveRoute c n m = (None, m\<lparr>mg_dir := d\<rparr>)" "mg_routes m n = None"
      "deleteFile (mc_io c) (config_file ROUTE_CONFIG_SUFFIX n) (mg_dir m) = (None, d)"
  | (removed) d r where "RemoveRoute c n m = (None, m\<lparr>mg_dir := d, mg_open := mg_open m - {rt_inst r}, mg_routes := (mg_routes m)(n := None)\<rparr>)"
      "mg_routes m n = Some r" "deleteFile (mc_io c) (config_file ROUTE_CONFIG_SUFFIX n) (mg_dir m) = (None, d)"
proof -
  obtain e d where f: "deleteFile (mc_io c) (config_file ROUTE_CONFIG_SUFFIX n) (mg_dir m) = (e, d)" by fastforce
  have "e \<noteq> None \<Longrightarrow> d = mg_dir m" using deleteFile_spec [where f = "mc_io c" and fn = "config_file ROUTE_CONFIG_SUFFIX n" and d = "mg_dir m"] f by (auto split: option.splits)
  then show ?thesis
    using that f by (cases e; cases "mg_routes m n") (auto simp: remove_route_unfold close_route_def Let_def)
qed

section \<open>The registry as a state machine\<close>

text \<open>The two steps of a removal are operations of their own, so other operations may come between them.\<close>

datatype mgr_op =
    OAdd mgr_call config bool
  | OReplace mgr_call config
  | OSetDisabled mgr_call string bool
  | ORemove mgr_call string
  | ORemoveUUID mgr_call string
  | OAddRoute mgr_call route_config bool
  | OReplaceRoute mgr_call route_config
  | OSetRouteDisabled mgr_call string bool
  | ORemoveRoute mgr_call string
  | ORemoveRouteUUID mgr_call string
  | ORemoveFile mgr_call string
  | ORemoveLocked mgr_call string
  | ORemoveRouteFile mgr_call string
  | ORemoveRouteLocked mgr_call string

fun mgr_step :: "mgr_lib \<Rightarrow> mgr_op \<Rightarrow> mgr \<Rightarrow> mgr_error option \<times> mgr" where
  "mgr_step L (OAdd c cfg f) m = AddService L c cfg f m"
| "mgr_step L (OReplace c cfg) m = ReplaceServiceByUUID L c cfg m"
| "mgr_step L (OSetDisabled c n b) m = SetServiceDisabled L c n b m"
| "mgr_step L (ORemove c n) m = RemoveService c n m"
| "mgr_step L (ORemoveUUID c u) m = RemoveServiceByUUID c u m"
| "mgr_step L (OAddRoute c cfg f) m = AddRoute L c cfg f m"
| "mgr_step L (OReplaceRoute c cfg) m = ReplaceRouteByUUID L c cfg m"
| "mgr_step L (OSetRouteDisabled c n b) m = SetRouteDisabled L c n b m"
| "mgr_step L (ORemoveRoute c n) m = RemoveRoute c n m"
| "mgr_step L (ORemoveRouteUUID c u) m = RemoveRouteByUUID c u m"
| "mgr_step L (ORemoveFile c n) m = remove_service_file c n m"
| "mgr_step L (ORemoveLocked c n) m = remove_service_locked c n m"
| "mgr_step L (ORemoveRouteFile c n) m = remove_route_file c n m"
| "mgr_step L (ORemoveRouteLocked c n) m = remove_route_locked n m"

inductive mgr_reachable :: "mgr_lib \<Rightarrow> mgr \<Rightarrow> bool" for L where
  start: "mgr_reachable L (NewManager d)"
| step: "mgr_reachable L m \<Longrightarrow> mgr_reachable L (snd (mgr_step L op m))"

inductive_cases mgr_reachableE: "mgr_reachable L m"

lemma uuid_lookup: "getServiceByUUIDLocked ns u m = Some (s, n) \<Longrightarrow> mg_services m n = Some s \<and> UUID (sv_cfg s) = u"
  by (induction ns) (auto split: option.splits if_splits)

lemma route_uuid_lookup: "getRouteByUUIDLocked ns u m = Some (r, n) \<Longrightarrow> mg_routes m n = Some r \<and> r_UUID (rt_cfg r) = u"
  by (induction ns) (auto split: option.splits if_splits)

lemma add_service_ok: "registry_ok m \<Longrightarrow> registry_ok (snd (AddService L c cfg f m))"
proof (cases rule: add_service_cases [of L c cfg f m])
  case unrun
  then show "registry_ok m \<Longrightarrow> ?thesis" by (simp add: registry_ok_def slots_open)
next
  case (unsaved e d op)
  then show "registry_ok m \<Longrightarrow> ?thesis"
    using slots_open [of "slot m" "mg_open m" "mg_fresh m"] slots_grow [of "slot m" "mg_open m - {mg_fresh m}" "mg_fresh m" "Suc (mg_fresh m)"]
      slots_spare [of "slot m" "mg_open m" "mg_fresh m" "mg_fresh m"] slots_fresh [of "slot m" "mg_open m" "mg_fresh m"]
    by (auto simp: registry_ok_def)
next
  case (added s d)
  assume "registry_ok m"
  then have "slots_ok ((slot m)(Inl (Name (normalizeConfig c cfg)) := None)) (mg_open m) (mg_fresh m)" "names_ok m"
    by (simp_all add: registry_ok_def slots_forget)
  from register_service [OF this, of s] show ?thesis
    by (rule registry_ok_cong) (use added in simp_all)
qed simp

lemma add_route_ok: "registry_ok m \<Longrightarrow> registry_ok (snd (AddRoute L c cfg f m))"
proof (cases rule: add_route_cases [of L c cfg f m])
  case unrun
  then show "registry_ok m \<Longrightarrow> ?thesis" by (simp add: registry_ok_def slots_open)
next
  case (unsaved e d cfg')
  then show "registry_ok m \<Longrightarrow> ?thesis"
    using slots_grow [of "slot m" "mg_open m - {mg_fresh m}" "mg_fresh m" "Suc (mg_fresh m)"]
      slots_spare [of "slot m" "mg_open m" "mg_fresh m" "mg_fresh m"] slots_fresh [of "slot m" "mg_open m" "mg_fresh m"]
    by (auto simp: registry_ok_def)
next
  case (added r d cfg')
  assume "registry_ok m"
  then have "slots_ok ((slot m)(Inr (r_Name cfg') := None)) (mg_open m) (mg_fresh m)" "names_ok m"
    by (simp_all add: registry_ok_def slots_forget)
  from register_route [OF this, of r] show ?thesis
    by (rule registry_ok_cong) (use added route_normalize_name in simp_all)
qed simp

lemma drop_service_ok:
  assumes "registry_ok m" and "mg_services m n = Some s"
  shows "registry_ok (m\<lparr>mg_dir := d, mg_open := mg_open m - {sv_inst s}, mg_services := (mg_services m)(n := None)\<rparr>)"
proof -
  have "slot m (Inl n) = Some (sv_inst s)" using assms(2) by (simp add: slot_def)
  then have "slots_ok ((slot m)(Inl n := None)) (mg_open m - {sv_inst s}) (mg_fresh m)"
    using assms(1) slots_close by (auto simp: registry_ok_def)
  moreover have "slot (m\<lparr>mg_dir := d, mg_open := mg_open m - {sv_inst s}, mg_services := (mg_services m)(n := None)\<rparr>) = (slot m)(Inl n := None)"
    using slot_upd(1) [of "m\<lparr>mg_dir := d, mg_open := mg_open m - {sv_inst s}\<rparr>" n None] by simp
  ultimately show ?thesis using assms(1) by (auto simp: registry_ok_def names_ok_def)
qed

lemma drop_route_ok:
  assumes "registry_ok m" and "mg_routes m n = Some r"
  shows "registry_ok (m\<lparr>mg_dir := d, mg_open := mg_open m - {rt_inst r}, mg_routes := (mg_routes m)(n := None)\<rparr>)"
proof -
  have "slot m (Inr n) = Some (rt_inst r)" using assms(2) by (simp add: slot_def)
  then have "slots_ok ((slot m)(Inr n := None)) (mg_open m - {rt_inst r}) (mg_fresh m)"
    using assms(1) slots_close by (auto simp: registry_ok_def)
  moreover have "slot (m\<lparr>mg_dir := d, mg_open := mg_open m - {rt_inst r}, mg_routes := (mg_routes m)(n := None)\<rparr>) = (slot m)(Inr n := None)"
    using slot_upd(2) [of "m\<lparr>mg_dir := d, mg_open := mg_open m - {rt_inst r}\<rparr>" n None] by simp
  ultimately show ?thesis using assms(1) by (auto simp: registry_ok_def names_ok_def)
qed

lemma registry_ok_dir: "registry_ok m \<Longrightarrow> registry_ok (m\<lparr>mg_dir := d\<rparr>)"
  by (simp add: registry_ok_def)

lemma remove_service_ok: "registry_ok m \<Longrightarrow> registry_ok (snd (RemoveService c n m))"
  by (cases rule: remove_service_cases [of c n m]) (auto simp: registry_ok_dir drop_service_ok)

lemma remove_route_ok: "registry_ok m \<Longrightarrow> registry_ok (snd (RemoveRoute c n m))"
  by (cases rule: remove_route_cases [of c n m]) (auto simp: registry_ok_dir drop_route_ok)

lemma remove_steps_ok:
  assumes "registry_ok m"
  shows "registry_ok (snd (remove_service_file c n m))" "registry_ok (snd (remove_route_file c n m))"
    "registry_ok (snd (remove_service_locked c n m))" "registry_ok (snd (remove_route_locked n m))"
proof -
  show "registry_ok (snd (remove_service_file c n m))" "registry_ok (snd (remove_route_file c n m))"
    using assms by (auto simp: remove_service_file_def remove_route_file_def registry_ok_dir split: prod.split option.split)
  show "registry_ok (snd (remove_service_locked c n m))"
  proof (cases "mg_services m n")
    case (Some s)
    then show ?thesis using assms drop_service_ok [OF assms Some, of "mg_dir m"]
      by (cases "sv_kind s = KDisabled \<or> mc_close c") (auto simp: remove_service_locked_def close_service_def)
  qed (use assms in \<open>simp add: remove_service_locked_def\<close>)
  show "registry_ok (snd (remove_route_locked n m))"
    using assms drop_route_ok [OF assms, of n _ "mg_dir m"]
    by (auto simp: remove_route_locked_def close_route_def Let_def split: option.split)
qed

lemma registry_names:
  "registry_ok m \<Longrightarrow> mg_services m n = Some s \<Longrightarrow> Name (sv_cfg s) = n"
  "registry_ok m \<Longrightarrow> mg_routes m n = Some r \<Longrightarrow> r_Name (rt_cfg r) = n"
  by (auto simp: registry_ok_def names_ok_def)

lemma replace_service_ok: "registry_ok m \<Longrightarrow> registry_ok (snd (ReplaceServiceByUUID L c cfg m))"
  using swap_service_ok uuid_lookup by (auto simp: ReplaceServiceByUUID_def Let_def split: option.split)

lemma set_service_ok: "registry_ok m \<Longrightarrow> registry_ok (snd (SetServiceDisabled L c n b m))"
  using swap_service_ok registry_names(1) by (auto simp: SetServiceDisabled_def split: option.split)

lemma replace_route_ok: "registry_ok m \<Longrightarrow> registry_ok (snd (ReplaceRouteByUUID L c cfg m))"
  using swap_route_ok route_uuid_lookup by (auto simp: ReplaceRouteByUUID_def Let_def split: option.split sum.split)

lemma set_route_ok: "registry_ok m \<Longrightarrow> registry_ok (snd (SetRouteDisabled L c n b m))"
proof -
  assume ok: "registry_ok m"
  show ?thesis
  proof (cases "mg_routes m n")
    case (Some r)
    let ?v = "validateRouteLocked L (mc_order c) (r_UUID (rt_cfg r)) m ((rt_cfg r)\<lparr>r_Disabled := b\<rparr>)"
    have "?v = Inr cfg \<Longrightarrow> r_Name cfg = n" for cfg
      using validate_route_name [of L "mc_order c" "r_UUID (rt_cfg r)" m] registry_names(2) [OF ok Some] by fastforce
    then show ?thesis using ok Some swap_route_ok [OF ok Some] by (cases ?v) (auto simp: SetRouteDisabled_def)
  qed (simp add: SetRouteDisabled_def ok)
qed

lemma mgr_step_ok: "registry_ok m \<Longrightarrow> registry_ok (snd (mgr_step L op m))"
  by (cases op) (auto simp: remove_steps_ok add_service_ok add_route_ok remove_service_ok remove_route_ok replace_service_ok set_service_ok
      replace_route_ok set_route_ok RemoveServiceByUUID_def RemoveRouteByUUID_def split: option.split)

section \<open>Configurations and files\<close>

definition service_cfgs :: "mgr \<Rightarrow> string \<rightharpoonup> config" where
  "service_cfgs m n = map_option sv_cfg (mg_services m n)"

definition route_cfgs :: "mgr \<Rightarrow> string \<rightharpoonup> route_config" where
  "route_cfgs m n = map_option rt_cfg (mg_routes m n)"

lemma cfgs_simps [simp]:
  "service_cfgs (m\<lparr>mg_dir := d\<rparr>) = service_cfgs m" "service_cfgs (m\<lparr>mg_fresh := f\<rparr>) = service_cfgs m"
  "service_cfgs (m\<lparr>mg_open := op\<rparr>) = service_cfgs m" "service_cfgs (m\<lparr>mg_routes := rt\<rparr>) = service_cfgs m"
  "route_cfgs (m\<lparr>mg_dir := d\<rparr>) = route_cfgs m" "route_cfgs (m\<lparr>mg_fresh := f\<rparr>) = route_cfgs m"
  "route_cfgs (m\<lparr>mg_open := op\<rparr>) = route_cfgs m" "route_cfgs (m\<lparr>mg_services := sv\<rparr>) = route_cfgs m"
  "service_cfgs (switched i m) = service_cfgs m" "route_cfgs (switched i m) = route_cfgs m"
  by (simp_all add: service_cfgs_def route_cfgs_def fun_eq_iff)

lemma service_cfgs_upd: "mg_services m' = (mg_services m)(n := x) \<Longrightarrow> service_cfgs m' = (service_cfgs m)(n := map_option sv_cfg x)"
  by (simp add: service_cfgs_def fun_eq_iff)

lemma route_cfgs_upd: "mg_routes m' = (mg_routes m)(n := x) \<Longrightarrow> route_cfgs m' = (route_cfgs m)(n := map_option rt_cfg x)"
  by (simp add: route_cfgs_def fun_eq_iff)

lemma service_cfgs_cong: "mg_services m' = mg_services m \<Longrightarrow> service_cfgs m' = service_cfgs m"
  by (simp add: service_cfgs_def fun_eq_iff)

lemma route_cfgs_cong: "mg_routes m' = mg_routes m \<Longrightarrow> route_cfgs m' = route_cfgs m"
  by (simp add: route_cfgs_def fun_eq_iff)

lemma rollback_cfgs:
  obtains (restored) m' where "rollbackReplaceLocked L c n cfg cause m = (Some cause, m')"
      "service_cfgs m' = (service_cfgs m)(n \<mapsto> cfg)" "mg_routes m' = mg_routes m" "mg_dir m' = mg_dir m"
  | (lost) e m' where "rollbackReplaceLocked L c n cfg cause m = (Some (RollbackFailed cause e), m')"
      "service_cfgs m' = (service_cfgs m)(n := None)" "mg_routes m' = mg_routes m" "mg_dir m' = mg_dir m"
proof (cases rule: prepare_result [of L cfg m])
  case (1 e)
  then show ?thesis using lost [of e "m\<lparr>mg_services := (mg_services m)(n := None)\<rparr>"]
    by (simp add: rollbackReplaceLocked_def service_cfgs_upd)
next
  case (2 s)
  let ?m = "m\<lparr>mg_fresh := Suc (mg_fresh m), mg_open := insert (sv_inst s) (mg_open m)\<rparr>"
  show ?thesis
  proof (cases "sv_kind s = KDisabled \<or> mc_rerun c")
    case True
    then show ?thesis using 2 restored [of "?m\<lparr>mg_services := (mg_services m)(n \<mapsto> s)\<rparr>"]
      by (auto simp: rollbackReplaceLocked_def runPreparedService_def service_cfgs_def fun_eq_iff)
  next
    case False
    then show ?thesis using 2 lost [of RunFailed "?m\<lparr>mg_services := (mg_services m)(n := None)\<rparr>"]
      by (auto simp: rollbackReplaceLocked_def runPreparedService_def service_cfgs_def fun_eq_iff)
  qed
qed

text \<open>
  What a failed replacement leaves of the directory: everything, except when the new file could not be
  moved into place and the backup of the old one (at \<open>fn\<close>) could not be moved back either (\<open>rs\<close> false;
  \<open>replaceServiceFile\<close> ignores that second error).
\<close>

definition files_kept :: "bool \<Rightarrow> string \<Rightarrow> mgr_error \<Rightarrow> mgr \<Rightarrow> mgr \<Rightarrow> bool" where
  "files_kept rs fn cause m b \<longleftrightarrow>
     d_top (mg_dir b) = d_top (mg_dir m) \<or>
     \<not> rs \<and> cause = FileFailed RenameError \<and> d_top (mg_dir b) = (d_top (mg_dir m))(fn := None)"

lemma files_kept_same: "d_top (mg_dir b) = d_top (mg_dir m) \<Longrightarrow> files_kept rs fn cause m b"
  by (simp add: files_kept_def)

lemma files_kept_restored: "files_kept True fn cause m b \<longleftrightarrow> d_top (mg_dir b) = d_top (mg_dir m)"
  by (simp add: files_kept_def)

text \<open>A replacement changes configurations and files together or not at all; only when even the old
  service cannot be started again is its entry lost, and then its file is kept.\<close>

definition all_or_nothing ::
  "bool \<Rightarrow> mgr_lib \<Rightarrow> string \<Rightarrow> string \<Rightarrow> config \<Rightarrow> mgr \<Rightarrow> mgr_error option \<times> mgr \<Rightarrow> bool" where
  "all_or_nothing rs L n n' cfg m r \<longleftrightarrow>
     route_cfgs (snd r) = route_cfgs m \<and>
     (case fst r of
        None \<Rightarrow>
          service_cfgs (snd r) = (service_cfgs m)(n := None, n' \<mapsto> cfg) \<and>
          d_top (mg_dir (snd r)) =
            (d_top (mg_dir m))(config_file TUN_CONFIG_SUFFIX n := None, config_file TUN_CONFIG_SUFFIX n' \<mapsto> ml_json L cfg)
      | Some (RollbackFailed x _) \<Rightarrow>
          service_cfgs (snd r) = (service_cfgs m)(n := None) \<and> files_kept rs (config_file TUN_CONFIG_SUFFIX n) x m (snd r)
      | Some e \<Rightarrow> service_cfgs (snd r) = service_cfgs m \<and> files_kept rs (config_file TUN_CONFIG_SUFFIX n) e m (snd r))"

lemma all_or_nothing_plain:
  "(\<And>x y. e \<noteq> RollbackFailed x y) \<Longrightarrow> service_cfgs b = service_cfgs m \<Longrightarrow> route_cfgs b = route_cfgs m \<Longrightarrow>
   files_kept rs (config_file TUN_CONFIG_SUFFIX n) e m b \<Longrightarrow> all_or_nothing rs L n n' cfg m (Some e, b)"
  by (cases e) (auto simp: all_or_nothing_def)

lemma rollback_all_or_nothing:
  assumes "service_cfgs m n = Some cfg0" and "service_cfgs m' = service_cfgs m" and "mg_routes m' = mg_routes m"
    and "files_kept rs (config_file TUN_CONFIG_SUFFIX n) cause m m'" and "\<And>x y. cause \<noteq> RollbackFailed x y"
  shows "all_or_nothing rs L n n' cfg m (rollbackReplaceLocked L c n cfg0 cause m')"
proof (cases rule: rollback_cfgs [of L c n cfg0 cause m'])
  case (restored b)
  have "route_cfgs b = route_cfgs m" by (rule route_cfgs_cong) (simp add: restored(3) assms(3))
  moreover have "service_cfgs b = service_cfgs m" using restored(2) assms(1,2) by (simp add: fun_upd_idem)
  moreover have "files_kept rs (config_file TUN_CONFIG_SUFFIX n) cause m b" using assms(4) restored(4) by (simp add: files_kept_def)
  ultimately show ?thesis using restored(1) assms(5) by (simp add: all_or_nothing_plain)
next
  case (lost e b)
  moreover have "route_cfgs b = route_cfgs m" by (rule route_cfgs_cong) (simp add: lost(3) assms(3))
  moreover have "files_kept rs (config_file TUN_CONFIG_SUFFIX n) cause m b" using assms(4) lost(4) by (simp add: files_kept_def)
  ultimately show ?thesis using assms by (simp add: all_or_nothing_def)
qed

lemma swap_service_all_or_nothing:
  assumes ok: "registry_ok m" and old: "mg_services m n = Some old" and new: "Name cfg = n'" and pl: "plain_name n"
  shows "all_or_nothing (io_restore (mc_io c)) L n n' cfg m (swap_service L c old n n' cfg m)"
proof -
  have nold: "Name (sv_cfg old) = n" by (rule registry_names(1) [OF ok old])
  have cf: "service_cfgs m n = Some (sv_cfg old)" using old by (simp add: service_cfgs_def)
  have spec: "case replaceFile (mc_io c) (config_file TUN_CONFIG_SUFFIX n) (config_file TUN_CONFIG_SUFFIX n') (ml_json L cfg) (mg_dir m) of
       (None, d') \<Rightarrow> plain_name (config_file TUN_CONFIG_SUFFIX n') \<and>
         d_top d' = (d_top (mg_dir m))(config_file TUN_CONFIG_SUFFIX n := None, config_file TUN_CONFIG_SUFFIX n' \<mapsto> ml_json L cfg)
     | (Some e, d') \<Rightarrow> d_top d' = d_top (mg_dir m) \<or> e = RenameError \<and> \<not> io_restore (mc_io c) \<and>
         d_top d' = (d_top (mg_dir m))(config_file TUN_CONFIG_SUFFIX n := None)"
    by (rule replaceFile_spec) (simp add: pl)
  show ?thesis
  proof (cases rule: swap_service_cases [of L c old n n' cfg m])
    case (unprepared e)
    then show ?thesis by (simp add: all_or_nothing_plain files_kept_same)
  next
    case unclosed
    then show ?thesis by (simp add: all_or_nothing_def files_kept_same)
  next
    case unrun
    then show ?thesis using rollback_all_or_nothing [OF cf, of "switched (sv_inst old) m"] by (simp add: files_kept_same)
  next
    case (unsaved e d m')
    have "files_kept (io_restore (mc_io c)) (config_file TUN_CONFIG_SUFFIX n) (FileFailed e) m m'"
      using spec unsaved(2,5) nold new by (auto simp: files_kept_def)
    then show ?thesis
      using rollback_all_or_nothing [OF cf service_cfgs_cong [OF unsaved(3)] unsaved(4)] unsaved(1) by simp
  next
    case (swapped s d)
    have "d_top d = (d_top (mg_dir m))(config_file TUN_CONFIG_SUFFIX n := None, config_file TUN_CONFIG_SUFFIX n' \<mapsto> ml_json L cfg)"
      using spec swapped(2) nold new by simp
    then show ?thesis using swapped by (auto simp: all_or_nothing_def service_cfgs_def fun_eq_iff)
  qed
qed

section \<open>The directory mirrors the registry\<close>

text \<open>The entries of the directory have plain names, as in every directory.\<close>

definition mirrored :: "mgr_lib \<Rightarrow> mgr \<Rightarrow> bool" where
  "mirrored L m \<longleftrightarrow>
     (\<forall>f. d_top (mg_dir m) f \<noteq> None \<longrightarrow> plain_name f) \<and>
     (\<forall>n. d_top (mg_dir m) (config_file TUN_CONFIG_SUFFIX n) = map_option (ml_json L) (service_cfgs m n)) \<and>
     (\<forall>n. d_top (mg_dir m) (config_file ROUTE_CONFIG_SUFFIX n) = map_option (ml_route_json L) (route_cfgs m n))"

lemma suffixes_differ [simp]:
  "config_file TUN_CONFIG_SUFFIX a \<noteq> config_file ROUTE_CONFIG_SUFFIX b" "config_file ROUTE_CONFIG_SUFFIX b \<noteq> config_file TUN_CONFIG_SUFFIX a"
proof -
  have "last (config_file TUN_CONFIG_SUFFIX a) = CHR ''n''" "last (config_file ROUTE_CONFIG_SUFFIX b) = CHR ''e''"
    by (simp_all add: config_file_def TUN_CONFIG_SUFFIX_def ROUTE_CONFIG_SUFFIX_def)
  then show "config_file TUN_CONFIG_SUFFIX a \<noteq> config_file ROUTE_CONFIG_SUFFIX b" "config_file ROUTE_CONFIG_SUFFIX b \<noteq> config_file TUN_CONFIG_SUFFIX a"
    by (auto dest: arg_cong [where f = last])
qed

lemma mirrored_same:
  "mirrored L m \<Longrightarrow> service_cfgs b = service_cfgs m \<Longrightarrow> route_cfgs b = route_cfgs m \<Longrightarrow> d_top (mg_dir b) = d_top (mg_dir m) \<Longrightarrow> mirrored L b"
  by (simp add: mirrored_def)

lemma mirrored_service:
  "mirrored L m \<Longrightarrow> service_cfgs b = (service_cfgs m)(n := x) \<Longrightarrow> route_cfgs b = route_cfgs m \<Longrightarrow>
   d_top (mg_dir b) = (d_top (mg_dir m))(config_file TUN_CONFIG_SUFFIX n := map_option (ml_json L) x) \<Longrightarrow>
   x = None \<or> plain_name n \<Longrightarrow> mirrored L b"
  by (auto simp: mirrored_def)

lemma mirrored_route:
  "mirrored L m \<Longrightarrow> route_cfgs b = (route_cfgs m)(n := x) \<Longrightarrow> service_cfgs b = service_cfgs m \<Longrightarrow>
   d_top (mg_dir b) = (d_top (mg_dir m))(config_file ROUTE_CONFIG_SUFFIX n := map_option (ml_route_json L) x) \<Longrightarrow>
   x = None \<or> plain_name n \<Longrightarrow> mirrored L b"
  by (auto simp: mirrored_def)

lemma mirrored_plain:
  "mirrored L m \<Longrightarrow> mg_services m n = Some s \<Longrightarrow> plain_name n"
  "mirrored L m \<Longrightarrow> mg_routes m n = Some r \<Longrightarrow> plain_name n"
proof -
  assume m: "mirrored L m"
  then have p: "d_top (mg_dir m) f \<noteq> None \<Longrightarrow> plain_name f" for f by (simp add: mirrored_def)
  show "plain_name n" if "mg_services m n = Some s"
    using p [of "config_file TUN_CONFIG_SUFFIX n"] m that by (simp add: mirrored_def service_cfgs_def)
  show "plain_name n" if "mg_routes m n = Some r"
    using p [of "config_file ROUTE_CONFIG_SUFFIX n"] m that by (simp add: mirrored_def route_cfgs_def)
qed

lemma mirrored_all_or_nothing:
  assumes "mirrored L m" and "all_or_nothing True L n n' cfg m r" and "\<And>x y. fst r \<noteq> Some (RollbackFailed x y)"
    and "fst r = None \<Longrightarrow> plain_name n'"
  shows "mirrored L (snd r)"
proof (cases "fst r")
  case None
  then show ?thesis using assms(1,2,4) by (auto simp: all_or_nothing_def mirrored_def)
next
  case (Some e)
  then have "service_cfgs (snd r) = service_cfgs m" "route_cfgs (snd r) = route_cfgs m" "d_top (mg_dir (snd r)) = d_top (mg_dir m)"
    using assms(2,3) by (cases e; simp add: all_or_nothing_def files_kept_restored)+
  then show ?thesis using mirrored_same [OF assms(1)] by simp
qed

text \<open>A validated configuration is in normal form, so the route built from it carries it unchanged.\<close>

lemma validated_normal: "validateRouteLocked L order excl m cfg0 = Inr cfg \<Longrightarrow> snd (validateBasic (ml_url L) cfg) = cfg"
proof -
  assume "validateRouteLocked L order excl m cfg0 = Inr cfg"
  moreover define v where "v = route_normalize cfg0"
  moreover have "validateBasic (ml_url L) cfg0 = (validate_normalized (ml_url L) v, v)" by (simp add: validateBasic_def v_def Let_def)
  ultimately obtain ws where "cfg = (route_normalize cfg0)\<lparr>r_ProbeWarnings := ws\<rparr>"
    by (cases "validate_normalized (ml_url L) v"; cases "check_route_members L m v (r_Members v) {} []";
        cases "listen_conflict m order (r_Listen v) excl")
      (auto simp: validateRouteLocked_def split: option.splits if_splits)
  moreover have "route_normalize (x\<lparr>r_ProbeWarnings := ws\<rparr>) = (route_normalize x)\<lparr>r_ProbeWarnings := ws\<rparr>" for x
    by (rule route_config.equality) (simp_all add: route_normalize_eq Let_def)
  ultimately show ?thesis by (simp add: validateBasic_def Let_def route_normalize_idem)
qed

text \<open>The same report for a replaced route.\<close>

definition route_all_or_nothing ::
  "bool \<Rightarrow> mgr_lib \<Rightarrow> string \<Rightarrow> string \<Rightarrow> route_config \<Rightarrow> mgr \<Rightarrow> mgr_error option \<times> mgr \<Rightarrow> bool" where
  "route_all_or_nothing rs L n n' cfg m r \<longleftrightarrow>
     service_cfgs (snd r) = service_cfgs m \<and>
     (case fst r of
        None \<Rightarrow>
          route_cfgs (snd r) = (route_cfgs m)(n := None, n' \<mapsto> cfg) \<and>
          d_top (mg_dir (snd r)) =
            (d_top (mg_dir m))(config_file ROUTE_CONFIG_SUFFIX n := None, config_file ROUTE_CONFIG_SUFFIX n' \<mapsto> ml_route_json L cfg)
      | Some (RollbackFailed x _) \<Rightarrow>
          route_cfgs (snd r) = (route_cfgs m)(n := None) \<and> files_kept rs (config_file ROUTE_CONFIG_SUFFIX n) x m (snd r)
      | Some e \<Rightarrow> route_cfgs (snd r) = route_cfgs m \<and> files_kept rs (config_file ROUTE_CONFIG_SUFFIX n) e m (snd r))"

lemma route_all_or_nothing_plain:
  "(\<And>x y. e \<noteq> RollbackFailed x y) \<Longrightarrow> service_cfgs b = service_cfgs m \<Longrightarrow> route_cfgs b = route_cfgs m \<Longrightarrow>
   files_kept rs (config_file ROUTE_CONFIG_SUFFIX n) e m b \<Longrightarrow> route_all_or_nothing rs L n n' cfg m (Some e, b)"
  by (cases e) (auto simp: route_all_or_nothing_def)

lemma rollback_route_all_or_nothing:
  assumes "route_cfgs m n = Some cfg0" and "mg_routes m' = mg_routes m" and "mg_services m' = mg_services m"
    and "files_kept rs (config_file ROUTE_CONFIG_SUFFIX n) cause m m'" and "\<And>x y. cause \<noteq> RollbackFailed x y"
    and "snd (validateBasic (ml_url L) cfg0) = cfg0"
  shows "route_all_or_nothing rs L n n' cfg m (rollbackRouteLocked L c n cfg0 cause m')"
proof -
  have r: "route_cfgs m' = route_cfgs m" "service_cfgs m' = service_cfgs m"
    using route_cfgs_cong [OF assms(2)] service_cfgs_cong [OF assms(3)] by simp_all
  have k: "files_kept rs (config_file ROUTE_CONFIG_SUFFIX n) cause m b" if "mg_dir b = mg_dir m'" for b
    using assms(4) that by (simp add: files_kept_def)
  show ?thesis
  proof (cases rule: build_route_result [of L cfg0 m'])
    case (1 e)
    then show ?thesis
      using r k by (simp add: rollbackRouteLocked_def route_all_or_nothing_def route_cfgs_def fun_eq_iff service_cfgs_def)
  next
    case (2 x)
    let ?m = "m'\<lparr>mg_fresh := Suc (mg_fresh m'), mg_open := insert (rt_inst x) (mg_open m')\<rparr>"
    show ?thesis
    proof (cases "r_Disabled (rt_cfg x) \<or> mc_rerun c")
      case True
      let ?b = "?m\<lparr>mg_routes := (mg_routes m')(n \<mapsto> x)\<rparr>"
      have "route_cfgs ?b = route_cfgs m"
        using route_cfgs_upd [of ?b m' n "Some x"] 2(2) assms(1,6) r(1) by (simp add: fun_upd_idem)
      moreover have "service_cfgs ?b = service_cfgs m" using r(2) by (simp add: service_cfgs_def fun_eq_iff)
      ultimately show ?thesis
        using True 2 k [of ?b] assms(5) route_all_or_nothing_plain [of cause ?b m] by (simp add: rollbackRouteLocked_def run_route_def)
    next
      case False
      then show ?thesis
        using 2 r k by (simp add: rollbackRouteLocked_def run_route_def route_all_or_nothing_def route_cfgs_def fun_eq_iff service_cfgs_def)
    qed
  qed
qed

lemma swap_route_all_or_nothing:
  assumes ok: "registry_ok m" and old: "mg_routes m n = Some old" and new: "r_Name cfg = n'" and pl: "plain_name n"
    and normal: "snd (validateBasic (ml_url L) (rt_cfg old)) = rt_cfg old" "snd (validateBasic (ml_url L) cfg) = cfg"
  shows "route_all_or_nothing (io_restore (mc_io c)) L n n' cfg m (swap_route L c old n n' cfg m)"
proof -
  have nold: "r_Name (rt_cfg old) = n" by (rule registry_names(2) [OF ok old])
  have cf: "route_cfgs m n = Some (rt_cfg old)" using old by (simp add: route_cfgs_def)
  have spec: "case replaceFile (mc_io c) (config_file ROUTE_CONFIG_SUFFIX n) (config_file ROUTE_CONFIG_SUFFIX n') (ml_route_json L cfg) (mg_dir m) of
       (None, d') \<Rightarrow> plain_name (config_file ROUTE_CONFIG_SUFFIX n') \<and>
         d_top d' = (d_top (mg_dir m))(config_file ROUTE_CONFIG_SUFFIX n := None, config_file ROUTE_CONFIG_SUFFIX n' \<mapsto> ml_route_json L cfg)
     | (Some e, d') \<Rightarrow> d_top d' = d_top (mg_dir m) \<or> e = RenameError \<and> \<not> io_restore (mc_io c) \<and>
         d_top d' = (d_top (mg_dir m))(config_file ROUTE_CONFIG_SUFFIX n := None)"
    by (rule replaceFile_spec) (simp add: pl)
  show ?thesis
  proof (cases rule: swap_route_cases [of L c old n n' cfg m])
    case (unbuilt e)
    then show ?thesis by (simp add: route_all_or_nothing_plain files_kept_same)
  next
    case unrun
    then show ?thesis using rollback_route_all_or_nothing [OF cf, of "switched (rt_inst old) m"] normal by (simp add: files_kept_same)
  next
    case (unsaved e d m')
    have "files_kept (io_restore (mc_io c)) (config_file ROUTE_CONFIG_SUFFIX n) (FileFailed e) m m'"
      using spec unsaved(2,5) nold new by (auto simp: files_kept_def)
    then show ?thesis
      using rollback_route_all_or_nothing [OF cf unsaved(4,3)] unsaved(1) normal by simp
  next
    case (swapped r d)
    have "d_top d = (d_top (mg_dir m))(config_file ROUTE_CONFIG_SUFFIX n := None, config_file ROUTE_CONFIG_SUFFIX n' \<mapsto> ml_route_json L cfg)"
      using spec swapped(2) nold new by simp
    then show ?thesis using swapped normal by (auto simp: route_all_or_nothing_def service_cfgs_def route_cfgs_def fun_eq_iff)
  qed
qed

lemma mirrored_route_all_or_nothing:
  assumes "mirrored L m" and "route_all_or_nothing True L n n' cfg m r" and "\<And>x y. fst r \<noteq> Some (RollbackFailed x y)"
    and "fst r = None \<Longrightarrow> plain_name n'"
  shows "mirrored L (snd r)"
proof (cases "fst r")
  case None
  then show ?thesis using assms(1,2,4) by (auto simp: route_all_or_nothing_def mirrored_def)
next
  case (Some e)
  then have "service_cfgs (snd r) = service_cfgs m" "route_cfgs (snd r) = route_cfgs m" "d_top (mg_dir (snd r)) = d_top (mg_dir m)"
    using assms(2,3) by (cases e; simp add: route_all_or_nothing_def files_kept_restored)+
  then show ?thesis using mirrored_same [OF assms(1)] by simp
qed

text \<open>A replacement that succeeded wrote a file, so the new name is a plain one.\<close>

lemma swap_done_plain:
  assumes "plain_name n" and "names_ok m"
  shows "mg_services m n = Some s \<Longrightarrow> Name cfg = n' \<Longrightarrow> fst (swap_service L c s n n' cfg m) = None \<Longrightarrow> plain_name n'"
    and "mg_routes m n = Some r \<Longrightarrow> r_Name rcfg = n' \<Longrightarrow> fst (swap_route L c r n n' rcfg m) = None \<Longrightarrow> plain_name n'"
proof -
  show "plain_name n'" if "mg_services m n = Some s" "Name cfg = n'" "fst (swap_service L c s n n' cfg m) = None"
  proof (cases rule: swap_service_cases [of L c s n n' cfg m])
    case (swapped s' d)
    then show ?thesis using files.replace_done [OF _ swapped(2)] that assms by (auto simp: names_ok_def)
  next
    case unrun
    then show ?thesis using that(3) by (cases rule: rollback_cfgs [of L c n "sv_cfg s" RunFailed "switched (sv_inst s) m"]) simp_all
  next
    case (unsaved e d m')
    then show ?thesis using that(3) by (cases rule: rollback_cfgs [of L c n "sv_cfg s" "FileFailed e" m']) simp_all
  qed (use that in simp_all)
  have rb: "fst (rollbackRouteLocked L c n x cause b) \<noteq> None" for x cause b
    by (auto simp: rollbackRouteLocked_def split: prod.split sum.split bool.split)
  show "plain_name n'" if "mg_routes m n = Some r" "r_Name rcfg = n'" "fst (swap_route L c r n n' rcfg m) = None"
  proof (cases rule: swap_route_cases [of L c r n n' rcfg m])
    case (swapped r' d)
    then show ?thesis using files.replace_done [OF _ swapped(2)] that assms by (auto simp: names_ok_def)
  next
    case unrun
    then show ?thesis using that(3) rb by metis
  next
    case (unsaved e d m')
    then show ?thesis using that(3) rb by metis
  qed (use that in simp)
qed

definition routes_normal :: "mgr_lib \<Rightarrow> mgr \<Rightarrow> bool" where
  "routes_normal L m \<longleftrightarrow> (\<forall>n r. mg_routes m n = Some r \<longrightarrow> snd (validateBasic (ml_url L) (rt_cfg r)) = rt_cfg r)"

lemma built_normal: "rt_cfg r = snd (validateBasic u cfg) \<Longrightarrow> snd (validateBasic u (rt_cfg r)) = rt_cfg r"
  by (simp add: validateBasic_def Let_def route_normalize_idem)

lemma routes_normal_upd:
  "routes_normal L m \<Longrightarrow> mg_routes b = (mg_routes m)(n := x) \<Longrightarrow>
   (\<And>r. x = Some r \<Longrightarrow> snd (validateBasic (ml_url L) (rt_cfg r)) = rt_cfg r) \<Longrightarrow> routes_normal L b"
  by (auto simp: routes_normal_def split: if_splits)

lemma routes_normal_same: "routes_normal L m \<Longrightarrow> mg_routes b = mg_routes m \<Longrightarrow> routes_normal L b"
  by (simp add: routes_normal_def)

lemma rollback_route_normal:
  assumes "routes_normal L m"
  shows "routes_normal L (snd (rollbackRouteLocked L c n cfg cause m))"
proof (cases rule: build_route_result [of L cfg m])
  case (1 e)
  then show ?thesis using routes_normal_upd [OF assms, of _ n None] by (simp add: rollbackRouteLocked_def)
next
  case (2 r)
  then show ?thesis
    using routes_normal_upd [OF assms, of _ n None] routes_normal_upd [OF assms, of _ n "Some r"] built_normal [OF 2(2)]
    by (cases "r_Disabled (rt_cfg r) \<or> mc_rerun c") (simp_all add: rollbackRouteLocked_def run_route_def)
qed

lemma swap_route_normal:
  assumes "routes_normal L m"
  shows "routes_normal L (snd (swap_route L c old n n' cfg m))"
proof (cases rule: swap_route_cases [of L c old n n' cfg m])
  case (swapped r d)
  have "routes_normal L (m\<lparr>mg_routes := (mg_routes m)(n := None)\<rparr>)" by (rule routes_normal_upd [OF assms, of _ n None]) simp_all
  from routes_normal_upd [OF this, of _ n' "Some r"] show ?thesis using swapped built_normal [OF swapped(3)] by simp
next
  case unrun
  then show ?thesis using rollback_route_normal [of L "switched (rt_inst old) m"] routes_normal_same [OF assms] by simp
next
  case (unsaved e d m')
  then show ?thesis using rollback_route_normal [OF routes_normal_same [OF assms unsaved(4)]] by simp
qed (use assms in simp)

lemma service_routes:
  "mg_routes (snd (AddService L c cfg f m)) = mg_routes m" "mg_routes (snd (RemoveService c n m)) = mg_routes m"
  "mg_routes (snd (swap_service L c old n n' cfg m)) = mg_routes m"
proof -
  show "mg_routes (snd (AddService L c cfg f m)) = mg_routes m" by (cases rule: add_service_cases [of L c cfg f m]) simp_all
  show "mg_routes (snd (RemoveService c n m)) = mg_routes m" by (cases rule: remove_service_cases [of c n m]) simp_all
  have r: "mg_routes (snd (rollbackReplaceLocked L c n x cause b)) = mg_routes b" for x cause b
    by (cases rule: rollback_cfgs [of L c n x cause b]) simp_all
  show "mg_routes (snd (swap_service L c old n n' cfg m)) = mg_routes m"
    by (cases rule: swap_service_cases [of L c old n n' cfg m]) (simp_all add: r)
qed

lemma step_service_routes:
  "mg_routes (snd (ReplaceServiceByUUID L c cfg m)) = mg_routes m" "mg_routes (snd (SetServiceDisabled L c n b m)) = mg_routes m"
  "mg_routes (snd (RemoveServiceByUUID c u m)) = mg_routes m"
  by (simp_all add: ReplaceServiceByUUID_def SetServiceDisabled_def RemoveServiceByUUID_def service_routes Let_def split: option.split)

lemma add_route_normal:
  assumes "routes_normal L m"
  shows "routes_normal L (snd (AddRoute L c cfg f m))"
proof (cases rule: add_route_cases [of L c cfg f m])
  case (added r d cfg')
  then show ?thesis using routes_normal_upd [OF assms, of _ "r_Name cfg'" "Some r"] built_normal [OF added(3)] by simp
qed (use routes_normal_same [OF assms] in simp_all)

lemma remove_route_normal: "routes_normal L m \<Longrightarrow> routes_normal L (snd (RemoveRoute c n m))"
  by (cases rule: remove_route_cases [of c n m]) (auto intro: routes_normal_same elim: routes_normal_upd)

lemma remove_steps_routes:
  "mg_routes (snd (remove_service_file c n m)) = mg_routes m" "mg_routes (snd (remove_route_file c n m)) = mg_routes m"
  "mg_routes (snd (remove_service_locked c n m)) = mg_routes m"
  by (auto simp: remove_service_file_def remove_route_file_def remove_service_locked_def close_service_def
      split: prod.split option.split)

lemma remove_route_locked_normal: "routes_normal L m \<Longrightarrow> routes_normal L (snd (remove_route_locked n m))"
  by (auto simp: remove_route_locked_def close_route_def Let_def split: option.split elim: routes_normal_upd)

lemma mgr_step_normal: "routes_normal L m \<Longrightarrow> routes_normal L (snd (mgr_step L op m))"
  by (cases op)
    (auto simp: ReplaceRouteByUUID_def SetRouteDisabled_def RemoveRouteByUUID_def Let_def add_route_normal remove_route_normal
      remove_route_locked_normal swap_route_normal
      intro: routes_normal_same [OF _ remove_steps_routes(1)] routes_normal_same [OF _ remove_steps_routes(2)]
        routes_normal_same [OF _ remove_steps_routes(3)] routes_normal_same [OF _ service_routes(1)] routes_normal_same [OF _ service_routes(2)] routes_normal_same [OF _ step_service_routes(1)]
        routes_normal_same [OF _ step_service_routes(2)] routes_normal_same [OF _ step_service_routes(3)] split: option.split sum.split)

lemma reachable_ok: "mgr_reachable L m \<Longrightarrow> registry_ok m \<and> routes_normal L m"
proof (induction rule: mgr_reachable.induct)
  case (start d)
  show ?case
    by (simp add: registry_ok_def slots_ok_def slot_def names_ok_def routes_normal_def NewManager_def split: sum.split)
next
  case (step m op)
  then show ?case by (simp add: mgr_step_ok mgr_step_normal)
qed

section \<open>Properties of the registry\<close>

text \<open>
  C10: The registry stays consistent. In every state reachable by any sequence of additions,
  replacements, switches and removals of tunnels and routes (also with other operations between
  the two steps of a removal), with any outcome of constructors,
  \<open>Run\<close>, \<open>Close\<close> and file operations, every entry is filed under its own configured name, no service
  object is registered twice, and every registered object is one that was started and not closed.
\<close>

theorem registry_invariant:
  assumes "mgr_reachable L m"
  shows "registry_ok m"
  using reachable_ok [OF assms] by simp

text \<open>
  C5: Replacing a tunnel is all or nothing. For a request whose identifier belongs to the tunnel
  registered as \<open>n\<close> (a name without a slash), under a free name: on success exactly this tunnel has
  the new configuration (with its identifier and creation time kept) under the new name, in the registry
  and on disk; on an error the configurations and the files are what they were. The two exceptions:
  when the rollback fails itself, which is reported as such, the tunnel is gone from the registry and
  its old file is kept; and when the new file could not be moved into place and the rename that
  puts the backup back fails as well, which is not reported, the old file is gone from the
  directory. No route is touched.
\<close>

theorem replace_service_all_or_nothing:
  assumes "mgr_reachable L m" and "getServiceByUUIDLocked (mc_order c) (UUID config) m = Some (old, n)"
    and "Name config = n \<or> mg_services m (Name config) = None" and "plain_name n"
  shows "all_or_nothing (io_restore (mc_io c)) L n (Name config)
           (config\<lparr>UUID := UUID (sv_cfg old), CreatedAt := CreatedAt (sv_cfg old)\<rparr>) m (ReplaceServiceByUUID L c config m)"
proof -
  have ok: "registry_ok m" using reachable_ok [OF assms(1)] by simp
  have old: "mg_services m n = Some old" using uuid_lookup [OF assms(2)] by simp
  let ?cfg = "config\<lparr>UUID := UUID (sv_cfg old), CreatedAt := CreatedAt (sv_cfg old)\<rparr>"
  have "(normalizeConfig c config)\<lparr>UUID := UUID (sv_cfg old), CreatedAt := CreatedAt (sv_cfg old)\<rparr> = ?cfg"
    "Name (normalizeConfig c config) = Name config"
    by (simp_all add: normalizeConfig_def Let_def)
  then have "ReplaceServiceByUUID L c config m = swap_service L c old n (Name config) ?cfg m"
    using assms(2,3) by (auto simp: ReplaceServiceByUUID_def Let_def)
  then show ?thesis using swap_service_all_or_nothing [OF ok old _ assms(4), of ?cfg "Name config" c L] by simp
qed

text \<open>Adding and removing keep the mirror.\<close>

lemma add_service_mirrored:
  assumes "mirrored L m" and "f"
  shows "mirrored L (snd (AddService L c cfg f m))"
proof (cases rule: add_service_cases [of L c cfg f m])
  case (unsaved e d op)
  let ?cfg = "normalizeConfig c cfg"
  have "d_top d = d_top (mg_dir m)"
    by (rule files.create_failed [OF unsaved(2)])
  then show ?thesis using mirrored_same [OF assms(1)] unsaved(1) by simp
next
  case (added s d)
  let ?cfg = "normalizeConfig c cfg"
  let ?b = "m\<lparr>mg_fresh := Suc (mg_fresh m), mg_open := insert (mg_fresh m) (mg_open m), mg_dir := d,
         mg_services := (mg_services m)(Name ?cfg \<mapsto> s)\<rparr>"
  have d: "plain_name (config_file TUN_CONFIG_SUFFIX (Name ?cfg))"
    "d_top d = (d_top (mg_dir m))(config_file TUN_CONFIG_SUFFIX (Name ?cfg) \<mapsto> ml_json L ?cfg)"
    using files.create_done added(5) assms(2) by blast+
  moreover have "service_cfgs ?b = (service_cfgs m)(Name ?cfg := Some ?cfg)"
    using service_cfgs_upd [of ?b m "Name ?cfg" "Some s"] added(3) by simp
  ultimately show ?thesis using mirrored_service [OF assms(1), of ?b "Name ?cfg" "Some ?cfg"] added(1) by simp
qed (use mirrored_same [OF assms(1)] in simp_all)

lemma add_route_mirrored:
  assumes "mirrored L m" and "f"
  shows "mirrored L (snd (AddRoute L c cfg f m))"
proof (cases rule: add_route_cases [of L c cfg f m])
  case (unsaved e d cfg')
  have "d_top d = d_top (mg_dir m)"
    by (rule files.create_failed [OF unsaved(2)])
  then show ?thesis using mirrored_same [OF assms(1)] unsaved(1) by simp
next
  case (added r d cfg')
  let ?b = "m\<lparr>mg_fresh := Suc (mg_fresh m), mg_open := insert (mg_fresh m) (mg_open m), mg_dir := d,
         mg_routes := (mg_routes m)(r_Name cfg' \<mapsto> r)\<rparr>"
  have "plain_name (config_file ROUTE_CONFIG_SUFFIX (r_Name cfg'))"
    "d_top d = (d_top (mg_dir m))(config_file ROUTE_CONFIG_SUFFIX (r_Name cfg') \<mapsto> ml_route_json L cfg')"
    using files.create_done added(5) assms(2) by blast+
  moreover have "route_cfgs ?b = (route_cfgs m)(r_Name cfg' := Some cfg')"
    using route_cfgs_upd [of ?b m "r_Name cfg'" "Some r"] added(3) validated_normal [OF added(2)] by simp
  ultimately show ?thesis using mirrored_route [OF assms(1), of ?b "r_Name cfg'" "Some cfg'"] added(1) by simp
qed (use mirrored_same [OF assms(1)] in simp_all)

lemma remove_service_mirrored:
  assumes "mirrored L m" and "plain_name n" and "fst (RemoveService c n m) \<noteq> Some CloseFailed"
  shows "mirrored L (snd (RemoveService c n m))"
proof (cases rule: remove_service_cases [of c n m])
  case (absent d)
  have "d_top d = (d_top (mg_dir m))(config_file TUN_CONFIG_SUFFIX n := None)"
    by (rule files.delete_done [OF _ absent(3)]) (simp add: assms(2))
  moreover have "service_cfgs m n = None" using absent(2) by (simp add: service_cfgs_def)
  ultimately show ?thesis using mirrored_service [OF assms(1), of "m\<lparr>mg_dir := d\<rparr>" n None] absent(1) by (simp add: fun_upd_idem)
next
  case (removed d s)
  let ?b = "m\<lparr>mg_dir := d, mg_open := mg_open m - {sv_inst s}, mg_services := (mg_services m)(n := None)\<rparr>"
  have "d_top d = (d_top (mg_dir m))(config_file TUN_CONFIG_SUFFIX n := None)"
    by (rule files.delete_done [OF _ removed(3)]) (simp add: assms(2))
  then show ?thesis using mirrored_service [OF assms(1), of ?b n None] removed(1) service_cfgs_upd [of ?b m n None] by simp
qed (use assms in simp_all)

lemma remove_route_mirrored:
  assumes "mirrored L m" and "plain_name n"
  shows "mirrored L (snd (RemoveRoute c n m))"
proof (cases rule: remove_route_cases [of c n m])
  case (absent d)
  have "d_top d = (d_top (mg_dir m))(config_file ROUTE_CONFIG_SUFFIX n := None)"
    by (rule files.delete_done [OF _ absent(3)]) (simp add: assms(2))
  moreover have "route_cfgs m n = None" using absent(2) by (simp add: route_cfgs_def)
  ultimately show ?thesis using mirrored_route [OF assms(1), of "m\<lparr>mg_dir := d\<rparr>" n None] absent(1) by (simp add: fun_upd_idem)
next
  case (removed d r)
  let ?b = "m\<lparr>mg_dir := d, mg_open := mg_open m - {rt_inst r}, mg_routes := (mg_routes m)(n := None)\<rparr>"
  have "d_top d = (d_top (mg_dir m))(config_file ROUTE_CONFIG_SUFFIX n := None)"
    by (rule files.delete_done [OF _ removed(3)]) (simp add: assms(2))
  then show ?thesis using mirrored_route [OF assms(1), of ?b n None] removed(1) route_cfgs_upd [of ?b m n None] by simp
qed (use assms in simp)

fun op_call :: "mgr_op \<Rightarrow> mgr_call" where
  "op_call (OAdd c _ _) = c" | "op_call (OReplace c _) = c" | "op_call (OSetDisabled c _ _) = c" | "op_call (ORemove c _) = c"
| "op_call (ORemoveUUID c _) = c" | "op_call (OAddRoute c _ _) = c" | "op_call (OReplaceRoute c _) = c"
| "op_call (OSetRouteDisabled c _ _) = c" | "op_call (ORemoveRoute c _) = c" | "op_call (ORemoveRouteUUID c _) = c"
| "op_call (ORemoveFile c _) = c" | "op_call (ORemoveLocked c _) = c" | "op_call (ORemoveRouteFile c _) = c"
| "op_call (ORemoveRouteLocked c _) = c"

text \<open>The operations of the admin interface as a whole: \<open>AddService\<close> and \<open>AddRoute\<close> without a file serve
  the start only, and a single step of a removal leaves the registry and the directory apart.\<close>

fun op_saves :: "mgr_op \<Rightarrow> bool" where
  "op_saves (OAdd c cfg f) \<longleftrightarrow> f"
| "op_saves (OAddRoute c cfg f) \<longleftrightarrow> f"
| "op_saves (ORemoveFile c n) \<longleftrightarrow> False"
| "op_saves (ORemoveLocked c n) \<longleftrightarrow> False"
| "op_saves (ORemoveRouteFile c n) \<longleftrightarrow> False"
| "op_saves (ORemoveRouteLocked c n) \<longleftrightarrow> False"
| "op_saves _ \<longleftrightarrow> True"

text \<open>The names a removal request gives are single path elements.\<close>

fun op_plain :: "mgr_op \<Rightarrow> bool" where
  "op_plain (ORemove c n) \<longleftrightarrow> plain_name n"
| "op_plain (ORemoveRoute c n) \<longleftrightarrow> plain_name n"
| "op_plain _ \<longleftrightarrow> True"

lemma replace_service_mirrored:
  assumes "registry_ok m" and "mirrored L m" and "io_restore (mc_io c)"
    and "\<And>x y. fst (ReplaceServiceByUUID L c cfg m) \<noteq> Some (RollbackFailed x y)"
  shows "mirrored L (snd (ReplaceServiceByUUID L c cfg m))"
proof (cases "getServiceByUUIDLocked (mc_order c) (UUID cfg) m")
  case None
  then show ?thesis using assms(2) by (simp add: ReplaceServiceByUUID_def)
next
  case (Some sn)
  obtain s n where sn: "sn = (s, n)" by fastforce
  let ?cfg = "(normalizeConfig c cfg)\<lparr>UUID := UUID (sv_cfg s), CreatedAt := CreatedAt (sv_cfg s)\<rparr>"
  have s: "mg_services m n = Some s" using uuid_lookup Some sn by blast
  have pl: "plain_name n" by (rule mirrored_plain(1) [OF assms(2) s])
  have nm: "names_ok m" using assms(1) by (simp add: registry_ok_def)
  have "all_or_nothing True L n (Name ?cfg) ?cfg m (swap_service L c s n (Name ?cfg) ?cfg m)"
    using swap_service_all_or_nothing [OF assms(1) s refl pl] assms(3) by metis
  from mirrored_all_or_nothing [OF assms(2) this] show ?thesis
    using assms(2,4) Some sn swap_done_plain(1) [OF pl nm s refl, of L c ?cfg] by (auto simp: ReplaceServiceByUUID_def Let_def split: if_splits)
qed

lemma set_service_mirrored:
  assumes "registry_ok m" and "mirrored L m" and "io_restore (mc_io c)"
    and "\<And>x y. fst (SetServiceDisabled L c n b m) \<noteq> Some (RollbackFailed x y)"
  shows "mirrored L (snd (SetServiceDisabled L c n b m))"
proof (cases "mg_services m n")
  case None
  then show ?thesis using assms(2) by (simp add: SetServiceDisabled_def)
next
  case (Some s)
  let ?cfg = "(sv_cfg s)\<lparr>Disabled := b\<rparr>"
  have pl: "plain_name n" by (rule mirrored_plain(1) [OF assms(2) Some])
  have "all_or_nothing True L n n ?cfg m (swap_service L c s n n ?cfg m)"
    using swap_service_all_or_nothing [OF assms(1) Some _ pl, of ?cfg n c L] registry_names(1) [OF assms(1) Some] assms(3) by simp
  from mirrored_all_or_nothing [OF assms(2) this] pl show ?thesis
    using assms(2,4) Some by (auto simp: SetServiceDisabled_def split: if_splits)
qed

lemma swap_route_mirrored:
  assumes ok: "registry_ok m" "routes_normal L m" "mirrored L m" and io: "io_restore (mc_io c)"
    and old: "mg_routes m n = Some r" and v: "validateRouteLocked L order excl m cfg0 = Inr cfg" and n': "r_Name cfg = n'"
    and fine: "\<And>x y. fst (swap_route L c r n n' cfg m) \<noteq> Some (RollbackFailed x y)"
  shows "mirrored L (snd (swap_route L c r n n' cfg m))"
proof -
  have "snd (validateBasic (ml_url L) (rt_cfg r)) = rt_cfg r" using ok(2) old by (simp add: routes_normal_def)
  then have "route_all_or_nothing True L n n' cfg m (swap_route L c r n n' cfg m)"
    using swap_route_all_or_nothing [OF ok(1) old n' mirrored_plain(2) [OF ok(3) old] _ validated_normal [OF v]] io by metis
  then show ?thesis
    using fine swap_done_plain(2) [OF mirrored_plain(2) [OF ok(3) old] _ old n'] ok(1)
    by (intro mirrored_route_all_or_nothing [OF ok(3)]) (auto simp: registry_ok_def)
qed

lemma replace_route_mirrored:
  assumes "registry_ok m" and "routes_normal L m" and "mirrored L m" and "io_restore (mc_io c)"
    and "\<And>x y. fst (ReplaceRouteByUUID L c cfg m) \<noteq> Some (RollbackFailed x y)"
  shows "mirrored L (snd (ReplaceRouteByUUID L c cfg m))"
  using assms(3,5) swap_route_mirrored [OF assms(1-4)] route_uuid_lookup
  by (fastforce simp: ReplaceRouteByUUID_def Let_def split: option.splits sum.splits)

lemma set_route_mirrored:
  assumes "registry_ok m" and "routes_normal L m" and "mirrored L m" and "io_restore (mc_io c)"
    and "\<And>x y. fst (SetRouteDisabled L c n b m) \<noteq> Some (RollbackFailed x y)"
  shows "mirrored L (snd (SetRouteDisabled L c n b m))"
proof (cases "mg_routes m n")
  case None
  then show ?thesis using assms(3) by (simp add: SetRouteDisabled_def)
next
  case (Some r)
  let ?v = "validateRouteLocked L (mc_order c) (r_UUID (rt_cfg r)) m ((rt_cfg r)\<lparr>r_Disabled := b\<rparr>)"
  show ?thesis
  proof (cases "r_Disabled (rt_cfg r) = b \<or> (\<exists>e. ?v = Inl e)")
    case True
    then show ?thesis using assms(3) Some by (auto simp: SetRouteDisabled_def)
  next
    case False
    then obtain cfg where v: "?v = Inr cfg" by (cases ?v) auto
    have n: "r_Name cfg = n" using validate_route_name [OF v] registry_names(2) [OF assms(1) Some] by simp
    have eq: "SetRouteDisabled L c n b m = swap_route L c r n n cfg m" using Some False v by (simp add: SetRouteDisabled_def)
    show ?thesis unfolding eq using assms(5) swap_route_mirrored [OF assms(1-4) Some v n] eq by simp
  qed
qed

text \<open>
  C11: The configuration directory mirrors the registry. If in a reachable state the \<open>.tun\<close> and \<open>.route\<close>
  files are exactly the configurations of the registered tunnels and routes, then they still are after
  any operation of the admin interface, successful or not, when the operations follow one another,
  a removal request gives a name without a slash and a backup can always be put back; the only reports
  after which they may differ are a failed \<open>Close\<close> and a failed rollback. (What the three
  conditions exclude does break the mirror: \<open>remove_race\<close>, \<open>remove_other_file\<close> and the lost file of
  the claim on replacing a tunnel.)
\<close>

theorem disk_mirrors_registry:
  assumes "mgr_reachable L m" and "mirrored L m" and "op_saves op" and "op_plain op"
    and "io_restore (mc_io (op_call op))" and "mgr_step L op m = (r, m')" and "r \<noteq> Some CloseFailed"
    and "\<And>x y. r \<noteq> Some (RollbackFailed x y)"
  shows "mirrored L m'"
proof -
  have ok: "registry_ok m" "routes_normal L m" using reachable_ok [OF assms(1)] by simp_all
  have m': "m' = snd (mgr_step L op m)" and r: "fst (mgr_step L op m) = r" using assms(6) by simp_all
  show ?thesis
  proof (cases op)
    case (ORemoveUUID c u)
    have "plain_name (Name (sv_cfg s))" if "getServiceByUUIDLocked ns u m = Some (s, n)" for ns s n
      using that uuid_lookup mirrored_plain(1) [OF assms(2)] registry_names(1) [OF ok(1)] by metis
    then show ?thesis using ORemoveUUID m' r assms(2,7) remove_service_mirrored
      by (fastforce simp: RemoveServiceByUUID_def split: option.splits)
  next
    case (ORemoveRouteUUID c u)
    have "plain_name (r_Name (rt_cfg s))" if "getRouteByUUIDLocked ns u m = Some (s, n)" for ns s n
      using that route_uuid_lookup mirrored_plain(2) [OF assms(2)] registry_names(2) [OF ok(1)] by metis
    then show ?thesis using ORemoveRouteUUID m' assms(2) remove_route_mirrored
      by (fastforce simp: RemoveRouteByUUID_def split: option.splits)
  next
    case (OReplace c cfg)
    then show ?thesis using replace_service_mirrored [OF ok(1) assms(2), of c cfg] assms(5,8) m' r by simp
  next
    case (OSetDisabled c n b)
    then show ?thesis using set_service_mirrored [OF ok(1) assms(2), of c n b] assms(5,8) m' r by simp
  next
    case (OReplaceRoute c cfg)
    then show ?thesis using replace_route_mirrored [OF ok assms(2), of c cfg] assms(5,8) m' r by simp
  next
    case (OSetRouteDisabled c n b)
    then show ?thesis using set_route_mirrored [OF ok assms(2), of c n b] assms(5,8) m' r by simp
  qed (use m' r assms(2,3,4,7) add_service_mirrored add_route_mirrored remove_service_mirrored remove_route_mirrored in auto)
qed

section \<open>Restart\<close>

lemma normalize_complete: "UUID cfg \<noteq> '''' \<Longrightarrow> CreatedAt cfg \<noteq> 0 \<Longrightarrow> normalizeConfig c cfg = cfg"
  by (simp add: normalizeConfig_def)

definition startable :: "mgr_lib \<Rightarrow> config \<Rightarrow> bool" where
  "startable L cfg \<longleftrightarrow> UUID cfg \<noteq> '''' \<and> CreatedAt cfg \<noteq> 0 \<and> (Disabled cfg \<or> (\<exists>k. NewService L cfg = Inr k))"

lemma add_service_loads:
  assumes "startable L cfg" and "mc_run c" and "mg_services m (Name cfg) = None"
  shows "fst (AddService L c cfg False m) = None \<and> service_cfgs (snd (AddService L c cfg False m)) = (service_cfgs m)(Name cfg \<mapsto> cfg) \<and>
         mg_dir (snd (AddService L c cfg False m)) = mg_dir m"
proof -
  have n: "normalizeConfig c cfg = cfg" using assms(1) by (simp add: startable_def normalize_complete)
  obtain s where s: "prepareManagedService L cfg m = (Inr s, m\<lparr>mg_fresh := Suc (mg_fresh m)\<rparr>)" "sv_cfg s = cfg"
    by (cases rule: prepare_result [of L cfg m])
      (use assms(1) in \<open>auto simp: prepareManagedService_def startable_def Let_def split: sum.splits if_splits\<close>)
  show ?thesis using n s assms(2,3) by (simp add: AddService_def runPreparedService_def Let_def service_cfgs_def fun_eq_iff)
qed

lemma add_services_loads:
  assumes "\<And>cfg. cfg \<in> set cfgs \<Longrightarrow> startable L cfg" and "\<And>k. k < length cfgs \<Longrightarrow> mc_run (cs (i + k))" and "distinct (map Name cfgs)"
    and "\<And>cfg. cfg \<in> set cfgs \<Longrightarrow> service_cfgs m (Name cfg) = None"
  shows "fst (add_services L cs i cfgs m) = None \<and>
         service_cfgs (snd (add_services L cs i cfgs m)) = service_cfgs m ++ map_of (map (\<lambda>cfg. (Name cfg, cfg)) cfgs) \<and>
         mg_dir (snd (add_services L cs i cfgs m)) = mg_dir m"
  using assms
proof (induction cfgs arbitrary: m i)
  case (Cons cfg cfgs)
  obtain r m1 where a: "AddService L (cs i) cfg False m = (r, m1)" by fastforce
  have "mg_services m (Name cfg) = None" using Cons.prems(4) [of cfg] by (simp add: service_cfgs_def)
  then have m1: "r = None" "service_cfgs m1 = (service_cfgs m)(Name cfg \<mapsto> cfg)" "mg_dir m1 = mg_dir m"
    using add_service_loads [of L cfg "cs i" m] Cons.prems(1) Cons.prems(2) [of 0] a by simp_all
  have "service_cfgs m1 (Name x) = None" if "x \<in> set cfgs" for x
    using that Cons.prems(3,4) m1(2) by (auto simp: image_iff)
  then have "fst (add_services L cs (Suc i) cfgs m1) = None \<and>
      service_cfgs (snd (add_services L cs (Suc i) cfgs m1)) = service_cfgs m1 ++ map_of (map (\<lambda>cfg. (Name cfg, cfg)) cfgs) \<and>
      mg_dir (snd (add_services L cs (Suc i) cfgs m1)) = mg_dir m1"
    using Cons.IH [of "Suc i" m1] Cons.prems(1,3) Cons.prems(2) [of "Suc k" for k] by simp
  moreover have "Name cfg \<notin> dom (map_of (map (\<lambda>cfg. (Name cfg, cfg)) cfgs))"
    using Cons.prems(3) by (auto simp: dom_map_of_conv_image_fst)
  ultimately show ?case using a m1 by (auto simp: map_add_def fun_eq_iff split: option.splits)
qed simp

lemma add_routes_services: "mg_services (add_routes L cs i rs m) = mg_services m"
proof (induction rs arbitrary: m i)
  case (Cons r rs)
  have "mg_services (snd (AddRoute L (cs i) r False m)) = mg_services m"
    by (cases rule: add_route_cases [of L "cs i" r False m]) simp_all
  then show ?case using Cons by simp
qed simp

text \<open>The \<open>.tun\<close> files of a mirrored directory hold each registered configuration once.\<close>

lemma mirrored_listing:
  assumes mir: "mirrored L m" and ok: "registry_ok m"
    and ns: "distinct ns" "set ns = dom (d_top (mg_dir m)) \<inter> range (config_file TUN_CONFIG_SUFFIX)"
    and rt: "\<And>n cfg. service_cfgs m n = Some cfg \<Longrightarrow> dec (ml_json L cfg) = Some cfg"
  defines "cfgs \<equiv> map (\<lambda>n. the (dec (the (d_top (mg_dir m) n)))) ns"
  shows "distinct (map Name cfgs) \<and> map_of (map (\<lambda>cfg. (Name cfg, cfg)) cfgs) = service_cfgs m \<and> set cfgs = ran (service_cfgs m)"
proof -
  have nm: "Name cfg = n" if "service_cfgs m n = Some cfg" for n cfg
    using that registry_names(1) [OF ok] by (auto simp: service_cfgs_def)
  have entry: "\<exists>n cfg. f = config_file TUN_CONFIG_SUFFIX n \<and> service_cfgs m n = Some cfg \<and> the (dec (the (d_top (mg_dir m) f))) = cfg"
    if "f \<in> set ns" for f
  proof -
    have "f \<in> range (config_file TUN_CONFIG_SUFFIX)" "f \<in> dom (d_top (mg_dir m))" using that ns(2) by blast+
    then obtain n where n: "f = config_file TUN_CONFIG_SUFFIX n" "d_top (mg_dir m) f \<noteq> None" by auto
    then obtain cfg where "service_cfgs m n = Some cfg" "d_top (mg_dir m) f = Some (ml_json L cfg)"
      using mir by (auto simp: mirrored_def)
    then show ?thesis using n rt by auto
  qed
  have conv: "config_file TUN_CONFIG_SUFFIX n \<in> set ns" if "service_cfgs m n = Some cfg" for n cfg
    using that mir ns(2) by (auto simp: mirrored_def dom_def)
  have named: "config_file TUN_CONFIG_SUFFIX (Name (the (dec (the (d_top (mg_dir m) f))))) = f" if "f \<in> set ns" for f
    using entry [OF that] nm by auto
  have "map (config_file TUN_CONFIG_SUFFIX) (map Name cfgs) = ns"
    unfolding cfgs_def using named by (simp add: map_idI)
  then have d: "distinct (map Name cfgs)" using ns(1) by (metis distinct_map)
  have s: "set cfgs = ran (service_cfgs m)"
  proof (intro equalityI subsetI)
    fix x assume "x \<in> set cfgs"
    then obtain f where "f \<in> set ns" "x = the (dec (the (d_top (mg_dir m) f)))" by (auto simp: cfgs_def)
    then show "x \<in> ran (service_cfgs m)" using entry [of f] by (auto intro: ranI)
  next
    fix x assume "x \<in> ran (service_cfgs m)"
    then obtain n where n: "service_cfgs m n = Some x" by (auto simp: ran_def)
    then have "d_top (mg_dir m) (config_file TUN_CONFIG_SUFFIX n) = Some (ml_json L x)" using mir by (simp add: mirrored_def)
    then have "the (dec (the (d_top (mg_dir m) (config_file TUN_CONFIG_SUFFIX n)))) = x" using rt [OF n] by simp
    then show "x \<in> set cfgs" using conv [OF n] unfolding cfgs_def by force
  qed
  have "map_of (map (\<lambda>cfg. (Name cfg, cfg)) cfgs) n = service_cfgs m n" for n
  proof (cases "service_cfgs m n")
    case None
    then show ?thesis using s nm by (fastforce simp: map_of_eq_None_iff ran_def image_iff)
  next
    case (Some cfg)
    then have "(n, cfg) \<in> set (map (\<lambda>cfg. (Name cfg, cfg)) cfgs)" using s nm [OF Some] by (auto simp: ran_def)
    then show ?thesis using Some d by (simp add: map_of_is_SomeI comp_def)
  qed
  then show ?thesis using d s by auto
qed

text \<open>
  C12: A restart brings the tunnels back. When the directory mirrors the registry of a reachable state,
  every stored configuration reads back from its JSON and the tunnels can be built and start, then
  \<open>Run\<close> of a new manager on this directory succeeds and registers exactly the same tunnel
  configurations under the same names; whether a route can be validated, built or started does not
  affect it.
\<close>

theorem restart_restores_tunnels:
  assumes "mgr_reachable L m" and "mirrored L m"
    and "distinct entries" and "set entries = dom (d_top (mg_dir m))"
    and "\<And>n cfg. service_cfgs m n = Some cfg \<Longrightarrow> dec (ml_json L cfg) = Some cfg \<and> startable L cfg"
    and "\<And>n cfg. route_cfgs m n = Some cfg \<Longrightarrow> decRoute (ml_route_json L cfg) = Some cfg"
    and "\<And>i. i < card (dom (service_cfgs m)) \<Longrightarrow> mc_run (cs i)"
  shows "\<exists>m'. manager_Run L dec decRoute (\<lambda>_. True) entries cs (NewManager (mg_dir m)) = (None, m') \<and> service_cfgs m' = service_cfgs m"
proof -
  let ?new = "NewManager (mg_dir m)"
  define ns where "ns = filter (\<lambda>n. path_Ext n = TUN_CONFIG_SUFFIX) entries"
  define cfgs where "cfgs = map (\<lambda>n. the (dec (the (d_top (mg_dir m) n)))) ns"
  have ok: "registry_ok m" using reachable_ok [OF assms(1)] by simp
  have ns: "distinct ns" "set ns = dom (d_top (mg_dir m)) \<inter> range (config_file TUN_CONFIG_SUFFIX)"
    using assms(3,4) path_Ext_range(1) by (auto simp: ns_def path_Ext_tun)
  have listing: "distinct (map Name cfgs)" "map_of (map (\<lambda>cfg. (Name cfg, cfg)) cfgs) = service_cfgs m" "set cfgs = ran (service_cfgs m)"
    using mirrored_listing [OF assms(2) ok ns, of dec] assms(5) by (simp_all add: cfgs_def)
  have "dom (service_cfgs m) = Name ` set cfgs" using listing(2) dom_map_of_conv_image_fst [of "map (\<lambda>cfg. (Name cfg, cfg)) cfgs"]
    by (simp add: image_image)
  then have n: "card (dom (service_cfgs m)) = length cfgs"
    using distinct_card [OF listing(1)] by simp
  have "dec (the (d_top (mg_dir m) f)) \<noteq> None" "d_top (mg_dir m) f \<noteq> None" if "f \<in> set entries" "path_Ext f = TUN_CONFIG_SUFFIX" for f
    using that assms(2,4,5) path_Ext_range(1) [of f] by (auto simp: mirrored_def)
  then have l1: "loadAllFile (\<lambda>_. True) dec TUN_CONFIG_SUFFIX entries (mg_dir m) = Inr cfgs"
    using loadAllFile_exact [of entries TUN_CONFIG_SUFFIX "\<lambda>_. True" "mg_dir m" dec] by (simp add: cfgs_def ns_def)
  have "decRoute (the (d_top (mg_dir m) f)) \<noteq> None" "d_top (mg_dir m) f \<noteq> None" if "f \<in> set entries" "path_Ext f = ROUTE_CONFIG_SUFFIX" for f
    using that assms(2,4,6) path_Ext_range(2) [of f] by (auto simp: mirrored_def)
  then obtain rs where l2: "loadAllFile (\<lambda>_. True) decRoute ROUTE_CONFIG_SUFFIX entries (mg_dir m) = Inr rs"
    using loadAllFile_exact [of entries ROUTE_CONFIG_SUFFIX "\<lambda>_. True" "mg_dir m" decRoute] by simp
  have st: "startable L cfg" if "cfg \<in> set cfgs" for cfg using that listing(3) assms(5) by (auto simp: ran_def)
  have e: "service_cfgs ?new = Map.empty" "mg_dir ?new = mg_dir m" by (simp_all add: NewManager_def service_cfgs_def fun_eq_iff)
  obtain m1 where a: "add_services L cs 0 cfgs ?new = (None, m1)" "service_cfgs m1 = service_cfgs m" "mg_dir m1 = mg_dir m"
    using add_services_loads [where cfgs = cfgs and L = L and cs = cs and m = ?new and i = 0] st assms(7) n listing e by (cases "add_services L cs 0 cfgs ?new") simp
  let ?m2 = "add_routes L cs (length cfgs) rs m1"
  have "manager_Run L dec decRoute (\<lambda>_. True) entries cs ?new = (None, ?m2)"
    using l1 l2 a by (simp add: manager_Run_def NewManager_def)
  moreover have "service_cfgs ?m2 = service_cfgs m"
    using service_cfgs_cong [OF add_routes_services] a(2) by metis
  ultimately show ?thesis by blast
qed

section \<open>Two flaws\<close>

text \<open>A tunnel whose \<open>Run\<close> fails is reported but never closed: what it had already opened stays open.\<close>

theorem failed_run_not_closed:
  assumes "\<not> mc_run c" and "\<not> Disabled cfg" and "NewService L (normalizeConfig c cfg) = Inr k" and "mg_services m (Name cfg) = None"
    and "registry_ok m"
  shows "\<exists>m' i. AddService L c cfg f m = (Some RunFailed, m') \<and> i \<in> mg_open m' \<and> (\<forall>k. slot m' k \<noteq> Some i)"
proof -
  have n: "Disabled (normalizeConfig c cfg) = Disabled cfg" "Name (normalizeConfig c cfg) = Name cfg"
    by (simp_all add: normalizeConfig_def Let_def)
  have "k \<noteq> KDisabled" using assms(3) by (auto simp: NewService_def split: if_splits)
  then have "AddService L c cfg f m = (Some RunFailed, m\<lparr>mg_fresh := Suc (mg_fresh m), mg_open := insert (mg_fresh m) (mg_open m)\<rparr>)"
    using assms n by (simp add: AddService_def prepareManagedService_def runPreparedService_def Let_def)
  moreover have "slot m k \<noteq> Some (mg_fresh m)" for k using slots_fresh [of "slot m" "mg_open m" "mg_fresh m"] assms(5) by (simp add: registry_ok_def)
  ultimately show ?thesis by (intro exI conjI) auto
qed

text \<open>A route that has lost a member cannot be switched off: the full validation runs for that too.\<close>

lemma check_members_missing: "x \<in> set ns \<Longrightarrow> mg_services m x = None \<Longrightarrow> \<exists>e. check_route_members L m cfg ns seen ws = Inl e"
  by (induction ns arbitrary: seen ws) (auto simp: Let_def split: option.split sum.split)

theorem orphaned_route_not_disabled:
  assumes "mg_routes m n = Some r" and "\<not> r_Disabled (rt_cfg r)" and "x \<in> set (r_Members (rt_cfg r))" and "mg_services m x = None"
  shows "\<exists>e. SetRouteDisabled L c n True m = (Some e, m)"
proof -
  let ?v = "validateRouteLocked L (mc_order c) (r_UUID (rt_cfg r)) m ((rt_cfg r)\<lparr>r_Disabled := True\<rparr>)"
  let ?b = "route_normalize ((rt_cfg r)\<lparr>r_Disabled := True\<rparr>)"
  have "x \<in> set (r_Members ?b)" using assms(3) by (simp add: route_normalize_fields)
  then obtain e where "check_route_members L m ?b (r_Members ?b) {} [] = Inl e" using check_members_missing assms(4) by blast
  then have "\<exists>e. ?v = Inl e" by (auto simp: validateRouteLocked_def validateBasic_def Let_def split: option.split)
  then show ?thesis using assms(1,2) by (auto simp: SetRouteDisabled_def)
qed

section \<open>Examples\<close>

definition demo_cfg :: config where
  "demo_cfg = sample_member\<lparr>CreatedAt := 5\<rparr>"

definition demo_mlib :: mgr_lib where
  "demo_mlib = \<lparr>ml_build = (\<lambda>_. True), ml_build_route = (\<lambda>_. True), ml_json = (\<lambda>c. if Disabled c then ''off'' else ''on''),
     ml_route_json = (\<lambda>_. ''route''), ml_url = \<lparr>url_Parse = (\<lambda>_. None), LookupPort = (\<lambda>_. True)\<rparr>,
     ml_extend = (\<lambda>_. None), ml_socks = (\<lambda>_. None), ml_warn = (\<lambda>n _. n)\<rparr>"

definition demo_cio :: config_io where
  "demo_cio = \<lparr>io_path = (\<lambda>p. if p = ''./m.tun'' then Entry ''m.tun'' else Elsewhere None), io_mkdir = True, io_create = Some ''t'', io_partial = '''', io_write = True, io_close = True,
     io_backup_name = ''b'', io_backup = True, io_rename = True, io_restore = True, io_unlink = True, io_remove = True\<rparr>"

definition demo_mcall :: mgr_call where
  "demo_mcall = \<lparr>mc_now = 9, mc_uuid = ''id'', mc_run = True, mc_close = True, mc_close_new = True, mc_rerun = True,
     mc_io = demo_cio, mc_order = [''m'']\<rparr>"

definition empty_dir :: config_dir where
  "empty_dir = \<lparr>d_top = Map.empty, d_stage = Map.empty\<rparr>"

definition demo_mgr :: mgr where
  "demo_mgr = snd (mgr_step demo_mlib (OAdd demo_mcall demo_cfg True) (NewManager empty_dir))"

lemma demo_mgr_reachable: "mgr_reachable demo_mlib demo_mgr"
  unfolding demo_mgr_def by (intro mgr_reachable.step mgr_reachable.start)

lemma demo_mgr_fields:
  "mg_services demo_mgr = [''m'' \<mapsto> \<lparr>sv_cfg = demo_cfg, sv_kind = KServer, sv_inst = 0\<rparr>]" "mg_routes demo_mgr = Map.empty"
  "d_top (mg_dir demo_mgr) = [''m.tun'' \<mapsto> ''on'']"
  by (simp_all add: demo_mgr_def AddService_def prepareManagedService_def NewService_def runPreparedService_def normalizeConfig_def
      writeFileAtomic_def writeTempFile_def promote_def remove_temp_def plain_name_def demo_mlib_def demo_mcall_def demo_cio_def demo_cfg_def
      sample_member_def NewManager_def empty_dir_def config_file_def TUN_CONFIG_SUFFIX_def Let_def)

lemma demo_cfg_fields: "Name demo_cfg = ''m''" "UUID demo_cfg = ''u''" "CreatedAt demo_cfg = 5" "\<not> Disabled demo_cfg" "Mode demo_cfg = ''''"
  by (simp_all add: demo_cfg_def sample_member_def)

lemma demo_mirrored: "mirrored demo_mlib demo_mgr"
proof -
  have "(''m.tun'' = n @ ''.tun'') \<longleftrightarrow> n = ''m''" for n :: string
    using append_same_eq [of "''m''" "''.tun''" n] by auto
  moreover have "''m.tun'' \<noteq> n @ ''.route''" for n :: string
    using suffixes_differ(1) [of "''m''" n] by (simp add: config_file_def TUN_CONFIG_SUFFIX_def ROUTE_CONFIG_SUFFIX_def)
  ultimately show ?thesis
    using demo_mgr_fields demo_cfg_fields
    by (auto simp: mirrored_def plain_name_def service_cfgs_def route_cfgs_def config_file_def TUN_CONFIG_SUFFIX_def ROUTE_CONFIG_SUFFIX_def demo_mlib_def)
qed

theorem registry_invariant_witness: "registry_ok demo_mgr \<and> mg_services demo_mgr ''m'' \<noteq> None"
  using registry_invariant [OF demo_mgr_reachable] demo_mgr_fields by simp

theorem replace_service_all_or_nothing_witness:
  "all_or_nothing True demo_mlib ''m'' ''m'' (demo_cfg\<lparr>Input := ''tcp@:1'', UUID := ''u'', CreatedAt := 5\<rparr>) demo_mgr
     (ReplaceServiceByUUID demo_mlib demo_mcall (demo_cfg\<lparr>Input := ''tcp@:1''\<rparr>) demo_mgr)"
proof -
  let ?cfg = "demo_cfg\<lparr>Input := ''tcp@:1''\<rparr>"
  have h: "getServiceByUUIDLocked (mc_order demo_mcall) (UUID ?cfg) demo_mgr = Some (\<lparr>sv_cfg = demo_cfg, sv_kind = KServer, sv_inst = 0\<rparr>, ''m'')"
    "Name ?cfg = ''m'' \<or> mg_services demo_mgr (Name ?cfg) = None" "plain_name ''m''"
    using demo_mgr_fields demo_cfg_fields by (simp_all add: demo_mcall_def plain_name_def)
  have "io_restore (mc_io demo_mcall)" by (simp add: demo_mcall_def demo_cio_def)
  with replace_service_all_or_nothing [OF demo_mgr_reachable h] show ?thesis using demo_cfg_fields by simp
qed

theorem disk_mirrors_registry_witness:
  "mirrored demo_mlib (snd (mgr_step demo_mlib (ORemove demo_mcall ''m'') demo_mgr))"
proof -
  have r: "mgr_step demo_mlib (ORemove demo_mcall ''m'') demo_mgr = (None, snd (mgr_step demo_mlib (ORemove demo_mcall ''m'') demo_mgr))"
    using demo_mgr_fields
    by (simp add: remove_service_unfold deleteFile_def config_file_def TUN_CONFIG_SUFFIX_def plain_name_def close_service_def
        demo_mcall_def demo_cio_def)
  show ?thesis
    by (rule disk_mirrors_registry [OF demo_mgr_reachable demo_mirrored _ _ _ r])
      (simp_all add: demo_mcall_def demo_cio_def plain_name_def)
qed

theorem restart_restores_tunnels_witness:
  "\<exists>m'. manager_Run demo_mlib (\<lambda>_. Some demo_cfg) (\<lambda>_. None) (\<lambda>_. True) [''m.tun''] (\<lambda>_. demo_mcall) (NewManager (mg_dir demo_mgr)) = (None, m') \<and>
        service_cfgs m' = service_cfgs demo_mgr"
proof (rule restart_restores_tunnels [OF demo_mgr_reachable demo_mirrored])
  show "set [''m.tun''] = dom (d_top (mg_dir demo_mgr))" using demo_mgr_fields by simp
  show "Some demo_cfg = Some cfg \<and> startable demo_mlib cfg" if "service_cfgs demo_mgr n = Some cfg" for n cfg
    using that demo_mgr_fields demo_cfg_fields
    by (auto simp: service_cfgs_def startable_def NewService_def demo_mlib_def split: if_splits)
  show "None = Some cfg" if "route_cfgs demo_mgr n = Some cfg" for n cfg
    using that demo_mgr_fields by (simp add: route_cfgs_def)
qed (simp_all add: demo_mcall_def)

text \<open>
  Deleting by path: a removal request for \<open>./m\<close> deletes the file of the tunnel \<open>m\<close>, which stays
  registered and running, and reports success.
\<close>

theorem remove_other_file:
  "let r = RemoveService demo_mcall ''./m'' demo_mgr
   in fst r = None \<and> mg_services (snd r) = mg_services demo_mgr \<and> mg_services (snd r) ''m'' \<noteq> None \<and>
      d_top (mg_dir (snd r)) = Map.empty"
  using demo_mgr_fields
  by (simp add: remove_service_unfold deleteFile_def file_at_def set_at_def path_at_def plain_name_def config_file_def
      TUN_CONFIG_SUFFIX_def demo_mcall_def demo_cio_def Let_def)

text \<open>
  The file is deleted outside the lock: when another request switches the tunnel in between, its file
  is written again after the deletion, and the tunnel removed from the registry is back at the next
  start.
\<close>

theorem remove_race:
  "let (e1, m1) = remove_service_file demo_mcall ''m'' demo_mgr;
       (e2, m2) = SetServiceDisabled demo_mlib demo_mcall ''m'' True m1;
       (e3, m3) = remove_service_locked demo_mcall ''m'' m2
   in e1 = None \<and> e2 = None \<and> e3 = None \<and> mg_services m3 = Map.empty \<and> d_top (mg_dir m3) = [''m.tun'' \<mapsto> ''off'']"
proof -
  note d = config_file_def TUN_CONFIG_SUFFIX_def plain_name_def demo_mcall_def demo_cio_def demo_mlib_def Let_def
  obtain m1 where m1: "remove_service_file demo_mcall ''m'' demo_mgr = (None, m1)" "mg_services m1 = mg_services demo_mgr"
    "d_top (mg_dir m1) = Map.empty"
    using demo_mgr_fields by (simp add: remove_service_file_def deleteFile_def d)
  obtain m2 where m2: "SetServiceDisabled demo_mlib demo_mcall ''m'' True m1 = (None, m2)"
    "mg_services m2 = [''m'' \<mapsto> NewDisabledService (demo_cfg\<lparr>Disabled := True\<rparr>) (mg_fresh m1)]" "d_top (mg_dir m2) = [''m.tun'' \<mapsto> ''off'']"
    using m1 demo_mgr_fields demo_cfg_fields
    by (simp add: SetServiceDisabled_def swap_service_def prepareManagedService_def close_service_def runPreparedService_def
        replaceFile_def writeTempFile_def promote_def remove_temp_def NewDisabledService_def d)
  then show ?thesis using m1
    by (simp add: remove_service_locked_def close_service_def NewDisabledService_def)
qed

end
