(* ===== verification/ByteSource.thy ===== *)
theory ByteSource
  imports Prelude
begin

text \<open>
  The interface between the layers of a stream. A reader takes the length of the caller's buffer
  and returns the bytes it copied there, or an error; this is Go's \<open>io.Reader\<close>. The locale
  \<open>byte_source\<close> states what the upper layers rely on: the bytes come in order, none is lost and
  none invented. Its lemmas are proved once and used for the frame layer
  (\<open>src/tun/frame_stream.go\<close>) and for the cipher layer (\<open>src/pkg/crypto/gcm.go\<close>).
\<close>

type_synonym ('s, 'e) reader = "nat \<Rightarrow> 's \<Rightarrow> ('e + byte list) \<times> 's"

text \<open>A caller that reads with buffers of the given lengths and stops at the first error.\<close>

fun pull :: "('s, 'e) reader \<Rightarrow> nat list \<Rightarrow> 's \<Rightarrow> byte list \<times> 's" where
  "pull rd [] s = ([], s)"
| "pull rd (n # ns) s =
     (case rd n s of
        (Inl e, s') \<Rightarrow> ([], s')
      | (Inr bs, s') \<Rightarrow> (case pull rd ns s' of (cs, s'') \<Rightarrow> (bs @ cs, s'')))"

text \<open>
  \<open>io.ReadFull\<close>: read until the buffer is full. A reader may return nothing without an error, so
  the loop carries fuel; \<open>read_full_enough\<close> shows that one unit per byte is enough.
\<close>

fun read_full :: "('s, 'e) reader \<Rightarrow> nat \<Rightarrow> nat \<Rightarrow> 's \<Rightarrow> (('e + byte list) \<times> 's) option" where
  "read_full rd fuel 0 s = Some (Inr [], s)"
| "read_full rd 0 (Suc n) s = None"
| "read_full rd (Suc fuel) (Suc n) s =
     (case rd (Suc n) s of
        (Inl e, s') \<Rightarrow> Some (Inl e, s')
      | (Inr bs, s') \<Rightarrow>
          (case read_full rd fuel (Suc n - length bs) s' of
             None \<Rightarrow> None
           | Some (Inl e, s'') \<Rightarrow> Some (Inl e, s'')
           | Some (Inr cs, s'') \<Rightarrow> Some (Inr (bs @ cs), s'')))"

locale byte_source =
  fixes read :: "('s, 'e) reader"
    and content :: "'s \<Rightarrow> byte list"
    and ok :: "'s \<Rightarrow> bool"
  assumes read_some: "ok s \<Longrightarrow> 0 < n \<Longrightarrow> content s \<noteq> [] \<Longrightarrow>
      \<exists>bs s'. read n s = (Inr bs, s') \<and> bs \<noteq> [] \<and> length bs \<le> n \<and> ok s' \<and> content s = bs @ content s'"
    and read_end: "ok s \<Longrightarrow> content s = [] \<Longrightarrow> \<exists>e s'. read n s = (Inl e, s') \<and> ok s' \<and> content s' = []"
begin

lemma pull_prefix:
  "ok s \<Longrightarrow> \<forall>n\<in>set ns. 0 < n \<Longrightarrow>
   ok (snd (pull read ns s)) \<and> content s = fst (pull read ns s) @ content (snd (pull read ns s))"
proof (induction ns arbitrary: s)
  case Nil
  then show ?case by simp
next
  case (Cons n ns)
  show ?case
  proof (cases "content s = []")
    case True
    then obtain e s' where "read n s = (Inl e, s')" "ok s'" "content s' = []"
      using read_end [of s n] Cons.prems by auto
    then show ?thesis using True by simp
  next
    case False
    then obtain bs s' where r: "read n s = (Inr bs, s')" "ok s'" "content s = bs @ content s'"
      using read_some [of s n] Cons.prems by auto
    then show ?thesis using Cons.IH [of s'] Cons.prems by (simp add: split_beta)
  qed
qed

lemma pull_all:
  "ok s \<Longrightarrow> \<forall>n\<in>set ns. 0 < n \<Longrightarrow> length (content s) \<le> length ns \<Longrightarrow> fst (pull read ns s) = content s"
proof (induction ns arbitrary: s)
  case Nil
  then show ?case by simp
next
  case (Cons n ns)
  show ?case
  proof (cases "content s = []")
    case True
    then obtain e s' where "read n s = (Inl e, s')" using read_end [of s n] Cons.prems by auto
    then show ?thesis using True by simp
  next
    case False
    then obtain bs s' where r: "read n s = (Inr bs, s')" "ok s'" "content s = bs @ content s'" "bs \<noteq> []"
      using read_some [of s n] Cons.prems by auto
    have "length (content s) = length bs + length (content s')" "0 < length bs" using r by simp_all
    then have "length (content s') \<le> length ns" using Cons.prems(3) by (simp only: list.size)
    then have "fst (pull read ns s') = content s'" using Cons.IH [of s'] Cons.prems r by simp
    then show ?thesis using r by (simp add: split_beta)
  qed
qed

lemma read_full_enough:
  "ok s \<Longrightarrow> n \<le> length (content s) \<Longrightarrow> n \<le> fuel \<Longrightarrow>
   \<exists>s'. read_full read fuel n s = Some (Inr (take n (content s)), s') \<and> ok s' \<and> content s' = drop n (content s)"
proof (induction n arbitrary: s fuel rule: less_induct)
  case (less n)
  show ?case
  proof (cases n)
    case 0
    then show ?thesis using less.prems by simp
  next
    case (Suc m)
    then obtain f where f: "fuel = Suc f" using less.prems by (cases fuel) auto
    have "content s \<noteq> []" using less.prems Suc by auto
    then obtain bs s' where r: "read n s = (Inr bs, s')" "bs \<noteq> []" "length bs \<le> n" "ok s'"
      "content s = bs @ content s'"
      using read_some [of s n] less.prems Suc by auto
    let ?k = "n - length bs"
    have lt: "?k < n" using r Suc by (cases bs) auto
    have "?k \<le> f" using less.prems f lt by linarith
    moreover have "?k \<le> length (content s')" using less.prems r by simp
    ultimately obtain s'' where "read_full read f ?k s' = Some (Inr (take ?k (content s')), s'')" "ok s''"
      "content s'' = drop ?k (content s')"
      using less.IH [OF lt r(4)] by blast
    then show ?thesis using r Suc f by simp
  qed
qed

end

end
