(* ===== verification/Frame.thy ===== *)
theory Frame
  imports ByteSource
begin

text \<open>
  The frame layer: \<open>src/tun/frame_stream.go\<close> and the handshake of
  \<open>src/tun/stream_handshake.go\<close>. The stream below is its incoming bytes (\<open>io.ReadFull\<close> over a
  byte source delivers exactly these), the bytes written so far, and whether writing fails. Clock
  readings come from a function of the number of readings taken. A probe waiter is the buffered
  channel of capacity one registered for a sequence number.
\<close>

datatype frame_error =
    FEOF | FUnexpectedEOF | WriteFailed | PayloadTooLarge | InvalidProbeReq | InvalidProbeResp
  | UnexpectedBandwidthDone | UnknownFrameType | UnexpectedBusiness | SeqMismatch | ProbeTimeout
  | BadMagic | BadVersion | BadRole

definition MaxSegmentSize :: nat where
  "MaxSegmentSize = 65535"

definition frameTypeBusiness :: byte where "frameTypeBusiness = 0"
definition frameTypeProbeReq :: byte where "frameTypeProbeReq = 1"
definition frameTypeProbeResp :: byte where "frameTypeProbeResp = 2"
definition frameTypeBandwidthDone :: byte where "frameTypeBandwidthDone = 3"

lemmas frame_types = frameTypeBusiness_def frameTypeProbeReq_def frameTypeProbeResp_def
  frameTypeBandwidthDone_def

definition readFull :: "nat \<Rightarrow> byte list \<Rightarrow> frame_error + byte list \<times> byte list" where
  "readFull n bs =
     (if n \<le> length bs then Inr (take n bs, drop n bs)
      else Inl (if bs = [] then FEOF else FUnexpectedEOF))"

section \<open>Handshake\<close>

datatype streamRole = Business | Probe | Bandwidth

fun role_byte :: "streamRole \<Rightarrow> byte" where
  "role_byte Business = 0"
| "role_byte Probe = 1"
| "role_byte Bandwidth = 2"

definition streamHandshakeMagic :: "byte list" where
  "streamHandshakeMagic = [71, 84, 72, 49]"

definition writeStreamHandshake :: "streamRole \<Rightarrow> byte list" where
  "writeStreamHandshake role = streamHandshakeMagic @ [1, role_byte role]"

definition readStreamHandshake :: "byte list \<Rightarrow> frame_error + streamRole \<times> byte list" where
  "readStreamHandshake bs =
     (case readFull 6 bs of
        Inl e \<Rightarrow> Inl e
      | Inr (buf, rest) \<Rightarrow>
          if take 4 buf \<noteq> streamHandshakeMagic then Inl BadMagic
          else if buf ! 4 \<noteq> 1 then Inl BadVersion
          else if buf ! 5 = 0 then Inr (Business, rest)
          else if buf ! 5 = 1 then Inr (Probe, rest)
          else if buf ! 5 = 2 then Inr (Bandwidth, rest)
          else Inl BadRole)"

section \<open>Frames and probe messages\<close>

record probe_req =
  pq_Seq :: "64 word"
  pq_SentUnixNano :: "64 word"

record probe_resp =
  pr_Seq :: "64 word"
  pr_SentUnixNano :: "64 word"
  pr_RecvUnixNano :: "64 word"

definition put64 :: "64 word \<Rightarrow> byte list" where
  "put64 w = be_bytes 8 (unat w)"

definition get64 :: "byte list \<Rightarrow> 64 word" where
  "get64 bs = word_of_nat (be_nat bs)"

definition encodeProbeReq :: "probe_req \<Rightarrow> byte list" where
  "encodeProbeReq r = put64 (pq_Seq r) @ put64 (pq_SentUnixNano r)"

definition decodeProbeReq :: "byte list \<Rightarrow> frame_error + probe_req" where
  "decodeProbeReq p =
     (if length p \<noteq> 16 then Inl InvalidProbeReq
      else Inr \<lparr>pq_Seq = get64 (take 8 p), pq_SentUnixNano = get64 (drop 8 p)\<rparr>)"

definition encodeProbeResp :: "probe_resp \<Rightarrow> byte list" where
  "encodeProbeResp r = put64 (pr_Seq r) @ put64 (pr_SentUnixNano r) @ put64 (pr_RecvUnixNano r)"

definition decodeProbeResp :: "byte list \<Rightarrow> frame_error + probe_resp" where
  "decodeProbeResp p =
     (if length p \<noteq> 24 then Inl InvalidProbeResp
      else Inr \<lparr>pr_Seq = get64 (take 8 p), pr_SentUnixNano = get64 (take 8 (drop 8 p)),
                pr_RecvUnixNano = get64 (drop 16 p)\<rparr>)"

definition writeFrame :: "byte \<Rightarrow> byte list \<Rightarrow> frame_error + byte list" where
  "writeFrame t payload =
     (if MaxSegmentSize < length payload then Inl PayloadTooLarge
      else Inr ([t] @ be_bytes 2 (length payload) @ payload))"

definition readFrame :: "byte list \<Rightarrow> frame_error + byte \<times> byte list \<times> byte list" where
  "readFrame bs =
     (case readFull 3 bs of
        Inl e \<Rightarrow> Inl e
      | Inr (header, rest) \<Rightarrow>
          (case readFull (be_nat (drop 1 header)) rest of
             Inl e \<Rightarrow> Inl e
           | Inr (payload, rest') \<Rightarrow> Inr (header ! 0, payload, rest')))"

section \<open>The frame stream\<close>

record frame_stream =
  fs_role :: streamRole
  fs_in :: "byte list"
  fs_out :: "byte list"
  fs_broken :: bool
  fs_pending :: "byte list"
  fs_probeSeq :: "64 word"
  fs_waiters :: "64 word \<rightharpoonup> probe_resp list"
  fs_ticks :: nat

definition NewFrameStream :: "byte list \<Rightarrow> streamRole \<Rightarrow> frame_stream" where
  "NewFrameStream bs role =
     \<lparr>fs_role = role, fs_in = bs, fs_out = [], fs_broken = False, fs_pending = [], fs_probeSeq = 0,
      fs_waiters = Map.empty, fs_ticks = 0\<rparr>"

definition fs_writeFrame :: "byte \<Rightarrow> byte list \<Rightarrow> frame_stream \<Rightarrow> frame_error option \<times> frame_stream" where
  "fs_writeFrame t payload s =
     (case writeFrame t payload of
        Inl e \<Rightarrow> (Some e, s)
      | Inr bs \<Rightarrow> if fs_broken s then (Some WriteFailed, s) else (None, s\<lparr>fs_out := fs_out s @ bs\<rparr>))"

definition notifyProbeWaiter :: "probe_resp \<Rightarrow> frame_stream \<Rightarrow> frame_stream" where
  "notifyProbeWaiter resp s =
     (case fs_waiters s (pr_Seq resp) of
        None \<Rightarrow> s
      | Some ch \<Rightarrow> if ch = [] then s\<lparr>fs_waiters := (fs_waiters s)(pr_Seq resp \<mapsto> [resp])\<rparr> else s)"

text \<open>The handling of a probe request and of a probe response, the same in \<open>Read\<close> and in \<open>ServeControlLoop\<close>.\<close>

definition answer_request :: "(nat \<Rightarrow> 64 word) \<Rightarrow> byte list \<Rightarrow> frame_stream \<Rightarrow> frame_error option \<times> frame_stream" where
  "answer_request clock payload s =
     (case decodeProbeReq payload of
        Inl e \<Rightarrow> (Some e, s)
      | Inr req \<Rightarrow>
          fs_writeFrame frameTypeProbeResp
            (encodeProbeResp \<lparr>pr_Seq = pq_Seq req, pr_SentUnixNano = pq_SentUnixNano req,
                              pr_RecvUnixNano = clock (fs_ticks s)\<rparr>)
            (s\<lparr>fs_ticks := Suc (fs_ticks s)\<rparr>))"

definition take_response :: "byte list \<Rightarrow> frame_stream \<Rightarrow> frame_error option \<times> frame_stream" where
  "take_response payload s =
     (case decodeProbeResp payload of
        Inl e \<Rightarrow> (Some e, s)
      | Inr resp \<Rightarrow> (None, notifyProbeWaiter resp s))"

lemma readFull_Inr: "readFull n bs = Inr (a, b) \<longleftrightarrow> bs = a @ b \<and> length a = n"
  by (auto simp: readFull_def split: if_splits)

lemma readFrame_shorter: "readFrame bs = Inr (t, p, rest) \<Longrightarrow> length rest < length bs"
  by (auto simp: readFrame_def readFull_Inr split: sum.splits)

lemma fs_writeFrame_in [simp]: "fs_in (snd (fs_writeFrame t p s)) = fs_in s"
  by (auto simp: fs_writeFrame_def split: sum.splits)

lemma answer_request_in: "answer_request clock p s = (r, s') \<Longrightarrow> fs_in s' = fs_in s"
  by (auto simp: answer_request_def dest: arg_cong [where f = "\<lambda>x. fs_in (snd x)"] split: sum.splits)

lemma take_response_in: "take_response p s = (r, s') \<Longrightarrow> fs_in s' = fs_in s"
  by (auto simp: take_response_def notifyProbeWaiter_def split: sum.splits option.splits if_splits)

text \<open>\<open>Read\<close> with a buffer of length \<open>n\<close>. An error of \<open>readFrame\<close> has consumed what was left.\<close>

function fs_Read :: "(nat \<Rightarrow> 64 word) \<Rightarrow> nat \<Rightarrow> frame_stream \<Rightarrow> (frame_error + byte list) \<times> frame_stream" where
  "fs_Read clock n s =
     (if fs_pending s \<noteq> [] then (Inr (take n (fs_pending s)), s\<lparr>fs_pending := drop n (fs_pending s)\<rparr>)
      else
        (case readFrame (fs_in s) of
           Inl e \<Rightarrow> (Inl e, s\<lparr>fs_in := []\<rparr>)
         | Inr (t, payload, rest) \<Rightarrow>
             let s1 = s\<lparr>fs_in := rest\<rparr> in
             if t = frameTypeBusiness then
               (Inr (take n payload), s1\<lparr>fs_pending := drop n payload\<rparr>)
             else if t = frameTypeProbeReq then
               (case answer_request clock payload s1 of
                  (Some e, s2) \<Rightarrow> (Inl e, s2)
                | (None, s2) \<Rightarrow> fs_Read clock n s2)
             else if t = frameTypeProbeResp then
               (case take_response payload s1 of
                  (Some e, s2) \<Rightarrow> (Inl e, s2)
                | (None, s2) \<Rightarrow> fs_Read clock n s2)
             else if t = frameTypeBandwidthDone then
               (if fs_role s = Bandwidth then (Inl FEOF, s1) else (Inl UnexpectedBandwidthDone, s1))
             else (Inl UnknownFrameType, s1)))"
  by pat_completeness auto
termination
  by (relation "measure (\<lambda>(clock, n, s). length (fs_in s))")
    (auto dest!: readFrame_shorter answer_request_in [OF sym] take_response_in [OF sym])

declare fs_Read.simps [simp del]

definition fs_Write :: "byte list \<Rightarrow> frame_stream \<Rightarrow> (frame_error + nat) \<times> frame_stream" where
  "fs_Write p s =
     (if p = [] then (Inr 0, s)
      else (case fs_writeFrame frameTypeBusiness p s of
              (Some e, s') \<Rightarrow> (Inl e, s')
            | (None, s') \<Rightarrow> (Inr (length p), s')))"

definition WriteProbeReq :: "probe_req \<Rightarrow> frame_stream \<Rightarrow> frame_error option \<times> frame_stream" where
  "WriteProbeReq req s = fs_writeFrame frameTypeProbeReq (encodeProbeReq req) s"

definition WriteProbeResp :: "probe_resp \<Rightarrow> frame_stream \<Rightarrow> frame_error option \<times> frame_stream" where
  "WriteProbeResp resp s = fs_writeFrame frameTypeProbeResp (encodeProbeResp resp) s"

definition WriteBandwidthDone :: "frame_stream \<Rightarrow> frame_error option \<times> frame_stream" where
  "WriteBandwidthDone s = fs_writeFrame frameTypeBandwidthDone [] s"

text \<open>
  \<open>Probe\<close> registers a channel, sends the request and blocks until the channel or the timer is
  ready; the reading goroutine fills the channel meanwhile. \<open>probe_begin\<close> is the part before the
  wait, \<open>probe_end\<close> the part after it, with the deferred unregistering. The result is
  \<open>time.Since\<close> of the time stamp that came back, which saturates at the ends of the 64-bit range.
\<close>

definition time_since :: "64 word \<Rightarrow> 64 word \<Rightarrow> 64 word" where
  "time_since now t = word_of_int (max (- (2 ^ 63)) (min (2 ^ 63 - 1) (sint now - sint t)))"

definition probe_begin :: "(nat \<Rightarrow> 64 word) \<Rightarrow> frame_stream \<Rightarrow> (frame_error + 64 word) \<times> frame_stream" where
  "probe_begin clock s =
     (let seq = fs_probeSeq s + 1;
          s1 = s\<lparr>fs_probeSeq := seq, fs_waiters := (fs_waiters s)(seq \<mapsto> []), fs_ticks := Suc (fs_ticks s)\<rparr>
      in (case WriteProbeReq \<lparr>pq_Seq = seq, pq_SentUnixNano = clock (fs_ticks s)\<rparr> s1 of
            (Some e, s2) \<Rightarrow> (Inl e, s2\<lparr>fs_waiters := (fs_waiters s2)(seq := None)\<rparr>)
          | (None, s2) \<Rightarrow> (Inr seq, s2)))"

definition probe_end :: "(nat \<Rightarrow> 64 word) \<Rightarrow> 64 word \<Rightarrow> frame_stream \<Rightarrow> (frame_error + 64 word) \<times> frame_stream" where
  "probe_end clock seq s =
     (let s1 = s\<lparr>fs_waiters := (fs_waiters s)(seq := None)\<rparr> in
      case fs_waiters s seq of
        Some (resp # _) \<Rightarrow>
          if pr_Seq resp \<noteq> seq then (Inl SeqMismatch, s1)
          else (Inr (time_since (clock (fs_ticks s)) (pr_SentUnixNano resp)), s1\<lparr>fs_ticks := Suc (fs_ticks s)\<rparr>)
      | _ \<Rightarrow> (Inl ProbeTimeout, s1))"

text \<open>\<open>ServeControlLoop\<close> serves the probe stream until an error ends it.\<close>

function ServeControlLoop :: "(nat \<Rightarrow> 64 word) \<Rightarrow> frame_stream \<Rightarrow> frame_error \<times> frame_stream" where
  "ServeControlLoop clock s =
     (case readFrame (fs_in s) of
        Inl e \<Rightarrow> (e, s\<lparr>fs_in := []\<rparr>)
      | Inr (t, payload, rest) \<Rightarrow>
          let s1 = s\<lparr>fs_in := rest\<rparr> in
          if t = frameTypeProbeReq then
            (case answer_request clock payload s1 of
               (Some e, s2) \<Rightarrow> (e, s2)
             | (None, s2) \<Rightarrow> ServeControlLoop clock s2)
          else if t = frameTypeProbeResp then
            (case take_response payload s1 of
               (Some e, s2) \<Rightarrow> (e, s2)
             | (None, s2) \<Rightarrow> ServeControlLoop clock s2)
          else if t = frameTypeBusiness then (UnexpectedBusiness, s1)
          else (UnknownFrameType, s1))"
  by pat_completeness auto
termination
  by (relation "measure (\<lambda>(clock, s). length (fs_in s))")
    (auto dest!: readFrame_shorter answer_request_in [OF sym] take_response_in [OF sym])

declare ServeControlLoop.simps [simp del]

section \<open>Library: codecs\<close>

lemma length_put64 [simp]: "length (put64 w) = 8"
  by (simp add: put64_def)

lemma get64_put64 [simp]: "get64 (put64 w) = w"
proof -
  have "unat w < 256 ^ 8" using unsigned_less [of w] by simp
  then show ?thesis by (simp add: get64_def put64_def be_nat_be_bytes)
qed

lemma decode_encode_probe [simp]:
  "decodeProbeReq (encodeProbeReq r) = Inr r" "decodeProbeResp (encodeProbeResp q) = Inr q"
  by (simp_all add: decodeProbeReq_def encodeProbeReq_def decodeProbeResp_def encodeProbeResp_def)

lemma length_encode_probe [simp]:
  "length (encodeProbeReq r) = 16" "length (encodeProbeResp q) = 24"
  by (simp_all add: encodeProbeReq_def encodeProbeResp_def)

lemma length_MaxSegmentSize: "n \<le> MaxSegmentSize \<longleftrightarrow> n < 256 ^ 2"
  by (auto simp: MaxSegmentSize_def)

lemma readFrame_writeFrame: "writeFrame t p = Inr bs \<Longrightarrow> readFrame (bs @ rest) = Inr (t, p, rest)"
proof -
  assume w: "writeFrame t p = Inr bs"
  then have le: "length p < 256 ^ 2" and bs: "bs = t # be_bytes 2 (length p) @ p"
    by (auto simp: writeFrame_def MaxSegmentSize_def split: if_splits)
  have "readFull 3 (bs @ rest) = Inr (t # be_bytes 2 (length p), p @ rest)"
    by (simp add: readFull_Inr bs)
  then show ?thesis using be_nat_be_bytes [OF le] by (simp add: readFrame_def readFull_def)
qed

lemma writeFrame_readFrame:
  assumes "readFrame bs = Inr (t, p, rest)"
  shows "\<exists>w. writeFrame t p = Inr w \<and> bs = w @ rest"
proof -
  obtain h r1 where h: "readFull 3 bs = Inr (h, r1)" "readFull (be_nat (drop 1 h)) r1 = Inr (p, rest)" "t = h ! 0"
    using assms by (auto simp: readFrame_def split: sum.splits)
  then have l: "length h = 3" and p: "length p = be_nat (drop 1 h)" and bs: "bs = h @ p @ rest"
    by (auto simp: readFull_Inr)
  have lt: "be_nat (drop 1 h) < 256 ^ 2" using be_nat_bound [of "drop 1 h"] l by simp
  have "be_bytes 2 (be_nat (drop 1 h)) = drop 1 h"
    using be_bytes_be_nat [of "drop 1 h"] l by simp
  moreover have "h = h ! 0 # drop 1 h" using l by (cases h) auto
  ultimately have "writeFrame t p = Inr (h @ p)"
    using lt p h(3) by (simp add: writeFrame_def MaxSegmentSize_def del: be_bytes.simps)
  then show ?thesis using bs by simp
qed

section \<open>Library: the stream as a byte queue\<close>

text \<open>
  The frames that are complete in the incoming bytes, and the business bytes they carry. A stream
  is well formed when its frames are those the peer's \<open>Write\<close>, \<open>WriteProbeReq\<close> and
  \<open>WriteProbeResp\<close> produce and probe answers can be written.
\<close>

function parse_frames :: "byte list \<Rightarrow> (byte \<times> byte list) list" where
  "parse_frames bs =
     (case readFrame bs of
        Inl e \<Rightarrow> []
      | Inr (t, p, rest) \<Rightarrow> (t, p) # parse_frames rest)"
  by pat_completeness auto
termination
  by (relation "measure length") (auto dest!: readFrame_shorter)

declare parse_frames.simps [simp del]

definition business_bytes :: "(byte \<times> byte list) list \<Rightarrow> byte list" where
  "business_bytes items = concat (map snd (filter (\<lambda>x. fst x = frameTypeBusiness) items))"

definition ok_frame :: "byte \<times> byte list \<Rightarrow> bool" where
  "ok_frame x \<longleftrightarrow>
     fst x = frameTypeBusiness \<and> snd x \<noteq> [] \<or>
     fst x = frameTypeProbeReq \<and> length (snd x) = 16 \<or>
     fst x = frameTypeProbeResp \<and> length (snd x) = 24"

definition fs_content :: "frame_stream \<Rightarrow> byte list" where
  "fs_content s = fs_pending s @ business_bytes (parse_frames (fs_in s))"

definition fs_ok :: "frame_stream \<Rightarrow> bool" where
  "fs_ok s \<longleftrightarrow> \<not> fs_broken s \<and> list_all ok_frame (parse_frames (fs_in s))"

definition wire :: "byte \<times> byte list \<Rightarrow> byte list" where
  "wire x = [fst x] @ be_bytes 2 (length (snd x)) @ snd x"

lemma business_bytes_simps [simp]:
  "business_bytes [] = []"
  "business_bytes (x # xs) = (if fst x = frameTypeBusiness then snd x else []) @ business_bytes xs"
  by (simp_all add: business_bytes_def)

lemma parse_frames_read:
  "readFrame bs = Inr (t, p, rest) \<Longrightarrow> parse_frames bs = (t, p) # parse_frames rest"
  "readFrame bs = Inl e \<Longrightarrow> parse_frames bs = []"
  by (simp_all add: parse_frames.simps [of bs])

lemma parse_frames_wire:
  "\<forall>x\<in>set items. length (snd x) \<le> MaxSegmentSize \<Longrightarrow> parse_frames (concat (map wire items)) = items"
proof (induction items)
  case Nil
  show ?case by (simp add: parse_frames.simps [of "[]"] readFrame_def readFull_def)
next
  case (Cons x xs)
  have "writeFrame (fst x) (snd x) = Inr (wire x)"
    using Cons.prems by (simp add: writeFrame_def wire_def del: be_bytes.simps)
  from readFrame_writeFrame [OF this, of "concat (map wire xs)"] Cons show ?case
    by (simp add: parse_frames_read)
qed

lemma answer_request_ok:
  assumes "\<not> fs_broken s" "length p = 16"
  shows "\<exists>s'. answer_request clock p s = (None, s') \<and> fs_in s' = fs_in s \<and> fs_broken s' = fs_broken s \<and>
               fs_pending s' = fs_pending s \<and> fs_role s' = fs_role s"
  using assms by (simp add: answer_request_def decodeProbeReq_def fs_writeFrame_def writeFrame_def
      MaxSegmentSize_def del: be_bytes.simps)

lemma take_response_ok:
  assumes "length p = 24"
  shows "\<exists>s'. take_response p s = (None, s') \<and> fs_in s' = fs_in s \<and> fs_broken s' = fs_broken s \<and>
               fs_pending s' = fs_pending s \<and> fs_role s' = fs_role s"
  using assms by (auto simp: take_response_def decodeProbeResp_def notifyProbeWaiter_def split: option.splits)

text \<open>A probe frame at the head is served and the read goes on with the next frame.\<close>

lemma fs_Read_control:
  assumes "fs_ok s" "fs_pending s = []" "readFrame (fs_in s) = Inr (t, p, rest)" "t \<noteq> frameTypeBusiness"
  shows "\<exists>s'. fs_Read clock n s = fs_Read clock n s' \<and> fs_ok s' \<and> fs_pending s' = [] \<and> fs_in s' = rest \<and>
              fs_content s' = fs_content s"
proof -
  have fr: "parse_frames (fs_in s) = (t, p) # parse_frames rest" using assms(3) by (rule parse_frames_read)
  then have okf: "ok_frame (t, p)" "list_all ok_frame (parse_frames rest)" "\<not> fs_broken s"
    using assms(1) by (auto simp: fs_ok_def)
  let ?s1 = "s\<lparr>fs_in := rest\<rparr>"
  consider "t = frameTypeProbeReq" "length p = 16" | "t = frameTypeProbeResp" "length p = 24"
    using okf assms(4) by (auto simp: ok_frame_def)
  then obtain s' where s': "fs_Read clock n s = fs_Read clock n s'" "fs_in s' = rest"
    "fs_broken s' = fs_broken s" "fs_pending s' = fs_pending s"
  proof cases
    case 1
    obtain s' where "answer_request clock p ?s1 = (None, s')" "fs_in s' = rest"
      "fs_broken s' = fs_broken s" "fs_pending s' = fs_pending s"
      using answer_request_ok [of ?s1 p clock] 1 okf by auto
    then show thesis using that [of s'] 1 assms by (simp add: fs_Read.simps [of clock n s] frame_types)
  next
    case 2
    obtain s' where "take_response p ?s1 = (None, s')" "fs_in s' = rest"
      "fs_broken s' = fs_broken s" "fs_pending s' = fs_pending s"
      using take_response_ok [of p ?s1] 2 by auto
    then show thesis using that [of s'] 2 assms by (simp add: fs_Read.simps [of clock n s] frame_types)
  qed
  have "fs_ok s'" using s' okf by (simp add: fs_ok_def)
  moreover have "fs_content s' = fs_content s" using s' fr assms(2,4) by (simp add: fs_content_def)
  ultimately show ?thesis using s' assms(2) by auto
qed

lemma fs_Read_pending:
  assumes "fs_ok s" "0 < n" "fs_pending s \<noteq> []"
  shows "\<exists>bs s'. fs_Read clock n s = (Inr bs, s') \<and> bs \<noteq> [] \<and> length bs \<le> n \<and> fs_ok s' \<and>
                 fs_content s = bs @ fs_content s'"
  using assms by (simp add: fs_Read.simps [of clock n s] fs_content_def fs_ok_def)

lemma fs_Read_business:
  assumes "fs_ok s" "0 < n" "fs_pending s = []" "readFrame (fs_in s) = Inr (frameTypeBusiness, p, rest)"
  shows "\<exists>bs s'. fs_Read clock n s = (Inr bs, s') \<and> bs \<noteq> [] \<and> length bs \<le> n \<and> fs_ok s' \<and>
                 fs_content s = bs @ fs_content s'"
proof -
  have fr: "parse_frames (fs_in s) = (frameTypeBusiness, p) # parse_frames rest"
    using assms(4) by (rule parse_frames_read)
  then have "p \<noteq> []" using assms(1) by (auto simp: fs_ok_def ok_frame_def frame_types)
  then show ?thesis using assms fr
    by (simp add: fs_Read.simps [of clock n s] fs_content_def fs_ok_def)
qed

lemma fs_Read_some:
  assumes "fs_ok s" "0 < n" "fs_content s \<noteq> []"
  shows "\<exists>bs s'. fs_Read clock n s = (Inr bs, s') \<and> bs \<noteq> [] \<and> length bs \<le> n \<and> fs_ok s' \<and>
                 fs_content s = bs @ fs_content s'"
  using assms
proof (induction "length (fs_in s)" arbitrary: s rule: less_induct)
  case less
  show ?case
  proof (cases "fs_pending s = []")
    case False
    then show ?thesis using fs_Read_pending less.prems by blast
  next
    case True
    show ?thesis
    proof (cases "readFrame (fs_in s)")
      case (Inl e)
      then show ?thesis using less.prems True by (simp add: fs_content_def parse_frames_read)
    next
      case (Inr x)
      obtain t p rest where x: "readFrame (fs_in s) = Inr (t, p, rest)" using Inr by (cases x) auto
      show ?thesis
      proof (cases "t = frameTypeBusiness")
        case bus: True
        then show ?thesis using fs_Read_business less.prems True x by blast
      next
        case False
        then obtain s' where s': "fs_Read clock n s = fs_Read clock n s'" "fs_ok s'" "fs_in s' = rest"
          "fs_content s' = fs_content s"
          using fs_Read_control [OF less.prems(1) True x] by blast
        then have "length (fs_in s') < length (fs_in s)" using readFrame_shorter [OF x] by simp
        then show ?thesis using less.hyps [of s'] less.prems s' by simp
      qed
    qed
  qed
qed

lemma fs_Read_end:
  assumes "fs_ok s" "fs_content s = []"
  shows "\<exists>e s'. fs_Read clock n s = (Inl e, s') \<and> fs_ok s' \<and> fs_content s' = []"
  using assms
proof (induction "length (fs_in s)" arbitrary: s rule: less_induct)
  case less
  have pend: "fs_pending s = []" using less.prems by (simp add: fs_content_def)
  show ?case
  proof (cases "readFrame (fs_in s)")
    case (Inl e)
    have "readFrame [] = Inl FEOF" by (simp add: readFrame_def readFull_def)
    then show ?thesis using less.prems pend Inl
      by (simp add: fs_Read.simps [of clock n s] fs_ok_def fs_content_def parse_frames_read)
  next
    case (Inr x)
    obtain t p rest where x: "readFrame (fs_in s) = Inr (t, p, rest)" using Inr by (cases x) auto
    have "t \<noteq> frameTypeBusiness"
      using less.prems parse_frames_read(1) [OF x] by (auto simp: fs_content_def fs_ok_def ok_frame_def frame_types)
    then obtain s' where s': "fs_Read clock n s = fs_Read clock n s'" "fs_ok s'" "fs_in s' = rest"
      "fs_content s' = fs_content s"
      using fs_Read_control [OF less.prems(1) pend x] by blast
    then have "length (fs_in s') < length (fs_in s)" using readFrame_shorter [OF x] by simp
    then show ?thesis using less.hyps [of s'] less.prems s' by simp
  qed
qed

interpretation frame_source: byte_source "fs_Read clock" fs_content fs_ok
  using fs_Read_some fs_Read_end by unfold_locales blast+

section \<open>Library: probes\<close>

definition waiters_ok :: "frame_stream \<Rightarrow> bool" where
  "waiters_ok s \<longleftrightarrow> (\<forall>seq ch. fs_waiters s seq = Some ch \<longrightarrow> length ch \<le> 1 \<and> (\<forall>r\<in>set ch. pr_Seq r = seq))"

inductive fs_steps :: "(nat \<Rightarrow> 64 word) \<Rightarrow> frame_stream \<Rightarrow> frame_stream \<Rightarrow> bool" for clock where
  stop: "fs_steps clock s s"
| read: "fs_steps clock s t \<Longrightarrow> fs_steps clock s (snd (fs_Read clock n t))"
| serve: "fs_steps clock s t \<Longrightarrow> fs_steps clock s (snd (ServeControlLoop clock t))"
| writing: "fs_steps clock s t \<Longrightarrow> fs_steps clock s (snd (fs_Write p t))"
| arrive: "fs_steps clock s t \<Longrightarrow> fs_steps clock s (t\<lparr>fs_in := fs_in t @ bs\<rparr>)"
| probing: "fs_steps clock s t \<Longrightarrow> fs_steps clock s (snd (probe_begin clock t))"
| probed: "fs_steps clock s t \<Longrightarrow> fs_steps clock s (snd (probe_end clock seq t))"

lemma fs_writeFrame_waiters [simp]: "fs_waiters (snd (fs_writeFrame t p s)) = fs_waiters s"
  by (auto simp: fs_writeFrame_def split: sum.splits)

lemma fs_Write_waiters [simp]: "fs_waiters (snd (fs_Write p s)) = fs_waiters s"
proof -
  obtain e s' where "fs_writeFrame frameTypeBusiness p s = (e, s')" by force
  then show ?thesis using fs_writeFrame_waiters [of frameTypeBusiness p s]
    by (cases e) (simp_all add: fs_Write_def)
qed

lemma waiters_ok_cong: "fs_waiters t = fs_waiters s \<Longrightarrow> waiters_ok s \<Longrightarrow> waiters_ok t"
  by (simp add: waiters_ok_def)

lemma waiters_ok_register: "fs_waiters t = (fs_waiters s)(q \<mapsto> []) \<Longrightarrow> waiters_ok s \<Longrightarrow> waiters_ok t"
  by (simp add: waiters_ok_def)

lemma waiters_ok_unregister: "fs_waiters t = (fs_waiters s)(q := None) \<Longrightarrow> waiters_ok s \<Longrightarrow> waiters_ok t"
  by (simp add: waiters_ok_def)

lemma answer_request_waiters: "answer_request clock p s = (r, s') \<Longrightarrow> fs_waiters s' = fs_waiters s"
  by (auto simp: answer_request_def dest: arg_cong [where f = "\<lambda>x. fs_waiters (snd x)"] split: sum.splits)

lemma take_response_waiters: "take_response p s = (r, s') \<Longrightarrow> waiters_ok s \<Longrightarrow> waiters_ok s'"
  by (auto simp: take_response_def notifyProbeWaiter_def waiters_ok_def split: sum.splits option.splits if_splits)

lemma fs_Read_waiters: "waiters_ok s \<Longrightarrow> waiters_ok (snd (fs_Read clock n s))"
proof (induction clock n s rule: fs_Read.induct)
  case (1 clock n s)
  show ?case
  proof (cases "fs_pending s = [] \<and> (\<exists>t p r. readFrame (fs_in s) = Inr (t, p, r))")
    case False
    then show ?thesis using waiters_ok_cong [OF _ "1.prems"]
      by (auto simp: fs_Read.simps [of clock n s] split: sum.splits)
  next
    case True
    then obtain t p r where f: "fs_pending s = []" "readFrame (fs_in s) = Inr (t, p, r)" by blast
    let ?s1 = "s\<lparr>fs_in := r\<rparr>"
    obtain ea sa where a: "answer_request clock p ?s1 = (ea, sa)" by force
    obtain et st where t: "take_response p ?s1 = (et, st)" by force
    have w: "waiters_ok ?s1" "waiters_ok (?s1\<lparr>fs_pending := x\<rparr>)" for x
      using waiters_ok_cong [OF _ "1.prems"] by simp_all
    have wa: "waiters_ok sa" using waiters_ok_cong [OF answer_request_waiters [OF a] w(1)] .
    have wt: "waiters_ok st" using take_response_waiters [OF t w(1)] .
    note ih = "1.IH"(1) [OF _ f(2) refl refl refl] "1.IH"(2) [OF _ f(2) refl refl refl]
    show ?thesis using f w wa wt ih a t
      by (cases ea; cases et) (simp_all add: fs_Read.simps [of clock n s] Let_def)
  qed
qed

lemma ServeControlLoop_waiters: "waiters_ok s \<Longrightarrow> waiters_ok (snd (ServeControlLoop clock s))"
proof (induction clock s rule: ServeControlLoop.induct)
  case (1 clock s)
  show ?case
  proof (cases "\<exists>t p r. readFrame (fs_in s) = Inr (t, p, r)")
    case False
    then show ?thesis using waiters_ok_cong [OF _ "1.prems"]
      by (auto simp: ServeControlLoop.simps [of clock s] split: sum.splits)
  next
    case True
    then obtain t p r where f: "readFrame (fs_in s) = Inr (t, p, r)" by blast
    let ?s1 = "s\<lparr>fs_in := r\<rparr>"
    obtain ea sa where a: "answer_request clock p ?s1 = (ea, sa)" by force
    obtain et st where t: "take_response p ?s1 = (et, st)" by force
    have w: "waiters_ok ?s1" using waiters_ok_cong [OF _ "1.prems"] by simp
    have wa: "waiters_ok sa" using waiters_ok_cong [OF answer_request_waiters [OF a] w] .
    have wt: "waiters_ok st" using take_response_waiters [OF t w] .
    note ih = "1.IH"(1) [OF f refl refl refl] "1.IH"(2) [OF f refl refl refl]
    show ?thesis using f w wa wt ih a t
      by (cases ea; cases et) (simp_all add: ServeControlLoop.simps [of clock s] Let_def)
  qed
qed

lemma probe_begin_waiters: "waiters_ok s \<Longrightarrow> waiters_ok (snd (probe_begin clock s))"
proof -
  assume w: "waiters_ok s"
  let ?q = "fs_probeSeq s + 1"
  let ?s1 = "s\<lparr>fs_probeSeq := ?q, fs_waiters := (fs_waiters s)(?q \<mapsto> []), fs_ticks := Suc (fs_ticks s)\<rparr>"
  let ?m = "\<lparr>pq_Seq = ?q, pq_SentUnixNano = clock (fs_ticks s)\<rparr>"
  obtain e s2 where e: "WriteProbeReq ?m ?s1 = (e, s2)" by force
  then have eq: "fs_waiters s2 = (fs_waiters s)(?q \<mapsto> [])"
    using fs_writeFrame_waiters [of frameTypeProbeReq "encodeProbeReq ?m" ?s1] by (simp add: WriteProbeReq_def)
  have "waiters_ok s2" using waiters_ok_register [OF eq w] .
  moreover have "waiters_ok (s2\<lparr>fs_waiters := (fs_waiters s2)(?q := None)\<rparr>)"
    by (rule waiters_ok_unregister [OF _ calculation]) simp
  ultimately show ?thesis using e by (cases e) (simp_all add: probe_begin_def Let_def)
qed

lemma probe_end_waiters: "waiters_ok s \<Longrightarrow> waiters_ok (snd (probe_end clock seq s))"
  using waiters_ok_unregister [of _ s seq]
  by (simp add: probe_end_def Let_def split: option.splits list.splits)

lemma fs_steps_waiters:
  assumes "fs_steps clock s t" "waiters_ok s"
  shows "waiters_ok t"
  using assms
proof (induction rule: fs_steps.induct)
  case (writing t p)
  show ?case by (rule waiters_ok_cong [OF fs_Write_waiters writing.IH [OF writing.prems]])
next
  case (arrive t bs)
  show ?case by (rule waiters_ok_cong [OF _ arrive.IH [OF arrive.prems]]) simp
qed (auto intro: fs_Read_waiters ServeControlLoop_waiters probe_begin_waiters probe_end_waiters)

lemma waiters_ok_new: "waiters_ok (NewFrameStream bs role)"
  by (simp add: waiters_ok_def NewFrameStream_def)

lemma answer_request_wire:
  assumes "\<not> fs_broken s"
  shows "answer_request clock (encodeProbeReq q) s =
    (None, s\<lparr>fs_out := fs_out s @ wire (frameTypeProbeResp, encodeProbeResp
        \<lparr>pr_Seq = pq_Seq q, pr_SentUnixNano = pq_SentUnixNano q, pr_RecvUnixNano = clock (fs_ticks s)\<rparr>),
      fs_ticks := Suc (fs_ticks s)\<rparr>)"
  using assms by (simp add: answer_request_def fs_writeFrame_def writeFrame_def wire_def MaxSegmentSize_def
      del: be_bytes.simps)

lemma readFrame_wire: "length p \<le> MaxSegmentSize \<Longrightarrow> readFrame (wire (t, p) @ rest) = Inr (t, p, rest)"
  using readFrame_writeFrame [of t p "wire (t, p)" rest]
  by (simp add: writeFrame_def wire_def del: be_bytes.simps)

definition reply_to :: "(nat \<Rightarrow> 64 word) \<Rightarrow> nat \<times> probe_req \<Rightarrow> byte list" where
  "reply_to clock x = wire (frameTypeProbeResp, encodeProbeResp
     \<lparr>pr_Seq = pq_Seq (snd x), pr_SentUnixNano = pq_SentUnixNano (snd x), pr_RecvUnixNano = clock (fst x)\<rparr>)"

lemma serve_requests:
  assumes "\<not> fs_broken s" "fs_in s = concat (map (\<lambda>q. wire (frameTypeProbeReq, encodeProbeReq q)) qs)"
  shows "ServeControlLoop clock s =
    (FEOF, s\<lparr>fs_in := [], fs_out := fs_out s @ concat (map (reply_to clock) (enumerate (fs_ticks s) qs)),
            fs_ticks := fs_ticks s + length qs\<rparr>)"
  using assms
proof (induction qs arbitrary: s)
  case Nil
  then show ?case by (simp add: ServeControlLoop.simps [of clock s] readFrame_def readFull_def)
next
  case (Cons q qs)
  let ?rest = "concat (map (\<lambda>q. wire (frameTypeProbeReq, encodeProbeReq q)) qs)"
  have r: "readFrame (fs_in s) = Inr (frameTypeProbeReq, encodeProbeReq q, ?rest)"
    using Cons.prems(2) readFrame_wire [of "encodeProbeReq q" frameTypeProbeReq ?rest]
    by (simp add: MaxSegmentSize_def)
  show ?case
    using Cons.prems(1) Cons.IH [of "s\<lparr>fs_in := ?rest, fs_out := fs_out s @ reply_to clock (fs_ticks s, q),
        fs_ticks := Suc (fs_ticks s)\<rparr>"]
    by (simp add: ServeControlLoop.simps [of clock s] r answer_request_wire reply_to_def Let_def)
qed

section \<open>Properties\<close>

text \<open>
  Framing is a bijection between frames whose payload fits and the byte strings that start
  with a complete frame: what \<open>writeFrame\<close> emits \<open>readFrame\<close> reads back, whatever follows; what
  \<open>readFrame\<close> accepts is what \<open>writeFrame\<close> would have emitted; and exactly the payloads longer
  than 65535 bytes, which the 16-bit length cannot express, are refused.
\<close>

theorem frame_codec:
  "(writeFrame t p = Inl PayloadTooLarge \<longleftrightarrow> 65535 < length p) \<and>
   (length p \<le> 65535 \<longrightarrow> (\<exists>bs. writeFrame t p = Inr bs \<and> readFrame (bs @ rest) = Inr (t, p, rest))) \<and>
   (readFrame bs = Inr (t, p, rest) \<longrightarrow> (\<exists>w. writeFrame t p = Inr w \<and> bs = w @ rest))"
  using writeFrame_readFrame [of bs t p rest] readFrame_writeFrame [of t p _ rest]
  by (auto simp: writeFrame_def MaxSegmentSize_def simp del: be_bytes.simps)

theorem frame_codec_witness:
  "\<exists>bs. writeFrame 0 [1, 2, 3] = Inr bs \<and> readFrame (bs @ [9]) = Inr (0, [1, 2, 3], [9])"
  using frame_codec [of 0 "[1, 2, 3]" "[9]" "[]"] by simp

text \<open>
  C19: The frame stream is transparent to business data. Whatever business chunks the peer writes,
  with probe requests and responses between them, and whatever buffer lengths the reader uses,
  the reader gets the chunks' bytes in order, none lost and none added; once it has made as many
  reads as there are bytes it has all of them.
\<close>

theorem frame_stream_delivers:
  assumes "\<forall>x\<in>set items. ok_frame x \<and> length (snd x) \<le> MaxSegmentSize"
    and "\<forall>n\<in>set ns. 0 < n"
  shows "let got = fst (pull (fs_Read clock) ns (NewFrameStream (concat (map wire items)) role)) in
         (\<exists>later. business_bytes items = got @ later) \<and>
         (length (business_bytes items) \<le> length ns \<longrightarrow> got = business_bytes items)"
proof -
  let ?s = "NewFrameStream (concat (map wire items)) role"
  have p: "parse_frames (fs_in ?s) = items"
    using assms(1) by (simp add: NewFrameStream_def parse_frames_wire)
  then have ok: "fs_ok ?s" using assms(1) by (simp add: fs_ok_def list_all_iff NewFrameStream_def)
  have c: "fs_content ?s = business_bytes items" using p by (simp add: fs_content_def NewFrameStream_def)
  have "\<exists>later. business_bytes items = fst (pull (fs_Read clock) ns ?s) @ later"
    using frame_source.pull_prefix [OF ok assms(2), of clock] c by metis
  moreover have "length (business_bytes items) \<le> length ns \<Longrightarrow> fst (pull (fs_Read clock) ns ?s) = business_bytes items"
    using frame_source.pull_all [OF ok assms(2), of clock] c by simp
  ultimately show ?thesis by (simp add: Let_def)
qed

theorem frame_stream_delivers_witness:
  "fst (pull (fs_Read (\<lambda>_. 7)) [1, 4, 4] (NewFrameStream
      (concat (map wire [(0, [10, 11]), (1, replicate 16 0), (0, [12])])) Business)) = [10, 11, 12]"
proof -
  let ?items = "[(0, [10, 11]), (1, replicate 16 0), (0, [12])] :: (byte \<times> byte list) list"
  have a: "\<forall>x\<in>set ?items. ok_frame x \<and> length (snd x) \<le> MaxSegmentSize"
    by (simp add: ok_frame_def frame_types MaxSegmentSize_def)
  have n: "\<forall>n\<in>set [1, 4, 4]. 0 < (n::nat)" by simp
  have b: "business_bytes ?items = [10, 11, 12]" by (simp add: frame_types)
  have "length (business_bytes ?items) \<le> length [1, 4, 4 :: nat]" using b by (simp only: list.size)
  then show ?thesis
    using frame_stream_delivers [OF a n, of "\<lambda>_. 7" Business] unfolding Let_def b by blast
qed

text \<open>
  The handshake round trip: the reader recovers the role the writer sent and leaves the
  following bytes untouched, and it accepts nothing else, so a stream that does not start with
  the magic, version 1 and a known role is refused.
\<close>

theorem handshake_roundtrip:
  "readStreamHandshake (writeStreamHandshake role @ rest) = Inr (role, rest) \<and>
   (readStreamHandshake bs = Inr (role, rest) \<longrightarrow> bs = writeStreamHandshake role @ rest)"
proof
  show "readStreamHandshake (writeStreamHandshake role @ rest) = Inr (role, rest)"
    by (cases role) (simp_all add: readStreamHandshake_def writeStreamHandshake_def readFull_def
        streamHandshakeMagic_def)
next
  show "readStreamHandshake bs = Inr (role, rest) \<longrightarrow> bs = writeStreamHandshake role @ rest"
  proof
    assume r: "readStreamHandshake bs = Inr (role, rest)"
    then obtain buf where buf: "bs = buf @ rest" "length buf = 6" "take 4 buf = streamHandshakeMagic"
      "buf ! 4 = 1" "buf ! 5 = role_byte role"
      by (auto simp: readStreamHandshake_def readFull_Inr split: sum.splits if_splits)
    have "drop 4 buf = [buf ! 4, buf ! 5]"
      using buf(2) by (metis Cons_nth_drop_Suc One_nat_def Suc_1 add_2_eq_Suc' drop_all eval_nat_numeral(2,3)
          lessI less_Suc_eq numeral_2_eq_2 order_refl semiring_norm(28))
    then have "buf = streamHandshakeMagic @ [1, role_byte role]"
      using buf append_take_drop_id [of 4 buf] by simp
    then show "bs = writeStreamHandshake role @ rest" using buf(1) by (simp add: writeStreamHandshake_def)
  qed
qed

theorem handshake_roundtrip_witness:
  "readStreamHandshake (writeStreamHandshake Probe @ [5]) = Inr (Probe, [5])"
  using handshake_roundtrip [of Probe "[5]" "[]"] by simp

text \<open>
  The probe server answers every request, in order, echoing its sequence number and send
  time with the time of receipt, and ends with EOF when the peer is done.
\<close>

theorem serve_answers_all:
  assumes "\<not> fs_broken s" and "fs_in s = concat (map (\<lambda>q. wire (frameTypeProbeReq, encodeProbeReq q)) qs)"
  shows "fst (ServeControlLoop clock s) = FEOF \<and>
         fs_out (snd (ServeControlLoop clock s)) =
           fs_out s @ concat (map (reply_to clock) (enumerate (fs_ticks s) qs))"
  using serve_requests [OF assms] by simp

theorem serve_answers_all_witness:
  "fs_out (snd (ServeControlLoop (\<lambda>_. 9) (NewFrameStream
      (wire (frameTypeProbeReq, encodeProbeReq \<lparr>pq_Seq = 1, pq_SentUnixNano = 2\<rparr>)) Probe))) =
   wire (frameTypeProbeResp, encodeProbeResp \<lparr>pr_Seq = 1, pr_SentUnixNano = 2, pr_RecvUnixNano = 9\<rparr>)"
proof -
  let ?s = "NewFrameStream (wire (frameTypeProbeReq, encodeProbeReq \<lparr>pq_Seq = 1, pq_SentUnixNano = 2\<rparr>)) Probe"
  have "\<not> fs_broken ?s" "fs_in ?s = concat (map (\<lambda>q. wire (frameTypeProbeReq, encodeProbeReq q))
      [\<lparr>pq_Seq = 1, pq_SentUnixNano = 2\<rparr>])" by (simp_all add: NewFrameStream_def)
  from serve_answers_all [OF this, of "\<lambda>_. 9"] show ?thesis
    by (simp add: reply_to_def NewFrameStream_def del: be_bytes.simps)
qed

text \<open>
  C20: A probe is never credited with another probe's answer: however reading, serving, writing,
  arriving bytes and probes interleave on a stream, waiting for sequence number \<open>seq\<close> ends with
  the answer to \<open>seq\<close> or with a timeout; the error \<open>probe sequence mismatch\<close> cannot occur.
\<close>

theorem probe_no_mismatch:
  assumes "fs_steps clock (NewFrameStream bs role) s"
  shows "fst (probe_end clock seq s) \<noteq> Inl SeqMismatch"
proof -
  have "waiters_ok s" using fs_steps_waiters [OF assms waiters_ok_new] .
  then have "fs_waiters s seq = Some (r # ch) \<Longrightarrow> pr_Seq r = seq" for r ch
    unfolding waiters_ok_def by fastforce
  then show ?thesis by (auto simp: probe_end_def Let_def split: option.splits list.splits)
qed

theorem probe_no_mismatch_witness:
  "fst (probe_end (\<lambda>_. 5) 1 (snd (probe_begin (\<lambda>_. 3) (NewFrameStream [] Probe)))) \<noteq> Inl SeqMismatch"
proof -
  have "fs_steps (\<lambda>_. 3) (NewFrameStream [] Probe) (snd (probe_begin (\<lambda>_. 3) (NewFrameStream [] Probe)))"
    by (intro fs_steps.intros)
  from probe_no_mismatch [OF this, of 1] show ?thesis
    by (auto simp: probe_end_def Let_def split: option.splits list.splits if_splits)
qed

end
