(* ===== verification/Gcm.thy ===== *)
theory Gcm
  imports Frame Endpoint
begin

unbundle bit_operations_syntax

text \<open>
  The cipher layer: \<open>src/pkg/crypto/gcm.go\<close>, \<open>src/pkg/crypto/crypto.go\<close>, the key derivation of
  \<open>src/pkg/util/util.go\<close> and the layering of \<open>src/tun/crypto_helper.go\<close>. The AEAD
  (\<open>crypto/cipher\<close>), MD5 and the random nonces are parameters; \<open>aead_ok\<close> states what the
  documentation of \<open>cipher.AEAD\<close> promises.
\<close>

section \<open>The AEAD interface\<close>

record aead =
  NonceSize :: nat
  Overhead :: nat
  Seal :: "byte list \<Rightarrow> byte list \<Rightarrow> byte list"
  Open :: "byte list \<Rightarrow> byte list \<Rightarrow> byte list option"

definition aead_ok :: "aead \<Rightarrow> bool" where
  "aead_ok a \<longleftrightarrow>
     (\<forall>n p. length (Seal a n p) = length p + Overhead a) \<and>
     (\<forall>n p. length n = NonceSize a \<longrightarrow> Open a n (Seal a n p) = Some p) \<and>
     (\<forall>n c p. Open a n c = Some p \<longrightarrow> length c = length p + Overhead a)"

section \<open>Writer and reader\<close>

datatype gcm_error = GcmTooLarge | GcmEOF | GcmUnexpectedEOF | GcmAuth | GcmUnknownMode | GcmKeyLength

definition size_bytes :: "nat \<Rightarrow> byte list" where
  "size_bytes n = be_bytes 2 n"

text \<open>
  \<open>writer.Write\<close>: the number of bytes reported and the bytes handed to the writer below, for the
  nonce that \<open>rand.Read\<close> delivers. Both seals use this nonce.
\<close>

definition gcm_Write :: "aead \<Rightarrow> byte list \<Rightarrow> byte list \<Rightarrow> gcm_error + nat \<times> byte list" where
  "gcm_Write a nonce b =
     (if MaxSegmentSize < length b then Inl GcmTooLarge
      else if b = [] then Inr (0, [])
      else Inr (length b, nonce @ Seal a nonce (size_bytes (length b)) @ Seal a nonce b))"

definition gcm_full :: "nat \<Rightarrow> byte list \<Rightarrow> gcm_error + byte list \<times> byte list" where
  "gcm_full n bs =
     (if n \<le> length bs then Inr (take n bs, drop n bs)
      else Inl (if bs = [] then GcmEOF else GcmUnexpectedEOF))"

text \<open>
  \<open>reader.read\<close>: one segment, or the error that ended it, and the bytes left in the reader below.
  A short \<open>io.ReadFull\<close> has consumed everything; a segment that does not open leaves what follows.
\<close>

definition gcm_read :: "aead \<Rightarrow> byte list \<Rightarrow> (gcm_error + byte list) \<times> byte list" where
  "gcm_read a bs =
     (case gcm_full (NonceSize a) bs of
        Inl e \<Rightarrow> (Inl e, [])
      | Inr (nonce, bs1) \<Rightarrow>
          (case gcm_full (2 + Overhead a) bs1 of
             Inl e \<Rightarrow> (Inl e, [])
           | Inr (buf, bs2) \<Rightarrow>
               (case Open a nonce buf of
                  None \<Rightarrow> (Inl GcmAuth, bs2)
                | Some sz \<Rightarrow>
                    let size = be_nat (take 2 sz) in
                    if MaxSegmentSize < size then (Inl GcmTooLarge, bs2)
                    else (case gcm_full (size + Overhead a) bs2 of
                            Inl e \<Rightarrow> (Inl e, [])
                          | Inr (buf2, bs3) \<Rightarrow>
                              (case Open a nonce buf2 of
                                 None \<Rightarrow> (Inl GcmAuth, bs3)
                               | Some data \<Rightarrow> (Inr (take size data), bs3))))))"

record gcm_reader =
  g_in :: "byte list"
  g_leftover :: "byte list"

definition gcm_Read :: "aead \<Rightarrow> nat \<Rightarrow> gcm_reader \<Rightarrow> (gcm_error + byte list) \<times> gcm_reader" where
  "gcm_Read a n r =
     (if g_leftover r \<noteq> [] then (Inr (take n (g_leftover r)), r\<lparr>g_leftover := drop n (g_leftover r)\<rparr>)
      else (case gcm_read a (g_in r) of
              (Inl e, rest) \<Rightarrow> (Inl e, r\<lparr>g_in := rest\<rparr>)
            | (Inr data, rest) \<Rightarrow> (Inr (take n data), r\<lparr>g_in := rest, g_leftover := drop n data\<rparr>)))"

section \<open>Key derivation\<close>

text \<open>\<open>StringToAesKey\<close>: chained MD5 digests. The loop carries fuel.\<close>

fun aes_key_loop :: "(byte list \<Rightarrow> byte list) \<Rightarrow> byte list \<Rightarrow> nat \<Rightarrow> nat \<Rightarrow> byte list \<Rightarrow> byte list \<Rightarrow> byte list option" where
  "aes_key_loop md5 password keyLen fuel b prev =
     (if keyLen \<le> length b then Some (take keyLen b)
      else (case fuel of
              0 \<Rightarrow> None
            | Suc f \<Rightarrow> let d = md5 (prev @ password) in aes_key_loop md5 password keyLen f (b @ d) d))"

declare aes_key_loop.simps [simp del]

definition StringToAesKey :: "(byte list \<Rightarrow> byte list) \<Rightarrow> byte list \<Rightarrow> nat \<Rightarrow> byte list option" where
  "StringToAesKey md5 password keyLen = aes_key_loop md5 password keyLen keyLen [] []"

definition CreateAesGcmAead :: "(byte list \<Rightarrow> aead) \<Rightarrow> byte list \<Rightarrow> gcm_error + aead" where
  "CreateAesGcmAead newGCM key = (if length key \<noteq> 32 then Inl GcmKeyLength else Inr (newGCM key))"

section \<open>The crypto helper\<close>

record crypto_helper =
  srcMode :: cipher_mode
  dstMode :: cipher_mode
  srcAead :: aead
  dstAead :: aead
  srcExtend :: extend
  dstExtend :: extend

definition key_aead :: "(byte list \<Rightarrow> byte list) \<Rightarrow> (byte list \<Rightarrow> aead) \<Rightarrow> string \<Rightarrow> gcm_error + aead" where
  "key_aead md5 newGCM key =
     (case StringToAesKey md5 (string_bytes key) 32 of
        None \<Rightarrow> Inl GcmKeyLength
      | Some k \<Rightarrow> CreateAesGcmAead newGCM k)"

definition NewCryptoHelper ::
  "(byte list \<Rightarrow> byte list) \<Rightarrow> (byte list \<Rightarrow> aead) \<Rightarrow> string \<Rightarrow> string \<Rightarrow> string \<Rightarrow> string \<Rightarrow> extend \<Rightarrow> extend
   \<Rightarrow> gcm_error + crypto_helper" where
  "NewCryptoHelper md5 newGCM inMode inKey outMode outKey se de =
     (case ToMode inMode of
        Inl _ \<Rightarrow> Inl GcmUnknownMode
      | Inr sm \<Rightarrow>
          (case ToMode outMode of
             Inl _ \<Rightarrow> Inl GcmUnknownMode
           | Inr dm \<Rightarrow>
               (case key_aead md5 newGCM inKey of
                  Inl e \<Rightarrow> Inl e
                | Inr sa \<Rightarrow>
                    (case key_aead md5 newGCM outKey of
                       Inl e \<Rightarrow> Inl e
                     | Inr da \<Rightarrow> Inr \<lparr>srcMode = sm, dstMode = dm, srcAead = sa, dstAead = da,
                                      srcExtend = se, dstExtend = de\<rparr>))))"

text \<open>
  What a chain of writes through \<open>NewReaderWriter\<close> puts on the wire, one nonce per write, and the
  bytes that come out of the reader side: the wire itself, or the complete segments that open.
\<close>

fun crypt_emit :: "cipher_mode \<Rightarrow> aead \<Rightarrow> (byte list \<times> byte list) list \<Rightarrow> gcm_error + byte list" where
  "crypt_emit m a [] = Inr []"
| "crypt_emit m a ((nonce, b) # ws) =
     (case (case m of ModeNone \<Rightarrow> Inr (length b, b) | ModeGCM \<Rightarrow> gcm_Write a nonce b) of
        Inl e \<Rightarrow> Inl e
      | Inr (n, out) \<Rightarrow>
          (case crypt_emit m a ws of Inl e \<Rightarrow> Inl e | Inr rest \<Rightarrow> Inr (out @ rest)))"

lemma gcm_full_Inr: "gcm_full n bs = Inr (x, y) \<longleftrightarrow> bs = x @ y \<and> length x = n"
  by (auto simp: gcm_full_def split: if_splits)

lemma gcm_read_shorter: "gcm_read a bs = (Inr d, rest) \<Longrightarrow> length rest < length bs"
  by (auto simp: gcm_read_def gcm_full_Inr Let_def split: sum.splits option.splits if_splits prod.splits)

text \<open>The segments that open, up to the first error, and what that error leaves unread.\<close>

function gcm_run :: "aead \<Rightarrow> byte list \<Rightarrow> byte list list \<times> byte list" where
  "gcm_run a bs =
     (case gcm_read a bs of
        (Inl e, rest) \<Rightarrow> ([], rest)
      | (Inr d, rest) \<Rightarrow> (case gcm_run a rest of (ds, t) \<Rightarrow> (d # ds, t)))"
  by pat_completeness auto
termination
  by (relation "measure (\<lambda>(a, bs). length bs)") (auto dest!: gcm_read_shorter [OF sym])

declare gcm_run.simps [simp del]

definition gcm_segments :: "aead \<Rightarrow> byte list \<Rightarrow> byte list list" where
  "gcm_segments a bs = fst (gcm_run a bs)"

definition gcm_tail :: "aead \<Rightarrow> byte list \<Rightarrow> byte list" where
  "gcm_tail a bs = snd (gcm_run a bs)"

definition crypt_content :: "cipher_mode \<Rightarrow> aead \<Rightarrow> byte list \<Rightarrow> byte list" where
  "crypt_content m a w = (case m of ModeNone \<Rightarrow> w | ModeGCM \<Rightarrow> concat (gcm_segments a w))"

text \<open>
  The client's side: what goes on the wire, while the connection below takes it. \<open>CryptoStream.Write\<close>
  passes the data through or seals them; \<open>wrapDstWithRole\<close> writes the handshake when the frame header
  is on; \<open>Write\<close> on the stream it returns is then \<open>FrameStream.Write\<close>, which frames the data with
  \<open>writeFrame\<close> (and its size check) on top of the crypto stream. A caller stops at the first error;
  \<open>dst_session\<close> gives that error, the chunks accepted before it and the bytes on the wire. Each write
  takes the nonce \<open>rand.Read\<close> delivers.
\<close>

datatype wrap_error = FrameRefused frame_error | CryptoRefused gcm_error

definition crypt_Write :: "cipher_mode \<Rightarrow> aead \<Rightarrow> byte list \<Rightarrow> byte list \<Rightarrow> wrap_error + byte list" where
  "crypt_Write m a nonce b =
     (case m of
        ModeNone \<Rightarrow> Inr b
      | ModeGCM \<Rightarrow> (case gcm_Write a nonce b of Inl e \<Rightarrow> Inl (CryptoRefused e) | Inr (n, out) \<Rightarrow> Inr out))"

definition wrapDstWithRole :: "crypto_helper \<Rightarrow> streamRole \<Rightarrow> byte list \<Rightarrow> wrap_error + byte list" where
  "wrapDstWithRole c role nonce =
     (if FrameHeaderEnable (dstExtend c) then crypt_Write (dstMode c) (dstAead c) nonce (writeStreamHandshake role) else Inr [])"

definition wrapped_Write :: "crypto_helper \<Rightarrow> byte list \<Rightarrow> byte list \<Rightarrow> wrap_error + byte list" where
  "wrapped_Write c nonce p =
     (if \<not> FrameHeaderEnable (dstExtend c) then crypt_Write (dstMode c) (dstAead c) nonce p
      else if p = [] then Inr []
      else (case writeFrame frameTypeBusiness p of
              Inl e \<Rightarrow> Inl (FrameRefused e)
            | Inr bs \<Rightarrow> crypt_Write (dstMode c) (dstAead c) nonce bs))"

fun wrapped_writes :: "crypto_helper \<Rightarrow> (byte list \<times> byte list) list \<Rightarrow> wrap_error option \<times> byte list list \<times> byte list" where
  "wrapped_writes c [] = (None, [], [])"
| "wrapped_writes c ((nonce, p) # ws) =
     (case wrapped_Write c nonce p of
        Inl e \<Rightarrow> (Some e, [], [])
      | Inr bs \<Rightarrow> (case wrapped_writes c ws of (e, sent, rest) \<Rightarrow> (e, p # sent, bs @ rest)))"

definition dst_session ::
  "crypto_helper \<Rightarrow> streamRole \<Rightarrow> byte list \<Rightarrow> (byte list \<times> byte list) list \<Rightarrow> wrap_error option \<times> byte list list \<times> byte list" where
  "dst_session c role nonce ws =
     (case wrapDstWithRole c role nonce of
        Inl e \<Rightarrow> (Some e, [], [])
      | Inr h \<Rightarrow> (case wrapped_writes c ws of (e, sent, rest) \<Rightarrow> (e, sent, h @ rest)))"

datatype wrapped = Plain "byte list" | Framed frame_stream

text \<open>
  \<open>WrapSrcWithRole\<close> on the bytes that arrive: decrypt, and with the frame header on read the
  handshake and put a frame stream on the rest.
\<close>

definition WrapSrcWithRole :: "crypto_helper \<Rightarrow> byte list \<Rightarrow> frame_error + wrapped \<times> streamRole" where
  "WrapSrcWithRole c w =
     (let bs = crypt_content (srcMode c) (srcAead c) w in
      if \<not> FrameHeaderEnable (srcExtend c) then Inr (Plain bs, Business)
      else (case readStreamHandshake bs of
              Inl e \<Rightarrow> Inl e
            | Inr (role, rest) \<Rightarrow> Inr (Framed (NewFrameStream rest role), role)))"

fun wrapped_content :: "wrapped \<Rightarrow> byte list" where
  "wrapped_content (Plain bs) = bs"
| "wrapped_content (Framed s) = fs_content s"

section \<open>Library\<close>

lemma gcm_segments_read:
  "gcm_read a bs = (Inr d, rest) \<Longrightarrow> gcm_segments a bs = d # gcm_segments a rest \<and> gcm_tail a bs = gcm_tail a rest"
  "gcm_read a bs = (Inl e, rest) \<Longrightarrow> gcm_segments a bs = [] \<and> gcm_tail a bs = rest"
  by (simp_all add: gcm_segments_def gcm_tail_def gcm_run.simps [of a bs] split: prod.splits)

lemma gcm_read_write:
  assumes "aead_ok a" "length nonce = NonceSize a" "gcm_Write a nonce b = Inr (n, out)" "b \<noteq> []"
  shows "gcm_read a (out @ rest) = (Inr b, rest)"
proof -
  have le: "length b < 256 ^ 2" and out: "out = nonce @ Seal a nonce (size_bytes (length b)) @ Seal a nonce b"
    using assms by (auto simp: gcm_Write_def MaxSegmentSize_def split: if_splits)
  let ?sz = "Seal a nonce (size_bytes (length b))"
  have l: "length ?sz = 2 + Overhead a" "length (Seal a nonce b) = length b + Overhead a"
    and o: "Open a nonce ?sz = Some (size_bytes (length b))" "Open a nonce (Seal a nonce b) = Some b"
    using assms(1,2) by (auto simp: aead_ok_def size_bytes_def)
  have f1: "gcm_full (NonceSize a) (out @ rest) = Inr (nonce, ?sz @ Seal a nonce b @ rest)"
    and f2: "gcm_full (2 + Overhead a) (?sz @ Seal a nonce b @ rest) = Inr (?sz, Seal a nonce b @ rest)"
    and f3: "gcm_full (length b + Overhead a) (Seal a nonce b @ rest) = Inr (Seal a nonce b, rest)"
    using assms(2) l by (simp_all add: gcm_full_Inr out)
  have sz: "be_nat (take 2 (size_bytes (length b))) = length b"
    using be_nat_be_bytes [OF le] by (simp add: size_bytes_def del: be_bytes.simps)
  have "\<not> MaxSegmentSize < length b" using le by (simp add: MaxSegmentSize_def)
  then show ?thesis
    by (simp add: gcm_read_def f1 f2 f3 o sz Let_def del: add_2_eq_Suc add_2_eq_Suc')
qed

lemma gcm_read_Nil: "\<exists>e. gcm_read a [] = (Inl e, [])"
  by (auto simp: gcm_read_def gcm_full_def)

lemma crypt_emit_segments:
  assumes "aead_ok a" "\<forall>x\<in>set ws. length (fst x) = NonceSize a \<and> snd x \<noteq> []"
    and "crypt_emit ModeGCM a ws = Inr w"
  shows "gcm_segments a w = map snd ws \<and> gcm_tail a w = []"
  using assms(2,3)
proof (induction ws arbitrary: w)
  case Nil
  obtain e where "gcm_read a [] = (Inl e, [])" using gcm_read_Nil by blast
  then show ?case using Nil gcm_segments_read(2) by fastforce
next
  case (Cons x ws)
  obtain nonce b where x: "x = (nonce, b)" by force
  from Cons.prems(2) obtain n out rest where o: "gcm_Write a nonce b = Inr (n, out)"
    "crypt_emit ModeGCM a ws = Inr rest" "w = out @ rest"
    by (auto simp: x split: sum.splits)
  have "gcm_read a w = (Inr b, rest)"
    using gcm_read_write [OF assms(1) _ o(1)] Cons.prems(1) o(3) x by simp
  then show ?case using Cons.IH [OF _ o(2)] Cons.prems(1) x by (simp add: gcm_segments_read)
qed

lemma crypt_emit_plain: "crypt_emit ModeNone a ws = Inr (concat (map snd ws))"
  by (induction ws) auto

lemma crypt_roundtrip:
  assumes "aead_ok a" "\<forall>x\<in>set ws. length (fst x) = NonceSize a \<and> snd x \<noteq> []" "crypt_emit m a ws = Inr w"
  shows "crypt_content m a w = concat (map snd ws)"
  using assms crypt_emit_segments crypt_emit_plain by (cases m) (auto simp: crypt_content_def)

lemma crypt_emit_ok:
  "\<forall>x\<in>set ws. length (snd x) \<le> MaxSegmentSize \<Longrightarrow> \<exists>w. crypt_emit m a ws = Inr w"
  by (induction ws) (cases m; auto simp: gcm_Write_def)+

section \<open>Library: the reader as a byte queue\<close>

definition gcm_content :: "aead \<Rightarrow> gcm_reader \<Rightarrow> byte list" where
  "gcm_content a r = g_leftover r @ concat (gcm_segments a (g_in r))"

definition gcm_ok :: "aead \<Rightarrow> gcm_reader \<Rightarrow> bool" where
  "gcm_ok a r \<longleftrightarrow> (\<forall>d\<in>set (gcm_segments a (g_in r)). d \<noteq> []) \<and> gcm_tail a (g_in r) = []"

lemma gcm_Read_some:
  assumes "gcm_ok a r" "0 < n" "gcm_content a r \<noteq> []"
  shows "\<exists>bs r'. gcm_Read a n r = (Inr bs, r') \<and> bs \<noteq> [] \<and> length bs \<le> n \<and> gcm_ok a r' \<and>
                 gcm_content a r = bs @ gcm_content a r'"
proof (cases "g_leftover r = []")
  case False
  then show ?thesis using assms by (simp add: gcm_Read_def gcm_content_def gcm_ok_def)
next
  case True
  obtain x rest where x: "gcm_read a (g_in r) = (x, rest)" by force
  show ?thesis
  proof (cases x)
    case (Inl e)
    then show ?thesis using assms True x by (simp add: gcm_content_def gcm_segments_read)
  next
    case (Inr d)
    then show ?thesis using assms True x
      by (simp add: gcm_Read_def gcm_content_def gcm_ok_def gcm_segments_read(1) [of a "g_in r" d rest])
  qed
qed

lemma gcm_Read_end:
  assumes "gcm_ok a r" "gcm_content a r = []"
  shows "\<exists>e r'. gcm_Read a n r = (Inl e, r') \<and> gcm_ok a r' \<and> gcm_content a r' = []"
proof -
  obtain x rest where x: "gcm_read a (g_in r) = (x, rest)" by force
  show ?thesis
  proof (cases x)
    case (Inl e)
    moreover obtain e' where "gcm_read a [] = (Inl e', [])" using gcm_read_Nil by blast
    ultimately show ?thesis using assms x
      by (auto simp: gcm_Read_def gcm_content_def gcm_ok_def gcm_segments_read)
  next
    case (Inr d)
    then show ?thesis using assms x
      by (auto simp: gcm_content_def gcm_ok_def gcm_segments_read(1) [of a "g_in r" d rest])
  qed
qed

interpretation gcm_source: byte_source "gcm_Read a" "gcm_content a" "gcm_ok a"
  using gcm_Read_some gcm_Read_end by unfold_locales blast+

lemma aes_key_loop_enough:
  "\<forall>x. length (md5 x) = 16 \<Longrightarrow> keyLen \<le> length b + 16 * fuel \<Longrightarrow>
   \<exists>k. aes_key_loop md5 pw keyLen fuel b prev = Some k \<and> length k = keyLen"
proof (induction fuel arbitrary: b prev)
  case 0
  then show ?case by (simp add: aes_key_loop.simps)
next
  case (Suc f)
  show ?case
  proof (cases "keyLen \<le> length b")
    case True
    then show ?thesis by (simp add: aes_key_loop.simps)
  next
    case False
    then show ?thesis using Suc.IH [of "b @ md5 (prev @ pw)" "md5 (prev @ pw)"] Suc.prems
      by (simp add: aes_key_loop.simps [of md5 pw keyLen "Suc f"] Let_def)
  qed
qed

section \<open>Properties\<close>

section \<open>Library: the client's session\<close>

text \<open>The chunks one write can carry: the sealed segment holds at most \<open>MaxSegmentSize\<close> bytes, three of
  which the frame header takes, and so does a frame.\<close>

definition chunk_fits :: "crypto_helper \<Rightarrow> byte list \<Rightarrow> bool" where
  "chunk_fits c p \<longleftrightarrow>
     (dstMode c = ModeGCM \<longrightarrow> length p + (if FrameHeaderEnable (dstExtend c) then 3 else 0) \<le> MaxSegmentSize) \<and>
     (FrameHeaderEnable (dstExtend c) \<longrightarrow> length p \<le> MaxSegmentSize)"

lemma crypt_Write_emit:
  "crypt_Write m a nonce b = Inr out \<Longrightarrow> crypt_emit m a ws = Inr rest \<Longrightarrow> crypt_emit m a ((nonce, b) # ws) = Inr (out @ rest)"
  by (cases m) (auto simp: crypt_Write_def split: sum.splits)

lemma crypt_Write_ok: "(\<exists>e. crypt_Write m a nonce b = Inl e) \<longleftrightarrow> m = ModeGCM \<and> MaxSegmentSize < length b"
  by (cases m) (auto simp: crypt_Write_def gcm_Write_def)

lemma crypt_Write_Nil: "crypt_Write m a nonce [] = Inr []"
  by (cases m) (auto simp: crypt_Write_def gcm_Write_def)

lemma length_wire: "length (wire (t, p)) = length p + 3"
  by (simp add: wire_def del: be_bytes.simps)

text \<open>What one write below carries.\<close>

definition below :: "crypto_helper \<Rightarrow> byte list \<Rightarrow> byte list" where
  "below c p = (if FrameHeaderEnable (dstExtend c) then wire (frameTypeBusiness, p) else p)"

lemma wrapped_Write_cases:
  "p = [] \<Longrightarrow> wrapped_Write c nonce p = Inr [] \<and> chunk_fits c p"
  "p \<noteq> [] \<Longrightarrow> chunk_fits c p \<Longrightarrow>
     \<exists>out. wrapped_Write c nonce p = Inr out \<and> crypt_Write (dstMode c) (dstAead c) nonce (below c p) = Inr out"
  "\<not> chunk_fits c p \<Longrightarrow> \<exists>e. wrapped_Write c nonce p = Inl e"
proof -
  show "p = [] \<Longrightarrow> wrapped_Write c nonce p = Inr [] \<and> chunk_fits c p"
    by (auto simp: wrapped_Write_def crypt_Write_Nil chunk_fits_def MaxSegmentSize_def)
  have w: "writeFrame frameTypeBusiness p = (if MaxSegmentSize < length p then Inl PayloadTooLarge else Inr (wire (frameTypeBusiness, p)))"
    by (simp add: writeFrame_def wire_def)
  have sz: "(\<exists>e. crypt_Write (dstMode c) (dstAead c) nonce (below c p) = Inl e) \<longleftrightarrow>
      dstMode c = ModeGCM \<and> MaxSegmentSize < length p + (if FrameHeaderEnable (dstExtend c) then 3 else 0)"
    by (simp add: crypt_Write_ok below_def length_wire)
  show "\<exists>out. wrapped_Write c nonce p = Inr out \<and> crypt_Write (dstMode c) (dstAead c) nonce (below c p) = Inr out"
    if "p \<noteq> []" "chunk_fits c p"
    using that sz w by (cases "crypt_Write (dstMode c) (dstAead c) nonce (below c p)")
      (auto simp: wrapped_Write_def chunk_fits_def below_def split: if_splits)
  show "\<exists>e. wrapped_Write c nonce p = Inl e" if "\<not> chunk_fits c p"
    using that sz w by (auto simp: wrapped_Write_def chunk_fits_def below_def not_le MaxSegmentSize_def)
qed

lemma wrapped_writes_done:
  "wrapped_writes c ws = (e, sent, w) \<Longrightarrow> sent = takeWhile (chunk_fits c) (map snd ws) \<and> (e = None \<longleftrightarrow> (\<forall>x\<in>set ws. chunk_fits c (snd x)))"
proof (induction ws arbitrary: e sent w)
  case (Cons x ws)
  obtain n p where x: "x = (n, p)" by force
  obtain e' d' w' where r: "wrapped_writes c ws = (e', d', w')" by (metis prod_cases3)
  show ?case
  proof (cases "chunk_fits c p")
    case True
    then obtain out where "wrapped_Write c n p = Inr out" using wrapped_Write_cases(1,2) by (cases "p = []") blast+
    then show ?thesis using Cons.IH [OF r] Cons.prems True x r by auto
  next
    case False
    then show ?thesis using wrapped_Write_cases(3) [OF False, of n] Cons.prems x by auto
  qed
qed simp

lemma wrapped_writes_emit:
  assumes "wrapped_writes c ws = (e, sent, w)" and "\<forall>x\<in>set ws. length (fst x) = NonceSize (dstAead c)"
  shows "\<exists>bs. crypt_emit (dstMode c) (dstAead c) bs = Inr w \<and> map snd bs = map (below c) (filter (\<lambda>p. p \<noteq> []) sent) \<and>
              (\<forall>x\<in>set bs. length (fst x) = NonceSize (dstAead c))"
  using assms
proof (induction ws arbitrary: e sent w)
  case Nil
  then show ?case by (intro exI [of _ "[]"]) simp
next
  case (Cons x ws)
  obtain n p where x: "x = (n, p)" by force
  obtain e' d' w' where r: "wrapped_writes c ws = (e', d', w')" by (metis prod_cases3)
  obtain bs where bs: "crypt_emit (dstMode c) (dstAead c) bs = Inr w'" "map snd bs = map (below c) (filter (\<lambda>p. p \<noteq> []) d')"
    "\<forall>x\<in>set bs. length (fst x) = NonceSize (dstAead c)" using Cons.IH [OF r] Cons.prems(2) by auto
  consider "p = []" | "p \<noteq> []" "chunk_fits c p" | "\<not> chunk_fits c p" by blast
  then show ?case
  proof cases
    case 1
    then show ?thesis using wrapped_Write_cases(1) [OF 1, of c n] Cons.prems bs x r by (intro exI [of _ bs]) auto
  next
    case 2
    then obtain out where out: "wrapped_Write c n p = Inr out" "crypt_Write (dstMode c) (dstAead c) n (below c p) = Inr out"
      using wrapped_Write_cases(2) by blast
    then show ?thesis using 2 Cons.prems bs x r crypt_Write_emit [OF out(2) bs(1)]
      by (intro exI [of _ "(n, below c p) # bs"]) auto
  next
    case 3
    then show ?thesis using wrapped_Write_cases(3) [OF 3, of n] Cons.prems x by (intro exI [of _ "[]"]) auto
  qed
qed

lemma below_content:
  assumes "\<forall>p\<in>set ps. chunk_fits c p" and "FrameHeaderEnable (dstExtend c)"
  shows "business_bytes (parse_frames (concat (map (below c) (filter (\<lambda>p. p \<noteq> []) ps)))) = concat ps"
proof -
  let ?items = "map (\<lambda>p. (frameTypeBusiness, p)) (filter (\<lambda>p. p \<noteq> []) ps)"
  have "map (below c) (filter (\<lambda>p. p \<noteq> []) ps) = map wire ?items" using assms(2) by (simp add: below_def)
  moreover have "parse_frames (concat (map wire ?items)) = ?items"
    by (rule parse_frames_wire) (use assms in \<open>auto simp: chunk_fits_def\<close>)
  moreover have "business_bytes ?items = concat ps" by (induction ps) auto
  ultimately show ?thesis by metis
qed

text \<open>
  C8: A secured stream end to end. Client and server agree on the cipher mode, the key and the frame
  header. Whatever chunks the client writes to the wrapped output, the writes succeed up to the first
  chunk that is too long for one write (with encryption at most 65535 bytes, of which the frame
  header takes three; with the frame header alone 65535; otherwise any length), and that one
  reports an error exactly when there is one. The server's wrapped input learns the client's stream
  role and holds the bytes of the accepted chunks, empty ones included, in order.
\<close>

theorem secured_stream_end_to_end:
  assumes "aead_ok a" and "dstMode c = srcMode sv" and "dstAead c = a" and "srcAead sv = a"
    and "FrameHeaderEnable (dstExtend c) = FrameHeaderEnable (srcExtend sv)"
    and "length nonce = NonceSize a" and "\<forall>x\<in>set ws. length (fst x) = NonceSize a"
  shows "\<exists>e w st. dst_session c role nonce ws = (e, takeWhile (chunk_fits c) (map snd ws), w) \<and>
           (e = None \<longleftrightarrow> (\<forall>x\<in>set ws. chunk_fits c (snd x))) \<and>
           WrapSrcWithRole sv w = Inr (st, if FrameHeaderEnable (dstExtend c) then role else Business) \<and>
           wrapped_content st = concat (takeWhile (chunk_fits c) (map snd ws))"
proof -
  obtain e d w where r: "wrapped_writes c ws = (e, d, w)" by (metis prod_cases3)
  have d: "d = takeWhile (chunk_fits c) (map snd ws)" "e = None \<longleftrightarrow> (\<forall>x\<in>set ws. chunk_fits c (snd x))"
    using wrapped_writes_done [OF r] by simp_all
  have fit: "\<forall>p\<in>set d. chunk_fits c p" using set_takeWhileD d(1) by fastforce
  obtain bs where bs: "crypt_emit (dstMode c) a bs = Inr w" "map snd bs = map (below c) (filter (\<lambda>p. p \<noteq> []) d)"
    "\<forall>x\<in>set bs. length (fst x) = NonceSize a" using wrapped_writes_emit [OF r] assms(3,7) by auto
  have "snd x \<in> set (map snd bs)" if "x \<in> set bs" for x using that by simp
  then have ne: "\<forall>x\<in>set bs. snd x \<noteq> []" unfolding bs(2) by (fastforce simp: below_def wire_def)
  have cat: "concat (filter (\<lambda>p. p \<noteq> []) d) = concat d" by (induction d) auto
  show ?thesis
  proof (cases "FrameHeaderEnable (dstExtend c)")
    case False
    have "crypt_content (srcMode sv) (srcAead sv) w = concat d"
      using crypt_roundtrip [OF assms(1) _ bs(1)] bs(2,3) ne assms(2,4) False cat by (simp add: below_def [abs_def])
    then show ?thesis using r d False assms(5)
      by (auto simp: dst_session_def wrapDstWithRole_def WrapSrcWithRole_def)
  next
    case True
    let ?h = "writeStreamHandshake role"
    have h: "?h \<noteq> []" "length ?h \<le> MaxSegmentSize" by (cases role, simp_all add: writeStreamHandshake_def streamHandshakeMagic_def MaxSegmentSize_def)
    obtain out where out: "crypt_Write (dstMode c) a nonce ?h = Inr out"
      using crypt_Write_ok [of "dstMode c" a nonce ?h] h(2) by (cases "crypt_Write (dstMode c) a nonce ?h") auto
    have "crypt_content (srcMode sv) (srcAead sv) (out @ w) = ?h @ concat (map (below c) (filter (\<lambda>p. p \<noteq> []) d))"
      using crypt_roundtrip [OF assms(1) _ crypt_Write_emit [OF out bs(1)]] bs(2,3) ne h(1) assms(2,4,6) by simp
    moreover have "readStreamHandshake (?h @ x) = Inr (role, x)" for x
      by (cases role) (simp_all add: readStreamHandshake_def writeStreamHandshake_def readFull_def streamHandshakeMagic_def)
    ultimately show ?thesis using r d out True assms(3,5) below_content [OF fit True]
      by (auto simp: dst_session_def wrapDstWithRole_def WrapSrcWithRole_def fs_content_def NewFrameStream_def)
  qed
qed

text \<open>A cipher with the shape of GCM: a key stream per nonce and a one-byte tag, for the witnesses.\<close>

definition toy_aead :: aead where
  "toy_aead = \<lparr>NonceSize = 1, Overhead = 1,
     Seal = (\<lambda>n p. map (\<lambda>x. x XOR 85) p @ [7]),
     Open = (\<lambda>n c. if c \<noteq> [] \<and> last c = 7 then Some (map (\<lambda>x. x XOR 85) (butlast c)) else None)\<rparr>"

lemma toy_aead_ok: "aead_ok toy_aead"
proof -
  have x: "(x XOR 85) XOR 85 = x" for x :: byte by (simp add: xor.assoc)
  show ?thesis by (auto simp: aead_ok_def toy_aead_def x comp_def map_idI split: if_splits)
qed

definition toy_helper :: crypto_helper where
  "toy_helper = \<lparr>srcMode = ModeGCM, dstMode = ModeGCM, srcAead = toy_aead, dstAead = toy_aead,
     srcExtend = extend_zero\<lparr>FrameHeaderEnable := True\<rparr>, dstExtend = extend_zero\<lparr>FrameHeaderEnable := True\<rparr>\<rparr>"

theorem secured_stream_end_to_end_witness:
  "\<exists>w st. dst_session toy_helper Probe [8] [([9], [1, 2]), ([10], []), ([11], [3])] = (None, [[1, 2], [], [3]], w) \<and>
     WrapSrcWithRole toy_helper w = Inr (st, Probe) \<and> wrapped_content st = [1, 2, 3]"
proof -
  let ?ws = "[([9], [1, 2]), ([10], []), ([11], [3])] :: (byte list \<times> byte list) list"
  have fit: "\<forall>x\<in>set ?ws. chunk_fits toy_helper (snd x)" by (simp add: chunk_fits_def MaxSegmentSize_def)
  have n: "length [8 :: byte] = NonceSize toy_aead" "\<forall>x\<in>set ?ws. length (fst x) = NonceSize toy_aead" by (simp_all add: toy_aead_def)
  show ?thesis
    using secured_stream_end_to_end [OF toy_aead_ok _ _ _ _ n, of toy_helper toy_helper Probe] fit
    by (simp add: toy_helper_def)
qed

text \<open>
  The cipher layer is transparent: a reader of the encrypted stream, with any buffer lengths,
  gets the written bytes in order, and all of them after as many reads as there are bytes; and
  \<open>io.ReadFull\<close> on it returns exactly the next bytes and always ends.
\<close>

theorem gcm_delivers:
  assumes "aead_ok a" and "\<forall>x\<in>set ws. length (fst x) = NonceSize a \<and> snd x \<noteq> []"
    and "crypt_emit ModeGCM a ws = Inr w" and "\<forall>n\<in>set ns. 0 < n"
  shows "let r = \<lparr>g_in = w, g_leftover = []\<rparr>; all = concat (map snd ws) in
         (\<exists>later. all = fst (pull (gcm_Read a) ns r) @ later) \<and>
         (length all \<le> length ns \<longrightarrow> fst (pull (gcm_Read a) ns r) = all) \<and>
         (\<forall>k\<le>length all. \<exists>r'. read_full (gcm_Read a) k k r = Some (Inr (take k all), r'))"
proof -
  let ?r = "\<lparr>g_in = w, g_leftover = []\<rparr>"
  have seg: "gcm_segments a w = map snd ws" "gcm_tail a w = []" using crypt_emit_segments [OF assms(1-3)] by auto
  then have ok: "gcm_ok a ?r" using assms(2) by (auto simp: gcm_ok_def)
  have c: "gcm_content a ?r = concat (map snd ws)" using seg by (simp add: gcm_content_def)
  have "\<exists>later. concat (map snd ws) = fst (pull (gcm_Read a) ns ?r) @ later"
    using gcm_source.pull_prefix [OF ok assms(4)] c by metis
  moreover have "length (concat (map snd ws)) \<le> length ns \<Longrightarrow> fst (pull (gcm_Read a) ns ?r) = concat (map snd ws)"
    using gcm_source.pull_all [OF ok assms(4)] c by simp
  moreover have "\<exists>r'. read_full (gcm_Read a) k k ?r = Some (Inr (take k (concat (map snd ws))), r')"
    if "k \<le> length (concat (map snd ws))" for k
    using gcm_source.read_full_enough [OF ok, of k k] c that by auto
  ultimately show ?thesis by (simp add: Let_def)
qed

theorem gcm_delivers_witness:
  "\<exists>w. crypt_emit ModeGCM toy_aead [([4], [1, 2]), ([5], [3])] = Inr w \<and>
       fst (pull (gcm_Read toy_aead) [1, 9, 9] \<lparr>g_in = w, g_leftover = []\<rparr>) = [1, 2, 3]"
proof -
  let ?ws = "[([4], [1, 2]), ([5], [3])] :: (byte list \<times> byte list) list"
  obtain w where w: "crypt_emit ModeGCM toy_aead ?ws = Inr w"
    using crypt_emit_ok [of ?ws ModeGCM toy_aead] by (auto simp: MaxSegmentSize_def)
  have n: "\<forall>x\<in>set ?ws. length (fst x) = NonceSize toy_aead \<and> snd x \<noteq> []" by (simp add: toy_aead_def)
  have p: "\<forall>n\<in>set [1, 9, 9]. 0 < (n :: nat)" by simp
  have "length (concat (map snd ?ws)) \<le> length [1, 9, 9 :: nat]" by simp
  then have "fst (pull (gcm_Read toy_aead) [1, 9, 9] \<lparr>g_in = w, g_leftover = []\<rparr>) = concat (map snd ?ws)"
    using gcm_delivers [OF toy_aead_ok n w p] unfolding Let_def by blast
  then show ?thesis using w by simp
qed

text \<open>
  Key derivation always yields a 32-byte key, whatever the password, so with MD5's 16-byte
  digests the loop ends, building the AEAD never fails for its key length, and the helper can
  only be refused for an unknown mode.
\<close>

theorem crypto_helper_key_total:
  assumes "\<forall>x. length (md5 x) = 16"
  shows "(\<exists>k. StringToAesKey md5 pw 32 = Some k \<and> length k = 32) \<and>
         (NewCryptoHelper md5 newGCM im ik om ok se de = Inl e \<longrightarrow>
            e = GcmUnknownMode \<and> (ToMode im = Inl () \<or> ToMode om = Inl ()))"
proof -
  have key: "\<exists>k. StringToAesKey md5 p 32 = Some k \<and> length k = 32" for p
    using aes_key_loop_enough [OF assms, of 32 "[]" 32] by (simp add: StringToAesKey_def)
  have "\<exists>a. key_aead md5 newGCM k = Inr a" for k
  proof -
    obtain kk where "StringToAesKey md5 (string_bytes k) 32 = Some kk" "length kk = 32" using key by blast
    then show ?thesis by (simp add: key_aead_def CreateAesGcmAead_def)
  qed
  then obtain sa da where "key_aead md5 newGCM ik = Inr sa" "key_aead md5 newGCM ok = Inr da" by blast
  then show ?thesis using key by (auto simp: NewCryptoHelper_def split: sum.splits)
qed

theorem crypto_helper_key_total_witness:
  "(\<forall>x. length ((\<lambda>_. replicate 16 0) x :: byte list) = 16) \<and>
   (\<exists>k. StringToAesKey (\<lambda>_. replicate 16 0) [1] 32 = Some k \<and> length k = 32)"
proof -
  have "\<forall>x. length ((\<lambda>_. replicate 16 0) x :: byte list) = 16" by simp
  from crypto_helper_key_total [OF this, of "[1]"] show ?thesis by simp
qed

text \<open>
  What an eavesdropper computes from one segment: the two bytes where the sealed length and the
  sealed payload overlap in the key stream, and the length the segment's size reveals.
\<close>

definition xor_bytes :: "byte list \<Rightarrow> byte list \<Rightarrow> byte list" where
  "xor_bytes xs ys = map (\<lambda>(x, y). x XOR y) (zip xs ys)"

definition recover_prefix :: "nat \<Rightarrow> nat \<Rightarrow> byte list \<Rightarrow> byte list" where
  "recover_prefix nonceSize overhead w =
     xor_bytes (xor_bytes (take 2 (drop nonceSize w)) (take 2 (drop (nonceSize + 2 + overhead) w)))
               (size_bytes (length w - nonceSize - 2 - 2 * overhead))"

text \<open>
  C21: Both parts of a segment are sealed under one nonce. With a cipher that encrypts by XOR with
  a key stream depending on key and nonce only, as AES-GCM does, the first two plaintext bytes of
  every segment can be computed from the bytes on the wire without the key.
\<close>

theorem gcm_nonce_reuse_leaks:
  assumes "aead_ok a" and "\<forall>n p. take (length p) (Seal a n p) = map (\<lambda>i. p ! i XOR ks n i) [0..<length p]"
    and "length nonce = NonceSize a" and "2 \<le> length b" and "gcm_Write a nonce b = Inr (n, w)"
  shows "recover_prefix (NonceSize a) (Overhead a) w = take 2 b"
proof -
  let ?sz = "size_bytes (length b)"
  have w: "w = nonce @ Seal a nonce ?sz @ Seal a nonce b"
    using assms(4,5) by (auto simp: gcm_Write_def split: if_splits)
  have l: "length ?sz = 2" "length (Seal a nonce ?sz) = 2 + Overhead a" "length (Seal a nonce b) = length b + Overhead a"
    using assms(1) by (simp_all add: aead_ok_def size_bytes_def del: be_bytes.simps)
  have up2: "[0..<2] = [0, 1 :: nat]" by (simp add: upt_rec)
  have s1: "take 2 (Seal a nonce ?sz) = [?sz ! 0 XOR ks nonce 0, ?sz ! 1 XOR ks nonce 1]"
    using assms(2) [rule_format, of ?sz nonce] l(1) up2 by simp
  have "take 2 (take (length b) (Seal a nonce b)) = take 2 (map (\<lambda>i. b ! i XOR ks nonce i) [0..<length b])"
    using assms(2) by simp
  then have s2: "take 2 (Seal a nonce b) = [b ! 0 XOR ks nonce 0, b ! 1 XOR ks nonce 1]"
    using assms(4) up2 by (simp add: take_map min_def split: if_splits)
  have d1: "take 2 (drop (NonceSize a) w) = take 2 (Seal a nonce ?sz)"
    and d2: "take 2 (drop (NonceSize a + 2 + Overhead a) w) = take 2 (Seal a nonce b)"
    and len: "length w - NonceSize a - 2 - 2 * Overhead a = length b"
    using w assms(3) l by (simp_all del: add_2_eq_Suc add_2_eq_Suc')
  obtain z0 z1 where z: "?sz = [z0, z1]" using l(1) by (auto simp: length_Suc_conv numeral_2_eq_2)
  have c: "((s XOR k) XOR (p XOR k)) XOR s = p" for s k p :: byte by (simp add: xor.assoc xor.commute xor.left_commute)
  have "take 2 b = [b ! 0, b ! 1]" using assms(4) by (cases b; cases "tl b") auto
  then show ?thesis
    unfolding recover_prefix_def d1 d2 len using s1 s2 unfolding z by (simp add: xor_bytes_def c)
qed

theorem gcm_nonce_reuse_leaks_witness:
  "\<exists>w. gcm_Write toy_aead [9] [11, 12, 13] = Inr (3, w) \<and> recover_prefix 1 1 w = [11, 12]"
proof -
  have ks: "\<forall>n p. take (length p) (Seal toy_aead n p) = map (\<lambda>i. p ! i XOR (\<lambda>_ _. 85) n i) [0..<length p]"
    by (auto simp: toy_aead_def intro!: nth_equalityI)
  obtain w where w: "gcm_Write toy_aead [9] [11, 12, 13] = Inr (3, w)"
    by (simp add: gcm_Write_def MaxSegmentSize_def)
  have "recover_prefix (NonceSize toy_aead) (Overhead toy_aead) w = take 2 [11, 12, 13]"
    by (rule gcm_nonce_reuse_leaks [OF toy_aead_ok ks _ _ w]) (simp_all add: toy_aead_def)
  then show ?thesis using w by (simp add: toy_aead_def)
qed

end
