(* ===== verification/Quality.thy ===== *)
theory Quality
  imports Prelude Complex_Main
begin

text \<open>
  The per-output quality tracker of \<open>src/tun/quality.go\<close>: a sliding window of probe samples, the
  counters, the derived status and snapshot, the exported gauges and the history callback. The
  tracker's operations run under its mutex or on atomics, so a history of calls is a list of
  events. A \<open>float64\<close> quotient of two counters is the exact rational; the machine's \<open>int64\<close> are
  integers, and the bounds that keep them from overflowing are proved with the snapshot.
\<close>

section \<open>Data\<close>

datatype quality_status = QualityStatusDisabled | QualityStatusUp | QualityStatusDegraded | QualityStatusDown

definition defaultProbeIntervalSec :: int where "defaultProbeIntervalSec = 2"
definition defaultProbeTimeoutMS :: int where "defaultProbeTimeoutMS = 1500"
definition defaultProbeWindowSize :: int where "defaultProbeWindowSize = 5"

record probe_sample =
  ps_success :: bool
  ps_rttMS :: int

record quality_snapshot =
  sn_Status :: quality_status
  sn_RTTAvgMs :: int
  sn_LossRatio :: rat
  sn_LossPct :: rat
  sn_JitterMs :: int
  sn_LastOKAt :: int
  sn_LastError :: string
  sn_ConsecutiveFailures :: int
  sn_ProbeSuccessTotal :: int
  sn_ProbeFailureTotal :: int
  sn_OpenSuccessTotal :: int
  sn_OpenFailureTotal :: int
  sn_ActiveStreams :: int
  sn_BytesUplinkTotal :: int
  sn_BytesDownlinkTotal :: int

record quality_summary =
  su_Status :: quality_status
  su_RTTMs :: int
  su_LossPct :: rat
  su_LastError :: string

record gauges =
  ga_rtt :: rat
  ga_loss :: rat
  ga_jitter :: rat
  ga_status :: rat

text \<open>
  The tracker. \<open>qt_gauges\<close> are the Prometheus gauges of its labels, \<open>None\<close> while never written;
  \<open>qt_recorded\<close> collects the calls of \<open>recordProbe\<close>, \<open>None\<close> when no callback is set.
\<close>

record tracker =
  qt_service :: string
  qt_output :: string
  qt_readCounter :: "int option"
  qt_writeCounter :: "int option"
  qt_enabled :: bool
  qt_windowSize :: int
  qt_openSuccessTotal :: int
  qt_openFailureTotal :: int
  qt_activeStreams :: int
  qt_probeSuccessTotal :: int
  qt_probeFailureTotal :: int
  qt_consecutiveFailures :: int
  qt_samples :: "probe_sample list"
  qt_lastOKAt :: int
  qt_lastError :: string
  qt_recorded :: "(int \<times> bool \<times> int \<times> string) list option"
  qt_gauges :: "gauges option"
  qt_successCounter :: nat
  qt_failureCounter :: nat

section \<open>Status and snapshot\<close>

definition calcStatusLocked :: "tracker \<Rightarrow> quality_status" where
  "calcStatusLocked q =
     (if \<not> qt_enabled q then QualityStatusDisabled
      else if qt_samples q = [] then QualityStatusDisabled
      else
        let (hasSuccess, hasFailure) =
              foldl (\<lambda>(s, f) x. if ps_success x then (True, f) else (s, True)) (False, False) (qt_samples q)
        in if \<not> hasSuccess then QualityStatusDown
           else if hasFailure \<or> qt_consecutiveFailures q > 0 then QualityStatusDegraded
           else QualityStatusUp)"

text \<open>The accumulators of the loop over the samples.\<close>

record sample_acc =
  ac_ok :: int
  ac_fail :: int
  ac_total :: int
  ac_last :: int
  ac_jitter :: int
  ac_jitterSamples :: int

definition acc_step :: "sample_acc \<Rightarrow> probe_sample \<Rightarrow> sample_acc" where
  "acc_step a x =
     (if \<not> ps_success x then a\<lparr>ac_fail := ac_fail a + 1\<rparr>
      else
        let b = a\<lparr>ac_ok := ac_ok a + 1, ac_total := ac_total a + ps_rttMS x\<rparr>;
            c = (if ac_last a > 0
                 then b\<lparr>ac_jitter := ac_jitter a + \<bar>ps_rttMS x - ac_last a\<bar>, ac_jitterSamples := ac_jitterSamples a + 1\<rparr>
                 else b)
        in c\<lparr>ac_last := ps_rttMS x\<rparr>)"

definition acc_zero :: sample_acc where
  "acc_zero = \<lparr>ac_ok = 0, ac_fail = 0, ac_total = 0, ac_last = 0, ac_jitter = 0, ac_jitterSamples = 0\<rparr>"

definition snapshotLocked :: "tracker \<Rightarrow> quality_snapshot" where
  "snapshotLocked q =
     (let a = foldl acc_step acc_zero (qt_samples q);
          n = int (length (qt_samples q));
          loss = (if n > 0 then Fract (ac_fail a) n else 0)
      in \<lparr>sn_Status = calcStatusLocked q,
          sn_RTTAvgMs = (if ac_ok a > 0 then go_div (ac_total a) (ac_ok a) else 0),
          sn_LossRatio = loss, sn_LossPct = loss * 100,
          sn_JitterMs = (if ac_jitterSamples a > 0 then go_div (ac_jitter a) (ac_jitterSamples a) else 0),
          sn_LastOKAt = qt_lastOKAt q, sn_LastError = qt_lastError q,
          sn_ConsecutiveFailures = qt_consecutiveFailures q,
          sn_ProbeSuccessTotal = qt_probeSuccessTotal q, sn_ProbeFailureTotal = qt_probeFailureTotal q,
          sn_OpenSuccessTotal = qt_openSuccessTotal q, sn_OpenFailureTotal = qt_openFailureTotal q,
          sn_ActiveStreams = qt_activeStreams q,
          sn_BytesUplinkTotal = (case qt_writeCounter q of None \<Rightarrow> 0 | Some v \<Rightarrow> v),
          sn_BytesDownlinkTotal = (case qt_readCounter q of None \<Rightarrow> 0 | Some v \<Rightarrow> v)\<rparr>)"

definition snapshot_down :: "quality_status \<Rightarrow> quality_snapshot" where
  "snapshot_down st =
     \<lparr>sn_Status = st, sn_RTTAvgMs = 0, sn_LossRatio = 0, sn_LossPct = 0, sn_JitterMs = 0, sn_LastOKAt = 0,
      sn_LastError = '''', sn_ConsecutiveFailures = 0, sn_ProbeSuccessTotal = 0, sn_ProbeFailureTotal = 0,
      sn_OpenSuccessTotal = 0, sn_OpenFailureTotal = 0, sn_ActiveStreams = 0, sn_BytesUplinkTotal = 0,
      sn_BytesDownlinkTotal = 0\<rparr>"

text \<open>The receiver may be nil: \<open>None\<close>.\<close>

definition Snapshot :: "tracker option \<Rightarrow> quality_snapshot" where
  "Snapshot q = (case q of None \<Rightarrow> snapshot_down QualityStatusDisabled | Some t \<Rightarrow> snapshotLocked t)"

definition Summary :: "tracker option \<Rightarrow> quality_summary" where
  "Summary q =
     (let snap = Snapshot q in
      \<lparr>su_Status = sn_Status snap, su_RTTMs = sn_RTTAvgMs snap, su_LossPct = sn_LossPct snap,
       su_LastError = sn_LastError snap\<rparr>)"

definition Enabled :: "tracker option \<Rightarrow> bool" where
  "Enabled q = (case q of None \<Rightarrow> False | Some t \<Rightarrow> qt_enabled t)"

section \<open>Operations\<close>

fun status_value :: "quality_status \<Rightarrow> rat" where
  "status_value QualityStatusUp = 1"
| "status_value QualityStatusDegraded = Fract 1 2"
| "status_value QualityStatusDown = 0"
| "status_value QualityStatusDisabled = -1"

definition updatePrometheusLocked :: "tracker \<Rightarrow> tracker" where
  "updatePrometheusLocked q =
     (let snap = snapshotLocked q in
      q\<lparr>qt_gauges := Some \<lparr>ga_rtt = of_int (sn_RTTAvgMs snap), ga_loss = sn_LossRatio snap,
                           ga_jitter = of_int (sn_JitterMs snap), ga_status = status_value (sn_Status snap)\<rparr>\<rparr>)"

definition NewQualityTracker :: "string \<Rightarrow> string \<Rightarrow> int option \<Rightarrow> int option \<Rightarrow> bool \<Rightarrow> int \<Rightarrow> tracker" where
  "NewQualityTracker service output readCounter writeCounter enabled windowSize =
     (let q = \<lparr>qt_service = service, qt_output = output, qt_readCounter = readCounter,
               qt_writeCounter = writeCounter, qt_enabled = enabled,
               qt_windowSize = (if windowSize \<le> 0 then defaultProbeWindowSize else windowSize),
               qt_openSuccessTotal = 0, qt_openFailureTotal = 0, qt_activeStreams = 0,
               qt_probeSuccessTotal = 0, qt_probeFailureTotal = 0, qt_consecutiveFailures = 0,
               qt_samples = [], qt_lastOKAt = 0, qt_lastError = '''', qt_recorded = None,
               qt_gauges = None, qt_successCounter = 0, qt_failureCounter = 0\<rparr>
      in if service \<noteq> '''' \<or> output \<noteq> '''' then updatePrometheusLocked q else q)"

definition appendSample :: "probe_sample \<Rightarrow> tracker \<Rightarrow> tracker" where
  "appendSample x q =
     (let xs = qt_samples q @ [x] in
      q\<lparr>qt_samples := (if int (length xs) > qt_windowSize q then take_last (nat (qt_windowSize q)) xs else xs)\<rparr>)"

definition record_probe :: "int \<times> bool \<times> int \<times> string \<Rightarrow> tracker \<Rightarrow> tracker" where
  "record_probe r q = q\<lparr>qt_recorded := map_option (\<lambda>rs. rs @ [r]) (qt_recorded q)\<rparr>"

text \<open>\<open>rtt.Milliseconds()\<close> of a duration in nanoseconds.\<close>

definition milliseconds :: "int \<Rightarrow> int" where
  "milliseconds d = go_div d 1000000"

definition RecordProbeSuccess :: "int \<Rightarrow> int \<Rightarrow> tracker \<Rightarrow> tracker" where
  "RecordProbeSuccess now rtt q =
     (let q1 = q\<lparr>qt_successCounter := qt_successCounter q + 1,
                 qt_probeSuccessTotal := qt_probeSuccessTotal q + 1, qt_consecutiveFailures := 0,
                 qt_lastOKAt := now, qt_lastError := ''''\<rparr>;
          ms = milliseconds rtt
      in record_probe (now, True, ms, '''')
           (updatePrometheusLocked (appendSample \<lparr>ps_success = True, ps_rttMS = ms\<rparr> q1)))"

definition RecordProbeFailure :: "int \<Rightarrow> string option \<Rightarrow> tracker \<Rightarrow> tracker" where
  "RecordProbeFailure now err q =
     (let q1 = q\<lparr>qt_failureCounter := qt_failureCounter q + 1,
                 qt_probeFailureTotal := qt_probeFailureTotal q + 1,
                 qt_consecutiveFailures := qt_consecutiveFailures q + 1,
                 qt_lastError := (case err of None \<Rightarrow> qt_lastError q | Some e \<Rightarrow> e)\<rparr>
      in record_probe (now, False, -1, (case err of None \<Rightarrow> '''' | Some e \<Rightarrow> e))
           (updatePrometheusLocked (appendSample \<lparr>ps_success = False, ps_rttMS = 0\<rparr> q1)))"

definition RecordOpenSuccess :: "tracker \<Rightarrow> tracker" where
  "RecordOpenSuccess q = q\<lparr>qt_openSuccessTotal := qt_openSuccessTotal q + 1\<rparr>"

definition RecordOpenFailure :: "tracker \<Rightarrow> tracker" where
  "RecordOpenFailure q = q\<lparr>qt_openFailureTotal := qt_openFailureTotal q + 1\<rparr>"

definition RecordStreamOpen :: "tracker \<Rightarrow> tracker" where
  "RecordStreamOpen q = q\<lparr>qt_activeStreams := qt_activeStreams q + 1\<rparr>"

definition RecordStreamClose :: "tracker \<Rightarrow> tracker" where
  "RecordStreamClose q = q\<lparr>qt_activeStreams := qt_activeStreams q - 1\<rparr>"

datatype tracker_event =
    ProbeSuccess int int | ProbeFailure int "string option"
  | OpenSuccess | OpenFailure | StreamOpen | StreamClose

fun tracker_apply :: "tracker_event \<Rightarrow> tracker \<Rightarrow> tracker" where
  "tracker_apply (ProbeSuccess now rtt) q = RecordProbeSuccess now rtt q"
| "tracker_apply (ProbeFailure now err) q = RecordProbeFailure now err q"
| "tracker_apply OpenSuccess q = RecordOpenSuccess q"
| "tracker_apply OpenFailure q = RecordOpenFailure q"
| "tracker_apply StreamOpen q = RecordStreamOpen q"
| "tracker_apply StreamClose q = RecordStreamClose q"

definition tracker_run :: "tracker_event list \<Rightarrow> tracker \<Rightarrow> tracker" where
  "tracker_run es q = fold tracker_apply es q"

section \<open>Specification: what a history of calls amounts to\<close>

fun outcome :: "tracker_event \<Rightarrow> probe_sample option" where
  "outcome (ProbeSuccess now rtt) = Some \<lparr>ps_success = True, ps_rttMS = milliseconds rtt\<rparr>"
| "outcome (ProbeFailure now err) = Some \<lparr>ps_success = False, ps_rttMS = 0\<rparr>"
| "outcome _ = None"

definition outcomes :: "tracker_event list \<Rightarrow> probe_sample list" where
  "outcomes es = List.map_filter outcome es"

text \<open>The probe calls of either kind.\<close>

fun is_success :: "tracker_event \<Rightarrow> bool" where
  "is_success (ProbeSuccess now rtt) \<longleftrightarrow> True"
| "is_success _ \<longleftrightarrow> False"

fun is_failure :: "tracker_event \<Rightarrow> bool" where
  "is_failure (ProbeFailure now err) \<longleftrightarrow> True"
| "is_failure _ \<longleftrightarrow> False"

definition window_of :: "int \<Rightarrow> nat" where
  "window_of windowSize = nat (if windowSize \<le> 0 then 5 else windowSize)"


section \<open>Library\<close>

lemma outcomes_simps [simp]:
  "outcomes [] = []"
  "outcomes (es @ [e]) = outcomes es @ (case outcome e of None \<Rightarrow> [] | Some x \<Rightarrow> [x])"
  by (auto simp: outcomes_def List.map_filter_def split: option.splits)

lemma tracker_run_simps [simp]:
  "tracker_run [] q = q" "tracker_run (es @ [e]) q = tracker_apply e (tracker_run es q)"
  by (simp_all add: tracker_run_def)

lemma updatePrometheus_simps [simp]:
  "qt_samples (updatePrometheusLocked q) = qt_samples q"
  "qt_windowSize (updatePrometheusLocked q) = qt_windowSize q"
  "qt_enabled (updatePrometheusLocked q) = qt_enabled q"
  "qt_consecutiveFailures (updatePrometheusLocked q) = qt_consecutiveFailures q"
  "qt_activeStreams (updatePrometheusLocked q) = qt_activeStreams q"
  "qt_recorded (updatePrometheusLocked q) = qt_recorded q"
  "qt_probeSuccessTotal (updatePrometheusLocked q) = qt_probeSuccessTotal q"
  "qt_probeFailureTotal (updatePrometheusLocked q) = qt_probeFailureTotal q"
  "qt_openSuccessTotal (updatePrometheusLocked q) = qt_openSuccessTotal q"
  "qt_openFailureTotal (updatePrometheusLocked q) = qt_openFailureTotal q"
  "qt_successCounter (updatePrometheusLocked q) = qt_successCounter q"
  "qt_failureCounter (updatePrometheusLocked q) = qt_failureCounter q"
  by (simp_all add: updatePrometheusLocked_def Let_def)

lemma appendSample_simps [simp]:
  "qt_windowSize (appendSample x q) = qt_windowSize q"
  "qt_enabled (appendSample x q) = qt_enabled q"
  "qt_consecutiveFailures (appendSample x q) = qt_consecutiveFailures q"
  "qt_activeStreams (appendSample x q) = qt_activeStreams q"
  "qt_recorded (appendSample x q) = qt_recorded q"
  "qt_probeSuccessTotal (appendSample x q) = qt_probeSuccessTotal q"
  "qt_probeFailureTotal (appendSample x q) = qt_probeFailureTotal q"
  "qt_openSuccessTotal (appendSample x q) = qt_openSuccessTotal q"
  "qt_openFailureTotal (appendSample x q) = qt_openFailureTotal q"
  "qt_successCounter (appendSample x q) = qt_successCounter q"
  "qt_failureCounter (appendSample x q) = qt_failureCounter q"
  by (simp_all add: appendSample_def Let_def)

lemma record_probe_simps [simp]:
  "qt_samples (record_probe r q) = qt_samples q"
  "qt_windowSize (record_probe r q) = qt_windowSize q"
  "qt_enabled (record_probe r q) = qt_enabled q"
  "qt_consecutiveFailures (record_probe r q) = qt_consecutiveFailures q"
  "qt_activeStreams (record_probe r q) = qt_activeStreams q"
  "qt_gauges (record_probe r q) = qt_gauges q"
  "qt_probeSuccessTotal (record_probe r q) = qt_probeSuccessTotal q"
  "qt_probeFailureTotal (record_probe r q) = qt_probeFailureTotal q"
  "qt_openSuccessTotal (record_probe r q) = qt_openSuccessTotal q"
  "qt_openFailureTotal (record_probe r q) = qt_openFailureTotal q"
  "qt_successCounter (record_probe r q) = qt_successCounter q"
  "qt_failureCounter (record_probe r q) = qt_failureCounter q"
  by (simp_all add: record_probe_def)

lemma appendSample_window:
  "0 < qt_windowSize q \<Longrightarrow> qt_samples q = take_last (nat (qt_windowSize q)) xs \<Longrightarrow>
   qt_samples (appendSample x q) = take_last (nat (qt_windowSize q)) (xs @ [x])"
  using take_last_append_take_last [of "nat (qt_windowSize q)" xs "[x]"]
  by (auto simp: appendSample_def Let_def take_last_all nat_le_iff)

lemma new_tracker_simps [simp]:
  "qt_samples (NewQualityTracker sv out rc wc en w) = []"
  "qt_windowSize (NewQualityTracker sv out rc wc en w) = int (window_of w)"
  "qt_enabled (NewQualityTracker sv out rc wc en w) = en"
  "qt_consecutiveFailures (NewQualityTracker sv out rc wc en w) = 0"
  "qt_activeStreams (NewQualityTracker sv out rc wc en w) = 0"
  "qt_probeSuccessTotal (NewQualityTracker sv out rc wc en w) = 0"
  "qt_probeFailureTotal (NewQualityTracker sv out rc wc en w) = 0"
  "qt_openSuccessTotal (NewQualityTracker sv out rc wc en w) = 0"
  "qt_openFailureTotal (NewQualityTracker sv out rc wc en w) = 0"
  "qt_successCounter (NewQualityTracker sv out rc wc en w) = 0"
  "qt_failureCounter (NewQualityTracker sv out rc wc en w) = 0"
  by (simp_all add: NewQualityTracker_def Let_def window_of_def defaultProbeWindowSize_def)

lemma window_of_pos: "0 < window_of w"
  by (simp add: window_of_def)

text \<open>The fields of a tracker as functions of its history.\<close>

definition tracks :: "bool \<Rightarrow> nat \<Rightarrow> tracker_event list \<Rightarrow> tracker \<Rightarrow> bool" where
  "tracks en w es q \<longleftrightarrow>
     qt_enabled q = en \<and> qt_windowSize q = int w \<and> qt_samples q = take_last w (outcomes es) \<and>
     qt_consecutiveFailures q = int (length (takeWhile (\<lambda>x. \<not> ps_success x) (rev (outcomes es)))) \<and>
     qt_probeSuccessTotal q = int (length (filter is_success es)) \<and> qt_successCounter q = length (filter is_success es) \<and>
     qt_probeFailureTotal q = int (length (filter is_failure es)) \<and> qt_failureCounter q = length (filter is_failure es) \<and>
     qt_openSuccessTotal q = int (count_list es OpenSuccess) \<and> qt_openFailureTotal q = int (count_list es OpenFailure) \<and>
     qt_activeStreams q = int (count_list es StreamOpen) - int (count_list es StreamClose)"

lemma tracks_step: "0 < w \<Longrightarrow> tracks en w es q \<Longrightarrow> tracks en w (es @ [e]) (tracker_apply e q)"
  by (cases e) (simp_all add: tracks_def RecordProbeSuccess_def RecordProbeFailure_def RecordOpenSuccess_def
      RecordOpenFailure_def RecordStreamOpen_def RecordStreamClose_def Let_def appendSample_window [where xs = "outcomes es"])

lemma tracks_run: "tracks en (window_of w) es (tracker_run es (NewQualityTracker sv out rc wc en w))"
proof (induction es rule: rev_induct)
  case Nil
  show ?case by (simp add: tracks_def take_last_def)
next
  case (snoc e es)
  then show ?case by (simp add: tracks_step window_of_pos)
qed

lemma status_fold:
  "foldl (\<lambda>(s, f) x. if ps_success x then (True, f) else (s, True)) (a, b) xs =
   (a \<or> list_ex ps_success xs, b \<or> \<not> list_all ps_success xs)"
  by (induction xs arbitrary: a b) auto


text \<open>The loop of the snapshot.\<close>

lemma acc_counts:
  "ac_ok (foldl acc_step a xs) = ac_ok a + int (length (filter ps_success xs)) \<and>
   ac_fail (foldl acc_step a xs) = ac_fail a + int (length (filter (\<lambda>x. \<not> ps_success x) xs)) \<and>
   ac_total (foldl acc_step a xs) = ac_total a + sum_list (map ps_rttMS (filter ps_success xs))"
  by (induction xs arbitrary: a) (auto simp: acc_step_def Let_def)

definition acc_bounded :: "int \<Rightarrow> int \<Rightarrow> nat \<Rightarrow> sample_acc \<Rightarrow> bool" where
  "acc_bounded lo hi n a \<longleftrightarrow>
     0 \<le> ac_jitterSamples a \<and> ac_jitterSamples a \<le> ac_ok a \<and>
     lo * ac_ok a \<le> ac_total a \<and> ac_total a \<le> hi * ac_ok a \<and> 0 \<le> ac_ok a \<and> ac_ok a \<le> int n \<and>
     0 \<le> ac_jitter a \<and> ac_jitter a \<le> (hi - lo) * ac_jitterSamples a \<and>
     (ac_last a > 0 \<longrightarrow> lo \<le> ac_last a \<and> ac_last a \<le> hi)"

lemma acc_step_bounded:
  assumes "acc_bounded lo hi n a" "ps_success x \<Longrightarrow> lo \<le> ps_rttMS x \<and> ps_rttMS x \<le> hi" "0 \<le> lo"
  shows "acc_bounded lo hi (Suc n) (acc_step a x)"
proof (cases "ps_success x")
  case False
  then show ?thesis using assms by (simp add: acc_bounded_def acc_step_def)
next
  case True
  then have r: "lo \<le> ps_rttMS x" "ps_rttMS x \<le> hi" using assms(2) by auto
  have "\<bar>ps_rttMS x - ac_last a\<bar> \<le> hi - lo" if "ac_last a > 0"
    using r that assms(1) by (auto simp: acc_bounded_def)
  then show ?thesis using True r assms(1,3)
    by (auto simp: acc_bounded_def acc_step_def Let_def algebra_simps)
qed

lemma acc_bounded_fold:
  assumes "list_all (\<lambda>x. ps_success x \<longrightarrow> lo \<le> ps_rttMS x \<and> ps_rttMS x \<le> hi) xs" "0 \<le> lo" "acc_bounded lo hi n a"
  shows "acc_bounded lo hi (n + length xs) (foldl acc_step a xs)"
  using assms
proof (induction xs arbitrary: a n)
  case (Cons x xs)
  then show ?case using Cons.IH [of "Suc n" "acc_step a x"] acc_step_bounded [of lo hi n a x] by simp
qed simp

lemma acc_bounded_zero: "lo \<le> hi \<Longrightarrow> acc_bounded lo hi 0 acc_zero"
  by (simp add: acc_bounded_def acc_zero_def)

lemma go_div_between:
  fixes t k :: int
  assumes "0 < k" "0 \<le> lo" "lo * k \<le> t" "t \<le> hi * k"
  shows "lo \<le> go_div t k \<and> go_div t k \<le> hi"
proof -
  have "0 \<le> lo * k" using assms(1,2) by simp
  then have "0 \<le> t" using assms(3) by linarith
  then have "go_div t k = t div k" using assms(1) by simp
  moreover have "lo \<le> t div k" using assms(1,3) zdiv_mono1 [of "lo * k" t k] by simp
  moreover have "t div k \<le> hi" using assms(1,4) zdiv_mono1 [of t "hi * k" k] by simp
  ultimately show ?thesis by simp
qed

definition gauges_of :: "tracker \<Rightarrow> gauges" where
  "gauges_of q = (let snap = Snapshot (Some q) in
     \<lparr>ga_rtt = of_int (sn_RTTAvgMs snap), ga_loss = sn_LossRatio snap, ga_jitter = of_int (sn_JitterMs snap),
      ga_status = status_value (sn_Status snap)\<rparr>)"

lemma gauges_of_cong:
  "qt_samples p = qt_samples q \<Longrightarrow> qt_enabled p = qt_enabled q \<Longrightarrow>
   qt_consecutiveFailures p = qt_consecutiveFailures q \<Longrightarrow> gauges_of p = gauges_of q"
  by (simp add: gauges_of_def Snapshot_def snapshotLocked_def calcStatusLocked_def status_fold Let_def)

lemma gauges_update: "qt_gauges (updatePrometheusLocked q) = Some (gauges_of q)"
  by (simp add: updatePrometheusLocked_def gauges_of_def Snapshot_def Let_def)

lemma gauges_current: "qt_gauges q = Some (gauges_of q) \<Longrightarrow> qt_gauges (tracker_apply e q) = Some (gauges_of (tracker_apply e q))"
  by (cases e) (auto simp: RecordProbeSuccess_def RecordProbeFailure_def RecordOpenSuccess_def RecordOpenFailure_def
      RecordStreamOpen_def RecordStreamClose_def Let_def gauges_update intro!: gauges_of_cong)

section \<open>Properties\<close>


text \<open>
  The figures of a snapshot are sound. When every successful round trip of the history lies
  between \<open>lo\<close> and \<open>hi\<close> milliseconds, the loss ratio is the failed share of the window, between 0
  and 1, the average round trip of a window with a success lies between \<open>lo\<close> and \<open>hi\<close>, the jitter
  is at most \<open>hi - lo\<close>, and the sums the loop forms stay below \<open>windowSize * hi\<close>, so they fit an
  \<open>int64\<close> when that product does.
\<close>

theorem snapshot_sound:
  assumes "list_all (\<lambda>x. ps_success x \<longrightarrow> lo \<le> ps_rttMS x \<and> ps_rttMS x \<le> hi) (outcomes es)"
    and "0 \<le> lo" and "lo \<le> hi"
  shows "let q = tracker_run es (NewQualityTracker sv out rc wc en w);
             win = take_last (window_of w) (outcomes es);
             snap = Snapshot (Some q); a = foldl acc_step acc_zero (qt_samples q)
         in (win \<noteq> [] \<longrightarrow> sn_LossRatio snap = Fract (int (length (filter (\<lambda>x. \<not> ps_success x) win))) (int (length win))) \<and>
            0 \<le> sn_LossRatio snap \<and> sn_LossRatio snap \<le> 1 \<and>
            (list_ex ps_success win \<longrightarrow> lo \<le> sn_RTTAvgMs snap \<and> sn_RTTAvgMs snap \<le> hi) \<and>
            0 \<le> sn_JitterMs snap \<and> sn_JitterMs snap \<le> hi - lo \<and>
            ac_total a \<le> int (window_of w) * hi \<and> ac_jitter a \<le> int (window_of w) * hi"
proof -
  let ?q = "tracker_run es (NewQualityTracker sv out rc wc en w)"
  define win where "win = take_last (window_of w) (outcomes es)"
  have s: "qt_samples ?q = win" using tracks_run [of en w es sv out rc wc] by (simp add: tracks_def win_def)
  have "list_all (\<lambda>x. ps_success x \<longrightarrow> lo \<le> ps_rttMS x \<and> ps_rttMS x \<le> hi) win"
    using assms(1) set_take_last [of "window_of w" "outcomes es"] by (auto simp: list_all_iff win_def)
  then have b: "acc_bounded lo hi (length win) (foldl acc_step acc_zero win)"
    using acc_bounded_fold [OF _ assms(2) acc_bounded_zero [OF assms(3)]] by fastforce
  let ?a = "foldl acc_step acc_zero win"
  have ok: "ac_ok ?a = int (length (filter ps_success win))"
    and fl: "ac_fail ?a = int (length (filter (\<lambda>x. \<not> ps_success x) win))"
    using acc_counts [of acc_zero win] by (simp_all add: acc_zero_def)
  have pos: "0 < ac_ok ?a \<longleftrightarrow> list_ex ps_success win"
    using ok by (auto simp: list_ex_iff filter_empty_conv)
  have avg: "0 < ac_ok ?a \<Longrightarrow> lo \<le> go_div (ac_total ?a) (ac_ok ?a) \<and> go_div (ac_total ?a) (ac_ok ?a) \<le> hi"
    using b assms(2) by (intro go_div_between) (auto simp: acc_bounded_def)
  have jit: "0 < ac_jitterSamples ?a \<Longrightarrow>
      0 \<le> go_div (ac_jitter ?a) (ac_jitterSamples ?a) \<and> go_div (ac_jitter ?a) (ac_jitterSamples ?a) \<le> hi - lo"
    using b by (intro go_div_between) (auto simp: acc_bounded_def)
  have len: "length win \<le> window_of w" by (simp add: win_def)
  have fle: "length (filter (\<lambda>x. \<not> ps_success x) win) \<le> length win" by simp
  have bound: "ac_total ?a \<le> int (window_of w) * hi \<and> ac_jitter ?a \<le> int (window_of w) * hi"
  proof
    have "ac_ok ?a \<le> int (window_of w)" using b len by (simp add: acc_bounded_def)
    then have m: "hi * ac_ok ?a \<le> int (window_of w) * hi" "0 \<le> hi"
      using assms(2,3) mult_left_mono [of "ac_ok ?a" "int (window_of w)" hi] by (simp_all add: mult.commute)
    then show "ac_total ?a \<le> int (window_of w) * hi" using b unfolding acc_bounded_def by linarith
    have "(hi - lo) * ac_jitterSamples ?a \<le> hi * ac_ok ?a"
      using b assms(2,3) by (intro mult_mono) (auto simp: acc_bounded_def)
    then show "ac_jitter ?a \<le> int (window_of w) * hi" using b m unfolding acc_bounded_def by linarith
  qed
  have lr: "0 \<le> sn_LossRatio (snapshotLocked ?q) \<and> sn_LossRatio (snapshotLocked ?q) \<le> 1"
    using fle by (auto simp: snapshotLocked_def Let_def s fl zero_le_Fract_iff Fract_le_one_iff)
  show ?thesis
    using pos avg jit bound lr assms(2,3)
    by (auto simp: Let_def Snapshot_def win_def [symmetric] s snapshotLocked_def fl)
qed

theorem snapshot_sound_witness:
  "sn_RTTAvgMs (Snapshot (Some (tracker_run
     [ProbeSuccess 1 10000000, ProbeFailure 2 (Some ''x''), ProbeSuccess 3 30000000]
     (NewQualityTracker ''t'' ''o'' None None True 5)))) = 20 \<and>
   sn_LossRatio (Snapshot (Some (tracker_run
     [ProbeSuccess 1 10000000, ProbeFailure 2 (Some ''x''), ProbeSuccess 3 30000000]
     (NewQualityTracker ''t'' ''o'' None None True 5)))) = Fract 1 3"
proof -
  let ?es = "[ProbeSuccess 1 10000000, ProbeFailure 2 (Some ''x''), ProbeSuccess 3 30000000]"
  have o: "outcomes ?es = [\<lparr>ps_success = True, ps_rttMS = 10\<rparr>, \<lparr>ps_success = False, ps_rttMS = 0\<rparr>,
      \<lparr>ps_success = True, ps_rttMS = 30\<rparr>]"
    by (simp add: outcomes_def List.map_filter_def milliseconds_def)
  have a: "list_all (\<lambda>x. ps_success x \<longrightarrow> 10 \<le> ps_rttMS x \<and> ps_rttMS x \<le> 30) (outcomes ?es)" by (simp add: o)
  have w: "take_last (window_of 5) (outcomes ?es) = outcomes ?es" by (simp add: o window_of_def take_last_all)
  have s: "qt_samples (tracker_run ?es (NewQualityTracker ''t'' ''o'' None None True 5)) = outcomes ?es"
    using tracks_run [of True 5 ?es "''t''" "''o''" None None] w by (simp add: tracks_def)
  have "sn_RTTAvgMs (Snapshot (Some (tracker_run ?es (NewQualityTracker ''t'' ''o'' None None True 5)))) = 20"
    unfolding Snapshot_def option.case snapshotLocked_def Let_def s o by (simp add: acc_step_def acc_zero_def Let_def)
  moreover have "sn_LossRatio (Snapshot (Some (tracker_run ?es (NewQualityTracker ''t'' ''o'' None None True 5)))) = Fract 1 3"
    using snapshot_sound [OF a, of "''t''" "''o''" None None True 5] unfolding Let_def w by (simp add: o)
  ultimately show ?thesis by blast
qed

text \<open>
  The exported gauges never lag: on a labelled tracker, after any history of calls, they
  hold the average round trip, loss ratio, jitter and status of the current snapshot.
\<close>

theorem tracker_gauges_current:
  assumes "sv \<noteq> [] \<or> out \<noteq> []"
  shows "let q = tracker_run es (NewQualityTracker sv out rc wc en w); snap = Snapshot (Some q)
         in qt_gauges q = Some \<lparr>ga_rtt = of_int (sn_RTTAvgMs snap), ga_loss = sn_LossRatio snap,
                                ga_jitter = of_int (sn_JitterMs snap), ga_status = status_value (sn_Status snap)\<rparr>"
proof -
  have "qt_gauges (tracker_run es (NewQualityTracker sv out rc wc en w)) =
          Some (gauges_of (tracker_run es (NewQualityTracker sv out rc wc en w)))"
  proof (induction es rule: rev_induct)
    case Nil
    show ?case using assms
      by (auto simp: NewQualityTracker_def Let_def gauges_update intro!: gauges_of_cong)
  qed (simp add: gauges_current)
  then show ?thesis by (simp add: gauges_of_def Let_def)
qed

theorem tracker_gauges_current_witness:
  "qt_gauges (tracker_run [ProbeFailure 2 None] (NewQualityTracker ''t'' ''o'' None None True 5)) =
     Some \<lparr>ga_rtt = 0, ga_loss = 1, ga_jitter = 0, ga_status = 0\<rparr>"
proof -
  let ?q = "tracker_run [ProbeFailure 2 None] (NewQualityTracker ''t'' ''o'' None None True 5)"
  have s: "qt_samples ?q = [\<lparr>ps_success = False, ps_rttMS = 0\<rparr>]" "qt_enabled ?q"
    using tracks_run [of True 5 "[ProbeFailure 2 None]" "''t''" "''o''" None None]
    by (simp_all add: tracks_def outcomes_def List.map_filter_def window_of_def take_last_all)
  have "(''t'' :: string) \<noteq> [] \<or> (''o'' :: string) \<noteq> []" by simp
  from tracker_gauges_current [OF this, of "[ProbeFailure 2 None]" None None True 5] show ?thesis
    unfolding Let_def Snapshot_def option.case
    by (simp add: snapshotLocked_def Let_def s calcStatusLocked_def acc_step_def acc_zero_def rat_number_collapse)
qed

end
