(* ===== verification/RouteMonitor.thy ===== *)
theory RouteMonitor
  imports RouteConfig Quality "HOL-Library.AList"
begin

text \<open>
  The full-path monitor that picks the preferred member of a smart route:
  \<open>src/tun/route_quality.go\<close>, the classification of \<open>src/tun/route_quality_probe.go\<close> and the
  switch log of \<open>src/tun/route_switch_log.go\<close>. Times and durations are nanoseconds, times counted
  from Go's zero time. A Go map that is only iterated is a list of its entries in the order of
  the iteration, which is arbitrary. Dereferencing a missing member state panics: \<open>None\<close>.
\<close>

section \<open>Services as the routes see them\<close>

text \<open>A running service instance; \<open>sv_id\<close> is the identity of the instance.\<close>

datatype service_kind = KServer | KFrpc | KFrps | KDisabled

record svc =
  sv_id :: nat
  sv_cfg :: config
  sv_status :: string
  sv_summary :: quality_summary
  sv_kind :: service_kind

definition memberRunning :: "svc option \<Rightarrow> bool" where
  "memberRunning s = (case s of None \<Rightarrow> False | Some x \<Rightarrow> \<not> Disabled (sv_cfg x) \<and> sv_status x = ''running'')"

definition memberAlive :: "svc option \<Rightarrow> bool" where
  "memberAlive s =
     (case s of
        None \<Rightarrow> False
      | Some x \<Rightarrow>
          if Disabled (sv_cfg x) then False
          else if sv_status x \<noteq> ''running'' then False
          else if su_Status (sv_summary x) = QualityStatusDown then False
          else True)"

section \<open>The switch log\<close>

datatype switch_reason =
    ByPriority | NoneRunning | FirstRunning | StableRunning
  | Failover int int | Recovered int | QualityFailover int int | QualitySwitch int int

record switch_event =
  ev_Time :: int
  ev_From :: string
  ev_To :: string
  ev_Reason :: switch_reason

definition routeSwitchLogMax :: nat where "routeSwitchLogMax = 20"

text \<open>The first argument is what \<open>time.Now()\<close> gives in \<open>recordReason\<close> itself.\<close>

definition recordReason :: "int \<Rightarrow> string \<Rightarrow> string \<Rightarrow> switch_reason \<Rightarrow> switch_event list \<Rightarrow> switch_event list" where
  "recordReason now from to reason events =
     (let es = events @ [\<lparr>ev_Time = now, ev_From = from, ev_To = to, ev_Reason = reason\<rparr>] in
      if length es > routeSwitchLogMax then take_last routeSwitchLogMax es else es)"

definition record_switch :: "int \<Rightarrow> string \<Rightarrow> string \<Rightarrow> switch_event list \<Rightarrow> switch_event list" where
  "record_switch now from to events = recordReason now from to ByPriority events"

definition log_list :: "switch_event list \<Rightarrow> switch_event list" where
  "log_list events = map (\<lambda>i. events ! (length events - 1 - i)) [0..<length events]"

section \<open>Probe results\<close>

datatype probe_status = ProbeNone | ProbeEvaluating | ProbeNormal | ProbeSlow | ProbeFailed | ProbeCommon

record probe_result =
  pb_status :: probe_status
  pb_duration :: int
  pb_err :: string
  pb_connectivity :: string

definition probe_zero :: probe_result where
  "probe_zero = \<lparr>pb_status = ProbeNone, pb_duration = 0, pb_err = [], pb_connectivity = []\<rparr>"

text \<open>
  What one HTTP exchange of a probe gives: \<open>client.Do\<close> fails, or a response with a status code, a
  content encoding and a body that may break off. The body is read through a limit one byte
  above the expected size.
\<close>

record http_response =
  h_status :: int
  h_encoding :: string
  h_body :: nat
  h_broken :: bool

datatype probe_error = RequestFailed | WrongStatus int int | Compressed | ReadFailed | WrongSize int int

definition routeProbeRequest :: "http_response option \<Rightarrow> int \<Rightarrow> int \<Rightarrow> probe_error option" where
  "routeProbeRequest resp status expected =
     (case resp of
        None \<Rightarrow> Some RequestFailed
      | Some h \<Rightarrow>
          if h_status h \<noteq> status then Some (WrongStatus (h_status h) status)
          else if expected < 0 then None
          else if h_encoding h \<noteq> [] \<and> h_encoding h \<noteq> ''identity'' then Some Compressed
          else
            let n = min (int (h_body h)) (expected + 1) in
            if h_broken h \<and> int (h_body h) \<le> expected then Some ReadFailed
            else if n \<noteq> expected then Some (WrongSize n expected)
            else None)"

text \<open>
  \<open>probeRouteWithClient\<close>: the download decides between normal, slow and failed; after a failure the
  connectivity target tells whether the path works at all, unless the context is done.
\<close>

definition probeRouteWithClient ::
  "(probe_error \<Rightarrow> string) \<Rightarrow> http_response option \<Rightarrow> int \<Rightarrow> bool \<Rightarrow> http_response option \<Rightarrow> quality_config \<Rightarrow> probe_result" where
  "probeRouteWithClient msg download elapsed ctxDone connectivity c =
     (case routeProbeRequest download (DownloadStatus c) (DownloadBytes c) of
        None \<Rightarrow> \<lparr>pb_status = (if elapsed > NormalMS c * 1000000 then ProbeSlow else ProbeNormal),
                 pb_duration = elapsed, pb_err = [], pb_connectivity = []\<rparr>
      | Some e \<Rightarrow>
          \<lparr>pb_status = ProbeFailed, pb_duration = elapsed, pb_err = msg e,
           pb_connectivity = (if ctxDone then []
                              else if routeProbeRequest connectivity (ConnectivityStatus c) (-1) = None then ''ok''
                              else ''failed'')\<rparr>)"

section \<open>The monitor\<close>

definition routeQualityWindow :: nat where "routeQualityWindow = 20"

record member_state =
  m_Status :: probe_status
  m_Samples :: int
  m_BadSamples :: int
  m_ConsecutiveFailures :: int
  m_ConsecutiveNormal :: int
  m_LastDurationMS :: int
  m_LastError :: string
  m_Connectivity :: string
  m_LastProbeAt :: int
  m_window :: "bool list"
  m_service :: "svc option"

definition evaluating :: "svc option \<Rightarrow> member_state" where
  "evaluating s =
     \<lparr>m_Status = ProbeEvaluating, m_Samples = 0, m_BadSamples = 0, m_ConsecutiveFailures = 0, m_ConsecutiveNormal = 0,
      m_LastDurationMS = 0, m_LastError = [], m_Connectivity = [], m_LastProbeAt = 0, m_window = [], m_service = s\<rparr>"

record history_record =
  hr_TunnelUUID :: string
  hr_Time :: int
  hr_Kind :: string
  hr_RouteUUID :: string
  hr_RouteName :: string
  hr_Status :: probe_status
  hr_DurationMS :: int
  hr_Connectivity :: string
  hr_Error :: string

text \<open>
  \<open>q_history\<close> collects the records handed to the history store, \<open>None\<close> when there is none. \<open>q_clock\<close> is the
  clock as \<open>recordReason\<close> reads it, the \<open>n\<close>-th reading for the \<open>n\<close>-th switch, and \<open>q_ticks\<close> the number
  of readings so far; the round has its own reading, the \<open>now\<close> of the operations below.
\<close>

record monitor =
  q_cfg :: route_config
  q_states :: "string \<rightharpoonup> member_state"
  q_current :: string
  q_lastSwitch :: int
  q_log :: "switch_event list"
  q_done :: bool
  q_history :: "history_record list option"
  q_clock :: "nat \<Rightarrow> int"
  q_ticks :: nat

definition newRouteQualityMonitor :: "route_config \<Rightarrow> history_record list option \<Rightarrow> (nat \<Rightarrow> int) \<Rightarrow> monitor" where
  "newRouteQualityMonitor cfg hist clock =
     \<lparr>q_cfg = cfg, q_states = (\<lambda>n. if n \<in> set (r_Members cfg) then Some (evaluating None) else None),
      q_current = [], q_lastSwitch = 0, q_log = [], q_done = False, q_history = hist,
      q_clock = clock, q_ticks = 0\<rparr>"

definition chooseLocked :: "string \<Rightarrow> switch_reason \<Rightarrow> int \<Rightarrow> monitor \<Rightarrow> monitor" where
  "chooseLocked name reason now q =
     (if name = q_current q then q
      else q\<lparr>q_log := recordReason (q_clock q (q_ticks q)) (q_current q) name reason (q_log q), q_ticks := Suc (q_ticks q),
              q_current := name, q_lastSwitch := now\<rparr>)"

fun containsMember :: "string list \<Rightarrow> string \<Rightarrow> bool" where
  "containsMember [] name \<longleftrightarrow> False"
| "containsMember (n # ns) name \<longleftrightarrow> (if n = name then True else containsMember ns name)"

fun first_stable :: "(string \<rightharpoonup> member_state) \<Rightarrow> string list \<Rightarrow> string option" where
  "first_stable st [] = None"
| "first_stable st (c # cs) =
     (case st c of
        None \<Rightarrow> first_stable st cs
      | Some s \<Rightarrow> if m_ConsecutiveNormal s \<ge> 2 then Some c else first_stable st cs)"

definition ensureCurrentLocked :: "string list \<Rightarrow> int \<Rightarrow> monitor \<Rightarrow> monitor" where
  "ensureCurrentLocked available now q =
     (if containsMember available (q_current q) then q
      else
        let (name, reason) =
          (case available of
             [] \<Rightarrow> ([], NoneRunning)
           | a # _ \<Rightarrow>
               if r_Policy (q_cfg q) = ''priority'' then
                 (case first_stable (q_states q) available of
                    None \<Rightarrow> (a, FirstRunning)
                  | Some c \<Rightarrow> (c, StableRunning))
               else (a, FirstRunning))
        in chooseLocked name reason now q)"

definition monitor_preferred :: "string list \<Rightarrow> int \<Rightarrow> monitor \<Rightarrow> string \<times> monitor" where
  "monitor_preferred available now q =
     (let q' = ensureCurrentLocked available now q in (q_current q', q'))"

definition recordHistory :: "member_state \<Rightarrow> monitor \<Rightarrow> monitor" where
  "recordHistory s q =
     (case (q_history q, m_service s) of
        (Some hs, Some x) \<Rightarrow>
          q\<lparr>q_history := Some (hs @ [\<lparr>hr_TunnelUUID = UUID (sv_cfg x), hr_Time = m_LastProbeAt s, hr_Kind = ''route'',
             hr_RouteUUID = r_UUID (q_cfg q), hr_RouteName = r_Name (q_cfg q), hr_Status = m_Status s,
             hr_DurationMS = m_LastDurationMS s, hr_Connectivity = m_Connectivity s, hr_Error = m_LastError s\<rparr>])\<rparr>
      | _ \<Rightarrow> q)"

text \<open>The body of the loop over the results for one member's state.\<close>

definition apply_result :: "bool \<Rightarrow> int \<Rightarrow> probe_result \<Rightarrow> member_state \<Rightarrow> member_state" where
  "apply_result allFailed now r s =
     (let s1 = s\<lparr>m_Status := pb_status r, m_LastDurationMS := milliseconds (pb_duration r), m_LastError := pb_err r,
                 m_Connectivity := pb_connectivity r, m_LastProbeAt := now\<rparr>;
          s2 = (if pb_status r = ProbeFailed then
                  s1\<lparr>m_ConsecutiveNormal := 0,
                     m_ConsecutiveFailures :=
                       (if allFailed \<and> pb_connectivity r = ''ok'' then 0 else m_ConsecutiveFailures s1 + 1)\<rparr>
                else
                  s1\<lparr>m_ConsecutiveFailures := 0,
                     m_ConsecutiveNormal := (if pb_status r = ProbeNormal then m_ConsecutiveNormal s1 + 1 else 0)\<rparr>)
      in if allFailed then s2\<lparr>m_Status := ProbeCommon\<rparr>
         else
           let w = m_window s2 @ [pb_status r \<noteq> ProbeNormal];
               w' = (if length w > routeQualityWindow then tl w else w)
           in s2\<lparr>m_window := w', m_Samples := int (length w'), m_BadSamples := int (length (filter id w'))\<rparr>)"

fun apply_results :: "bool \<Rightarrow> int \<Rightarrow> (string \<times> probe_result) list \<Rightarrow> monitor \<Rightarrow> monitor" where
  "apply_results allFailed now [] q = q"
| "apply_results allFailed now ((name, r) # rs) q =
     (case q_states q name of
        None \<Rightarrow> apply_results allFailed now rs q
      | Some s \<Rightarrow>
          let s' = apply_result allFailed now r s in
          apply_results allFailed now rs (recordHistory s' (q\<lparr>q_states := (q_states q)(name \<mapsto> s')\<rparr>)))"

text \<open>The failover loop: the first other available member with two normal probes in a row.\<close>

fun first_other_normal :: "(string \<rightharpoonup> member_state) \<Rightarrow> string \<Rightarrow> string list \<Rightarrow> (string \<times> member_state) option option" where
  "first_other_normal st cur [] = Some None"
| "first_other_normal st cur (n # ns) =
     (if n = cur then first_other_normal st cur ns
      else (case st n of
              None \<Rightarrow> None
            | Some s \<Rightarrow> if m_ConsecutiveNormal s \<ge> 2 then Some (Some (n, s)) else first_other_normal st cur ns))"

text \<open>The fall-back loop: members of higher priority only.\<close>

fun first_higher_normal :: "(string \<rightharpoonup> member_state) \<Rightarrow> string \<Rightarrow> string list \<Rightarrow> (string \<times> member_state) option option" where
  "first_higher_normal st cur [] = Some None"
| "first_higher_normal st cur (n # ns) =
     (if n = cur then Some None
      else (case st n of
              None \<Rightarrow> None
            | Some s \<Rightarrow> if m_ConsecutiveNormal s \<ge> 2 then Some (Some (n, s)) else first_higher_normal st cur ns))"

fun best_member :: "(string \<rightharpoonup> member_state) \<Rightarrow> string \<Rightarrow> string list \<Rightarrow> string option" where
  "best_member st best [] = Some best"
| "best_member st best (n # ns) =
     (case st n of
        None \<Rightarrow> None
      | Some s \<Rightarrow>
          if m_Samples s = int routeQualityWindow \<and> m_ConsecutiveFailures s = 0 then
            (case st best of
               None \<Rightarrow> None
             | Some b \<Rightarrow> best_member st (if m_BadSamples s < m_BadSamples b then n else best) ns)
          else best_member st best ns)"

definition switch_cooldown :: int where "switch_cooldown = 60 * 1000000000"

text \<open>
  The failover part common to both policies: \<open>Some (Inl q')\<close> when a switch ended the call,
  \<open>Some (Inr ())\<close> when it goes on, \<open>None\<close> for a panic.
\<close>

definition try_failover ::
  "(int \<Rightarrow> int \<Rightarrow> switch_reason) \<Rightarrow> string list \<Rightarrow> member_state \<Rightarrow> int \<Rightarrow> monitor \<Rightarrow> (monitor + unit) option" where
  "try_failover reason available cur now q =
     (if m_ConsecutiveFailures cur \<ge> 3 then
        (case first_other_normal (q_states q) (q_current q) available of
           None \<Rightarrow> None
         | Some None \<Rightarrow> Some (Inr ())
         | Some (Some (n, s)) \<Rightarrow>
             Some (Inl (chooseLocked n (reason (m_ConsecutiveFailures cur) (m_ConsecutiveNormal s)) now q)))
      else Some (Inr ()))"

definition applyPriorityLocked :: "string list \<Rightarrow> member_state \<Rightarrow> int \<Rightarrow> monitor \<Rightarrow> monitor option" where
  "applyPriorityLocked available cur now q =
     (case try_failover Failover available cur now q of
        None \<Rightarrow> None
      | Some (Inl q') \<Rightarrow> Some q'
      | Some (Inr _) \<Rightarrow>
          if now - q_lastSwitch q < switch_cooldown then Some q
          else (case first_higher_normal (q_states q) (q_current q) available of
                  None \<Rightarrow> None
                | Some None \<Rightarrow> Some q
                | Some (Some (n, s)) \<Rightarrow> Some (chooseLocked n (Recovered (m_ConsecutiveNormal s)) now q)))"

definition applyQualityLocked :: "string list \<Rightarrow> member_state \<Rightarrow> int \<Rightarrow> monitor \<Rightarrow> monitor option" where
  "applyQualityLocked available cur now q =
     (case try_failover QualityFailover available cur now q of
        None \<Rightarrow> None
      | Some (Inl q') \<Rightarrow> Some q'
      | Some (Inr _) \<Rightarrow>
          if m_Samples cur < int routeQualityWindow \<or> now - q_lastSwitch q < switch_cooldown then Some q
          else
            (case best_member (q_states q) (q_current q) available of
               None \<Rightarrow> None
             | Some best \<Rightarrow>
                 if best \<noteq> q_current q then
                   (case q_states q best of
                      None \<Rightarrow> None
                    | Some b \<Rightarrow>
                        if m_BadSamples cur - m_BadSamples b \<ge> 3
                        then Some (chooseLocked best (QualitySwitch (m_BadSamples cur) (m_BadSamples b)) now q)
                        else Some q)
                 else Some q))"

definition result_of :: "(string \<times> probe_result) list \<Rightarrow> string \<Rightarrow> probe_result" where
  "result_of results name = (case map_of results name of None \<Rightarrow> probe_zero | Some r \<Rightarrow> r)"

definition all_failed :: "(string \<times> probe_result) list \<Rightarrow> string list \<Rightarrow> bool" where
  "all_failed results available =
     foldl (\<lambda>a name. if pb_status (result_of results name) \<noteq> ProbeFailed then False else a)
           (length available > 1) available"

definition applyRound :: "(string \<times> probe_result) list \<Rightarrow> string list \<Rightarrow> int \<Rightarrow> monitor \<Rightarrow> monitor option" where
  "applyRound results available now q =
     (if q_done q then Some q
      else
        let allFailed = all_failed results available;
            q1 = apply_results allFailed now results q;
            q2 = ensureCurrentLocked available now q1
        in (case q_states q2 (q_current q2) of
              None \<Rightarrow> Some q2
            | Some cur \<Rightarrow>
                if allFailed then Some q2
                else if r_Policy (q_cfg q2) = ''priority'' then applyPriorityLocked available cur now q2
                else applyQualityLocked available cur now q2))"

text \<open>
  \<open>round\<close>: the members' services when the probes start, the result of probing each, and the
  services when the round is committed. A round whose context ended while it waited commits
  nothing. The commit loop stops at the first member that was rebuilt meanwhile.
\<close>

definition not_running_result :: probe_result where
  "not_running_result =
     \<lparr>pb_status = ProbeFailed, pb_duration = 0, pb_err = ''member not running'', pb_connectivity = ''failed''\<rparr>"

definition probe_answer :: "(svc \<Rightarrow> probe_result) \<Rightarrow> svc option \<Rightarrow> probe_result" where
  "probe_answer probe s =
     (if memberRunning s then (case s of None \<Rightarrow> not_running_result | Some x \<Rightarrow> probe x) else not_running_result)"

fun commit_members ::
  "(string \<rightharpoonup> svc) \<Rightarrow> (string \<rightharpoonup> svc) \<Rightarrow> (svc \<Rightarrow> probe_result) \<Rightarrow> string list \<Rightarrow> monitor
   \<Rightarrow> (string \<times> probe_result) list \<Rightarrow> string list
   \<Rightarrow> (monitor + monitor \<times> (string \<times> probe_result) list \<times> string list) option" where
  "commit_members started now_services probe [] q results available = Some (Inr (q, results, available))"
| "commit_members started now_services probe (name # ns) q results available =
     (if map_option sv_id (now_services name) \<noteq> map_option sv_id (started name) then Some (Inl q)
      else
        (case q_states q name of
           None \<Rightarrow> None
         | Some s \<Rightarrow>
             let q' = (if map_option sv_id (m_service s) \<noteq> map_option sv_id (now_services name)
                       then q\<lparr>q_states := (q_states q)(name \<mapsto> evaluating (now_services name))\<rparr> else q)
             in commit_members started now_services probe ns q'
                  (AList.update name (probe_answer probe (started name)) results)
                  (if memberRunning (now_services name) then available @ [name] else available)))"

definition round_commit ::
  "(string \<rightharpoonup> svc) \<Rightarrow> (string \<rightharpoonup> svc) \<Rightarrow> (svc \<Rightarrow> probe_result) \<Rightarrow> int \<Rightarrow> monitor \<Rightarrow> monitor option" where
  "round_commit started now_services probe now q =
     (if q_done q then Some q
      else (case commit_members started now_services probe (r_Members (q_cfg q)) q [] [] of
              None \<Rightarrow> None
            | Some (Inl q') \<Rightarrow> Some q'
            | Some (Inr (q', results, available)) \<Rightarrow> applyRound results available now q'))"

definition cancel :: "monitor \<Rightarrow> monitor" where
  "cancel q = q\<lparr>q_done := True\<rparr>"

section \<open>Invariant\<close>

definition member_inv :: "member_state \<Rightarrow> bool" where
  "member_inv s \<longleftrightarrow>
     length (m_window s) \<le> routeQualityWindow \<and> m_Samples s = int (length (m_window s)) \<and>
     m_BadSamples s = int (length (filter id (m_window s))) \<and>
     0 \<le> m_ConsecutiveFailures s \<and> 0 \<le> m_ConsecutiveNormal s \<and>
     (m_ConsecutiveFailures s = 0 \<or> m_ConsecutiveNormal s = 0)"

fun chained :: "switch_event list \<Rightarrow> bool" where
  "chained (e # f # es) \<longleftrightarrow> ev_To e = ev_From f \<and> chained (f # es)"
| "chained _ \<longleftrightarrow> True"

definition log_inv :: "monitor \<Rightarrow> bool" where
  "log_inv q \<longleftrightarrow>
     length (q_log q) \<le> routeSwitchLogMax \<and> chained (q_log q) \<and> list_all (\<lambda>e. ev_From e \<noteq> ev_To e) (q_log q) \<and>
     (if q_log q = [] then q_current q = [] else ev_To (last (q_log q)) = q_current q) \<and>
     length (q_log q) \<le> q_ticks q \<and> map ev_Time (q_log q) = map (q_clock q) [q_ticks q - length (q_log q)..<q_ticks q]"

definition monitor_inv :: "monitor \<Rightarrow> bool" where
  "monitor_inv q \<longleftrightarrow>
     (\<forall>n\<in>set (r_Members (q_cfg q)). q_states q n \<noteq> None) \<and>
     (\<forall>n s. q_states q n = Some s \<longrightarrow> member_inv s) \<and> log_inv q"

text \<open>
  The states a monitor can be in: created, then asked for its preference, given whole rounds of
  results for its members, committing rounds, and cancelled, in any order.
\<close>

inductive monitor_reach :: "route_config \<Rightarrow> monitor \<Rightarrow> bool" for cfg where
  created: "monitor_reach cfg (newRouteQualityMonitor cfg hist clock)"
| asked: "monitor_reach cfg q \<Longrightarrow> monitor_reach cfg (snd (monitor_preferred available now q))"
| applied: "monitor_reach cfg q \<Longrightarrow> set available \<subseteq> set (r_Members cfg) \<Longrightarrow>
    applyRound results available now q = Some q' \<Longrightarrow> monitor_reach cfg q'"
| committed: "monitor_reach cfg q \<Longrightarrow> round_commit started services probe now q = Some q' \<Longrightarrow> monitor_reach cfg q'"
| cancelled: "monitor_reach cfg q \<Longrightarrow> monitor_reach cfg (cancel q)"

section \<open>Library: the switch log\<close>

lemma chained_snoc: "chained (es @ [e]) \<longleftrightarrow> chained es \<and> (es \<noteq> [] \<longrightarrow> ev_To (last es) = ev_From e)"
  by (induction es rule: chained.induct) auto

lemma chained_Cons: "chained (e # es) \<Longrightarrow> chained es"
  by (cases es) auto

lemma chained_drop: "chained es \<Longrightarrow> chained (drop n es)"
proof (induction es arbitrary: n)
  case (Cons e es)
  then show ?case using chained_Cons by (cases n) auto
qed simp

lemma recordReason_take_last:
  "recordReason now from to reason es =
     take_last routeSwitchLogMax (es @ [\<lparr>ev_Time = now, ev_From = from, ev_To = to, ev_Reason = reason\<rparr>])"
  by (auto simp: recordReason_def Let_def take_last_all)

lemma log_list_rev: "log_list es = rev es"
  by (auto simp: log_list_def rev_nth intro!: nth_equalityI)

lemma take_last_times:
  assumes "length es \<le> t" and "map ev_Time es = map f [t - length es..<t]" and "ev_Time e = f t"
  shows "map ev_Time (take_last n (es @ [e])) = map f [Suc t - length (take_last n (es @ [e]))..<Suc t]"
proof -
  have m: "map ev_Time (es @ [e]) = map f [t - length es..<Suc t]" using assms by simp
  have "map ev_Time (take_last n (es @ [e])) = drop (length es + 1 - n) (map ev_Time (es @ [e]))"
    by (simp add: take_last_def del: map_append drop_append flip: drop_map)
  also have "\<dots> = map f [t - length es + (length es + 1 - n)..<Suc t]"
    unfolding m by (simp only: drop_map drop_upt)
  also have "t - length es + (length es + 1 - n) = Suc t - length (take_last n (es @ [e]))"
    using assms(1) by (simp add: min_def)
  finally show ?thesis .
qed

lemma log_inv_choose: "log_inv q \<Longrightarrow> log_inv (chooseLocked name reason now q)"
proof (cases "name = q_current q")
  case True
  then show "log_inv q \<Longrightarrow> ?thesis" by (simp add: chooseLocked_def)
next
  case False
  assume inv: "log_inv q"
  let ?e = "\<lparr>ev_Time = q_clock q (q_ticks q), ev_From = q_current q, ev_To = name, ev_Reason = reason\<rparr>"
  let ?l = "take_last routeSwitchLogMax (q_log q @ [?e])"
  have "chained (q_log q @ [?e])" using inv by (auto simp: chained_snoc log_inv_def split: if_splits)
  then have "chained ?l" by (simp only: take_last_def chained_drop)
  moreover have "list_all (\<lambda>e. ev_From e \<noteq> ev_To e) (q_log q @ [?e])"
    using inv False by (auto simp: log_inv_def)
  moreover have "last ?l = ?e"
    by (simp add: take_last_def last_drop routeSwitchLogMax_def)
  moreover have "?l \<noteq> []" "length ?l \<le> Suc (q_ticks q)"
    using inv by (auto simp: take_last_def routeSwitchLogMax_def log_inv_def)
  moreover have "map ev_Time ?l = map (q_clock q) [Suc (q_ticks q) - length ?l..<Suc (q_ticks q)]"
    by (rule take_last_times) (use inv in \<open>simp_all add: log_inv_def\<close>)
  ultimately show ?thesis using False set_take_last [of routeSwitchLogMax "q_log q @ [?e]"]
    by (auto simp: log_inv_def chooseLocked_def recordReason_take_last list_all_iff simp del: upt_Suc)
qed

section \<open>Library: choosing\<close>

lemma chooseLocked_simps [simp]:
  "q_states (chooseLocked n r now q) = q_states q" "q_cfg (chooseLocked n r now q) = q_cfg q"
  "q_current (chooseLocked n r now q) = n" "q_done (chooseLocked n r now q) = q_done q"
  "q_history (chooseLocked n r now q) = q_history q" "q_clock (chooseLocked n r now q) = q_clock q"
  by (simp_all add: chooseLocked_def)

lemma containsMember_iff [simp]: "containsMember ns n \<longleftrightarrow> n \<in> set ns"
  by (induction ns) auto

lemma first_stable_Some: "first_stable st ns = Some n \<Longrightarrow> n \<in> set ns \<and> (\<exists>s. st n = Some s \<and> m_ConsecutiveNormal s \<ge> 2)"
  by (induction ns) (auto split: option.splits if_splits)

lemma ensureCurrent_cases:
  obtains "q_current q \<in> set av" "ensureCurrentLocked av now q = q"
  | "q_current q \<notin> set av" "av = []" "ensureCurrentLocked av now q = chooseLocked [] NoneRunning now q"
  | n r where "q_current q \<notin> set av" "n \<in> set av" "ensureCurrentLocked av now q = chooseLocked n r now q"
proof (cases "q_current q \<in> set av")
  case True
  then show ?thesis using that(1) by (simp add: ensureCurrentLocked_def)
next
  case False
  show ?thesis
  proof (cases av)
    case Nil
    then show ?thesis using that(2) by (simp add: ensureCurrentLocked_def)
  next
    case (Cons a as)
    show ?thesis
    proof (cases "first_stable (q_states q) av")
      case None
      then have "ensureCurrentLocked av now q = chooseLocked a FirstRunning now q"
        using False Cons by (simp add: ensureCurrentLocked_def del: first_stable.simps)
      then show ?thesis using that(3) [of a] False Cons by simp
    next
      case (Some c)
      then have "c \<in> set av" using first_stable_Some by blast
      moreover have "ensureCurrentLocked av now q =
          (if r_Policy (q_cfg q) = ''priority'' then chooseLocked c StableRunning now q else chooseLocked a FirstRunning now q)"
        using False Cons Some by (simp add: ensureCurrentLocked_def del: first_stable.simps)
      ultimately show ?thesis using that(3) [of c] that(3) [of a] False Cons
        by (cases "r_Policy (q_cfg q) = ''priority''") auto
    qed
  qed
qed

lemma ensureCurrent_simps [simp]:
  "q_states (ensureCurrentLocked av now q) = q_states q" "q_cfg (ensureCurrentLocked av now q) = q_cfg q"
  "q_done (ensureCurrentLocked av now q) = q_done q" "q_history (ensureCurrentLocked av now q) = q_history q"
  by (cases rule: ensureCurrent_cases [of q av now]; simp)+

lemma ensureCurrent_in: "av \<noteq> [] \<Longrightarrow> q_current (ensureCurrentLocked av now q) \<in> set av"
  by (cases rule: ensureCurrent_cases [of q av now]) auto

lemma log_inv_ensure: "log_inv q \<Longrightarrow> log_inv (ensureCurrentLocked av now q)"
  by (cases rule: ensureCurrent_cases [of q av now]) (auto intro: log_inv_choose)

section \<open>Library: a round of results\<close>

lemma recordHistory_simps [simp]:
  "q_states (recordHistory s q) = q_states q" "q_cfg (recordHistory s q) = q_cfg q"
  "q_current (recordHistory s q) = q_current q" "q_lastSwitch (recordHistory s q) = q_lastSwitch q"
  "q_log (recordHistory s q) = q_log q" "q_done (recordHistory s q) = q_done q"
  "q_clock (recordHistory s q) = q_clock q" "q_ticks (recordHistory s q) = q_ticks q"
  by (simp_all add: recordHistory_def split: option.splits)

lemma apply_results_frame [simp]:
  "q_cfg (apply_results af now rs q) = q_cfg q" "q_current (apply_results af now rs q) = q_current q"
  "q_lastSwitch (apply_results af now rs q) = q_lastSwitch q" "q_log (apply_results af now rs q) = q_log q"
  "q_done (apply_results af now rs q) = q_done q" "q_clock (apply_results af now rs q) = q_clock q"
  "q_ticks (apply_results af now rs q) = q_ticks q"
  by (induction rs arbitrary: q rule: list.induct) (auto split: option.splits simp: Let_def)

lemma apply_result_inv: "member_inv s \<Longrightarrow> member_inv (apply_result af now r s)"
  by (cases "length (m_window s) = routeQualityWindow")
    (auto simp: member_inv_def apply_result_def Let_def routeQualityWindow_def)

lemma apply_results_inv:
  "\<forall>n s. q_states q n = Some s \<longrightarrow> member_inv s \<Longrightarrow>
   q_states (apply_results af now rs q) n = Some s \<Longrightarrow> member_inv s"
proof (induction rs arbitrary: q)
  case (Cons x rs)
  obtain m r where x: "x = (m, r)" by force
  show ?case
  proof (cases "q_states q m")
    case None
    then show ?thesis using Cons x by auto
  next
    case (Some t)
    let ?q = "recordHistory (apply_result af now r t) (q\<lparr>q_states := (q_states q)(m \<mapsto> apply_result af now r t)\<rparr>)"
    have "\<forall>n s. q_states ?q n = Some s \<longrightarrow> member_inv s"
      using Cons.prems(1) Some by (simp add: apply_result_inv)
    then show ?thesis using Cons.IH [of ?q] Cons.prems(2) Some x by (simp add: Let_def)
  qed
qed auto

lemma apply_results_states:
  "distinct (map fst rs) \<Longrightarrow>
   q_states (apply_results af now rs q) n =
     (case (q_states q n, map_of rs n) of (Some s, Some r) \<Rightarrow> Some (apply_result af now r s) | (x, _) \<Rightarrow> x)"
proof (induction rs arbitrary: q)
  case (Cons x rs)
  obtain m r where x: "x = (m, r)" by force
  have m: "map_of rs m = None" using Cons.prems x by (auto simp: map_of_eq_None_iff)
  show ?case
    using Cons.IH Cons.prems x m by (auto simp: Let_def split: option.splits)
qed (auto split: option.splits)

lemma apply_results_dom: "q_states (apply_results af now rs q) n = None \<longleftrightarrow> q_states q n = None"
proof (induction rs arbitrary: q)
  case (Cons x rs)
  obtain m r where x: "x = (m, r)" by force
  then show ?case using Cons.IH by (auto simp: Let_def split: option.splits if_splits)
qed auto

lemma all_failed_iff:
  "all_failed results av \<longleftrightarrow> length av > 1 \<and> list_all (\<lambda>n. pb_status (result_of results n) = ProbeFailed) av"
proof -
  have "foldl (\<lambda>a name. if pb_status (result_of results name) \<noteq> ProbeFailed then False else a) b xs \<longleftrightarrow>
      b \<and> list_all (\<lambda>n. pb_status (result_of results n) = ProbeFailed) xs" for b xs
    by (induction xs arbitrary: b) auto
  then show ?thesis by (simp add: all_failed_def)
qed

section \<open>Library: the two policies\<close>

lemma first_other_normal_total:
  "\<forall>n\<in>set av. st n \<noteq> None \<Longrightarrow> \<exists>x. first_other_normal st cur av = Some x"
  by (induction av) (auto split: option.splits)

lemma first_other_normal_Some:
  "first_other_normal st cur av = Some (Some (n, s)) \<Longrightarrow>
   n \<in> set av \<and> n \<noteq> cur \<and> st n = Some s \<and> m_ConsecutiveNormal s \<ge> 2"
  by (induction av) (auto split: option.splits if_splits)

lemma first_other_normal_found:
  "\<forall>n\<in>set av. st n \<noteq> None \<Longrightarrow> n \<in> set av \<Longrightarrow> n \<noteq> cur \<Longrightarrow> st n = Some s \<Longrightarrow> m_ConsecutiveNormal s \<ge> 2 \<Longrightarrow>
   \<exists>x. first_other_normal st cur av = Some (Some x)"
  by (induction av) (auto split: option.splits)

lemma first_higher_normal_total:
  "\<forall>n\<in>set av. st n \<noteq> None \<Longrightarrow> \<exists>x. first_higher_normal st cur av = Some x"
  by (induction av) (auto split: option.splits)

lemma first_higher_normal_Some:
  "first_higher_normal st cur av = Some (Some (n, s)) \<Longrightarrow>
   \<exists>as bs. av = as @ n # bs \<and> cur \<notin> set as \<and> n \<noteq> cur \<and> st n = Some s \<and> m_ConsecutiveNormal s \<ge> 2"
proof (induction av)
  case (Cons a av)
  obtain t where t: "a \<noteq> cur" "st a = Some t" using Cons.prems by (auto split: option.splits if_splits)
  show ?case
  proof (cases "m_ConsecutiveNormal t \<ge> 2")
    case True
    then have "a # av = [] @ n # av \<and> cur \<notin> set [] \<and> n \<noteq> cur \<and> st n = Some s \<and> m_ConsecutiveNormal s \<ge> 2"
      using Cons.prems t by simp
    then show ?thesis by blast
  next
    case False
    then obtain as bs where "av = as @ n # bs \<and> cur \<notin> set as \<and> n \<noteq> cur \<and> st n = Some s \<and> m_ConsecutiveNormal s \<ge> 2"
      using Cons t by auto
    then have "a # av = (a # as) @ n # bs \<and> cur \<notin> set (a # as) \<and> n \<noteq> cur \<and> st n = Some s \<and> m_ConsecutiveNormal s \<ge> 2"
      using t by simp
    then show ?thesis by blast
  qed
qed simp

lemma best_member_total:
  "\<forall>n\<in>set av. st n \<noteq> None \<Longrightarrow> st best \<noteq> None \<Longrightarrow> \<exists>b. best_member st best av = Some b"
  by (induction av arbitrary: best) (auto split: option.splits)

lemma best_member_Some:
  "best_member st best av = Some b \<Longrightarrow>
   b = best \<or> (b \<in> set av \<and> (\<exists>s. st b = Some s \<and> m_Samples s = int routeQualityWindow \<and> m_ConsecutiveFailures s = 0))"
proof (induction av arbitrary: best)
  case (Cons n ns)
  obtain s where s: "st n = Some s" using Cons.prems by (auto split: option.splits)
  show ?case
  proof (cases "m_Samples s = int routeQualityWindow \<and> m_ConsecutiveFailures s = 0")
    case True
    then obtain c where "best_member st c ns = Some b" "c = n \<or> c = best"
      using Cons.prems s by (auto split: option.splits if_splits)
    then show ?thesis using Cons.IH [of c] True s by auto
  next
    case False
    then have "best_member st best ns = Some b" using Cons.prems s by auto
    then show ?thesis using Cons.IH [of best] by auto
  qed
qed simp

text \<open>When a switch away from a member with state \<open>c\<close> to the member \<open>n\<close> with state \<open>s\<close> is due.\<close>

definition switch_due :: "string list \<Rightarrow> int \<Rightarrow> monitor \<Rightarrow> member_state \<Rightarrow> string \<Rightarrow> member_state \<Rightarrow> bool" where
  "switch_due av now q c n s \<longleftrightarrow>
     (m_ConsecutiveFailures c \<ge> 3 \<and> m_ConsecutiveNormal s \<ge> 2) \<or>
     (now - q_lastSwitch q \<ge> 60 * 1000000000 \<and>
      (if r_Policy (q_cfg q) = ''priority''
       then m_ConsecutiveNormal s \<ge> 2 \<and> (\<exists>as bs. av = as @ n # bs \<and> q_current q \<notin> set as)
       else m_Samples c \<ge> 20 \<and> m_Samples s = 20 \<and> m_ConsecutiveFailures s = 0 \<and>
            m_BadSamples c - m_BadSamples s \<ge> 3))"

definition due_step :: "string list \<Rightarrow> int \<Rightarrow> member_state \<Rightarrow> monitor \<Rightarrow> monitor \<Rightarrow> bool" where
  "due_step av now c q q' \<longleftrightarrow>
     q' = q \<or> (\<exists>n r s. q' = chooseLocked n r now q \<and> n \<in> set av \<and> n \<noteq> q_current q \<and> q_states q n = Some s \<and>
                       switch_due av now q c n s)"

lemma due_stepI:
  "n \<in> set av \<Longrightarrow> n \<noteq> q_current q \<Longrightarrow> q_states q n = Some s \<Longrightarrow> switch_due av now q c n s \<Longrightarrow>
   due_step av now c q (chooseLocked n r now q)"
  by (auto simp: due_step_def)

lemma try_failover_cases:
  assumes "try_failover reason av c now q = Some x"
  shows "x = Inr () \<or> (\<exists>q'. x = Inl q' \<and> due_step av now c q q' \<and> q_current q' \<noteq> q_current q)"
proof (cases "m_ConsecutiveFailures c \<ge> 3 \<and> first_other_normal (q_states q) (q_current q) av \<noteq> Some None")
  case False
  then show ?thesis using assms by (auto simp: try_failover_def split: if_splits)
next
  case True
  then obtain n s where f: "first_other_normal (q_states q) (q_current q) av = Some (Some (n, s))"
    using assms by (auto simp: try_failover_def split: option.splits)
  note n = first_other_normal_Some [OF f]
  then have "switch_due av now q c n s" using True by (simp add: switch_due_def)
  then show ?thesis using n f True assms by (auto simp: try_failover_def intro: due_stepI)
qed

lemma applyPriority_due:
  assumes "applyPriorityLocked av c now q = Some q'" "r_Policy (q_cfg q) = ''priority''"
  shows "due_step av now c q q'"
proof -
  obtain x where x: "try_failover Failover av c now q = Some x"
    using assms(1) by (auto simp: applyPriorityLocked_def split: option.splits)
  show ?thesis
  proof (cases x)
    case (Inl p)
    then show ?thesis using try_failover_cases [OF x] assms(1) x by (auto simp: applyPriorityLocked_def)
  next
    case (Inr u)
    show ?thesis
    proof (cases "now - q_lastSwitch q < switch_cooldown \<or> first_higher_normal (q_states q) (q_current q) av = Some None")
      case True
      then show ?thesis using assms(1) x Inr by (auto simp: applyPriorityLocked_def due_step_def split: if_splits)
    next
      case False
      then obtain n s where f: "first_higher_normal (q_states q) (q_current q) av = Some (Some (n, s))"
        and q': "q' = chooseLocked n (Recovered (m_ConsecutiveNormal s)) now q"
        using assms(1) x Inr by (auto simp: applyPriorityLocked_def split: option.splits)
      obtain as bs where n: "av = as @ n # bs" "q_current q \<notin> set as" "n \<noteq> q_current q" "q_states q n = Some s"
        "m_ConsecutiveNormal s \<ge> 2"
        using first_higher_normal_Some [OF f] by blast
      then have "switch_due av now q c n s" using False assms(2) by (auto simp: switch_due_def switch_cooldown_def)
      then show ?thesis using n q' by (auto intro: due_stepI)
    qed
  qed
qed

lemma applyQuality_due:
  assumes "applyQualityLocked av c now q = Some q'" "r_Policy (q_cfg q) \<noteq> ''priority''"
  shows "due_step av now c q q'"
proof -
  obtain x where x: "try_failover QualityFailover av c now q = Some x"
    using assms(1) by (auto simp: applyQualityLocked_def split: option.splits)
  show ?thesis
  proof (cases x)
    case (Inl p)
    then show ?thesis using try_failover_cases [OF x] assms(1) x by (auto simp: applyQualityLocked_def)
  next
    case (Inr u)
    show ?thesis
    proof (cases "q' = q")
      case False
      then obtain b s where b: "best_member (q_states q) (q_current q) av = Some b" "b \<noteq> q_current q"
        "q_states q b = Some s" "m_BadSamples c - m_BadSamples s \<ge> 3" "m_Samples c \<ge> 20"
        "now - q_lastSwitch q \<ge> 60 * 1000000000"
        "q' = chooseLocked b (QualitySwitch (m_BadSamples c) (m_BadSamples s)) now q"
        using assms(1) x Inr
        by (auto simp: applyQualityLocked_def routeQualityWindow_def switch_cooldown_def split: option.splits if_splits)
      then have "b \<in> set av \<and> m_Samples s = 20 \<and> m_ConsecutiveFailures s = 0"
        using best_member_Some [OF b(1)] by (auto simp: routeQualityWindow_def)
      moreover from this have "switch_due av now q c b s" using b assms(2) by (simp add: switch_due_def)
      ultimately show ?thesis using b by (auto intro: due_stepI)
    qed (simp add: due_step_def)
  qed
qed

lemma try_failover_total:
  "\<forall>n\<in>set av. q_states q n \<noteq> None \<Longrightarrow> \<exists>x. try_failover reason av c now q = Some x"
  using first_other_normal_total [of av "q_states q" "q_current q"]
  by (auto simp: try_failover_def split: option.splits)

lemma policies_total:
  assumes "\<forall>n\<in>set av. q_states q n \<noteq> None" "q_states q (q_current q) \<noteq> None"
  shows "\<exists>q'. applyPriorityLocked av c now q = Some q'" "\<exists>q'. applyQualityLocked av c now q = Some q'"
proof -
  obtain x y where x: "try_failover Failover av c now q = Some x" and y: "try_failover QualityFailover av c now q = Some y"
    using try_failover_total [OF assms(1)] by meson
  obtain h where "first_higher_normal (q_states q) (q_current q) av = Some h"
    using first_higher_normal_total [OF assms(1)] by blast
  then show "\<exists>q'. applyPriorityLocked av c now q = Some q'"
    using x by (cases x) (auto simp: applyPriorityLocked_def split: option.splits)
  obtain b where b: "best_member (q_states q) (q_current q) av = Some b"
    using best_member_total [OF assms] by blast
  moreover have "q_states q b \<noteq> None" using best_member_Some [OF b] assms by blast
  ultimately show "\<exists>q'. applyQualityLocked av c now q = Some q'"
    using y by (cases y) (auto simp: applyQualityLocked_def)
qed

lemma due_step_keeps:
  assumes "due_step av now c q q'"
  shows "q_states q' = q_states q \<and> q_cfg q' = q_cfg q \<and> q_done q' = q_done q \<and> q_history q' = q_history q \<and>
         (log_inv q \<longrightarrow> log_inv q')"
  using assms log_inv_choose by (auto simp: due_step_def)

text \<open>What \<open>applyRound\<close> does after the results are in.\<close>

lemma applyRound_steps:
  assumes "applyRound results av now q = Some q'" "\<not> q_done q"
  defines "q1 \<equiv> apply_results (all_failed results av) now results q"
  defines "q2 \<equiv> ensureCurrentLocked av now q1"
  shows "(q_states q1 (q_current q2) = None \<or> all_failed results av) \<and> q' = q2 \<or>
         (\<exists>c. q_states q1 (q_current q2) = Some c \<and> \<not> all_failed results av \<and> due_step av now c q2 q')"
proof -
  have s: "q_states q2 = q_states q1" by (simp add: q2_def)
  have r: "(case q_states q2 (q_current q2) of
              None \<Rightarrow> Some q2
            | Some cur \<Rightarrow>
                if all_failed results av then Some q2
                else if r_Policy (q_cfg q2) = ''priority'' then applyPriorityLocked av cur now q2
                else applyQualityLocked av cur now q2) = Some q'"
    using assms(1,2) unfolding applyRound_def Let_def q1_def q2_def by (simp only: if_False)
  show ?thesis
  proof (cases "q_states q1 (q_current q2)")
    case None
    then show ?thesis using r s by simp
  next
    case (Some c)
    then show ?thesis using r s applyPriority_due [of av c now q2 q'] applyQuality_due [of av c now q2 q']
      by (auto split: if_splits)
  qed
qed

lemma applyRound_total:
  assumes "\<forall>n\<in>set av. q_states q n \<noteq> None"
  shows "\<exists>q'. applyRound results av now q = Some q'"
proof (cases "q_done q")
  case False
  let ?q1 = "apply_results (all_failed results av) now results q"
  let ?q2 = "ensureCurrentLocked av now ?q1"
  have s: "\<forall>n\<in>set av. q_states ?q2 n \<noteq> None" using assms by (simp add: apply_results_dom)
  then show ?thesis using False policies_total [of av ?q2]
    by (auto simp: applyRound_def Let_def split: option.splits)
qed (simp add: applyRound_def)

lemma applyRound_inv:
  assumes "monitor_inv q" "applyRound results av now q = Some q'"
  shows "monitor_inv q' \<and> q_cfg q' = q_cfg q"
proof (cases "q_done q")
  case True
  then show ?thesis using assms by (simp add: applyRound_def)
next
  case False
  let ?q1 = "apply_results (all_failed results av) now results q"
  let ?q2 = "ensureCurrentLocked av now ?q1"
  have st: "\<forall>n s. q_states ?q1 n = Some s \<longrightarrow> member_inv s"
    using assms(1) apply_results_inv [of q] by (auto simp: monitor_inv_def)
  have l: "log_inv ?q1" using assms(1) by (auto simp: monitor_inv_def log_inv_def)
  have d: "\<forall>n\<in>set (r_Members (q_cfg q)). q_states ?q1 n \<noteq> None"
    using assms(1) by (auto simp: monitor_inv_def apply_results_dom)
  have "monitor_inv ?q2" using st log_inv_ensure [OF l] d by (simp add: monitor_inv_def)
  then show ?thesis using applyRound_steps [OF assms(2) False] due_step_keeps
    by (auto simp: monitor_inv_def)
qed

section \<open>Library: committing a round\<close>

definition reset_only :: "monitor \<Rightarrow> monitor \<Rightarrow> bool" where
  "reset_only q q' \<longleftrightarrow>
     q_cfg q' = q_cfg q \<and> q_current q' = q_current q \<and> q_lastSwitch q' = q_lastSwitch q \<and> q_log q' = q_log q \<and>
     q_done q' = q_done q \<and> q_history q' = q_history q \<and> q_clock q' = q_clock q \<and> q_ticks q' = q_ticks q \<and>
     (\<forall>n. q_states q' n = q_states q n \<or> (q_states q n \<noteq> None \<and> (\<exists>v. q_states q' n = Some (evaluating v))))"

lemma reset_only_refl: "reset_only q q"
  by (simp add: reset_only_def)

lemma reset_only_trans: "reset_only p q \<Longrightarrow> reset_only q r \<Longrightarrow> reset_only p r"
  unfolding reset_only_def by (metis option.distinct(1))

lemma reset_only_step:
  "q_states q n = Some s \<Longrightarrow> reset_only q (q\<lparr>q_states := (q_states q)(n \<mapsto> evaluating v)\<rparr>)"
  by (auto simp: reset_only_def)

lemma reset_only_inv: "reset_only q q' \<Longrightarrow> monitor_inv q \<Longrightarrow> monitor_inv q'"
proof -
  assume r: "reset_only q q'" and i: "monitor_inv q"
  have e: "member_inv (evaluating v)" for v by (simp add: member_inv_def evaluating_def)
  have "q_states q' n \<noteq> None" if "n \<in> set (r_Members (q_cfg q))" for n
    using r i that unfolding reset_only_def monitor_inv_def by (metis option.distinct(1))
  moreover have "member_inv s" if "q_states q' n = Some s" for n s
    using r i that e unfolding reset_only_def monitor_inv_def by (metis option.inject)
  ultimately show ?thesis using r i by (auto simp: reset_only_def monitor_inv_def log_inv_def)
qed

lemma commit_members_spec:
  "\<forall>n\<in>set ns. q_states q n \<noteq> None \<Longrightarrow>
   (\<exists>q'. commit_members st sv probe ns q res av = Some (Inl q') \<and> reset_only q q' \<and>
         (\<exists>n\<in>set ns. map_option sv_id (sv n) \<noteq> map_option sv_id (st n))) \<or>
   (\<exists>q' res' av'. commit_members st sv probe ns q res av = Some (Inr (q', res', av')) \<and> reset_only q q' \<and>
         set av' \<subseteq> set av \<union> set ns \<and>
         (\<forall>n\<in>set ns. map_option sv_id (sv n) = map_option sv_id (st n)))"
proof (induction ns arbitrary: q res av)
  case Nil
  then show ?case by (simp add: reset_only_refl)
next
  case (Cons n ns)
  obtain s where s: "q_states q n = Some s" using Cons.prems by auto
  show ?case
  proof (cases "map_option sv_id (sv n) = map_option sv_id (st n)")
    case False
    then show ?thesis by (auto simp: reset_only_refl)
  next
    case True
    define q1 where "q1 = (if map_option sv_id (m_service s) \<noteq> map_option sv_id (sv n)
       then q\<lparr>q_states := (q_states q)(n \<mapsto> evaluating (sv n))\<rparr> else q)"
    define res1 where "res1 = AList.update n (probe_answer probe (st n)) res"
    define av1 where "av1 = (if memberRunning (sv n) then av @ [n] else av)"
    have step: "commit_members st sv probe (n # ns) q res av = commit_members st sv probe ns q1 res1 av1"
      using True s by (simp add: q1_def res1_def av1_def Let_def)
    have r1: "reset_only q q1" using reset_only_step [OF s] by (simp add: q1_def reset_only_refl)
    have d1: "\<forall>m\<in>set ns. q_states q1 m \<noteq> None" using Cons.prems by (auto simp: q1_def)
    have a1: "set av1 \<subseteq> set av \<union> {n}" by (auto simp: av1_def)
    from Cons.IH [OF d1, of res1 av1] show ?thesis
    proof (elim disjE exE conjE)
      fix q' assume "commit_members st sv probe ns q1 res1 av1 = Some (Inl q')" "reset_only q1 q'"
        "\<exists>n\<in>set ns. map_option sv_id (sv n) \<noteq> map_option sv_id (st n)"
      then show ?thesis using reset_only_trans [OF r1] step by (intro disjI1) auto
    next
      fix q' res' av' assume "commit_members st sv probe ns q1 res1 av1 = Some (Inr (q', res', av'))" "reset_only q1 q'"
        "set av' \<subseteq> set av1 \<union> set ns" "\<forall>n\<in>set ns. map_option sv_id (sv n) = map_option sv_id (st n)"
      then show ?thesis using reset_only_trans [OF r1] step a1 True by (intro disjI2) auto
    qed
  qed
qed

lemma round_commit_cases:
  assumes "monitor_inv q" "\<not> q_done q"
  shows "(\<exists>q'. round_commit st sv probe now q = Some q' \<and> reset_only q q' \<and>
            (\<exists>n\<in>set (r_Members (q_cfg q)). map_option sv_id (sv n) \<noteq> map_option sv_id (st n))) \<or>
         (\<exists>q1 res av q'. round_commit st sv probe now q = Some q' \<and> reset_only q q1 \<and>
            applyRound res av now q1 = Some q' \<and> set av \<subseteq> set (r_Members (q_cfg q)) \<and>
            (\<forall>n\<in>set (r_Members (q_cfg q)). map_option sv_id (sv n) = map_option sv_id (st n)))"
proof -
  have d: "\<forall>n\<in>set (r_Members (q_cfg q)). q_states q n \<noteq> None" using assms(1) by (simp add: monitor_inv_def)
  show ?thesis using commit_members_spec [OF d, of st sv probe "[]" "[]"]
  proof (elim disjE exE conjE)
    fix q1 res av assume a: "commit_members st sv probe (r_Members (q_cfg q)) q [] [] = Some (Inr (q1, res, av))"
      "reset_only q q1" "set av \<subseteq> set [] \<union> set (r_Members (q_cfg q))"
      "\<forall>n\<in>set (r_Members (q_cfg q)). map_option sv_id (sv n) = map_option sv_id (st n)"
    have i: "monitor_inv q1" "q_cfg q1 = q_cfg q" using reset_only_inv a(2) assms(1) by (auto simp: reset_only_def)
    then have "\<forall>n\<in>set av. q_states q1 n \<noteq> None" using a(3) by (auto simp: monitor_inv_def)
    from applyRound_total [OF this] obtain q' where "applyRound res av now q1 = Some q'" by blast
    then show ?thesis using a assms(2) by (intro disjI2) (auto simp: round_commit_def)
  qed (use assms(2) in \<open>auto simp: round_commit_def\<close>)
qed

lemma monitor_inv_new: "monitor_inv (newRouteQualityMonitor cfg hist clock)"
  by (auto simp: monitor_inv_def newRouteQualityMonitor_def member_inv_def evaluating_def log_inv_def split: if_splits)

lemma monitor_reach_inv: "monitor_reach cfg q \<Longrightarrow> monitor_inv q \<and> q_cfg q = cfg"
proof (induction rule: monitor_reach.induct)
  case (created hist)
  then show ?case using monitor_inv_new by (simp add: newRouteQualityMonitor_def)
next
  case (asked q available now)
  then show ?case using log_inv_ensure by (auto simp: monitor_preferred_def Let_def monitor_inv_def)
next
  case (applied q available results now q')
  then show ?case using applyRound_inv by metis
next
  case (committed q started services probe now q')
  show ?case
  proof (cases "q_done q")
    case True
    then show ?thesis using committed by (simp add: round_commit_def)
  next
    case False
    have q: "monitor_inv q" "q_cfg q = cfg" using committed by auto
    consider p where "reset_only q p" "q' = p"
      | p res av where "reset_only q p" "applyRound res av now p = Some q'"
      using round_commit_cases [OF q(1) False, of started services probe now] committed(2) by auto
    then show ?thesis
    proof cases
      case 1
      then show ?thesis using reset_only_inv q by (auto simp: reset_only_def)
    next
      case 2
      then have "monitor_inv p" "q_cfg p = cfg" using reset_only_inv q by (auto simp: reset_only_def)
      then show ?thesis using applyRound_inv 2(2) by metis
    qed
  qed
next
  case (cancelled q)
  then show ?case by (simp add: cancel_def monitor_inv_def log_inv_def)
qed

section \<open>Properties\<close>

text \<open>A route over two members and results of its probes, for the witnesses.\<close>

definition two_members :: "string \<Rightarrow> route_config" where
  "two_members policy =
     \<lparr>r_UUID = ''r'', r_Name = ''route'', r_Disabled = False, r_Mode = ''input'', r_Listen = ''0.0.0.0:1000'',
      r_InProtoCfg = [], r_Members = [''a'', ''b''], r_Policy = policy,
      r_Quality = \<lparr>DownloadURL = [], ConnectivityURL = [], DownloadStatus = 200, ConnectivityStatus = 204,
                   DownloadBytes = 1, IntervalSec = 30, TimeoutMS = 5000, NormalMS = 2000\<rparr>,
      r_ProbeMode = ''full_path'', r_ProbeWarnings = [], r_CreatedAt = 0\<rparr>"

definition good :: probe_result where
  "good = \<lparr>pb_status = ProbeNormal, pb_duration = 1000000, pb_err = [], pb_connectivity = []\<rparr>"

definition bad :: probe_result where
  "bad = \<lparr>pb_status = ProbeFailed, pb_duration = 1000000, pb_err = ''x'', pb_connectivity = ''failed''\<rparr>"

fun rounds :: "(string \<times> probe_result) list \<Rightarrow> nat \<Rightarrow> monitor option \<Rightarrow> monitor option" where
  "rounds rs 0 q = q"
| "rounds rs (Suc k) q = (case rounds rs k q of None \<Rightarrow> None | Some p \<Rightarrow> applyRound rs [''a'', ''b''] (int k) p)"

definition two_rounds :: monitor where
  "two_rounds = the (rounds [(''a'', bad), (''b'', good)] 2 (Some (newRouteQualityMonitor (two_members ''priority'') None int)))"

lemma two_rounds_reach: "monitor_reach (two_members ''priority'') two_rounds"
proof -
  let ?rs = "[(''a'', bad), (''b'', good)]"
  let ?q0 = "newRouteQualityMonitor (two_members ''priority'') None int"
  have r0: "monitor_reach (two_members ''priority'') ?q0" by (rule created)
  have sub: "set [''a'', ''b''] \<subseteq> set (r_Members (two_members ''priority''))" by (simp add: two_members_def)
  have dom: "\<forall>n\<in>set [''a'', ''b'']. q_states q n \<noteq> None" if "monitor_reach (two_members ''priority'') q" for q
    using monitor_reach_inv [OF that] sub by (auto simp: monitor_inv_def)
  obtain q1 where q1: "applyRound ?rs [''a'', ''b''] 0 ?q0 = Some q1" using applyRound_total [OF dom [OF r0]] by blast
  have r1: "monitor_reach (two_members ''priority'') q1" by (rule applied [OF r0 sub q1])
  obtain q2 where q2: "applyRound ?rs [''a'', ''b''] 1 q1 = Some q2" using applyRound_total [OF dom [OF r1]] by blast
  have "two_rounds = q2" using q1 q2 by (simp add: two_rounds_def numeral_2_eq_2)
  then show ?thesis using applied [OF r1 sub q2] by simp
qed

lemma two_rounds_facts: "q_current two_rounds = ''a''" "\<not> q_done two_rounds"
  by code_simp+

lemma two_rounds_total: "\<exists>q'. applyRound rs [''a'', ''b''] t two_rounds = Some q'"
proof (rule applyRound_total)
  have "r_Members (q_cfg two_rounds) = [''a'', ''b'']" and "monitor_inv two_rounds"
    using monitor_reach_inv [OF two_rounds_reach] by (simp_all add: two_members_def)
  then show "\<forall>n\<in>set [''a'', ''b'']. q_states two_rounds n \<noteq> None"
    unfolding monitor_inv_def by metis
qed

text \<open>
  C17: The monitor's bookkeeping invariant holds in every state it can reach: a member's window
  never exceeds 20 samples, its sample and bad counts are those of the window, failures and normal
  probes in a row exclude each other, every member of the route has a state, and the switch log
  holds at most 20 entries that chain, each starting where the previous one ended and none keeping
  the member, the last one ending at the current member; their times are the consecutive readings of
  the clock at the latest switches, so they are in order when the clock does not go back.
\<close>

theorem monitor_invariant:
  assumes "monitor_reach cfg q"
  shows "monitor_inv q \<and> q_cfg q = cfg"
  using monitor_reach_inv [OF assms] .

theorem monitor_invariant_witness: "monitor_inv two_rounds \<and> q_current two_rounds = ''a''"
  using monitor_invariant [OF two_rounds_reach] two_rounds_facts by simp

text \<open>
  No nil dereference: from every reachable state, applying a round of results for available
  members of the route and committing a round both return, whatever the results, the services
  and the order in which the results are iterated.
\<close>

theorem monitor_never_panics:
  assumes "monitor_reach cfg q" and "set available \<subseteq> set (r_Members cfg)"
  shows "applyRound results available now q \<noteq> None \<and> round_commit started services probe now q \<noteq> None"
proof -
  have i: "monitor_inv q" "q_cfg q = cfg" using monitor_reach_inv [OF assms(1)] by auto
  then have "\<forall>n\<in>set available. q_states q n \<noteq> None" using assms(2) by (auto simp: monitor_inv_def)
  then have "applyRound results available now q \<noteq> None" using applyRound_total [of available q] by blast
  moreover have "round_commit started services probe now q \<noteq> None"
    using round_commit_cases [OF i(1), of started services probe now]
    by (cases "q_done q") (auto simp: round_commit_def)
  ultimately show ?thesis by blast
qed

theorem monitor_never_panics_witness:
  "applyRound [(''b'', bad), (''a'', good)] [''b''] 5 two_rounds \<noteq> None"
proof -
  have "set [''b''] \<subseteq> set (r_Members (two_members ''priority''))" by (simp add: two_members_def)
  from monitor_never_panics [OF two_rounds_reach this] show ?thesis by blast
qed

text \<open>
  C6: A running member is abandoned only for cause. If a round moves the selection away from a
  member that is available, the new member is available, not every member failed, and either the
  old one has failed at least three times in a row while the new one was normal at least twice in
  a row, or at least 60 seconds have passed since the last switch and the policy's condition holds:
  with \<open>priority\<close> the new member stands before the old one and was normal twice in a row, with
  \<open>quality\<close> both have full windows, the new one is not failing and has at least three bad samples
  fewer. The switch is stamped with the time of the round.
\<close>

theorem switch_only_for_cause:
  assumes "applyRound results available now q = Some q'"
    and "q_current q \<in> set available" and "q_current q' \<noteq> q_current q"
  shows "\<exists>c s. q_states q' (q_current q) = Some c \<and> q_states q' (q_current q') = Some s \<and>
           q_current q' \<in> set available \<and> \<not> all_failed results available \<and> q_lastSwitch q' = now \<and>
           switch_due available now q c (q_current q') s"
proof -
  let ?q1 = "apply_results (all_failed results available) now results q"
  have nd: "\<not> q_done q" using assms(1,3) by (auto simp: applyRound_def)
  have e: "ensureCurrentLocked available now ?q1 = ?q1" using assms(2) by (simp add: ensureCurrentLocked_def)
  obtain c where c: "q_states ?q1 (q_current q) = Some c" "\<not> all_failed results available" "due_step available now c ?q1 q'"
    using applyRound_steps [OF assms(1) nd] assms(3) unfolding e by auto
  then obtain n r s where n: "q' = chooseLocked n r now ?q1" "n \<in> set available" "n \<noteq> q_current q"
      "q_states ?q1 n = Some s" "switch_due available now ?q1 c n s"
    using assms(3) by (auto simp: due_step_def)
  moreover have "switch_due available now q c n s" using n(5) unfolding switch_due_def apply_results_frame .
  moreover have "q_lastSwitch q' = now" using n(1,3) by (simp add: chooseLocked_def)
  ultimately show ?thesis using c by auto
qed

theorem switch_only_for_cause_witness:
  "\<exists>q' c s. applyRound [(''a'', bad), (''b'', good)] [''a'', ''b''] 7 two_rounds = Some q' \<and> q_current q' = ''b'' \<and>
     switch_due [''a'', ''b''] 7 two_rounds c ''b'' s \<and> m_ConsecutiveFailures c = 3"
proof -
  let ?rs = "[(''a'', bad), (''b'', good)]"
  define q' where "q' = the (applyRound ?rs [''a'', ''b''] 7 two_rounds)"
  have q': "applyRound ?rs [''a'', ''b''] 7 two_rounds = Some q'"
    using two_rounds_total [of ?rs 7] by (auto simp: q'_def)
  have b: "q_current q' = ''b''" and f: "map_option m_ConsecutiveFailures (q_states q' ''a'') = Some 3"
    unfolding q'_def by code_simp+
  note cur = two_rounds_facts(1)
  have "q_current two_rounds \<in> set [''a'', ''b'']" "q_current q' \<noteq> q_current two_rounds" by (simp_all add: cur b)
  from switch_only_for_cause [OF q' this] show ?thesis using q' b f by (auto simp: cur)
qed

text \<open>
  C9: Failover is prompt. When the current member, having failed twice in a row, fails again in a
  round in which another available member that was already normal is normal again, the round
  selects another available member that has been normal at least twice in a row, under either
  policy and whatever the time since the last switch.
\<close>

theorem failover_prompt:
  assumes "monitor_reach cfg q" and "\<not> q_done q" and "set available \<subseteq> set (r_Members cfg)"
    and "distinct (map fst results)"
    and "q_current q \<in> set available" and "q_states q (q_current q) = Some c" and "2 \<le> m_ConsecutiveFailures c"
    and "pb_status (result_of results (q_current q)) = ProbeFailed"
    and "n \<in> set available" and "n \<noteq> q_current q" and "q_states q n = Some s" and "1 \<le> m_ConsecutiveNormal s"
    and "pb_status (result_of results n) = ProbeNormal"
  shows "\<exists>q' s'. applyRound results available now q = Some q' \<and> q_current q' \<noteq> q_current q \<and>
           q_current q' \<in> set available \<and> q_states q' (q_current q') = Some s' \<and> 2 \<le> m_ConsecutiveNormal s'"
proof -
  let ?q1 = "apply_results (all_failed results available) now results q"
  have nf: "\<not> all_failed results available" using assms(9,13) by (force simp: all_failed_iff list_all_iff)
  obtain r where r: "map_of results (q_current q) = Some r" "pb_status r = ProbeFailed"
    using assms(8) by (auto simp: result_of_def probe_zero_def split: option.splits)
  obtain r' where r': "map_of results n = Some r'" "pb_status r' = ProbeNormal"
    using assms(13) by (auto simp: result_of_def probe_zero_def split: option.splits)
  obtain c1 where c1: "q_states ?q1 (q_current q) = Some c1" "3 \<le> m_ConsecutiveFailures c1"
    using r assms(6,7) nf by (auto simp: apply_results_states [OF assms(4)] apply_result_def Let_def)
  obtain s1 where s1: "q_states ?q1 n = Some s1" "2 \<le> m_ConsecutiveNormal s1"
    using r' assms(11,12) nf by (auto simp: apply_results_states [OF assms(4)] apply_result_def Let_def)
  have e: "ensureCurrentLocked available now ?q1 = ?q1" using assms(5) by (simp add: ensureCurrentLocked_def)
  have dom: "\<forall>m\<in>set available. q_states ?q1 m \<noteq> None"
    using monitor_reach_inv [OF assms(1)] assms(3) by (auto simp: monitor_inv_def apply_results_dom)
  obtain m t where f: "first_other_normal (q_states ?q1) (q_current q) available = Some (Some (m, t))"
    using first_other_normal_found [OF dom assms(9,10) s1] by auto
  have fo: "try_failover reason available c1 now ?q1 =
      Some (Inl (chooseLocked m (reason (m_ConsecutiveFailures c1) (m_ConsecutiveNormal t)) now ?q1))" for reason
    using c1(2) f by (simp add: try_failover_def)
  have "\<exists>reason. applyRound results available now q = Some (chooseLocked m reason now ?q1)"
    using assms(2) nf c1(1) fo unfolding applyRound_def Let_def e
    by (auto simp: applyPriorityLocked_def applyQualityLocked_def)
  then show ?thesis using first_other_normal_Some [OF f] by auto
qed

theorem failover_prompt_witness:
  "\<exists>q'. applyRound [(''b'', good), (''a'', bad)] [''a'', ''b''] 9 two_rounds = Some q' \<and> q_current q' \<noteq> ''a''"
proof -
  note cur = two_rounds_facts(1) and nd = two_rounds_facts(2)
  obtain c where c: "q_states two_rounds ''a'' = Some c" "m_ConsecutiveFailures c = 2"
  proof -
    have "map_option m_ConsecutiveFailures (q_states two_rounds ''a'') = Some 2" by code_simp
    then show thesis using that by (cases "q_states two_rounds ''a''") auto
  qed
  obtain s where s: "q_states two_rounds ''b'' = Some s" "m_ConsecutiveNormal s = 2"
  proof -
    have "map_option m_ConsecutiveNormal (q_states two_rounds ''b'') = Some 2" by code_simp
    then show thesis using that by (cases "q_states two_rounds ''b''") auto
  qed
  have "\<exists>q' s'. applyRound [(''b'', good), (''a'', bad)] [''a'', ''b''] 9 two_rounds = Some q' \<and>
      q_current q' \<noteq> q_current two_rounds \<and> q_current q' \<in> set [''a'', ''b''] \<and>
      q_states q' (q_current q') = Some s' \<and> 2 \<le> m_ConsecutiveNormal s'"
    by (rule failover_prompt [OF two_rounds_reach nd, of _ _ c "''b''" s])
      (simp_all add: cur c s two_members_def result_of_def good_def bad_def)
  then show ?thesis by (auto simp: cur)
qed

text \<open>
  A common failure does not move traffic. When every one of at least two available members
  fails in a round, the current member stays selected if it is available, no member's window of
  samples changes, and members whose connectivity check still works are not charged with the
  failure.
\<close>

theorem common_failure_keeps_selection:
  assumes "\<not> q_done q" and "distinct (map fst results)"
    and "1 < length available" and "list_all (\<lambda>n. pb_status (result_of results n) = ProbeFailed) available"
    and "q_current q \<in> set available" and "applyRound results available now q = Some q'"
  shows "q_current q' = q_current q \<and> q_log q' = q_log q \<and>
         map_option m_window (q_states q' n) = map_option m_window (q_states q n) \<and>
         (q_states q n = Some s \<and> n \<in> set available \<and> pb_connectivity (result_of results n) = ''ok'' \<longrightarrow>
            map_option m_ConsecutiveFailures (q_states q' n) = Some 0)"
proof -
  let ?q1 = "apply_results (all_failed results available) now results q"
  have af: "all_failed results available" using assms(3,4) by (simp add: all_failed_iff)
  have e: "ensureCurrentLocked available now ?q1 = ?q1" using assms(5) by (simp add: ensureCurrentLocked_def)
  have q': "q' = ?q1" using applyRound_steps [OF assms(6,1)] af unfolding e by auto
  have w: "map_option m_window (q_states ?q1 n) = map_option m_window (q_states q n)"
    using af by (auto simp: apply_results_states [OF assms(2)] apply_result_def Let_def split: option.splits)
  have "map_option m_ConsecutiveFailures (q_states ?q1 n) = Some 0"
    if h: "q_states q n = Some s" "n \<in> set available" "pb_connectivity (result_of results n) = ''ok''"
  proof -
    obtain r where "map_of results n = Some r" "pb_status r = ProbeFailed" "pb_connectivity r = ''ok''"
      using h assms(4) by (auto simp: result_of_def probe_zero_def list_all_iff split: option.splits)
    then show ?thesis using h(1) af by (simp add: apply_results_states [OF assms(2)] apply_result_def Let_def)
  qed
  then show ?thesis using q' w by auto
qed

theorem common_failure_keeps_selection_witness:
  "\<exists>q'. applyRound [(''a'', bad), (''b'', bad)] [''a'', ''b''] 9 two_rounds = Some q' \<and> q_current q' = ''a''"
proof -
  note cur = two_rounds_facts(1) and nd = two_rounds_facts(2)
  obtain q' where q': "applyRound [(''a'', bad), (''b'', bad)] [''a'', ''b''] 9 two_rounds = Some q'"
    using two_rounds_total by blast
  have "q_current q' = q_current two_rounds"
    using common_failure_keeps_selection [OF nd _ _ _ _ q'] by (simp add: cur result_of_def bad_def)
  then show ?thesis using q' cur by simp
qed

text \<open>
  The preferred member is one that can serve: asked with the running members, the monitor
  answers one of them, the current one if it is among them, and the empty name only when none runs;
  its state afterwards remembers the answer.
\<close>

theorem preferred_is_available:
  "let (name, q') = monitor_preferred available now q in
     q_current q' = name \<and>
     (if available = [] then name = [] \<or> name = q_current q else name \<in> set available) \<and>
     (q_current q \<in> set available \<longrightarrow> name = q_current q \<and> q' = q)"
  using ensureCurrent_in [of available now q]
  by (cases rule: ensureCurrent_cases [of q available now]) (auto simp: monitor_preferred_def Let_def)

theorem preferred_is_available_witness:
  "fst (monitor_preferred [''b'', ''a''] 3 two_rounds) = ''a''"
proof -
  note two_rounds_facts(1)
  then show ?thesis using preferred_is_available [of "[''b'', ''a'']" 3 two_rounds]
    by (simp add: split_def Let_def)
qed

text \<open>
  Results of a replaced instance are discarded. If any member's service was rebuilt between
  the start of its probe and the commit, the round changes neither the selection nor the log nor
  the history, and a member's state is left alone or set back to \<open>evaluating\<close>.
\<close>

theorem stale_round_discarded:
  assumes "monitor_reach cfg q" and "\<not> q_done q" and "n \<in> set (r_Members cfg)"
    and "map_option sv_id (services n) \<noteq> map_option sv_id (started n)"
  shows "\<exists>q'. round_commit started services probe now q = Some q' \<and>
           q_current q' = q_current q \<and> q_lastSwitch q' = q_lastSwitch q \<and> q_log q' = q_log q \<and>
           q_history q' = q_history q \<and>
           (\<forall>m. q_states q' m = q_states q m \<or> (\<exists>v. q_states q' m = Some (evaluating v)))"
  using round_commit_cases [of q started services probe now] monitor_reach_inv [OF assms(1)] assms(2-)
  unfolding reset_only_def by blast

theorem stale_round_discarded_witness:
  "\<exists>q'. round_commit Map.empty [''a'' \<mapsto> \<lparr>sv_id = 1, sv_cfg = sample_member, sv_status = ''running'',
       sv_summary = Summary None, sv_kind = KServer\<rparr>] (\<lambda>_. good) 5 two_rounds = Some q' \<and> q_current q' = ''a''"
proof -
  let ?sv = "[''a'' \<mapsto> \<lparr>sv_id = 1, sv_cfg = sample_member, sv_status = ''running'',
       sv_summary = Summary None, sv_kind = KServer\<rparr>]"
  have a: "''a'' \<in> set (r_Members (two_members ''priority''))" by (simp add: two_members_def)
  have d: "map_option sv_id (?sv ''a'') \<noteq> map_option sv_id (Map.empty ''a'')" by simp
  show ?thesis
    using stale_round_discarded [OF two_rounds_reach two_rounds_facts(2) a, where started = Map.empty and services = ?sv
        and probe = "\<lambda>_. good" and now = 5, OF d]
    unfolding two_rounds_facts(1) by blast
qed

text \<open>
  The switch log shows the most recent switches, newest first and at most twenty, whatever
  the number recorded.
\<close>

theorem switch_log_recent:
  "log_list (foldl (\<lambda>l (t, a, b, r). recordReason t a b r l) [] xs) =
   take 20 (rev (map (\<lambda>(t, a, b, r). \<lparr>ev_Time = t, ev_From = a, ev_To = b, ev_Reason = r\<rparr>) xs))"
proof -
  have "foldl (\<lambda>l (t, a, b, r). recordReason t a b r l) [] xs =
      take_last 20 (map (\<lambda>(t, a, b, r). \<lparr>ev_Time = t, ev_From = a, ev_To = b, ev_Reason = r\<rparr>) xs)"
  proof (induction xs rule: rev_induct)
    case (snoc x xs)
    then show ?case
      by (cases x) (simp add: recordReason_take_last routeSwitchLogMax_def take_last_append_take_last)
  qed (simp add: take_last_def)
  moreover have "rev (take_last 20 ys) = take 20 (rev ys)" for ys :: "'b list"
    by (cases "length ys \<le> 20") (simp_all add: take_last_def rev_drop)
  ultimately show ?thesis by (simp add: log_list_rev)
qed

end
