(* ===== verification/RouteSelector.thy ===== *)
theory RouteSelector
  imports RouteMonitor Gcm "HOL-Library.Multiset"
begin

text \<open>
  Selection and failover of the smart routes: \<open>src/tun/route_selector.go\<close>,
  \<open>src/tun/output_failover.go\<close> and the watcher, listing and probing methods of
  \<open>src/tun/route.go\<close>. The manager is the map from names to service instances at the time of the
  call; the monitor inside a selector is state, so asking for candidates returns the selector
  afterwards. Dialling is a function of the member: an error or a stream.
\<close>

section \<open>The selector\<close>

record selector =
  sl_members :: "string list"
  sl_quality :: "monitor option"

definition newRouteSelector :: "string list \<Rightarrow> selector" where
  "newRouteSelector members = \<lparr>sl_members = members, sl_quality = None\<rparr>"

definition usable :: "selector \<Rightarrow> svc \<Rightarrow> bool" where
  "usable r s = (if sl_quality r = None then memberAlive (Some s) else memberRunning (Some s))"

fun collect_members :: "(string \<rightharpoonup> svc) \<Rightarrow> selector \<Rightarrow> string list \<Rightarrow> svc list" where
  "collect_members services r [] = []"
| "collect_members services r (name # ns) =
     (case services name of
        None \<Rightarrow> collect_members services r ns
      | Some s \<Rightarrow> if usable r s then s # collect_members services r ns else collect_members services r ns)"

text \<open>
  The loop that moves the preferred service to the front: \<open>copy(out[1:i+1], out[:i])\<close> shifts the
  first \<open>i\<close> entries by one and \<open>out[0] = svc\<close> puts the found one before them.
\<close>

fun name_index :: "string \<Rightarrow> svc list \<Rightarrow> nat option" where
  "name_index n [] = None"
| "name_index n (s # ss) = (if Name (sv_cfg s) = n then Some 0 else map_option Suc (name_index n ss))"

definition move_front :: "string \<Rightarrow> svc list \<Rightarrow> svc list" where
  "move_front preferred out =
     (case name_index preferred out of
        None \<Rightarrow> out
      | Some i \<Rightarrow> (out ! i) # take i out @ drop (Suc i) out)"

definition candidates :: "(string \<rightharpoonup> svc) \<Rightarrow> int \<Rightarrow> selector \<Rightarrow> svc list \<times> selector" where
  "candidates services now r =
     (let out = collect_members services r (sl_members r) in
      case sl_quality r of
        None \<Rightarrow> (out, r)
      | Some q \<Rightarrow>
          let (preferred, q') = monitor_preferred (map (\<lambda>s. Name (sv_cfg s)) out) now q
          in (move_front preferred out, r\<lparr>sl_quality := Some q'\<rparr>))"

fun first_alive :: "(string \<rightharpoonup> svc) \<Rightarrow> string list \<Rightarrow> string" where
  "first_alive services [] = []"
| "first_alive services (name # ns) =
     (case services name of
        None \<Rightarrow> first_alive services ns
      | Some s \<Rightarrow> if memberAlive (Some s) then name else first_alive services ns)"

definition selector_preferred :: "(string \<rightharpoonup> svc) \<Rightarrow> int \<Rightarrow> selector \<Rightarrow> string \<times> selector" where
  "selector_preferred services now r =
     (if sl_quality r \<noteq> None then
        (case candidates services now r of
           (c # _, r') \<Rightarrow> (Name (sv_cfg c), r')
         | ([], r') \<Rightarrow> ([], r'))
      else (first_alive services (sl_members r), r))"

section \<open>Trying the candidates in turn\<close>

datatype 'e forward_error = NoCandidate | AllFailed "'e option"

text \<open>
  The loop of \<open>tryForward\<close>: the function's result for each member, the members tried, and the
  last error kept. \<open>Inr s\<close> is success at member \<open>s\<close>.
\<close>

fun forward_loop :: "(svc \<Rightarrow> bool \<times> 'e option) \<Rightarrow> 'e option \<Rightarrow> svc list \<Rightarrow> ('e option + svc) \<times> svc list" where
  "forward_loop fn lastErr [] = (Inl lastErr, [])"
| "forward_loop fn lastErr (s # ss) =
     (case fn s of
        (True, _) \<Rightarrow> (Inr s, [s])
      | (False, err) \<Rightarrow>
          (case forward_loop fn (case err of None \<Rightarrow> lastErr | Some e \<Rightarrow> Some e) ss of
             (res, tried) \<Rightarrow> (res, s # tried)))"

definition tryForward ::
  "(string \<rightharpoonup> svc) \<Rightarrow> int \<Rightarrow> (svc \<Rightarrow> bool \<times> 'e option) \<Rightarrow> selector \<Rightarrow> ('e forward_error + svc) \<times> svc list \<times> selector" where
  "tryForward services now fn r =
     (case candidates services now r of
        (cands, r') \<Rightarrow>
          if cands = [] then (Inl NoCandidate, [], r')
          else (case forward_loop fn None cands of
                  (Inl e, tried) \<Rightarrow> (Inl (AllFailed e), tried, r')
                | (Inr s, tried) \<Rightarrow> (Inr s, tried, r')))"

section \<open>The failover output\<close>

datatype 'e dial_error = NoMember | NoOutput string | DialError 'e | AllDialsFailed

definition dialerOf :: "svc \<Rightarrow> svc option" where
  "dialerOf s = (if sv_kind s = KServer then Some s else None)"

fun dial_loop :: "(svc \<Rightarrow> 'e + 'st) \<Rightarrow> 'e dial_error option \<Rightarrow> svc list \<Rightarrow> 'e dial_error option + svc \<times> 'st" where
  "dial_loop pick lastErr [] = Inl lastErr"
| "dial_loop pick lastErr (s # ss) =
     (case dialerOf s of
        None \<Rightarrow> dial_loop pick (Some (NoOutput (Name (sv_cfg s)))) ss
      | Some d \<Rightarrow>
          (case pick d of
             Inr stream \<Rightarrow> Inr (d, stream)
           | Inl e \<Rightarrow> dial_loop pick (Some (DialError e)) ss))"

text \<open>
  \<open>getStream\<close>, which \<open>GetStream\<close>, \<open>GetProbeStream\<close> and \<open>GetBandwidthStream\<close> call with the
  dialer's method of that name. With no candidate and with none that dials it returns an error.
\<close>

definition getStream ::
  "(string \<rightharpoonup> svc) \<Rightarrow> int \<Rightarrow> (svc \<Rightarrow> 'e + 'st) \<Rightarrow> selector \<Rightarrow> ('e dial_error option + svc \<times> 'st) \<times> selector" where
  "getStream services now pick r =
     (case candidates services now r of
        (cands, r') \<Rightarrow> (if cands = [] then Inl (Some NoMember) else dial_loop pick None cands, r'))"

definition GetStreamWithCrypto ::
  "(string \<rightharpoonup> svc) \<Rightarrow> int \<Rightarrow> (svc \<Rightarrow> 'e + 'st) \<Rightarrow> (svc \<Rightarrow> crypto_helper) \<Rightarrow> selector
   \<Rightarrow> ('e dial_error + 'st \<times> crypto_helper) \<times> selector" where
  "GetStreamWithCrypto services now dial crypto r =
     (case candidates services now r of
        (cands, r') \<Rightarrow>
          (if cands = [] then Inl NoMember
           else (case dial_loop dial None cands of
                   Inl None \<Rightarrow> Inl AllDialsFailed
                 | Inl (Some e) \<Rightarrow> Inl e
                 | Inr (s, stream) \<Rightarrow> Inr (stream, crypto s)), r'))"

fun pick_loop :: "'e dial_error option \<Rightarrow> svc list \<Rightarrow> 'e dial_error option + svc" where
  "pick_loop lastErr [] = Inl lastErr"
| "pick_loop lastErr (s # ss) =
     (case dialerOf s of
        Some d \<Rightarrow> Inr d
      | None \<Rightarrow> pick_loop (Some (NoOutput (Name (sv_cfg s)))) ss)"

definition pickDialer :: "(string \<rightharpoonup> svc) \<Rightarrow> int \<Rightarrow> selector \<Rightarrow> ('e dial_error + svc) \<times> selector" where
  "pickDialer services now r =
     (case candidates services now r of
        (cands, r') \<Rightarrow>
          (case pick_loop None cands of
             Inr d \<Rightarrow> Inr d
           | Inl (Some e) \<Rightarrow> Inl e
           | Inl None \<Rightarrow> Inl NoMember, r'))"

definition failover_QualitySummary :: "(string \<rightharpoonup> svc) \<Rightarrow> int \<Rightarrow> selector \<Rightarrow> quality_summary \<times> selector" where
  "failover_QualitySummary services now r =
     (case candidates services now r of
        (s # _, r') \<Rightarrow> (sv_summary s, r')
      | ([], r') \<Rightarrow> (\<lparr>su_Status = QualityStatusDown, su_RTTMs = 0, su_LossPct = 0,
                       su_LastError = ''no available member''\<rparr>, r'))"

fun first_server :: "svc list \<Rightarrow> svc option" where
  "first_server [] = None"
| "first_server (s # ss) = (if sv_kind s = KServer then Some s else first_server ss)"

definition failover_QualitySnapshot ::
  "(svc \<Rightarrow> quality_snapshot) \<Rightarrow> (string \<rightharpoonup> svc) \<Rightarrow> int \<Rightarrow> selector \<Rightarrow> quality_snapshot \<times> selector" where
  "failover_QualitySnapshot snapshot services now r =
     (case candidates services now r of
        (cands, r') \<Rightarrow> (case first_server cands of None \<Rightarrow> snapshot_down QualityStatusDown | Some s \<Rightarrow> snapshot s, r'))"

definition failover_ProbeConfig :: "(svc \<Rightarrow> extend) \<Rightarrow> (string \<rightharpoonup> svc) \<Rightarrow> int \<Rightarrow> selector \<Rightarrow> extend \<times> selector" where
  "failover_ProbeConfig probeConfig services now r =
     (case candidates services now r of
        (cands, r') \<Rightarrow> (case first_server cands of None \<Rightarrow> extend_zero | Some s \<Rightarrow> probeConfig s, r'))"

definition failover_FrameHeaderEnabled :: "(svc \<Rightarrow> bool) \<Rightarrow> (string \<rightharpoonup> svc) \<Rightarrow> int \<Rightarrow> selector \<Rightarrow> bool \<times> selector" where
  "failover_FrameHeaderEnabled enabled services now r =
     (case candidates services now r of
        (cands, r') \<Rightarrow> (case first_server cands of None \<Rightarrow> False | Some s \<Rightarrow> enabled s, r'))"

section \<open>The watcher and the listings of a route\<close>

text \<open>\<open>watchSwitch\<close>: the name polled at the start, then one per tick, with the time of each poll.\<close>

fun watch_ticks :: "string \<Rightarrow> (int \<times> string) list \<Rightarrow> switch_event list \<Rightarrow> string \<times> switch_event list" where
  "watch_ticks lst [] es = (lst, es)"
| "watch_ticks lst ((now, cur) # polls) es =
     (if cur \<noteq> lst then watch_ticks cur polls (record_switch now lst cur es) else watch_ticks lst polls es)"

definition watchSwitch :: "int \<times> string \<Rightarrow> (int \<times> string) list \<Rightarrow> string \<times> switch_event list" where
  "watchSwitch start polls =
     watch_ticks (snd start) polls (if snd start \<noteq> [] then record_switch (fst start) [] (snd start) [] else [])"

definition MemberHealth :: "(string \<rightharpoonup> svc) \<Rightarrow> route_config \<Rightarrow> string \<rightharpoonup> quality_status" where
  "MemberHealth services cfg name =
     (if name \<in> set (r_Members cfg)
      then Some (case services name of Some s \<Rightarrow> su_Status (sv_summary s) | None \<Rightarrow> QualityStatusDisabled)
      else None)"

fun probe_members :: "(svc \<Rightarrow> bool) \<Rightarrow> (string \<rightharpoonup> svc) \<Rightarrow> string list \<Rightarrow> bool" where
  "probe_members probe services [] = False"
| "probe_members probe services (n # ns) =
     (let rest = probe_members probe services ns in
      case services n of None \<Rightarrow> rest | Some s \<Rightarrow> probe s \<or> rest)"

definition route_Cfg :: "route_config \<Rightarrow> config" where
  "route_Cfg cfg =
     \<lparr>UUID = r_UUID cfg, Name = r_Name cfg, Disabled = r_Disabled cfg, Mode = [], Input = [], InProtoCfg = [],
      InDecryptMode = [], InDecryptKey = [], InExtend = [], Output = [], OutProtoCfg = [], OutCryptMode = [],
      OutCryptKey = [], OutExtend = [], CreatedAt = r_CreatedAt cfg\<rparr>"

section \<open>Interface: a source of candidates\<close>

text \<open>
  What the failover loops rely on: every candidate is fit to serve. The loops then return a fit
  member that works whenever there is one, the first in the order given, and fail only when every
  candidate was tried and failed.
\<close>

definition dial_ok :: "(svc \<Rightarrow> 'e + 'st) \<Rightarrow> svc \<Rightarrow> bool" where
  "dial_ok pick s \<longleftrightarrow> sv_kind s = KServer \<and> (case pick s of Inl _ \<Rightarrow> False | Inr _ \<Rightarrow> True)"

lemma dial_loop_Inr:
  "dial_loop pick e ss = Inr (s, st) \<Longrightarrow>
   \<exists>as bs. ss = as @ s # bs \<and> list_all (\<lambda>x. \<not> dial_ok pick x) as \<and> sv_kind s = KServer \<and> pick s = Inr st"
proof (induction ss arbitrary: e)
  case (Cons x ss)
  show ?case
  proof (cases "dial_ok pick x")
    case True
    then have "x = s" "sv_kind s = KServer" "pick s = Inr st"
      using Cons.prems by (auto simp: dial_ok_def dialerOf_def split: sum.splits)
    then have "x # ss = [] @ s # ss \<and> list_all (\<lambda>x. \<not> dial_ok pick x) [] \<and> sv_kind s = KServer \<and> pick s = Inr st" by simp
    then show ?thesis by blast
  next
    case False
    then obtain e' where "dial_loop pick e' ss = Inr (s, st)"
      using Cons.prems by (cases "pick x") (auto simp: dialerOf_def dial_ok_def split: if_splits)
    then obtain as bs where "ss = as @ s # bs \<and> list_all (\<lambda>x. \<not> dial_ok pick x) as \<and> sv_kind s = KServer \<and> pick s = Inr st"
      using Cons.IH by blast
    then have "x # ss = (x # as) @ s # bs \<and> list_all (\<lambda>x. \<not> dial_ok pick x) (x # as) \<and> sv_kind s = KServer \<and> pick s = Inr st"
      using False by simp
    then show ?thesis by blast
  qed
qed simp

lemma dial_loop_Inl:
  "dial_loop pick e ss = Inl e' \<Longrightarrow> list_all (\<lambda>x. \<not> dial_ok pick x) ss \<and> (ss \<noteq> [] \<longrightarrow> e' \<noteq> None)"
proof (induction ss arbitrary: e)
  case (Cons x ss)
  then have nx: "\<not> dial_ok pick x" by (auto simp: dial_ok_def dialerOf_def split: sum.splits)
  then obtain w where "dial_loop pick (Some w) ss = Inl e'"
    using Cons.prems by (cases "pick x") (auto simp: dialerOf_def dial_ok_def split: if_splits)
  then show ?case using Cons.IH [of "Some w"] nx by (cases ss) auto
qed simp

lemma forward_loop_Inr:
  "forward_loop fn e ss = (Inr s, tried) \<Longrightarrow>
   \<exists>as bs. ss = as @ s # bs \<and> tried = as @ [s] \<and> list_all (\<lambda>x. \<not> fst (fn x)) as \<and> fst (fn s)"
proof (induction ss arbitrary: e tried)
  case (Cons x ss)
  obtain ok err where f: "fn x = (ok, err)" by force
  show ?case
  proof (cases ok)
    case True
    then have "x # ss = [] @ s # ss \<and> tried = [] @ [s] \<and> list_all (\<lambda>x. \<not> fst (fn x)) [] \<and> fst (fn s)"
      using f Cons.prems by auto
    then show ?thesis by blast
  next
    case False
    then obtain e1 tr where "forward_loop fn e1 ss = (Inr s, tr)" "tried = x # tr"
      using f Cons.prems by (auto split: prod.splits)
    then obtain as bs where "ss = as @ s # bs \<and> tried = x # as @ [s] \<and> list_all (\<lambda>x. \<not> fst (fn x)) as \<and> fst (fn s)"
      using Cons.IH by blast
    then have "x # ss = (x # as) @ s # bs \<and> tried = (x # as) @ [s] \<and> list_all (\<lambda>x. \<not> fst (fn x)) (x # as) \<and> fst (fn s)"
      using f False by simp
    then show ?thesis by blast
  qed
qed simp

lemma forward_loop_Inl:
  "forward_loop fn e ss = (Inl e', tried) \<Longrightarrow> tried = ss \<and> list_all (\<lambda>x. \<not> fst (fn x)) ss"
proof (induction ss arbitrary: e tried)
  case (Cons x ss)
  then obtain err e1 tr where "fn x = (False, err)" "forward_loop fn e1 ss = (Inl e', tr)" "tried = x # tr"
    by (auto split: prod.splits bool.splits)
  then show ?case using Cons.IH by simp
qed simp

locale candidate_source =
  fixes cands :: "'c \<Rightarrow> svc list" and fit :: "'c \<Rightarrow> svc \<Rightarrow> bool"
  assumes cands_fit: "s \<in> set (cands c) \<Longrightarrow> fit c s"
begin

lemma dial_first_fit:
  "dial_loop pick e (cands c) = Inr (s, st) \<Longrightarrow>
   fit c s \<and> sv_kind s = KServer \<and> pick s = Inr st \<and> (\<exists>as bs. cands c = as @ s # bs \<and> list_all (\<lambda>x. \<not> dial_ok pick x) as)"
  using dial_loop_Inr [of pick e "cands c" s st] cands_fit by fastforce

lemma dial_complete: "s \<in> set (cands c) \<Longrightarrow> dial_ok pick s \<Longrightarrow> \<exists>s' st. dial_loop pick e (cands c) = Inr (s', st)"
  using dial_loop_Inl [of pick e "cands c"] by (cases "dial_loop pick e (cands c)") (auto simp: list_all_iff)

lemma forward_fit:
  "forward_loop fn e (cands c) = (Inr s, tried) \<Longrightarrow> fit c s \<and> fst (fn s)"
  using forward_loop_Inr [of fn e "cands c" s tried] cands_fit by fastforce

lemma forward_complete:
  "s \<in> set (cands c) \<Longrightarrow> fst (fn s) \<Longrightarrow> \<exists>s' tried. forward_loop fn e (cands c) = (Inr s', tried)"
proof -
  assume s: "s \<in> set (cands c)" "fst (fn s)"
  obtain res tried where r: "forward_loop fn e (cands c) = (res, tried)" by force
  then show ?thesis using forward_loop_Inl [of fn e "cands c" _ tried] s by (cases res) (auto simp: list_all_iff)
qed

end

section \<open>Library: the selector provides candidates\<close>

lemma collect_members_filter:
  "collect_members services r ns = List.map_filter (\<lambda>n. case services n of None \<Rightarrow> None | Some s \<Rightarrow> if usable r s then Some s else None) ns"
  by (induction ns) (auto simp: List.map_filter_simps split: option.splits)

lemma collect_members_set:
  "s \<in> set (collect_members services r ns) \<longleftrightarrow> (\<exists>n\<in>set ns. services n = Some s) \<and> usable r s"
  by (induction ns) (auto split: option.splits)

lemma name_index_Some:
  "name_index n ss = Some i \<Longrightarrow> i < length ss \<and> Name (sv_cfg (ss ! i)) = n"
  by (induction ss arbitrary: i) (auto split: if_splits)

lemma name_index_in: "n \<in> (\<lambda>s. Name (sv_cfg s)) ` set ss \<Longrightarrow> \<exists>i. name_index n ss = Some i"
  by (induction ss) auto

lemma move_front_spec:
  "mset (move_front n ss) = mset ss \<and>
   (n \<in> (\<lambda>s. Name (sv_cfg s)) ` set ss \<longrightarrow>
      (\<exists>as x bs. ss = as @ x # bs \<and> move_front n ss = x # as @ bs \<and> Name (sv_cfg x) = n))"
proof (cases "name_index n ss")
  case None
  then show ?thesis using name_index_in [of n ss] by (auto simp: move_front_def)
next
  case (Some i)
  then have i: "i < length ss" "Name (sv_cfg (ss ! i)) = n" using name_index_Some by auto
  have e: "ss = take i ss @ ss ! i # drop (Suc i) ss" using i by (simp add: id_take_nth_drop)
  have m: "move_front n ss = ss ! i # take i ss @ drop (Suc i) ss" using Some by (simp add: move_front_def)
  have "mset (move_front n ss) = mset (take i ss @ ss ! i # drop (Suc i) ss)" unfolding m by simp
  then show ?thesis using e m i by (metis)
qed

lemma set_candidates: "set (fst (candidates services now r)) = set (collect_members services r (sl_members r))"
proof (cases "sl_quality r")
  case None
  then show ?thesis by (simp add: candidates_def)
next
  case (Some q)
  let ?out = "collect_members services r (sl_members r)"
  have "fst (candidates services now r) = move_front (fst (monitor_preferred (map (\<lambda>s. Name (sv_cfg s)) ?out) now q)) ?out"
    using Some by (simp add: candidates_def Let_def split: prod.splits)
  then show ?thesis using move_front_spec mset_eq_setD by metis
qed

definition selector_cands :: "(string \<rightharpoonup> svc) \<times> int \<times> selector \<Rightarrow> svc list" where
  "selector_cands x = (case x of (services, now, r) \<Rightarrow> fst (candidates services now r))"

definition selector_fit :: "(string \<rightharpoonup> svc) \<times> int \<times> selector \<Rightarrow> svc \<Rightarrow> bool" where
  "selector_fit x s = (case x of (services, now, r) \<Rightarrow> (\<exists>n\<in>set (sl_members r). services n = Some s) \<and> usable r s)"

interpretation routes: candidate_source selector_cands selector_fit
  by unfold_locales (auto simp: selector_cands_def selector_fit_def set_candidates collect_members_set)

lemma candidates_quality:
  assumes "sl_quality r = Some q" "run = collect_members services r (sl_members r)"
    and "p = monitor_preferred (map (\<lambda>s. Name (sv_cfg s)) run) now q"
  shows "candidates services now r = (move_front (fst p) run, r\<lparr>sl_quality := Some (snd p)\<rparr>)"
  using assms by (simp add: candidates_def Let_def split: prod.splits)

lemma monitor_preferred_in: "names \<noteq> [] \<Longrightarrow> fst (monitor_preferred names now q) \<in> set names"
  using ensureCurrent_in [of names now q] by (simp add: monitor_preferred_def Let_def)

lemma first_alive_spec:
  assumes "\<And>n s. services n = Some s \<Longrightarrow> Name (sv_cfg s) = n" "sl_quality r = None"
  shows "first_alive services ns = (case collect_members services r ns of [] \<Rightarrow> [] | s # _ \<Rightarrow> Name (sv_cfg s))"
  using assms by (induction ns) (auto simp: usable_def split: option.splits)

section \<open>Properties\<close>

text \<open>A running server under a given name, for the witnesses.\<close>

definition server_named :: "string \<Rightarrow> svc" where
  "server_named n = \<lparr>sv_id = length n, sv_cfg = sample_member\<lparr>Name := n\<rparr>, sv_status = ''running'',
     sv_summary = Summary None, sv_kind = KServer\<rparr>"

definition two_services :: "string \<rightharpoonup> svc" where
  "two_services = [''a'' \<mapsto> server_named ''a'', ''b'' \<mapsto> server_named ''b'']"

text \<open>
  The candidates are exactly the members that can serve, in order. Without a monitor they are
  the members that are alive, in priority order; with one they are the running members, the
  monitor's preferred one first and the others in priority order, and the monitor remembers that
  preference. No member is lost or duplicated by moving the preferred one to the front.
\<close>

theorem candidates_ordered:
  "let run = List.map_filter (\<lambda>n. case services n of None \<Rightarrow> None | Some s \<Rightarrow> if usable r s then Some s else None) (sl_members r);
       (cs, r') = candidates services now r
   in mset cs = mset run \<and> sl_members r' = sl_members r \<and>
      (case sl_quality r of
         None \<Rightarrow> cs = run \<and> r' = r
       | Some q \<Rightarrow> \<exists>q'. sl_quality r' = Some q' \<and>
           (run \<noteq> [] \<longrightarrow> (\<exists>as c bs. run = as @ c # bs \<and> cs = c # as @ bs \<and> Name (sv_cfg c) = q_current q')))"
proof (cases "sl_quality r")
  case None
  then show ?thesis by (simp add: candidates_def Let_def collect_members_filter)
next
  case (Some q)
  define run where "run = collect_members services r (sl_members r)"
  define p where "p = monitor_preferred (map (\<lambda>s. Name (sv_cfg s)) run) now q"
  have c: "candidates services now r = (move_front (fst p) run, r\<lparr>sl_quality := Some (snd p)\<rparr>)"
    using candidates_quality [OF Some run_def p_def] .
  have "\<exists>as c bs. run = as @ c # bs \<and> move_front (fst p) run = c # as @ bs \<and> Name (sv_cfg c) = q_current (snd p)"
    if "run \<noteq> []"
    using that move_front_spec [of "fst p" run] monitor_preferred_in [of "map (\<lambda>s. Name (sv_cfg s)) run" now q]
    by (auto simp: p_def monitor_preferred_def Let_def)
  then show ?thesis using move_front_spec [of "fst p" run] Some c
    by (simp add: Let_def run_def [symmetric] collect_members_filter [symmetric])
qed

theorem candidates_ordered_witness:
  "\<exists>r'. candidates two_services 0 \<lparr>sl_members = [''a'', ''x'', ''b''], sl_quality = Some two_rounds\<rparr> =
     ([server_named ''a'', server_named ''b''], r')"
proof -
  let ?r = "\<lparr>sl_members = [''a'', ''x'', ''b''], sl_quality = Some two_rounds\<rparr>"
  obtain cs r' where c: "candidates two_services 0 ?r = (cs, r')" by force
  have run: "collect_members two_services ?r [''a'', ''x'', ''b''] = [server_named ''a'', server_named ''b'']"
    by (simp add: two_services_def usable_def server_named_def sample_member_def memberRunning_def)
  have cur: "monitor_preferred [''a'', ''b''] 0 two_rounds = (''a'', two_rounds)"
    by (simp add: monitor_preferred_def ensureCurrentLocked_def two_rounds_facts Let_def)
  have "cs = [server_named ''a'', server_named ''b'']"
    using c run cur by (simp add: candidates_def Let_def server_named_def move_front_def)
  moreover have "mset cs = mset [server_named ''a'', server_named ''b'']"
    using candidates_ordered [where services = two_services and r = ?r and now = 0] run c by (simp add: Let_def collect_members_filter [symmetric])
  ultimately show ?thesis using c by simp
qed

text \<open>
  C18: Failover takes the first member that works. Obtaining a stream dials the candidates in
  their order and returns the stream of the first member that has an output (a tunnel of the ordinary
  server kind) and whose dialling succeeds; that member is configured, registered and usable. It
  reports an error, never an empty result, exactly when every candidate has no output or fails.
\<close>

theorem failover_first_working:
  "let cs = fst (candidates services now r); works = (\<lambda>x. sv_kind x = KServer \<and> (\<exists>st. pick x = Inr st)) in
   (case fst (getStream services now pick r) of
      Inr (s, st) \<Rightarrow> (\<exists>n\<in>set (sl_members r). services n = Some s) \<and> usable r s \<and> sv_kind s = KServer \<and> pick s = Inr st \<and>
         (\<exists>as bs. cs = as @ s # bs \<and> list_all (\<lambda>x. \<not> works x) as)
    | Inl e \<Rightarrow> e \<noteq> None) \<and>
   ((\<exists>e. fst (getStream services now pick r) = Inl e) \<longleftrightarrow> list_all (\<lambda>x. \<not> works x) cs)"
proof -
  obtain cs r' where c: "candidates services now r = (cs, r')" by force
  have sc: "selector_cands (services, now, r) = cs" using c by (simp add: selector_cands_def)
  have w: "dial_ok pick = (\<lambda>x. sv_kind x = KServer \<and> (\<exists>st. pick x = Inr st))"
    by (auto simp: dial_ok_def fun_eq_iff split: sum.split)
  show ?thesis
  proof (cases "cs = [] \<or> (\<exists>e. dial_loop pick None cs = Inl e)")
    case True
    then show ?thesis using c dial_loop_Inl [of pick None cs] w by (auto simp: getStream_def Let_def)
  next
    case False
    then obtain s st where d: "dial_loop pick None cs = Inr (s, st)" by (cases "dial_loop pick None cs") auto
    have g: "fst (getStream services now pick r) = Inr (s, st)" using False c d by (simp add: getStream_def)
    have f: "selector_fit (services, now, r) s" "sv_kind s = KServer" "pick s = Inr st"
      "\<exists>as bs. cs = as @ s # bs \<and> list_all (\<lambda>x. \<not> dial_ok pick x) as"
      using routes.dial_first_fit [of pick None "(services, now, r)" s st] d unfolding sc by simp_all
    then have "\<not> list_all (\<lambda>x. \<not> dial_ok pick x) cs" unfolding w by auto
    then show ?thesis unfolding g c Let_def using f by (simp add: selector_fit_def w)
  qed
qed

theorem failover_first_working_witness:
  "fst (getStream two_services 0 (\<lambda>s. if Name (sv_cfg s) = ''a'' then Inl () else Inr (7 :: nat))
      (newRouteSelector [''a'', ''b''])) = Inr (server_named ''b'', 7)"
proof -
  let ?r = "newRouteSelector [''a'', ''b'']"
  let ?pick = "\<lambda>s. if Name (sv_cfg s) = ''a'' then Inl () else Inr (7 :: nat)"
  have cs: "fst (candidates two_services 0 ?r) = [server_named ''a'', server_named ''b'']"
    by (simp add: newRouteSelector_def candidates_def Let_def two_services_def usable_def memberAlive_def
        server_named_def sample_member_def Summary_def Snapshot_def snapshot_down_def)
  have nb: "dial_ok ?pick (server_named ''b'')" "\<not> dial_ok ?pick (server_named ''a'')"
    by (simp_all add: dial_ok_def server_named_def)
  have nn: "Name (sv_cfg (server_named n)) = n" for n by (simp add: server_named_def)
  show ?thesis using failover_first_working [where services = two_services and now = 0 and pick = ?pick and r = ?r] unfolding cs
    using nb by (auto simp: Cons_eq_append_conv nn dial_ok_def Let_def split: sum.splits)
qed

text \<open>
  A stream is wrapped with the settings of the member that dialled it: stream and crypto
  helper returned by \<open>GetStreamWithCrypto\<close> always belong to one and the same usable member, also
  after members before it failed, and some member that dials is found whenever one exists.
\<close>

theorem stream_and_crypto_agree:
  "(fst (GetStreamWithCrypto services now dial crypto r) = Inr (st, ch) \<longrightarrow>
      (\<exists>n s. n \<in> set (sl_members r) \<and> services n = Some s \<and> usable r s \<and> dial s = Inr st \<and> ch = crypto s)) \<and>
   (n \<in> set (sl_members r) \<and> services n = Some s \<and> usable r s \<and> dial_ok dial s \<longrightarrow>
      (\<exists>x. fst (GetStreamWithCrypto services now dial crypto r) = Inr x))"
proof -
  obtain cs r' where c: "candidates services now r = (cs, r')" by force
  have sc: "selector_cands (services, now, r) = cs" using c by (simp add: selector_cands_def)
  have "\<exists>n s. n \<in> set (sl_members r) \<and> services n = Some s \<and> usable r s \<and> dial s = Inr st \<and> ch = crypto s"
    if g: "fst (GetStreamWithCrypto services now dial crypto r) = Inr (st, ch)"
  proof -
    obtain s where s: "dial_loop dial None cs = Inr (s, st)" "ch = crypto s"
      using g c by (auto simp: GetStreamWithCrypto_def split: if_splits sum.splits option.splits)
    then show ?thesis using routes.dial_first_fit [of dial None "(services, now, r)" s st]
      unfolding sc by (auto simp: selector_fit_def)
  qed
  moreover have "\<exists>x. fst (GetStreamWithCrypto services now dial crypto r) = Inr x"
    if h: "n \<in> set (sl_members r)" "services n = Some s" "usable r s" "dial_ok dial s"
  proof -
    have s: "s \<in> set cs" using h set_candidates [of services now r] c by (auto simp: collect_members_set)
    then obtain s' st' where "dial_loop dial None cs = Inr (s', st')"
      using routes.dial_complete [of s "(services, now, r)" dial None] h(4) unfolding sc by blast
    then show ?thesis using c s by (auto simp: GetStreamWithCrypto_def)
  qed
  ultimately show ?thesis by blast
qed

theorem stream_and_crypto_agree_witness:
  "\<exists>x. fst (GetStreamWithCrypto two_services 0 (\<lambda>s. (Inr 7 :: unit + nat)) (\<lambda>_. toy_helper)
      (newRouteSelector [''a'', ''b''])) = Inr x"
proof -
  let ?r = "newRouteSelector [''a'', ''b'']"
  have "''a'' \<in> set (sl_members ?r) \<and> two_services ''a'' = Some (server_named ''a'') \<and> usable ?r (server_named ''a'') \<and>
      dial_ok (\<lambda>s. (Inr 7 :: unit + nat)) (server_named ''a'')"
    by (simp add: newRouteSelector_def two_services_def usable_def memberAlive_def dial_ok_def
        server_named_def sample_member_def Summary_def Snapshot_def snapshot_down_def)
  then show ?thesis using stream_and_crypto_agree [where services = two_services and now = 0 and r = ?r
      and dial = "\<lambda>s. (Inr 7 :: unit + nat)" and crypto = "\<lambda>_. toy_helper"] by blast
qed

text \<open>
  The listed preference is the member that serves next: as long as the manager files every
  service under its own name, \<open>preferred\<close> is the name of the first candidate, and empty when there
  is none, with and without a monitor.
\<close>

theorem preferred_is_first_candidate:
  assumes "\<forall>n s. services n = Some s \<longrightarrow> Name (sv_cfg s) = n"
  shows "fst (selector_preferred services now r) =
         (case fst (candidates services now r) of [] \<Rightarrow> [] | c # _ \<Rightarrow> Name (sv_cfg c))"
proof (cases "sl_quality r")
  case None
  then show ?thesis using first_alive_spec [of services r "sl_members r"] assms
    by (simp add: selector_preferred_def candidates_def)
next
  case (Some q)
  then show ?thesis by (auto simp: selector_preferred_def split: list.splits prod.splits)
qed

theorem preferred_is_first_candidate_witness:
  "fst (selector_preferred two_services 0 (newRouteSelector [''b'', ''a''])) = ''b''"
proof -
  have n: "\<forall>n s. two_services n = Some s \<longrightarrow> Name (sv_cfg s) = n"
    by (auto simp: two_services_def server_named_def split: if_splits)
  have cs: "fst (candidates two_services 0 (newRouteSelector [''b'', ''a''])) = [server_named ''b'', server_named ''a'']"
    by (simp add: newRouteSelector_def candidates_def Let_def two_services_def usable_def memberAlive_def
        server_named_def sample_member_def Summary_def Snapshot_def snapshot_down_def)
  show ?thesis using preferred_is_first_candidate [OF n, of 0 "newRouteSelector [''b'', ''a'']"] unfolding cs
    by (simp add: server_named_def)
qed

text \<open>
  Transparent forwarding tries the members one by one: the members tried are the candidates up
  to and including the first that accepts the connection, all of them when none does, and an error
  is reported only then or when there is no candidate.
\<close>

theorem tryForward_tries_in_order:
  "case tryForward services now fn r of
     (Inr s, tried, _) \<Rightarrow> fst (fn s) \<and> usable r s \<and>
        (\<exists>as bs. fst (candidates services now r) = as @ s # bs \<and> tried = as @ [s] \<and> list_all (\<lambda>x. \<not> fst (fn x)) as)
   | (Inl e, tried, _) \<Rightarrow> tried = fst (candidates services now r) \<and> list_all (\<lambda>x. \<not> fst (fn x)) tried \<and>
        (e = NoCandidate \<longleftrightarrow> tried = [])"
proof -
  obtain cs r' where c: "candidates services now r = (cs, r')" by force
  have sc: "selector_cands (services, now, r) = cs" using c by (simp add: selector_cands_def)
  obtain res tried where l: "forward_loop fn None cs = (res, tried)" by force
  show ?thesis
  proof (cases "cs = []")
    case True
    then show ?thesis using c by (simp add: tryForward_def)
  next
    case False
    show ?thesis
    proof (cases res)
      case (Inl e)
      then show ?thesis using False c l forward_loop_Inl [of fn None cs e tried] by (simp add: tryForward_def)
    next
      case (Inr s)
      have "usable r s \<and> fst (fn s)"
        using routes.forward_fit [of fn None "(services, now, r)" s tried] l Inr unfolding sc by (auto simp: selector_fit_def)
      then show ?thesis using False c l Inr forward_loop_Inr [of fn None cs s tried] by (auto simp: tryForward_def)
    qed
  qed
qed

lemma watch_ticks_chain:
  assumes "chained es" "es \<noteq> [] \<Longrightarrow> ev_To (last es) = lst" "es = [] \<Longrightarrow> lst = []" "length es \<le> 20"
  shows "let (l, es') = watch_ticks lst polls es in
           chained es' \<and> length es' \<le> 20 \<and> (es' \<noteq> [] \<longrightarrow> ev_To (last es') = l) \<and>
           l = (if polls = [] then lst else snd (last polls))"
  using assms
proof (induction polls arbitrary: lst es)
  case (Cons p polls)
  obtain now cur where p: "p = (now, cur)" by force
  show ?case
  proof (cases "cur = lst")
    case True
    then show ?thesis using Cons.IH [of es lst] Cons.prems p by (cases polls) (simp_all add: split_def Let_def)
  next
    case False
    let ?e = "\<lparr>ev_Time = now, ev_From = lst, ev_To = cur, ev_Reason = ByPriority\<rparr>"
    let ?es = "record_switch now lst cur es"
    have r: "?es = take_last 20 (es @ [?e])" by (simp add: record_switch_def recordReason_take_last routeSwitchLogMax_def)
    have "chained (es @ [?e])" using Cons.prems by (auto simp: chained_snoc)
    then have "chained ?es" unfolding r take_last_def by (rule chained_drop)
    moreover have "?es \<noteq> []" "ev_To (last ?es) = cur" "length ?es \<le> 20"
      unfolding r by (simp_all add: take_last_def last_drop)
    ultimately show ?thesis using Cons.IH [of ?es cur] False p by (cases polls) (simp_all add: split_def Let_def)
  qed
qed simp

text \<open>
  The watcher's log is consistent: whatever names it polls, the log holds at most twenty
  entries, each starts where the previous one ended, and the last one ends at the name polled
  last; it is empty only while nothing was ever preferred.
\<close>

theorem watch_log_consistent:
  "let (l, es) = watchSwitch start polls in
     chained es \<and> length es \<le> 20 \<and> l = snd (last (start # polls)) \<and> (es \<noteq> [] \<longrightarrow> ev_To (last es) = l)"
proof -
  let ?es = "if snd start \<noteq> [] then record_switch (fst start) [] (snd start) [] else []"
  have i: "chained ?es" "?es \<noteq> [] \<Longrightarrow> ev_To (last ?es) = snd start" "?es = [] \<Longrightarrow> snd start = []" "length ?es \<le> 20"
    by (auto simp: record_switch_def recordReason_def routeSwitchLogMax_def Let_def split: if_splits)
  show ?thesis using watch_ticks_chain [OF i, of polls] by (simp add: watchSwitch_def split_def Let_def)
qed

theorem watch_log_consistent_witness:
  "map ev_To (snd (watchSwitch (0, ''a'') [(1, ''a''), (2, ''b''), (3, [])])) = [''a'', ''b'', []] \<and>
   ev_To (last (snd (watchSwitch (0, ''a'') [(1, ''a''), (2, ''b''), (3, [])]))) = []"
proof -
  have e: "map ev_To (snd (watchSwitch (0, ''a'') [(1, ''a''), (2, ''b''), (3, [])])) = [''a'', ''b'', []]" by code_simp
  then have "snd (watchSwitch (0, ''a'') [(1, ''a''), (2, ''b''), (3, [])]) \<noteq> []" by (metis list.simps(8) list.distinct(1))
  then show ?thesis using watch_log_consistent [of "(0, ''a'')" "[(1, ''a''), (2, ''b''), (3, [])]"] e
    by (simp add: split_def Let_def)
qed

end
