(* ===== verification/Spec2Isabelle.thy ===== *)
theory Spec2Isabelle
  imports UiServer UiScript RouteScript Contrast HistoryScript TunnelPage MtrPanel Auth Manager Endpoint Frame Gcm Quality RouteConfig RouteMonitor RouteSelector
begin

text \<open>
  A verification development for gotun, a tunnel program: tunnels carry streams from an input
  endpoint to an output endpoint over several transports, smart routes choose among tunnels by
  priority or measured quality, and an admin server with a web interface configures both.

  \<^bold>\<open>The program and its models.\<close>

  \<^item> The list pages of the web interface share \<open>src/admin/resource/dist/js/admin-ui.js\<close>. \<open>AdminUi\<close>
    holds its row helpers (\<open>isRunning\<close>, \<open>countRows\<close>, \<open>stateLabel\<close>, ...), the computed properties of
    the list mixin and its methods as a state machine: the record \<open>page\<close> is the component's data,
    \<open>ui_step\<close> one event, and the promises under way are the list \<open>inflight\<close>, answered in any order.
    The endpoint helpers of \<open>src/admin/view/layout/default.html\<close> (\<open>splitEndpoint\<close>, \<open>buildEndpoint\<close>,
    ...) are there too.
  \<^item> \<open>src/scripts/test-admin-ui.cjs\<close> drives the pages against an API kept in memory. \<open>MockApi\<close> holds
    its fixtures, its state (record \<open>mock\<close>) and the handler \<open>api\<close>; \<open>UiSession\<close> puts a page and the
    API together through URLs, bodies and replies. \<open>UiServer\<close> is the whole server of the script, with
    the static files; \<open>Contrast\<close> its readability check. The script itself, what it does on the pages and
    what it asserts, is \<open>UiScript\<close> (the tunnel page: list, filters, switch, edit form, diagnosis,
    clone, import, export, delete, checks, probing), \<open>RouteScript\<close> (the route and service pages) and
    \<open>HistoryScript\<close> (the history panel). A section maps page and server to their next state, or to
    \<open>None\<close> when an assertion fails. \<open>JsValues\<close> holds the JavaScript values, objects and coercions the
    pages and the API share.
  \<^item> \<open>TunnelForm\<close> is the edit and the create page of a tunnel, \<open>src/admin/view/tunnel/edit.html\<close> and
    \<open>create.html\<close> (record \<open>form_page\<close>, \<open>form_step\<close>), with the default settings of a side from
    \<open>default.html\<close>. \<open>RouteForms\<close> is the pages \<open>route_input/list.html\<close>, \<open>route_output/list.html\<close> and
    \<open>service/list.html\<close> (record \<open>config_page\<close>): the forms in their windows, their payloads, the order of
    the members, the labels of the probes, and every request the pages make.
  \<^item> The probe history panel of \<open>src/admin/view/tunnel/list.html\<close> is \<open>HistoryPanel\<close> (record \<open>panel\<close>,
    \<open>panel_step\<close>), with the API behind it (\<open>world_step\<close>). \<open>Dates\<close> models the part of the JavaScript
    date library the panel and the script use. \<open>TunnelPage\<close> is the probe loop of the same page
    (record \<open>probe_loop\<close>, \<open>probe_step\<close>) and the search for a free clone name, \<open>MtrPanel\<close> its MTR
    diagnosis (record \<open>mtr\<close>, \<open>mtr_step\<close>) with the event streams the browser holds open, \<open>TunnelList\<close>
    its list (record \<open>tunnel_list\<close>, \<open>t_step\<close>): switching, cloning, importing, deleting, the bandwidth
    test and the checks, each a promise that remembers the row it was made for.
  \<^item> \<open>src/admin/route/auth.go\<close>, the login of the admin server, is \<open>Auth\<close> over the text encodings of
    \<open>Tokens\<close>: challenges, sessions and their persistence, the counters against guessing with their
    timers, and every handler. A login has two steps, \<open>login_admit\<close> (the check of the counter) and
    \<open>login_examine\<close>; \<open>race_step\<close> lets those of overlapping requests come in any order.
  \<^item> The registry of tunnels and routes, \<open>src/tun/manager.go\<close> and \<open>src/tun/service.go\<close>, is \<open>Manager\<close>,
    over the file operations of \<open>src/tun/config.go\<close> in \<open>ConfigFiles\<close>. A removal has two steps, the file
    (\<open>remove_service_file\<close>) and, under the lock, the service (\<open>remove_service_locked\<close>). The directory
    maps file names to contents; where a name with a slash leads is the field \<open>io_path\<close>, and the claims
    on the disk are about plain names, which have none. They also assume that a file moved aside can be
    moved back (\<open>io_restore\<close>): the code ignores an error there, and what is lost then is stated.
  \<^item> The data path: \<open>Endpoint\<close> (\<open>src/tun/enum.go\<close>, \<open>parse.go\<close>, \<open>config.go\<close>), \<open>ByteSource\<close> (Go's
    readers), \<open>Frame\<close> (\<open>src/tun/frame_stream.go\<close>, \<open>stream_handshake.go\<close>), \<open>Gcm\<close>
    (\<open>src/pkg/crypto\<close>, \<open>src/tun/crypto_helper.go\<close>). A write the frame or the segment cannot hold is an
    error value; a chunk of 65533 to 65535 bytes fails on an encrypted stream with frames.
  \<^item> Measuring and choosing: \<open>Quality\<close> (\<open>src/tun/quality.go\<close>), \<open>RouteConfig\<close>
    (\<open>src/tun/route_config.go\<close>, \<open>route_quality_config.go\<close>), \<open>RouteMonitor\<close>
    (\<open>src/tun/route_quality.go\<close>, \<open>route_quality_probe.go\<close>, \<open>route_switch_log.go\<close>), \<open>RouteSelector\<close>
    (\<open>src/tun/route_selector.go\<close>, \<open>output_failover.go\<close>, \<open>route.go\<close>). The switch log reads the clock itself:
    the readings are the field \<open>q_clock\<close>.
  \<^item> \<open>Prelude\<close> holds the string, window and integer functions all of these share.

  \<^bold>\<open>Conventions.\<close> A definition has the name of the function it models where the name is free.
  Strings are UTF-8 byte sequences; white space and case conversion are those of ASCII. Go's sized
  integers are \<open>int\<close> or \<open>nat\<close> where the code keeps them far from their bounds and words where it does
  not (the nonce of \<open>Gcm\<close>); JavaScript numbers are integers, \<open>NaN\<close> an absent value. A raised error is
  a value of an error type or \<open>None\<close>. What the network, the disk, the clock and the scheduler decide is
  an argument (of a time control, the value it holds): replies and the order in which they arrive are events, the outcome of file operations
  and of starting a service are fields of a record passed in, and the time is a parameter of every
  operation that reads it. Code outside the repository is a parameter: AES-GCM, MD5, SHA-256 and HMAC,
  the JSON coders, \<open>url.Parse\<close> and \<open>net.LookupPort\<close>; a theorem that needs a law of one of them states it
  as a hypothesis (decryption inverts encryption, decoding inverts encoding).

  \<^bold>\<open>Interfaces.\<close> The locale \<open>byte_source\<close> is a reader that delivers a byte sequence in pieces of its
  own choosing; \<open>Frame\<close> and \<open>Gcm\<close> are proved against it and interpreted on each other, which is how
  a frame stream over an encrypted stream is composed. \<open>candidate_source\<close> is what the failover output
  relies on, \<open>token_codec\<close> what the login relies on of the two encodings, \<open>config_store\<close> what the
  registry relies on of the configuration directory; each is interpreted on the model of the code
  that provides it.

  \<^bold>\<open>What is shown.\<close> For the pages: a toggle takes effect and shows, newest load wins, at most one
  mutation per row, filters agree with the counts, the history panel shows what
  its controls say and can be read to the end, the probe loop stops when it is switched off or the page
  left, a clone gets a name that is free, an MTR window closed when no diagnosis is loading holds no connection. A form opened and
  saved unchanged changes nothing, a refused save keeps the form and the next one is shown in the list;
  switching and cloning take effect on the server and show after the delayed refresh; the tunnel page
  settles and reports every import. For the test script: its server hands out files of the repository only, whatever
  target is asked for but one with an opaque path (and ends on a file it cannot read), its contrast check is sound, and its sections pass: on the tunnel page from the
  initial records, on the route and service pages from every state that has their records, on the
  history panel at every starting time. For the login: exactly the right proof logs in, a
  challenge serves once, guesses are bounded also when requests overlap, lockouts end, sessions live and survive a
  restart as configured. For the registry: a replacement happens completely or not at all, every service is
  filed under its own name, the disk mirrors the registry, a restart restores it. For the data path:
  frames and segments are delivered intact through any fragmentation, probes match their answers. For
  routes: the monitor switches only for cause and promptly, discards overtaken rounds, never indexes
  out of range; selection is ordered and failover uses the first member that works.

  \<^bold>\<open>Loops.\<close> All functions are total. Reading loops take fuel where the number of rounds depends on the
  peer; the theorems say which fuel suffices (\<open>collect_pages\<close>, \<open>browse\<close>: one more than a fiftieth of
  the records; \<open>clone_loop\<close>: one more than the rows and the inherited properties) or are stated for every fuel large enough.

  \<^bold>\<open>Not modelled.\<close> The vendored bundles of the front end (minified Vue, iView, axios, the router); the
  markup and styles of the pages, the menu and the login page; of the test script the browser's part
  (screenshots, sizes, overflow, computed styles, the console); the transports
  (TCP, QUIC, KCP, WebSocket listeners and dialers), which are calls into network libraries; the frp
  controllers and the bandwidth test, which run over live transports; the SQL store of the probe
  history; the copy loops between connections; metrics and logging, which only produce output; the
  HTTP router and controllers of the admin server, which decode requests and call the registry.
\<close>

end
